(* ===== verification/Rust_Prelude.thy ===== *)
theory Rust_Prelude
  imports Main "HOL-Library.Word" "HOL-Library.List_Lexorder" "HOL-Library.Char_ord"
    "HOL-Library.Sublist"
begin

text \<open>
  Shared vocabulary of the development: what the daemon's Rust code uses of its language and
  of the standard library, with the lemmas the component theories rest on.

  \<^item> Machine integers: \<open>u32\<close> and \<open>u64\<close> are words; \<open>saturating_add\<close>, \<open>saturating_sub\<close> and
    \<open>saturating_mul\<close> are the methods of the same names.
  \<^item> Time: an \<open>Instant\<close> and a \<open>Duration\<close> are natural numbers of nanoseconds.
  \<^item> Text: a Rust \<open>str\<close> is the list of its bytes. White space and letter case are those of the
    ASCII range; a byte above 127 is neither a letter nor white space. Where the code calls the
    Unicode methods (\<open>trim\<close>, \<open>to_lowercase\<close>) the model is the code on ASCII text.
  \<^item> \<open>BTreeMap\<close> is an association list with strictly increasing keys, and the locale
    \<open>ordered_map\<close> is the contract its clients use.
  \<^item> \<open>Result<T, E>\<close> is the sum \<open>'e + 't\<close>, \<open>Inl\<close> being \<open>Err\<close>.
\<close>

named_theorems rust_simps \<open>equations of the modelled standard library\<close>
named_theorems inv_rules \<open>operations preserve the invariant of their component\<close>

subsection \<open>Machine integers\<close>

type_synonym u16 = "16 word"
type_synonym u32 = "32 word"
type_synonym u64 = "64 word"

definition saturating_add :: "'a::len word \<Rightarrow> 'a word \<Rightarrow> 'a word" where
  "saturating_add a b = (if unat a + unat b < 2 ^ LENGTH('a) then a + b else - 1)"

definition saturating_sub :: "'a::len word \<Rightarrow> 'a word \<Rightarrow> 'a word" where
  "saturating_sub a b = (if b \<le> a then a - b else 0)"

definition saturating_mul :: "'a::len word \<Rightarrow> 'a word \<Rightarrow> 'a word" where
  "saturating_mul a b = (if unat a * unat b < 2 ^ LENGTH('a) then a * b else - 1)"

lemma unat_max_word: "unat (- 1 :: 'a::len word) = 2 ^ LENGTH('a) - 1"
  by (simp add: unsigned_minus_1_eq_mask mask_eq_exp_minus_1)

lemma unat_saturating_add [rust_simps]:
  "unat (saturating_add a (b :: 'a::len word)) = min (unat a + unat b) (2 ^ LENGTH('a) - 1)"
  by (auto simp: saturating_add_def unat_word_ariths unat_max_word min_def)

lemma unat_saturating_sub [rust_simps]:
  "unat (saturating_sub a (b :: 'a::len word)) = unat a - unat b"
  by (auto simp: saturating_sub_def unat_sub word_le_nat_alt)

lemma unat_saturating_mul [rust_simps]:
  "unat (saturating_mul a (b :: 'a::len word)) = min (unat a * unat b) (2 ^ LENGTH('a) - 1)"
proof (cases "unat a * unat b < 2 ^ LENGTH('a)")
  case True
  then have "unat a * unat b \<le> 2 ^ LENGTH('a) - 1" by linarith
  with True show ?thesis by (simp add: saturating_mul_def unat_word_ariths min_def)
next
  case False
  then have "\<not> unat a * unat b \<le> 2 ^ LENGTH('a) - 1" by (simp add: not_less)
      (metis Suc_pred not_less_eq_eq zero_less_numeral zero_less_power)
  with False show ?thesis by (simp add: saturating_mul_def unat_max_word min_def)
qed

lemma saturating_add_mono:
  "a \<le> saturating_add a (b :: 'a::len word)"
proof -
  have "unat a < 2 ^ LENGTH('a)" by (rule unsigned_less)
  then have "unat a \<le> 2 ^ LENGTH('a) - 1" by linarith
  then show ?thesis by (simp add: word_le_nat_alt unat_saturating_add)
qed

subsection \<open>Time\<close>

type_synonym instant = nat
type_synonym duration = nat

definition nanos_per_sec :: nat where
  "nanos_per_sec = 1000000000"

definition from_secs :: "nat \<Rightarrow> duration" where
  "from_secs s = s * nanos_per_sec"

definition from_millis :: "nat \<Rightarrow> duration" where
  "from_millis ms = ms * 1000000"

definition as_secs :: "duration \<Rightarrow> nat" where
  "as_secs d = d div nanos_per_sec"

text \<open>\<open>Instant::saturating_duration_since\<close>: zero when the other instant is later, which is what
  subtraction on the naturals gives.\<close>

definition duration_since :: "instant \<Rightarrow> instant \<Rightarrow> duration" where
  "duration_since later earlier = later - earlier"

lemma as_secs_from_secs [simp, rust_simps]: "as_secs (from_secs s) = s"
  by (simp add: as_secs_def from_secs_def nanos_per_sec_def)

lemma from_secs_mono: "a \<le> b \<Longrightarrow> from_secs a \<le> from_secs b"
  by (simp add: from_secs_def)

lemma from_secs_min: "from_secs (min a b) = min (from_secs a) (from_secs b)"
  by (simp add: from_secs_def nat_mult_min_left)

lemma from_secs_le_iff [simp]: "from_secs a \<le> from_secs b \<longleftrightarrow> a \<le> b"
  by (simp add: from_secs_def nanos_per_sec_def)

subsection \<open>Text\<close>

definition is_ascii_uppercase :: "char \<Rightarrow> bool" where
  "is_ascii_uppercase c \<longleftrightarrow> CHR ''A'' \<le> c \<and> c \<le> CHR ''Z''"

definition is_ascii_lowercase :: "char \<Rightarrow> bool" where
  "is_ascii_lowercase c \<longleftrightarrow> CHR ''a'' \<le> c \<and> c \<le> CHR ''z''"

definition is_ascii_digit :: "char \<Rightarrow> bool" where
  "is_ascii_digit c \<longleftrightarrow> CHR ''0'' \<le> c \<and> c \<le> CHR ''9''"

definition is_ascii_alphanumeric :: "char \<Rightarrow> bool" where
  "is_ascii_alphanumeric c \<longleftrightarrow> is_ascii_uppercase c \<or> is_ascii_lowercase c \<or> is_ascii_digit c"

definition is_whitespace :: "char \<Rightarrow> bool" where
  "is_whitespace c \<longleftrightarrow> c \<in> {CHR '' '', CHR 0x09, CHR 0x0A, CHR 0x0B, CHR 0x0C, CHR 0x0D}"

abbreviation nl_char :: char where
  "nl_char \<equiv> CHR 0x0A"

definition lower_char :: "char \<Rightarrow> char" where
  "lower_char c = (if is_ascii_uppercase c then char_of (of_char c + (32::nat)) else c)"

definition upper_char :: "char \<Rightarrow> char" where
  "upper_char c = (if is_ascii_lowercase c then char_of (of_char c - (32::nat)) else c)"

definition to_lowercase :: "string \<Rightarrow> string" where
  "to_lowercase s = map lower_char s"

definition to_ascii_uppercase :: "string \<Rightarrow> string" where
  "to_ascii_uppercase s = map upper_char s"

definition eq_ignore_ascii_case :: "string \<Rightarrow> string \<Rightarrow> bool" where
  "eq_ignore_ascii_case a b \<longleftrightarrow> to_lowercase a = to_lowercase b"

definition trim_start_matches :: "(char \<Rightarrow> bool) \<Rightarrow> string \<Rightarrow> string" where
  "trim_start_matches p s = dropWhile p s"

definition trim_end_matches :: "(char \<Rightarrow> bool) \<Rightarrow> string \<Rightarrow> string" where
  "trim_end_matches p s = rev (dropWhile p (rev s))"

definition trim_matches :: "(char \<Rightarrow> bool) \<Rightarrow> string \<Rightarrow> string" where
  "trim_matches p s = trim_end_matches p (trim_start_matches p s)"

definition trim :: "string \<Rightarrow> string" where
  "trim s = trim_matches is_whitespace s"

definition starts_with :: "string \<Rightarrow> string \<Rightarrow> bool" where
  "starts_with s p \<longleftrightarrow> take (length p) s = p"

definition ends_with :: "string \<Rightarrow> string \<Rightarrow> bool" where
  "ends_with s p \<longleftrightarrow> length p \<le> length s \<and> drop (length s - length p) s = p"

definition strip_prefix :: "string \<Rightarrow> string \<Rightarrow> string option" where
  "strip_prefix s p = (if starts_with s p then Some (drop (length p) s) else None)"

text \<open>\<open>str::find\<close> with a string needle: the offset of the first occurrence.\<close>

fun find_sub :: "string \<Rightarrow> string \<Rightarrow> nat option" where
  "find_sub [] n = (if n = [] then Some 0 else None)"
| "find_sub (c # cs) n =
     (if starts_with (c # cs) n then Some 0 else map_option Suc (find_sub cs n))"

definition contains_sub :: "string \<Rightarrow> string \<Rightarrow> bool" where
  "contains_sub s n \<longleftrightarrow> find_sub s n \<noteq> None"

text \<open>\<open>str::split_once\<close>: the text before and after the first occurrence.\<close>

definition split_once :: "string \<Rightarrow> string \<Rightarrow> (string \<times> string) option" where
  "split_once s n =
     (case find_sub s n of None \<Rightarrow> None
      | Some i \<Rightarrow> Some (take i s, drop (i + length n) s))"

text \<open>\<open>str::split\<close> on one character: every separator ends a piece, so there is always a last
  piece, possibly empty.\<close>

fun split_char :: "char \<Rightarrow> string \<Rightarrow> string list" where
  "split_char d [] = [[]]"
| "split_char d (c # cs) =
     (if c = d then [] # split_char d cs
      else (case split_char d cs of [] \<Rightarrow> [[c]] | w # ws \<Rightarrow> (c # w) # ws))"

definition split_whitespace :: "string \<Rightarrow> string list" where
  "split_whitespace s =
     filter (\<lambda>w. w \<noteq> []) (split_char (CHR '' '') (map (\<lambda>c. if is_whitespace c then CHR '' '' else c) s))"

text \<open>\<open>str::lines\<close>: pieces ended by a line feed, a carriage return before it removed, and no
  piece after a final line feed.\<close>

definition strip_cr :: "string \<Rightarrow> string" where
  "strip_cr l = (if l \<noteq> [] \<and> last l = CHR 0x0D then butlast l else l)"

fun lines_of :: "string list \<Rightarrow> string list" where
  "lines_of [] = []"
| "lines_of [l] = (if l = [] then [] else [l])"
| "lines_of (l # ls) = strip_cr l # lines_of ls"

definition lines :: "string \<Rightarrow> string list" where
  "lines s = lines_of (split_char nl_char s)"

fun join :: "string \<Rightarrow> string list \<Rightarrow> string" where
  "join d [] = []"
| "join d [w] = w"
| "join d (w # ws) = w @ d @ join d ws"

definition digit_char :: "nat \<Rightarrow> char" where
  "digit_char d = char_of (48 + d)"

fun show_nat :: "nat \<Rightarrow> string" where
  "show_nat n = (if n < 10 then [digit_char n] else show_nat (n div 10) @ [digit_char (n mod 10)])"

declare show_nat.simps [simp del]

definition show_bool :: "bool \<Rightarrow> string" where
  "show_bool b = (if b then ''true'' else ''false'')"

lemma of_char_lower_char:
  "of_char (lower_char c) = (if is_ascii_uppercase c then of_char c + 32 else (of_char c :: nat))"
  by (auto simp: lower_char_def is_ascii_uppercase_def less_eq_char_def of_char_of)

lemma lower_char_idem [simp]: "lower_char (lower_char c) = lower_char c"
proof -
  have "\<not> is_ascii_uppercase (lower_char c)"
    by (auto simp: is_ascii_uppercase_def less_eq_char_def of_char_lower_char)
  then show ?thesis by (simp add: lower_char_def)
qed

lemma to_lowercase_idem [simp]: "to_lowercase (to_lowercase s) = to_lowercase s"
  by (simp add: to_lowercase_def)

lemma length_to_lowercase [simp]: "length (to_lowercase s) = length s"
  by (simp add: to_lowercase_def)

lemma eq_ignore_ascii_case_refl [simp]: "eq_ignore_ascii_case s s"
  by (simp add: eq_ignore_ascii_case_def)

lemma starts_with_iff: "starts_with s p \<longleftrightarrow> (\<exists>r. s = p @ r)"
  by (metis append_eq_conv_conj append_take_drop_id starts_with_def)

lemma strip_prefix_Some: "strip_prefix s p = Some r \<longleftrightarrow> s = p @ r"
  by (auto simp: strip_prefix_def starts_with_iff)

lemma ends_with_iff: "ends_with s p \<longleftrightarrow> (\<exists>r. s = r @ p)"
proof
  assume "ends_with s p"
  then show "\<exists>r. s = r @ p"
    by (metis append_take_drop_id ends_with_def)
next
  assume "\<exists>r. s = r @ p"
  then show "ends_with s p"
    by (auto simp: ends_with_def)
qed

lemma find_sub_SomeD:
  "find_sub s n = Some i \<Longrightarrow> \<exists>r. s = take i s @ n @ r \<and> i + length n \<le> length s"
proof (induction s n arbitrary: i rule: find_sub.induct)
  case (1 n)
  then show ?case by (auto split: if_splits)
next
  case (2 c cs n)
  show ?case
  proof (cases "starts_with (c # cs) n")
    case True
    then obtain r where "c # cs = n @ r" by (auto simp: starts_with_iff)
    with True "2.prems" show ?thesis
      by (metis add_0 append_Nil find_sub.simps(2) length_append le_add1 option.inject take0)
  next
    case False
    with "2.prems" obtain j where "find_sub cs n = Some j" and i: "i = Suc j" by auto
    then obtain r where "cs = take j cs @ n @ r \<and> j + length n \<le> length cs"
      using "2.IH" False by blast
    then show ?thesis by (auto simp: i)
  qed
qed

lemma find_sub_least: "find_sub s n = Some i \<Longrightarrow> j < i \<Longrightarrow> \<not> starts_with (drop j s) n"
proof (induction s n arbitrary: i j rule: find_sub.induct)
  case (2 c cs n)
  then show ?case by (cases j) (auto split: if_splits)
qed (auto split: if_splits)

lemma find_sub_None_iff: "find_sub s n = None \<longleftrightarrow> (\<forall>j \<le> length s. \<not> starts_with (drop j s) n)"
proof (induction s n rule: find_sub.induct)
  case (1 n)
  then show ?case by (auto simp: starts_with_def)
next
  case (2 c cs n)
  have split: "(\<forall>j \<le> Suc k. P j) \<longleftrightarrow> P 0 \<and> (\<forall>j \<le> k. P (Suc j))" for P and k :: nat
  proof (intro iffI conjI allI impI)
    fix j assume all: "P 0 \<and> (\<forall>j \<le> k. P (Suc j))" and j: "j \<le> Suc k"
    show "P j" using all j by (cases j) auto
  qed auto
  have "find_sub (c # cs) n = None \<longleftrightarrow> \<not> starts_with (c # cs) n \<and> find_sub cs n = None"
    by simp
  also have "\<dots> \<longleftrightarrow> \<not> starts_with (c # cs) n \<and> (\<forall>j \<le> length cs. \<not> starts_with (drop j cs) n)"
    using 2 by blast
  finally show ?case by (simp add: split)
qed

lemma contains_sub_iff: "contains_sub s n \<longleftrightarrow> (\<exists>a b. s = a @ n @ b)"
proof
  assume "contains_sub s n"
  then obtain i where "find_sub s n = Some i" by (auto simp: contains_sub_def)
  then show "\<exists>a b. s = a @ n @ b" by (metis find_sub_SomeD)
next
  assume "\<exists>a b. s = a @ n @ b"
  then obtain a b where s: "s = a @ n @ b" by blast
  then have "starts_with (drop (length a) s) n" and "length a \<le> length s"
    by (auto simp: starts_with_iff)
  then show "contains_sub s n"
    unfolding contains_sub_def by (metis find_sub_None_iff)
qed

lemma find_sub_take_free:
  assumes "find_sub s n = Some i"
  shows "\<not> contains_sub (take i s) n \<or> n = []"
proof (cases "n = []")
  case False
  have "\<not> contains_sub (take i s) n"
  proof
    assume "contains_sub (take i s) n"
    then obtain a b where ab: "take i s = a @ n @ b" by (auto simp: contains_sub_iff)
    then have "length a < i"
      using False by (metis append_is_Nil_conv length_append length_greater_0_conv length_take
          less_add_same_cancel1 min_less_iff_conj)
    moreover have "starts_with (drop (length a) s) n"
      using ab by (metis append.assoc append_eq_conv_conj append_take_drop_id starts_with_iff)
    ultimately show False using find_sub_least assms by blast
  qed
  then show ?thesis ..
qed simp

lemma not_contains_prefix: "\<not> contains_sub s n \<Longrightarrow> \<not> contains_sub (take i s) n"
  by (metis append.assoc append_take_drop_id contains_sub_iff)

lemma split_char_nonempty [simp]: "split_char d s \<noteq> []"
  by (induction d s rule: split_char.induct) (auto split: list.splits)

lemma split_char_hd:
  "split_char d s = u # us \<Longrightarrow> \<exists>b. s = u @ b"
proof (induction d s arbitrary: u us rule: split_char.induct)
  case (2 d c cs)
  then show ?case by (auto split: if_splits list.splits)
qed simp

lemma split_char_pieces:
  assumes "w \<in> set (split_char d s)"
  shows "d \<notin> set w \<and> (\<exists>a b. s = a @ w @ b)"
  using assms
proof (induction d s arbitrary: w rule: split_char.induct)
  case (2 d c cs)
  show ?case
  proof (cases "c = d")
    case True
    from "2.prems" True consider "w = []" | "w \<in> set (split_char d cs)" by auto
    then show ?thesis
    proof cases
      case 2
      with "2.IH"(1) [OF True] obtain a b where "d \<notin> set w" "cs = a @ w @ b" by blast
      then show ?thesis by (metis append_Cons)
    qed auto
  next
    case False
    obtain u us where u: "split_char d cs = u # us" by (cases "split_char d cs") auto
    from "2.prems" False u consider "w = c # u" | "w \<in> set us" by auto
    then show ?thesis
    proof cases
      case 1
      have "d \<notin> set u" using "2.IH"(2) [OF False, of u] u by simp
      moreover obtain b where "cs = u @ b" using split_char_hd [OF u] by blast
      ultimately show ?thesis using 1 False by (intro conjI exI [of _ "[]"] exI [of _ b]) auto
    next
      case 2
      with "2.IH"(2) [OF False, of w] u obtain a b where "d \<notin> set w" "cs = a @ w @ b" by auto
      then show ?thesis by (metis append_Cons)
    qed
  qed
qed simp

lemma set_strip_cr: "set (strip_cr l) \<subseteq> set l"
  by (auto simp: strip_cr_def dest: in_set_butlastD)

lemma strip_cr_prefix: "\<exists>b. l = strip_cr l @ b"
  by (cases l rule: rev_cases) (auto simp: strip_cr_def)

lemma lines_of_pieces: "w \<in> set (lines_of ls) \<Longrightarrow> \<exists>l \<in> set ls. w = l \<or> w = strip_cr l"
  by (induction ls rule: lines_of.induct) (auto split: if_splits)

lemma lines_piece:
  assumes "w \<in> set (lines s)"
  shows "nl_char \<notin> set w" and "\<exists>a b. s = a @ w @ b"
proof -
  obtain l where l: "l \<in> set (split_char nl_char s)" and w: "w = l \<or> w = strip_cr l"
    using lines_of_pieces assms unfolding lines_def by blast
  show "nl_char \<notin> set w" using split_char_pieces [OF l] w set_strip_cr by blast
  obtain a b where "s = a @ l @ b" using split_char_pieces [OF l] by blast
  moreover obtain b' where "l = w @ b'" using w strip_cr_prefix [of l] by auto
  ultimately show "\<exists>a b. s = a @ w @ b" by (metis append.assoc)
qed

lemma trim_piece: "\<exists>a b. s = a @ trim s @ b"
proof -
  let ?t = "dropWhile is_whitespace s"
  have "s = takeWhile is_whitespace s @ ?t" by simp
  moreover have "rev ?t = takeWhile is_whitespace (rev ?t) @ dropWhile is_whitespace (rev ?t)" by simp
  then have "?t = trim s @ rev (takeWhile is_whitespace (rev ?t))"
    unfolding trim_def trim_matches_def trim_end_matches_def trim_start_matches_def
    by (metis rev_append rev_rev_ident)
  ultimately show ?thesis by metis
qed

lemma filter_nonempty_iff: "filter P xs \<noteq> [] \<longleftrightarrow> list_ex P xs"
  by (induction xs) auto

lemma length_filter_all: "length (filter P xs) = length xs \<longleftrightarrow> list_all P xs"
proof (induction xs)
  case (Cons x xs)
  have "length (filter P xs) \<noteq> Suc (length xs)"
    using length_filter_le [of P xs] by linarith
  with Cons show ?case by auto
qed simp

lemma find_SomeD: "find P xs = Some x \<Longrightarrow> P x \<and> x \<in> set xs"
  by (induction xs) (auto split: if_splits)

lemma find_key_distinct:
  "distinct (map f xs) \<Longrightarrow> x \<in> set xs \<Longrightarrow> find (\<lambda>y. f y = f x) xs = Some x"
  by (induction xs) (auto simp: image_iff)

subsection \<open>Ordered maps\<close>

text \<open>What the clients of an ordered map rely on: lookup after insertion, and an iteration order
  that depends on nothing but the contents.\<close>

locale ordered_map =
  fixes empty :: 'm
    and insert :: "'k \<Rightarrow> 'v \<Rightarrow> 'm \<Rightarrow> 'm"
    and get :: "'m \<Rightarrow> 'k \<Rightarrow> 'v option"
    and entries :: "'m \<Rightarrow> ('k \<times> 'v) list"
    and invar :: "'m \<Rightarrow> bool"
  assumes get_empty: "get empty = (\<lambda>_. None)"
    and get_insert: "invar m \<Longrightarrow> get (insert k v m) = (get m)(k \<mapsto> v)"
    and invar_empty: "invar empty"
    and invar_insert: "invar m \<Longrightarrow> invar (insert k v m)"
    and get_entries: "invar m \<Longrightarrow> map_of (entries m) = get m"
    and distinct_entries: "invar m \<Longrightarrow> distinct (map fst (entries m))"
    and entries_determined: "invar m \<Longrightarrow> invar m' \<Longrightarrow> get m = get m' \<Longrightarrow> entries m = entries m'"
begin

abbreviation insert_all :: "('k \<times> 'v) list \<Rightarrow> 'm \<Rightarrow> 'm" where
  "insert_all kvs m \<equiv> fold (\<lambda>(k, v). insert k v) kvs m"

lemma invar_insert_all: "invar m \<Longrightarrow> invar (insert_all kvs m)"
  by (induction kvs arbitrary: m) (auto simp: invar_insert)

lemma get_insert_all:
  "invar m \<Longrightarrow> get (insert_all kvs m) = get m ++ map_of (rev kvs)"
proof (induction kvs arbitrary: m)
  case (Cons kv kvs)
  obtain k v where kv: "kv = (k, v)" by fastforce
  have "get (insert_all kvs (insert k v m)) = get (insert k v m) ++ map_of (rev kvs)"
    using Cons invar_insert by blast
  also have "\<dots> = (get m)(k \<mapsto> v) ++ map_of (rev kvs)"
    using Cons.prems by (simp add: get_insert)
  finally show ?case
    by (auto simp: kv fun_eq_iff map_add_def split: option.splits)
qed simp

lemma insert_all_perm:
  assumes "distinct (map fst kvs)" and "distinct (map fst kvs')" and "set kvs = set kvs'"
    and "invar m"
  shows "entries (insert_all kvs m) = entries (insert_all kvs' m)"
proof -
  have "map_of (rev kvs) = map_of (rev kvs')"
    using assms(1-3) by (intro map_of_inject_set [THEN iffD2]) (auto simp: rev_map [symmetric])
  then show ?thesis
    using assms(4) by (intro entries_determined) (simp_all add: invar_insert_all get_insert_all)
qed

lemma get_iff_entries: "invar m \<Longrightarrow> get m k = Some v \<longleftrightarrow> (k, v) \<in> set (entries m)"
  using distinct_entries get_entries by (metis map_of_eq_Some_iff)

lemma dom_get: "invar m \<Longrightarrow> dom (get m) = fst ` set (entries m)"
  using get_entries [of m] dom_map_of_conv_image_fst [of "entries m"] by simp

lemma length_entries: "invar m \<Longrightarrow> length (entries m) = card (dom (get m))"
  using distinct_card [OF distinct_entries, of m] by (simp add: dom_get)

end

type_synonym ('k, 'v) btree_map = "('k \<times> 'v) list"

abbreviation bt_empty :: "('k, 'v) btree_map" where
  "bt_empty \<equiv> []"

fun bt_insert :: "'k::linorder \<Rightarrow> 'v \<Rightarrow> ('k, 'v) btree_map \<Rightarrow> ('k, 'v) btree_map" where
  "bt_insert k v [] = [(k, v)]"
| "bt_insert k v ((a, b) # m) =
     (if k < a then (k, v) # (a, b) # m
      else if k = a then (k, v) # m
      else (a, b) # bt_insert k v m)"

definition bt_get :: "('k, 'v) btree_map \<Rightarrow> 'k \<Rightarrow> 'v option" where
  "bt_get m = map_of m"

definition bt_keys :: "('k, 'v) btree_map \<Rightarrow> 'k list" where
  "bt_keys m = map fst m"

definition bt_values :: "('k, 'v) btree_map \<Rightarrow> 'v list" where
  "bt_values m = map snd m"

definition bt_contains_key :: "('k, 'v) btree_map \<Rightarrow> 'k \<Rightarrow> bool" where
  "bt_contains_key m k \<longleftrightarrow> bt_get m k \<noteq> None"

definition bt_invar :: "('k::linorder, 'v) btree_map \<Rightarrow> bool" where
  "bt_invar m \<longleftrightarrow> sorted_wrt (<) (map fst m)"

lemma set_fst_bt_insert: "fst ` set (bt_insert k v m) = insert k (fst ` set m)"
  by (induction k v m rule: bt_insert.induct) auto

lemma bt_invar_insert [inv_rules]: "bt_invar m \<Longrightarrow> bt_invar (bt_insert k v m)"
proof (induction k v m rule: bt_insert.induct)
  case (2 k v a b m)
  have keys: "set (map fst (bt_insert k v m)) = insert k (set (map fst m))"
    using set_fst_bt_insert [of k v m] by simp
  from 2 keys show ?case
    by (auto simp: bt_invar_def intro: less_trans)
qed (simp add: bt_invar_def)

lemma bt_get_insert: "bt_invar m \<Longrightarrow> bt_get (bt_insert k v m) = (bt_get m)(k \<mapsto> v)"
  by (induction k v m rule: bt_insert.induct) (auto simp: bt_get_def bt_invar_def fun_eq_iff)

lemma bt_invar_distinct: "bt_invar m \<Longrightarrow> distinct (map fst m)"
  by (simp add: bt_invar_def strict_sorted_iff)

lemma bt_ext:
  assumes "bt_invar m" and "bt_invar m'" and "bt_get m = bt_get m'"
  shows "m = m'"
proof -
  have set: "set m = set m'"
    using assms bt_invar_distinct by (metis bt_get_def map_of_inject_set)
  have "map fst m = map fst m'"
    using assms(1,2) set by (metis bt_invar_def list.set_map strict_sorted_equal)
  moreover have "map (\<lambda>k. (k, the (bt_get x k))) (map fst x) = x" if "bt_invar x"
    for x :: "('a, 'b) btree_map"
    using bt_invar_distinct [OF that] by (auto simp: bt_get_def intro!: map_idI)
  ultimately show ?thesis using assms by metis
qed

interpretation bt: ordered_map "bt_empty :: ('k::linorder, 'v) btree_map" bt_insert bt_get
    "\<lambda>m. m" bt_invar
proof unfold_locales
  show "bt_invar (bt_empty :: ('k, 'v) btree_map)" by (simp add: bt_invar_def)
qed (simp_all add: bt_get_insert bt_invar_insert bt_invar_distinct bt_ext, simp_all add: bt_get_def)

end
