(* ===== verification/Resilience_Spec.thy ===== *)
theory Resilience_Spec
  imports Rust_Prelude Complex_Main
begin

text \<open>
  The contracts the two provider back ends (\<open>mcp-bridge/src/agy_resilience.rs\<close> and
  \<open>mcp-bridge/src/deepseek_resilience.rs\<close>) implement in different ways: a circuit breaker that
  refuses every call while it cools down and then lets a single probe through, and a token bucket
  that bounds the number of calls granted in any stretch of time. The consequences the callers rely
  on are proved here once, from the laws alone.
\<close>

text \<open>A series of calls of a stateful operation at the given instants.\<close>

fun calls_at :: "(instant \<Rightarrow> 'b \<Rightarrow> bool \<times> 'b) \<Rightarrow> instant list \<Rightarrow> 'b \<Rightarrow> bool list \<times> 'b" where
  "calls_at f [] b = ([], b)"
| "calls_at f (t # ts) b =
     (let (r, b') = f t b; (rs, b'') = calls_at f ts b' in (r # rs, b''))"

locale circuit_breaker =
  fixes acquire :: "instant \<Rightarrow> 'b \<Rightarrow> bool \<times> 'b"
    and cooling :: "'b \<Rightarrow> instant option"
    and probing :: "'b \<Rightarrow> instant option"
    and lease :: "'b \<Rightarrow> duration"
  assumes cooling_refuses: "cooling b = Some u \<Longrightarrow> now < u \<Longrightarrow> acquire now b = (False, b)"
    and cooled_probes: "cooling b = Some u \<Longrightarrow> u \<le> now \<Longrightarrow>
          fst (acquire now b) \<and> probing (snd (acquire now b)) = Some (now + lease b)"
    and probing_refuses: "probing b = Some l \<Longrightarrow> now < l \<Longrightarrow> acquire now b = (False, b)"
begin

lemma calls_refused:
  assumes "\<And>now. now < l \<Longrightarrow> acquire now b = (False, b)" and "\<forall>t \<in> set ts. t < l"
  shows "calls_at acquire ts b = (replicate (length ts) False, b)"
  using assms(2) by (induction ts) (simp_all add: assms(1))

lemma cooling_refuses_all:
  assumes "cooling b = Some u" and "\<forall>t \<in> set ts. t < u"
  shows "calls_at acquire ts b = (replicate (length ts) False, b)"
  using calls_refused cooling_refuses assms by blast

lemma single_probe:
  assumes "cooling b = Some u" and "u \<le> now" and "\<forall>t \<in> set ts. t < now + lease b"
  shows "fst (calls_at acquire (now # ts) b) = True # replicate (length ts) False"
proof -
  obtain b' where b': "acquire now b = (True, b')" "probing b' = Some (now + lease b)"
    using cooled_probes [OF assms(1,2)] by (metis prod.collapse)
  have "calls_at acquire ts b' = (replicate (length ts) False, b')"
    using calls_refused probing_refuses b'(2) assms(3) by blast
  then show ?thesis by (simp add: b'(1))
qed

end

text \<open>Seconds as a rational: \<open>Duration::as_secs_f64\<close> with exact arithmetic in place of \<open>f64\<close>.\<close>

definition as_secs_rat :: "duration \<Rightarrow> rat" where
  "as_secs_rat d = of_nat d / of_nat nanos_per_sec"

text \<open>\<open>Duration::from_secs_f64\<close>: rounded to the nearest nanosecond.\<close>

definition from_secs_rat :: "rat \<Rightarrow> duration" where
  "from_secs_rat x = nat (round (x * of_nat nanos_per_sec))"

lemma as_secs_rat_mono: "a \<le> b \<Longrightarrow> as_secs_rat a \<le> as_secs_rat b"
  by (simp add: as_secs_rat_def divide_right_mono)

lemma as_secs_rat_nonneg [simp]: "0 \<le> as_secs_rat d"
  by (simp add: as_secs_rat_def)

lemma as_secs_rat_add: "as_secs_rat (a + b) = as_secs_rat a + as_secs_rat b"
  by (simp add: as_secs_rat_def add_divide_distrib)

lemma from_as_secs_rat [simp]: "from_secs_rat (as_secs_rat d) = d"
  by (simp add: from_secs_rat_def as_secs_rat_def nanos_per_sec_def)

lemma as_secs_rat_from_secs [simp]: "as_secs_rat (from_secs n) = of_nat n"
  by (simp add: as_secs_rat_def from_secs_def nanos_per_sec_def)

lemma from_secs_rat_of_nat [simp]: "from_secs_rat (of_nat n) = from_secs n"
  by (metis as_secs_rat_from_secs from_as_secs_rat)

lemma from_secs_rat_mono: "x \<le> y \<Longrightarrow> from_secs_rat x \<le> from_secs_rat y"
  by (auto simp: from_secs_rat_def nanos_per_sec_def intro!: nat_mono round_mono)

locale rate_limiter =
  fixes take1 :: "instant \<Rightarrow> 'b \<Rightarrow> bool \<times> 'b"
    and level :: "'b \<Rightarrow> rat"
    and rate :: "'b \<Rightarrow> rat"
    and stamp :: "'b \<Rightarrow> instant"
    and ok :: "'b \<Rightarrow> bool"
  assumes take1_level: "ok b \<Longrightarrow> stamp b \<le> now \<Longrightarrow>
          level (snd (take1 now b)) + (if fst (take1 now b) then 1 else 0)
            \<le> level b + rate b * as_secs_rat (now - stamp b)"
    and take1_stamp: "stamp b \<le> now \<Longrightarrow> stamp (snd (take1 now b)) = now"
    and take1_rate: "rate (snd (take1 now b)) = rate b"
    and take1_ok: "ok b \<Longrightarrow> ok (snd (take1 now b))"
    and level_nonneg: "ok b \<Longrightarrow> 0 \<le> level b"
begin

lemma grants_account:
  assumes "ok b" and "sorted (stamp b # ts)"
  shows "level (snd (calls_at take1 ts b)) + of_nat (count_list (fst (calls_at take1 ts b)) True)
      \<le> level b + rate b * as_secs_rat (last (stamp b # ts) - stamp b)
    \<and> ok (snd (calls_at take1 ts b))"
  using assms
proof (induction ts arbitrary: b)
  case Nil
  then show ?case by (simp add: as_secs_rat_def)
next
  case (Cons t ts)
  define b' where "b' = snd (take1 t b)"
  have b': "take1 t b = (fst (take1 t b), b')" by (simp add: b'_def)
  have st: "stamp b \<le> t" and sorted: "sorted (t # ts)" using Cons.prems(2) by auto
  have stamp: "stamp b' = t" and rate: "rate b' = rate b" and ok: "ok b'"
    using take1_stamp take1_rate take1_ok st Cons.prems(1) by (simp_all add: b'_def)
  have IH: "level (snd (calls_at take1 ts b')) + of_nat (count_list (fst (calls_at take1 ts b')) True)
      \<le> level b' + rate b * as_secs_rat (last (t # ts) - t)" and "ok (snd (calls_at take1 ts b'))"
    using Cons.IH [OF ok] sorted unfolding stamp rate by blast+
  moreover have "level b' + (if fst (take1 t b) then 1 else 0) \<le> level b + rate b * as_secs_rat (t - stamp b)"
    using take1_level [OF Cons.prems(1) st] by (simp add: b'_def)
  moreover have "t \<le> last (t # ts)" using sorted by (auto simp: last_in_set)
  then have "as_secs_rat (last (t # ts) - stamp b)
      = as_secs_rat (last (t # ts) - t) + as_secs_rat (t - stamp b)"
    using st by (simp add: as_secs_rat_add [symmetric])
  ultimately show ?case
    by (subst (1 2 3) calls_at.simps, subst (1 2 3) b') (auto simp: split_beta Let_def algebra_simps)
qed

lemma grants_bounded:
  assumes "ok b" and "sorted (stamp b # ts)"
  shows "of_nat (count_list (fst (calls_at take1 ts b)) True)
      \<le> level b + rate b * as_secs_rat (last (stamp b # ts) - stamp b)"
  using grants_account [OF assms] level_nonneg [of "snd (calls_at take1 ts b)"] by linarith

end

end
