(* ===== verification/DeepSeek_Breaker.thy ===== *)
theory DeepSeek_Breaker
  imports Resilience_Spec
begin

text \<open>
  The resilience primitives of the DeepSeek back end
  (\<open>mcp-bridge/src/deepseek_resilience.rs\<close>): the status classification, the token bucket and the
  breaker with its hard-open state. Counters are \<open>u32\<close> and wrap as the release build does; \<open>f64\<close> is
  exact rational arithmetic, so \<open>powi\<close> is the rational power.
\<close>

datatype Classification = Hard | Transient

definition classify :: "u16 \<Rightarrow> Classification" where
  "classify status =
     (if status \<in> {400, 401, 402, 403, 422} then Hard
      else if status = 429 \<or> (500 \<le> status \<and> status \<le> 599) then Transient
      else Transient)"

subsection \<open>Token bucket\<close>

record ds_TokenBucket =
  ds_capacity :: rat
  ds_available :: rat
  ds_refill_per_sec :: rat
  ds_last_refill :: instant

definition ds_bucket_new :: "u32 \<Rightarrow> instant \<Rightarrow> ds_TokenBucket" where
  "ds_bucket_new max_rpm now =
     (let cap = of_nat (unat max_rpm) in
      \<lparr>ds_capacity = cap, ds_available = cap, ds_refill_per_sec = cap / 60, ds_last_refill = now\<rparr>)"

definition ds_refill :: "instant \<Rightarrow> ds_TokenBucket \<Rightarrow> ds_TokenBucket" where
  "ds_refill now b =
     (if now \<le> ds_last_refill b then b
      else
        (let elapsed = as_secs_rat (now - ds_last_refill b) in
         b\<lparr>ds_available := min (ds_available b + elapsed * ds_refill_per_sec b) (ds_capacity b),
           ds_last_refill := now\<rparr>))"

definition ds_try_take :: "instant \<Rightarrow> ds_TokenBucket \<Rightarrow> bool \<times> ds_TokenBucket" where
  "ds_try_take now b =
     (let b' = ds_refill now b in
      if ds_available b' \<ge> 1 then (True, b'\<lparr>ds_available := ds_available b' - 1\<rparr>) else (False, b'))"

text \<open>\<open>next_available\<close>: a bucket that never refills has no such instant, and
  \<open>Duration::from_secs_f64\<close> panics on the infinite wait; the panic is \<open>None\<close>.\<close>

definition ds_next_available :: "instant \<Rightarrow> ds_TokenBucket \<Rightarrow> instant option" where
  "ds_next_available now b =
     (let projected =
            (if now > ds_last_refill b
             then min (ds_available b + as_secs_rat (now - ds_last_refill b) * ds_refill_per_sec b)
                    (ds_capacity b)
             else ds_available b)
      in if projected \<ge> 1 then Some now
         else if ds_refill_per_sec b = 0 then None
         else Some (now + from_secs_rat ((1 - projected) / ds_refill_per_sec b)))"

subsection \<open>The breaker\<close>

datatype ds_BreakerState = DsClosed | HardOpenInsufficientBalance
  | OpenTransient (ds_until: instant) (ds_attempts: u32)
  | DsHalfOpen (lease_expires_at: instant) (ds_attempts: u32)

datatype Outcome = Success | HardError u16 | TransientError u16

datatype AcquireDecision = Allow | BlockHard | BlockTransient duration

record BreakerConfig =
  transient_threshold :: u32
  base_cooldown :: duration
  backoff_multiplier :: rat
  max_cooldown :: duration
  half_open_lease_cfg :: duration

definition BreakerConfig_default :: BreakerConfig where
  "BreakerConfig_default = \<lparr>transient_threshold = 3, base_cooldown = from_secs 30,
     backoff_multiplier = 2, max_cooldown = from_secs 600, half_open_lease_cfg = from_secs 60\<rparr>"

record Breaker =
  ds_state :: ds_BreakerState
  consecutive_transient :: u32
  cfg :: BreakerConfig

definition ds_breaker_new :: "BreakerConfig \<Rightarrow> Breaker" where
  "ds_breaker_new c = \<lparr>ds_state = DsClosed, consecutive_transient = 0, cfg = c\<rparr>"

text \<open>\<open>f64::powi\<close> with its signed exponent; the cast of \<open>u32\<close> to \<open>i32\<close> keeps the bits.\<close>

definition f64_powi :: "rat \<Rightarrow> int \<Rightarrow> rat" where
  "f64_powi x e = (if e \<ge> 0 then x ^ nat e else inverse (x ^ nat (- e)))"

definition ds_next_cooldown :: "Breaker \<Rightarrow> u32 \<Rightarrow> duration" where
  "ds_next_cooldown b attempts =
     (let e = sint (saturating_sub attempts 1);
          factor = f64_powi (backoff_multiplier (cfg b)) e;
          secs = min (as_secs_rat (base_cooldown (cfg b)) * factor) (as_secs_rat (max_cooldown (cfg b)))
      in from_secs_rat secs)"

definition try_acquire :: "instant \<Rightarrow> Breaker \<Rightarrow> AcquireDecision \<times> Breaker" where
  "try_acquire now b =
     (case ds_state b of
        DsClosed \<Rightarrow> (Allow, b)
      | HardOpenInsufficientBalance \<Rightarrow> (BlockHard, b)
      | OpenTransient until attempts \<Rightarrow>
          if until \<le> now
          then (Allow, b\<lparr>ds_state := DsHalfOpen (now + half_open_lease_cfg (cfg b)) attempts\<rparr>)
          else (BlockTransient (duration_since until now), b)
      | DsHalfOpen lease attempts \<Rightarrow>
          if lease \<le> now
          then
            (let next = ds_next_cooldown b (attempts + 1) in
             (BlockTransient next, b\<lparr>ds_state := OpenTransient (now + next) (attempts + 1)\<rparr>))
          else (BlockTransient (duration_since lease now), b))"

definition ds_record :: "Outcome \<Rightarrow> instant \<Rightarrow> Breaker \<Rightarrow> Breaker" where
  "ds_record outcome now b =
     (case outcome of
        HardError status \<Rightarrow>
          if status = 402
          then b\<lparr>ds_state := HardOpenInsufficientBalance, consecutive_transient := 0\<rparr>
          else b\<lparr>consecutive_transient := 0\<rparr>
      | TransientError _ \<Rightarrow>
          (let b1 = b\<lparr>consecutive_transient := consecutive_transient b + 1\<rparr>;
               attempts = (case ds_state b1 of
                   OpenTransient _ a \<Rightarrow> a + 1
                 | DsHalfOpen _ a \<Rightarrow> a + 1
                 | _ \<Rightarrow> 1)
           in if transient_threshold (cfg b1) \<le> consecutive_transient b1
                 \<or> (case ds_state b1 of DsHalfOpen _ _ \<Rightarrow> True | _ \<Rightarrow> False)
              then b1\<lparr>ds_state := OpenTransient (now + ds_next_cooldown b1 attempts) attempts\<rparr>
              else b1)
      | Success \<Rightarrow> b\<lparr>consecutive_transient := 0, ds_state := DsClosed\<rparr>)"

subsection \<open>The contracts hold\<close>

definition ds_acquire :: "instant \<Rightarrow> Breaker \<Rightarrow> bool \<times> Breaker" where
  "ds_acquire now b = (case try_acquire now b of (d, b') \<Rightarrow> (d = Allow, b'))"

definition ds_cooling :: "Breaker \<Rightarrow> instant option" where
  "ds_cooling b = (case ds_state b of OpenTransient u _ \<Rightarrow> Some u | _ \<Rightarrow> None)"

definition ds_probing :: "Breaker \<Rightarrow> instant option" where
  "ds_probing b = (case ds_state b of DsHalfOpen l _ \<Rightarrow> Some l | _ \<Rightarrow> None)"

interpretation ds: circuit_breaker ds_acquire ds_cooling ds_probing "\<lambda>b. half_open_lease_cfg (cfg b)"
  by unfold_locales
    (auto simp: ds_acquire_def ds_cooling_def ds_probing_def try_acquire_def split: ds_BreakerState.splits)

definition ds_bucket_ok :: "ds_TokenBucket \<Rightarrow> bool" where
  "ds_bucket_ok b \<longleftrightarrow> 0 \<le> ds_available b \<and> ds_available b \<le> ds_capacity b \<and> 0 \<le> ds_refill_per_sec b"

interpretation ds_rate: rate_limiter ds_try_take ds_available ds_refill_per_sec ds_last_refill ds_bucket_ok
  by unfold_locales
    (auto simp: ds_try_take_def ds_refill_def ds_bucket_ok_def Let_def mult.commute min_def)

lemma ds_next_cooldown_le: "ds_next_cooldown b n \<le> max_cooldown (cfg b)"
proof -
  have "ds_next_cooldown b n \<le> from_secs_rat (as_secs_rat (max_cooldown (cfg b)))"
    unfolding ds_next_cooldown_def Let_def by (rule from_secs_rat_mono) simp
  then show ?thesis by simp
qed

lemma sint_saturating_pred:
  assumes "unat (n :: u32) \<le> 2 ^ 31"
  shows "sint (saturating_sub n 1) = int (unat n - 1)"
proof -
  have "uint (saturating_sub n 1) = int (unat n - 1)"
    using unat_saturating_sub [of n 1] by (simp add: uint_nat)
  moreover have "signed_take_bit 31 (int (unat n - 1)) = int (unat n - 1)"
    using assms by (intro signed_take_bit_int_eq_self) auto
  ultimately show ?thesis by (simp add: sint_uint)
qed

lemma ds_cooldown:
  assumes "cfg b = BreakerConfig_default" and "unat n \<le> 2 ^ 31"
  shows "ds_next_cooldown b n = min (from_secs (30 * 2 ^ (unat n - 1))) (from_secs 600)"
proof -
  have "as_secs_rat (from_secs 30) * 2 ^ (unat n - 1) = of_nat (30 * 2 ^ (unat n - 1))"
    by simp
  moreover have "as_secs_rat (from_secs 600) = of_nat 600" by simp
  ultimately have "min (as_secs_rat (from_secs 30) * 2 ^ (unat n - 1)) (as_secs_rat (from_secs 600))
      = of_nat (min (30 * 2 ^ (unat n - 1)) 600)"
    by (simp only: of_nat_min)
  then show ?thesis
    unfolding ds_next_cooldown_def Let_def sint_saturating_pred [OF assms(2)]
    by (simp add: assms(1) BreakerConfig_default_def f64_powi_def from_secs_min [symmetric]
        del: as_secs_rat_from_secs)
qed

text \<open>The cooldowns of the shipped configuration: thirty seconds, doubled with every further
  opening, never above ten minutes. No exponent that fits the counter turns the growth around below
  two thousand million openings.\<close>

theorem ds_cooldown_default:
  assumes "cfg b = BreakerConfig_default" and "unat n \<le> 2 ^ 31"
  shows "ds_next_cooldown b n = min (from_secs (30 * 2 ^ (unat n - 1))) (from_secs 600)
    \<and> from_secs 30 \<le> ds_next_cooldown b n"
  using ds_cooldown [OF assms] by (simp add: min_def)

theorem ds_cooldown_default_witness:
  "ds_next_cooldown (ds_breaker_new BreakerConfig_default) 3 = from_secs 120"
  using ds_cooldown_default [of "ds_breaker_new BreakerConfig_default" 3]
  by (simp add: ds_breaker_new_def from_secs_min [symmetric])

text \<open>While the breaker cools down every request is refused, the first request afterwards is the
  single probe, and every other request is refused until the probe's lease ends. A cooldown set by a
  report is never longer than the configured maximum.\<close>

theorem ds_single_probe:
  assumes "ds_state b = OpenTransient u n" and "\<forall>t \<in> set early. t < u" and "u \<le> now"
    and "\<forall>t \<in> set late. t < now + half_open_lease_cfg (cfg b)"
  shows "fst (calls_at ds_acquire early b) = replicate (length early) False
    \<and> fst (calls_at ds_acquire (now # late) b) = True # replicate (length late) False
    \<and> (ds_state (ds_record (TransientError s) now (snd (ds_acquire now b))) =
         OpenTransient (now + ds_next_cooldown b (n + 1)) (n + 1))
    \<and> ds_next_cooldown b (n + 1) \<le> max_cooldown (cfg b)"
proof (intro conjI)
  have c: "ds_cooling b = Some u" using assms(1) by (simp add: ds_cooling_def)
  show "fst (calls_at ds_acquire early b) = replicate (length early) False"
    using ds.cooling_refuses_all [OF c assms(2)] by simp
  show "fst (calls_at ds_acquire (now # late) b) = True # replicate (length late) False"
    using ds.single_probe [OF c assms(3,4)] .
  show "ds_state (ds_record (TransientError s) now (snd (ds_acquire now b))) =
         OpenTransient (now + ds_next_cooldown b (n + 1)) (n + 1)"
    using assms(1,3)
    by (simp add: ds_acquire_def try_acquire_def ds_record_def Let_def ds_next_cooldown_def)
qed (rule ds_next_cooldown_le)

theorem ds_single_probe_witness:
  "fst (calls_at ds_acquire [7, 8] \<lparr>ds_state = OpenTransient 7 1, consecutive_transient = 3,
     cfg = BreakerConfig_default\<rparr>) = [True, False]"
  using ds_single_probe [of "\<lparr>ds_state = OpenTransient 7 1, consecutive_transient = 3,
     cfg = BreakerConfig_default\<rparr>" 7 1 "[]" 7 "[8]"]
  by (simp add: BreakerConfig_default_def from_secs_def nanos_per_sec_def)

text \<open>The hard-open state. Requests never leave it: at any time each is refused. What leaves it is
  exactly a report from a call that was already under way: a success closes the breaker, and the
  transient failure that completes a streak replaces it by a timed cooldown that ends by itself.\<close>

theorem ds_hard_open_exits:
  assumes "ds_state b = HardOpenInsufficientBalance"
  shows "try_acquire now b = (BlockHard, b)
    \<and> (ds_state (ds_record outcome now b) \<noteq> HardOpenInsufficientBalance \<longleftrightarrow>
        outcome = Success
        \<or> (\<exists>s. outcome = TransientError s) \<and> transient_threshold (cfg b) \<le> consecutive_transient b + 1)
    \<and> fst (try_acquire now (ds_record Success t b)) = Allow"
  using assms by (cases outcome) (auto simp: try_acquire_def ds_record_def Let_def)

theorem ds_hard_open_exits_witness:
  "fst (try_acquire 5 (ds_record Success 4 (ds_record (HardError 402) 3
     (ds_breaker_new BreakerConfig_default)))) = Allow"
proof -
  have "ds_state (ds_record (HardError 402) 3 (ds_breaker_new BreakerConfig_default))
      = HardOpenInsufficientBalance"
    by (simp add: ds_record_def)
  from ds_hard_open_exits [OF this, of 5 Success 4] show ?thesis by simp
qed

text \<open>A straggler's transient failure reported while the breaker already cools down moves the end
  of the cooldown: it is set anew from the time of the report with the next step of the backoff,
  once the streak has reached the threshold, which it has after any opening by streak.\<close>

lemma ds_open_ratchets:
  assumes "ds_state b = OpenTransient u n" and "transient_threshold (cfg b) \<le> consecutive_transient b + 1"
  shows "ds_state (ds_record (TransientError s) now b) =
    OpenTransient (now + ds_next_cooldown b (n + 1)) (n + 1)"
  using assms by (simp add: ds_record_def ds_next_cooldown_def Let_def)

text \<open>The DeepSeek rate limit: from its creation to any later instant the bucket grants at most
  one minute's worth of requests at once plus the configured rate times the time gone by.\<close>

theorem ds_rate_bounded:
  assumes "sorted (t0 # ts)"
  shows "of_nat (count_list (fst (calls_at ds_try_take ts (ds_bucket_new rpm t0))) True)
      \<le> of_nat (unat rpm) + of_nat (unat rpm) / 60 * as_secs_rat (last (t0 # ts) - t0)"
proof -
  have "ds_bucket_ok (ds_bucket_new rpm t0)" by (simp add: ds_bucket_new_def ds_bucket_ok_def Let_def del: of_nat_unat)
  from ds_rate.grants_bounded [OF this] assms show ?thesis
    by (simp add: ds_bucket_new_def Let_def)
qed

theorem ds_rate_bounded_witness:
  "of_nat (count_list (fst (calls_at ds_try_take [0, 0, 0] (ds_bucket_new 2 0))) True) \<le> (2 :: rat)"
  using ds_rate_bounded [of 0 "[0, 0, 0]" 2] by (simp add: as_secs_rat_def)

end
