(* ===== verification/Rust_Text.thy ===== *)
theory Rust_Text
  imports Rust_Prelude
begin

text \<open>
  More of the text handling of the Rust standard library: number parsing and printing, the
  \<open>Debug\<close> rendering of strings, character boundaries in UTF-8, and the lemmas with which a
  scanner steps over text that cannot contain its needle.
\<close>

subsection \<open>Numbers\<close>

text \<open>\<open>str::parse\<close> for an unsigned type of the given width: an optional plus sign, then at least one
  digit, and a value below \<open>2 ^ width\<close>.\<close>

fun digits_value :: "nat \<Rightarrow> string \<Rightarrow> nat option" where
  "digits_value acc [] = Some acc"
| "digits_value acc (c # cs) =
     (if is_ascii_digit c then digits_value (10 * acc + (of_char c - 48)) cs else None)"

definition parse_uint :: "nat \<Rightarrow> string \<Rightarrow> nat option" where
  "parse_uint width s =
     (let ds = (case s of c # cs \<Rightarrow> if c = CHR ''+'' then cs else s | [] \<Rightarrow> s) in
      if ds = [] then None
      else case digits_value 0 ds of
          None \<Rightarrow> None
        | Some v \<Rightarrow> if v < 2 ^ width then Some v else None)"

text \<open>For evaluation the bound is compared as a binary number.\<close>

lemma parse_uint_code [code]:
  "parse_uint width s =
     (let ds = (case s of c # cs \<Rightarrow> if c = CHR ''+'' then cs else s | [] \<Rightarrow> s) in
      if ds = [] then None
      else case digits_value 0 ds of
          None \<Rightarrow> None
        | Some v \<Rightarrow> if int v < 2 ^ width then Some v else None)"
proof -
  have eq: "(int v < 2 ^ width) = (v < 2 ^ width)" for v
    by (metis of_nat_less_iff of_nat_numeral of_nat_power)
  show ?thesis unfolding parse_uint_def eq ..
qed

definition show_int :: "int \<Rightarrow> string" where
  "show_int i = (if i < 0 then CHR ''-'' # show_nat (nat (- i)) else show_nat (nat i))"

lemma of_char_digit_char: "d < 10 \<Longrightarrow> of_char (digit_char d) = 48 + d"
  by (simp add: digit_char_def of_char_of)

lemma is_ascii_digit_digit_char: "d < 10 \<Longrightarrow> is_ascii_digit (digit_char d)"
  by (simp add: is_ascii_digit_def less_eq_char_def of_char_digit_char)

lemma digits_value_append:
  "digits_value acc (xs @ ys) =
     (case digits_value acc xs of None \<Rightarrow> None | Some v \<Rightarrow> digits_value v ys)"
  by (induction acc xs rule: digits_value.induct) auto

lemma digits_value_show_nat: "digits_value 0 (show_nat n) = Some n"
proof (induction n rule: show_nat.induct)
  case (1 n)
  show ?case
  proof (cases "n < 10")
    case True
    then show ?thesis
      by (subst show_nat.simps) (simp add: is_ascii_digit_digit_char of_char_digit_char)
  next
    case False
    have "digits_value 0 (show_nat (n div 10) @ [digit_char (n mod 10)]) = Some n"
      using 1 [OF False]
      by (simp add: digits_value_append is_ascii_digit_digit_char of_char_digit_char)
    with False show ?thesis by (subst show_nat.simps) simp
  qed
qed

lemma show_nat_digits: "c \<in> set (show_nat n) \<Longrightarrow> is_ascii_digit c"
proof (induction n rule: show_nat.induct)
  case (1 n)
  then show ?case
    by (subst (asm) (2) show_nat.simps) (auto simp: is_ascii_digit_digit_char split: if_splits)
qed

lemma show_nat_not_Nil [simp]: "show_nat n \<noteq> []"
  by (subst show_nat.simps) simp

lemma parse_uint_show_nat [rust_simps]:
  assumes "n < 2 ^ width"
  shows "parse_uint width (show_nat n) = Some n"
proof -
  obtain c cs where sn: "show_nat n = c # cs" by (cases "show_nat n") auto
  then have "is_ascii_digit c" using show_nat_digits [of c n] by simp
  then have "c \<noteq> CHR ''+''" by (auto simp: is_ascii_digit_def less_eq_char_def)
  with assms sn digits_value_show_nat [of n] show ?thesis
    by (simp add: parse_uint_def)
qed

subsection \<open>Ends of a string\<close>

definition strip_suffix :: "string \<Rightarrow> string \<Rightarrow> string option" where
  "strip_suffix s p = (if ends_with s p then Some (take (length s - length p) s) else None)"

text \<open>\<open>program.rsplit('/').next().unwrap_or(program)\<close>: the text after the last slash.\<close>

definition base_name :: "string \<Rightarrow> string" where
  "base_name p = last (split_char (CHR ''/'') p)"

lemma strip_suffix_Some: "strip_suffix s p = Some r \<longleftrightarrow> s = r @ p"
  by (auto simp: strip_suffix_def ends_with_iff)

subsection \<open>Debug rendering\<close>

definition hex_digit :: "nat \<Rightarrow> char" where
  "hex_digit d = (if d < 10 then digit_char d else char_of (87 + d))"

text \<open>\<open>str\<close>'s \<open>Debug\<close>: quotes, backslashes and control characters are escaped.\<close>

definition escape_debug :: "char \<Rightarrow> string" where
  "escape_debug c =
     (let n = of_char c :: nat in
      if c = CHR 0x22 then [CHR 0x5C, CHR 0x22]
      else if c = CHR 0x5C then [CHR 0x5C, CHR 0x5C]
      else if n = 0 then [CHR 0x5C, CHR ''0'']
      else if n = 9 then [CHR 0x5C, CHR ''t'']
      else if n = 10 then [CHR 0x5C, CHR ''n'']
      else if n = 13 then [CHR 0x5C, CHR ''r'']
      else if n < 32 \<or> n = 127 then
        [CHR 0x5C] @ ''u{'' @ (if n < 16 then [hex_digit n] else [hex_digit (n div 16), hex_digit (n mod 16)])
          @ ''}''
      else [c])"

definition debug_str :: "string \<Rightarrow> string" where
  "debug_str s = [CHR 0x22] @ concat (map escape_debug s) @ [CHR 0x22]"

definition debug_list :: "string list \<Rightarrow> string" where
  "debug_list ss = ''['' @ join '', '' (map debug_str ss) @ '']''"

subsection \<open>Character boundaries\<close>

definition is_continuation :: "char \<Rightarrow> bool" where
  "is_continuation c \<longleftrightarrow> 128 \<le> (of_char c :: nat) \<and> (of_char c :: nat) < 192"

definition is_char_boundary :: "string \<Rightarrow> nat \<Rightarrow> bool" where
  "is_char_boundary s i \<longleftrightarrow>
     i = 0 \<or> i = length s \<or> (i < length s \<and> \<not> is_continuation (s ! i))"

text \<open>The loop \<open>while end > 0 && !s.is_char_boundary(end) { end -= 1 }\<close>.\<close>

fun floor_char_boundary :: "string \<Rightarrow> nat \<Rightarrow> nat" where
  "floor_char_boundary s 0 = 0"
| "floor_char_boundary s (Suc i) =
     (if is_char_boundary s (Suc i) then Suc i else floor_char_boundary s i)"

lemma floor_char_boundary_le: "floor_char_boundary s i \<le> i"
  by (induction s i rule: floor_char_boundary.induct) auto

lemma floor_char_boundary_is: "is_char_boundary s (floor_char_boundary s i)"
  by (induction s i rule: floor_char_boundary.induct) (auto simp: is_char_boundary_def)

lemma floor_char_boundary_greatest:
  "j \<le> i \<Longrightarrow> is_char_boundary s j \<Longrightarrow> j \<le> floor_char_boundary s i"
proof (induction s i rule: floor_char_boundary.induct)
  case (2 s i)
  then show ?case by (cases "j = Suc i") auto
qed simp

subsection \<open>JSON values\<close>

text \<open>\<open>serde_json::Value\<close>, a number kept as its literal, with the accessors the code uses. The parser
  itself is a parameter wherever it is called.\<close>

datatype json = JNull | JBool bool | JNumber string | JString string | JArray "json list"
  | JObject "(string \<times> json) list"

definition json_get :: "json \<Rightarrow> string \<Rightarrow> json option" where
  "json_get v k = (case v of JObject kvs \<Rightarrow> map_of kvs k | _ \<Rightarrow> None)"

definition as_str :: "json \<Rightarrow> string option" where
  "as_str v = (case v of JString s \<Rightarrow> Some s | _ \<Rightarrow> None)"

definition as_u64 :: "json \<Rightarrow> nat option" where
  "as_u64 v = (case v of JNumber n \<Rightarrow> parse_uint 64 n | _ \<Rightarrow> None)"

subsection \<open>Code that can panic\<close>

text \<open>A predicate that may panic (\<open>None\<close>), tried on the elements in order until one holds.\<close>

fun any_opt :: "('a \<Rightarrow> bool option) \<Rightarrow> 'a list \<Rightarrow> bool option" where
  "any_opt f [] = Some False"
| "any_opt f (x # xs) =
     (case f x of None \<Rightarrow> None | Some b \<Rightarrow> if b then Some True else any_opt f xs)"

definition filter_opt :: "('a \<Rightarrow> bool option) \<Rightarrow> 'a list \<Rightarrow> 'a list option" where
  "filter_opt f xs =
     map_option (\<lambda>bs. map fst (filter snd (zip xs bs))) (those (map f xs))"

lemma in_set_map_filter: "y \<in> set (List.map_filter f xs) \<longleftrightarrow> (\<exists>x \<in> set xs. f x = Some y)"
  by (force simp: List.map_filter_def)

lemma any_opt_True: "any_opt f xs = Some True \<Longrightarrow> \<exists>x \<in> set xs. f x = Some True"
  by (induction xs) (auto split: option.splits if_splits)

lemma any_opt_False: "any_opt f xs = Some False \<longleftrightarrow> (\<forall>x \<in> set xs. f x = Some False)"
  by (induction xs) (auto split: option.splits if_splits)

lemma any_opt_total: "any_opt (\<lambda>x. Some (P x)) xs = Some (list_ex P xs)"
  by (induction xs) auto

lemma filter_opt_Nil [simp]: "filter_opt f [] = Some []"
  by (simp add: filter_opt_def)

lemma filter_opt_Cons [simp]:
  "filter_opt f (x # xs) =
     (case f x of None \<Rightarrow> None
      | Some b \<Rightarrow> map_option (\<lambda>ys. if b then x # ys else ys) (filter_opt f xs))"
  by (cases "f x"; cases "those (map f xs)") (auto simp: filter_opt_def)

lemma filter_opt_Some:
  "filter_opt f xs = Some ys \<Longrightarrow>
     (\<forall>x \<in> set xs. f x \<noteq> None) \<and> set ys = {x \<in> set xs. f x = Some True}"
  by (induction xs arbitrary: ys) (auto split: option.splits if_splits)

subsection \<open>Stepping over text\<close>

text \<open>Text without the first character of the needle is skipped as a whole.\<close>

lemma find_sub_skip:
  "hd n \<notin> set a \<Longrightarrow> n \<noteq> [] \<Longrightarrow> find_sub (a @ s) n = map_option ((+) (length a)) (find_sub s n)"
proof (induction a)
  case Nil
  then show ?case by (simp add: option.map_ident)
next
  case (Cons c a)
  from Cons.prems have "\<not> starts_with (c # a @ s) n"
    by (cases n) (auto simp: starts_with_def)
  with Cons show ?case by (simp add: option.map_comp comp_def)
qed

lemma find_sub_here: "find_sub (n @ s) n = Some 0"
proof (cases "n @ s")
  case (Cons c cs)
  then have "starts_with (c # cs) n" by (metis starts_with_iff)
  with Cons show ?thesis by simp
qed simp

lemma find_sub_after:
  "hd n \<notin> set a \<Longrightarrow> n \<noteq> [] \<Longrightarrow> find_sub (a @ n @ s) n = Some (length a)"
  by (simp add: find_sub_skip find_sub_here)

lemma find_sub_none: "hd n \<notin> set a \<Longrightarrow> n \<noteq> [] \<Longrightarrow> find_sub a n = None"
  using find_sub_skip [of n a "[]"] by simp

lemma starts_with_Nil [simp]: "starts_with s []"
  by (simp add: starts_with_def)

lemma starts_with_Cons [simp]: "starts_with (c # s) (d # n) \<longleftrightarrow> c = d \<and> starts_with s n"
  by (auto simp: starts_with_def)

lemma starts_with_Nil_Cons [simp]: "\<not> starts_with [] (d # n)"
  by (simp add: starts_with_def)

lemma trim_id:
  assumes "s = [] \<or> (\<not> is_whitespace (hd s) \<and> \<not> is_whitespace (last s))"
  shows "trim s = s"
proof -
  have dw: "dropWhile P xs = xs" if "xs = [] \<or> \<not> P (hd xs)" for P and xs :: string
    using that by (cases xs) auto
  from assms have "dropWhile is_whitespace s = s" by (intro dw) auto
  moreover from assms have "dropWhile is_whitespace (rev s) = rev s"
    by (intro dw) (auto simp: hd_rev)
  ultimately show ?thesis
    by (simp add: trim_def trim_matches_def trim_start_matches_def trim_end_matches_def)
qed

lemma trim_ends:
  "trim s = [] \<or> (\<not> is_whitespace (hd (trim s)) \<and> \<not> is_whitespace (last (trim s)))"
proof -
  define t where "t = dropWhile is_whitespace s"
  have t: "t = [] \<or> \<not> is_whitespace (hd t)"
    unfolding t_def by (metis hd_dropWhile)
  define u where "u = dropWhile is_whitespace (rev t)"
  have u: "u = [] \<or> \<not> is_whitespace (hd u)"
    unfolding u_def by (metis hd_dropWhile)
  have trim: "trim s = rev u"
    by (simp add: trim_def trim_matches_def trim_start_matches_def trim_end_matches_def u_def t_def)
  have "last u = hd t" if "u \<noteq> []"
  proof -
    have "rev t = takeWhile is_whitespace (rev t) @ u" by (simp add: u_def)
    with that show ?thesis by (metis last_appendR last_rev rev_is_Nil_conv append_is_Nil_conv)
  qed
  moreover have "t \<noteq> []" if "u \<noteq> []" using that by (auto simp: u_def)
  ultimately show ?thesis using t u by (auto simp: trim hd_rev last_rev)
qed

lemma trim_idem [simp]: "trim (trim s) = trim s"
  by (rule trim_id) (rule trim_ends)

end
