(* ===== verification/Seats.thy ===== *)
theory Seats
  imports Rust_Text
begin

text \<open>
  The seats of the daemon (\<open>shared-types/src/lib.rs\<close>, \<open>mcp-bridge/src/seat_profile.rs\<close>,
  \<open>mcp-bridge/src/lib.rs\<close>, \<open>mcp-bridge/src/stall.rs\<close>, \<open>mcp-bridge/src/seat_run.rs\<close>): the alias
  table and the canonical name, the profile table with one row per seat, the roster rendered from
  it, and the per-seat stall windows.
\<close>

subsection \<open>Canonical names\<close>

definition AGENT_ALIASES :: "(string \<times> string) list" where
  "AGENT_ALIASES =
    [(''antigravity'', ''gemini''), (''agy'', ''gemini''),
     (''grok-build'', ''grok''), (''xai'', ''grok''), (''supergrok'', ''grok''),
     (''kimi-code'', ''kimi''), (''moonshot'', ''kimi''),
     (''vibe'', ''mistral''), (''mistral-vibe'', ''mistral''), (''devstral'', ''mistral''),
     (''le-chat'', ''mistral''),
     (''qwen-code'', ''qwen''), (''alibaba'', ''qwen''), (''bailian'', ''qwen'')]"

definition normalize_agent_name :: "string \<Rightarrow> string" where
  "normalize_agent_name agent =
     (let lower = to_lowercase agent in
      case find (\<lambda>(al, _). al = lower) AGENT_ALIASES of
        Some (_, canonical) \<Rightarrow> canonical
      | None \<Rightarrow> lower)"

subsection \<open>The profile table\<close>

datatype Surface = AskAgent | Session | Jury | BlindValidate | DoctorLiveProbe
  | PeerReviewRotation | FleetSpawn | FleetTemporal | AbeDispatch | Prewarm

definition Surface_ALL :: "Surface list" where
  "Surface_ALL = [AskAgent, Session, Jury, BlindValidate, DoctorLiveProbe,
     PeerReviewRotation, FleetSpawn, FleetTemporal, AbeDispatch, Prewarm]"

datatype Provider = OpenAi | Google | XAi | Anthropic | DeepSeek | Moonshot | MistralAi | Alibaba

fun Provider_as_str :: "Provider \<Rightarrow> string" where
  "Provider_as_str OpenAi = ''openai''"
| "Provider_as_str Google = ''google''"
| "Provider_as_str XAi = ''x-ai''"
| "Provider_as_str Anthropic = ''anthropic''"
| "Provider_as_str DeepSeek = ''deepseek''"
| "Provider_as_str Moonshot = ''moonshotai''"
| "Provider_as_str MistralAi = ''mistralai''"
| "Provider_as_str Alibaba = ''qwen''"

datatype BillingClass = Subscription | Metered
datatype StallWindow = Secs nat | Disabled
datatype AttemptPolicy = Single | GeminiFaildown | Retry3
datatype QuotaPolicy = TerminalTripBreaker | LegacyQuota
datatype LiveProgress = Streams | Buffered | StreamsExceptAgy
datatype Containment = SeatbeltPlusAudit | ExistingSandbox | NoLocalProcess
datatype UsageSource = Exact | NotReported | AgyEstimated
datatype Configured = Always | EnvFlag string
datatype VerifyPolicy = NotRequired | DoctorLive
datatype SuspensionPolicy = NotClassified | Classified
datatype ConcurrencyLimit = One | Unlimited
datatype ResumeStrategy = KimiSessionFlagSameCwd | VibeResume | QwenResume | LegacyResume
datatype IdPublication = AfterCompletedTurn | ExportJson | SessionStart | LegacyId
datatype Invalidation = VendorRejectedIdMarksBroken | LegacyInvalidation
datatype ModelEvidence = NotExposed | AgyRuntimeReport | ExportConfig | MessageModel | LegacyEvidence
datatype OutcomePolicy = KimiStream | VibeExitCodes | QwenExitCodes | LegacyOutcome
datatype PromptTransport = ArgvMax64KiB | LegacyTransport
datatype PrewarmPolicy = PrewarmAlways | PrewarmNever
datatype PromptUsage = CachedSubsetOfInput | CachedDisjoint

record SeatProfile =
  key :: string
  display_name :: string
  provider :: Provider
  billing :: BillingClass
  stall_window_of :: StallWindow
  fleet_stall_window :: StallWindow
  attempt_policy :: AttemptPolicy
  quota_policy :: QuotaPolicy
  live_progress :: LiveProgress
  parser_modes :: "string list"
  records_tool_calls :: bool
  classifies_reads :: bool
  sight_repair :: bool
  can_write_test_file :: bool
  read_only_containment :: Containment
  usage_source :: UsageSource
  abe_buildable :: bool
  fleet_buildable :: bool
  daemon_target :: bool
  surfaces_allowed :: "Surface list"
  configured_by :: Configured
  verify_policy :: VerifyPolicy
  suspension_policy :: SuspensionPolicy
  concurrency_limit :: ConcurrencyLimit
  resume_strategy :: ResumeStrategy
  session_id_publication :: IdPublication
  session_invalidation :: Invalidation
  home_env_var :: "string option"
  env_remove :: "string list"
  served_model_evidence :: ModelEvidence
  exit_outcome_policy :: OutcomePolicy
  prompt_transport :: PromptTransport
  prewarm_policy :: PrewarmPolicy
  prompt_usage :: PromptUsage

definition EXISTING :: SeatProfile where
  "EXISTING =
    \<lparr>key = '''', display_name = '''', provider = OpenAi, billing = Subscription,
     stall_window_of = Disabled, fleet_stall_window = Disabled, attempt_policy = Single,
     quota_policy = LegacyQuota, live_progress = Streams, parser_modes = [],
     records_tool_calls = True, classifies_reads = True, sight_repair = False,
     can_write_test_file = True, read_only_containment = ExistingSandbox, usage_source = Exact,
     abe_buildable = False, fleet_buildable = False, daemon_target = False,
     surfaces_allowed = Surface_ALL, configured_by = Always, verify_policy = NotRequired,
     suspension_policy = NotClassified, concurrency_limit = Unlimited,
     resume_strategy = LegacyResume, session_id_publication = LegacyId,
     session_invalidation = LegacyInvalidation, home_env_var = None, env_remove = [],
     served_model_evidence = LegacyEvidence, exit_outcome_policy = LegacyOutcome,
     prompt_transport = LegacyTransport, prewarm_policy = PrewarmNever,
     prompt_usage = CachedSubsetOfInput\<rparr>"

definition NEW_SEAT_LAUNCH_SURFACES :: "Surface list" where
  "NEW_SEAT_LAUNCH_SURFACES =
     [AskAgent, Session, Jury, DoctorLiveProbe, AbeDispatch, FleetSpawn, FleetTemporal]"

definition SEAT_CREDENTIAL_SCRUB :: "string list" where
  "SEAT_CREDENTIAL_SCRUB =
    [''MISTRAL_API_KEY'', ''OPENAI_API_KEY'', ''OPENAI_BASE_URL'', ''DASHSCOPE_*'',
     ''BAILIAN_*'', ''QWENCLOUD_*'', ''KIMI_*'', ''MOONSHOT_*'']"

definition NEW_SEAT :: SeatProfile where
  "NEW_SEAT =
    \<lparr>key = '''', display_name = '''', provider = OpenAi, billing = Subscription,
     stall_window_of = Secs 780, fleet_stall_window = Disabled, attempt_policy = Single,
     quota_policy = TerminalTripBreaker, live_progress = Streams, parser_modes = [],
     records_tool_calls = True, classifies_reads = True, sight_repair = False,
     can_write_test_file = False, read_only_containment = SeatbeltPlusAudit,
     usage_source = Exact,
     abe_buildable = True, fleet_buildable = True, daemon_target = True,
     surfaces_allowed = NEW_SEAT_LAUNCH_SURFACES, configured_by = EnvFlag '''',
     verify_policy = DoctorLive, suspension_policy = Classified, concurrency_limit = One,
     resume_strategy = LegacyResume, session_id_publication = LegacyId,
     session_invalidation = VendorRejectedIdMarksBroken, home_env_var = None,
     env_remove = SEAT_CREDENTIAL_SCRUB, served_model_evidence = LegacyEvidence,
     exit_outcome_policy = LegacyOutcome, prompt_transport = ArgvMax64KiB,
     prewarm_policy = PrewarmNever, prompt_usage = CachedSubsetOfInput\<rparr>"

definition row_gemini :: SeatProfile where
  "row_gemini = EXISTING\<lparr>key := ''gemini'', display_name := ''Antigravity'', provider := Google,
     stall_window_of := Secs 300, fleet_stall_window := Secs 300,
     attempt_policy := GeminiFaildown, live_progress := StreamsExceptAgy,
     parser_modes := [''agy-stream-json'', ''gemini-stream-json''],
     usage_source := AgyEstimated, served_model_evidence := AgyRuntimeReport,
     fleet_buildable := True, daemon_target := True, prewarm_policy := PrewarmAlways\<rparr>"

definition row_codex :: SeatProfile where
  "row_codex = EXISTING\<lparr>key := ''codex'', display_name := ''Codex'', provider := OpenAi,
     stall_window_of := Secs 240, fleet_stall_window := Secs 240, attempt_policy := Retry3,
     parser_modes := [''codex-exec-json''], sight_repair := True, abe_buildable := True,
     fleet_buildable := True, daemon_target := True, prewarm_policy := PrewarmAlways\<rparr>"

definition row_deepseek :: SeatProfile where
  "row_deepseek = EXISTING\<lparr>key := ''deepseek'', display_name := ''DeepSeek'', provider := DeepSeek,
     billing := Metered, stall_window_of := Secs 420, live_progress := Buffered,
     records_tool_calls := False, classifies_reads := False, can_write_test_file := False,
     read_only_containment := NoLocalProcess, prompt_usage := CachedDisjoint\<rparr>"

definition row_claude :: SeatProfile where
  "row_claude = EXISTING\<lparr>key := ''claude'', display_name := ''Claude'', provider := Anthropic,
     attempt_policy := Retry3, parser_modes := [''claude-stream-json''], abe_buildable := True\<rparr>"

definition row_grok :: SeatProfile where
  "row_grok = EXISTING\<lparr>key := ''grok'', display_name := ''Grok'', provider := XAi,
     billing := Subscription, stall_window_of := Secs 780, fleet_stall_window := Secs 780,
     parser_modes := [''grok-streaming-json''], sight_repair := True,
     can_write_test_file := False, abe_buildable := True, fleet_buildable := True,
     daemon_target := True\<rparr>"

definition row_kimi :: SeatProfile where
  "row_kimi = NEW_SEAT\<lparr>key := ''kimi'', display_name := ''Kimi'', provider := Moonshot,
     parser_modes := [''kimi-stream-json''], usage_source := NotReported,
     configured_by := EnvFlag ''TRIUMVIRATE_ENABLE_KIMI'',
     resume_strategy := KimiSessionFlagSameCwd, session_id_publication := AfterCompletedTurn,
     home_env_var := Some ''KIMI_CODE_HOME'', served_model_evidence := NotExposed,
     exit_outcome_policy := KimiStream\<rparr>"

definition row_mistral :: SeatProfile where
  "row_mistral = NEW_SEAT\<lparr>key := ''mistral'', display_name := ''Mistral'', provider := MistralAi,
     parser_modes := [''mistral-streaming''],
     configured_by := EnvFlag ''TRIUMVIRATE_ENABLE_MISTRAL'',
     resume_strategy := VibeResume, session_id_publication := ExportJson,
     home_env_var := Some ''VIBE_HOME'', served_model_evidence := ExportConfig,
     exit_outcome_policy := VibeExitCodes\<rparr>"

definition row_qwen :: SeatProfile where
  "row_qwen = NEW_SEAT\<lparr>key := ''qwen'', display_name := ''Qwen'', provider := Alibaba,
     parser_modes := [''qwen-stream-json''],
     configured_by := EnvFlag ''TRIUMVIRATE_ENABLE_QWEN'',
     resume_strategy := QwenResume, session_id_publication := SessionStart,
     home_env_var := Some ''QWEN_HOME'', served_model_evidence := MessageModel,
     exit_outcome_policy := QwenExitCodes\<rparr>"

definition SEATS :: "SeatProfile list" where
  "SEATS = [row_gemini, row_codex, row_deepseek, row_claude, row_grok, row_kimi, row_mistral,
     row_qwen]"

definition seat_profile :: "string \<Rightarrow> SeatProfile option" where
  "seat_profile k = find (\<lambda>s. key s = k) SEATS"

definition all_seats :: "SeatProfile list" where
  "all_seats = SEATS"

definition supported_agent_names :: "string list" where
  "supported_agent_names = map key all_seats"

definition is_supported_agent_name :: "string \<Rightarrow> bool" where
  "is_supported_agent_name agent \<longleftrightarrow> normalize_agent_name agent \<in> set supported_agent_names"

definition display_agent_name :: "string \<Rightarrow> string" where
  "display_agent_name agent =
     (let canonical = normalize_agent_name agent in
      case seat_profile canonical of
        Some row \<Rightarrow> display_name row
      | None \<Rightarrow> (case canonical of [] \<Rightarrow> ''Agent'' | c # cs \<Rightarrow> upper_char c # cs))"

subsection \<open>Consumers of the table\<close>

datatype GeminiBackend = GeminiCli | Agy

definition streams_live_progress_for_row :: "SeatProfile option \<Rightarrow> GeminiBackend option \<Rightarrow> bool" where
  "streams_live_progress_for_row row backend =
     (case map_option live_progress row of
        Some StreamsExceptAgy \<Rightarrow> backend \<noteq> Some Agy
      | Some Buffered \<Rightarrow> False
      | Some Streams \<Rightarrow> True
      | None \<Rightarrow> True)"

definition streams_live_progress :: "string \<Rightarrow> GeminiBackend option \<Rightarrow> bool" where
  "streams_live_progress agent backend =
     streams_live_progress_for_row (seat_profile (normalize_agent_name agent)) backend"

definition modes_with_tool_records_from :: "SeatProfile list \<Rightarrow> string list" where
  "modes_with_tool_records_from rows = concat (map parser_modes (filter records_tool_calls rows))"

definition modes_that_classify_reads_from :: "SeatProfile list \<Rightarrow> string list" where
  "modes_that_classify_reads_from rows = concat (map parser_modes (filter classifies_reads rows))"

definition sight_repair_agents_from :: "SeatProfile list \<Rightarrow> string list" where
  "sight_repair_agents_from rows = map key (filter sight_repair rows)"

definition GEMINI_MODEL_FAILDOWN :: "string list" where
  "GEMINI_MODEL_FAILDOWN = [''gemini-2.5-flash'', ''gemini-3-flash-preview'', ''gemini-2.5-pro'',
     ''gemini-3.1-pro-preview'']"

definition attempt_schedule_for_row ::
  "SeatProfile option \<Rightarrow> GeminiBackend option \<Rightarrow> bool \<Rightarrow> bool \<Rightarrow> (duration \<times> string option) list"
where
  "attempt_schedule_for_row row backend review strict =
     (if review then [(0, None)]
      else
        let policy = (case row of None \<Rightarrow> Retry3 | Some r \<Rightarrow> attempt_policy r) in
        if policy = GeminiFaildown then
          if backend = Some Agy then [(0, None)]
          else if strict then [(0, Some (hd GEMINI_MODEL_FAILDOWN))]
          else map (\<lambda>(i, model). (if i = (0::nat) then 0 else from_millis 500, Some model))
                 (enumerate 0 GEMINI_MODEL_FAILDOWN)
        else if policy = Single then [(0, None)]
        else [(from_millis 250, None), (from_secs 1, None), (from_secs 2, None)])"

definition attempt_schedule_for ::
  "string \<Rightarrow> GeminiBackend option \<Rightarrow> bool \<Rightarrow> bool \<Rightarrow> (duration \<times> string option) list"
where
  "attempt_schedule_for agent backend review strict =
     attempt_schedule_for_row (seat_profile (normalize_agent_name agent)) backend review strict"

subsection \<open>Stall windows\<close>

fun window_secs :: "StallWindow \<Rightarrow> nat option" where
  "window_secs (Secs s) = Some s"
| "window_secs Disabled = None"

definition stall_window_secs_for_row :: "SeatProfile option \<Rightarrow> nat option" where
  "stall_window_secs_for_row row = Option.bind row (\<lambda>r. window_secs (stall_window_of r))"

definition default_stall_window_secs :: "string \<Rightarrow> nat option" where
  "default_stall_window_secs agent = stall_window_secs_for_row (seat_profile (normalize_agent_name agent))"

definition stall_window_env_var :: "string \<Rightarrow> string" where
  "stall_window_env_var agent = ''TRIUMVIRATE_STALL_SECS_'' @ to_ascii_uppercase agent"

text \<open>The environment is the map \<open>env\<close>.\<close>

definition stall_window :: "(string \<Rightarrow> string option) \<Rightarrow> string \<Rightarrow> duration option" where
  "stall_window env agent =
     (case env (stall_window_env_var agent) of
        Some raw \<Rightarrow> (case parse_uint 64 (trim raw) of
            Some n \<Rightarrow> if n = 0 then None else Some (from_secs n)
          | None \<Rightarrow> map_option from_secs (default_stall_window_secs agent))
      | None \<Rightarrow> map_option from_secs (default_stall_window_secs agent))"

definition stalled_message :: "nat \<Rightarrow> string" where
  "stalled_message secs = ''stalled after '' @ show_nat secs @ '' s without progress''"

definition stall_deadline :: "duration option \<Rightarrow> instant \<Rightarrow> instant option" where
  "stall_deadline window last_progress = map_option (\<lambda>w. last_progress + w) window"

subsection \<open>The writer seats\<close>

definition is_writer_seat :: "string \<Rightarrow> bool" where
  "is_writer_seat seat \<longleftrightarrow> seat \<in> {''kimi'', ''mistral'', ''qwen''}"

definition inner_timeout_secs :: "nat \<Rightarrow> nat" where
  "inner_timeout_secs outer = (if outer \<le> 120 then max (outer div 2) 1 else outer - 60)"

lemmas row_defs = row_gemini_def row_codex_def row_deepseek_def row_claude_def row_grok_def
  row_kimi_def row_mistral_def row_qwen_def EXISTING_def NEW_SEAT_def

subsection \<open>Lemmas on the table\<close>

lemma row_keys [simp]:
  "key row_gemini = ''gemini''" "key row_codex = ''codex''" "key row_deepseek = ''deepseek''"
  "key row_claude = ''claude''" "key row_grok = ''grok''" "key row_kimi = ''kimi''"
  "key row_mistral = ''mistral''" "key row_qwen = ''qwen''"
  by (simp_all add: row_defs)

lemma seat_names:
  "supported_agent_names =
     [''gemini'', ''codex'', ''deepseek'', ''claude'', ''grok'', ''kimi'', ''mistral'', ''qwen'']"
  by (simp add: supported_agent_names_def all_seats_def SEATS_def)

lemma seat_profile_Some: "seat_profile k = Some row \<Longrightarrow> key row = k \<and> row \<in> set SEATS"
  by (auto simp: seat_profile_def dest: find_SomeD)

lemma seat_profile_None_iff: "seat_profile k = None \<longleftrightarrow> k \<notin> set supported_agent_names"
  by (auto simp: seat_profile_def find_None_iff supported_agent_names_def all_seats_def)

lemma distinct_seat_keys: "distinct supported_agent_names"
  by (simp add: seat_names)

lemma row_in_table:
  assumes "row \<in> set SEATS"
  shows "seat_profile (key row) = Some row"
  unfolding seat_profile_def
  using distinct_seat_keys assms
  by (intro find_key_distinct) (simp_all add: supported_agent_names_def all_seats_def)

lemma lowercase_names:
  "list_all (\<lambda>(a, c). to_lowercase a = a \<and> to_lowercase c = c) AGENT_ALIASES"
  "list_all (\<lambda>k. to_lowercase k = k) supported_agent_names"
  by code_simp+

lemma alias_targets_are_seats:
  "list_all (\<lambda>(a, c). c \<in> set supported_agent_names \<and> c \<notin> set (map fst AGENT_ALIASES)
     \<and> a \<notin> set supported_agent_names) AGENT_ALIASES"
  by code_simp

lemma find_alias_Some:
  assumes "find (\<lambda>(al, _). al = l) AGENT_ALIASES = Some (a, c)"
  shows "a = l \<and> (l, c) \<in> set AGENT_ALIASES"
  using find_SomeD [OF assms] by auto

lemma normalize_cases:
  obtains (aliased) c where "(to_lowercase a, c) \<in> set AGENT_ALIASES" "normalize_agent_name a = c"
  | (plain) "to_lowercase a \<notin> set (map fst AGENT_ALIASES)" "normalize_agent_name a = to_lowercase a"
proof (cases "find (\<lambda>(al, _). al = to_lowercase a) AGENT_ALIASES")
  case None
  then have "normalize_agent_name a = to_lowercase a" by (simp add: normalize_agent_name_def)
  with None show ?thesis by (intro plain) (auto simp: find_None_iff)
next
  case (Some p)
  obtain x c where p: "p = (x, c)" by fastforce
  show ?thesis
    using find_alias_Some [OF Some [unfolded p]] Some
    by (intro aliased [of c]) (auto simp: normalize_agent_name_def Let_def p)
qed

lemma normalize_lowercase: "to_lowercase (normalize_agent_name a) = normalize_agent_name a"
  using lowercase_names(1) by (cases a rule: normalize_cases) (auto simp: list_all_iff)

lemma normalize_not_alias: "normalize_agent_name a \<notin> set (map fst AGENT_ALIASES)"
  using alias_targets_are_seats by (cases a rule: normalize_cases) (auto simp: list_all_iff)

lemma normalize_fixpoint:
  assumes "to_lowercase a = a" and "a \<notin> set (map fst AGENT_ALIASES)"
  shows "normalize_agent_name a = a"
  using assms by (cases a rule: normalize_cases) (force simp: rev_image_eqI)+

lemma normalize_seat: "k \<in> set supported_agent_names \<Longrightarrow> normalize_agent_name k = k"
  using alias_targets_are_seats lowercase_names(2)
  by (intro normalize_fixpoint) (force simp: list_all_iff)+

text \<open>The canonical name is a fixed point (normalizing twice changes nothing), does not depend
  on the letter case of its input, and every alias of the table names a seat that has a profile row,
  so no alias of a seat can reach dispatch, the jury or the reviewer rotation under a second name.\<close>

theorem normalize_agent_name_canonical:
  "normalize_agent_name (normalize_agent_name a) = normalize_agent_name a
   \<and> normalize_agent_name (to_lowercase a) = normalize_agent_name a
   \<and> (is_supported_agent_name a = (seat_profile (normalize_agent_name a) \<noteq> None))
   \<and> list_all (\<lambda>(al, k). normalize_agent_name al = k \<and> seat_profile k \<noteq> None) AGENT_ALIASES"
proof (intro conjI)
  show "normalize_agent_name (normalize_agent_name a) = normalize_agent_name a"
    by (intro normalize_fixpoint normalize_lowercase normalize_not_alias)
  show "normalize_agent_name (to_lowercase a) = normalize_agent_name a"
    by (simp add: normalize_agent_name_def)
  show "is_supported_agent_name a = (seat_profile (normalize_agent_name a) \<noteq> None)"
    by (simp add: is_supported_agent_name_def seat_profile_None_iff)
  have "list_all (\<lambda>(al, k). normalize_agent_name al = k) AGENT_ALIASES"
    by code_simp
  with alias_targets_are_seats
  show "list_all (\<lambda>(al, k). normalize_agent_name al = k \<and> seat_profile k \<noteq> None) AGENT_ALIASES"
    by (auto simp: list_all_iff seat_profile_None_iff)
qed

lemma faildown_nonempty: "GEMINI_MODEL_FAILDOWN \<noteq> []" "length GEMINI_MODEL_FAILDOWN = 4"
  by (simp_all add: GEMINI_MODEL_FAILDOWN_def)

text \<open>The attempt schedule never starves and never hides a substitution. Every agent gets at
  least one and at most four attempts; a sight-gated review and every seat on the \<open>agy\<close> backend get
  exactly one; and under \<open>strict\<close> all attempts run on one model, so a strict dispatch cannot fail
  down to another model.\<close>

theorem attempt_schedule_sound:
  "1 \<le> length (attempt_schedule_for agent backend review strict)
   \<and> length (attempt_schedule_for agent backend review strict) \<le> 4
   \<and> length (attempt_schedule_for agent backend True strict) = 1
   \<and> length (attempt_schedule_for ''gemini'' (Some Agy) review strict) = 1
   \<and> card (snd ` set (attempt_schedule_for agent backend review True)) = 1"
proof -
  have g: "seat_profile (normalize_agent_name ''gemini'') = Some row_gemini"
    using row_in_table [of row_gemini] normalize_seat [of "''gemini''"]
    by (simp add: SEATS_def seat_names)
  have "attempt_policy row_gemini = GeminiFaildown" by (simp add: row_defs)
  with g show ?thesis
    by (auto simp: attempt_schedule_for_def attempt_schedule_for_row_def Let_def faildown_nonempty)
qed

text \<open>A stall window in force is never zero seconds, an override of zero switches stall
  detection off for that agent alone, and an override that does not parse leaves the default in
  force instead of silently disabling the kill.\<close>

theorem stall_window_override:
  "(stall_window env agent = Some w \<longrightarrow> 0 < w)
   \<and> (env (stall_window_env_var agent) = Some ''0'' \<longrightarrow> stall_window env agent = None)
   \<and> (env (stall_window_env_var agent) = Some raw \<and> parse_uint 64 (trim raw) = None \<longrightarrow>
        stall_window env agent = stall_window (\<lambda>_. None) agent)"
proof (intro conjI impI)
  have pos: "default_stall_window_secs agent = Some n \<Longrightarrow> 0 < n" for n
  proof -
    assume "default_stall_window_secs agent = Some n"
    then obtain row where "row \<in> set SEATS" and "window_secs (stall_window_of row) = Some n"
      using seat_profile_Some
      by (auto simp: default_stall_window_secs_def stall_window_secs_for_row_def bind_eq_Some_conv)
    moreover have "list_all (\<lambda>row. stall_window_of row \<noteq> Secs 0) SEATS"
      by code_simp
    ultimately show "0 < n"
      by (cases "stall_window_of row") (auto simp: list_all_iff intro!: gr0I)
  qed
  have secs_pos: "0 < n \<Longrightarrow> 0 < from_secs n" for n
    by (simp add: from_secs_def nanos_per_sec_def)
  assume "stall_window env agent = Some w"
  then obtain n where "w = from_secs n" and "0 < n"
    by (auto simp: stall_window_def dest: pos split: option.splits if_splits)
  then show "0 < w" by (simp add: secs_pos)
next
  assume "env (stall_window_env_var agent) = Some ''0''"
  moreover have "trim ''0'' = ''0''" and "digits_value 0 ''0'' = Some 0" by code_simp+
  then have "parse_uint 64 (trim ''0'') = Some 0" by (simp add: parse_uint_def)
  ultimately show "stall_window env agent = None" by (simp add: stall_window_def)
next
  assume "env (stall_window_env_var agent) = Some raw \<and> parse_uint 64 (trim raw) = None"
  then show "stall_window env agent = stall_window (\<lambda>_. None) agent"
    by (simp add: stall_window_def)
qed

theorem stall_window_override_witness:
  "stall_window (\<lambda>_. Some ''soon'') ''grok'' = stall_window (\<lambda>_. None) ''grok''"
proof -
  have "trim ''soon'' = ''soon''" and "digits_value 0 ''soon'' = None" by code_simp+
  then have "parse_uint 64 (trim ''soon'') = None" by (simp add: parse_uint_def)
  then show ?thesis
    using stall_window_override [of "\<lambda>_. Some ''soon''" "''grok''" _ "''soon''"] by blast
qed

end
