(* ===== verification/Rust_Path.thy ===== *)
theory Rust_Path
  imports Rust_Prelude
begin

text \<open>
  \<open>std::path\<close> as the code uses it: a path is the list of its components. Repeated separators and
  inner \<open>.\<close> components disappear when a path is taken apart, a leading \<open>.\<close> stays.
\<close>

datatype component = RootDir | CurDir | ParentDir | NormalComp string

type_synonym path = "component list"

definition components :: "string \<Rightarrow> path" where
  "components p =
     (let segs = filter (\<lambda>s. s \<noteq> [] \<and> s \<noteq> ''.'') (split_char (CHR ''/'') p);
          absolute = starts_with p ''/'';
          leading = (if \<not> absolute \<and> hd (split_char (CHR ''/'') p) = ''.'' then [CurDir] else [])
      in (if absolute then [RootDir] else []) @ leading
           @ map (\<lambda>s. if s = ''..'' then ParentDir else NormalComp s) segs)"

text \<open>\<open>Path::parent\<close> and \<open>PathBuf::pop\<close>: there is none for the empty path and for the root; any other
  last component, \<open>..\<close> included, is removed.\<close>

definition pop :: "path \<Rightarrow> path option" where
  "pop p = (if p = [] \<or> last p = RootDir then None else Some (butlast p))"

definition file_name :: "path \<Rightarrow> string option" where
  "file_name p = (if p = [] then None else case last p of NormalComp s \<Rightarrow> Some s | _ \<Rightarrow> None)"

fun show_component :: "component \<Rightarrow> string" where
  "show_component RootDir = []"
| "show_component CurDir = ''.''"
| "show_component ParentDir = ''..''"
| "show_component (NormalComp s) = s"

definition show_path :: "path \<Rightarrow> string" where
  "show_path p = (if p = [RootDir] then ''/'' else join ''/'' (map show_component p))"

lemma pop_Some: "pop p = Some q \<Longrightarrow> \<exists>c. p = q @ [c] \<and> c \<noteq> RootDir"
  by (cases p rule: rev_cases) (auto simp: pop_def split: if_splits)

end
