(* ===== verification/Agy_Breaker.thy ===== *)
theory Agy_Breaker
  imports Resilience_Spec Seats
begin

text \<open>
  The resilience layer of the \<open>agy\<close> back end (\<open>mcp-bridge/src/agy_resilience.rs\<close>): environment
  knobs, the token bucket, the circuit breaker with its process-wide wrappers and telemetry, and the
  health state. The environment is a map, the clock an argument; \<open>f64\<close> arithmetic of the token
  bucket is exact rational arithmetic, and \<open>str::parse::<f64>\<close> is the parameter \<open>parse_f64\<close>. The
  mutex around each state makes every wrapper one atomic step.
\<close>

subsection \<open>Knobs\<close>

type_synonym environment = "string \<Rightarrow> string option"

definition degraded_route_env :: "environment \<Rightarrow> string" where
  "degraded_route_env env = (case env ''TRIUMVIRATE_GEMINI_DEGRADED_ROUTE'' of Some v \<Rightarrow> v | None \<Rightarrow> ''fail'')"

definition degraded_route_allows_codex :: "environment \<Rightarrow> bool" where
  "degraded_route_allows_codex env \<longleftrightarrow>
     list_ex (\<lambda>t. eq_ignore_ascii_case (trim t) ''codex'') (split_char (CHR '','') (degraded_route_env env))"

definition agy_max_concurrent :: "environment \<Rightarrow> nat" where
  "agy_max_concurrent env =
     (case Option.bind (env ''TRIUMVIRATE_AGY_MAX_CONCURRENT'') (parse_uint 64) of
        Some n \<Rightarrow> if n > 0 then n else 3
      | None \<Rightarrow> 3)"

definition agy_max_rpm :: "(string \<Rightarrow> rat option) \<Rightarrow> environment \<Rightarrow> rat" where
  "agy_max_rpm parse_f64 env =
     (case Option.bind (env ''TRIUMVIRATE_AGY_MAX_RPM'') parse_f64 of
        Some n \<Rightarrow> if n > 0 then n else 30
      | None \<Rightarrow> 30)"

definition breaker_threshold :: "environment \<Rightarrow> u32" where
  "breaker_threshold env =
     (case Option.bind (env ''TRIUMVIRATE_AGY_BREAKER_THRESHOLD'') (parse_uint 32) of
        Some n \<Rightarrow> if n > 0 then of_nat n else 3
      | None \<Rightarrow> 3)"

definition breaker_base_cooldown :: "environment \<Rightarrow> duration" where
  "breaker_base_cooldown env =
     (case Option.bind (env ''TRIUMVIRATE_AGY_BREAKER_COOLDOWN_SECS'') (parse_uint 64) of
        Some n \<Rightarrow> from_secs n
      | None \<Rightarrow> from_secs 120)"

definition agy_limits :: "(string \<Rightarrow> rat option) \<Rightarrow> environment \<Rightarrow> nat \<times> rat" where
  "agy_limits parse_f64 env = (agy_max_concurrent env, agy_max_rpm parse_f64 env)"

definition BREAKER_MAX_COOLDOWN :: duration where
  "BREAKER_MAX_COOLDOWN = from_secs (5 * 60 * 60)"

definition HALF_OPEN_LEASE_MIN :: duration where
  "HALF_OPEN_LEASE_MIN = from_secs (30 * 60)"

definition agy_connector_timeout :: "environment \<Rightarrow> duration" where
  "agy_connector_timeout env =
     (case Option.bind (env ''TRIUMVIRATE_AGY_CONNECTOR_TIMEOUT_SECS'') (parse_uint 64) of
        Some n \<Rightarrow> from_secs n
      | None \<Rightarrow> from_secs 900)"

definition half_open_lease :: "environment \<Rightarrow> duration" where
  "half_open_lease env = max (agy_connector_timeout env * 3) HALF_OPEN_LEASE_MIN"

subsection \<open>Token bucket\<close>

record TokenBucket =
  tokens :: rat
  capacity :: rat
  refill_per_sec :: rat
  last_take :: instant

definition try_take :: "instant \<Rightarrow> TokenBucket \<Rightarrow> duration option \<times> TokenBucket" where
  "try_take now b =
     (let elapsed = as_secs_rat (duration_since now (last_take b));
          t = min (tokens b + elapsed * refill_per_sec b) (capacity b);
          b' = b\<lparr>tokens := t, last_take := now\<rparr>
      in if t \<ge> 1 then (None, b'\<lparr>tokens := t - 1\<rparr>)
         else (Some (from_secs_rat ((1 - t) / refill_per_sec b)), b'))"

definition rate_bucket :: "(string \<Rightarrow> rat option) \<Rightarrow> environment \<Rightarrow> instant \<Rightarrow> TokenBucket" where
  "rate_bucket parse_f64 env now =
     (let cap = max (of_nat (agy_max_concurrent env)) 1 in
      \<lparr>tokens = cap, capacity = cap, refill_per_sec = agy_max_rpm parse_f64 env / 60, last_take = now\<rparr>)"

text \<open>\<open>agy_rate_limit\<close>: one \<open>try_take\<close> at each wake-up of the sleeping task until a token is granted;
  the clock readings are the argument, so running out of readings is \<open>None\<close>. The result is the bucket
  and whether the call was delayed, which is when the event is sent.\<close>

fun agy_rate_limit :: "bool \<Rightarrow> instant list \<Rightarrow> TokenBucket \<Rightarrow> (bool \<times> TokenBucket) option" where
  "agy_rate_limit throttled [] b = None"
| "agy_rate_limit throttled (now # nows) b =
     (case try_take now b of
        (None, b') \<Rightarrow> Some (throttled, b')
      | (Some _, b') \<Rightarrow> agy_rate_limit True nows b')"

subsection \<open>The breaker\<close>

datatype BreakerPhase = Closed | Open | HalfOpen

record BreakerState =
  phase :: BreakerPhase
  consecutive :: u32
  open_until :: "instant option"
  open_count :: u32
  half_open_inflight :: bool
  half_open_since :: "instant option"
  shed :: u64

definition breaker_new :: BreakerState where
  "breaker_new = \<lparr>phase = Closed, consecutive = 0, open_until = None, open_count = 0,
     half_open_inflight = False, half_open_since = None, shed = 0\<rparr>"

definition should_skip :: "instant \<Rightarrow> duration \<Rightarrow> BreakerState \<Rightarrow> bool \<times> BreakerState" where
  "should_skip now lease b =
     (case phase b of
        Open \<Rightarrow> (case open_until b of
            Some until \<Rightarrow>
              if until \<le> now
              then (False, b\<lparr>phase := HalfOpen, half_open_inflight := True, half_open_since := Some now\<rparr>)
              else (True, b)
          | None \<Rightarrow> (True, b))
      | HalfOpen \<Rightarrow>
          if \<not> half_open_inflight b
          then (False, b\<lparr>half_open_inflight := True, half_open_since := Some now\<rparr>)
          else (case half_open_since b of
              Some since \<Rightarrow>
                if duration_since now since > lease then (False, b\<lparr>half_open_since := Some now\<rparr>)
                else (True, b)
            | None \<Rightarrow> (True, b))
      | Closed \<Rightarrow> (False, b))"

definition record_success :: "BreakerState \<Rightarrow> BreakerState" where
  "record_success b = b\<lparr>phase := Closed, consecutive := 0, open_until := None, open_count := 0,
     half_open_inflight := False, half_open_since := None, shed := 0\<rparr>"

text \<open>The seconds of a \<open>Duration\<close> are a \<open>u64\<close>, and so is the product with the power of two.\<close>

definition exp_cooldown :: "duration \<Rightarrow> u32 \<Rightarrow> duration" where
  "exp_cooldown base count =
     (let shift = min (unat (saturating_sub count 1)) 12;
          mult = push_bit shift (1 :: u64);
          secs = saturating_mul (of_nat (as_secs base)) mult
      in min (from_secs (unat secs)) BREAKER_MAX_COOLDOWN)"

definition trip :: "instant \<Rightarrow> duration \<Rightarrow> BreakerState \<Rightarrow> BreakerState" where
  "trip now base b =
     (let count = saturating_add (open_count b) 1; cooldown = exp_cooldown base count in
      b\<lparr>open_count := count, phase := Open, open_until := Some (now + cooldown), consecutive := 0,
        half_open_inflight := False, half_open_since := None, shed := 0\<rparr>)"

definition record_quota :: "instant \<Rightarrow> u32 \<Rightarrow> duration \<Rightarrow> BreakerState \<Rightarrow> BreakerState" where
  "record_quota now threshold base b =
     (if phase b = Open then b
      else if phase b = HalfOpen then trip now base b
      else
        (let b' = b\<lparr>consecutive := saturating_add (consecutive b) 1\<rparr> in
         if threshold \<le> consecutive b' then trip now base b' else b'))"

definition record_other :: "instant \<Rightarrow> u32 \<Rightarrow> duration \<Rightarrow> BreakerState \<Rightarrow> BreakerState" where
  "record_other now threshold base b =
     (if phase b = Open then b
      else if phase b = HalfOpen then trip now base b
      else
        (let b' = b\<lparr>consecutive := saturating_add (consecutive b) 1\<rparr> in
         if saturating_add threshold 1 \<le> consecutive b' then trip now base b' else b'))"

record BreakerSnapshot =
  snap_phase :: string
  cooldown_remaining_s :: nat
  snap_open_count :: u32
  snap_shed :: u64

definition snapshot :: "instant \<Rightarrow> BreakerState \<Rightarrow> BreakerSnapshot" where
  "snapshot now b =
     \<lparr>snap_phase = (case phase b of Closed \<Rightarrow> ''closed'' | Open \<Rightarrow> ''open'' | HalfOpen \<Rightarrow> ''half_open''),
      cooldown_remaining_s = (case (phase b, open_until b) of
          (Open, Some until) \<Rightarrow> as_secs (duration_since until now)
        | _ \<Rightarrow> 0),
      snap_open_count = open_count b, snap_shed = shed b\<rparr>"

subsection \<open>Process-wide wrappers\<close>

datatype breaker_event = OpenedShedding | HalfOpenProbe u64 | Recovered u64 | TrippedQuota u64
  | TrippedOther u64

definition agy_breaker_should_skip ::
  "environment \<Rightarrow> instant \<Rightarrow> BreakerState \<Rightarrow> bool \<times> BreakerState \<times> breaker_event list"
where
  "agy_breaker_should_skip env now b =
     (let (skip, b1) = should_skip now (half_open_lease env) b;
          b2 = (if skip then b1\<lparr>shed := saturating_add (shed b1) 1\<rparr> else b1)
      in (skip, b2,
          if skip then (if shed b2 = 1 then [OpenedShedding] else [])
          else if phase b2 = HalfOpen then [HalfOpenProbe (shed b2)] else []))"

definition agy_breaker_record_success :: "BreakerState \<Rightarrow> BreakerState \<times> breaker_event list" where
  "agy_breaker_record_success b =
     (record_success b, if phase b \<noteq> Closed then [Recovered (shed b)] else [])"

definition record_and_report ::
  "(instant \<Rightarrow> BreakerState \<Rightarrow> BreakerState) \<Rightarrow> instant \<Rightarrow> BreakerState \<Rightarrow> u64 option \<times> BreakerState"
where
  "record_and_report apply_fn now b =
     (let b' = apply_fn now b in
      (if phase b' = Open \<and> phase b \<noteq> Open then Some (shed b) else None, b'))"

definition agy_breaker_record_quota ::
  "environment \<Rightarrow> instant \<Rightarrow> BreakerState \<Rightarrow> BreakerState \<times> breaker_event list"
where
  "agy_breaker_record_quota env now b =
     (case record_and_report
          (\<lambda>now b. record_quota now (breaker_threshold env) (breaker_base_cooldown env) b) now b of
        (Some n, b') \<Rightarrow> (b', [TrippedQuota n])
      | (None, b') \<Rightarrow> (b', []))"

definition agy_breaker_record_other_failure ::
  "environment \<Rightarrow> instant \<Rightarrow> BreakerState \<Rightarrow> BreakerState \<times> breaker_event list"
where
  "agy_breaker_record_other_failure env now b =
     (case record_and_report
          (\<lambda>now b. record_other now (breaker_threshold env) (breaker_base_cooldown env) b) now b of
        (Some n, b') \<Rightarrow> (b', [TrippedOther n])
      | (None, b') \<Rightarrow> (b', []))"

definition agy_breaker_snapshot :: "instant \<Rightarrow> BreakerState \<Rightarrow> BreakerSnapshot" where
  "agy_breaker_snapshot now b = snapshot now b"

subsection \<open>Health\<close>

definition agy_health_probe_interval :: "environment \<Rightarrow> duration" where
  "agy_health_probe_interval env =
     (case Option.bind (env ''TRIUMVIRATE_AGY_HEALTH_PROBE_SECS'') (parse_uint 64) of
        Some n \<Rightarrow> if n > 0 then from_secs n else from_secs 300
      | None \<Rightarrow> from_secs 300)"

datatype AgyProbeOutcome = ProbeOk | CaptureDegraded | BackendFailed

record AgyHealthSnapshot =
  capture_health :: string
  backend_health :: string
  health_detail :: string
  last_probe_unix_ms :: "nat option"

definition health_default :: AgyHealthSnapshot where
  "health_default = \<lparr>capture_health = ''unknown'', backend_health = ''unknown'',
     health_detail = ''no probe run yet'', last_probe_unix_ms = None\<rparr>"

definition agy_record_health ::
  "AgyProbeOutcome \<Rightarrow> string \<Rightarrow> nat \<Rightarrow> AgyHealthSnapshot \<Rightarrow> AgyHealthSnapshot \<times> (string \<times> string \<times> string)"
where
  "agy_record_health outcome detail now_ms h =
     (let h1 = h\<lparr>health_detail := detail, last_probe_unix_ms := Some now_ms\<rparr>;
          h2 = (case outcome of
              ProbeOk \<Rightarrow> h1\<lparr>capture_health := ''ok'', backend_health := ''ok''\<rparr>
            | CaptureDegraded \<Rightarrow> h1\<lparr>capture_health := ''degraded'', backend_health := ''ok''\<rparr>
            | BackendFailed \<Rightarrow> h1\<lparr>backend_health := ''failed''\<rparr>)
      in (h2, (capture_health h2, backend_health h2, health_detail h2)))"

subsection \<open>The contracts hold\<close>

definition agy_acquire :: "duration \<Rightarrow> instant \<Rightarrow> BreakerState \<Rightarrow> bool \<times> BreakerState" where
  "agy_acquire lease now b = (case should_skip now lease b of (skip, b') \<Rightarrow> (\<not> skip, b'))"

definition agy_cooling :: "BreakerState \<Rightarrow> instant option" where
  "agy_cooling b = (if phase b = Open then open_until b else None)"

definition agy_probing :: "duration \<Rightarrow> BreakerState \<Rightarrow> instant option" where
  "agy_probing lease b =
     (if phase b = HalfOpen \<and> half_open_inflight b
      then map_option (\<lambda>since. since + Suc lease) (half_open_since b) else None)"

interpretation agy: circuit_breaker "agy_acquire lease" agy_cooling "agy_probing lease" "\<lambda>_. Suc lease"
  for lease
  by unfold_locales
    (auto simp: agy_acquire_def agy_cooling_def agy_probing_def should_skip_def duration_since_def
      split: if_splits option.splits)

definition bucket_ok :: "TokenBucket \<Rightarrow> bool" where
  "bucket_ok b \<longleftrightarrow> 0 \<le> tokens b \<and> tokens b \<le> capacity b \<and> 0 \<le> refill_per_sec b"

definition take_granted :: "instant \<Rightarrow> TokenBucket \<Rightarrow> bool \<times> TokenBucket" where
  "take_granted now b = (case try_take now b of (w, b') \<Rightarrow> (w = None, b'))"

interpretation agy_rate: rate_limiter take_granted tokens refill_per_sec last_take bucket_ok
  by unfold_locales
    (auto simp: take_granted_def try_take_def bucket_ok_def duration_since_def Let_def mult.commute
      min_def)

subsection \<open>Cooldowns\<close>

lemma exp_cooldown_eq:
  assumes "as_secs base < 2 ^ 64"
  shows "exp_cooldown base n =
      min (from_secs (as_secs base * 2 ^ min (unat n - 1) 12)) BREAKER_MAX_COOLDOWN"
proof -
  define k where "k = min (unat n - 1) 12"
  have k: "k \<le> 12" by (simp add: k_def)
  have "push_bit k (1 :: u64) = of_nat (2 ^ k)" by (simp add: push_bit_eq_mult)
  moreover have "unat (of_nat (2 ^ k) :: u64) = 2 ^ k"
    unfolding unsigned_of_nat of_nat_id using k
    by (intro take_bit_nat_eq_self power_strict_increasing) simp_all
  ultimately have mult: "unat (push_bit k (1 :: u64)) = 2 ^ k" by simp
  have base: "unat (of_nat (as_secs base) :: u64) = as_secs base"
    using assms by (simp add: unsigned_of_nat take_bit_nat_eq_self)
  have shift: "unat (saturating_sub n 1) = unat n - 1"
    by (simp add: unat_saturating_sub)
  have cap: "(5 * 60 * 60 :: nat) \<le> 2 ^ 64 - 1" by simp
  then have "from_secs (5 * 60 * 60) \<le> from_secs (2 ^ 64 - 1)" by (rule from_secs_mono)
  then have "min (from_secs (min a (2 ^ 64 - 1))) BREAKER_MAX_COOLDOWN = min (from_secs a) BREAKER_MAX_COOLDOWN" for a
    unfolding BREAKER_MAX_COOLDOWN_def from_secs_min by (simp only: min.assoc min_absorb2)
  then show ?thesis
    unfolding exp_cooldown_def Let_def shift k_def [symmetric] unat_saturating_mul mult base by simp
qed

lemma exp_cooldown_le: "exp_cooldown base n \<le> BREAKER_MAX_COOLDOWN"
  by (simp add: exp_cooldown_def Let_def)

text \<open>The cooldown of the n-th consecutive opening is the base doubled \<open>n - 1\<close> times, at most
  twelve times, and never more than five hours: neither the \<open>u64\<close> product nor the shift can wrap to
  a short cooldown. It never shrinks from one opening to the next.\<close>

theorem exp_cooldown_doubles:
  assumes "as_secs base < 2 ^ 64"
  shows "exp_cooldown base n =
      min (from_secs (as_secs base * 2 ^ min (unat n - 1) 12)) (from_secs 18000)
    \<and> exp_cooldown base n \<le> exp_cooldown base (saturating_add n 1)"
proof
  show "exp_cooldown base n =
      min (from_secs (as_secs base * 2 ^ min (unat n - 1) 12)) (from_secs 18000)"
    using exp_cooldown_eq [OF assms] by (simp add: BREAKER_MAX_COOLDOWN_def)
  have "unat n \<le> unat (saturating_add n 1)"
    using saturating_add_mono [of n 1] by (simp add: word_le_nat_alt)
  then have "(2 :: nat) ^ min (unat n - 1) 12 \<le> 2 ^ min (unat (saturating_add n 1) - 1) 12"
    by (intro power_increasing) auto
  then have "from_secs (as_secs base * 2 ^ min (unat n - 1) 12)
      \<le> from_secs (as_secs base * 2 ^ min (unat (saturating_add n 1) - 1) 12)"
    by (intro from_secs_mono mult_le_mono2)
  then show "exp_cooldown base n \<le> exp_cooldown base (saturating_add n 1)"
    unfolding exp_cooldown_eq [OF assms] by (intro min.mono order_refl)
qed

theorem exp_cooldown_doubles_witness:
  "exp_cooldown (from_secs 120) 2 = from_secs 240 \<and> exp_cooldown (from_secs 120) (- 1) = from_secs 18000"
proof -
  have "as_secs (from_secs 120) < 2 ^ 64" by simp
  from exp_cooldown_doubles [OF this, of 2] exp_cooldown_doubles [OF this, of "- 1"] show ?thesis
    by (simp only: as_secs_from_secs) (simp add: unat_max_word from_secs_def nanos_per_sec_def)
qed

subsection \<open>Runs of the process-wide breaker\<close>

datatype agy_op = Ask instant | Succeeded | QuotaFailed instant | OtherFailed instant

fun agy_exec ::
  "environment \<Rightarrow> agy_op \<Rightarrow> BreakerState \<Rightarrow> bool list \<times> BreakerState \<times> breaker_event list"
where
  "agy_exec env (Ask now) b =
     (case agy_breaker_should_skip env now b of (skip, b', evs) \<Rightarrow> ([skip], b', evs))"
| "agy_exec env Succeeded b = ([], agy_breaker_record_success b)"
| "agy_exec env (QuotaFailed now) b = ([], agy_breaker_record_quota env now b)"
| "agy_exec env (OtherFailed now) b = ([], agy_breaker_record_other_failure env now b)"

fun agy_run ::
  "environment \<Rightarrow> agy_op list \<Rightarrow> BreakerState \<Rightarrow> bool list \<times> BreakerState \<times> breaker_event list"
where
  "agy_run env [] b = ([], b, [])"
| "agy_run env (op # ops) b =
     (let (rs, b1, evs) = agy_exec env op b; (rs', b2, evs') = agy_run env ops b1
      in (rs @ rs', b2, evs @ evs'))"

text \<open>The states the process-wide breaker can be in, with any environment at every step.\<close>

inductive agy_reachable :: "BreakerState \<Rightarrow> bool" where
  reach_new: "agy_reachable breaker_new"
| reach_exec: "agy_reachable b \<Longrightarrow> agy_exec env op b = (rs, b', evs) \<Longrightarrow> agy_reachable b'"

definition agy_inv :: "BreakerState \<Rightarrow> bool" where
  "agy_inv b \<longleftrightarrow>
     (case phase b of
        Closed \<Rightarrow> open_until b = None \<and> \<not> half_open_inflight b \<and> half_open_since b = None
          \<and> open_count b = 0
      | Open \<Rightarrow> open_until b \<noteq> None \<and> \<not> half_open_inflight b \<and> half_open_since b = None
          \<and> open_count b \<noteq> 0 \<and> consecutive b = 0
      | HalfOpen \<Rightarrow> half_open_inflight b \<and> half_open_since b \<noteq> None
          \<and> open_count b \<noteq> 0 \<and> consecutive b = 0)"

lemma saturating_succ_neq_0: "saturating_add (n :: 'a::len word) 1 \<noteq> 0"
proof
  assume "saturating_add n 1 = 0"
  then have "unat (saturating_add n 1) = 0" by simp
  moreover have "(2 :: nat) ^ LENGTH('a) \<ge> 2" by (rule self_le_power [of 2 "LENGTH('a)", simplified])
  ultimately show False by (simp add: unat_saturating_add)
qed

lemma agy_inv_trip [inv_rules]: "agy_inv (trip now base b)"
  by (simp add: agy_inv_def trip_def Let_def saturating_succ_neq_0)

lemma agy_inv_quota [inv_rules]: "agy_inv b \<Longrightarrow> agy_inv (record_quota now threshold base b)"
  using agy_inv_trip
  by (cases "phase b") (auto simp: record_quota_def Let_def agy_inv_def [of "b\<lparr>consecutive := x\<rparr>" for x] agy_inv_def [of b])

lemma agy_inv_other [inv_rules]: "agy_inv b \<Longrightarrow> agy_inv (record_other now threshold base b)"
  using agy_inv_trip
  by (cases "phase b") (auto simp: record_other_def Let_def agy_inv_def [of "b\<lparr>consecutive := x\<rparr>" for x] agy_inv_def [of b])

lemma agy_inv_success [inv_rules]: "agy_inv (record_success b)"
  by (simp add: agy_inv_def record_success_def)

lemma agy_inv_skip [inv_rules]: "agy_inv b \<Longrightarrow> agy_inv (snd (should_skip now lease b))"
  by (auto simp: agy_inv_def should_skip_def split: BreakerPhase.splits option.splits)

lemma agy_inv_shed [simp]: "agy_inv (b\<lparr>shed := n\<rparr>) = agy_inv b"
  by (simp add: agy_inv_def split: BreakerPhase.split)

lemma agy_inv_exec: "agy_inv b \<Longrightarrow> agy_exec env op b = (rs, b', evs) \<Longrightarrow> agy_inv b'"
proof (induction env op b rule: agy_exec.induct)
  case (1 env now b)
  obtain skip b1 where s: "should_skip now (half_open_lease env) b = (skip, b1)" by fastforce
  then have "agy_inv b1" using agy_inv_skip [OF "1.prems"(1)] by (metis snd_conv)
  then show ?case using "1.prems"(2) by (auto simp: agy_breaker_should_skip_def s Let_def)
qed (auto simp: agy_breaker_record_success_def agy_breaker_record_quota_def
    agy_breaker_record_other_failure_def record_and_report_def Let_def intro: inv_rules split: if_splits)

lemma agy_reachable_inv: "agy_reachable b \<Longrightarrow> agy_inv b"
  by (induction rule: agy_reachable.induct) (simp add: agy_inv_def breaker_new_def, rule agy_inv_exec)

text \<open>C39: the breaker never wedges. From every state that any sequence of asks, successes and failures
  can reach there is an instant from which on an ask is let through: the cooldown always has an end,
  and a half-open probe that never reports loses its place when its lease runs out.\<close>

theorem agy_never_wedges:
  assumes "agy_reachable b"
  shows "\<exists>t. \<forall>now. t \<le> now \<longrightarrow> \<not> fst (agy_breaker_should_skip env now b)"
proof (cases "phase b")
  case Closed
  then show ?thesis by (simp add: agy_breaker_should_skip_def should_skip_def)
next
  case Open
  then obtain u where u: "open_until b = Some u"
    using agy_reachable_inv [OF assms] by (auto simp: agy_inv_def)
  have "\<not> fst (agy_breaker_should_skip env now b)" if "u \<le> now" for now
    using that by (simp add: agy_breaker_should_skip_def should_skip_def Open u)
  then show ?thesis by blast
next
  case HalfOpen
  then obtain since where since: "half_open_since b = Some since" "half_open_inflight b"
    using agy_reachable_inv [OF assms] by (auto simp: agy_inv_def)
  have "\<not> fst (agy_breaker_should_skip env now b)" if "since + Suc (half_open_lease env) \<le> now" for now
    using that by (simp add: agy_breaker_should_skip_def should_skip_def HalfOpen since duration_since_def)
  then show ?thesis by blast
qed

theorem agy_never_wedges_witness:
  "\<exists>t. \<forall>now. t \<le> now \<longrightarrow> \<not> fst (agy_breaker_should_skip Map.empty now
      (snd (should_skip 9 0 (trip 0 0 breaker_new))))"
proof (rule agy_never_wedges)
  have t: "parse_uint 32 ''1'' = Some 1"
    by (simp add: parse_uint_def is_ascii_digit_def less_eq_char_def)
  have c: "parse_uint 64 ''0'' = Some 0"
    by (simp add: parse_uint_def is_ascii_digit_def less_eq_char_def)
  let ?env = "Map.empty(''TRIUMVIRATE_AGY_BREAKER_THRESHOLD'' \<mapsto> ''1'',
      ''TRIUMVIRATE_AGY_BREAKER_COOLDOWN_SECS'' \<mapsto> ''0'')"
  have env: "breaker_threshold ?env = 1" "breaker_base_cooldown ?env = 0"
    by (simp_all add: breaker_threshold_def breaker_base_cooldown_def t c from_secs_def)
  have "saturating_add 0 (1 :: u32) = 1" by (simp add: saturating_add_def)
  then have "agy_exec ?env (QuotaFailed 0) breaker_new = ([], trip 0 0 breaker_new, [TrippedQuota 0])"
    by (simp add: agy_breaker_record_quota_def record_and_report_def record_quota_def env breaker_new_def
        trip_def Let_def)
  then have r: "agy_reachable (trip 0 0 breaker_new)" by (rule reach_exec [OF reach_new])
  have "exp_cooldown 0 1 = 0"
    by (simp add: exp_cooldown_def as_secs_def saturating_sub_def saturating_mul_def from_secs_def)
  then have "agy_exec Map.empty (Ask 9) (trip 0 0 breaker_new) =
      ([False], snd (should_skip 9 0 (trip 0 0 breaker_new)), [HalfOpenProbe 0])"
    by (simp add: agy_breaker_should_skip_def should_skip_def trip_def breaker_new_def Let_def
        saturating_add_def)
  then show "agy_reachable (snd (should_skip 9 0 (trip 0 0 breaker_new)))" by (rule reach_exec [OF r])
qed

subsection \<open>An open epoch\<close>

fun asks :: "agy_op list \<Rightarrow> nat" where
  "asks [] = 0"
| "asks (Ask _ # ops) = Suc (asks ops)"
| "asks (_ # ops) = asks ops"

fun op_before :: "instant \<Rightarrow> agy_op \<Rightarrow> bool" where
  "op_before u (Ask now) \<longleftrightarrow> now < u"
| "op_before u Succeeded \<longleftrightarrow> False"
| "op_before u _ \<longleftrightarrow> True"

abbreviation shed_succ :: "u64 \<Rightarrow> u64" where
  "shed_succ s \<equiv> saturating_add s 1"

lemma shed_succ_eq_1: "shed_succ s = 1 \<longleftrightarrow> s = 0"
proof -
  have "shed_succ s = 1 \<longleftrightarrow> unat (shed_succ s) = 1" by (simp add: word_unat_eq_iff)
  also have "\<dots> \<longleftrightarrow> unat s = 0" by (simp add: unat_saturating_add min_def)
  finally show ?thesis by (simp add: unat_eq_0)
qed

lemma shed_succ_funpow:
  "shed_succ (((\<lambda>s. shed_succ s) ^^ n) x) = ((\<lambda>s. shed_succ s) ^^ n) (shed_succ x)"
  by (induction n) simp_all

lemma open_ignores_failures:
  assumes "phase b = Open"
  shows "agy_exec env (QuotaFailed now) b = ([], b, [])"
    and "agy_exec env (OtherFailed now) b = ([], b, [])"
  using assms by (simp_all add: agy_breaker_record_quota_def agy_breaker_record_other_failure_def
      record_and_report_def record_quota_def record_other_def Let_def)

lemma open_refuses:
  assumes "phase b = Open" and "open_until b = Some u" and "now < u"
  shows "agy_exec env (Ask now) b =
      ([True], b\<lparr>shed := shed_succ (shed b)\<rparr>, if shed b = 0 then [OpenedShedding] else [])"
  using assms by (simp add: agy_breaker_should_skip_def should_skip_def Let_def shed_succ_eq_1)

text \<open>C38: an open epoch. Until the cooldown ends, and whatever failures stragglers and health probes
  report meanwhile, every ask is refused, the end of the cooldown and the opening count stay where
  they are (failures cannot ratchet an open breaker), every refusal is counted, and exactly one
  \<open>opened_shedding\<close> event is sent for the whole epoch.\<close>

theorem agy_open_epoch:
  assumes "phase b = Open" and "open_until b = Some u" and "\<forall>op \<in> set ops. op_before u op"
  shows "agy_run env ops b =
      (replicate (asks ops) True, b\<lparr>shed := (shed_succ ^^ asks ops) (shed b)\<rparr>,
       if shed b = 0 \<and> asks ops > 0 then [OpenedShedding] else [])"
  using assms
proof (induction ops arbitrary: b)
  case (Cons op ops)
  show ?case
  proof (cases op)
    case (Ask now)
    have "shed_succ (shed b) \<noteq> 0" by (rule saturating_succ_neq_0)
    moreover have "agy_exec env op b =
        ([True], b\<lparr>shed := shed_succ (shed b)\<rparr>, if shed b = 0 then [OpenedShedding] else [])"
      using Cons.prems unfolding Ask by (intro open_refuses) auto
    ultimately show ?thesis
      using Cons.IH [of "b\<lparr>shed := shed_succ (shed b)\<rparr>"] Cons.prems
      by (simp add: Ask shed_succ_funpow del: agy_exec.simps)
  next
    case Succeeded
    with Cons.prems show ?thesis by simp
  next
    case (QuotaFailed now)
    then show ?thesis
      using Cons.IH [of b] Cons.prems open_ignores_failures(1) by (simp del: agy_exec.simps)
  next
    case (OtherFailed now)
    then show ?thesis
      using Cons.IH [of b] Cons.prems open_ignores_failures(2) by (simp del: agy_exec.simps)
  qed
qed simp

theorem agy_open_epoch_witness:
  "agy_run Map.empty [Ask 3, QuotaFailed 4, Ask 5] (breaker_new\<lparr>phase := Open, open_until := Some 100\<rparr>) =
     ([True, True], breaker_new\<lparr>phase := Open, open_until := Some 100, shed := 2\<rparr>, [OpenedShedding])"
proof -
  have "shed_succ (shed_succ 0) = 2" by (simp add: saturating_add_def)
  then show ?thesis
    using agy_open_epoch [of "breaker_new\<lparr>phase := Open, open_until := Some 100\<rparr>" 100
        "[Ask 3, QuotaFailed 4, Ask 5]" Map.empty]
    by (simp add: breaker_new_def numeral_2_eq_2)
qed

subsection \<open>Opening and probing\<close>

text \<open>Once a trip's cooldown is over exactly one ask probes: the cooldown is at most five hours,
  every earlier ask is refused, the first ask after it goes through, and every other ask before the
  probe's lease has run out is refused, so a recovering back end is never stampeded.\<close>

theorem agy_single_probe:
  assumes "open_until (trip t0 base b) = Some u" and "\<forall>t \<in> set early. t < u"
    and "u \<le> now" and "\<forall>t \<in> set late. t \<le> now + lease"
  shows "u \<le> t0 + BREAKER_MAX_COOLDOWN
    \<and> fst (calls_at (agy_acquire lease) early (trip t0 base b)) = replicate (length early) False
    \<and> fst (calls_at (agy_acquire lease) (now # late) (trip t0 base b)) =
        True # replicate (length late) False"
proof -
  have c: "agy_cooling (trip t0 base b) = Some u"
    using assms(1) by (simp add: agy_cooling_def trip_def Let_def)
  have "u \<le> t0 + BREAKER_MAX_COOLDOWN"
    using assms(1) exp_cooldown_le by (auto simp: trip_def Let_def)
  moreover have "\<forall>t \<in> set late. t < now + Suc lease" using assms(4) by auto
  ultimately show ?thesis
    using agy.cooling_refuses_all [OF c assms(2)] agy.single_probe [OF c assms(3)] by simp
qed

theorem agy_single_probe_witness:
  "fst (calls_at (agy_acquire 10) [from_secs 120 + 5, from_secs 120 + 6, from_secs 120 + 15]
     (trip 5 (from_secs 120) breaker_new)) = [True, False, False]"
proof -
  have "exp_cooldown (from_secs 120) 1 = from_secs 120"
    unfolding exp_cooldown_def
    by (simp add: Let_def saturating_sub_def saturating_mul_def BREAKER_MAX_COOLDOWN_def min_def
        from_secs_def nanos_per_sec_def as_secs_def)
  moreover have "saturating_add 0 (1 :: u32) = 1" by (simp add: saturating_add_def)
  ultimately have "open_until (trip 5 (from_secs 120) breaker_new) = Some (from_secs 120 + 5)"
    by (simp add: trip_def breaker_new_def Let_def)
  from agy_single_probe [OF this, of "[]" "from_secs 120 + 5" "[from_secs 120 + 6, from_secs 120 + 15]" 10]
  show ?thesis by (simp add: numeral_2_eq_2)
qed

lemma record_quota_below:
  assumes "phase b = Closed" and "unat (consecutive b) + length ts < unat threshold"
  shows "phase (fold (\<lambda>t. record_quota t threshold base) ts b) = Closed
    \<and> unat (consecutive (fold (\<lambda>t. record_quota t threshold base) ts b))
        = unat (consecutive b) + length ts
    \<and> open_count (fold (\<lambda>t. record_quota t threshold base) ts b) = open_count b"
  using assms
proof (induction ts arbitrary: b)
  case (Cons t ts)
  have "unat threshold \<le> 2 ^ 32 - 1" using unsigned_less [of threshold, where 'a = nat] by simp
  then have c: "unat (saturating_add (consecutive b) 1) = unat (consecutive b) + 1"
    using Cons.prems by (simp add: unat_saturating_add)
  then have "record_quota t threshold base b = b\<lparr>consecutive := saturating_add (consecutive b) 1\<rparr>"
    using Cons.prems by (simp add: record_quota_def Let_def word_le_nat_alt)
  then show ?case
    using Cons.IH [of "b\<lparr>consecutive := saturating_add (consecutive b) 1\<rparr>"] Cons.prems c by simp
qed simp

lemma record_quota_open: "phase b = Open \<Longrightarrow> fold (\<lambda>t. record_quota t threshold base) ts b = b"
  by (induction ts) (simp_all add: record_quota_def)

text \<open>The breaker opens at the threshold, not before and not late: after a success, or at the
  start, a run of quota failures leaves it closed while it is shorter than the threshold and open
  from then on, and it is the failure that reaches the threshold that fixes the end of the
  cooldown.\<close>

theorem quota_trips_at_threshold:
  assumes "0 < threshold" and "b = record_success b0 \<or> b = breaker_new"
  shows "phase (fold (\<lambda>t. record_quota t threshold base) ts b) =
      (if length ts < unat threshold then Closed else Open)
    \<and> (unat threshold \<le> length ts \<longrightarrow>
        open_until (fold (\<lambda>t. record_quota t threshold base) ts b) =
          Some (ts ! (unat threshold - 1) + exp_cooldown base 1))"
proof -
  have b: "phase b = Closed" "consecutive b = 0" "open_count b = 0"
    using assms(2) by (auto simp: record_success_def breaker_new_def)
  show ?thesis
  proof (cases "length ts < unat threshold")
    case True
    then show ?thesis using record_quota_below [of b ts threshold base] b by simp
  next
    case False
    define n where "n = unat threshold - 1"
    have n: "unat threshold = Suc n" using assms(1) by (simp add: n_def word_less_nat_alt)
    have ts: "ts = take n ts @ ts ! n # drop (Suc n) ts"
      using False n by (intro id_take_nth_drop) simp
    define b' where "b' = fold (\<lambda>t. record_quota t threshold base) (take n ts) b"
    have b': "phase b' = Closed \<and> unat (consecutive b') = n \<and> open_count b' = 0"
      using record_quota_below [of b "take n ts" threshold base] b False n by (simp add: b'_def)
    have "n + 1 \<le> 2 ^ 32 - 1"
      using unsigned_less [of threshold, where 'a = nat] n by simp
    then have "unat (saturating_add (consecutive b') 1) = Suc n"
      using b' by (simp add: unat_saturating_add)
    moreover have "saturating_add 0 (1 :: u32) = 1" by (simp add: saturating_add_def)
    ultimately have tripped: "phase (record_quota (ts ! n) threshold base b') = Open"
        "open_until (record_quota (ts ! n) threshold base b') = Some (ts ! n + exp_cooldown base 1)"
      using b' n by (simp_all add: record_quota_def trip_def Let_def word_le_nat_alt)
    have "fold (\<lambda>t. record_quota t threshold base) ts b = record_quota (ts ! n) threshold base b'"
      by (subst ts) (simp add: b'_def [symmetric] record_quota_open [OF tripped(1)])
    with tripped False show ?thesis by (simp add: n_def)
  qed
qed

theorem quota_trips_at_threshold_witness:
  "phase (fold (\<lambda>t. record_quota t 2 (from_secs 120)) [10] breaker_new) = Closed
   \<and> open_until (fold (\<lambda>t. record_quota t 2 (from_secs 120)) [10, 20, 30] breaker_new) =
       Some (20 + exp_cooldown (from_secs 120) 1)"
  using quota_trips_at_threshold [of 2 breaker_new breaker_new "from_secs 120" "[10]"]
    quota_trips_at_threshold [of 2 breaker_new breaker_new "from_secs 120" "[10, 20, 30]"]
  by simp

text \<open>The rate limit holds over any stretch of time: between its creation and any later instant
  the process-wide bucket grants at most its burst (the concurrency cap) plus the configured rate
  times the time gone by, however the calls are spread.\<close>

theorem agy_rate_bounded:
  assumes "sorted (t0 # ts)"
  shows "of_nat (count_list (fst (calls_at take_granted ts (rate_bucket parse_f64 env t0))) True)
      \<le> max (of_nat (agy_max_concurrent env)) 1
        + agy_max_rpm parse_f64 env / 60 * as_secs_rat (last (t0 # ts) - t0)"
proof -
  let ?b = "rate_bucket parse_f64 env t0"
  have "0 \<le> agy_max_rpm parse_f64 env" by (auto simp: agy_max_rpm_def split: option.split)
  then have "bucket_ok ?b" by (simp add: rate_bucket_def bucket_ok_def Let_def)
  from agy_rate.grants_bounded [OF this] assms show ?thesis
    by (simp add: rate_bucket_def Let_def)
qed

theorem agy_rate_bounded_witness:
  "of_nat (count_list (fst (calls_at take_granted [0, 0, 0, 0, 0]
     (rate_bucket (\<lambda>_. None) Map.empty 0))) True) \<le> (3 :: rat)"
  using agy_rate_bounded [of 0 "[0, 0, 0, 0, 0]" "\<lambda>_. None" Map.empty]
  by (simp add: as_secs_rat_def agy_max_concurrent_def)

end
