(* ===== verification/Seat_Gate.thy ===== *)
theory Seat_Gate
  imports Seats
begin

text \<open>
  Seat availability (\<open>mcp-bridge/src/seat_state.rs\<close>) and the surface gate
  (\<open>mcp-bridge/src/seat_gate.rs\<close>). The state is the part of the file system under
  \<open>$TRIUMVIRATE_HOME\<close> that these functions touch, together with the outcome of each system call,
  so that every error branch of the code is a branch of the model. JSON coding is the business of
  \<open>serde_json\<close> and enters as the record \<open>json_codec\<close>.

  The first half shows that a written suspension survives everything but \<open>seat clear\<close> and that a
  record is replaced whole or not at all; the second half characterises the gate's decision and its
  precedence, and that unreadable state never opens it.
\<close>

subsection \<open>Files\<close>

datatype io_op = ReadOp string | CreateDirOp string | CreateNewOp string | WriteOp string
  | RenameOp string string | RemoveOp string

record file_system =
  files :: "string \<Rightarrow> string option"
  io_error :: "io_op \<Rightarrow> string option"
  partial_len :: nat

text \<open>The errors of \<open>seat_state.rs\<close> are strings in the code; the refused name is kept as a value.\<close>

datatype seat_error = InvalidSeatName string | SeatIo string

datatype read_result = ReadNotFound | ReadError string | ReadOk string

definition read_file :: "file_system \<Rightarrow> string \<Rightarrow> read_result" where
  "read_file fs p =
     (case io_error fs (ReadOp p) of
        Some e \<Rightarrow> ReadError e
      | None \<Rightarrow> (case files fs p of None \<Rightarrow> ReadNotFound | Some b \<Rightarrow> ReadOk b))"

text \<open>\<open>Path::join\<close>: an absolute right operand replaces the left one.\<close>

definition path_join :: "string \<Rightarrow> string \<Rightarrow> string" where
  "path_join a b =
     (if starts_with b ''/'' then b
      else if a = [] \<or> last a = CHR ''/'' then a @ b
      else a @ ''/'' @ b)"

definition remove_file :: "file_system \<Rightarrow> string \<Rightarrow> file_system" where
  "remove_file fs p = fs\<lparr>files := (files fs)(p := None)\<rparr>"

subsection \<open>seat_state.rs\<close>

record VerifiedRecord =
  cli_version :: string
  seat_home :: string
  probed_at :: string
  served_model :: "string option"

record SuspendedRecord =
  susp_reason :: string
  susp_at :: string

record SeatAvailability =
  configured :: bool
  verified :: bool
  suspended :: "string option"

datatype Blocker = NotConfigured | SuspendedBy string | Unverified

definition available :: "SeatAvailability \<Rightarrow> bool" where
  "available a \<longleftrightarrow> configured a \<and> verified a \<and> suspended a = None"

definition first_blocker :: "SeatAvailability \<Rightarrow> Blocker option" where
  "first_blocker a =
     (if \<not> configured a then Some NotConfigured
      else case suspended a of
          Some reason \<Rightarrow> Some (SuspendedBy reason)
        | None \<Rightarrow> if \<not> verified a then Some Unverified else None)"

definition resolve_home :: "string option \<Rightarrow> string option \<Rightarrow> seat_error + string" where
  "resolve_home triumvirate_home home =
     (case triumvirate_home of
        Some dir \<Rightarrow> Inr dir
      | None \<Rightarrow> (case home of
            Some h \<Rightarrow> Inr (path_join h ''.triumvirate'')
          | None \<Rightarrow> Inl (SeatIo ''seat_state: neither TRIUMVIRATE_HOME nor HOME is set'')))"

definition triumvirate_home :: "(string \<Rightarrow> string option) \<Rightarrow> seat_error + string" where
  "triumvirate_home env = resolve_home (env ''TRIUMVIRATE_HOME'') (env ''HOME'')"

definition valid_seat_name :: "string \<Rightarrow> bool" where
  "valid_seat_name seat \<longleftrightarrow>
     seat \<noteq> [] \<and> list_all (\<lambda>b. is_ascii_lowercase b \<or> is_ascii_digit b \<or> b = CHR ''-'') seat"

definition seat_dir :: "string \<Rightarrow> string \<Rightarrow> seat_error + string" where
  "seat_dir home seat =
     (if \<not> valid_seat_name seat
      then Inl (InvalidSeatName seat)
      else Inr (path_join (path_join home ''seats'') seat))"

text \<open>\<open>write_atomic\<close> for the two records. The directory is that of the record, the temporary name
  carries the process id and the sequence number, and every call can fail on its own: a failed
  \<open>write_all\<close> leaves the bytes it had written, and the removal of the temporary file after a failure
  is itself unchecked.\<close>

definition tmp_path :: "string \<Rightarrow> string \<Rightarrow> nat \<Rightarrow> nat \<Rightarrow> string" where
  "tmp_path dir file pid seq =
     path_join dir (''.'' @ file @ ''.tmp-'' @ show_nat pid @ ''-'' @ show_nat seq)"

definition write_atomic ::
  "nat \<Rightarrow> nat \<Rightarrow> file_system \<Rightarrow> string \<Rightarrow> string \<Rightarrow> string \<Rightarrow> file_system \<times> (seat_error + unit)"
where
  "write_atomic pid seq fs dir file bytes =
     (let path = path_join dir file; tmp = tmp_path dir file pid seq in
      case io_error fs (CreateDirOp dir) of
        Some e \<Rightarrow> (fs, Inl (SeatIo (''seat_state: cannot create '' @ dir @ '': '' @ e)))
      | None \<Rightarrow>
        (let cannot_write = (\<lambda>e. SeatIo (''seat_state: cannot write '' @ tmp @ '': '' @ e));
             (fs', written) =
               (case (io_error fs (CreateNewOp tmp), files fs tmp) of
                  (Some e, _) \<Rightarrow> (fs, Inl (cannot_write e))
                | (None, Some _) \<Rightarrow> (fs, Inl (cannot_write ''File exists''))
                | (None, None) \<Rightarrow>
                  (case io_error fs (WriteOp tmp) of
                     Some e \<Rightarrow> (fs\<lparr>files := (files fs)(tmp \<mapsto> take (partial_len fs) bytes)\<rparr>,
                                 Inl (cannot_write e))
                   | None \<Rightarrow>
                     (case io_error fs (RenameOp tmp path) of
                        Some e \<Rightarrow> (fs\<lparr>files := (files fs)(tmp \<mapsto> bytes)\<rparr>,
                                    Inl (SeatIo (''seat_state: cannot rename onto '' @ path @ '': '' @ e)))
                      | None \<Rightarrow> (fs\<lparr>files := (files fs)(path \<mapsto> bytes, tmp := None)\<rparr>, Inr ()))))
         in case written of
              Inr _ \<Rightarrow> (fs', written)
            | Inl _ \<Rightarrow> (if io_error fs (RemoveOp tmp) = None then remove_file fs' tmp else fs', written)))"

definition remove_if_present :: "file_system \<Rightarrow> string \<Rightarrow> file_system \<times> (seat_error + unit)" where
  "remove_if_present fs p =
     (case io_error fs (RemoveOp p) of
        Some e \<Rightarrow> (fs, Inl (SeatIo (''seat_state: cannot remove '' @ p @ '': '' @ e)))
      | None \<Rightarrow> (remove_file fs p, Inr ()))"

definition is_configured :: "(string \<Rightarrow> string option) \<Rightarrow> string \<Rightarrow> seat_error + bool" where
  "is_configured env seat =
     (case seat_dir ''/'' seat of
        Inl e \<Rightarrow> Inl e
      | Inr _ \<Rightarrow>
        (let var = ''TRIUMVIRATE_ENABLE_''
               @ map (\<lambda>c. if c = CHR ''-'' then CHR ''_'' else c) (to_ascii_uppercase seat)
         in Inr (env var = Some ''1'')))"

record json_codec =
  dec_verified :: "string \<Rightarrow> string + VerifiedRecord"
  dec_suspended :: "string \<Rightarrow> string + SuspendedRecord"
  enc_verified :: "VerifiedRecord \<Rightarrow> string + string"
  enc_suspended :: "SuspendedRecord \<Rightarrow> string + string"

definition availability ::
  "json_codec \<Rightarrow> file_system \<Rightarrow> string \<Rightarrow> string \<Rightarrow> bool \<Rightarrow> string option \<Rightarrow> seat_error + SeatAvailability"
where
  "availability js fs home seat cfg installed =
     (case seat_dir home seat of
        Inl e \<Rightarrow> Inl e
      | Inr dir \<Rightarrow>
        (let verified' =
               (case read_file fs (path_join dir ''verified.json'') of
                  ReadOk bytes \<Rightarrow> (case dec_verified js bytes of
                      Inr rec \<Rightarrow> installed = Some (cli_version rec)
                    | Inl _ \<Rightarrow> False)
                | _ \<Rightarrow> False);
             suspended' =
               (case read_file fs (path_join dir ''suspended.json'') of
                  ReadNotFound \<Rightarrow> None
                | ReadError e \<Rightarrow> Some (''suspended.json unreadable: '' @ e)
                | ReadOk bytes \<Rightarrow> Some (case dec_suspended js bytes of
                      Inr r \<Rightarrow> susp_reason r
                    | Inl e \<Rightarrow> ''suspended.json unparseable: '' @ e))
         in Inr \<lparr>configured = cfg, verified = verified', suspended = suspended'\<rparr>))"

definition write_verified ::
  "json_codec \<Rightarrow> nat \<Rightarrow> nat \<Rightarrow> file_system \<Rightarrow> string \<Rightarrow> string \<Rightarrow> VerifiedRecord
     \<Rightarrow> file_system \<times> (seat_error + unit)"
where
  "write_verified js pid seq fs home seat r =
     (case seat_dir home seat of
        Inl e \<Rightarrow> (fs, Inl e)
      | Inr dir \<Rightarrow> (case enc_verified js r of
            Inl e \<Rightarrow> (fs, Inl (SeatIo (''seat_state: '' @ e)))
          | Inr json \<Rightarrow> write_atomic pid seq fs dir ''verified.json'' json))"

definition delete_verified :: "file_system \<Rightarrow> string \<Rightarrow> string \<Rightarrow> file_system \<times> (seat_error + unit)" where
  "delete_verified fs home seat =
     (case seat_dir home seat of
        Inl e \<Rightarrow> (fs, Inl e)
      | Inr dir \<Rightarrow> remove_if_present fs (path_join dir ''verified.json''))"

definition write_suspended ::
  "json_codec \<Rightarrow> nat \<Rightarrow> nat \<Rightarrow> file_system \<Rightarrow> string \<Rightarrow> string \<Rightarrow> string \<Rightarrow> string
     \<Rightarrow> file_system \<times> (seat_error + unit)"
where
  "write_suspended js pid seq fs home seat reason now =
     (case seat_dir home seat of
        Inl e \<Rightarrow> (fs, Inl e)
      | Inr dir \<Rightarrow> (case enc_suspended js \<lparr>susp_reason = reason, susp_at = now\<rparr> of
            Inl e \<Rightarrow> (fs, Inl (SeatIo (''seat_state: '' @ e)))
          | Inr json \<Rightarrow> write_atomic pid seq fs dir ''suspended.json'' json))"

definition clear_seat :: "file_system \<Rightarrow> string \<Rightarrow> string \<Rightarrow> file_system \<times> (seat_error + unit)" where
  "clear_seat fs home seat =
     (case seat_dir home seat of
        Inl e \<Rightarrow> (fs, Inl e)
      | Inr dir \<Rightarrow> remove_if_present fs (path_join dir ''suspended.json''))"

subsection \<open>seat_gate.rs\<close>

datatype RefusalCode = SeatNotConfigured | SeatSuspended | SeatUnverified | SeatSurfaceRefused
  | SeatSurfaceDeferred | SeatCannotWriteHere

fun RefusalCode_as_str :: "RefusalCode \<Rightarrow> string" where
  "RefusalCode_as_str SeatNotConfigured = ''seat_not_configured''"
| "RefusalCode_as_str SeatSuspended = ''seat_suspended''"
| "RefusalCode_as_str SeatUnverified = ''seat_unverified''"
| "RefusalCode_as_str SeatSurfaceRefused = ''seat_surface_refused''"
| "RefusalCode_as_str SeatSurfaceDeferred = ''seat_surface_deferred''"
| "RefusalCode_as_str SeatCannotWriteHere = ''seat_cannot_write_here''"

record Refusal =
  code :: RefusalCode
  message :: string

definition refuse :: "RefusalCode \<Rightarrow> string \<Rightarrow> Refusal + unit" where
  "refuse c m = Inl \<lparr>code = c, message = m\<rparr>"

fun show_surface :: "Surface \<Rightarrow> string" where
  "show_surface AskAgent = ''AskAgent''"
| "show_surface Session = ''Session''"
| "show_surface Jury = ''Jury''"
| "show_surface BlindValidate = ''BlindValidate''"
| "show_surface DoctorLiveProbe = ''DoctorLiveProbe''"
| "show_surface PeerReviewRotation = ''PeerReviewRotation''"
| "show_surface FleetSpawn = ''FleetSpawn''"
| "show_surface FleetTemporal = ''FleetTemporal''"
| "show_surface AbeDispatch = ''AbeDispatch''"
| "show_surface Prewarm = ''Prewarm''"

definition effective_state :: "SeatProfile \<Rightarrow> SeatAvailability \<Rightarrow> SeatAvailability" where
  "effective_state profile st =
     \<lparr>configured = configured st,
      verified = (verify_policy profile = NotRequired \<or> verified st),
      suspended = (case suspension_policy profile of
          Classified \<Rightarrow> suspended st
        | NotClassified \<Rightarrow> None)\<rparr>"

definition surface_rule :: "SeatProfile \<Rightarrow> Surface \<Rightarrow> Refusal + unit" where
  "surface_rule profile surface =
     (let seat = key profile in
      if surface \<in> set (surfaces_allowed profile) then Inr ()
      else if surface = BlindValidate \<and> \<not> can_write_test_file profile then
        refuse SeatCannotWriteHere
          (''seat_cannot_write_here: '' @ seat @ '': blind validators must write test files and ''
             @ seat @ '' is read-only'')
      else refuse SeatSurfaceDeferred
          (''seat_surface_deferred: '' @ seat @ '' on '' @ show_surface surface @ '' ships in v1.1''))"

definition decide :: "SeatProfile \<Rightarrow> Surface \<Rightarrow> SeatAvailability \<Rightarrow> Refusal + unit" where
  "decide profile surface st =
     (let seat = key profile in
      case first_blocker (effective_state profile st) of
        Some NotConfigured \<Rightarrow>
          refuse SeatNotConfigured (''seat_not_configured: '' @ seat @ '': set TRIUMVIRATE_ENABLE_''
            @ to_ascii_uppercase seat @ ''=1 and restart the daemon'')
      | Some (SuspendedBy reason) \<Rightarrow>
          refuse SeatSuspended (''seat_suspended: '' @ seat @ '': '' @ reason
            @ '' (run: triumvirate seat clear '' @ seat @ '')'')
      | Some Unverified \<Rightarrow>
          if surface \<noteq> DoctorLiveProbe then
            refuse SeatUnverified (''seat_unverified: '' @ seat
              @ '': run triumvirate doctor --live in a terminal'')
          else surface_rule profile surface
      | None \<Rightarrow> surface_rule profile surface)"

datatype Origin = Interactive | Unattended

definition seat_gate_with ::
  "string \<Rightarrow> Surface \<Rightarrow> Origin \<Rightarrow> bool \<Rightarrow> SeatAvailability \<Rightarrow> Refusal + unit"
where
  "seat_gate_with seat surface origin tty st =
     (case seat_profile seat of
        Some profile \<Rightarrow> decide profile surface st
      | None \<Rightarrow> refuse SeatNotConfigured (''seat_not_configured: '' @ seat @ '': no such seat''))"

text \<open>What the gate reads at a call: the environment, the registered CLI versions, the file system.\<close>

record gate_env =
  env_var :: "string \<Rightarrow> string option"
  installed_versions :: "string \<Rightarrow> string option"
  fs_now :: file_system
  codec :: json_codec

definition register_installed_cli_version :: "string \<Rightarrow> string \<Rightarrow> gate_env \<Rightarrow> gate_env" where
  "register_installed_cli_version seat version g =
     g\<lparr>installed_versions := (installed_versions g)(seat \<mapsto> version)\<rparr>"

definition installed_cli_version :: "gate_env \<Rightarrow> string \<Rightarrow> string option" where
  "installed_cli_version g seat = installed_versions g seat"

definition profile_configured :: "gate_env \<Rightarrow> SeatProfile \<Rightarrow> bool" where
  "profile_configured g profile =
     (case configured_by profile of
        Always \<Rightarrow> True
      | EnvFlag var \<Rightarrow> env_var g var = Some ''1'')"

definition seat_gate_decide_in ::
  "gate_env \<Rightarrow> seat_error + string \<Rightarrow> string \<Rightarrow> Surface \<Rightarrow> Origin \<Rightarrow> bool \<Rightarrow> Refusal + unit"
where
  "seat_gate_decide_in g home seat surface origin tty =
     (case seat_profile seat of
        None \<Rightarrow> seat_gate_with seat surface origin tty
                  \<lparr>configured = False, verified = False, suspended = None\<rparr>
      | Some profile \<Rightarrow>
        (let cfg = profile_configured g profile;
             version = installed_versions g seat;
             closed = \<lparr>configured = cfg, verified = False, suspended = None\<rparr>;
             st = (case home of
                 Inl _ \<Rightarrow> closed
               | Inr h \<Rightarrow> (case availability (codec g) (fs_now g) h seat cfg version of
                     Inl _ \<Rightarrow> closed
                   | Inr a \<Rightarrow> a))
         in seat_gate_with seat surface origin tty st))"

datatype telemetry_event = SeatGateRefused string RefusalCode Surface Origin

definition seat_gate_in ::
  "gate_env \<Rightarrow> seat_error + string \<Rightarrow> string \<Rightarrow> Surface \<Rightarrow> Origin \<Rightarrow> bool
     \<Rightarrow> (Refusal + unit) \<times> telemetry_event list"
where
  "seat_gate_in g home seat surface origin tty =
     (let decision = seat_gate_decide_in g home seat surface origin tty in
      (decision, case decision of
          Inl refusal \<Rightarrow> [SeatGateRefused seat (code refusal) surface origin]
        | Inr _ \<Rightarrow> []))"

definition seat_gate ::
  "gate_env \<Rightarrow> string \<Rightarrow> Surface \<Rightarrow> Origin \<Rightarrow> bool \<Rightarrow> (Refusal + unit) \<times> telemetry_event list"
where
  "seat_gate g seat surface origin tty =
     seat_gate_in g (triumvirate_home (env_var g)) seat surface origin tty"

subsection \<open>Paths of the records\<close>

lemma last_show_nat_digit: "is_ascii_digit (last (show_nat n))"
proof -
  have "is_ascii_digit (digit_char d)" if "d < 10" for d
    using that by (auto simp: is_ascii_digit_def digit_char_def less_eq_char_def of_char_of)
  then show ?thesis by (subst show_nat.simps) auto
qed

lemma valid_seat_name_no_slash: "valid_seat_name seat \<Longrightarrow> CHR ''/'' \<notin> set seat"
  by (auto simp: valid_seat_name_def list_all_iff is_ascii_lowercase_def is_ascii_digit_def
      less_eq_char_def)

lemma path_join_rel:
  "\<not> starts_with b ''/'' \<Longrightarrow> path_join a b = (if a = [] \<or> last a = CHR ''/'' then a else a @ ''/'') @ b"
  by (simp add: path_join_def)

lemma starts_with_slash: "starts_with s ''/'' \<longleftrightarrow> s \<noteq> [] \<and> hd s = CHR ''/''"
  by (cases s) (auto simp: starts_with_def)

text \<open>A record path is the directory of all seats, the seat name, and the file name.\<close>

definition record_path :: "string \<Rightarrow> string \<Rightarrow> string \<Rightarrow> string" where
  "record_path home seat file = path_join (path_join (path_join home ''seats'') seat) file"

definition seats_prefix :: "string \<Rightarrow> string" where
  "seats_prefix home = path_join home ''seats'' @ ''/''"

lemma valid_seat_name_ends:
  assumes "valid_seat_name seat"
  shows "seat \<noteq> []" and "hd seat \<noteq> CHR ''/''" and "last seat \<noteq> CHR ''/''"
proof -
  show "seat \<noteq> []" using assms by (simp add: valid_seat_name_def)
  then have "hd seat \<in> set seat" and "last seat \<in> set seat" by simp_all
  then show "hd seat \<noteq> CHR ''/''" and "last seat \<noteq> CHR ''/''"
    using valid_seat_name_no_slash [OF assms] by metis+
qed

lemma record_path_eq:
  assumes "valid_seat_name seat" and "\<not> starts_with file ''/''"
  shows "record_path home seat file = seats_prefix home @ seat @ ''/'' @ file"
proof -
  have "\<not> starts_with seat ''/''"
    using valid_seat_name_ends [OF assms(1)] by (simp add: starts_with_slash)
  moreover have "path_join home ''seats'' \<noteq> []" and "last (path_join home ''seats'') \<noteq> CHR ''/''"
    by (auto simp: path_join_def starts_with_def)
  ultimately show ?thesis
    using valid_seat_name_ends [OF assms(1)] assms(2)
    by (simp add: record_path_def seats_prefix_def path_join_rel)
qed

lemma seat_dir_Inr:
  "seat_dir home seat = Inr dir \<longleftrightarrow>
     valid_seat_name seat \<and> dir = path_join (path_join home ''seats'') seat"
  by (auto simp: seat_dir_def)

abbreviation suspended_path :: "string \<Rightarrow> string \<Rightarrow> string" where
  "suspended_path home seat \<equiv> record_path home seat ''suspended.json''"

abbreviation verified_path :: "string \<Rightarrow> string \<Rightarrow> string" where
  "verified_path home seat \<equiv> record_path home seat ''verified.json''"

lemma append_sep_inj:
  "s \<notin> set a \<Longrightarrow> s \<notin> set b \<Longrightarrow> a @ s # x = b @ s # y \<Longrightarrow> a = b \<and> x = y"
proof (induction a arbitrary: b)
  case Nil
  then show ?case by (cases b) auto
next
  case (Cons c a)
  then show ?case by (cases b) auto
qed

lemma record_path_inj:
  assumes "valid_seat_name a" and "valid_seat_name b"
    and "\<not> starts_with f ''/''" and "\<not> starts_with g ''/''"
    and "record_path home a f = record_path home b g"
  shows "a = b \<and> f = g"
proof -
  have "a @ CHR ''/'' # f = b @ CHR ''/'' # g"
    using assms(5) unfolding record_path_eq [OF assms(1,3)] record_path_eq [OF assms(2,4)] by simp
  then show ?thesis
    using append_sep_inj valid_seat_name_no_slash assms(1,2) by metis
qed

lemma record_names_relative:
  "\<not> starts_with ''suspended.json'' ''/''" "\<not> starts_with ''verified.json'' ''/''"
  by (simp_all add: starts_with_def)

lemma suspended_path_distinct:
  assumes "valid_seat_name a" and "valid_seat_name b"
  shows "suspended_path home a = suspended_path home b \<longleftrightarrow> a = b"
    and "verified_path home a \<noteq> suspended_path home b"
proof -
  show "suspended_path home a = suspended_path home b \<longleftrightarrow> a = b"
    using record_path_inj [OF assms record_names_relative(1,1)] by blast
  have "''verified.json'' \<noteq> ''suspended.json''" by simp
  then show "verified_path home a \<noteq> suspended_path home b"
    using record_path_inj [OF assms record_names_relative(2,1)] by blast
qed

lemma tmp_path_not_suspended:
  assumes a: "valid_seat_name a" and b: "valid_seat_name b"
  shows "tmp_path (path_join (path_join home ''seats'') a) file pid seq \<noteq> suspended_path home b"
proof -
  define t where "t = ''.'' @ file @ ''.tmp-'' @ show_nat pid @ ''-'' @ show_nat seq"
  have tmp: "tmp_path (path_join (path_join home ''seats'') a) file pid seq = record_path home a t"
    by (simp add: tmp_path_def record_path_def t_def)
  have "\<not> starts_with t ''/''" and "t \<noteq> ''suspended.json''" by (simp_all add: t_def starts_with_def)
  then show ?thesis
    using record_path_inj [OF a b _ record_names_relative(1)] unfolding tmp by blast
qed

subsection \<open>A record is replaced whole or not at all\<close>

lemma write_atomic_cases:
  assumes "write_atomic pid seq fs dir file bytes = (fs', res)"
  obtains (written) "res = Inr ()" "fs' = fs\<lparr>files := (files fs)
             (path_join dir file \<mapsto> bytes, tmp_path dir file pid seq := None)\<rparr>"
  | (failed) e c where "res = Inl e"
      "files fs' = (files fs)(tmp_path dir file pid seq := c)" "io_error fs' = io_error fs"
proof (cases res)
  case (Inr u)
  with assms show ?thesis
    by (intro written)
      (auto simp: write_atomic_def Let_def remove_file_def split: option.splits sum.splits if_splits)
next
  case (Inl e)
  let ?t = "tmp_path dir file pid seq"
  have "\<exists>c. files fs' = (files fs)(?t := c)"
    using assms Inl
    by (auto simp: write_atomic_def Let_def remove_file_def fun_upd_idem_iff
        split: option.splits sum.splits if_splits) (metis fun_upd_triv)+
  moreover have "io_error fs' = io_error fs"
    using assms Inl
    by (auto simp: write_atomic_def Let_def remove_file_def split: option.splits sum.splits if_splits)
  ultimately show ?thesis using Inl failed by blast
qed

lemma write_atomic_other:
  assumes "write_atomic pid seq fs dir file bytes = (fs', res)"
    and "q \<noteq> tmp_path dir file pid seq" and "q \<noteq> path_join dir file"
  shows "files fs' q = files fs q"
  using assms(1) by (cases rule: write_atomic_cases) (use assms(2,3) in auto)

lemma write_atomic_all:
  assumes "write_atomic pid seq fs dir file bytes = (fs', res)"
    and "path_join dir file \<noteq> tmp_path dir file pid seq"
  shows "files fs' (path_join dir file) =
      (if isl res then files fs (path_join dir file) else Some bytes)"
  using assms(1) by (cases rule: write_atomic_cases) (use assms(2) in auto)

lemma remove_if_present_other:
  "q \<noteq> p \<Longrightarrow> files (fst (remove_if_present fs p)) q = files fs q"
  by (auto simp: remove_if_present_def remove_file_def split: option.splits)

text \<open>\<open>write_atomic\<close> is all or nothing: when it reports success the record holds exactly the new
  bytes, when it reports an error the record is what it was before, and no file other than the
  record and its temporary is touched either way.\<close>

theorem write_atomic_all_or_nothing:
  assumes "write_atomic pid seq fs dir file bytes = (fs', res)"
    and "path_join dir file \<noteq> tmp_path dir file pid seq"
  shows "files fs' (path_join dir file) =
      (if isl res then files fs (path_join dir file) else Some bytes)
    \<and> (\<forall>q. q \<notin> {path_join dir file, tmp_path dir file pid seq} \<longrightarrow> files fs' q = files fs q)"
  using write_atomic_all [OF assms] write_atomic_other [OF assms(1)] by blast

theorem write_atomic_all_or_nothing_witness:
  "let fs = \<lparr>files = Map.empty(''d/r'' \<mapsto> ''old''),
             io_error = (\<lambda>op. case op of RenameOp _ _ \<Rightarrow> Some ''EIO'' | _ \<Rightarrow> None), partial_len = 0\<rparr>
   in files (fst (write_atomic 7 1 fs ''d'' ''r'' ''new'')) ''d/r'' = Some ''old''"
proof -
  have ne: "path_join ''d'' ''r'' \<noteq> tmp_path ''d'' ''r'' 7 1"
    by (simp add: path_join_def tmp_path_def starts_with_def)
  show ?thesis
    using write_atomic_all_or_nothing [OF surjective_pairing ne,
        of "\<lparr>files = Map.empty(''d/r'' \<mapsto> ''old''),
             io_error = (\<lambda>op. case op of RenameOp _ _ \<Rightarrow> Some ''EIO'' | _ \<Rightarrow> None), partial_len = 0\<rparr>"
        "''new''"]
    by (simp add: Let_def write_atomic_def path_join_def tmp_path_def starts_with_def remove_file_def
        split: if_splits)
qed

subsection \<open>Sequences of seat operations\<close>

text \<open>The operations the daemon and the command line run against the state directory, in any order,
  each under its own outcome of the system calls.\<close>

datatype seat_op = OpWriteVerified string VerifiedRecord | OpDeleteVerified string
  | OpWriteSuspended string string string | OpClear string

fun apply_op :: "json_codec \<Rightarrow> string \<Rightarrow> nat \<Rightarrow> nat \<Rightarrow> file_system \<Rightarrow> seat_op \<Rightarrow> file_system" where
  "apply_op js home pid seq fs (OpWriteVerified seat r) = fst (write_verified js pid seq fs home seat r)"
| "apply_op js home pid seq fs (OpDeleteVerified seat) = fst (delete_verified fs home seat)"
| "apply_op js home pid seq fs (OpWriteSuspended seat reason now) =
     fst (write_suspended js pid seq fs home seat reason now)"
| "apply_op js home pid seq fs (OpClear seat) = fst (clear_seat fs home seat)"

inductive seat_run ::
  "json_codec \<Rightarrow> string \<Rightarrow> seat_op list \<Rightarrow> file_system \<Rightarrow> file_system \<Rightarrow> bool"
  for js :: json_codec and home :: string
where
  run_nil: "seat_run js home [] fs fs"
| run_cons: "seat_run js home ops
      (apply_op js home pid seq (fs\<lparr>io_error := errs, partial_len := n\<rparr>) op) fs'
    \<Longrightarrow> seat_run js home (op # ops) fs fs'"

lemma write_atomic_keeps_suspended:
  assumes a: "valid_seat_name a" and b: "valid_seat_name b" and f: "f \<in> {''verified.json'', ''suspended.json''}"
    and "files fs (suspended_path home b) \<noteq> None"
  shows "files (fst (write_atomic pid seq fs (path_join (path_join home ''seats'') a) f bytes))
      (suspended_path home b) \<noteq> None"
proof -
  let ?dir = "path_join (path_join home ''seats'') a"
  obtain fs' res where w: "write_atomic pid seq fs ?dir f bytes = (fs', res)" by fastforce
  show ?thesis
  proof (cases "suspended_path home b = path_join ?dir f")
    case True
    moreover have "path_join ?dir f \<noteq> tmp_path ?dir f pid seq"
      using tmp_path_not_suspended [OF a b] True by metis
    ultimately show ?thesis
      using assms(4) w write_atomic_all [OF w] by (metis fst_conv option.distinct(1))
  next
    case False
    then show ?thesis
      using write_atomic_other [OF w] tmp_path_not_suspended [OF a b] assms(4) w by (metis fst_conv)
  qed
qed

lemma apply_op_keeps_suspended:
  assumes b: "valid_seat_name b" and "files fs (suspended_path home b) \<noteq> None" and "op \<noteq> OpClear b"
  shows "files (apply_op js home pid seq fs op) (suspended_path home b) \<noteq> None"
proof (cases op)
  case (OpWriteVerified a r)
  then show ?thesis
    using assms write_atomic_keeps_suspended [OF _ b]
    by (auto simp: write_verified_def seat_dir_def split: sum.splits)
next
  case (OpWriteSuspended a reason now)
  then show ?thesis
    using assms write_atomic_keeps_suspended [OF _ b]
    by (auto simp: write_suspended_def seat_dir_def split: sum.splits)
next
  case (OpDeleteVerified a)
  then show ?thesis
    using assms(2) suspended_path_distinct(2) [OF _ b, of a home]
      remove_if_present_other [of "suspended_path home b" "verified_path home a" fs]
    by (cases "valid_seat_name a") (simp_all add: delete_verified_def seat_dir_def record_path_def)
next
  case (OpClear a)
  then show ?thesis
    using assms(2,3) suspended_path_distinct(1) [OF _ b, of a home]
      remove_if_present_other [of "suspended_path home b" "suspended_path home a" fs]
    by (cases "valid_seat_name a") (auto simp: clear_seat_def seat_dir_def record_path_def)
qed

lemma seat_run_keeps_suspended:
  "seat_run js home ops fs fs' \<Longrightarrow> valid_seat_name b \<Longrightarrow> files fs (suspended_path home b) \<noteq> None
    \<Longrightarrow> OpClear b \<notin> set ops \<Longrightarrow> files fs' (suspended_path home b) \<noteq> None"
proof (induction rule: seat_run.induct)
  case (run_cons ops pid seq n errs fs op fs')
  have "files (apply_op js home pid seq (fs\<lparr>io_error := errs, partial_len := n\<rparr>) op)
      (suspended_path home b) \<noteq> None"
    using run_cons.prems by (intro apply_op_keeps_suspended) auto
  with run_cons show ?case by simp
qed simp

subsection \<open>The gate\<close>

lemma valid_seat_keys: "list_all (\<lambda>p. valid_seat_name (key p)) SEATS"
  by code_simp

lemma seat_profile_valid:
  "seat_profile seat = Some p \<Longrightarrow> valid_seat_name seat \<and> key p = seat"
  using valid_seat_keys find_SomeD by (fastforce simp: seat_profile_def list_all_iff)

lemma seat_gate_decide_known:
  "seat_profile seat = Some p \<Longrightarrow>
    seat_gate_decide_in g (Inr h) seat surface origin tty =
      decide p surface (projr (availability (codec g) (fs_now g) h seat
        (profile_configured g p) (installed_versions g seat)))"
  using seat_profile_valid [of seat p]
  by (simp add: seat_gate_decide_in_def seat_gate_with_def availability_def seat_dir_def Let_def)

lemma surface_rule_ok: "surface_rule p surface = Inr () \<longleftrightarrow> surface \<in> set (surfaces_allowed p)"
  by (simp add: surface_rule_def refuse_def Let_def)

lemma decide_ok_iff:
  "decide p surface st = Inr () \<longleftrightarrow>
     configured st \<and> surface \<in> set (surfaces_allowed p)
     \<and> (suspension_policy p = NotClassified \<or> suspended st = None)
     \<and> (verify_policy p = NotRequired \<or> verified st \<or> surface = DoctorLiveProbe)"
  by (cases "suspension_policy p"; cases "suspended st")
    (auto simp: decide_def first_blocker_def effective_state_def surface_rule_ok refuse_def Let_def)

lemma decide_suspended:
  assumes "configured st" and "suspension_policy p = Classified" and "suspended st = Some reason"
  shows "decide p surface st = refuse SeatSuspended (''seat_suspended: '' @ key p @ '': '' @ reason
            @ '' (run: triumvirate seat clear '' @ key p @ '')'')"
  using assms by (simp add: decide_def first_blocker_def effective_state_def Let_def)

lemma availability_configured:
  "valid_seat_name seat \<Longrightarrow> configured (projr (availability js fs home seat cfg version)) = cfg"
  by (simp add: availability_def seat_dir_def Let_def)

lemma availability_suspended:
  "valid_seat_name seat \<Longrightarrow> read_file fs (suspended_path home seat) \<noteq> ReadNotFound \<Longrightarrow>
    \<exists>reason. suspended (projr (availability js fs home seat cfg version)) = Some reason"
  by (cases "read_file fs (suspended_path home seat)")
    (simp_all add: availability_def seat_dir_def Let_def record_path_def)

text \<open>C30: the gate opens exactly when the seat has a row, is configured, the surface is in the row's
  table, no suspension file can be seen (for the seats whose suspensions are classified), and the
  seat either needs no verification, is being probed, or has a readable verification record for the
  CLI version that is installed now. Any unreadable or unparseable file keeps it shut.\<close>

theorem seat_gate_ok_iff:
  "seat_gate_decide_in g (Inr home) seat surface origin tty = Inr () \<longleftrightarrow>
     (\<exists>p. seat_profile seat = Some p \<and> profile_configured g p \<and> surface \<in> set (surfaces_allowed p)
        \<and> (suspension_policy p = NotClassified
            \<or> read_file (fs_now g) (suspended_path home seat) = ReadNotFound)
        \<and> (verify_policy p = NotRequired \<or> surface = DoctorLiveProbe
            \<or> (\<exists>bytes r. read_file (fs_now g) (verified_path home seat) = ReadOk bytes
                 \<and> dec_verified (codec g) bytes = Inr r
                 \<and> installed_versions g seat = Some (cli_version r))))"
proof (cases "seat_profile seat")
  case None
  then show ?thesis by (simp add: seat_gate_decide_in_def seat_gate_with_def refuse_def)
next
  case (Some p)
  have "valid_seat_name seat" using seat_profile_valid [OF Some] by simp
  then have "seat_dir home seat = Inr (path_join (path_join home ''seats'') seat)"
    by (simp add: seat_dir_def)
  then show ?thesis
    unfolding seat_gate_decide_known [OF Some] decide_ok_iff
    by (auto simp: Some availability_def record_path_def Let_def split: read_result.splits sum.splits)
qed

text \<open>C40: a refusal is reported once, with the code it carries: its message starts with that code,
  one telemetry event names it, the code is never \<open>seat_surface_refused\<close>, and an allowed call reports
  nothing.\<close>

theorem seat_gate_refusal_reported:
  "case seat_gate g seat surface origin tty of
     (Inl r, evs) \<Rightarrow> evs = [SeatGateRefused seat (code r) surface origin]
        \<and> code r \<noteq> SeatSurfaceRefused \<and> starts_with (message r) (RefusalCode_as_str (code r))
   | (Inr _, evs) \<Rightarrow> evs = []"
proof -
  have shape: "code r \<noteq> SeatSurfaceRefused \<and> starts_with (message r) (RefusalCode_as_str (code r))"
    if "decide p surface st = Inl r" for p st r
    using that by (auto simp: decide_def surface_rule_def refuse_def Let_def starts_with_def
        split: option.splits Blocker.splits if_splits)
  have "code r \<noteq> SeatSurfaceRefused \<and> starts_with (message r) (RefusalCode_as_str (code r))"
    if "seat_gate_decide_in g home seat surface origin tty = Inl r" for home r
    using that shape
    by (auto simp: seat_gate_decide_in_def seat_gate_with_def refuse_def Let_def starts_with_def
        split: option.splits sum.splits)
  then show ?thesis
    by (auto simp: seat_gate_def seat_gate_in_def Let_def split: sum.splits)
qed

text \<open>C37: a suspension is sticky. Once a seat's suspension file is there, no sequence of probes,
  verifications and suspensions, of any seat and with any pattern of failing system calls, lets a
  call of that seat through before its own \<open>seat clear\<close>: the gate answers \<open>seat_suspended\<close> on every
  surface.\<close>

theorem suspension_sticky:
  assumes run: "seat_run js home ops fs fs'"
    and susp: "files fs (suspended_path home seat) \<noteq> None" and clear: "OpClear seat \<notin> set ops"
    and row: "seat_profile seat = Some p" "suspension_policy p = Classified"
    and now: "fs_now g = fs'" "profile_configured g p"
  shows "\<exists>reason. seat_gate_decide_in g (Inr home) seat surface origin tty =
      refuse SeatSuspended (''seat_suspended: '' @ seat @ '': '' @ reason
        @ '' (run: triumvirate seat clear '' @ seat @ '')'')"
proof -
  have v: "valid_seat_name seat" "key p = seat" using seat_profile_valid [OF row(1)] by simp_all
  have "files fs' (suspended_path home seat) \<noteq> None"
    using seat_run_keeps_suspended [OF run v(1) susp clear] .
  then have "read_file fs' (suspended_path home seat) \<noteq> ReadNotFound"
    by (auto simp: read_file_def split: option.splits)
  then obtain reason where "suspended (projr (availability (codec g) fs' home seat
      (profile_configured g p) (installed_versions g seat))) = Some reason"
    using availability_suspended [OF v(1)] by blast
  moreover have "configured (projr (availability (codec g) fs' home seat
      (profile_configured g p) (installed_versions g seat)))"
    using availability_configured [OF v(1)] now(2) by simp
  ultimately show ?thesis
    unfolding seat_gate_decide_known [OF row(1)] now(1)
    by (intro exI [of _ reason]) (simp only: decide_suspended row(2) v(2))
qed

theorem suspension_sticky_witness:
  "\<exists>reason. seat_gate_decide_in
      \<lparr>env_var = (\<lambda>_. Some ''1''), installed_versions = (\<lambda>_. None),
       fs_now = \<lparr>files = (\<lambda>_. Some ''x''), io_error = (\<lambda>_. None), partial_len = 0\<rparr>,
       codec = \<lparr>dec_verified = (\<lambda>_. Inl ''bad''), dec_suspended = (\<lambda>_. Inl ''bad''),
         enc_verified = (\<lambda>_. Inl ''bad''), enc_suspended = (\<lambda>_. Inl ''bad'')\<rparr>\<rparr>
      (Inr ''/h'') ''kimi'' AskAgent Unattended False =
    refuse SeatSuspended (''seat_suspended: '' @ ''kimi'' @ '': '' @ reason
      @ '' (run: triumvirate seat clear '' @ ''kimi'' @ '')'')"
proof (rule suspension_sticky [OF run_nil])
  show "seat_profile ''kimi'' = Some row_kimi" by code_simp
  show "suspension_policy row_kimi = Classified" by code_simp
qed (simp_all add: profile_configured_def split: Configured.splits)

text \<open>Writing a verification and reading it back. When \<open>write_verified\<close> reports success and
  \<open>serde_json\<close> decodes what it encoded, the very next read says verified exactly for the CLI version
  of the record, whatever was in the file before.\<close>

theorem write_verified_roundtrip:
  assumes w: "write_verified js pid seq fs home seat r = (fs', Inr ())"
    and codec: "\<And>b. enc_verified js r = Inr b \<Longrightarrow> dec_verified js b = Inr r"
    and io: "io_error fs (ReadOp (verified_path home seat)) = None"
  shows "\<exists>a. availability js fs' home seat cfg installed = Inr a
      \<and> verified a = (installed = Some (cli_version r))
      \<and> files fs' (suspended_path home seat) = files fs (suspended_path home seat)"
proof -
  let ?dir = "path_join (path_join home ''seats'') seat"
  obtain b where v: "valid_seat_name seat" and b: "enc_verified js r = Inr b"
    and wa: "write_atomic pid seq fs ?dir ''verified.json'' b = (fs', Inr ())"
    using w by (auto simp: write_verified_def seat_dir_def split: if_splits sum.splits)
  have "tmp_path ?dir ''verified.json'' pid seq \<noteq> verified_path home seat"
    by (auto simp: tmp_path_def record_path_def path_join_def starts_with_def)
  then have fs': "files fs' (verified_path home seat) = Some b" "io_error fs' = io_error fs"
    using write_atomic_all [OF wa] wa
    by (auto simp: record_path_def elim: write_atomic_cases)
  have "files fs' (suspended_path home seat) = files fs (suspended_path home seat)"
    using write_atomic_other [OF wa] tmp_path_not_suspended [OF v v]
      suspended_path_distinct(2) [OF v v] by (metis record_path_def)
  then show ?thesis
    using fs' codec [OF b] io v
    by (auto simp: availability_def seat_dir_def Let_def read_file_def record_path_def)
qed

theorem write_verified_roundtrip_witness:
  "let js = \<lparr>dec_verified = (\<lambda>b. Inr \<lparr>cli_version = b, seat_home = [], probed_at = [], served_model = None\<rparr>),
        dec_suspended = (\<lambda>_. Inl ''bad''), enc_verified = (\<lambda>r. Inr (cli_version r)),
        enc_suspended = (\<lambda>_. Inl ''bad'')\<rparr>;
      fs = \<lparr>files = Map.empty, io_error = (\<lambda>_. None), partial_len = 0\<rparr>;
      r = \<lparr>cli_version = ''2.2.0'', seat_home = [], probed_at = [], served_model = None\<rparr>
   in \<exists>a. availability js (fst (write_verified js 7 0 fs ''/h'' ''kimi'' r)) ''/h'' ''kimi'' True
        (Some ''2.2.0'') = Inr a \<and> verified a"
proof -
  let ?js = "\<lparr>dec_verified = (\<lambda>b. Inr \<lparr>cli_version = b, seat_home = [], probed_at = [], served_model = None\<rparr>),
        dec_suspended = (\<lambda>_. Inl ''bad''), enc_verified = (\<lambda>r. Inr (cli_version r)),
        enc_suspended = (\<lambda>_. Inl ''bad'')\<rparr>"
  let ?fs = "\<lparr>files = Map.empty, io_error = (\<lambda>_. None), partial_len = 0\<rparr>"
  let ?r = "\<lparr>cli_version = ''2.2.0'', seat_home = [], probed_at = [], served_model = None\<rparr>"
  have "valid_seat_name ''kimi''" by code_simp
  then have "write_verified ?js 7 0 ?fs ''/h'' ''kimi'' ?r =
      (fst (write_verified ?js 7 0 ?fs ''/h'' ''kimi'' ?r), Inr ())"
    by (simp add: write_verified_def seat_dir_def write_atomic_def Let_def)
  from write_verified_roundtrip [OF this, of True "Some ''2.2.0''"] show ?thesis
    by (auto simp: Let_def)
qed

end
