(* ===== verification/Jury.thy ===== *)
theory Jury
  imports Jury_Verdict Agy_Breaker Seat_Gate
begin

text \<open>
  The jury (\<open>mcp-tools/src/jury.rs\<close>): seats and output files of a request, the provenance rule that
  judges each reply, the tally, the run that joins the seats in the order they finish, and what of a
  run reaches the journal and the ledger. Concurrency is the order of the completion events, an
  argument of the run; the daemon behind each seat is the outcome carried by the event.

  Shown here: no seat votes twice, only a reply of the asked agent on its own backend counts, a
  unanimous tally is a unanimous jury, the order of completion does not matter, and no text of a
  reply leaks into the journal.
\<close>

subsection \<open>Requests\<close>

record AskJuryRequest =
  jq_message :: string
  jq_cwd :: "string option"
  jq_origin :: Origin
  jq_seats :: "string list"
  jq_require_sight :: "bool option"
  jq_required_sources :: "string list"
  jq_grok_depth :: "nat option"
  jq_outputs :: "(string, string) btree_map"
  jq_expect_json :: "bool option"
  jq_verdict_regex :: "string option"
  jq_verdict_json_pointer :: "string option"
  jq_timeout_s :: "nat option"

datatype AskSurface = SurfaceAskAgent | SurfaceSession | SurfaceJury

text \<open>The fields of a seat's request that the jury sets; the others keep their defaults.\<close>

record AskAgentRequest =
  aq_agent :: string
  aq_message :: string
  aq_cwd :: "string option"
  aq_require_sight :: "bool option"
  aq_required_sources :: "string list"
  aq_grok_depth :: "nat option"
  aq_strict_agent :: "bool option"
  aq_own_lane :: "bool option"
  aq_origin :: Origin
  aq_ask_surface :: AskSurface

record AskAgentResponse =
  ar_request_id :: string
  ar_agent :: string
  ar_response :: string
  ar_answered_by_agent :: "string option"
  ar_answered_by_backend :: "string option"
  ar_degraded_from_backend :: "string option"
  ar_strict_agent_honored :: "bool option"
  ar_model :: "string option"
  ar_tool_calls_made :: "u32 option"

record JurySeat =
  agent :: string
  status :: string
  reason :: "string option"
  answered_by_agent :: "string option"
  answered_by_backend :: "string option"
  seat_model :: "string option"
  request_id :: "string option"
  response :: "string option"
  verdict :: "string option"
  verdict_note :: "string option"
  tool_calls_made :: "u32 option"
  duration_ms :: u64
  seat_output :: "JuryOutputCheck option"

definition DEFAULT_SEATS :: "string list" where
  "DEFAULT_SEATS = [''codex'', ''grok'', ''gemini'']"

definition STATUS_ANSWERED :: string where "STATUS_ANSWERED = ''answered''"
definition STATUS_UNAVAILABLE :: string where "STATUS_UNAVAILABLE = ''unavailable''"
definition STATUS_TIMEOUT :: string where "STATUS_TIMEOUT = ''timeout''"
definition STATUS_INVALID :: string where "STATUS_INVALID = ''invalid''"

lemmas status_defs = STATUS_ANSWERED_def STATUS_UNAVAILABLE_def STATUS_TIMEOUT_def STATUS_INVALID_def

text \<open>The errors of a request, in the code formatted as text.\<close>

datatype jury_error = NotDispatchable string | NamedTwice string string | TooFewSeats
  | OutputNotASeat string | SameOutput string string string | OutputTwice string
  | BadPointer string | BadRegex string | EmptyMessage

fun resolve_loop :: "string list \<Rightarrow> string list \<Rightarrow> jury_error + string list" where
  "resolve_loop seats [] = Inr seats"
| "resolve_loop seats (name # names) =
     (let canonical = normalize_agent_name (trim name) in
      if \<not> is_supported_agent_name canonical then Inl (NotDispatchable name)
      else if canonical \<in> set seats then Inl (NamedTwice canonical name)
      else resolve_loop (seats @ [canonical]) names)"

definition resolve_seats :: "string list \<Rightarrow> jury_error + string list" where
  "resolve_seats requested =
     (let raw = (if requested = [] then DEFAULT_SEATS else requested) in
      case resolve_loop [] raw of
        Inl e \<Rightarrow> Inl e
      | Inr seats \<Rightarrow> if length seats < 2 then Inl TooFewSeats else Inr seats)"

fun outputs_loop ::
  "(component list \<Rightarrow> component list option) \<Rightarrow> string list \<Rightarrow> (string, string) btree_map
     \<Rightarrow> (string \<times> string) list \<Rightarrow> jury_error + (string, string) btree_map"
where
  "outputs_loop canon seats resolved [] = Inr resolved"
| "outputs_loop canon seats resolved ((name, path) # rest) =
     (let canonical = normalize_agent_name (trim name) in
      if canonical \<notin> set seats then Inl (OutputNotASeat name)
      else
        (case find (\<lambda>(_, existing). is_same_file canon existing path) resolved of
           Some (other, _) \<Rightarrow> Inl (SameOutput other canonical path)
         | None \<Rightarrow>
             if bt_contains_key resolved canonical then Inl (OutputTwice canonical)
             else outputs_loop canon seats (bt_insert canonical path resolved) rest))"

definition resolve_outputs ::
  "(component list \<Rightarrow> component list option) \<Rightarrow> (string, string) btree_map \<Rightarrow> string list
     \<Rightarrow> jury_error + (string, string) btree_map"
where
  "resolve_outputs canon outputs seats = outputs_loop canon seats bt_empty outputs"

definition from_request :: "text_libs \<Rightarrow> AskJuryRequest \<Rightarrow> jury_error + VerdictExtractor" where
  "from_request L req =
     (case jq_verdict_json_pointer req of
        Some (c # cs) \<Rightarrow>
          if c \<noteq> CHR ''/'' then Inl (BadPointer (c # cs)) else Inr (JsonPointer (c # cs))
      | _ \<Rightarrow>
        (case jq_verdict_regex req of
           Some (c # cs) \<Rightarrow>
             (case regex_error L (c # cs) of
                Some e \<Rightarrow> Inl (BadRegex e)
              | None \<Rightarrow> Inr (Regex (c # cs)))
         | _ \<Rightarrow> Inr FirstLine))"

definition seat_request :: "AskJuryRequest \<Rightarrow> string \<Rightarrow> AskAgentRequest" where
  "seat_request req a =
     \<lparr>aq_agent = a, aq_message = jq_message req, aq_cwd = jq_cwd req,
      aq_require_sight =
        (if jq_require_sight req = Some True \<or> jq_required_sources req \<noteq> [] then Some True else None),
      aq_required_sources = jq_required_sources req,
      aq_grok_depth = (if a = ''grok'' then jq_grok_depth req else None),
      aq_strict_agent = Some True, aq_own_lane = Some True, aq_origin = jq_origin req,
      aq_ask_surface = SurfaceJury\<rparr>"

subsection \<open>The provenance rule\<close>

datatype SeatOutcome = Replied AskAgentResponse | Failed string | TimedOut nat

definition blank_seat :: "string \<Rightarrow> u64 \<Rightarrow> JurySeat" where
  "blank_seat a ms =
     \<lparr>agent = a, status = [], reason = None, answered_by_agent = None, answered_by_backend = None,
      seat_model = None, request_id = None, response = None, verdict = None, verdict_note = None,
      tool_calls_made = None, duration_ms = ms, seat_output = None\<rparr>"

definition answered_by :: "string \<Rightarrow> AskAgentResponse \<Rightarrow> string" where
  "answered_by a resp =
     (case ar_answered_by_agent resp of Some n \<Rightarrow> normalize_agent_name n | None \<Rightarrow> a)"

definition invalid_reason :: "string \<Rightarrow> AskAgentResponse \<Rightarrow> string option" where
  "invalid_reason a resp =
     (if ar_strict_agent_honored resp \<noteq> Some True then
        Some (''this daemon did not acknowledge strict_agent, so no substitution check it reports ''
          @ ''can be trusted. Install the daemon that ships with ask_jury'')
      else if answered_by a resp \<noteq> a then
        Some (''asked '' @ a @ '', answered by '' @ answered_by a resp)
      else if normalize_agent_name (ar_agent resp) \<noteq> a then
        Some (''asked '' @ a @ '', the reply is labelled '' @ ar_agent resp)
      else map_option (\<lambda>old. ''degraded from the '' @ old @ '' backend to ''
             @ (case ar_answered_by_backend resp of Some b \<Rightarrow> b | None \<Rightarrow> ''another backend''))
             (ar_degraded_from_backend resp))"

definition classify_seat ::
  "text_libs \<Rightarrow> string \<Rightarrow> SeatOutcome \<Rightarrow> u64 \<Rightarrow> VerdictExtractor \<Rightarrow> JurySeat"
where
  "classify_seat L a outcome ms ex =
     (case outcome of
        Failed r \<Rightarrow> (blank_seat a ms)\<lparr>status := STATUS_UNAVAILABLE, reason := Some r\<rparr>
      | TimedOut secs \<Rightarrow>
          (blank_seat a ms)\<lparr>status := STATUS_TIMEOUT,
            reason := Some (''no reply within '' @ show_nat secs @ ''s'')\<rparr>
      | Replied resp \<Rightarrow>
          (let seat = (blank_seat a ms)\<lparr>request_id := Some (ar_request_id resp),
                 answered_by_agent := Some (answered_by a resp),
                 answered_by_backend := ar_answered_by_backend resp,
                 tool_calls_made := ar_tool_calls_made resp, seat_model := ar_model resp\<rparr>
           in case invalid_reason a resp of
                Some why \<Rightarrow>
                  seat\<lparr>status := STATUS_INVALID,
                    reason := Some (why @ ''; the reply is withheld. Is the daemon older than strict_agent?'')\<rparr>
              | None \<Rightarrow>
                  (let (v, note) = extract_verdict L ex (ar_response resp) in
                   seat\<lparr>status := STATUS_ANSWERED, verdict := v, verdict_note := note,
                     response := Some (ar_response resp)\<rparr>)))"

subsection \<open>The tally\<close>

record JuryMajority =
  maj_verdict :: string
  maj_count :: nat

record JuryTally =
  seats_requested :: nat
  seats_answered :: nat
  verdicts_cast :: nat
  outcome :: string
  unanimous :: bool
  majority :: "JuryMajority option"
  is_split :: bool
  verdict_source :: string

definition count_verdict :: "string \<Rightarrow> (string, nat) btree_map \<Rightarrow> (string, nat) btree_map" where
  "count_verdict v counts = bt_insert v ((case bt_get counts v of Some n \<Rightarrow> n | None \<Rightarrow> 0) + 1) counts"

definition verdict_counts :: "JurySeat list \<Rightarrow> (string, nat) btree_map" where
  "verdict_counts seats = fold count_verdict (List.map_filter verdict seats) bt_empty"

definition tally :: "nat \<Rightarrow> (string, JurySeat) btree_map \<Rightarrow> string \<Rightarrow> JuryTally" where
  "tally requested seats src =
     (let answered = filter (\<lambda>s. status s = STATUS_ANSWERED) (bt_values seats);
          counts = verdict_counts answered;
          vc = sum_list (bt_values counts);
          maj = map_option (\<lambda>(v, n). \<lparr>maj_verdict = v, maj_count = n\<rparr>)
                  (find (\<lambda>(_, n). n * 2 > requested) counts);
          una = (requested \<ge> 2 \<and> vc = requested \<and> length counts = 1);
          spl = (vc \<ge> 2 \<and> maj = None)
      in \<lparr>seats_requested = requested, seats_answered = length answered, verdicts_cast = vc,
          outcome = (if una then ''unanimous'' else if maj \<noteq> None then ''majority''
                     else if spl then ''split'' else ''no_quorum''),
          unanimous = una, majority = maj, is_split = spl, verdict_source = src\<rparr>)"

subsection \<open>A run\<close>

record BreakerProbeResponse =
  backend :: string
  probe_before :: BreakerSnapshot
  probe_after :: BreakerSnapshot
  probe_outcome :: string
  probe_detail :: string
  closed_by_probe :: bool

definition a_probe_could_fix :: "JurySeat \<Rightarrow> bool" where
  "a_probe_could_fix seat \<longleftrightarrow>
     agent seat = ''gemini'' \<and> status seat = STATUS_UNAVAILABLE
     \<and> (let r = to_lowercase (case reason seat of Some r \<Rightarrow> r | None \<Rightarrow> []) in
         list_ex (contains_sub r)
           [''circuit breaker'', ''capacity/quota'', ''quota'', ''resource_exhausted'', ''429''])"

text \<open>How a spawned seat task ended: the reply or error of the daemon, the timeout around it, or the
  task's own death; with the time it took and the output files as they were when it was judged.\<close>

datatype task_end = TaskReply AskAgentResponse | TaskError string | TaskTimeout | TaskDied string

record seat_event =
  ev_agent :: string
  ev_end :: task_end
  ev_ms :: u64
  ev_fs :: output_fs

record JuryRun =
  run_seats :: "(string, JurySeat) btree_map"
  run_tally :: JuryTally
  breaker_probe :: "BreakerProbeResponse option"
  seats_retried_after_probe :: "string list"

text \<open>What one run holds fixed once the request is accepted.\<close>

record jury_cfg =
  jc_outputs :: "(string, string) btree_map"
  jc_baselines :: "(string, OutputBaseline) btree_map"
  jc_expect_json :: bool
  jc_extractor :: VerdictExtractor
  jc_timeout_secs :: nat

definition finish_seat :: "text_libs \<Rightarrow> jury_cfg \<Rightarrow> output_fs \<Rightarrow> JurySeat \<Rightarrow> JurySeat" where
  "finish_seat L c fs seat =
     (case bt_get (jc_outputs c) (agent seat) of
        None \<Rightarrow> seat
      | Some path \<Rightarrow>
        (let check = check_output L fs path (the (bt_get (jc_baselines c) (agent seat))) (jc_expect_json c);
             check = (if status seat = STATUS_TIMEOUT
                then check\<lparr>out_error := Some
                   ((case out_error check of Some e \<Rightarrow> e | None \<Rightarrow> ''checked while the seat was still running'')
                    @ '' (the seat may still be running in the daemon and may write this file later)'')\<rparr>
                else check)
         in seat\<lparr>seat_output := Some check\<rparr>))"

text \<open>The state of the loop: the seats so far and the journal, oldest entry first.\<close>

type_synonym jury_state = "(string, JurySeat) btree_map \<times> JurySeat list"

definition finish :: "text_libs \<Rightarrow> jury_cfg \<Rightarrow> output_fs \<Rightarrow> JurySeat \<Rightarrow> jury_state \<Rightarrow> jury_state" where
  "finish L c fs seat st =
     (let seat' = finish_seat L c fs seat in
      (bt_insert (agent seat') seat' (fst st), snd st @ [seat']))"

fun task_outcome :: "nat \<Rightarrow> task_end \<Rightarrow> SeatOutcome" where
  "task_outcome secs (TaskReply resp) = Replied resp"
| "task_outcome secs (TaskError e) = Failed e"
| "task_outcome secs TaskTimeout = TimedOut secs"
| "task_outcome secs (TaskDied e) = Failed (''seat task died: '' @ e)"

definition judge :: "text_libs \<Rightarrow> jury_cfg \<Rightarrow> seat_event \<Rightarrow> JurySeat" where
  "judge L c ev =
     classify_seat L (ev_agent ev) (task_outcome (jc_timeout_secs c) (ev_end ev))
       (case ev_end ev of TaskDied _ \<Rightarrow> 0 | _ \<Rightarrow> ev_ms ev) (jc_extractor c)"

definition join_seat :: "text_libs \<Rightarrow> jury_cfg \<Rightarrow> seat_event \<Rightarrow> jury_state \<Rightarrow> jury_state" where
  "join_seat L c ev st = finish L c (ev_fs ev) (judge L c ev) st"

definition refuse_caller ::
  "text_libs \<Rightarrow> jury_cfg \<Rightarrow> output_fs \<Rightarrow> string option \<Rightarrow> string list \<Rightarrow> jury_state \<Rightarrow> jury_state"
where
  "refuse_caller L c fs caller names st =
     fold (\<lambda>a. finish L c fs (classify_seat L a
         (Failed ''the caller IS this seat; an agent cannot sit on its own jury'') 0 (jc_extractor c)))
       (filter (\<lambda>a. caller = Some a) names) st"

text \<open>The retry of one candidate after a probe that closed the breaker: no timeout around it. A
  retry is its result, its duration and the output files when it was judged.\<close>

type_synonym retry_result = "(string + AskAgentResponse) \<times> u64 \<times> output_fs"

definition retry_seat :: "text_libs \<Rightarrow> jury_cfg \<Rightarrow> (string \<Rightarrow> retry_result) \<Rightarrow> string \<Rightarrow> jury_state \<Rightarrow> jury_state" where
  "retry_seat L c retry a st =
     (case retry a of (res, ms, fs) \<Rightarrow>
        finish L c fs
          (classify_seat L a (case res of Inr resp \<Rightarrow> Replied resp | Inl e \<Rightarrow> Failed e) ms (jc_extractor c)) st)"

definition probe_phase ::
  "text_libs \<Rightarrow> jury_cfg \<Rightarrow> string + BreakerProbeResponse \<Rightarrow> (string \<Rightarrow> retry_result) \<Rightarrow> jury_state
     \<Rightarrow> jury_state \<times> BreakerProbeResponse option \<times> string list"
where
  "probe_phase L c probe retry st =
     (let candidates = map agent (filter a_probe_could_fix (bt_values (fst st))) in
      if candidates = [] then (st, None, [])
      else case probe of
          Inl _ \<Rightarrow> (st, None, [])
        | Inr p \<Rightarrow>
            if closed_by_probe p then (fold (retry_seat L c retry) candidates st, Some p, candidates)
            else (st, Some p, []))"

record jury_world =
  w_canon :: "component list \<Rightarrow> component list option"
  w_fs :: output_fs
  w_probe :: "string + BreakerProbeResponse"
  w_retry :: "string \<Rightarrow> retry_result"

definition jury_setup ::
  "text_libs \<Rightarrow> jury_world \<Rightarrow> AskJuryRequest \<Rightarrow> nat \<Rightarrow> jury_error + string list \<times> jury_cfg"
where
  "jury_setup L W req default_timeout =
     (if trim (jq_message req) = [] then Inl EmptyMessage
      else case resolve_seats (jq_seats req) of
          Inl e \<Rightarrow> Inl e
        | Inr names \<Rightarrow> (case resolve_outputs (w_canon W) (jq_outputs req) names of
              Inl e \<Rightarrow> Inl e
            | Inr outs \<Rightarrow> (case from_request L req of
                  Inl e \<Rightarrow> Inl e
                | Inr ex \<Rightarrow> Inr (names,
                    \<lparr>jc_outputs = outs,
                     jc_baselines = map (\<lambda>(seat, path). (seat, output_baseline (w_fs W) path)) outs,
                     jc_expect_json = (jq_expect_json req = Some True),
                     jc_extractor = ex,
                     jc_timeout_secs = (case jq_timeout_s req of
                         Some s \<Rightarrow> if s > 0 then s else default_timeout
                       | None \<Rightarrow> default_timeout)\<rparr>))))"

definition run_jury ::
  "text_libs \<Rightarrow> jury_world \<Rightarrow> AskJuryRequest \<Rightarrow> string option \<Rightarrow> nat \<Rightarrow> seat_event list
     \<Rightarrow> jury_error + JuryRun \<times> JurySeat list"
where
  "run_jury L W req caller default_timeout events =
     (case jury_setup L W req default_timeout of
        Inl e \<Rightarrow> Inl e
      | Inr (names, c) \<Rightarrow>
        (let st0 = refuse_caller L c (w_fs W) (map_option normalize_agent_name caller) names (bt_empty, []);
             st1 = fold (join_seat L c) events st0;
             (st2, probe, retried) = probe_phase L c (w_probe W) (w_retry W) st1
         in Inr (\<lparr>run_seats = fst st2,
                  run_tally = tally (length names) (fst st2) (source (jc_extractor c)),
                  breaker_probe = probe, seats_retried_after_probe = retried\<rparr>, snd st2)))"

text \<open>The seats that are spawned, and the events that can follow: one completion of each, in any
  order.\<close>

definition dispatched :: "string option \<Rightarrow> string list \<Rightarrow> string list" where
  "dispatched caller names = filter (\<lambda>a. map_option normalize_agent_name caller \<noteq> Some a) names"

definition completes :: "string list \<Rightarrow> seat_event list \<Rightarrow> bool" where
  "completes names events \<longleftrightarrow> distinct (map ev_agent events) \<and> set (map ev_agent events) = set names"

subsection \<open>What leaves the call\<close>

definition MARKERS :: "string list" where
  "MARKERS = [''--- rejected output'', ''rejected output, for inspection'', ''Evidence:'', ''codex said:'']"

definition cut_marker :: "string \<Rightarrow> string \<Rightarrow> string" where
  "cut_marker marker text = (case find_sub text marker of Some i \<Rightarrow> take i text | None \<Rightarrow> text)"

definition journal_line :: "string \<Rightarrow> string" where
  "journal_line r = (case lines (fold cut_marker MARKERS r) of [] \<Rightarrow> [] | l # _ \<Rightarrow> trim l)"

definition journal_reason :: "string \<Rightarrow> string" where
  "journal_reason r =
     (let line = journal_line r in
      if length line > 200 then take 200 line @ ''...'' else line)"

definition show_rows :: "nat option \<Rightarrow> string" where
  "show_rows r = (case r of None \<Rightarrow> ''None'' | Some n \<Rightarrow> ''Some('' @ show_nat n @ '')'')"

definition seat_detail :: "JurySeat \<Rightarrow> string" where
  "seat_detail seat =
     (case (reason seat, seat_output seat) of
        (Some r, _) \<Rightarrow> journal_reason r
      | (None, Some out) \<Rightarrow> ''output rows='' @ show_rows (out_rows out) @ '' changed_during_call=''
            @ show_bool (changed_during_call out)
      | (None, None) \<Rightarrow> ''answered by ''
            @ (case answered_by_agent seat of Some a \<Rightarrow> a | None \<Rightarrow> agent seat))"

definition json_opt :: "('a \<Rightarrow> json) \<Rightarrow> 'a option \<Rightarrow> json" where
  "json_opt f x = (case x of Some a \<Rightarrow> f a | None \<Rightarrow> JNull)"

definition json_nat :: "nat \<Rightarrow> json" where
  "json_nat n = JNumber (show_nat n)"

definition seat_facts :: "JurySeat \<Rightarrow> json" where
  "seat_facts s = JObject
     [(''agent'', JString (agent s)), (''status'', JString (status s)),
      (''reason'', json_opt JString (map_option journal_reason (reason s))),
      (''answered_by_agent'', json_opt JString (answered_by_agent s)),
      (''answered_by_backend'', json_opt JString (answered_by_backend s)),
      (''request_id'', json_opt JString (request_id s)),
      (''cast_a_verdict'', JBool (verdict s \<noteq> None)),
      (''output_rows'', json_opt json_nat (Option.bind (seat_output s) out_rows)),
      (''output_changed_during_call'',
         json_opt JBool (map_option changed_during_call (seat_output s)))]"

record ManualRecord =
  session_id :: "string option"
  title :: string
  narrative :: string
  facts_json :: "json option"
  summary_type :: string

definition ledger_record_for :: "string \<Rightarrow> JuryRun \<Rightarrow> ManualRecord" where
  "ledger_record_for jury_id run =
     (let t = run_tally run in
      \<lparr>session_id = Some jury_id,
       title = ''ask_jury '' @ outcome t @ '': '' @ show_nat (seats_answered t) @ '' of ''
         @ show_nat (seats_requested t) @ '' seats answered'',
       narrative = ''Jury '' @ jury_id @ '': outcome '' @ outcome t @ '', '' @ show_nat (seats_answered t)
         @ '' of '' @ show_nat (seats_requested t) @ '' seats answered, '' @ show_nat (verdicts_cast t)
         @ '' verdicts cast (read by '' @ verdict_source t @ ''). Seats: ''
         @ join '', '' (map (\<lambda>s. agent s @ ''='' @ status s) (bt_values (run_seats run))) @ ''.'',
       facts_json = Some (JObject
         [(''jury_id'', JString jury_id), (''outcome'', JString (outcome t)),
          (''unanimous'', JBool (unanimous t)), (''split'', JBool (is_split t)),
          (''majority_count'', json_opt json_nat (map_option maj_count (majority t))),
          (''seats_requested'', json_nat (seats_requested t)),
          (''seats_answered'', json_nat (seats_answered t)),
          (''verdicts_cast'', json_nat (verdicts_cast t)),
          (''seats'', JArray (map seat_facts (bt_values (run_seats run))))]),
       summary_type = ''jury''\<rparr>)"

subsection \<open>Seats\<close>

abbreviation canonical_name :: "string \<Rightarrow> string" where
  "canonical_name n \<equiv> normalize_agent_name (trim n)"

lemma resolve_loop_Inr:
  "distinct seats \<Longrightarrow> resolve_loop seats names = Inr out \<longleftrightarrow>
     out = seats @ map canonical_name names \<and> distinct out
     \<and> list_all (\<lambda>n. is_supported_agent_name (canonical_name n)) names"
proof (induction seats names rule: resolve_loop.induct)
  case (2 seats name names)
  show ?case
  proof (cases "is_supported_agent_name (canonical_name name) \<and> canonical_name name \<notin> set seats")
    case True
    with 2 show ?thesis by (simp add: Let_def)
  next
    case False
    with "2.prems" show ?thesis by (auto simp: Let_def)
  qed
qed auto

lemma resolve_seats_Inr:
  "resolve_seats requested = Inr seats \<longleftrightarrow>
     seats = map canonical_name (if requested = [] then DEFAULT_SEATS else requested)
     \<and> distinct seats \<and> 2 \<le> length seats \<and> list_all is_supported_agent_name seats"
proof -
  let ?raw = "if requested = [] then DEFAULT_SEATS else requested"
  have "resolve_seats requested = Inr seats \<longleftrightarrow> resolve_loop [] ?raw = Inr seats \<and> 2 \<le> length seats"
    by (auto simp: resolve_seats_def Let_def split: sum.splits)
  then show ?thesis
    unfolding resolve_loop_Inr [OF distinct.simps(1) [THEN iffD2, OF TrueI]]
    by (auto simp: list_all_iff)
qed

text \<open>A request is accepted with exactly the canonical names of the seats it asks for, in order;
  they are dispatchable, at least two, and pairwise different, so no agent sits twice under two
  aliases. Every other request is refused before anything is dispatched.\<close>

theorem resolve_seats_accepts:
  "resolve_seats requested = Inr seats \<longleftrightarrow>
     seats = map (\<lambda>n. normalize_agent_name (trim n)) (if requested = [] then DEFAULT_SEATS else requested)
     \<and> distinct seats \<and> 2 \<le> length seats \<and> list_all is_supported_agent_name seats"
  by (rule resolve_seats_Inr)

subsection \<open>Provenance\<close>

lemma invalid_reason_None:
  "invalid_reason a resp = None \<longleftrightarrow>
     ar_strict_agent_honored resp = Some True \<and> answered_by a resp = a
     \<and> normalize_agent_name (ar_agent resp) = a \<and> ar_degraded_from_backend resp = None"
  by (simp add: invalid_reason_def)

lemma status_distinct [simp]:
  "STATUS_UNAVAILABLE \<noteq> STATUS_ANSWERED" "STATUS_TIMEOUT \<noteq> STATUS_ANSWERED"
  "STATUS_INVALID \<noteq> STATUS_ANSWERED" "STATUS_UNAVAILABLE \<noteq> STATUS_TIMEOUT"
  by (simp_all add: status_defs)

lemma agent_classify [simp]: "agent (classify_seat L a out ms ex) = a"
  by (simp add: classify_seat_def blank_seat_def Let_def split: SeatOutcome.splits option.splits prod.splits)

lemma classify_valid:
  assumes "invalid_reason a resp = None"
  shows "status (classify_seat L a (Replied resp) ms ex) = STATUS_ANSWERED"
    "response (classify_seat L a (Replied resp) ms ex) = Some (ar_response resp)"
    "verdict (classify_seat L a (Replied resp) ms ex) = fst (extract_verdict L ex (ar_response resp))"
    "answered_by_agent (classify_seat L a (Replied resp) ms ex) = Some (answered_by a resp)"
  using assms by (simp_all add: classify_seat_def blank_seat_def Let_def split: prod.splits)

lemma classify_withheld:
  assumes "\<And>resp. out = Replied resp \<Longrightarrow> invalid_reason a resp \<noteq> None"
  shows "status (classify_seat L a out ms ex) \<noteq> STATUS_ANSWERED
    \<and> response (classify_seat L a out ms ex) = None \<and> verdict (classify_seat L a out ms ex) = None
    \<and> (\<exists>r. reason (classify_seat L a out ms ex) = Some r)"
proof (cases out)
  case (Replied resp)
  then obtain why where "invalid_reason a resp = Some why" using assms by blast
  with Replied show ?thesis by (simp add: classify_seat_def blank_seat_def Let_def)
qed (simp_all add: classify_seat_def blank_seat_def)

lemma classify_answered_by:
  assumes "status (classify_seat L a out ms ex) = STATUS_ANSWERED"
  shows "answered_by_agent (classify_seat L a out ms ex) = Some a"
proof -
  obtain resp where "out = Replied resp" and "invalid_reason a resp = None"
    using classify_withheld assms by blast
  then show ?thesis using classify_valid(4) invalid_reason_None by metis
qed

text \<open>C2: the provenance rule. A seat counts as answered exactly when the daemon acknowledged the
  strict path, the answer came from the asked agent, the reply is labelled with it, and no other
  back end stood in; then its text and verdict are those of the reply. In every other case neither
  the text nor a verdict of the reply is in the result, and a reason is.\<close>

theorem provenance_rule:
  "(status (classify_seat L a out ms ex) = STATUS_ANSWERED \<longleftrightarrow>
      (\<exists>resp. out = Replied resp \<and> ar_strict_agent_honored resp = Some True
         \<and> answered_by a resp = a \<and> normalize_agent_name (ar_agent resp) = a
         \<and> ar_degraded_from_backend resp = None
         \<and> response (classify_seat L a out ms ex) = Some (ar_response resp)
         \<and> verdict (classify_seat L a out ms ex) = fst (extract_verdict L ex (ar_response resp))))
   \<and> (status (classify_seat L a out ms ex) = STATUS_ANSWERED
      \<or> response (classify_seat L a out ms ex) = None \<and> verdict (classify_seat L a out ms ex) = None
        \<and> (\<exists>r. reason (classify_seat L a out ms ex) = Some r))"
proof (cases "\<exists>resp. out = Replied resp \<and> invalid_reason a resp = None")
  case True
  then obtain resp where "out = Replied resp" and "invalid_reason a resp = None" by blast
  then show ?thesis
    using classify_valid [of a resp] unfolding invalid_reason_None by simp
next
  case False
  then show ?thesis
    using classify_withheld [of out a L ms ex] unfolding invalid_reason_None by blast
qed

subsection \<open>Counting\<close>

definition votes :: "(string, JurySeat) btree_map \<Rightarrow> string list" where
  "votes seats = List.map_filter verdict (filter (\<lambda>s. status s = STATUS_ANSWERED) (bt_values seats))"

definition get0 :: "('k, nat) btree_map \<Rightarrow> 'k \<Rightarrow> nat" where
  "get0 m k = (case bt_get m k of Some n \<Rightarrow> n | None \<Rightarrow> 0)"

lemma bt_get_less: "bt_invar ((a, b) # m) \<Longrightarrow> k < a \<Longrightarrow> bt_get ((a, b) # m) k = None"
  by (force simp: bt_invar_def bt_get_def map_of_eq_None_iff)

lemma bt_invar_tl: "bt_invar (x # m) \<Longrightarrow> bt_invar m"
  by (simp add: bt_invar_def)

lemma get0_Cons: "get0 ((a, b) # m) k = (if k = a then b else get0 m k)"
  by (auto simp: get0_def bt_get_def)

lemma sum_bt_insert:
  "bt_invar m \<Longrightarrow> sum_list (map snd (bt_insert k n m)) + get0 m k = sum_list (map snd m) + n"
proof (induction k n m rule: bt_insert.induct)
  case (1 k n)
  then show ?case by (simp add: get0_def bt_get_def)
next
  case (2 k n a b m)
  have "k < a \<Longrightarrow> get0 ((a, b) # m) k = 0"
    using bt_get_less [OF "2.prems"] by (simp add: get0_def)
  then show ?case using 2 bt_invar_tl [OF "2.prems"] by (auto simp: get0_Cons)
qed

lemma fold_count_verdict:
  "bt_invar c \<Longrightarrow> bt_invar (fold count_verdict vs c)
    \<and> (\<forall>v. get0 (fold count_verdict vs c) v = get0 c v + count_list vs v)
    \<and> sum_list (map snd (fold count_verdict vs c)) = sum_list (map snd c) + length vs
    \<and> dom (bt_get (fold count_verdict vs c)) = dom (bt_get c) \<union> set vs"
proof (induction vs arbitrary: c)
  case (Cons w vs)
  have inv: "bt_invar (count_verdict w c)"
    using Cons.prems by (simp add: count_verdict_def bt_invar_insert)
  have get: "bt_get (count_verdict w c) = (bt_get c)(w \<mapsto> get0 c w + 1)"
    using Cons.prems by (simp add: count_verdict_def bt_get_insert get0_def)
  then have get0: "get0 (count_verdict w c) v = (if v = w then get0 c w + 1 else get0 c v)" for v
    by (simp add: get0_def)
  have sum: "sum_list (map snd (count_verdict w c)) = Suc (sum_list (map snd c))"
    using sum_bt_insert [OF Cons.prems, of w "get0 c w + 1"] by (simp add: count_verdict_def get0_def)
  have dom: "dom (bt_get (count_verdict w c)) = insert w (dom (bt_get c))" using get by simp
  show ?case using Cons.IH [OF inv] by (simp add: get0 sum dom)
qed simp

lemma verdict_counts_facts:
  fixes seats :: "JurySeat list"
  defines "vs \<equiv> List.map_filter verdict seats"
  shows "bt_invar (verdict_counts seats)"
    and "sum_list (map snd (verdict_counts seats)) = length vs"
    and "fst ` set (verdict_counts seats) = set vs"
    and "(v, n) \<in> set (verdict_counts seats) \<longleftrightarrow> n = count_list vs v \<and> 0 < n"
proof -
  have inv0: "bt_invar (bt_empty :: (string, nat) btree_map)" by (rule bt.invar_empty)
  note f = fold_count_verdict [OF inv0, of vs, folded verdict_counts_def [of seats, folded vs_def]]
  show inv: "bt_invar (verdict_counts seats)" using f by blast
  show "sum_list (map snd (verdict_counts seats)) = length vs" using f by simp
  have "dom (bt_get (verdict_counts seats)) = set vs" using f by (simp add: bt_get_def)
  then show dom: "fst ` set (verdict_counts seats) = set vs" using bt.dom_get [OF inv] by simp
  have get0: "get0 (verdict_counts seats) v = count_list vs v"
    using f by (simp add: get0_def bt_get_def)
  have pos: "0 < count_list vs v \<longleftrightarrow> v \<in> set vs"
    using count_list_0_iff [of vs v] by auto
  show "(v, n) \<in> set (verdict_counts seats) \<longleftrightarrow> n = count_list vs v \<and> 0 < n"
  proof (cases "v \<in> set vs")
    case True
    then obtain k where "(v, k) \<in> set (verdict_counts seats)" using dom by force
    then have "bt_get (verdict_counts seats) v = Some k" using bt.get_iff_entries [OF inv] by blast
    then show ?thesis
      using get0 True bt.get_iff_entries [OF inv, of v n]
      by (auto simp: get0_def pos)
  next
    case False
    then have "(v, n) \<notin> set (verdict_counts seats)" using dom by force
    then show ?thesis using False pos by auto
  qed
qed

lemma count_list_two: "v \<noteq> w \<Longrightarrow> count_list vs v + count_list vs w \<le> length vs"
  by (induction vs) auto

lemma length_one_iff_set:
  assumes "bt_invar m"
  shows "length m = 1 \<longleftrightarrow> (\<exists>v. fst ` set m = {v})"
proof -
  have "length m = card (fst ` set m)"
    using bt.length_entries [OF assms] bt.dom_get [OF assms] by simp
  then show ?thesis by (simp add: card_1_singleton_iff)
qed

lemma tally_unanimous:
  "unanimous (tally n seats src) \<longleftrightarrow> 2 \<le> n \<and> length (votes seats) = n \<and> (\<exists>v. set (votes seats) = {v})"
  using verdict_counts_facts(1-3) [of "filter (\<lambda>s. status s = STATUS_ANSWERED) (bt_values seats)"]
    length_one_iff_set [OF verdict_counts_facts(1)]
  by (simp add: tally_def Let_def votes_def bt_values_def)

lemma tally_verdicts_cast: "verdicts_cast (tally n seats src) = length (votes seats)"
  using verdict_counts_facts(2) by (simp add: tally_def Let_def votes_def bt_values_def)

lemma tally_majority_Some:
  assumes "length (votes seats) \<le> n"
  shows "majority (tally n seats src) = Some m \<longleftrightarrow>
      maj_count m = count_list (votes seats) (maj_verdict m) \<and> n < 2 * maj_count m"
proof -
  define counts where "counts = verdict_counts (filter (\<lambda>s. status s = STATUS_ANSWERED) (bt_values seats))"
  have mem: "(v, k) \<in> set counts \<longleftrightarrow> k = count_list (votes seats) v \<and> 0 < k" for v k
    unfolding counts_def votes_def by (rule verdict_counts_facts(4))
  have maj: "majority (tally n seats src) =
      map_option (\<lambda>(v, k). \<lparr>maj_verdict = v, maj_count = k\<rparr>) (find (\<lambda>(_, k). k * 2 > n) counts)"
    by (simp add: tally_def Let_def counts_def)
  have unique: "v = w" if "n < 2 * count_list (votes seats) v" "n < 2 * count_list (votes seats) w" for v w
    using that assms count_list_two [of v w "votes seats"] by linarith
  show ?thesis
  proof (cases "find (\<lambda>(_, k). k * 2 > n) counts")
    case None
    then have "\<not> (n < 2 * k)" if "(v, k) \<in> set counts" for v k
      using that by (fastforce simp: find_None_iff)
    then show ?thesis using mem unfolding maj None by force
  next
    case (Some vk)
    obtain v k where vk: "vk = (v, k)" by fastforce
    from find_SomeD [OF Some] have "n < 2 * k" and "k = count_list (votes seats) v"
      using mem by (auto simp: vk)
    then show ?thesis
      using unique by (cases m) (auto simp: maj Some vk)
  qed
qed

text \<open>The tally, against the seats that were requested. It is unanimous exactly when every
  requested seat cast a verdict and all are the same; it names a majority exactly when some verdict
  was cast by more than half of the requested seats, and then the only such one with its count; and
  every tally has exactly one of the four outcomes.\<close>

theorem tally_sound:
  assumes "length (votes seats) \<le> n"
  shows "(unanimous (tally n seats src) \<longleftrightarrow>
        2 \<le> n \<and> (\<exists>v. votes seats = replicate n v))
    \<and> (majority (tally n seats src) = Some m \<longleftrightarrow>
        maj_count m = count_list (votes seats) (maj_verdict m) \<and> n < 2 * maj_count m)
    \<and> outcome (tally n seats src) =
        (if unanimous (tally n seats src) then ''unanimous''
         else if majority (tally n seats src) \<noteq> None then ''majority''
         else if 2 \<le> length (votes seats) then ''split'' else ''no_quorum'')"
proof (intro conjI)
  have "length (votes seats) = n \<and> (\<exists>v. set (votes seats) = {v}) \<longleftrightarrow> (\<exists>v. votes seats = replicate n v)"
    if "2 \<le> n"
    using that by (metis replicate_length_same singletonD length_replicate set_replicate not_numeral_le_zero)
  then show "unanimous (tally n seats src) \<longleftrightarrow> 2 \<le> n \<and> (\<exists>v. votes seats = replicate n v)"
    unfolding tally_unanimous by blast
  show "majority (tally n seats src) = Some m \<longleftrightarrow>
        maj_count m = count_list (votes seats) (maj_verdict m) \<and> n < 2 * maj_count m"
    by (rule tally_majority_Some [OF assms])
  show "outcome (tally n seats src) =
        (if unanimous (tally n seats src) then ''unanimous''
         else if majority (tally n seats src) \<noteq> None then ''majority''
         else if 2 \<le> length (votes seats) then ''split'' else ''no_quorum'')"
    using tally_verdicts_cast [of n seats src] by (simp add: tally_def Let_def)
qed

theorem tally_sound_witness:
  "outcome (tally 3 [(''codex'', (blank_seat ''codex'' 0)\<lparr>status := STATUS_ANSWERED, verdict := Some ''yes''\<rparr>),
     (''grok'', (blank_seat ''grok'' 0)\<lparr>status := STATUS_ANSWERED, verdict := Some ''yes''\<rparr>)] ''regex'')
   = ''majority''"
proof -
  let ?seats = "[(''codex'', (blank_seat ''codex'' 0)\<lparr>status := STATUS_ANSWERED, verdict := Some ''yes''\<rparr>),
     (''grok'', (blank_seat ''grok'' 0)\<lparr>status := STATUS_ANSWERED, verdict := Some ''yes''\<rparr>)]"
  have v: "votes ?seats = [''yes'', ''yes'']"
    by (simp add: votes_def bt_values_def List.map_filter_def)
  from tally_sound [of ?seats 3 "''regex''" "\<lparr>maj_verdict = ''yes'', maj_count = 2\<rparr>"] show ?thesis
    by (auto simp: v numeral_3_eq_3)
qed

subsection \<open>Runs\<close>

definition seats_inv :: "string list \<Rightarrow> (string, JurySeat) btree_map \<Rightarrow> bool" where
  "seats_inv names m \<longleftrightarrow> bt_invar m
     \<and> list_all (\<lambda>(k, s). agent s = k \<and> k \<in> set names
          \<and> (status s = STATUS_ANSWERED \<longrightarrow> answered_by_agent s = Some k)) m"

lemma finish_seat_keeps [simp]:
  "agent (finish_seat L c fs s) = agent s" "status (finish_seat L c fs s) = status s"
  "verdict (finish_seat L c fs s) = verdict s"
  "answered_by_agent (finish_seat L c fs s) = answered_by_agent s"
  "reason (finish_seat L c fs s) = reason s"
  by (simp_all add: finish_seat_def Let_def split: option.split)

lemma set_bt_insert_subset: "set (bt_insert k v m) \<subseteq> insert (k, v) (set m)"
  by (induction k v m rule: bt_insert.induct) auto

lemma seats_inv_finish [inv_rules]:
  assumes "seats_inv names (fst st)" and "a \<in> set names"
  shows "seats_inv names (fst (finish L c fs (classify_seat L a out ms ex) st))"
proof -
  let ?s = "finish_seat L c fs (classify_seat L a out ms ex)"
  have "agent ?s = a \<and> a \<in> set names
      \<and> (status ?s = STATUS_ANSWERED \<longrightarrow> answered_by_agent ?s = Some a)"
    using assms(2) classify_answered_by by simp
  then show ?thesis
    using assms(1) set_bt_insert_subset [of a ?s "fst st"]
    by (auto simp: seats_inv_def finish_def Let_def bt_invar_insert list_all_iff)
qed

lemma seats_inv_fold:
  assumes "\<And>x st. x \<in> set xs \<Longrightarrow> seats_inv names (fst st) \<Longrightarrow> seats_inv names (fst (f x st))"
    and "seats_inv names (fst st)"
  shows "seats_inv names (fst (fold f xs st))"
  using assms by (induction xs arbitrary: st) auto

lemma seats_inv_empty: "seats_inv names bt_empty"
  by (simp add: seats_inv_def bt.invar_empty)

lemma seats_inv_refuse: "seats_inv names (fst st) \<Longrightarrow> seats_inv names (fst (refuse_caller L c fs caller names st))"
  unfolding refuse_caller_def by (rule seats_inv_fold) (auto intro: inv_rules)

lemma seats_inv_join:
  assumes "set (map ev_agent events) \<subseteq> set names" and "seats_inv names (fst st)"
  shows "seats_inv names (fst (fold (join_seat L c) events st))"
  using assms by (intro seats_inv_fold) (auto simp: join_seat_def judge_def intro: inv_rules)

lemma seats_inv_probe:
  assumes "seats_inv names (fst st)"
  shows "seats_inv names (fst (fst (probe_phase L c probe retry st)))"
proof -
  let ?cs = "map agent (filter a_probe_could_fix (bt_values (fst st)))"
  have "set ?cs \<subseteq> set names"
    using assms by (auto simp: seats_inv_def list_all_iff bt_values_def)
  then have "seats_inv names (fst (fold (retry_seat L c retry) ?cs st))"
    using assms by (intro seats_inv_fold) (auto simp: retry_seat_def intro: inv_rules split: prod.split)
  then show ?thesis
    using assms by (simp add: probe_phase_def Let_def split: sum.split)
qed

lemma run_jury_Inr:
  assumes "run_jury L W req caller t events = Inr (run, journal)"
    and "resolve_seats (jq_seats req) = Inr names"
  obtains c st where "jury_setup L W req t = Inr (names, c)"
    "run_tally run = tally (length names) (run_seats run) (source (jc_extractor c))"
    "st = fold (join_seat L c) events
       (refuse_caller L c (w_fs W) (map_option normalize_agent_name caller) names (bt_empty, []))"
    "run_seats run = fst (fst (probe_phase L c (w_probe W) (w_retry W) st))"
    "journal = snd (fst (probe_phase L c (w_probe W) (w_retry W) st))"
proof -
  obtain names' c where s: "jury_setup L W req t = Inr (names', c)"
    using assms(1) by (auto simp: run_jury_def split: sum.splits)
  then have "names' = names"
    using assms(2) by (auto simp: jury_setup_def split: if_splits sum.splits)
  with s have s: "jury_setup L W req t = Inr (names, c)" by simp
  define st where "st = fold (join_seat L c) events
       (refuse_caller L c (w_fs W) (map_option normalize_agent_name caller) names (bt_empty, []))"
  obtain s2 pr rt where pp: "probe_phase L c (w_probe W) (w_retry W) st = (s2, pr, rt)"
    by (metis prod_cases3)
  have "run = \<lparr>run_seats = fst s2, run_tally = tally (length names) (fst s2) (source (jc_extractor c)),
      breaker_probe = pr, seats_retried_after_probe = rt\<rparr> \<and> journal = snd s2"
    using assms(1) by (simp add: run_jury_def s Let_def st_def [symmetric] pp)
  then show thesis by (intro that [OF s _ st_def]) (simp_all add: pp)
qed

lemma run_seats_inv:
  assumes "run_jury L W req caller t events = Inr (run, journal)"
    and "resolve_seats (jq_seats req) = Inr names"
    and "completes (dispatched caller names) events"
  shows "seats_inv names (run_seats run)"
proof -
  have sub: "set (map ev_agent events) \<subseteq> set names"
    using assms(3) by (auto simp: completes_def dispatched_def)
  from assms(1,2) show ?thesis
  proof (rule run_jury_Inr)
    fix c st
    assume st: "st = fold (join_seat L c) events
       (refuse_caller L c (w_fs W) (map_option normalize_agent_name caller) names (bt_empty, []))"
      and run: "run_seats run = fst (fst (probe_phase L c (w_probe W) (w_retry W) st))"
    have "seats_inv names (fst st)"
      unfolding st by (intro seats_inv_join sub seats_inv_refuse) (simp add: seats_inv_empty)
    then show ?thesis unfolding run by (rule seats_inv_probe)
  qed
qed

lemma seats_inv_length:
  assumes "seats_inv names m" and "distinct names"
  shows "length m \<le> length names" and "length m = length names \<Longrightarrow> fst ` set m = set names"
proof -
  have inv: "bt_invar m" and sub: "fst ` set m \<subseteq> set names"
    using assms(1) by (auto simp: seats_inv_def list_all_iff)
  have card: "length m = card (fst ` set m)"
    using bt.length_entries [OF inv] bt.dom_get [OF inv] by simp
  then show "length m \<le> length names"
    using card_mono [OF _ sub] distinct_card [OF assms(2)] by simp
  show "length m = length names \<Longrightarrow> fst ` set m = set names"
    using card distinct_card [OF assms(2)] card_subset_eq [OF _ sub] by simp
qed

lemma votes_simps [simp]:
  "votes [] = []"
  "votes ((k, s) # m) =
     (if status s = STATUS_ANSWERED then (case verdict s of Some v \<Rightarrow> v # votes m | None \<Rightarrow> votes m)
      else votes m)"
  by (auto simp: votes_def bt_values_def List.map_filter_def)

lemma votes_length: "length (votes m) \<le> length m"
proof (induction m)
  case (Cons x m)
  then show ?case by (cases x) (auto split: option.split)
qed simp

lemma votes_all:
  assumes "length (votes m) = length m" and "(k, s) \<in> set m"
  shows "status s = STATUS_ANSWERED" and "\<exists>v. verdict s = Some v \<and> v \<in> set (votes m)"
proof -
  have "list_all (\<lambda>(k, s). status s = STATUS_ANSWERED \<and> (\<exists>v. verdict s = Some v)) m"
    using assms(1)
  proof (induction m)
    case (Cons x m)
    have "length (votes m) \<le> length m" by (rule votes_length)
    with Cons show ?case by (cases x) (auto split: if_splits option.splits)
  qed simp
  with assms(2) show "status s = STATUS_ANSWERED" and "\<exists>v. verdict s = Some v \<and> v \<in> set (votes m)"
    by (force simp: list_all_iff votes_def bt_values_def set_map_filter)+
qed

text \<open>C1: a unanimous jury is unanimous. When a run reports unanimity, then every seat that was asked
  for, under its canonical name, is in the result, answered for itself and cast the one verdict; in
  particular the calling agent was not among them. Neither a substitution, a missing seat nor a seat
  counted twice can fake it, whatever the order of completion and whatever the probe did.\<close>

theorem unanimous_means_unanimous:
  assumes run: "run_jury L W req caller t events = Inr (run, journal)"
    and names: "resolve_seats (jq_seats req) = Inr names"
    and events: "completes (dispatched caller names) events"
    and una: "unanimous (run_tally run)"
  shows "\<exists>v. \<forall>a \<in> set names. \<exists>s. bt_get (run_seats run) a = Some s \<and> agent s = a
      \<and> status s = STATUS_ANSWERED \<and> answered_by_agent s = Some a \<and> verdict s = Some v"
proof -
  have inv: "seats_inv names (run_seats run)" by (rule run_seats_inv [OF run names events])
  have d: "distinct names" using names resolve_seats_Inr by blast
  obtain src where "run_tally run = tally (length names) (run_seats run) src"
    using run_jury_Inr [OF run names] by blast
  with una obtain v where len: "length (votes (run_seats run)) = length names"
    and v: "set (votes (run_seats run)) = {v}"
    by (auto simp: tally_unanimous)
  have all: "length (votes (run_seats run)) = length (run_seats run)"
    using len votes_length seats_inv_length(1) [OF inv d] by (metis le_antisym)
  have keys: "fst ` set (run_seats run) = set names"
    using seats_inv_length(2) [OF inv d] all len by simp
  have "\<exists>s. bt_get (run_seats run) a = Some s \<and> agent s = a \<and> status s = STATUS_ANSWERED
      \<and> answered_by_agent s = Some a \<and> verdict s = Some v" if "a \<in> set names" for a
  proof -
    have "a \<in> fst ` set (run_seats run)" using keys that by simp
    then obtain s where s: "(a, s) \<in> set (run_seats run)" by (metis imageE prod.collapse)
    have "bt_invar (run_seats run)" using inv by (simp add: seats_inv_def)
    then have "bt_get (run_seats run) a = Some s" using bt.get_iff_entries [of "run_seats run" a s] s by simp
    moreover have "agent s = a" "status s = STATUS_ANSWERED \<longrightarrow> answered_by_agent s = Some a"
      using inv s by (auto simp: seats_inv_def list_all_iff)
    ultimately show ?thesis using votes_all [OF all s] v by auto
  qed
  then show ?thesis by blast
qed

text \<open>A jury of two that agrees, used to show that the hypotheses can hold.\<close>

definition ex_libs :: text_libs where
  "ex_libs = \<lparr>from_str = (\<lambda>_. None), stream_next = (\<lambda>_. None), json_pointer = (\<lambda>_ _. None),
     regex_error = (\<lambda>_. None), captures_iter = (\<lambda>_ _. [])\<rparr>"

definition ex_fs :: output_fs where
  "ex_fs = \<lparr>metadata = (\<lambda>_. None), read_to_string = (\<lambda>_. Inl ''gone'')\<rparr>"

definition ex_world :: jury_world where
  "ex_world = \<lparr>w_canon = (\<lambda>_. None), w_fs = ex_fs, w_probe = Inl ''no probe'',
     w_retry = (\<lambda>_. (Inl ''no retry'', 0, ex_fs))\<rparr>"

definition ex_request :: AskJuryRequest where
  "ex_request = \<lparr>jq_message = ''label part 7'', jq_cwd = None, jq_origin = Interactive,
     jq_seats = [''codex'', ''xai''], jq_require_sight = None, jq_required_sources = [],
     jq_grok_depth = None, jq_outputs = [], jq_expect_json = None, jq_verdict_regex = None,
     jq_verdict_json_pointer = None, jq_timeout_s = None\<rparr>"

definition ex_event :: "string \<Rightarrow> string \<Rightarrow> seat_event" where
  "ex_event a tx = \<lparr>ev_agent = a, ev_end = TaskReply
     \<lparr>ar_request_id = ''r'', ar_agent = a, ar_response = tx, ar_answered_by_agent = Some a,
      ar_answered_by_backend = None, ar_degraded_from_backend = None,
      ar_strict_agent_honored = Some True, ar_model = None, ar_tool_calls_made = None\<rparr>,
     ev_ms = 5, ev_fs = ex_fs\<rparr>"

abbreviation ex_run :: "seat_event list \<Rightarrow> jury_error + JuryRun \<times> JurySeat list" where
  "ex_run evs \<equiv> run_jury ex_libs ex_world ex_request (Some ''claude'') 60 evs"

lemma ex_names: "resolve_seats (jq_seats ex_request) = Inr [''codex'', ''grok'']"
  by code_simp

lemma ex_completes:
  "completes (dispatched (Some ''claude'') [''codex'', ''grok''])
     [ex_event ''grok'' ''Approve.'', ex_event ''codex'' ''**APPROVE**'']"
  by code_simp

lemma ex_unanimous:
  "case ex_run [ex_event ''grok'' ''Approve.'', ex_event ''codex'' ''**APPROVE**''] of
     Inr (run, _) \<Rightarrow> unanimous (run_tally run) | Inl _ \<Rightarrow> False"
  by code_simp

theorem unanimous_means_unanimous_witness:
  "\<exists>run journal v. ex_run [ex_event ''grok'' ''Approve.'', ex_event ''codex'' ''**APPROVE**''] = Inr (run, journal)
     \<and> (\<exists>s. bt_get (run_seats run) ''grok'' = Some s \<and> verdict s = Some v)
     \<and> (\<exists>s. bt_get (run_seats run) ''codex'' = Some s \<and> verdict s = Some v)"
proof -
  obtain run journal where r: "ex_run [ex_event ''grok'' ''Approve.'', ex_event ''codex'' ''**APPROVE**'']
      = Inr (run, journal)" and u: "unanimous (run_tally run)"
    using ex_unanimous by (auto split: sum.splits)
  from unanimous_means_unanimous [OF r ex_names ex_completes u] show ?thesis
    using r by fastforce
qed

subsection \<open>Order of completion\<close>

lemma fst_fold_join:
  "fst (fold (join_seat L c) events st) =
     fold (\<lambda>(k, v). bt_insert k v)
       (map (\<lambda>ev. (ev_agent ev, finish_seat L c (ev_fs ev) (judge L c ev))) events) (fst st)"
proof (induction events arbitrary: st)
  case (Cons ev events)
  then show ?case by (simp add: join_seat_def finish_def Let_def judge_def)
qed simp

lemma snd_fold_join:
  "snd (fold (join_seat L c) events st) =
     snd st @ map (\<lambda>ev. finish_seat L c (ev_fs ev) (judge L c ev)) events"
proof (induction events arbitrary: st)
  case (Cons ev events)
  then show ?case by (simp add: join_seat_def finish_def Let_def)
qed simp

lemma join_order:
  assumes "distinct (map ev_agent es)" and "distinct (map ev_agent es')" and "set es = set es'"
    and "bt_invar (fst st)"
  shows "fst (fold (join_seat L c) es st) = fst (fold (join_seat L c) es' st)"
  unfolding fst_fold_join using assms
  by (intro bt.insert_all_perm) (simp_all add: comp_def)

lemma fold_fst_cong:
  assumes "\<And>a x y. fst x = fst y \<Longrightarrow> fst (f a x) = fst (f a y)"
  shows "fst x = fst y \<Longrightarrow> fst (fold f as x) = fst (fold f as y)"
proof (induction as arbitrary: x y)
  case (Cons a as)
  show ?case using Cons.IH [OF assms [OF Cons.prems]] by simp
qed simp

lemma probe_phase_fst:
  assumes "fst st = fst st'"
  shows "fst (fst (probe_phase L c probe retry st)) = fst (fst (probe_phase L c probe retry st'))
    \<and> snd (probe_phase L c probe retry st) = snd (probe_phase L c probe retry st')"
proof -
  have step: "fst (retry_seat L c retry a x) = fst (retry_seat L c retry a y)" if "fst x = fst y" for a x y
    using that by (simp add: retry_seat_def finish_def Let_def split: prod.split)
  have "fst (fold (retry_seat L c retry) as st) = fst (fold (retry_seat L c retry) as st')" for as
    by (rule fold_fst_cong [OF step assms])
  then show ?thesis using assms by (simp add: probe_phase_def Let_def split: sum.split)
qed

text \<open>The order in which the seats finish does not matter. Two runs whose seats end the same way,
  in different orders, return the same seats, the same tally, the same probe and the same retries;
  only the order of the journal differs.\<close>

theorem run_jury_order_independent:
  assumes "distinct (map ev_agent events)" and "distinct (map ev_agent events')"
    and "set events = set events'"
  shows "map_sum id fst (run_jury L W req caller t events) =
    map_sum id fst (run_jury L W req caller t events')"
proof (cases "jury_setup L W req t")
  case (Inr nc)
  obtain names c where nc: "nc = (names, c)" by fastforce
  define st0 where "st0 = refuse_caller L c (w_fs W) (map_option normalize_agent_name caller) names (bt_empty, [])"
  have "seats_inv names (fst st0)"
    unfolding st0_def by (intro seats_inv_refuse) (simp add: seats_inv_empty)
  then have "bt_invar (fst st0)" by (simp add: seats_inv_def)
  then have "fst (fold (join_seat L c) events st0) = fst (fold (join_seat L c) events' st0)"
    by (rule join_order [OF assms])
  from probe_phase_fst [OF this, of L c "w_probe W" "w_retry W"] show ?thesis
    by (simp add: run_jury_def Inr nc st0_def [symmetric] split_beta Let_def)
qed (simp add: run_jury_def)

theorem run_jury_order_independent_witness:
  "map_sum id fst (ex_run [ex_event ''grok'' ''yes'', ex_event ''codex'' ''no'']) =
     map_sum id fst (ex_run [ex_event ''codex'' ''no'', ex_event ''grok'' ''yes''])"
  by (rule run_jury_order_independent) (auto simp: ex_event_def)

subsection \<open>The journal\<close>

lemma cut_marker_prefix: "\<exists>n. cut_marker m tx = take n tx"
  unfolding cut_marker_def by (cases "find_sub tx m") (auto intro: exI [of _ "length tx"])

lemma cut_marker_free: "m \<noteq> [] \<Longrightarrow> \<not> contains_sub (cut_marker m tx) m"
  using find_sub_take_free by (auto simp: cut_marker_def contains_sub_def split: option.splits)

lemma cut_markers:
  assumes "[] \<notin> set ms"
  shows "(\<exists>n. fold cut_marker ms tx = take n tx)
    \<and> (\<forall>m \<in> set ms. \<not> contains_sub (fold cut_marker ms tx) m)"
  using assms
proof (induction ms arbitrary: tx)
  case (Cons m ms)
  obtain n where n: "cut_marker m tx = take n tx" using cut_marker_prefix by blast
  obtain n' where n': "fold cut_marker ms (take n tx) = take n' (take n tx)"
    using Cons.IH [of "take n tx"] Cons.prems by auto
  have "\<not> contains_sub (take n tx) m" using cut_marker_free [of m tx] Cons.prems n by auto
  then have "\<not> contains_sub (take n' (take n tx)) m" by (rule not_contains_prefix)
  then show ?case
    using Cons.IH [of "take n tx"] Cons.prems n n' by (auto simp: min_def)
qed (simp, metis take_all_iff order_refl)

lemma contains_sub_infix: "\<not> contains_sub (a @ x @ b) m \<Longrightarrow> \<not> contains_sub x m"
  by (metis append.assoc contains_sub_iff)

lemma journal_line_facts:
  "\<exists>n a b. take n r = a @ journal_line r @ b"
  "nl_char \<notin> set (journal_line r)"
  "list_all (\<lambda>m. \<not> contains_sub (journal_line r) m) MARKERS"
proof -
  define cut where "cut = fold cut_marker MARKERS r"
  have "[] \<notin> set MARKERS" by (simp add: MARKERS_def)
  from cut_markers [OF this, of r] obtain n where n: "cut = take n r"
    and free: "\<forall>m \<in> set MARKERS. \<not> contains_sub cut m"
    unfolding cut_def by blast
  have "\<exists>a b. cut = a @ journal_line r @ b \<and> nl_char \<notin> set (journal_line r)"
  proof (cases "lines cut")
    case Nil
    then show ?thesis by (auto simp: journal_line_def cut_def)
  next
    case (Cons l ls)
    then have jl: "journal_line r = trim l" by (simp add: journal_line_def cut_def)
    have l: "l \<in> set (lines cut)" using Cons by simp
    obtain a b where "cut = a @ l @ b" using lines_piece(2) [OF l] by blast
    moreover obtain a' b' where t: "l = a' @ trim l @ b'" using trim_piece by blast
    moreover have "set (trim l) \<subseteq> set l" by (subst t) auto
    ultimately show ?thesis using lines_piece(1) [OF l] jl by (metis append.assoc subsetD)
  qed
  then obtain a b where ab: "cut = a @ journal_line r @ b" and nl: "nl_char \<notin> set (journal_line r)" by blast
  show "\<exists>n a b. take n r = a @ journal_line r @ b" using ab n by metis
  show "nl_char \<notin> set (journal_line r)" by (rule nl)
  show "list_all (\<lambda>m. \<not> contains_sub (journal_line r) m) MARKERS"
    using free contains_sub_infix ab by (metis list_all_iff)
qed

text \<open>What of a failure reason reaches the journal and the ledger is at most two hundred
  characters of one line of it, from before every marker after which the daemon quotes a reply,
  followed by dots when it was cut; and the journal line and the ledger record of a seat are the same
  whatever its reply, its verdict's wording and the verdict note are.\<close>

theorem journal_leaks_no_reply:
  "(\<exists>body. (journal_reason r = body \<or> journal_reason r = body @ ''...'') \<and> length body \<le> 200
      \<and> nl_char \<notin> set body \<and> (\<exists>n a b. take n r = a @ body @ b)
      \<and> list_all (\<lambda>m. \<not> contains_sub body m) MARKERS)
   \<and> seat_detail (s\<lparr>response := x, verdict := v, verdict_note := w\<rparr>) = seat_detail s
   \<and> seat_facts (s\<lparr>response := x, verdict := map_option f (verdict s), verdict_note := w\<rparr>) = seat_facts s"
proof (intro conjI)
  let ?l = "journal_line r"
  have body: "journal_reason r = take 200 ?l \<or> journal_reason r = take 200 ?l @ ''...''"
    by (simp add: journal_reason_def Let_def)
  obtain n a b where "take n r = a @ ?l @ b" using journal_line_facts(1) by blast
  then have "take n r = a @ take 200 ?l @ (drop 200 ?l @ b)" by simp
  moreover have "list_all (\<lambda>m. \<not> contains_sub (take 200 ?l) m) MARKERS"
    using journal_line_facts(3) not_contains_prefix unfolding list_all_iff by blast
  moreover have "nl_char \<notin> set (take 200 ?l)" using journal_line_facts(2) in_set_takeD by metis
  ultimately show "\<exists>body. (journal_reason r = body \<or> journal_reason r = body @ ''...'') \<and> length body \<le> 200
      \<and> nl_char \<notin> set body \<and> (\<exists>n a b. take n r = a @ body @ b)
      \<and> list_all (\<lambda>m. \<not> contains_sub body m) MARKERS"
    using body by (intro exI [of _ "take 200 ?l"]) auto
  show "seat_detail (s\<lparr>response := x, verdict := v, verdict_note := w\<rparr>) = seat_detail s"
    by (simp add: seat_detail_def split: option.split)
  show "seat_facts (s\<lparr>response := x, verdict := map_option f (verdict s), verdict_note := w\<rparr>) = seat_facts s"
    by (simp add: seat_facts_def)
qed

subsection \<open>Output files\<close>

definition outputs_inv ::
  "(component list \<Rightarrow> component list option) \<Rightarrow> string list \<Rightarrow> (string, string) btree_map \<Rightarrow> bool"
where
  "outputs_inv canon seats m \<longleftrightarrow> bt_invar m \<and> fst ` set m \<subseteq> set seats
     \<and> inj_on (\<lambda>(k, p). file_key canon p) (set m)"

lemma outputs_inv_insert:
  assumes "outputs_inv canon seats m" and "k \<in> set seats" and "\<not> bt_contains_key m k"
    and "find (\<lambda>(_, existing). is_same_file canon existing p) m = None"
  shows "outputs_inv canon seats (bt_insert k p m)" and "length (bt_insert k p m) = Suc (length m)"
proof -
  have inv: "bt_invar m" using assms(1) by (simp add: outputs_inv_def)
  have dom: "dom (bt_get (bt_insert k p m)) = insert k (dom (bt_get m))"
    using bt_get_insert [OF inv] by simp
  have "k \<notin> dom (bt_get m)" using assms(3) by (auto simp: bt_contains_key_def)
  then show "length (bt_insert k p m) = Suc (length m)"
    using bt.length_entries [OF inv] bt.length_entries [OF bt_invar_insert [OF inv], of k p] dom
      bt.dom_get [OF inv] by simp
  have new: "file_key canon q \<noteq> file_key canon p" if "(j, q) \<in> set m" for j q
    using assms(4) that by (fastforce simp: find_None_iff is_same_file_def)
  have "set (bt_insert k p m) \<subseteq> insert (k, p) (set m)" by (rule set_bt_insert_subset)
  moreover have "file_key canon p \<notin> (\<lambda>(k, p). file_key canon p) ` (set m - {(k, p)})"
    using new by fastforce
  then have "inj_on (\<lambda>(k, p). file_key canon p) (insert (k, p) (set m))"
    using assms(1) by (simp add: outputs_inv_def inj_on_insert)
  ultimately have "inj_on (\<lambda>(k, p). file_key canon p) (set (bt_insert k p m))"
    by (rule inj_on_subset [rotated])
  then show "outputs_inv canon seats (bt_insert k p m)"
    using assms(1,2) bt_invar_insert [OF inv] by (simp add: outputs_inv_def set_fst_bt_insert)
qed

lemma outputs_loop_Inr:
  assumes "outputs_inv canon seats m" and "outputs_loop canon seats m outs = Inr m'"
  shows "outputs_inv canon seats m' \<and> length m' = length m + length outs"
  using assms
proof (induction canon seats m outs rule: outputs_loop.induct)
  case (2 canon seats m name path rest)
  let ?k = "normalize_agent_name (trim name)"
  have step: "?k \<in> set seats" "find (\<lambda>(_, existing). is_same_file canon existing path) m = None"
      "\<not> bt_contains_key m ?k" "outputs_loop canon seats (bt_insert ?k path m) rest = Inr m'"
    using "2.prems"(2) by (auto simp: Let_def split: if_splits option.splits)
  note ins = outputs_inv_insert [OF "2.prems"(1) step(1,3,2)]
  show ?case using "2.IH" [OF refl _ step(2) step(3) ins(1) step(4)] step(1) ins(2) by simp
qed simp

text \<open>Accepted output files are one per named seat and pairwise different files: no entry of the
  request is dropped, every key is a seat of the jury, and no two seats are told to write paths with
  the same directory and name after resolution.\<close>

theorem resolve_outputs_disjoint:
  assumes "resolve_outputs canon outs seats = Inr m"
  shows "length m = length outs \<and> fst ` set m \<subseteq> set seats \<and> distinct (map fst m)
    \<and> (\<forall>a p b q. (a, p) \<in> set m \<and> (b, q) \<in> set m \<and> a \<noteq> b \<longrightarrow> \<not> is_same_file canon p q)"
proof -
  have "outputs_inv canon seats bt_empty" by (simp add: outputs_inv_def bt.invar_empty)
  from outputs_loop_Inr [OF this] assms have inv: "outputs_inv canon seats m" and "length m = length outs"
    by (simp_all add: resolve_outputs_def)
  moreover have "\<not> is_same_file canon p q" if "(a, p) \<in> set m" "(b, q) \<in> set m" "a \<noteq> b" for a p b q
    using inv that by (force simp: outputs_inv_def is_same_file_def inj_on_def)
  ultimately show ?thesis using bt_invar_distinct by (auto simp: outputs_inv_def)
qed

theorem resolve_outputs_disjoint_witness:
  "length (projr (resolve_outputs (\<lambda>_. None) [(''codex'', ''/tmp/a''), (''xai'', ''/tmp/b'')]
     [''codex'', ''grok''])) = 2"
proof -
  have "resolve_outputs (\<lambda>_. None) [(''codex'', ''/tmp/a''), (''xai'', ''/tmp/b'')] [''codex'', ''grok''] =
      Inr [(''codex'', ''/tmp/a''), (''grok'', ''/tmp/b'')]"
    by code_simp
  from resolve_outputs_disjoint [OF this] this show ?thesis by simp
qed

end
