(* ===== verification/Blind_Tests.thy ===== *)
theory Blind_Tests
  imports Rust_Prelude
begin

text \<open>
  The text half of blind validation (\<open>mcp-tools/src/blind_validation.rs\<close>): reading a test run out of
  the harness output, blanking comments and literals out of a test file, the names it declares, and
  the absolute paths in a tool call's arguments. All scanners are total: each one is proved to
  advance.
\<close>

subsection \<open>Test runs\<close>

datatype TestOutcome = Passed | Failed | Ignored

type_synonym TestRun = "(string, TestOutcome) btree_map"

definition parse_test_line :: "string \<Rightarrow> (string \<times> TestOutcome) option" where
  "parse_test_line raw =
     (case strip_prefix (trim raw) ''test '' of
        None \<Rightarrow> None
      | Some rest \<Rightarrow>
        (case split_once rest '' ... '' of
           None \<Rightarrow> None
         | Some (nm, tail) \<Rightarrow>
           (let name = trim nm in
            if name = [] \<or> CHR '' '' \<in> set name then None
            else if starts_with tail ''ok'' then Some (name, Passed)
            else if starts_with tail ''FAILED'' then Some (name, Failed)
            else if starts_with tail ''ignored'' then Some (name, Ignored)
            else None)))"

definition parse_cargo_test_output :: "string \<Rightarrow> TestRun" where
  "parse_cargo_test_output out =
     fold (\<lambda>l run. case parse_test_line l of Some (name, oc) \<Rightarrow> bt_insert name oc run | None \<Rightarrow> run)
       (lines out) bt_empty"

definition newly_failing :: "TestRun \<Rightarrow> TestRun \<Rightarrow> string list" where
  "newly_failing baseline after =
     map fst (filter (\<lambda>(name, _). bt_get after name \<noteq> Some Passed)
       (filter (\<lambda>(_, oc). oc = Passed) baseline))"

definition deleted_tests :: "TestRun \<Rightarrow> TestRun \<Rightarrow> string list" where
  "deleted_tests baseline after = filter (\<lambda>name. \<not> bt_contains_key after name) (bt_keys baseline)"

definition name_candidates :: "TestRun \<Rightarrow> string \<Rightarrow> (string \<times> TestOutcome) list" where
  "name_candidates run name =
     (let suffix = ''::'' @ name in
      filter (\<lambda>(reported, _). reported = name \<or> ends_with reported suffix) run)"

definition declared_tests_all_passed :: "string list \<Rightarrow> TestRun \<Rightarrow> bool" where
  "declared_tests_all_passed declared run \<longleftrightarrow>
     declared \<noteq> []
     \<and> list_all (\<lambda>name. name_candidates run name \<noteq> []
           \<and> list_all (\<lambda>(_, oc). oc = Passed) (name_candidates run name)) declared"

subsection \<open>Blanking comments and literals\<close>

text \<open>How many characters of a block comment's body remain at a nesting depth.\<close>

fun block_len :: "nat \<Rightarrow> string \<Rightarrow> nat" where
  "block_len 0 s = 0"
| "block_len (Suc d) [] = 0"
| "block_len (Suc d) [c] = 1"
| "block_len (Suc d) (a # b # s) =
     (if a = CHR ''/'' \<and> b = CHR ''*'' then 2 + block_len (Suc (Suc d)) s
      else if a = CHR ''*'' \<and> b = CHR ''/'' then 2 + block_len d s
      else 1 + block_len (Suc d) (b # s))"

text \<open>The length of a string literal after its opening quote, the closing quote included; \<open>None\<close>
  when the text ends first.\<close>

fun str_len :: "string \<Rightarrow> nat option" where
  "str_len [] = None"
| "str_len (c # s) =
     (if c = CHR 0x5C then (case s of [] \<Rightarrow> None | _ # s' \<Rightarrow> map_option (\<lambda>n. n + 2) (str_len s'))
      else if c = CHR 0x22 then Some 1
      else map_option Suc (str_len s))"

text \<open>The arms of the scanner, in the order of the code: how many characters the arm at the start of
  the text blanks, whether it copies one character, or that the text is given up.\<close>

datatype scan_step = Blank nat | Copy | GiveUp

definition char_literal :: "nat \<Rightarrow> string \<Rightarrow> scan_step" where
  "char_literal q s =
     (let body = drop (q + 1) s in
      if starts_with body [CHR 0x5C] then
        (let j = drop 1 body;
             n1 = (if starts_with j ''u'' then length (takeWhile (\<lambda>c. c \<noteq> CHR ''}'') j) else 0);
             n2 = length (takeWhile (\<lambda>c. c \<noteq> CHR 0x27) (drop n1 j))
         in Blank (q + 2 + n1 + n2 + 1))
      else if length body \<ge> 2 \<and> body ! 1 = CHR 0x27 then Blank (q + 3)
      else Copy)"

definition scan_arm :: "string \<Rightarrow> scan_step" where
  "scan_arm s =
     (if starts_with s ''//'' then Blank (length (takeWhile (\<lambda>c. c \<noteq> nl_char) s))
      else if starts_with s ''/*'' then Blank (2 + block_len 1 (drop 2 s))
      else if starts_with s [CHR 0x27] then char_literal 0 s
      else if starts_with s [CHR ''b'', CHR 0x27] then char_literal 1 s
      else if starts_with s [CHR ''b'', CHR 0x22] then Blank 1
      else
        (let hashes = length (takeWhile (\<lambda>c. c = CHR ''#'') (drop 1 s)) in
         if starts_with s ''r'' \<and> starts_with (drop (1 + hashes) s) [CHR 0x22] then
           (let close = CHR 0x22 # replicate hashes (CHR ''#'') in
            case find_sub (drop (2 + hashes) s) close of
              Some p \<Rightarrow> Blank (2 + hashes + p + length close)
            | None \<Rightarrow> Blank (length s))
         else if starts_with s [CHR 0x22] then
           (case str_len (drop 1 s) of Some n \<Rightarrow> Blank (1 + n) | None \<Rightarrow> GiveUp)
         else Copy))"

lemma scan_arm_advances: "s \<noteq> [] \<Longrightarrow> scan_arm s = Blank n \<Longrightarrow> 0 < n"
  by (auto simp: scan_arm_def char_literal_def Let_def starts_with_iff split: if_splits option.splits)

function strip_loop :: "string \<Rightarrow> string option" where
  "strip_loop s =
     (if s = [] then Some []
      else case scan_arm s of
          Blank n \<Rightarrow> map_option (\<lambda>r. replicate (min n (length s)) (CHR '' '') @ r) (strip_loop (drop n s))
        | Copy \<Rightarrow> map_option (\<lambda>r. hd s # r) (strip_loop (tl s))
        | GiveUp \<Rightarrow> None)"
  by pat_completeness auto
termination strip_loop
  by (relation "measure length") (auto intro!: diff_less dest: scan_arm_advances)

declare strip_loop.simps [simp del]

definition strip_comments_and_strings :: "string \<Rightarrow> string" where
  "strip_comments_and_strings src = (case strip_loop src of Some out \<Rightarrow> out | None \<Rightarrow> [])"

subsection \<open>Declared names\<close>

definition is_ident_char :: "char \<Rightarrow> bool" where
  "is_ident_char c \<longleftrightarrow> is_ascii_alphanumeric c \<or> c = CHR ''_''"

function fn_from :: "string \<Rightarrow> nat \<Rightarrow> nat option" where
  "fn_from h i =
     (case find_sub (drop i h) ''fn '' of
        None \<Rightarrow> None
      | Some rel \<Rightarrow>
        (let at = i + rel in
         if at = 0 \<or> \<not> is_ident_char (h ! (at - 1))
         then Some (at + 3 + length (takeWhile (\<lambda>c. c = CHR '' '') (drop (at + 3) h)))
         else fn_from h (at + 3)))"
  by pat_completeness auto
termination fn_from
proof (relation "measure (\<lambda>(h, i). length h - i)")
  fix h i rel and at :: nat
  assume "find_sub (drop i h) ''fn '' = Some rel" and at: "at = i + rel"
  then have "rel + 3 \<le> length (drop i h)" using find_sub_SomeD [of "drop i h" "''fn ''" rel] by auto
  then show "((h, at + 3), h, i) \<in> measure (\<lambda>(h, i). length h - i)" using at by simp
qed simp

declare fn_from.simps [simp del]

definition find_fn_keyword :: "string \<Rightarrow> nat option" where
  "find_fn_keyword h = fn_from h 0"

text \<open>The code cuts the window by bytes and panics when the cut is inside a character of several bytes; here the window is cut
  all the same. A source for which that happens gives the code no answer at all.\<close>

definition declared_after :: "string \<Rightarrow> string option" where
  "declared_after rest =
     (let window = take (min (length rest) 400) rest in
      case find_fn_keyword window of
        None \<Rightarrow> None
      | Some at \<Rightarrow>
        (let ident = takeWhile is_ident_char (drop at window) in if ident \<noteq> [] then Some ident else None))"

function declared_scan :: "string \<Rightarrow> string list" where
  "declared_scan rest =
     (case find_sub rest ''test]'' of
        None \<Rightarrow> []
      | Some attr \<Rightarrow>
        (let rest' = drop (attr + 5) rest in
         (case declared_after rest' of Some n \<Rightarrow> [n] | None \<Rightarrow> []) @ declared_scan rest'))"
  by pat_completeness auto
termination declared_scan
proof (relation "measure length")
  fix rest attr and rest' :: string
  assume "find_sub rest ''test]'' = Some attr" and r: "rest' = drop (attr + 5) rest"
  then have "attr + 5 \<le> length rest" using find_sub_SomeD [of rest "''test]''" attr] by auto
  then show "(rest', rest) \<in> measure length" using r by simp
qed simp

declare declared_scan.simps [simp del]

definition declared_test_names :: "string \<Rightarrow> string list" where
  "declared_test_names src = remdups_adj (sort (declared_scan (strip_comments_and_strings src)))"

subsection \<open>Paths in tool arguments\<close>

fun unescape_slashes :: "string \<Rightarrow> string" where
  "unescape_slashes (a # b # s) =
     (if a = CHR 0x5C \<and> b = CHR ''/'' then CHR ''/'' # unescape_slashes s
      else a # unescape_slashes (b # s))"
| "unescape_slashes s = s"

definition opens_a_token :: "char option \<Rightarrow> bool" where
  "opens_a_token prev =
     (case prev of None \<Rightarrow> True
      | Some c \<Rightarrow> c \<in> {CHR 0x22, CHR '' '', CHR 0x27, CHR ''='', CHR ''('', CHR ''['', CHR '','', CHR 0x09})"

definition ends_path :: "char \<Rightarrow> bool" where
  "ends_path c \<longleftrightarrow> c \<in> {CHR 0x22, CHR '' '', CHR '','', CHR 0x5C, CHR 0x27}"

function paths_loop :: "char option \<Rightarrow> string \<Rightarrow> string list" where
  "paths_loop prev s =
     (case s of
        [] \<Rightarrow> []
      | c # cs \<Rightarrow>
        if c = CHR ''/'' \<and> opens_a_token prev then
          (let raw = takeWhile (\<lambda>c. \<not> ends_path c) s;
               cleaned = trim_end_matches
                 (\<lambda>c. c \<in> {CHR ''.'', CHR '':'', CHR '';'', CHR '')'', CHR '']''}) raw
           in (if length cleaned > 1 then [cleaned] else [])
                @ paths_loop (Some (last raw)) (dropWhile (\<lambda>c. \<not> ends_path c) s))
        else paths_loop (Some c) cs)"
  by pat_completeness auto
termination paths_loop
proof (relation "measure (\<lambda>(prev, s). length s)")
  fix prev s c cs and raw cleaned :: string
  assume "s = c # cs" and "c = CHR ''/'' \<and> opens_a_token prev"
  then show "((Some (last raw), dropWhile (\<lambda>c. \<not> ends_path c) s), prev, s)
      \<in> measure (\<lambda>(prev, s). length s)"
    by (simp add: ends_path_def le_imp_less_Suc length_dropWhile_le)
qed auto

declare paths_loop.simps [simp del]

definition absolute_paths_in :: "string \<Rightarrow> string list" where
  "absolute_paths_in args = paths_loop None (unescape_slashes args)"

definition inside_root :: "string \<Rightarrow> string \<Rightarrow> bool" where
  "inside_root root p \<longleftrightarrow>
     p = root \<or> (case strip_prefix p root of Some rest \<Rightarrow> starts_with rest ''/'' | None \<Rightarrow> False)"

text \<open>A tool call is known here by its recorded arguments.\<close>

definition reads_outside_allowed_root :: "string option list \<Rightarrow> string \<Rightarrow> string list" where
  "reads_outside_allowed_root tool_calls allowed_root =
     (let root = trim_end_matches (\<lambda>c. c = CHR ''/'') allowed_root;
          found = concat (map (\<lambda>args. case args of
              None \<Rightarrow> []
            | Some a \<Rightarrow> filter (\<lambda>p. \<not> inside_root root p) (absolute_paths_in a)) tool_calls)
      in remdups_adj (sort found))"

subsection \<open>What the scanners keep\<close>

lemma parse_cargo_insert_all:
  "parse_cargo_test_output out =
     fold (\<lambda>(k, v). bt_insert k v) (List.map_filter parse_test_line (lines out)) bt_empty"
proof -
  have "fold (\<lambda>l run. case parse_test_line l of Some (name, oc) \<Rightarrow> bt_insert name oc run | None \<Rightarrow> run) ls m
      = fold (\<lambda>(k, v). bt_insert k v) (List.map_filter parse_test_line ls) m" for ls and m :: TestRun
    by (induction ls arbitrary: m) (auto simp: List.map_filter_def split: option.splits)
  then show ?thesis by (simp add: parse_cargo_test_output_def)
qed

lemma parse_cargo_invar: "bt_invar (parse_cargo_test_output out)"
  unfolding parse_cargo_insert_all by (intro bt.invar_insert_all bt.invar_empty)

lemma parse_cargo_get:
  "bt_get (parse_cargo_test_output out) = map_of (rev (List.map_filter parse_test_line (lines out)))"
  unfolding parse_cargo_insert_all using bt.get_insert_all [OF bt.invar_empty] by (simp add: bt_get_def)

abbreviation blanked :: "string \<Rightarrow> string \<Rightarrow> bool" where
  "blanked out src \<equiv> list_all2 (\<lambda>x c. x = c \<or> x = CHR '' '') out src"

lemma blanked_replicate: "blanked (replicate (min n (length s)) (CHR '' '')) (take n s)"
  by (simp add: list_all2_conv_all_nth)

lemma strip_loop_blanked: "strip_loop s = Some out \<Longrightarrow> blanked out s"
proof (induction s arbitrary: out rule: strip_loop.induct)
  case (1 s)
  show ?case
  proof (cases "s = []")
    case True
    then show ?thesis using "1.prems" by (simp add: strip_loop.simps)
  next
    case False
    show ?thesis
    proof (cases "scan_arm s")
      case (Blank n)
      then obtain r where r: "strip_loop (drop n s) = Some r"
        and out: "out = replicate (min n (length s)) (CHR '' '') @ r"
        using "1.prems" False by (subst (asm) strip_loop.simps) auto
      have "blanked (replicate (min n (length s)) (CHR '' '') @ r) (take n s @ drop n s)"
        using "1.IH"(1) [OF False Blank r] blanked_replicate by (rule list_all2_appendI [rotated])
      then show ?thesis by (simp add: out)
    next
      case Copy
      then obtain r where r: "strip_loop (tl s) = Some r" and out: "out = hd s # r"
        using "1.prems" False by (subst (asm) strip_loop.simps) auto
      have "blanked (hd s # r) (hd s # tl s)" using "1.IH"(2) [OF False Copy r] by simp
      then show ?thesis using False by (simp add: out)
    next
      case GiveUp
      then show ?thesis using "1.prems" False by (subst (asm) strip_loop.simps) simp
    qed
  qed
qed

text \<open>Blanking a test file moves nothing: either the scanner gives the file up and declares
  nothing, or the result has the length of the source and differs from it only by blanks, so every
  declared name stands in the source where the scanner found it.\<close>

theorem strip_keeps_positions:
  "strip_comments_and_strings src = []
   \<or> length (strip_comments_and_strings src) = length src
     \<and> (\<forall>i. i < length src \<longrightarrow> strip_comments_and_strings src ! i \<in> {src ! i, CHR '' ''})"
proof (cases "strip_loop src")
  case (Some out)
  then show ?thesis
    using strip_loop_blanked [OF Some]
    by (auto simp: strip_comments_and_strings_def list_all2_conv_all_nth)
qed (simp add: strip_comments_and_strings_def)

theorem strip_keeps_positions_witness:
  "strip_comments_and_strings ''a//b'' ! 2 \<in> {CHR ''/'', CHR '' ''}"
proof -
  have "strip_comments_and_strings ''a//b'' = ''a   ''" by code_simp
  then show ?thesis using strip_keeps_positions [of "''a//b''"] by (auto simp: nth_Cons')
qed

text \<open>Two results for one name: the later line wins, so a failure in one test binary is hidden by a
  pass of the same name in a later one.\<close>

lemma parse_cargo_last_wins:
  "parse_cargo_test_output (''test t ... FAILED'' @ [nl_char] @ ''test t ... ok'') = [(''t'', Passed)]"
  by code_simp

text \<open>The closing quote of the literal for a single quote is taken for an opening one: here the file is
  given up although it declares a test.\<close>

lemma strip_quote_literal:
  "declared_test_names
     (''const Q: [char; 2] = ['' @ [CHR 0x27, CHR 0x5C, CHR 0x27, CHR 0x27, CHR '','', CHR 0x27, CHR 0x22, CHR 0x27]
      @ '']; #[test] fn t() {}'') = []"
  by code_simp

text \<open>A path that leaves the root through \<open>..\<close> is not reported.\<close>

lemma reads_outside_dotdot:
  "reads_outside_allowed_root [Some ''cat /v/../impl/src/lib.rs''] ''/v'' = []"
  "reads_outside_allowed_root [Some ''cat /impl/src/lib.rs''] ''/v'' = [''/impl/src/lib.rs'']"
  by code_simp+

end
