(* ===== verification/Blind_Validation.thy ===== *)
theory Blind_Validation
  imports Blind_Tests Rust_Path Seats
begin

text \<open>
  Blind validation (\<open>mcp-tools/src/blind_validation.rs\<close>): choosing a validator, what the run before
  the change proved, the report, and the whole procedure with its refusal points. The agent, the two
  test runs and the file system are the fields of \<open>blind_world\<close>; a run returns the trace of what it
  had done, so that the order of the steps is part of the model.

  Shown here: a report is accepted exactly when there is nothing to say against it, what acceptance
  of a whole run establishes, and that a sighted validator's tests are never run.
\<close>

definition pick_validator :: "string \<Rightarrow> string list \<Rightarrow> (string \<times> string list) + string" where
  "pick_validator worker_agent roster =
     (let worker = to_lowercase (trim worker_agent) in
      case find (\<lambda>a. a \<noteq> [] \<and> a \<noteq> worker) (map (\<lambda>a. to_lowercase (trim a)) roster) of
        Some a \<Rightarrow> Inr a
      | None \<Rightarrow> Inl (worker_agent, roster))"

datatype BaselineProof = Proven | Refuted "string list" | InconclusiveNoApi | InconclusiveNoEvidence

fun blocks :: "BaselineProof \<Rightarrow> bool" where
  "blocks (Refuted _) = True"
| "blocks InconclusiveNoEvidence = True"
| "blocks _ = False"

definition looks_like_build_failure :: "string \<Rightarrow> bool" where
  "looks_like_build_failure out \<longleftrightarrow>
     contains_sub out ''error[E'' \<or> contains_sub out ''error: could not compile''
     \<or> contains_sub out ''error: aborting'' \<or> contains_sub out ''cannot find function''
     \<or> contains_sub out ''unresolved import''"

definition classify_baseline_proof :: "string list \<Rightarrow> string \<Rightarrow> TestRun \<Rightarrow> BaselineProof" where
  "classify_baseline_proof declared baseline_output baseline_run =
     (if declared = [] then InconclusiveNoEvidence
      else
        (let already_green = filter (\<lambda>name. list_ex (\<lambda>(_, oc). oc = Passed)
               (name_candidates baseline_run name)) declared
         in if already_green \<noteq> [] then Refuted already_green
            else
              (let ran = filter (\<lambda>name. name_candidates baseline_run name \<noteq> []) declared in
               if length ran = length declared then Proven
               else if looks_like_build_failure baseline_output then InconclusiveNoApi
               else InconclusiveNoEvidence)))"

definition build_validator_prompt :: "string \<Rightarrow> string \<Rightarrow> string \<Rightarrow> string" where
  "build_validator_prompt ct test_file_path cmd =
     (let nl = [nl_char]; nl2 = [nl_char, nl_char] in
      ''You are writing tests for code you cannot see, and that is deliberate.'' @ nl2
      @ ''The implementation is NOT on this machine. Do not look for it. There is no source tree ''
      @ ''here to read, and time spent searching is time not spent writing tests.'' @ nl2
      @ ''Write tests from the CONTRACT below and from nothing else. The contract states the ''
      @ ''exact names and signatures the implementation provides, so your tests will compile ''
      @ ''against it. Test the BEHAVIOUR the contract promises, including the edges it names and ''
      @ ''the failure cases it names.'' @ nl2
      @ ''Write them to exactly this path, and write nothing else anywhere:'' @ nl2 @ ''  '' @ test_file_path @ nl2
      @ ''They will be run with:'' @ nl2 @ ''  '' @ cmd @ nl2
      @ ''A test that passes against a wrong implementation is worthless, so do not write tests ''
      @ ''that merely assert the code runs. Assert what the contract says the answers are.'' @ nl2
      @ ''----- BEGIN CONTRACT -----'' @ nl @ ct @ nl @ ''----- END CONTRACT -----'')"

record BlindReport =
  validator_agent :: string
  blind_tests_passed :: bool
  baseline_proof :: BaselineProof
  report_newly_failing :: "string list"
  report_deleted :: "string list"
  blindness_violations :: "string list"

definition accepted :: "BlindReport \<Rightarrow> bool" where
  "accepted r \<longleftrightarrow> blindness_violations r = [] \<and> blind_tests_passed r \<and> \<not> blocks (baseline_proof r)
     \<and> report_newly_failing r = [] \<and> report_deleted r = []"

text \<open>The reasons, in the order they are tried; the code formats each as a paragraph.\<close>

datatype rejection = NotBlind string "string list" | TestsFailed string
  | AlreadyGreen nat string "string list" | NoEvidence string
  | DeletedTests nat "string list" | NewlyFailing nat "string list"

definition why_rejected :: "BlindReport \<Rightarrow> rejection option" where
  "why_rejected r =
     (if blindness_violations r \<noteq> [] then Some (NotBlind (validator_agent r) (blindness_violations r))
      else if \<not> blind_tests_passed r then Some (TestsFailed (validator_agent r))
      else case baseline_proof r of
          Refuted green \<Rightarrow> Some (AlreadyGreen (length green) (validator_agent r) green)
        | InconclusiveNoEvidence \<Rightarrow> Some (NoEvidence (validator_agent r))
        | _ \<Rightarrow>
          if report_deleted r \<noteq> [] then Some (DeletedTests (length (report_deleted r)) (report_deleted r))
          else if report_newly_failing r \<noteq> []
          then Some (NewlyFailing (length (report_newly_failing r)) (report_newly_failing r))
          else None)"

subsection \<open>The procedure\<close>

record BlindValidationRequest =
  impl_worktree :: path
  validator_dir :: path
  contract :: string
  test_file_rel :: path
  test_command :: string
  worker_agent :: string
  roster :: "string list"
  baseline :: TestRun

text \<open>What the procedure meets: \<open>canonicalize\<close>, whether the validator's directory has entries, the
  outcome of each file operation (an error message, or success), the agent, the test file it leaves
  behind, and the two test runs.\<close>

record blind_world =
  canonicalize :: "path \<Rightarrow> path option"
  dir_not_empty :: bool
  mk_validator_dir :: "string option"
  stage_contract :: "string option"
  mk_test_dir :: "string option"
  run_agent :: "string \<Rightarrow> string \<Rightarrow> path \<Rightarrow> string + string option list"
  read_tests :: "string + string"
  mk_dest_dir :: "string option"
  copy_tests :: "string option"
  run_tests :: "string + string"
  run_tests_at_baseline :: "string + string option"

datatype blind_step = AgentRan string | TestsCopied | TestsRan | BaselineRan

datatype blind_error = NoValidator "string" "string list" | Overlap path path | DirNotEmpty path
  | FileOp string | AgentError string | NoTestsWritten string string | EmptyTestFile string
  | RunError string

fun canonical_up :: "(path \<Rightarrow> path option) \<Rightarrow> path \<Rightarrow> string list \<Rightarrow> nat \<Rightarrow> path option" where
  "canonical_up canon current sfx 0 = None"
| "canonical_up canon current sfx (Suc k) =
     (case pop current of
        None \<Rightarrow> None
      | Some parent \<Rightarrow>
        (case file_name current of
           None \<Rightarrow> None
         | Some name \<Rightarrow>
           (let sfx' = sfx @ [name] in
            case canon parent of
              Some c \<Rightarrow> Some (c @ map NormalComp (rev sfx'))
            | None \<Rightarrow> canonical_up canon parent sfx' k)))"

text \<open>Each round of the loop removes one component, so the number of components is enough fuel.\<close>

definition canonical :: "(path \<Rightarrow> path option) \<Rightarrow> path \<Rightarrow> path" where
  "canonical canon p =
     (case canon p of
        Some c \<Rightarrow> c
      | None \<Rightarrow> (case canonical_up canon p [] (Suc (length p)) of Some c \<Rightarrow> c | None \<Rightarrow> p))"

definition path_starts_with :: "path \<Rightarrow> path \<Rightarrow> bool" where
  "path_starts_with p q \<longleftrightarrow> take (length q) p = q"

definition overlap :: "path \<Rightarrow> path \<Rightarrow> bool" where
  "overlap v i \<longleftrightarrow> v = i \<or> path_starts_with v i \<or> path_starts_with i v"

definition judge_tests ::
  "blind_world \<Rightarrow> BlindValidationRequest \<Rightarrow> string \<Rightarrow> string
     \<Rightarrow> blind_step list \<times> (blind_error + BlindReport)"
where
  "judge_tests W req validator written =
     (let declared = declared_test_names written in
      case run_tests W of
        Inl e \<Rightarrow> ([TestsRan], Inl (RunError e))
      | Inr out \<Rightarrow>
        (let after = parse_cargo_test_output out; passed = declared_tests_all_passed declared after in
         case run_tests_at_baseline W of
           Inl e \<Rightarrow> ([TestsRan, BaselineRan], Inl (RunError e))
         | Inr base \<Rightarrow>
           ([TestsRan, BaselineRan], Inr
             \<lparr>validator_agent = validator, blind_tests_passed = passed,
              baseline_proof = (case base of
                  Some tx \<Rightarrow> classify_baseline_proof declared tx (parse_cargo_test_output tx)
                | None \<Rightarrow> InconclusiveNoEvidence),
              report_newly_failing = newly_failing (baseline req) after,
              report_deleted = deleted_tests (baseline req) after,
              blindness_violations = []\<rparr>)))"

definition after_agent ::
  "blind_world \<Rightarrow> BlindValidationRequest \<Rightarrow> string \<Rightarrow> path \<Rightarrow> string option list
     \<Rightarrow> blind_step list \<times> (blind_error + BlindReport)"
where
  "after_agent W req validator val_canon tool_calls =
     (let violations = reads_outside_allowed_root tool_calls (show_path val_canon) in
      if violations \<noteq> [] then
        ([], Inr \<lparr>validator_agent = validator, blind_tests_passed = False,
           baseline_proof = InconclusiveNoEvidence, report_newly_failing = [], report_deleted = [],
           blindness_violations = violations\<rparr>)
      else case read_tests W of
          Inl e \<Rightarrow> ([], Inl (NoTestsWritten validator e))
        | Inr written \<Rightarrow>
          if trim written = [] then ([], Inl (EmptyTestFile validator))
          else (case (mk_dest_dir W, copy_tests W) of
              (Some e, _) \<Rightarrow> ([], Inl (FileOp e))
            | (None, Some e) \<Rightarrow> ([], Inl (FileOp e))
            | (None, None) \<Rightarrow>
              (let (steps, res) = judge_tests W req validator written in (TestsCopied # steps, res))))"

definition run_blind_validation ::
  "blind_world \<Rightarrow> BlindValidationRequest \<Rightarrow> blind_step list \<times> (blind_error + BlindReport)"
where
  "run_blind_validation W req =
     (case pick_validator (worker_agent req) (roster req) of
        Inl (w, r) \<Rightarrow> ([], Inl (NoValidator w r))
      | Inr validator \<Rightarrow>
        (let impl_canon = canonical (canonicalize W) (impl_worktree req);
             val_canon = canonical (canonicalize W) (validator_dir req)
         in if overlap val_canon impl_canon then ([], Inl (Overlap val_canon impl_canon))
            else if dir_not_empty W then ([], Inl (DirNotEmpty (validator_dir req)))
            else case (mk_validator_dir W, stage_contract W, mk_test_dir W) of
                (Some e, _, _) \<Rightarrow> ([], Inl (FileOp e))
              | (None, Some e, _) \<Rightarrow> ([], Inl (FileOp e))
              | (None, None, Some e) \<Rightarrow> ([], Inl (FileOp e))
              | (None, None, None) \<Rightarrow>
                (let prompt = build_validator_prompt (contract req)
                       (show_path (validator_dir req @ test_file_rel req)) (test_command req)
                 in case run_agent W validator prompt (validator_dir req) of
                      Inl e \<Rightarrow> ([AgentRan validator], Inl (AgentError e))
                    | Inr tool_calls \<Rightarrow>
                      (let (steps, res) = after_agent W req validator val_canon tool_calls
                       in (AgentRan validator # steps, res)))))"

subsection \<open>Reports\<close>

text \<open>A report is accepted exactly when there is no reason against it: the status and the
  explanation cannot disagree.\<close>

theorem accepted_iff_no_reason: "accepted r \<longleftrightarrow> why_rejected r = None"
  by (cases "baseline_proof r") (auto simp: accepted_def why_rejected_def)

definition green_in :: "TestRun \<Rightarrow> string \<Rightarrow> bool" where
  "green_in run name \<longleftrightarrow> list_ex (\<lambda>(_, oc). oc = Passed) (name_candidates run name)"

definition ran_in :: "TestRun \<Rightarrow> string \<Rightarrow> bool" where
  "ran_in run name \<longleftrightarrow> name_candidates run name \<noteq> []"

lemma classify_baseline_eq:
  "classify_baseline_proof declared out run =
     (if declared = [] then InconclusiveNoEvidence
      else if list_ex (green_in run) declared then Refuted (filter (green_in run) declared)
      else if list_all (ran_in run) declared then Proven
      else if looks_like_build_failure out then InconclusiveNoApi
      else InconclusiveNoEvidence)"
proof -
  have g: "(\<lambda>name. list_ex (\<lambda>(_, oc). oc = Passed) (name_candidates run name)) = green_in run"
    by (simp add: green_in_def fun_eq_iff)
  have r: "(\<lambda>name. name_candidates run name \<noteq> []) = ran_in run" by (simp add: ran_in_def fun_eq_iff)
  show ?thesis
    unfolding classify_baseline_proof_def Let_def g r filter_nonempty_iff length_filter_all ..
qed

text \<open>What the run before the change proves, decided in this order for a non-empty set of declared
  tests: refuted by the tests that were already green, whatever else happened; proven when every
  declared test ran and none was green; no evidence either way otherwise, which blocks unless the
  compiler said it could not build. An empty set of declared tests always blocks.\<close>

theorem classify_baseline_decides:
  "(classify_baseline_proof declared out run = Proven \<longleftrightarrow>
      declared \<noteq> [] \<and> list_all (\<lambda>n. ran_in run n \<and> \<not> green_in run n) declared)
   \<and> (classify_baseline_proof declared out run = Refuted g \<longleftrightarrow>
      g \<noteq> [] \<and> g = filter (green_in run) declared)
   \<and> (classify_baseline_proof declared out run = InconclusiveNoApi \<longleftrightarrow>
      looks_like_build_failure out \<and> list_ex (\<lambda>n. \<not> ran_in run n) declared
      \<and> filter (green_in run) declared = [])"
proof (cases "declared = []")
  case True
  then show ?thesis by (simp add: classify_baseline_eq)
next
  case False
  have ex: "list_ex P xs \<longleftrightarrow> filter P xs \<noteq> []" and nall: "\<not> list_all P xs \<longleftrightarrow> list_ex (\<lambda>x. \<not> P x) xs"
    and all: "list_all (\<lambda>x. Q x \<and> \<not> P x) xs \<longleftrightarrow> list_all Q xs \<and> filter P xs = []"
    for P Q and xs :: "string list"
    by (auto simp: filter_empty_conv list_ex_iff list_all_iff)
  show ?thesis
    unfolding classify_baseline_eq all ex [of "green_in run"] nall [symmetric] using False by auto
qed

subsection \<open>The whole procedure\<close>

definition blind_order :: "string \<Rightarrow> blind_step list" where
  "blind_order v = [AgentRan v, TestsCopied, TestsRan, BaselineRan]"

lemma pick_validator_Inr:
  "pick_validator w rs = Inr v \<Longrightarrow>
     v \<noteq> [] \<and> v \<noteq> to_lowercase (trim w) \<and> v \<in> set (map (\<lambda>a. to_lowercase (trim a)) rs)"
  by (auto simp: pick_validator_def Let_def dest!: find_SomeD split: option.splits)

text \<open>The way into the agent's run, and the ways out of it.\<close>

lemma run_blind_Inr:
  assumes "run_blind_validation W req = (steps, Inr r)"
  obtains v calls steps' where "pick_validator (worker_agent req) (roster req) = Inr v"
    "\<not> overlap (canonical (canonicalize W) (validator_dir req)) (canonical (canonicalize W) (impl_worktree req))"
    "after_agent W req v (canonical (canonicalize W) (validator_dir req)) calls = (steps', Inr r)"
    "steps = AgentRan v # steps'" "\<not> dir_not_empty W"
    "\<exists>prompt. run_agent W v prompt (validator_dir req) = Inr calls"
  using assms
  by (auto simp: run_blind_validation_def Let_def split: sum.splits if_splits option.splits prod.splits)

lemma after_agent_Inr:
  assumes "after_agent W req v vc calls = (steps, Inr r)"
  shows "(blindness_violations r = reads_outside_allowed_root calls (show_path vc) \<and> validator_agent r = v)
    \<and> (if blindness_violations r \<noteq> [] then steps = [] \<and> \<not> blind_tests_passed r
       else \<exists>written steps'. read_tests W = Inr written \<and> judge_tests W req v written = (steps', Inr r)
          \<and> steps = TestsCopied # steps')"
proof (cases "reads_outside_allowed_root calls (show_path vc) = []")
  case True
  from assms obtain written steps' where "read_tests W = Inr written"
    and j: "judge_tests W req v written = (steps', Inr r)" and "steps = TestsCopied # steps'"
    by (auto simp: after_agent_def Let_def True split: sum.splits if_splits option.splits prod.splits)
  moreover have "blindness_violations r = []" "validator_agent r = v"
    using j by (auto simp: judge_tests_def Let_def split: sum.splits)
  ultimately show ?thesis using True by auto
qed (use assms in \<open>auto simp: after_agent_def Let_def\<close>)

text \<open>A sighted validator gives no verdict. When the tool calls name a path outside the validator's
  directory, the run stops there: nothing is copied, no test is run, and the report is rejected.
  Every other report comes after all four steps in their order.\<close>

theorem sighted_run_stops:
  assumes "run_blind_validation W req = (steps, Inr r)"
  shows "if blindness_violations r = [] then steps = blind_order (validator_agent r)
    else steps = [AgentRan (validator_agent r)] \<and> \<not> accepted r"
  using assms
proof (rule run_blind_Inr)
  fix v calls steps'
  assume a: "after_agent W req v (canonical (canonicalize W) (validator_dir req)) calls = (steps', Inr r)"
    and s: "steps = AgentRan v # steps'"
  show ?thesis
  proof (cases "blindness_violations r = []")
    case True
    then obtain written steps'' where "judge_tests W req v written = (steps'', Inr r)"
      and "steps' = TestsCopied # steps''" and "validator_agent r = v"
      using after_agent_Inr [OF a] by auto
    then show ?thesis
      using True s by (auto simp: judge_tests_def Let_def blind_order_def split: sum.splits)
  next
    case False
    then show ?thesis using after_agent_Inr [OF a] s by (simp add: accepted_def)
  qed
qed

lemma judge_tests_Inr:
  assumes "judge_tests W req v written = (steps, Inr r)"
  obtains out base where "run_tests W = Inr out" "run_tests_at_baseline W = Inr base"
    "blind_tests_passed r = declared_tests_all_passed (declared_test_names written) (parse_cargo_test_output out)"
    "report_newly_failing r = newly_failing (baseline req) (parse_cargo_test_output out)"
    "report_deleted r = deleted_tests (baseline req) (parse_cargo_test_output out)"
    "baseline_proof r = (case base of
        Some tx \<Rightarrow> classify_baseline_proof (declared_test_names written) tx (parse_cargo_test_output tx)
      | None \<Rightarrow> InconclusiveNoEvidence)"
  using assms by (auto simp: judge_tests_def Let_def split: sum.splits)

lemma newly_failing_Nil:
  "newly_failing base after = [] \<longleftrightarrow> (\<forall>name. (name, Passed) \<in> set base \<longrightarrow> bt_get after name = Some Passed)"
  by (auto simp: newly_failing_def filter_empty_conv)

lemma deleted_tests_Nil: "deleted_tests base after = [] \<longleftrightarrow> fst ` set base \<subseteq> dom (bt_get after)"
  by (auto simp: deleted_tests_def filter_empty_conv bt_contains_key_def bt_keys_def)

lemma not_blocks_not_green:
  "\<not> blocks (classify_baseline_proof declared tx run) \<Longrightarrow> list_all (\<lambda>n. \<not> green_in run n) declared"
  by (auto simp: classify_baseline_eq list_ex_iff list_all_iff split: if_splits)

text \<open>C9: what an accepted run establishes. The validator is not the worker; its directory and the
  worktree are apart and no tool call named a path outside it; the file it wrote declares at least one
  test, every test of the run that answers to a declared name passed after the change, and none was
  green before it; and every test of the baseline is still there, the passing ones still passing.\<close>

theorem accepted_run_establishes:
  assumes run: "run_blind_validation W req = (steps, Inr r)" and acc: "accepted r"
  shows "\<exists>v calls written out tx prompt.
      v = validator_agent r \<and> v \<noteq> to_lowercase (trim (worker_agent req))
      \<and> \<not> overlap (canonical (canonicalize W) (validator_dir req)) (canonical (canonicalize W) (impl_worktree req))
      \<and> run_agent W v prompt (validator_dir req) = Inr calls
      \<and> reads_outside_allowed_root calls (show_path (canonical (canonicalize W) (validator_dir req))) = []
      \<and> read_tests W = Inr written \<and> run_tests W = Inr out \<and> run_tests_at_baseline W = Inr (Some tx)
      \<and> declared_test_names written \<noteq> []
      \<and> list_all (\<lambda>n. ran_in (parse_cargo_test_output out) n
            \<and> list_all (\<lambda>(_, oc). oc = Passed) (name_candidates (parse_cargo_test_output out) n)
            \<and> \<not> green_in (parse_cargo_test_output tx) n) (declared_test_names written)
      \<and> (\<forall>name. (name, Passed) \<in> set (baseline req) \<longrightarrow>
            bt_get (parse_cargo_test_output out) name = Some Passed)
      \<and> fst ` set (baseline req) \<subseteq> dom (bt_get (parse_cargo_test_output out))"
  using run
proof (rule run_blind_Inr)
  fix v calls steps'
  let ?vc = "canonical (canonicalize W) (validator_dir req)"
  assume pick: "pick_validator (worker_agent req) (roster req) = Inr v"
    and apart: "\<not> overlap ?vc (canonical (canonicalize W) (impl_worktree req))"
    and a: "after_agent W req v ?vc calls = (steps', Inr r)"
    and agent: "\<exists>prompt. run_agent W v prompt (validator_dir req) = Inr calls"
  have viol: "blindness_violations r = []" using acc by (simp add: accepted_def)
  then obtain written steps'' where w: "read_tests W = Inr written"
    and j: "judge_tests W req v written = (steps'', Inr r)" and v: "validator_agent r = v"
    and blind: "reads_outside_allowed_root calls (show_path ?vc) = []"
    using after_agent_Inr [OF a] by auto
  from j show ?thesis
  proof (rule judge_tests_Inr)
    fix out base
    let ?after = "parse_cargo_test_output out"
    assume out: "run_tests W = Inr out" and base: "run_tests_at_baseline W = Inr base"
      and passed: "blind_tests_passed r = declared_tests_all_passed (declared_test_names written) ?after"
      and nf: "report_newly_failing r = newly_failing (baseline req) ?after"
      and del: "report_deleted r = deleted_tests (baseline req) ?after"
      and bp: "baseline_proof r = (case base of
          Some tx \<Rightarrow> classify_baseline_proof (declared_test_names written) tx (parse_cargo_test_output tx)
        | None \<Rightarrow> InconclusiveNoEvidence)"
    have nb: "\<not> blocks (baseline_proof r)" using acc by (simp add: accepted_def)
    then obtain tx where tx: "base = Some tx" using bp by (cases base) auto
    have green: "list_all (\<lambda>n. \<not> green_in (parse_cargo_test_output tx) n) (declared_test_names written)"
      using nb bp tx not_blocks_not_green by simp
    have all: "declared_tests_all_passed (declared_test_names written) ?after"
      using acc passed by (simp add: accepted_def)
    have nf0: "newly_failing (baseline req) ?after = []" and del0: "deleted_tests (baseline req) ?after = []"
      using acc nf del by (simp_all add: accepted_def)
    have ne: "declared_test_names written \<noteq> []"
      and names: "list_all (\<lambda>n. ran_in ?after n
            \<and> list_all (\<lambda>(_, oc). oc = Passed) (name_candidates ?after n)
            \<and> \<not> green_in (parse_cargo_test_output tx) n) (declared_test_names written)"
      using all green by (auto simp: declared_tests_all_passed_def ran_in_def list_all_iff)
    obtain prompt where prompt: "run_agent W v prompt (validator_dir req) = Inr calls" using agent by blast
    have v': "v = validator_agent r" and other: "v \<noteq> to_lowercase (trim (worker_agent req))"
      using v pick_validator_Inr [OF pick] by simp_all
    have tx': "run_tests_at_baseline W = Inr (Some tx)" using base tx by simp
    have kept: "\<forall>name. (name, Passed) \<in> set (baseline req) \<longrightarrow> bt_get ?after name = Some Passed"
      using nf0 [unfolded newly_failing_Nil] by simp
    have there: "fst ` set (baseline req) \<subseteq> dom (bt_get ?after)"
      using del0 [unfolded deleted_tests_Nil] by simp
    show ?thesis
      by (rule exI [of _ v], rule exI [of _ calls], rule exI [of _ written], rule exI [of _ out],
          rule exI [of _ tx], rule exI [of _ prompt])
        (intro conjI v' other apart prompt blind w out tx' ne names kept there)
  qed
qed

subsection \<open>A run that is accepted\<close>

definition ex_blind_request :: BlindValidationRequest where
  "ex_blind_request = \<lparr>impl_worktree = components ''/w/impl'', validator_dir = components ''/w/val'',
     contract = ''pub fn f() -> u8'', test_file_rel = components ''tests/blind.rs'',
     test_command = ''cargo test'', worker_agent = ''codex'', roster = [''Codex'', ''grok''],
     baseline = [(''old'', Passed)]\<rparr>"

definition ex_blind_world :: blind_world where
  "ex_blind_world = \<lparr>canonicalize = (\<lambda>p. Some p), dir_not_empty = False, mk_validator_dir = None,
     stage_contract = None, mk_test_dir = None,
     run_agent = (\<lambda>_ _ _. Inr [Some ''cat /w/val/CONTRACT.md'']),
     read_tests = Inr ''#[test] fn t() {}'', mk_dest_dir = None, copy_tests = None,
     run_tests = Inr (''test old ... ok'' @ [nl_char] @ ''test blind::t ... ok''),
     run_tests_at_baseline = Inr (Some ''test blind::t ... FAILED'')\<rparr>"

definition ex_blind_report :: BlindReport where
  "ex_blind_report = \<lparr>validator_agent = ''grok'', blind_tests_passed = True, baseline_proof = Proven,
     report_newly_failing = [], report_deleted = [], blindness_violations = []\<rparr>"

lemma ex_blind_run:
  "run_blind_validation ex_blind_world ex_blind_request = (blind_order ''grok'', Inr ex_blind_report)"
  by code_simp

theorem accepted_run_establishes_witness:
  "\<exists>v. v = validator_agent ex_blind_report \<and> v \<noteq> to_lowercase (trim (worker_agent ex_blind_request))"
proof -
  have "accepted ex_blind_report" by code_simp
  from accepted_run_establishes [OF ex_blind_run this] show ?thesis by blast
qed

theorem sighted_run_stops_witness:
  "fst (run_blind_validation ex_blind_world ex_blind_request) = blind_order ''grok''"
  using sighted_run_stops [OF ex_blind_run] ex_blind_run by (simp add: ex_blind_report_def)

text \<open>Names are compared without the alias table: an agent may validate its own work under its other
  name.\<close>

lemma pick_validator_ignores_aliases:
  "pick_validator ''agy'' [''gemini''] = Inr ''gemini''"
  "normalize_agent_name ''agy'' = normalize_agent_name ''gemini''"
  by code_simp+

end
