(* ===== verification/Abe_Contract.thy ===== *)
theory Abe_Contract
  imports Rust_Text
begin

text \<open>
  The task contract of the build engine and what is decided with it: its validation
  (\<open>shared-types/src/abe.rs\<close>), the check of a worker's commit after the worker has exited
  (\<open>triumvirate/src/abe/post_exit_validator.rs\<close>), the gate between two waves
  (\<open>triumvirate/src/abe/wave_gate.rs\<close>), the retry policy
  (\<open>triumvirate/src/abe/failure_handler.rs\<close>), and the diagnosis and reporting helpers of the
  dispatcher (\<open>mcp-tools/src/abe.rs\<close>). What git, the shell, the file system and \<open>regex_lite\<close> answer
  is the environment \<open>commit_env\<close>.
\<close>

subsection \<open>The contract\<close>

datatype FilePolicy = DefaultDeny

record ContractFields =
  cf_task_id :: string
  cf_req_ids :: "string list"
  cf_wave :: u32
  cf_file_policy :: FilePolicy
  cf_allowed_files :: "string list"
  cf_forbidden_files :: "string list"
  cf_allowed_commands :: "string list list"
  cf_forbidden_commands :: "string list list"
  cf_commit_format :: string
  cf_test_command :: string
  cf_task_timeout_sec :: u64
  cf_done_when :: string
  cf_reality_test :: string
  cf_sandbox_permissions :: "string list option"

record ContractValidationIssue =
  issue_field :: string
  issue_message :: string

abbreviation issue_if :: "bool \<Rightarrow> string \<Rightarrow> string \<Rightarrow> ContractValidationIssue list" where
  "issue_if b f m \<equiv> (if b then [\<lparr>issue_field = f, issue_message = m\<rparr>] else [])"

abbreviation blank :: "string \<Rightarrow> bool" where
  "blank s \<equiv> trim s = []"

definition validate_contract :: "ContractFields \<Rightarrow> ContractValidationIssue list + unit" where
  "validate_contract c =
     (let issues =
        issue_if (blank (cf_task_id c)) ''task_id'' ''is required''
        @ issue_if (cf_req_ids c = []) ''req_ids'' ''must contain at least one requirement id''
        @ issue_if (cf_allowed_files c = []) ''allowed_files'' ''must include at least one writeable file''
        @ issue_if (cf_allowed_commands c = []) ''allowed_commands''
            ''must include at least one allowed command prefix''
        @ issue_if (blank (cf_commit_format c)) ''commit_format'' ''is required''
        @ issue_if (blank (cf_test_command c)) ''test_command'' ''is required''
        @ issue_if (cf_task_timeout_sec c = 0) ''task_timeout_sec'' ''must be > 0''
        @ issue_if (blank (cf_done_when c)) ''done_when'' ''is required''
        @ issue_if (blank (cf_reality_test c)) ''reality_test'' ''is required''
      in if issues = [] then Inr () else Inl issues)"

definition show_contract_error :: "ContractValidationIssue list \<Rightarrow> string" where
  "show_contract_error issues =
     ''invalid contract fields: ''
       @ join ''; '' (map (\<lambda>i. issue_field i @ '': '' @ issue_message i) issues)"

text \<open>\<open>from_json\<close> is \<open>serde_json::from_str\<close> at the contract type.\<close>

definition parse_and_validate_contract ::
  "(string \<Rightarrow> string + ContractFields) \<Rightarrow> string \<Rightarrow> ContractValidationIssue list + ContractFields"
where
  "parse_and_validate_contract from_json raw =
     (case from_json raw of
        Inl err \<Rightarrow> Inl [\<lparr>issue_field = ''contract'', issue_message = ''invalid json: '' @ err\<rparr>]
      | Inr c \<Rightarrow> (case validate_contract c of Inl is \<Rightarrow> Inl is | Inr _ \<Rightarrow> Inr c))"

subsection \<open>post_exit_validator.rs\<close>

datatype test_outcome = TestExited "int option" bool string | TestSpawnError string

record commit_env =
  git_diff_names :: "string \<Rightarrow> string option"
  git_log_message :: "string option"
  read_text :: "string \<Rightarrow> string option"
  run_shell :: "string \<Rightarrow> test_outcome"
  regex_match :: "string \<Rightarrow> (string \<Rightarrow> bool) option"

record ValidationResult =
  passed :: bool
  violations :: "string list"

definition get_modified_files :: "commit_env \<Rightarrow> string \<Rightarrow> string list" where
  "get_modified_files env start_sha =
     (case git_diff_names env start_sha of
        None \<Rightarrow> []
      | Some out \<Rightarrow> filter (\<lambda>l. \<not> blank l) (lines out))"

definition get_commit_message :: "commit_env \<Rightarrow> string" where
  "get_commit_message env = (case git_log_message env of None \<Rightarrow> [] | Some out \<Rightarrow> trim out)"

definition first_line :: "string \<Rightarrow> string" where
  "first_line s = (case lines s of [] \<Rightarrow> [] | l # _ \<Rightarrow> l)"

definition commit_message_matches_format ::
  "(string \<Rightarrow> (string \<Rightarrow> bool) option) \<Rightarrow> string \<Rightarrow> string \<Rightarrow> bool"
where
  "commit_message_matches_format regex msg fmt =
     (if first_line msg = fmt then True
      else if \<not> starts_with fmt ''^'' \<and> \<not> ends_with fmt ''$'' then False
      else case regex fmt of None \<Rightarrow> False | Some is_match \<Rightarrow> is_match msg)"

definition stub_patterns :: "string list" where
  "stub_patterns =
     [''todo!()'', ''unimplemented!()'', ''TODO'', ''FIXME'', ''XXX'', ''HACK'',
      ''NotImplementedError'', ''placeholder'', ''not implemented'', ''implement me'',
      ''// pending'', ''// stub'']"

definition scope_violations :: "ContractFields \<Rightarrow> string list \<Rightarrow> string list" where
  "scope_violations c modified =
     map (\<lambda>f. ''FILE_SCOPE: '' @ [CHR 0x27] @ f @ [CHR 0x27] @ '' modified but not in allowed_files ''
                @ debug_list (cf_allowed_files c))
       (filter (\<lambda>f. f \<notin> set (cf_allowed_files c)) modified)"

definition format_violations :: "commit_env \<Rightarrow> ContractFields \<Rightarrow> string list" where
  "format_violations env c =
     (let msg = get_commit_message env in
      if cf_commit_format c \<noteq> []
         \<and> \<not> commit_message_matches_format (regex_match env) msg (cf_commit_format c)
      then [''COMMIT_FORMAT: message '' @ [CHR 0x27] @ first_line msg @ [CHR 0x27]
              @ '' does not match format '' @ [CHR 0x27] @ cf_commit_format c @ [CHR 0x27]]
      else [])"

definition stub_violations :: "commit_env \<Rightarrow> string list \<Rightarrow> string list" where
  "stub_violations env modified =
     concat (map (\<lambda>f. case read_text env f of
         None \<Rightarrow> []
       | Some content \<Rightarrow>
           map (\<lambda>p. ''STUB_MARKER: '' @ [CHR 0x27] @ p @ [CHR 0x27] @ '' found in '' @ f)
             (filter (contains_sub content) stub_patterns)) modified)"

definition test_violations :: "commit_env \<Rightarrow> ContractFields \<Rightarrow> string list" where
  "test_violations env c =
     (let cmd = cf_test_command c in
      if cmd = [] then []
      else case run_shell env cmd of
          TestExited code success stderr \<Rightarrow>
            if success then []
            else [''TEST_FAILED: '' @ [CHR 0x27] @ cmd @ [CHR 0x27] @ '' exited ''
                    @ show_int (case code of Some n \<Rightarrow> n | None \<Rightarrow> - 1) @ '': '' @ take 200 stderr]
        | TestSpawnError e \<Rightarrow>
            [''TEST_ERROR: failed to run '' @ [CHR 0x27] @ cmd @ [CHR 0x27] @ '': '' @ e])"

definition validate_commit :: "commit_env \<Rightarrow> ContractFields \<Rightarrow> string \<Rightarrow> ValidationResult" where
  "validate_commit env c start_sha =
     (let modified = get_modified_files env start_sha;
          vs = scope_violations c modified @ format_violations env c
                 @ stub_violations env modified @ test_violations env c
      in \<lparr>passed = (vs = []), violations = vs\<rparr>)"

definition validation_result_label :: "ValidationResult \<Rightarrow> string" where
  "validation_result_label r =
     (if passed r then ''pass''
      else if list_ex (\<lambda>v. starts_with v ''FILE_SCOPE:'') (violations r) then ''fail_scope''
      else if list_ex (\<lambda>v. starts_with v ''COMMIT_FORMAT:'') (violations r) then ''fail_format''
      else if list_ex (\<lambda>v. starts_with v ''STUB_MARKER:'') (violations r) then ''fail_stub''
      else if list_ex (\<lambda>v. starts_with v ''TEST_FAILED:'' \<or> starts_with v ''TEST_ERROR:'') (violations r)
        then ''fail_test''
      else ''fail_scope'')"

subsection \<open>failure_handler.rs\<close>

datatype FailureClass = WorkerError | ContractError | OrchestratorBriefingError | EnvironmentError

record Classification =
  class_of :: FailureClass
  class_reason :: string

definition classify_failure :: "string \<Rightarrow> Classification" where
  "classify_failure log_text =
     (let lower = to_lowercase log_text; has = contains_sub lower in
      if has ''stub marker'' \<or> has ''test command failed'' \<or> has ''validation failed'' then
        \<lparr>class_of = WorkerError, class_reason = ''worker produced non-compliant output''\<rparr>
      else if has ''command not found'' \<or> has ''sandbox'' then
        \<lparr>class_of = EnvironmentError, class_reason = ''environment dependency or sandbox error''\<rparr>
      else if has ''blocked: write to'' \<or> has ''denied by contract'' then
        \<lparr>class_of = ContractError, class_reason = ''contract blocked required change''\<rparr>
      else if has ''orchestrator'' \<or> has ''briefing'' then
        \<lparr>class_of = OrchestratorBriefingError, class_reason = ''briefing quality issue''\<rparr>
      else
        \<lparr>class_of = OrchestratorBriefingError,
         class_reason = ''unclassified failure '' @ [CHR 0xE2, CHR 0x80, CHR 0x94]
           @ '' conservative default, send to Antigravity''\<rparr>)"

fun can_retry :: "FailureClass \<Rightarrow> u32 \<Rightarrow> u32 \<Rightarrow> bool" where
  "can_retry cls class_attempts total_attempts =
     (if total_attempts \<ge> 5 then False
      else case cls of
          WorkerError \<Rightarrow> class_attempts < 3
        | ContractError \<Rightarrow> class_attempts < 2
        | OrchestratorBriefingError \<Rightarrow> class_attempts < 2
        | EnvironmentError \<Rightarrow> False)"

fun failure_class_label :: "FailureClass \<Rightarrow> string" where
  "failure_class_label WorkerError = ''worker-error''"
| "failure_class_label ContractError = ''contract-error''"
| "failure_class_label OrchestratorBriefingError = ''orchestrator-briefing-error''"
| "failure_class_label EnvironmentError = ''environment-error''"

subsection \<open>wave_gate.rs\<close>

record WaveTask =
  wt_task_id :: string
  wt_allowed_files :: "string list"
  wt_validation_status :: string

fun insert_files :: "string set \<Rightarrow> string list \<Rightarrow> string + string set" where
  "insert_files seen [] = Inr seen"
| "insert_files seen (f # fs) =
     (if f \<in> seen then Inl (''overlapping allowed_files entry detected: '' @ f)
      else insert_files (insert f seen) fs)"

fun no_overlap_loop :: "string set \<Rightarrow> WaveTask list \<Rightarrow> string + unit" where
  "no_overlap_loop seen [] = Inr ()"
| "no_overlap_loop seen (t # ts) =
     (case insert_files seen (wt_allowed_files t) of
        Inl e \<Rightarrow> Inl e
      | Inr seen' \<Rightarrow> no_overlap_loop seen' ts)"

definition validate_no_overlap :: "WaveTask list \<Rightarrow> string + unit" where
  "validate_no_overlap ts = no_overlap_loop {} ts"

text \<open>\<open>sh\<close> is \<open>sh -lc\<close> on the test command, \<open>review\<close> the caller's review function.\<close>

definition gate_wave ::
  "(string \<Rightarrow> test_outcome) \<Rightarrow> (WaveTask list \<Rightarrow> string + string) \<Rightarrow> WaveTask list \<Rightarrow> string
     \<Rightarrow> string + string"
where
  "gate_wave sh review ts test_command =
     (case validate_no_overlap ts of
        Inl e \<Rightarrow> Inl e
      | Inr _ \<Rightarrow>
        if list_ex (\<lambda>t. \<not> eq_ignore_ascii_case (wt_validation_status t) ''PASS'') ts then
          Inl ''wave gate failed: at least one task is not PASS''
        else
          (case (if blank test_command then Inr ()
                 else case sh test_command of
                     TestSpawnError e \<Rightarrow> Inl e
                   | TestExited _ success stderr \<Rightarrow>
                       if success then Inr ()
                       else Inl (''wave gate test suite failed: '' @ trim stderr)) of
             Inl e \<Rightarrow> Inl e
           | Inr _ \<Rightarrow>
             (case review ts of
                Inl e \<Rightarrow> Inl e
              | Inr summary \<Rightarrow>
                  Inr (''wave_gate=PASS tasks='' @ show_nat (length ts) @ '' files=''
                     @ show_nat (sum_list (map (length \<circ> wt_allowed_files) ts))
                     @ '' review='' @ summary))))"

subsection \<open>Helpers of the dispatcher\<close>

definition build_sandbox_permission_args :: "string list option \<Rightarrow> string list" where
  "build_sandbox_permission_args perms =
     (case perms of
        None \<Rightarrow> []
      | Some l \<Rightarrow> concat (map (\<lambda>p. if p = ''network-full-access''
            then [''-c'', ''sandbox_workspace_write.network_access=true''] else []) l))"

datatype NoCommitDiagnosis = DirtyAllowedFiles "string list" | DirtyOtherFiles "string list"
  | NoChanges | GitStatusFailed

text \<open>\<open>line.get(3..)\<close> is defined when byte 3 starts a character or ends the line.\<close>

definition get_from_3 :: "string \<Rightarrow> string option" where
  "get_from_3 l = (if 3 \<le> length l \<and> is_char_boundary l 3 then Some (drop 3 l) else None)"

definition parse_porcelain_paths :: "string \<Rightarrow> string list" where
  "parse_porcelain_paths out =
     filter (\<lambda>s. s \<noteq> []) (map trim (List.map_filter get_from_3 (lines out)))"

definition diagnose_no_commit :: "string option \<Rightarrow> string list option \<Rightarrow> NoCommitDiagnosis" where
  "diagnose_no_commit status allowed =
     (case status of
        None \<Rightarrow> GitStatusFailed
      | Some out \<Rightarrow>
        (let dirty = parse_porcelain_paths out in
         if dirty = [] then NoChanges
         else case allowed of
             None \<Rightarrow> DirtyAllowedFiles dirty
           | Some a \<Rightarrow>
             (let in_allowed = filter (\<lambda>f. f \<in> set a) dirty in
              if in_allowed \<noteq> [] then DirtyAllowedFiles in_allowed else DirtyOtherFiles dirty)))"

fun no_commit_error_message :: "NoCommitDiagnosis \<Rightarrow> string" where
  "no_commit_error_message (DirtyAllowedFiles fs) =
     ''codex wrote files but did not commit '' @ [CHR 0xE2, CHR 0x80, CHR 0x94]
       @ '' uncommitted: '' @ join '', '' fs
       @ ''; run `bash .triumvirate/commit.sh '' @ [CHR 0x27] @ ''<msg>'' @ [CHR 0x27] @ ''` before exit''"
| "no_commit_error_message (DirtyOtherFiles fs) =
     ''codex modified files outside allowed_files and did not commit '' @ [CHR 0xE2, CHR 0x80, CHR 0x94]
       @ '' dirty paths: '' @ join '', '' fs"
| "no_commit_error_message NoChanges =
     ''codex exited cleanly without committing or writing any files '' @ [CHR 0xE2, CHR 0x80, CHR 0x94]
       @ '' agent produced no work''"
| "no_commit_error_message GitStatusFailed =
     ''codex process exited without creating a commit (git status check failed)''"

definition DISPATCH_COMPONENT_CAP :: nat where
  "DISPATCH_COMPONENT_CAP = 28 * 1024"

definition truncation_mark :: string where
  "truncation_mark = nl_char # ''...<truncated>''"

definition cap_component :: "string \<Rightarrow> nat \<Rightarrow> string" where
  "cap_component s limit =
     (if length s \<le> limit then s
      else take (floor_char_boundary s limit) s @ truncation_mark)"

abbreviation opt_list :: "'a option \<Rightarrow> 'a list" where
  "opt_list x \<equiv> (case x of Some s \<Rightarrow> [s] | None \<Rightarrow> [])"

definition build_dispatch_produced ::
  "string \<Rightarrow> string option \<Rightarrow> string list \<Rightarrow> string option \<Rightarrow> string option \<Rightarrow> int option
     \<Rightarrow> string option \<Rightarrow> string option \<Rightarrow> string"
where
  "build_dispatch_produced outcome sha fs diff diagnosis code error stdout =
     (let non_empty = (\<lambda>x. filter (\<lambda>s. s \<noteq> []) (opt_list x))
      in join [nl_char, nl_char]
        ([''[outcome] '' @ outcome]
         @ map (\<lambda>s. ''[commit] '' @ s) (non_empty sha)
         @ (if fs \<noteq> [] then [''[files] '' @ join '', '' (take 50 fs)] else [])
         @ map (\<lambda>c. ''[exit_code] '' @ show_int c) (opt_list code)
         @ map (\<lambda>e. ''[error]'' @ nl_char # e) (non_empty error)
         @ map (\<lambda>d. ''[diagnosis]'' @ nl_char # d) (non_empty diagnosis)
         @ map (\<lambda>d. ''[diff]'' @ nl_char # d) (opt_list diff)
         @ map (\<lambda>s. ''[stdout]'' @ nl_char # s) (opt_list stdout)))"

definition shell_single_quote :: "string \<Rightarrow> string" where
  "shell_single_quote value =
     [CHR 0x27] @ concat (map (\<lambda>c. if c = CHR 0x27 then [CHR 0x27, CHR 0x5C, CHR 0x27, CHR 0x27] else [c]) value)
       @ [CHR 0x27]"

definition commit_helper_files_block :: "string list \<Rightarrow> string" where
  "commit_helper_files_block allowed = join [nl_char] (map (\<lambda>f. ''  '' @ shell_single_quote f) allowed)"


subsection \<open>The contract and its validator\<close>

lemma validate_contract_ok_iff:
  "validate_contract c = Inr () \<longleftrightarrow>
     \<not> blank (cf_task_id c) \<and> cf_req_ids c \<noteq> [] \<and> cf_allowed_files c \<noteq> []
     \<and> cf_allowed_commands c \<noteq> [] \<and> \<not> blank (cf_commit_format c) \<and> \<not> blank (cf_test_command c)
     \<and> cf_task_timeout_sec c \<noteq> 0 \<and> \<not> blank (cf_done_when c) \<and> \<not> blank (cf_reality_test c)"
  by (simp add: validate_contract_def Let_def)

lemma parse_and_validate_sound:
  "parse_and_validate_contract from_json raw = Inr c \<Longrightarrow>
     from_json raw = Inr c \<and> validate_contract c = Inr ()"
  by (auto simp: parse_and_validate_contract_def split: sum.splits)

lemma stub_violations_Nil:
  "stub_violations env ms = [] \<longleftrightarrow>
     (\<forall>f \<in> set ms. \<forall>content. read_text env f = Some content \<longrightarrow>
        (\<forall>p \<in> set stub_patterns. \<not> contains_sub content p))"
  by (auto simp: stub_violations_def filter_empty_conv split: option.splits)

lemma scope_violations_Nil:
  "scope_violations c ms = [] \<longleftrightarrow> set ms \<subseteq> set (cf_allowed_files c)"
  by (auto simp: scope_violations_def filter_empty_conv)

lemma format_violations_Nil:
  "format_violations env c = [] \<longleftrightarrow>
     cf_commit_format c = []
     \<or> commit_message_matches_format (regex_match env) (get_commit_message env) (cf_commit_format c)"
  by (auto simp: format_violations_def Let_def)

lemma test_violations_Nil:
  "test_violations env c = [] \<longleftrightarrow>
     cf_test_command c = []
     \<or> (\<exists>code stderr. run_shell env (cf_test_command c) = TestExited code True stderr)"
  by (cases "run_shell env (cf_test_command c)") (auto simp: test_violations_def Let_def)

lemmas violations_Nil =
  scope_violations_Nil format_violations_Nil stub_violations_Nil test_violations_Nil

text \<open>C26: a commit passes the check behind the worker's back exactly when every file git reports as
  changed is in the contract's list, the message has the contract's format, no changed file that can
  be read holds a stub marker, and the test command succeeded; the metric label is \<open>pass\<close> in exactly
  that case.\<close>

theorem validate_commit_passes_iff:
  "(passed (validate_commit env c sha) \<longleftrightarrow>
      set (get_modified_files env sha) \<subseteq> set (cf_allowed_files c)
      \<and> (cf_commit_format c = []
          \<or> commit_message_matches_format (regex_match env) (get_commit_message env) (cf_commit_format c))
      \<and> list_all (\<lambda>f. case read_text env f of
             None \<Rightarrow> True
           | Some content \<Rightarrow> list_all (\<lambda>p. \<not> contains_sub content p) stub_patterns) (get_modified_files env sha)
      \<and> (cf_test_command c = []
          \<or> (\<exists>code stderr. run_shell env (cf_test_command c) = TestExited code True stderr)))
   \<and> (validation_result_label (validate_commit env c sha) = ''pass''
        \<longleftrightarrow> passed (validate_commit env c sha))"
proof -
  have "passed (validate_commit env c sha) \<longleftrightarrow>
      scope_violations c (get_modified_files env sha) = [] \<and> format_violations env c = []
      \<and> stub_violations env (get_modified_files env sha) = [] \<and> test_violations env c = []"
    by (simp add: validate_commit_def Let_def)
  moreover have "validation_result_label r = ''pass'' \<longleftrightarrow> passed r" for r
    by (simp add: validation_result_label_def)
  ultimately show ?thesis by (simp add: violations_Nil list_all_iff split: option.split)
qed

text \<open>When git cannot list the changes the scope and stub checks have nothing to look at.\<close>

lemma validate_commit_fails_open:
  assumes "git_diff_names env sha = None"
  shows "passed (validate_commit env c sha) \<longleftrightarrow>
      format_violations env c = [] \<and> test_violations env c = []"
  using assms
  by (simp add: validate_commit_def get_modified_files_def scope_violations_def stub_violations_def Let_def)

lemma violation_kinds:
  assumes "v \<in> set (violations (validate_commit env c sha))"
  shows "starts_with v ''FILE_SCOPE:'' \<or> starts_with v ''COMMIT_FORMAT:'' \<or> starts_with v ''STUB_MARKER:''
    \<or> starts_with v ''TEST_FAILED:'' \<or> starts_with v ''TEST_ERROR:''"
  using assms
  by (auto simp: validate_commit_def scope_violations_def format_violations_def stub_violations_def
      test_violations_def Let_def split: if_splits option.splits test_outcome.splits)

subsection \<open>Retries\<close>

lemma can_retry_bounded: "can_retry cls ca ta \<Longrightarrow> ta < 5 \<and> ca < 3 \<and> cls \<noteq> EnvironmentError"
  by (cases cls) (auto split: if_splits simp: word_less_nat_alt word_le_nat_alt not_le)

lemma can_retry_antimono:
  "can_retry cls ca ta \<Longrightarrow> ca' \<le> ca \<Longrightarrow> ta' \<le> ta \<Longrightarrow> can_retry cls ca' ta'"
  by (cases cls) (auto split: if_splits simp: word_less_nat_alt word_le_nat_alt not_le)

subsection \<open>The wave gate\<close>

lemma insert_files_ok:
  "insert_files seen fs = Inr seen' \<longleftrightarrow>
     distinct fs \<and> set fs \<inter> seen = {} \<and> seen' = seen \<union> set fs"
  by (induction seen fs rule: insert_files.induct) auto

lemma no_overlap_loop_ok:
  "no_overlap_loop seen ts = Inr () \<longleftrightarrow>
     distinct (concat (map wt_allowed_files ts))
     \<and> set (concat (map wt_allowed_files ts)) \<inter> seen = {}"
proof (induction seen ts rule: no_overlap_loop.induct)
  case (2 seen t ts)
  show ?case
  proof (cases "insert_files seen (wt_allowed_files t)")
    case (Inl e)
    then have "\<not> (distinct (wt_allowed_files t) \<and> set (wt_allowed_files t) \<inter> seen = {})"
      by (metis insert_files_ok sum.distinct(1))
    with Inl show ?thesis by auto
  next
    case (Inr seen')
    then have ok: "distinct (wt_allowed_files t)" "set (wt_allowed_files t) \<inter> seen = {}"
      and seen': "seen' = seen \<union> set (wt_allowed_files t)"
      by (simp_all add: insert_files_ok)
    with Inr 2 show ?thesis by auto
  qed
qed simp

lemma validate_no_overlap_ok:
  "validate_no_overlap ts = Inr () \<longleftrightarrow> distinct (concat (map wt_allowed_files ts))"
  by (simp add: validate_no_overlap_def no_overlap_loop_ok)

text \<open>The gate lets a wave through exactly when no file is claimed twice in the wave, every task
  passed its validation, the test command, when there is one, succeeded, and the review returned; the
  summary then carries the review.\<close>

theorem gate_wave_ok_iff:
  "(\<exists>summary. gate_wave sh review ts cmd = Inr summary) \<longleftrightarrow>
     distinct (concat (map wt_allowed_files ts))
     \<and> list_all (\<lambda>t. eq_ignore_ascii_case (wt_validation_status t) ''PASS'') ts
     \<and> (blank cmd \<or> (\<exists>code stderr. sh cmd = TestExited code True stderr))
     \<and> (\<exists>verdict. review ts = Inr verdict)"
proof (cases "validate_no_overlap ts")
  case (Inl e)
  then have "\<not> distinct (concat (map wt_allowed_files ts))"
    by (metis validate_no_overlap_ok sum.distinct(1))
  with Inl show ?thesis by (simp add: gate_wave_def)
next
  case (Inr u)
  then have "distinct (concat (map wt_allowed_files ts))"
    using validate_no_overlap_ok [of ts] by simp
  with Inr show ?thesis
    by (cases "sh cmd"; cases "review ts")
      (auto simp: gate_wave_def list_ex_iff list_all_iff split: if_splits)
qed

subsection \<open>Reports and the commit helper\<close>

lemma cap_component_bounds:
  "length (cap_component s limit) \<le> limit + length truncation_mark"
  using floor_char_boundary_le [of s limit] by (auto simp: cap_component_def)

lemma cap_component_boundary:
  "\<exists>k. is_char_boundary s k \<and> (cap_component s limit = take k s
        \<or> cap_component s limit = take k s @ truncation_mark)"
proof (cases "length s \<le> limit")
  case True
  then show ?thesis
    by (intro exI [of _ "length s"]) (simp add: cap_component_def is_char_boundary_def)
next
  case False
  then show ?thesis
    by (intro exI [of _ "floor_char_boundary s limit"])
      (simp add: cap_component_def floor_char_boundary_is)
qed

text \<open>The words bash reads between the parentheses of an array assignment, for text made of single
  quotes, backslashes, blanks and plain letters; anything else outside quotes might be expanded, so
  it gives no answer. \<open>w\<close> is the word being read.\<close>

fun sh_words :: "bool \<Rightarrow> string option \<Rightarrow> string \<Rightarrow> string list option" where
  "sh_words q w [] = (if q then None else Some (case w of None \<Rightarrow> [] | Some x \<Rightarrow> [x]))"
| "sh_words True w (c # cs) =
     (if c = CHR 0x27 then sh_words False w cs
      else sh_words True (Some ((case w of None \<Rightarrow> [] | Some x \<Rightarrow> x) @ [c])) cs)"
| "sh_words False w (c # cs) =
     (let cur = (case w of None \<Rightarrow> [] | Some x \<Rightarrow> x) in
      if c = CHR 0x27 then sh_words True (Some cur) cs
      else if c = CHR 0x5C then (case cs of [] \<Rightarrow> None | d # ds \<Rightarrow> sh_words False (Some (cur @ [d])) ds)
      else if is_whitespace c then
        (case w of None \<Rightarrow> sh_words False None cs
         | Some x \<Rightarrow> map_option ((#) x) (sh_words False None cs))
      else if is_ascii_alphanumeric c then sh_words False (Some (cur @ [c])) cs
      else None)"

lemma sh_words_body:
  "sh_words True (Some w)
     (concat (map (\<lambda>c. if c = CHR 0x27 then [CHR 0x27, CHR 0x5C, CHR 0x27, CHR 0x27] else [c]) v)
        @ [CHR 0x27] @ rest)
   = sh_words False (Some (w @ v)) rest"
  by (induction v arbitrary: w) auto

lemma sh_words_quote: "sh_words False None (shell_single_quote v @ rest) = sh_words False (Some v) rest"
  using sh_words_body [of "[]" v rest] by (simp add: shell_single_quote_def)

lemma sh_words_blank: "is_whitespace c \<Longrightarrow> sh_words False None (c # s) = sh_words False None s"
  by (auto simp: is_whitespace_def)

text \<open>Whatever the names in the contract are, quotes and blanks included, bash reads the array of
  the generated commit helper as exactly the list of allowed files: no name can add a file or run a
  command.\<close>

theorem commit_helper_stages_allowed:
  "sh_words False None (commit_helper_files_block allowed) = Some allowed"
proof -
  have "sh_words False None (join [nl_char] (map (\<lambda>f. ''  '' @ shell_single_quote f) allowed)) = Some allowed"
  proof (induction allowed rule: induct_list012)
    case 1
    then show ?case by simp
  next
    case (2 f)
    then show ?case
      using sh_words_quote [of f "[]"] by (simp add: is_whitespace_def)
  next
    case (3 f g fs)
    then show ?case
      by (simp add: sh_words_quote is_whitespace_def)
  qed
  then show ?thesis by (simp add: commit_helper_files_block_def)
qed

end
