(* ===== verification/Abe_Worker.thy ===== *)
theory Abe_Worker
  imports Seat_Gate Abe_Contract
begin

text \<open>
  The command lines the daemon spawns: how a connector's binary is found
  (\<open>mcp-bridge/src/lib.rs\<close>), the argument vector of the grok CLI (\<open>mcp-bridge/src/grok.rs\<close>), the
  \<open>seat-run\<close> line of a writer seat (\<open>mcp-bridge/src/seat_run.rs\<close>), and the worker lines of the build
  engine (\<open>mcp-tools/src/abe.rs\<close>), which first pass the surface gate of \<open>Seat_Gate\<close>. The environment
  is the map of the gate's record; \<open>executable\<close> says which paths are executable files.

  Shown here: the process that is spawned is the seat that was asked for, the prompt is always the
  last word, and an operator's extra arguments cannot take over a flag the daemon manages.
\<close>

type_synonym env_map = "string \<Rightarrow> string option"
type_synonym command_line = "string \<times> string list"

subsection \<open>Finding a connector\<close>

definition FALLBACK_BIN_DIRS :: "string list" where
  "FALLBACK_BIN_DIRS = [''.local/bin'']"

definition resolve_on_path_or_fallback :: "env_map \<Rightarrow> (string \<Rightarrow> bool) \<Rightarrow> string \<Rightarrow> string" where
  "resolve_on_path_or_fallback env executable name =
     (if CHR ''/'' \<in> set name then name
      else if (case env ''PATH'' of None \<Rightarrow> False
               | Some path \<Rightarrow> list_ex (\<lambda>d. executable (path_join d name)) (split_char (CHR '':'') path))
        then name
      else case env ''HOME'' of
          None \<Rightarrow> name
        | Some home \<Rightarrow>
            (case find executable (map (\<lambda>d. path_join (path_join home d) name) FALLBACK_BIN_DIRS) of
               Some candidate \<Rightarrow> candidate
             | None \<Rightarrow> name))"

definition resolve_connector_command ::
  "env_map \<Rightarrow> (string \<Rightarrow> bool) \<Rightarrow> string \<Rightarrow> string \<Rightarrow> string \<Rightarrow> command_line"
where
  "resolve_connector_command env executable bin_env args_env default_bin =
     ((case env bin_env of
         Some explicit \<Rightarrow> if \<not> blank explicit then explicit
                          else resolve_on_path_or_fallback env executable default_bin
       | None \<Rightarrow> resolve_on_path_or_fallback env executable default_bin),
      (case env args_env of Some v \<Rightarrow> split_whitespace v | None \<Rightarrow> []))"

definition codex_command :: "env_map \<Rightarrow> (string \<Rightarrow> bool) \<Rightarrow> command_line" where
  "codex_command env ex =
     resolve_connector_command env ex ''TRIUMVIRATE_CODEX_BIN'' ''TRIUMVIRATE_CODEX_ARGS'' ''codex''"

definition grok_command :: "env_map \<Rightarrow> (string \<Rightarrow> bool) \<Rightarrow> command_line" where
  "grok_command env ex =
     resolve_connector_command env ex ''TRIUMVIRATE_GROK_BIN'' ''TRIUMVIRATE_GROK_ARGS'' ''grok''"

definition claude_command :: "env_map \<Rightarrow> (string \<Rightarrow> bool) \<Rightarrow> command_line" where
  "claude_command env ex =
     resolve_connector_command env ex ''TRIUMVIRATE_CLAUDE_BIN'' ''TRIUMVIRATE_CLAUDE_ARGS'' ''claude''"

subsection \<open>grok.rs\<close>

datatype GrokDepth = Fast | Deep

definition grok_connector_timeout :: "env_map \<Rightarrow> duration" where
  "grok_connector_timeout env =
     from_secs (case Option.bind (env ''TRIUMVIRATE_GROK_CONNECTOR_TIMEOUT_SECS'') (parse_uint 64) of
        Some n \<Rightarrow> n | None \<Rightarrow> 900)"

definition grok_yolo_enabled :: "env_map \<Rightarrow> bool" where
  "grok_yolo_enabled env =
     (case env ''TRIUMVIRATE_GROK_YOLO'' of
        Some v \<Rightarrow> to_lowercase v \<in> {''1'', ''true'', ''yes'', ''on''}
      | None \<Rightarrow> False)"

definition grok_streaming_enabled :: "env_map \<Rightarrow> bool" where
  "grok_streaming_enabled env =
     (case env ''TRIUMVIRATE_GROK_STREAMING'' of
        Some v \<Rightarrow> to_lowercase v \<notin> {''0'', ''false'', ''no'', ''off''}
      | None \<Rightarrow> True)"

definition grok_max_turns_for :: "env_map \<Rightarrow> GrokDepth \<Rightarrow> nat" where
  "grok_max_turns_for env depth =
     (let default = (case depth of Fast \<Rightarrow> 12 | Deep \<Rightarrow> 30) in
      case Option.bind (env ''TRIUMVIRATE_GROK_MAX_TURNS'') (parse_uint 32) of
        Some n \<Rightarrow> if n > 0 then n else default
      | None \<Rightarrow> default)"

definition grok_sandbox_profile :: "env_map \<Rightarrow> string option" where
  "grok_sandbox_profile env =
     (case env ''TRIUMVIRATE_GROK_SANDBOX'' of
        Some p \<Rightarrow> if p = ''off'' \<or> p = [] then None else Some p
      | None \<Rightarrow> Some ''read-only'')"

definition grok_model :: "env_map \<Rightarrow> string option" where
  "grok_model env =
     (case env ''TRIUMVIRATE_GROK_MODEL'' of
        Some m \<Rightarrow> if blank m then None else Some m
      | None \<Rightarrow> None)"

definition grok_depth :: "env_map \<Rightarrow> GrokDepth" where
  "grok_depth env =
     (case map_option (\<lambda>v. to_lowercase (trim v)) (env ''TRIUMVIRATE_GROK_DEPTH'') of
        Some v \<Rightarrow> if v \<in> {''deep'', ''riff'', ''wild'', ''max''} then Deep else Fast
      | None \<Rightarrow> Fast)"

definition grok_effort_for :: "env_map \<Rightarrow> GrokDepth \<Rightarrow> string option" where
  "grok_effort_for env depth =
     (let profile = Some (case depth of Fast \<Rightarrow> ''low'' | Deep \<Rightarrow> ''high'') in
      case map_option trim (env ''TRIUMVIRATE_GROK_EFFORT'') of
        Some v \<Rightarrow> if eq_ignore_ascii_case v ''default'' then None
                  else if v \<noteq> [] then Some v else profile
      | None \<Rightarrow> profile)"

definition FORBIDDEN_EXTRA_FLAGS :: "string list" where
  "FORBIDDEN_EXTRA_FLAGS =
     [''-p'', ''--single'', ''--prompt'', ''--prompt-file'', ''--prompt-json'', ''-o'', ''--output-format'',
      ''-r'', ''--resume'', ''-s'', ''--session-id'', ''-c'', ''--continue'', ''--cwd'', ''--fork-session'',
      ''--always-approve'', ''--yolo'', ''--dangerously-skip-permissions'', ''--sandbox'',
      ''--permission-mode'', ''--json-schema'', ''--tools'', ''--disallowed-tools'', ''--max-turns'',
      ''-m'', ''--model'', ''--effort'', ''--reasoning-effort'', ''--no-auto-update'', ''--no-alt-screen'',
      ''--system-prompt'', ''--system-prompt-override'', ''--agent'', ''--agents'', ''--allow'',
      ''--allowedTools'', ''--allowed-tools'', ''--deny'', ''--disallowedTools'', ''--leader-socket'',
      ''--no-subagents'', ''--no-plan'', ''--restore-code'', ''--rules'', ''--verbatim'',
      ''--include-partial-messages'', ''--disable-web-search'', ''-w'', ''--worktree'', ''--worktree-ref'',
      ''--ref'', ''--load'', ''--print'', ''--append-system-prompt'', ''--trust'', ''--fs-write'',
      ''--fs-read'', ''--allow-cwd'', ''--leader'', ''--no-leader'', ''--oauth'', ''--compaction-mode'',
      ''--storage-mode'', ''--no-memory'', ''--experimental-memory'', ''--memory-flush'',
      ''--client-identifier'', ''--no-ask-user'']"

definition FORBIDDEN_SHORT_FLAGS :: "char list" where
  "FORBIDDEN_SHORT_FLAGS = ''prscomw''"

definition validate_argv_value :: "string \<Rightarrow> string \<Rightarrow> string + unit" where
  "validate_argv_value kind v =
     (if blank v then Inl (''grok '' @ kind @ '' must not be empty'')
      else if starts_with v ''-'' then
        Inl (''grok '' @ kind @ '' '' @ debug_str v @ '' begins with '' @ [CHR 0x27] @ ''-'' @ [CHR 0x27]
          @ '': clap would parse it as a flag rather than a value, silently changing the invocation'')
      else Inr ())"

definition flag_part :: "string \<Rightarrow> string" where
  "flag_part arg = hd (split_char (CHR ''='') arg)"

definition forbidden_short :: "string \<Rightarrow> char option" where
  "forbidden_short flag =
     (if starts_with flag ''-'' \<and> \<not> starts_with flag ''--'' \<and> length flag > 1
      then find (\<lambda>c. c \<in> set FORBIDDEN_SHORT_FLAGS) (drop 1 flag) else None)"

fun validate_extra_args :: "string list \<Rightarrow> string + unit" where
  "validate_extra_args [] = Inr ()"
| "validate_extra_args (arg # rest) =
     (let flag = flag_part arg in
      case forbidden_short flag of
        Some c \<Rightarrow> Inl (''TRIUMVIRATE_GROK_ARGS contains forbidden short flag '' @ [CHR 0x27] @ ''-'' @ [c, CHR 0x27]
            @ '' inside '' @ debug_str flag
            @ '': grok session, output, approval and context flags are managed by Triumvirate'')
      | None \<Rightarrow>
          if flag \<in> set FORBIDDEN_EXTRA_FLAGS then
            Inl (''TRIUMVIRATE_GROK_ARGS contains forbidden flag '' @ debug_str flag
              @ '': grok session, output, approval and context flags are managed by Triumvirate and cannot be overridden'')
          else validate_extra_args rest)"

record GrokInvocation =
  inv_program :: string
  inv_args :: "string list"
  inv_timeout :: duration

text \<open>The session part of the invocation: what is resumed, or an error.\<close>

definition grok_resume_id :: "string option \<Rightarrow> bool \<Rightarrow> string + string option" where
  "grok_resume_id session_id resume =
     (if resume then
        (let rid = (case session_id of Some s \<Rightarrow> trim s | None \<Rightarrow> []) in
         if rid = [] then
           Inl (''grok resume requested without a session id: emitting a bare --resume would ''
             @ ''attach to the most recent session in this cwd (cross-session contamination). ''
             @ ''Pass the sessionId parsed from the previous turn'' @ [CHR 0x27] @ ''s `end` event.'')
         else case validate_argv_value ''resume session id'' rid of
             Inl e \<Rightarrow> Inl e
           | Inr _ \<Rightarrow> Inr (Some rid))
      else case session_id of
          Some s \<Rightarrow> if blank s then Inr None
                    else (case validate_argv_value ''session id'' s of Inl e \<Rightarrow> Inl e | Inr _ \<Rightarrow> Inr None)
        | None \<Rightarrow> Inr None)"

definition build_grok_invocation_with_profile ::
  "env_map \<Rightarrow> string \<Rightarrow> string list \<Rightarrow> string \<Rightarrow> string \<Rightarrow> string option \<Rightarrow> bool \<Rightarrow> string option
     \<Rightarrow> GrokDepth option \<Rightarrow> string + GrokInvocation"
where
  "build_grok_invocation_with_profile env bin extra prompt cwd session_id resume sandbox_override
       depth_override =
     (let depth = (case depth_override of Some d \<Rightarrow> d | None \<Rightarrow> grok_depth env) in
      case validate_extra_args extra of Inl e \<Rightarrow> Inl e | Inr _ \<Rightarrow>
      case grok_resume_id session_id resume of Inl e \<Rightarrow> Inl e | Inr resume_id \<Rightarrow>
      case (if blank cwd then Inr () else validate_argv_value ''cwd'' cwd) of Inl e \<Rightarrow> Inl e | Inr _ \<Rightarrow>
      (let profile =
             (if env ''TRIUMVIRATE_GROK_SANDBOX'' \<noteq> None then grok_sandbox_profile env
              else case sandbox_override of
                  Some p \<Rightarrow> if p = ''off'' \<or> p = [] then None else Some p
                | None \<Rightarrow> grok_sandbox_profile env);
           args =
             [''--no-auto-update'', ''--no-alt-screen'', ''--output-format'',
              (if grok_streaming_enabled env then ''streaming-json'' else ''json'')]
             @ (if blank cwd then [] else [''--cwd'', cwd])
             @ (case (resume_id, session_id) of
                  (Some rid, _) \<Rightarrow> [''--resume'', rid]
                | (None, Some sid) \<Rightarrow> if blank sid then [] else [''--session-id'', sid]
                | (None, None) \<Rightarrow> [])
             @ (case grok_model env of Some m \<Rightarrow> [''-m'', m] | None \<Rightarrow> [])
             @ (case grok_effort_for env depth of Some e \<Rightarrow> [''--effort'', e] | None \<Rightarrow> [])
             @ [''--max-turns'', show_nat (grok_max_turns_for env depth)]
             @ (if depth = Fast
                then [''--no-subagents'', ''--disable-web-search'', ''--disallowed-tools'',
                      ''Agent,task,todo_write''] else [])
             @ (case profile of Some p \<Rightarrow> [''--sandbox'', p] | None \<Rightarrow> [])
             @ (if grok_yolo_enabled env then [''--always-approve'']
                else [''--permission-mode'', ''default''])
             @ extra @ [''-p'', prompt]
       in Inr \<lparr>inv_program = bin, inv_args = args, inv_timeout = grok_connector_timeout env\<rparr>))"

definition build_grok_invocation_with_sandbox ::
  "env_map \<Rightarrow> string \<Rightarrow> string list \<Rightarrow> string \<Rightarrow> string \<Rightarrow> string option \<Rightarrow> bool \<Rightarrow> string option
     \<Rightarrow> string + GrokInvocation"
where
  "build_grok_invocation_with_sandbox env bin extra prompt cwd session_id resume sandbox_override =
     build_grok_invocation_with_profile env bin extra prompt cwd session_id resume sandbox_override None"

definition build_grok_invocation ::
  "env_map \<Rightarrow> string \<Rightarrow> string list \<Rightarrow> string \<Rightarrow> string \<Rightarrow> string option \<Rightarrow> bool \<Rightarrow> string + GrokInvocation"
where
  "build_grok_invocation env bin extra prompt cwd session_id resume =
     build_grok_invocation_with_sandbox env bin extra prompt cwd session_id resume None"


subsection \<open>seat_run.rs\<close>

text \<open>\<open>current_exe\<close> is what \<open>std::env::current_exe\<close> answers.\<close>

definition self_bin :: "env_map \<Rightarrow> (string + string) \<Rightarrow> string + string" where
  "self_bin env current_exe =
     (case env ''TRIUMVIRATE_SELF_BIN'' of
        Some explicit \<Rightarrow> if explicit \<noteq> [] then Inr explicit
          else (case current_exe of Inl e \<Rightarrow> Inl (''seat_run_self_bin_unavailable: '' @ e) | Inr b \<Rightarrow> Inr b)
      | None \<Rightarrow>
          (case current_exe of Inl e \<Rightarrow> Inl (''seat_run_self_bin_unavailable: '' @ e) | Inr b \<Rightarrow> Inr b))"

definition prompt_file_path :: "string \<Rightarrow> string \<Rightarrow> string" where
  "prompt_file_path worktree seat =
     path_join (path_join worktree ''.triumvirate'') (''seat-prompt-'' @ seat @ ''.txt'')"

definition seat_run_command ::
  "env_map \<Rightarrow> (string + string) \<Rightarrow> file_system \<Rightarrow> string \<Rightarrow> string \<Rightarrow> string \<Rightarrow> string \<Rightarrow> string \<Rightarrow> nat
     \<Rightarrow> file_system \<times> (string + command_line)"
where
  "seat_run_command env current_exe fs surface seat worktree prompt commit_message timeout_secs =
     (if \<not> is_writer_seat seat then (fs, Inl (''not_a_new_seat: '' @ seat))
      else if \<not> starts_with worktree ''/'' then
        (fs, Inl (''seat_requires_worktree:'' @ seat @ '': '' @ worktree @ '' is not absolute''))
      else case self_bin env current_exe of Inl e \<Rightarrow> (fs, Inl e) | Inr bin \<Rightarrow>
        (let path = prompt_file_path worktree seat;
             dir = path_join worktree ''.triumvirate'';
             unwritable = (\<lambda>p e. Inl (''seat_prompt_unwritable:'' @ seat @ '': '' @ p @ '': '' @ e))
         in case io_error fs (CreateDirOp dir) of Some e \<Rightarrow> (fs, unwritable dir e) | None \<Rightarrow>
            case (io_error fs (CreateNewOp path), files fs path) of
              (Some e, _) \<Rightarrow> (fs, unwritable path e)
            | (None, Some _) \<Rightarrow> (fs, unwritable path ''File exists (os error 17)'')
            | (None, None) \<Rightarrow>
              (case io_error fs (WriteOp path) of
                 Some e \<Rightarrow> (fs\<lparr>files := (files fs)(path \<mapsto> take (partial_len fs) prompt)\<rparr>, unwritable path e)
               | None \<Rightarrow>
                 (fs\<lparr>files := (files fs)(path \<mapsto> prompt)\<rparr>,
                  Inr (bin, [''seat-run'', ''--seat'', seat, ''--surface'', surface, ''--worktree'', worktree,
                             ''--prompt-file'', path, ''--commit-message'', commit_message,
                             ''--timeout-secs'', show_nat timeout_secs])))))"

subsection \<open>Workers of the build engine\<close>

definition ABE_BUILDABLE_AGENTS :: "string list" where
  "ABE_BUILDABLE_AGENTS = [''codex'', ''claude'', ''grok'', ''kimi'', ''mistral'', ''qwen'']"

definition abe_worker_agent :: "env_map \<Rightarrow> string" where
  "abe_worker_agent env =
     normalize_agent_name (case env ''TRIUMVIRATE_ABE_AGENT'' of Some raw \<Rightarrow> raw | None \<Rightarrow> ''codex'')"

definition resolve_abe_command :: "env_map \<Rightarrow> (string \<Rightarrow> bool) \<Rightarrow> command_line \<Rightarrow> string \<Rightarrow> command_line" where
  "resolve_abe_command env ex injected_codex agent =
     (if agent = ''codex'' then injected_codex
      else if agent = ''grok'' then grok_command env ex
      else if agent = ''claude'' then claude_command env ex
      else (agent, []))"

definition abe_buildable_for_row :: "SeatProfile option \<Rightarrow> string \<Rightarrow> string + unit" where
  "abe_buildable_for_row row seat =
     (if (case row of Some r \<Rightarrow> abe_buildable r | None \<Rightarrow> False) then Inr ()
      else Inl (''ABE cannot dispatch a `'' @ seat @ ''` worker: its seat row is not abe_buildable (only ''
        @ debug_list ABE_BUILDABLE_AGENTS
        @ '' are). Refusing rather than substituting codex, which would report a `'' @ seat
        @ ''` worker that is a codex process.''))"

definition check_abe_worker :: "gate_env \<Rightarrow> string \<Rightarrow> string + unit" where
  "check_abe_worker g agent =
     (let seat = normalize_agent_name agent in
      case fst (seat_gate g seat AbeDispatch Unattended False) of
        Inl r \<Rightarrow> Inl (message r)
      | Inr _ \<Rightarrow> abe_buildable_for_row (seat_profile seat) seat)"

definition codex_exec_mcp_compat_args :: "string list" where
  "codex_exec_mcp_compat_args = [''--disable'', ''tool_call_mcp_elicitation'']"

definition build_worker_argv ::
  "gate_env \<Rightarrow> (string \<Rightarrow> command_line) \<Rightarrow> string \<Rightarrow> string \<Rightarrow> string \<Rightarrow> string + command_line"
where
  "build_worker_argv g command_for agent prompt cwd =
     (let canonical = normalize_agent_name agent in
      if is_writer_seat canonical then
        Inl (''seat_requires_worktree:'' @ canonical @ '': a '' @ canonical
          @ '' ABE worker runs only through dispatch_codex_worktree'')
      else case check_abe_worker g agent of Inl e \<Rightarrow> Inl e | Inr _ \<Rightarrow>
        if canonical = ''grok'' then
          (let (bin, extra) = command_for ''grok'' in
           case build_grok_invocation_with_sandbox (env_var g) bin extra prompt cwd None False (Some ''workspace'') of
             Inl e \<Rightarrow> Inl (''failed to assemble grok ABE worker: '' @ e)
           | Inr gi \<Rightarrow> Inr (inv_program gi, inv_args gi))
        else if canonical = ''claude'' then
          (let (cmd, args) = command_for ''claude'' in
           Inr (cmd, args @ [''--permission-mode'', ''bypassPermissions'', ''--output-format'',
                             ''stream-json'', ''--verbose'', ''-p'', prompt]))
        else if canonical = ''codex'' then
          (let (cmd, args) = command_for ''codex'' in
           Inr (cmd, args @ [''exec'', ''--sandbox'', ''workspace-write''] @ codex_exec_mcp_compat_args
                       @ [''--skip-git-repo-check'', ''--'', prompt]))
        else Inl (''ABE cannot dispatch a `'' @ canonical @ ''` worker: only ''
            @ debug_list ABE_BUILDABLE_AGENTS @ '' have a worker argv builder. Set TRIUMVIRATE_ABE_AGENT to one of ''
            @ debug_list ABE_BUILDABLE_AGENTS
            @ '', or add an arm to build_worker_argv. Refusing rather than substituting codex, which would report a `''
            @ canonical @ ''` worker that is a codex process.''))"

definition build_worktree_worker_argv ::
  "gate_env \<Rightarrow> (string + string) \<Rightarrow> (string \<Rightarrow> command_line) \<Rightarrow> string \<Rightarrow> string \<Rightarrow> string \<Rightarrow> string list
     \<Rightarrow> string list option \<Rightarrow> string option \<Rightarrow> nat option \<Rightarrow> file_system \<times> (string + command_line)"
where
  "build_worktree_worker_argv g current_exe command_for agent prompt worktree extra_dirs
       sandbox_permissions commit_message timeout_secs =
     (let fs = fs_now g; seat = normalize_agent_name agent in
      case check_abe_worker g agent of Inl e \<Rightarrow> (fs, Inl e) | Inr _ \<Rightarrow>
        if seat \<in> {''kimi'', ''mistral'', ''qwen''} then
          (case (case commit_message of Some m \<Rightarrow> if blank m then None else Some m | None \<Rightarrow> None) of
             None \<Rightarrow> (fs, Inl (''seat_requires_commit_format:'' @ seat @ '': a '' @ seat
               @ '' worktree worker needs the contract'' @ [CHR 0x27] @ ''s commit_format''))
           | Some m \<Rightarrow>
             (case timeout_secs of
                None \<Rightarrow> (fs, Inl (''seat_requires_task_timeout:'' @ seat @ '': a '' @ seat
                  @ '' worktree worker needs the task timeout''))
              | Some outer \<Rightarrow>
                  seat_run_command (env_var g) current_exe fs ''abe'' seat worktree prompt m
                    (inner_timeout_secs outer)))
        else (fs,
          if seat = ''grok'' then
            (let (bin, extra) = command_for ''grok'' in
             case build_grok_invocation_with_sandbox (env_var g) bin extra prompt worktree None False
                    (Some ''workspace'') of
               Inl e \<Rightarrow> Inl (''failed to assemble grok worktree worker: '' @ e)
             | Inr gi \<Rightarrow> Inr (inv_program gi, inv_args gi))
          else if seat = ''claude'' then
            (let (cmd, args) = command_for ''claude'' in
             Inr (cmd, args @ [''--permission-mode'', ''bypassPermissions'', ''--output-format'',
                               ''stream-json'', ''--verbose'']
                         @ (if extra_dirs \<noteq> [] then ''--add-dir'' # extra_dirs else [])
                         @ [''-p'', prompt]))
          else if seat = ''codex'' then
            (let (cmd, args) = command_for ''codex'' in
             Inr (cmd, args @ [''exec'', ''--sandbox'', ''workspace-write''] @ codex_exec_mcp_compat_args
                         @ build_sandbox_permission_args sandbox_permissions
                         @ concat (map (\<lambda>d. [''--add-dir'', d]) extra_dirs)
                         @ [''--'', prompt]))
          else Inl (''ABE cannot dispatch a `'' @ seat @ ''` worktree worker: only ''
              @ debug_list ABE_BUILDABLE_AGENTS @ '' have a worktree argv builder.'')))"


subsection \<open>Managed flags of grok\<close>

lemma show_nat_no_dash: "\<not> starts_with (show_nat n) ''-''"
proof -
  obtain c cs where sn: "show_nat n = c # cs" by (cases "show_nat n") auto
  then have "is_ascii_digit c" using show_nat_digits [of c n] by simp
  then have "c \<noteq> CHR ''-''" by (auto simp: is_ascii_digit_def less_eq_char_def)
  with sn show ?thesis by simp
qed

lemma validate_extra_args_ok:
  "validate_extra_args extra = Inr () \<longleftrightarrow>
     (\<forall>a \<in> set extra. forbidden_short (flag_part a) = None
        \<and> flag_part a \<notin> set FORBIDDEN_EXTRA_FLAGS)"
  by (induction extra rule: validate_extra_args.induct) (auto simp: Let_def split: option.splits)

lemma forbidden_flags_plain: "list_all (\<lambda>f. flag_part f = f) FORBIDDEN_EXTRA_FLAGS"
  by code_simp

lemma forbidden_not_extra:
  assumes "validate_extra_args extra = Inr ()" and "f \<in> set FORBIDDEN_EXTRA_FLAGS"
  shows "f \<notin> set extra"
  using assms forbidden_flags_plain by (auto simp: validate_extra_args_ok list_all_iff)

lemma managed_flags_forbidden:
  "list_all (\<lambda>f. f \<in> set FORBIDDEN_EXTRA_FLAGS)
     [''--resume'', ''--session-id'', ''-r'', ''-s'', ''-c'', ''--continue'', ''--yolo'', ''--always-approve'',
      ''--permission-mode'', ''--sandbox'']"
  by code_simp

lemma validate_argv_value_ok:
  "validate_argv_value kind v = Inr u \<longleftrightarrow> \<not> blank v \<and> \<not> starts_with v ''-''"
  by (simp add: validate_argv_value_def)

lemma grok_resume_id_ok:
  "grok_resume_id sid resume = Inr r \<Longrightarrow>
     (if resume then \<exists>i. r = Some i \<and> i \<noteq> [] \<and> \<not> starts_with i ''-''
      else r = None \<and> (\<forall>x. sid = Some x \<longrightarrow> blank x \<or> \<not> starts_with x ''-''))"
  by (auto simp: grok_resume_id_def validate_argv_value_def Let_def split: if_splits option.splits)

text \<open>The values the operator sets do not look like flags.\<close>

definition operator_plain :: "env_map \<Rightarrow> bool" where
  "operator_plain env \<longleftrightarrow>
     list_all (\<lambda>v. case env v of Some x \<Rightarrow> \<not> starts_with x ''-'' \<and> \<not> starts_with (trim x) ''-'' | None \<Rightarrow> True)
       [''TRIUMVIRATE_GROK_MODEL'', ''TRIUMVIRATE_GROK_EFFORT'', ''TRIUMVIRATE_GROK_SANDBOX'']"

lemma operator_plain_values:
  assumes "operator_plain env"
  shows "grok_model env = Some m \<Longrightarrow> \<not> starts_with m ''-''"
    and "grok_effort_for env d = Some e \<Longrightarrow> \<not> starts_with e ''-''"
    and "grok_sandbox_profile env = Some p \<Longrightarrow> \<not> starts_with p ''-''"
  using assms
  by (auto simp: operator_plain_def grok_model_def grok_effort_for_def grok_sandbox_profile_def Let_def
      split: option.splits if_splits GrokDepth.splits)

definition grok_managed :: "env_map \<Rightarrow> string \<Rightarrow> string list \<Rightarrow> GrokDepth \<Rightarrow> string option \<Rightarrow> string list" where
  "grok_managed env cwd session depth profile =
     [''--no-auto-update'', ''--no-alt-screen'', ''--output-format'',
      (if grok_streaming_enabled env then ''streaming-json'' else ''json'')]
     @ (if blank cwd then [] else [''--cwd'', cwd]) @ session
     @ (case grok_model env of Some m \<Rightarrow> [''-m'', m] | None \<Rightarrow> [])
     @ (case grok_effort_for env depth of Some e \<Rightarrow> [''--effort'', e] | None \<Rightarrow> [])
     @ [''--max-turns'', show_nat (grok_max_turns_for env depth)]
     @ (if depth = Fast
        then [''--no-subagents'', ''--disable-web-search'', ''--disallowed-tools'',
              ''Agent,task,todo_write''] else [])
     @ (case profile of Some p \<Rightarrow> [''--sandbox'', p] | None \<Rightarrow> [])
     @ (if grok_yolo_enabled env then [''--always-approve''] else [''--permission-mode'', ''default''])"

lemma grok_managed_flags:
  assumes "operator_plain env" and "blank cwd \<or> \<not> starts_with cwd ''-''"
    and "\<And>p. profile = Some p \<Longrightarrow> \<not> starts_with p ''-''" and "starts_with f ''-''"
    and "f \<notin> {''--no-auto-update'', ''--no-alt-screen'', ''--output-format'', ''--cwd'', ''-m'', ''--effort'',
           ''--max-turns'', ''--no-subagents'', ''--disable-web-search'', ''--disallowed-tools''}"
  shows "f \<in> set (grok_managed env cwd session depth profile) \<longleftrightarrow>
     f \<in> set session \<or> f = ''--sandbox'' \<and> profile \<noteq> None
     \<or> f = ''--always-approve'' \<and> grok_yolo_enabled env
     \<or> f = ''--permission-mode'' \<and> \<not> grok_yolo_enabled env"
proof -
  have m: "grok_model env \<noteq> Some f" using operator_plain_values(1) [OF assms(1)] assms(4) by blast
  have e: "grok_effort_for env depth \<noteq> Some f" using operator_plain_values(2) [OF assms(1)] assms(4) by blast
  have p: "profile \<noteq> Some f" using assms(3,4) by blast
  have n: "f \<noteq> show_nat (grok_max_turns_for env depth)" using show_nat_no_dash assms(4) by blast
  have w: "f \<noteq> ''streaming-json''" "f \<noteq> ''json''" "f \<noteq> ''default''" "f \<noteq> ''Agent,task,todo_write''"
    using assms(4) by auto
  have c: "blank cwd \<or> f \<noteq> cwd" using assms(2,4) by blast
  have parts_a:
    "f \<notin> set [''--no-auto-update'', ''--no-alt-screen'', ''--output-format'',
        (if grok_streaming_enabled env then ''streaming-json'' else ''json'')]"
    "f \<notin> set (case grok_model env of Some m \<Rightarrow> [''-m'', m] | None \<Rightarrow> [])"
    "f \<notin> set (case grok_effort_for env depth of Some e \<Rightarrow> [''--effort'', e] | None \<Rightarrow> [])"
    "f \<notin> set [''--max-turns'', show_nat (grok_max_turns_for env depth)]"
    "f \<notin> set (if depth = Fast then [''--no-subagents'', ''--disable-web-search'', ''--disallowed-tools'',
        ''Agent,task,todo_write''] else [])"
    using assms(5) m e n w by (simp_all split: option.split)
  have parts_b: "f \<notin> set (if blank cwd then [] else [''--cwd'', cwd])"
    using c assms(5) by auto
  have parts_c: "f \<in> set (case profile of Some p \<Rightarrow> [''--sandbox'', p] | None \<Rightarrow> [])
       \<longleftrightarrow> f = ''--sandbox'' \<and> profile \<noteq> None"
    using p by (cases profile) auto
  have parts_d:
    "f \<in> set (if grok_yolo_enabled env then [''--always-approve''] else [''--permission-mode'', ''default''])
       \<longleftrightarrow> f = ''--always-approve'' \<and> grok_yolo_enabled env
          \<or> f = ''--permission-mode'' \<and> \<not> grok_yolo_enabled env"
    using w by simp
  show ?thesis by (simp only: grok_managed_def set_append Un_iff parts_a parts_b parts_c parts_d simp_thms disj_assoc)
qed


lemma build_grok_Inr:
  assumes "build_grok_invocation_with_profile env bin extra prompt cwd sid resume sb d = Inr gi"
  obtains r session depth profile where
    "validate_extra_args extra = Inr ()" and "grok_resume_id sid resume = Inr r"
    and "blank cwd \<or> \<not> starts_with cwd ''-''"
    and "session = (case (r, sid) of (Some i, _) \<Rightarrow> [''--resume'', i]
           | (None, Some i) \<Rightarrow> if blank i then [] else [''--session-id'', i] | (None, None) \<Rightarrow> [])"
    and "profile = (if env ''TRIUMVIRATE_GROK_SANDBOX'' \<noteq> None then grok_sandbox_profile env
           else case sb of Some p \<Rightarrow> if p = ''off'' \<or> p = [] then None else Some p
              | None \<Rightarrow> grok_sandbox_profile env)"
    and "inv_program gi = bin"
    and "inv_args gi = grok_managed env cwd session depth profile @ extra @ [''-p'', prompt]"
proof -
  define depth where "depth = (case d of Some d \<Rightarrow> d | None \<Rightarrow> grok_depth env)"
  obtain u where u: "validate_extra_args extra = Inr u"
    using assms by (cases "validate_extra_args extra") (simp_all add: build_grok_invocation_with_profile_def Let_def)
  obtain r where r: "grok_resume_id sid resume = Inr r"
    using assms u by (cases "grok_resume_id sid resume") (simp_all add: build_grok_invocation_with_profile_def Let_def)
  have c: "blank cwd \<or> \<not> starts_with cwd ''-''"
    using assms u r
    by (auto simp: build_grok_invocation_with_profile_def validate_argv_value_def Let_def split: if_splits)
  then have ok: "(if blank cwd then Inr () else validate_argv_value ''cwd'' cwd) = Inr ()"
    by (auto simp: validate_argv_value_def)
  have "inv_program gi = bin \<and> inv_args gi = grok_managed env cwd
      (case (r, sid) of (Some i, _) \<Rightarrow> [''--resume'', i]
           | (None, Some i) \<Rightarrow> if blank i then [] else [''--session-id'', i] | (None, None) \<Rightarrow> []) depth
      (if env ''TRIUMVIRATE_GROK_SANDBOX'' \<noteq> None then grok_sandbox_profile env
           else case sb of Some p \<Rightarrow> if p = ''off'' \<or> p = [] then None else Some p
              | None \<Rightarrow> grok_sandbox_profile env) @ extra @ [''-p'', prompt]"
    using assms unfolding build_grok_invocation_with_profile_def u r ok grok_managed_def depth_def Let_def sum.case
    by (elim Inr_inject [elim_format] subst) (simp only: GrokInvocation.select_convs append_assoc simp_thms)
  then show thesis using that u r c by simp
qed

text \<open>Whatever an operator adds through \<open>TRIUMVIRATE_GROK_ARGS\<close>, the line that is spawned keeps
  the daemon's rules: it ends with \<open>-p\<close> and the prompt, it resumes a session exactly when asked to and
  then always by a non-empty id that is no flag, it never both resumes and names a new session, it never
  continues the latest session, and it states its approval mode explicitly, auto-approval only when
  \<open>TRIUMVIRATE_GROK_YOLO\<close> opted in.\<close>

theorem grok_argv_managed:
  assumes built: "build_grok_invocation_with_profile env bin extra prompt cwd sid resume sb d = Inr gi"
    and plain: "operator_plain env" and sb: "\<forall>p. sb = Some p \<longrightarrow> \<not> starts_with p ''-''"
  shows "\<exists>managed. inv_args gi = managed @ extra @ [''-p'', prompt] \<and> inv_program gi = bin
    \<and> (''--resume'' \<in> set (managed @ extra) \<longleftrightarrow> resume)
    \<and> (resume \<longrightarrow> (\<exists>pre i post. managed = pre @ [''--resume'', i] @ post \<and> i \<noteq> [] \<and> \<not> starts_with i ''-''))
    \<and> (''--session-id'' \<in> set (managed @ extra) \<longrightarrow> \<not> resume)
    \<and> set [''-r'', ''-s'', ''-c'', ''--continue'', ''--yolo''] \<inter> set (managed @ extra) = {}
    \<and> (''--always-approve'' \<in> set (managed @ extra) \<longleftrightarrow> grok_yolo_enabled env)
    \<and> (''--permission-mode'' \<in> set (managed @ extra) \<longleftrightarrow> \<not> grok_yolo_enabled env)"
proof -
  obtain r session depth profile where
    extra: "validate_extra_args extra = Inr ()" and r: "grok_resume_id sid resume = Inr r"
    and cwd: "blank cwd \<or> \<not> starts_with cwd ''-''"
    and session: "session = (case (r, sid) of (Some i, _) \<Rightarrow> [''--resume'', i]
           | (None, Some i) \<Rightarrow> if blank i then [] else [''--session-id'', i] | (None, None) \<Rightarrow> [])"
    and profile: "profile = (if env ''TRIUMVIRATE_GROK_SANDBOX'' \<noteq> None then grok_sandbox_profile env
           else case sb of Some p \<Rightarrow> if p = ''off'' \<or> p = [] then None else Some p
              | None \<Rightarrow> grok_sandbox_profile env)"
    and prog: "inv_program gi = bin"
    and args: "inv_args gi = grok_managed env cwd session depth profile @ extra @ [''-p'', prompt]"
    by (rule build_grok_Inr [OF built])
  let ?m = "grok_managed env cwd session depth profile"
  have pr: "\<not> starts_with p ''-''" if "profile = Some p" for p
    using that profile sb operator_plain_values(3) [OF plain] by (auto split: if_splits option.splits)
  note flags = grok_managed_flags [OF plain cwd pr]
  have no: "f \<notin> set extra" if "f \<in> set [''--resume'', ''--session-id'', ''-r'', ''-s'', ''-c'', ''--continue'',
      ''--yolo'', ''--always-approve'', ''--permission-mode'']" for f
    using forbidden_not_extra [OF extra] managed_flags_forbidden that by auto
  have sess: "if resume then \<exists>i. session = [''--resume'', i] \<and> i \<noteq> [] \<and> \<not> starts_with i ''-''
      else session = [] \<or> (\<exists>i. session = [''--session-id'', i] \<and> \<not> starts_with i ''-'')"
    using grok_resume_id_ok [OF r] session by (auto split: option.splits if_splits)
  then have free: "f \<notin> set session" if "starts_with f ''-''" "f \<noteq> ''--resume''" "f \<noteq> ''--session-id''" for f
    using that by (auto split: if_splits)
  have in_session: "''--resume'' \<in> set (?m @ extra) \<longleftrightarrow> resume"
      "''--session-id'' \<in> set (?m @ extra) \<Longrightarrow> \<not> resume"
    using sess no [of "''--resume''"] no [of "''--session-id''"]
    by (simp_all add: flags split: if_splits) auto
  have absent: "''-r'' \<notin> set (?m @ extra)" "''-s'' \<notin> set (?m @ extra)" "''-c'' \<notin> set (?m @ extra)"
      "''--continue'' \<notin> set (?m @ extra)" "''--yolo'' \<notin> set (?m @ extra)"
    using no [of "''-r''"] no [of "''-s''"] no [of "''-c''"] no [of "''--continue''"] no [of "''--yolo''"]
      free [of "''-r''"] free [of "''-s''"] free [of "''-c''"] free [of "''--continue''"] free [of "''--yolo''"]
    by (simp_all add: flags)
  have approval: "''--always-approve'' \<in> set (?m @ extra) \<longleftrightarrow> grok_yolo_enabled env"
      "''--permission-mode'' \<in> set (?m @ extra) \<longleftrightarrow> \<not> grok_yolo_enabled env"
    using no [of "''--always-approve''"] no [of "''--permission-mode''"] free [of "''--always-approve''"]
      free [of "''--permission-mode''"] by (simp_all add: flags)
  show ?thesis
  proof (intro exI [of _ ?m] conjI)
    show "''--resume'' \<in> set (?m @ extra) \<longleftrightarrow> resume" using in_session by simp
    show "resume \<longrightarrow> (\<exists>pre i post. ?m = pre @ [''--resume'', i] @ post \<and> i \<noteq> [] \<and> \<not> starts_with i ''-'')"
    proof
      assume resume
      then obtain i where "session = [''--resume'', i]" "i \<noteq> []" "\<not> starts_with i ''-''" using sess by auto
      then show "\<exists>pre i post. ?m = pre @ [''--resume'', i] @ post \<and> i \<noteq> [] \<and> \<not> starts_with i ''-''"
        unfolding grok_managed_def by (metis append.assoc)
    qed
    show "''--session-id'' \<in> set (?m @ extra) \<longrightarrow> \<not> resume" using in_session by simp
    show "set [''-r'', ''-s'', ''-c'', ''--continue'', ''--yolo''] \<inter> set (?m @ extra) = {}" using absent by simp
    show "''--always-approve'' \<in> set (?m @ extra) \<longleftrightarrow> grok_yolo_enabled env" using approval by simp
    show "''--permission-mode'' \<in> set (?m @ extra) \<longleftrightarrow> \<not> grok_yolo_enabled env" using approval by simp
  qed (simp_all add: args prog)
qed


theorem grok_argv_managed_witness:
  "\<exists>managed. inv_args (projr (build_grok_invocation_with_profile (\<lambda>_. None) ''grok'' [''--verbose''] ''review''
       ''/repo'' (Some ''4fe1'') True None None)) = managed @ [''--verbose''] @ [''-p'', ''review'']
     \<and> ''--resume'' \<in> set (managed @ [''--verbose''])"
proof -
  let ?b = "build_grok_invocation_with_profile (\<lambda>_. None) ''grok'' [''--verbose''] ''review''
       ''/repo'' (Some ''4fe1'') True None None"
  have parts: "validate_extra_args [''--verbose''] = Inr ()"
      "grok_resume_id (Some ''4fe1'') True = Inr (Some ''4fe1'')"
      "(if blank ''/repo'' then Inr () else validate_argv_value ''cwd'' ''/repo'') = Inr ()"
    by code_simp+
  have ok: "?b = Inr (projr ?b)"
    unfolding build_grok_invocation_with_profile_def parts Let_def by simp
  have plain: "operator_plain (\<lambda>_. None)" by (simp add: operator_plain_def)
  from grok_argv_managed [OF ok plain] show ?thesis by auto
qed

subsection \<open>The worker is the seat that was asked for\<close>

lemma buildable_rows: "list_all (\<lambda>p. abe_buildable p \<longleftrightarrow> key p \<in> set ABE_BUILDABLE_AGENTS) SEATS"
  by code_simp

lemma check_abe_worker_ok:
  assumes "check_abe_worker g agent = Inr u"
  shows "fst (seat_gate g (normalize_agent_name agent) AbeDispatch Unattended False) = Inr ()"
    and "normalize_agent_name agent \<in> set ABE_BUILDABLE_AGENTS"
proof -
  let ?seat = "normalize_agent_name agent"
  show gate: "fst (seat_gate g ?seat AbeDispatch Unattended False) = Inr ()"
    using assms by (cases "fst (seat_gate g ?seat AbeDispatch Unattended False)")
      (simp_all add: check_abe_worker_def Let_def)
  obtain r where r: "seat_profile ?seat = Some r" "abe_buildable r"
    using assms gate
    by (cases "seat_profile ?seat")
      (auto simp: check_abe_worker_def abe_buildable_for_row_def Let_def split: if_splits)
  then have "key r = ?seat" "r \<in> set SEATS" using seat_profile_Some by auto
  then show "?seat \<in> set ABE_BUILDABLE_AGENTS"
    using buildable_rows r(2) by (auto simp: list_all_iff)
qed

lemma buildable_cases:
  "seat \<in> set ABE_BUILDABLE_AGENTS \<Longrightarrow>
     is_writer_seat seat \<or> seat = ''grok'' \<or> seat = ''claude'' \<or> seat = ''codex''"
  by (auto simp: ABE_BUILDABLE_AGENTS_def is_writer_seat_def)

lemma grok_worker_line:
  assumes "build_grok_invocation_with_sandbox env bin extra prompt cwd sid resume sb = Inr gi"
  shows "inv_program gi = bin" and "last (inv_args gi) = prompt"
  using assms unfolding build_grok_invocation_with_sandbox_def by (auto elim: build_grok_Inr)

lemma seat_run_command_Inr:
  assumes "seat_run_command env exe fs surface seat wt prompt msg secs = (fs', Inr (prog, args))"
  shows "is_writer_seat seat" and "self_bin env exe = Inr prog"
    and "take 3 args = [''seat-run'', ''--seat'', seat]"
    and "files fs (prompt_file_path wt seat) = None"
    and "files fs' = (files fs)(prompt_file_path wt seat \<mapsto> prompt)"
  using assms
  by (auto simp: seat_run_command_def Let_def split: if_splits sum.splits option.splits prod.splits)

text \<open>C31: a worker for a worktree is only ever started for the seat that was asked for. Its name is
  one of the buildable agents and the gate opened for it; the three writer seats run as \<open>seat-run\<close> of
  the daemon's own binary, with the prompt in a file that was not there before, and the others run their
  own command with the prompt as the last word and no file touched. No other agent is substituted.\<close>

theorem worktree_worker_is_the_seat:
  assumes "build_worktree_worker_argv g exe command_for agent prompt wt dirs perms msg secs
             = (fs', Inr (prog, args))"
  shows "normalize_agent_name agent \<in> set ABE_BUILDABLE_AGENTS
    \<and> fst (seat_gate g (normalize_agent_name agent) AbeDispatch Unattended False) = Inr ()
    \<and> (if is_writer_seat (normalize_agent_name agent)
       then self_bin (env_var g) exe = Inr prog
          \<and> take 3 args = [''seat-run'', ''--seat'', normalize_agent_name agent]
          \<and> files (fs_now g) (prompt_file_path wt (normalize_agent_name agent)) = None
          \<and> files fs' = (files (fs_now g))(prompt_file_path wt (normalize_agent_name agent) \<mapsto> prompt)
       else prog = fst (command_for (normalize_agent_name agent)) \<and> last args = prompt \<and> fs' = fs_now g)"
proof -
  let ?seat = "normalize_agent_name agent"
  obtain u where u: "check_abe_worker g agent = Inr u"
    using assms by (cases "check_abe_worker g agent") (simp_all add: build_worktree_worker_argv_def Let_def)
  note ok = check_abe_worker_ok [OF u]
  show ?thesis
  proof (cases "is_writer_seat ?seat")
    case True
    then obtain m outer where
      "seat_run_command (env_var g) exe (fs_now g) ''abe'' ?seat wt prompt m outer = (fs', Inr (prog, args))"
      using assms u
      by (auto simp: build_worktree_worker_argv_def is_writer_seat_def Let_def
          split: option.splits if_splits)
    from seat_run_command_Inr [OF this] show ?thesis using True ok by simp
  next
    case False
    then consider "?seat = ''grok''" | "?seat = ''claude''" | "?seat = ''codex''"
      using buildable_cases [OF ok(2)] by blast
    then have "prog = fst (command_for ?seat) \<and> last args = prompt \<and> fs' = fs_now g"
    proof cases
      case 1
      then show ?thesis using assms u
        by (auto simp: build_worktree_worker_argv_def Let_def grok_worker_line
            split: sum.splits prod.splits)
    qed (use assms u in \<open>auto simp: build_worktree_worker_argv_def Let_def split: prod.splits\<close>)
    then show ?thesis using False ok by simp
  qed
qed

definition codex_gate :: gate_env where
  "codex_gate = \<lparr>env_var = (\<lambda>_. None), installed_versions = (\<lambda>_. None),
     fs_now = \<lparr>files = (\<lambda>_. None), io_error = (\<lambda>_. None), partial_len = 0\<rparr>,
     codec = \<lparr>dec_verified = (\<lambda>_. Inl ''no''), dec_suspended = (\<lambda>_. Inl ''no''),
       enc_verified = (\<lambda>_. Inl ''no''), enc_suspended = (\<lambda>_. Inl ''no'')\<rparr>\<rparr>"

theorem worktree_worker_is_the_seat_witness:
  "last (snd (projr (snd (build_worktree_worker_argv codex_gate (Inr ''/bin/triumvirate'')
       (\<lambda>a. (''/bin/'' @ a, [])) ''Codex'' ''fix it'' ''/wt'' [''/repo/.git''] None None None)))) = ''fix it''"
proof -
  let ?r = "build_worktree_worker_argv codex_gate (Inr ''/bin/triumvirate'')
       (\<lambda>a. (''/bin/'' @ a, [])) ''Codex'' ''fix it'' ''/wt'' [''/repo/.git''] None None None"
  have "isl (snd ?r) = False" by code_simp
  then have r: "?r = (fst ?r, Inr (fst (projr (snd ?r)), snd (projr (snd ?r))))"
    by (metis prod.collapse sum.collapse(2))
  have "\<not> is_writer_seat (normalize_agent_name ''Codex'')" by code_simp
  with worktree_worker_is_the_seat [OF r] show ?thesis by simp
qed

text \<open>Once the check has passed, the plain builder has an arm for every seat it does not send to a
  worktree: the refusal at its end is never reached.\<close>

lemma build_worker_argv_total:
  assumes "check_abe_worker g agent = Inr u" and "\<not> is_writer_seat (normalize_agent_name agent)"
    and "normalize_agent_name agent \<noteq> ''grok''"
  shows "\<exists>args. build_worker_argv g command_for agent prompt cwd =
     Inr (fst (command_for (normalize_agent_name agent)), args @ [prompt])"
proof -
  have "normalize_agent_name agent = ''claude'' \<or> normalize_agent_name agent = ''codex''"
    using buildable_cases check_abe_worker_ok(2) [OF assms(1)] assms(2,3) by blast
  then show ?thesis
    using assms by (auto simp: build_worker_argv_def Let_def split: prod.splits)
qed

lemma writer_seat_needs_worktree:
  "is_writer_seat (normalize_agent_name agent) \<Longrightarrow>
     \<exists>e. build_worker_argv g command_for agent prompt cwd = Inl e
       \<and> starts_with e ''seat_requires_worktree:''"
  by (simp add: build_worker_argv_def Let_def)

end
