(* ===== verification/Task_Tracker.thy ===== *)
theory Task_Tracker
  imports Rust_Prelude Rust_Path
begin

text \<open>
  The task tracker of the build engine (\<open>triumvirate/src/abe/task_tracker.rs\<close>) with the event
  sequencer it shares (\<open>daemon-core/src/sequencer.rs\<close>). The record of every task lives in one map
  behind one lock, so each operation is one step; what it sends (metrics, task states, worker
  lifecycle events, the terminal dispatch event, the signal to a cancelled worker) is its output.

  Shown here: the tracker refines the specification in which the first terminal transition of a task
  wins, a finished record never changes, and a dispatch reports exactly one outcome.
\<close>

datatype TaskStatus = Working | Completed | Stuck | Failed | Timeout | SetupFailed | Cancelled

datatype TransitionOutcome = Transitioned | AlreadyTerminal | NotFound

fun is_terminal :: "TaskStatus \<Rightarrow> bool" where
  "is_terminal Working = False"
| "is_terminal _ = True"

fun status_label :: "TaskStatus \<Rightarrow> string" where
  "status_label Working = ''working''"
| "status_label Completed = ''completed''"
| "status_label Failed = ''failed''"
| "status_label Timeout = ''timeout''"
| "status_label Stuck = ''stuck''"
| "status_label SetupFailed = ''setup_failed''"
| "status_label Cancelled = ''cancelled''"

record TaskOutput =
  out_commit_sha :: string
  modified_files :: "string list"
  stdout :: string
  validation_log :: "string option"
  test_output :: "string option"

text \<open>\<open>has_child\<close>: whether the record still holds the process handle.\<close>

record TaskRecord =
  task_agent :: string
  wave :: u32
  task_status :: TaskStatus
  started_at :: instant
  commit_sha :: "string option"
  exit_code :: "int option"
  error_message :: "string option"
  task_output :: "TaskOutput option"
  has_child :: bool
  worktree_path :: "path option"
  parent_session_id :: "string option"
  root_session_id :: "string option"
  dispatch_surface :: "string option"
  dispatch_repo :: "string option"
  pid :: "u32 option"

datatype WorkerLifecycleType = LcSpawned | LcCompleted | LcFailed

datatype tracker_event =
    DispatchCounted string
  | TaskState string u32 string nat "string option"
  | WorkerLifecycle WorkerLifecycleType string string "string option" "string option"
      "string option" "string option" "u64 option" u64
  | CodexDispatch string string u64 "string option" "nat option" "int option"
  | SigTerm u32
  | LocksCleaned path

record TaskTracker =
  tasks :: "string \<Rightarrow> TaskRecord option"
  metrics :: bool
  ws_events :: bool
  sequencer :: "u64 option"

definition tracker_default :: TaskTracker where
  "tracker_default = \<lparr>tasks = Map.empty, metrics = False, ws_events = False, sequencer = None\<rparr>"

definition with_observability :: "bool \<Rightarrow> TaskTracker" where
  "with_observability ws = \<lparr>tasks = Map.empty, metrics = True, ws_events = ws, sequencer = None\<rparr>"

definition with_metrics :: TaskTracker where
  "with_metrics = with_observability False"

definition with_pantheon_observability :: "u64 \<Rightarrow> TaskTracker" where
  "with_pantheon_observability next_seq =
     \<lparr>tasks = Map.empty, metrics = True, ws_events = True, sequencer = Some next_seq\<rparr>"

text \<open>\<open>EventSequencer\<close>: \<open>next\<close> returns the counter and adds one, wrapping as \<open>fetch_add\<close> does.\<close>

definition sequencer_new :: u64 where
  "sequencer_new = 1"

definition sequencer_next :: "u64 \<Rightarrow> u64 \<times> u64" where
  "sequencer_next c = (c, c + 1)"

subsection \<open>Emission\<close>

definition as_millis :: "duration \<Rightarrow> nat" where
  "as_millis d = d div 1000000"

definition elapsed_ms :: "instant \<Rightarrow> TaskRecord \<Rightarrow> nat" where
  "elapsed_ms now r = as_millis (duration_since now (started_at r))"

definition inc_dispatch_status :: "TaskTracker \<Rightarrow> string \<Rightarrow> tracker_event list" where
  "inc_dispatch_status t s = (if metrics t then [DispatchCounted s] else [])"

definition emit_task_state ::
  "TaskTracker \<Rightarrow> string \<Rightarrow> u32 \<Rightarrow> string \<Rightarrow> nat \<Rightarrow> string option \<Rightarrow> tracker_event list"
where
  "emit_task_state t task_id w s ms sha = (if ws_events t then [TaskState task_id w s ms sha] else [])"

text \<open>\<open>worker\<close> is the agent the daemon is configured to dispatch (\<open>abe_worker_agent\<close>).\<close>

definition emit_worker_lifecycle ::
  "string \<Rightarrow> TaskTracker \<Rightarrow> WorkerLifecycleType \<Rightarrow> string \<Rightarrow> string option \<Rightarrow> string option
     \<Rightarrow> string option \<Rightarrow> string option \<Rightarrow> u64 option \<Rightarrow> TaskTracker \<times> tracker_event list"
where
  "emit_worker_lifecycle worker t lc task_id parent root sha err ms =
     (case (ws_events t, sequencer t) of
        (True, Some c) \<Rightarrow>
          (case sequencer_next c of (s, c') \<Rightarrow>
             (t\<lparr>sequencer := Some c'\<rparr>, [WorkerLifecycle lc worker task_id parent root sha err ms s]))
      | _ \<Rightarrow> (t, []))"

definition emit_terminal ::
  "string option \<Rightarrow> string option \<Rightarrow> string \<Rightarrow> u64 \<Rightarrow> int option \<Rightarrow> nat option \<Rightarrow> tracker_event list"
where
  "emit_terminal surface repo outcome ms code nfiles =
     (case surface of None \<Rightarrow> [] | Some s \<Rightarrow> [CodexDispatch s outcome ms repo nfiles code])"

subsection \<open>Operations\<close>

definition put :: "TaskTracker \<Rightarrow> string \<Rightarrow> TaskRecord \<Rightarrow> TaskTracker" where
  "put t task_id r = t\<lparr>tasks := (tasks t)(task_id \<mapsto> r)\<rparr>"

definition register ::
  "string \<Rightarrow> TaskTracker \<Rightarrow> string \<Rightarrow> u32 \<Rightarrow> u32 option \<Rightarrow> path option \<Rightarrow> string option \<Rightarrow> string option
     \<Rightarrow> string \<Rightarrow> string option \<Rightarrow> string option \<Rightarrow> instant \<Rightarrow> TaskTracker \<times> tracker_event list"
where
  "register worker t task_id w child_pid wt parent root a surface repo dispatch_started_at =
     (let t1 = put t task_id \<lparr>task_agent = a, wave = w, task_status = Working,
            started_at = dispatch_started_at, commit_sha = None, exit_code = None,
            error_message = None, task_output = None, has_child = True, worktree_path = wt,
            parent_session_id = parent, root_session_id = root, dispatch_surface = surface,
            dispatch_repo = repo, pid = child_pid\<rparr>;
          e1 = emit_task_state t1 task_id w ''dispatched'' 0 None;
          e2 = emit_task_state t1 task_id w ''running'' 0 None;
          (t2, e3) = emit_worker_lifecycle worker t1 LcSpawned task_id parent root None None None
      in (t2, e1 @ e2 @ e3))"

type_synonym mark_result = "TaskTracker \<times> TransitionOutcome \<times> tracker_event list"

text \<open>The common frame of the transitions: an unknown task and a finished one are left alone.\<close>

definition guarded ::
  "TaskTracker \<Rightarrow> string \<Rightarrow> (TaskRecord \<Rightarrow> mark_result) \<Rightarrow> mark_result"
where
  "guarded t task_id f =
     (case tasks t task_id of
        None \<Rightarrow> (t, NotFound, [])
      | Some r \<Rightarrow> if is_terminal (task_status r) then (t, AlreadyTerminal, []) else f r)"

definition mark_completed ::
  "string \<Rightarrow> instant \<Rightarrow> TaskTracker \<Rightarrow> string \<Rightarrow> string \<Rightarrow> string list \<Rightarrow> string \<Rightarrow> string option
     \<Rightarrow> string option \<Rightarrow> mark_result"
where
  "mark_completed worker now t task_id sha mods so vlog tout =
     guarded t task_id (\<lambda>r.
       let r' = r\<lparr>task_status := Completed, commit_sha := Some sha,
             task_output := Some \<lparr>out_commit_sha = sha, modified_files = mods, stdout = so,
               validation_log = vlog, test_output = tout\<rparr>, has_child := False\<rparr>;
           ms = elapsed_ms now r;
           t1 = put t task_id r';
           e1 = inc_dispatch_status t ''completed'';
           e2 = emit_task_state t task_id (wave r) ''completed'' ms (Some sha);
           (t2, e3) = emit_worker_lifecycle worker t1 LcCompleted task_id (parent_session_id r)
             (root_session_id r) (Some sha) None (Some (of_nat ms));
           e4 = emit_terminal (dispatch_surface r) (dispatch_repo r) ''completed'' (of_nat ms)
             (exit_code r) (Some (length mods))
       in (t2, Transitioned, e1 @ e2 @ e3 @ e4))"

definition mark_failed ::
  "string \<Rightarrow> instant \<Rightarrow> TaskTracker \<Rightarrow> string \<Rightarrow> int option \<Rightarrow> string \<Rightarrow> mark_result"
where
  "mark_failed worker now t task_id code msg =
     guarded t task_id (\<lambda>r.
       let r' = r\<lparr>task_status := Failed, exit_code := code, error_message := Some msg, has_child := False\<rparr>;
           ms = elapsed_ms now r;
           t1 = put t task_id r';
           e1 = inc_dispatch_status t ''failed'';
           e2 = emit_task_state t task_id (wave r) ''failed'' ms (commit_sha r);
           (t2, e3) = emit_worker_lifecycle worker t1 LcFailed task_id (parent_session_id r)
             (root_session_id r) None (Some msg) (Some (of_nat ms));
           e4 = emit_terminal (dispatch_surface r) (dispatch_repo r)
             (if code = Some 0 then ''no_commit'' else ''failed'') (of_nat ms) code None
       in (t2, Transitioned, e1 @ e2 @ e3 @ e4))"

definition mark_timeout :: "instant \<Rightarrow> TaskTracker \<Rightarrow> string \<Rightarrow> mark_result" where
  "mark_timeout now t task_id =
     guarded t task_id (\<lambda>r.
       let r' = r\<lparr>task_status := Timeout, error_message := Some ''task timed out'', has_child := False\<rparr>;
           ms = elapsed_ms now r
       in (put t task_id r', Transitioned,
           inc_dispatch_status t ''timeout''
           @ emit_task_state t task_id (wave r) ''timeout'' ms (commit_sha r)
           @ emit_terminal (dispatch_surface r) (dispatch_repo r) ''timeout'' (of_nat ms) None None))"

text \<open>\<open>sentinel\<close> tells whether a path exists.\<close>

definition mark_stuck :: "(path \<Rightarrow> bool) \<Rightarrow> instant \<Rightarrow> TaskTracker \<Rightarrow> string \<Rightarrow> string \<Rightarrow> mark_result" where
  "mark_stuck sentinel now t task_id msg =
     guarded t task_id (\<lambda>r.
       if (case worktree_path r of
             Some wt \<Rightarrow> sentinel (wt @ [NormalComp ''.triumvirate'', NormalComp ''TASK_COMPLETE.json''])
           | None \<Rightarrow> False)
       then (t, AlreadyTerminal, [])
       else
         (let r' = r\<lparr>task_status := Stuck, error_message := Some msg, has_child := False\<rparr> in
          (put t task_id r', Transitioned,
           emit_terminal (dispatch_surface r) (dispatch_repo r) ''stuck'' (of_nat (elapsed_ms now r)) None None)))"

definition mark_setup_failed :: "instant \<Rightarrow> TaskTracker \<Rightarrow> string \<Rightarrow> string \<Rightarrow> mark_result" where
  "mark_setup_failed now t task_id msg =
     guarded t task_id (\<lambda>r.
       let r' = r\<lparr>task_status := SetupFailed, error_message := Some msg, has_child := False\<rparr> in
       (put t task_id r', Transitioned,
        emit_terminal (dispatch_surface r) (dispatch_repo r) ''setup_failed'' (of_nat (elapsed_ms now r)) None None))"

record CancelTaskResponse =
  cancel_task_id :: string
  cancel_status :: string
  cancel_worktree :: "string option"

text \<open>The signals to the worker are left out: SIGTERM, and ten seconds later SIGKILL when the process id is in use.\<close>

definition cancel ::
  "instant \<Rightarrow> TaskTracker \<Rightarrow> string \<Rightarrow> TaskTracker \<times> CancelTaskResponse option \<times> tracker_event list"
where
  "cancel now t task_id =
     (case tasks t task_id of
        None \<Rightarrow> (t, None, [])
      | Some r \<Rightarrow>
        if is_terminal (task_status r) then
          (t, Some \<lparr>cancel_task_id = task_id, cancel_status = ''already-'' @ status_label (task_status r),
             cancel_worktree = map_option show_path (worktree_path r)\<rparr>, [])
        else
          (let ms = elapsed_ms now r in
           (put t task_id (r\<lparr>task_status := Cancelled, has_child := False\<rparr>),
            Some \<lparr>cancel_task_id = task_id, cancel_status = ''cancelled'',
              cancel_worktree = map_option show_path (worktree_path r)\<rparr>,
            (case pid r of Some p \<Rightarrow> [SigTerm p] | None \<Rightarrow> [])
            @ (case worktree_path r of Some wt \<Rightarrow> [LocksCleaned wt] | None \<Rightarrow> [])
            @ inc_dispatch_status t ''cancelled''
            @ emit_task_state t task_id (wave r) ''cancelled'' ms None
            @ emit_terminal (dispatch_surface r) (dispatch_repo r) ''cancelled'' (of_nat ms) None None)))"

definition register_setup_failed ::
  "instant \<Rightarrow> TaskTracker \<Rightarrow> string \<Rightarrow> string \<Rightarrow> string \<Rightarrow> TaskTracker \<times> tracker_event list"
where
  "register_setup_failed now t task_id a msg =
     (put t task_id \<lparr>task_agent = a, wave = 0, task_status = SetupFailed, started_at = now,
        commit_sha = None, exit_code = None, error_message = Some msg, task_output = None,
        has_child = False, worktree_path = None, parent_session_id = None, root_session_id = None,
        dispatch_surface = None, dispatch_repo = None, pid = None\<rparr>,
      emit_task_state t task_id 0 ''failed'' 0 None)"

subsection \<open>Readers\<close>

record GetTaskStatusResponse =
  st_task_id :: string
  st_status :: TaskStatus
  st_elapsed_sec :: "nat option"
  st_commit_sha :: "string option"
  st_exit_code :: "int option"
  st_error_message :: "string option"

definition get_status :: "instant \<Rightarrow> TaskTracker \<Rightarrow> string \<Rightarrow> GetTaskStatusResponse option" where
  "get_status now t task_id =
     map_option (\<lambda>r. \<lparr>st_task_id = task_id, st_status = task_status r,
       st_elapsed_sec = Some (as_secs (duration_since now (started_at r))), st_commit_sha = commit_sha r,
       st_exit_code = exit_code r, st_error_message = error_message r\<rparr>) (tasks t task_id)"

definition get_output :: "TaskTracker \<Rightarrow> string \<Rightarrow> (string \<times> TaskOutput) option" where
  "get_output t task_id =
     Option.bind (tasks t task_id) (\<lambda>r. map_option (\<lambda>out. (task_id, out)) (task_output r))"

definition task_exists :: "TaskTracker \<Rightarrow> string \<Rightarrow> bool" where
  "task_exists t task_id \<longleftrightarrow> tasks t task_id \<noteq> None"

definition worktree_path_for :: "TaskTracker \<Rightarrow> string \<Rightarrow> path option" where
  "worktree_path_for t task_id = Option.bind (tasks t task_id) worktree_path"

definition elapsed_for :: "instant \<Rightarrow> TaskTracker \<Rightarrow> string \<Rightarrow> duration option" where
  "elapsed_for now t task_id = map_option (\<lambda>r. duration_since now (started_at r)) (tasks t task_id)"

definition status_for :: "TaskTracker \<Rightarrow> string \<Rightarrow> TaskStatus option" where
  "status_for t task_id = map_option task_status (tasks t task_id)"

subsection \<open>Sequences of operations\<close>

datatype tracker_op =
    OpCompleted (op_id: string) string "string list" string "string option" "string option"
  | OpFailed (op_id: string) "int option" string
  | OpTimeout (op_id: string)
  | OpStuck (op_id: string) string
  | OpSetupFailed (op_id: string) string
  | OpCancel (op_id: string)
  | OpRegister (op_id: string) u32 "u32 option" "path option" "string option" "string option" string
      "string option" "string option" instant
  | OpRegisterSetupFailed (op_id: string) string string

text \<open>A step is an operation with the time and the sentinel files it meets.\<close>

type_synonym tracker_step = "tracker_op \<times> instant \<times> (path \<Rightarrow> bool)"

fun exec_step :: "string \<Rightarrow> tracker_step \<Rightarrow> TaskTracker \<Rightarrow> TaskTracker \<times> tracker_event list" where
  "exec_step worker (OpCompleted i sha mods so vlog tout, now, sentinel) t =
     (case mark_completed worker now t i sha mods so vlog tout of (t', _, evs) \<Rightarrow> (t', evs))"
| "exec_step worker (OpFailed i code msg, now, sentinel) t =
     (case mark_failed worker now t i code msg of (t', _, evs) \<Rightarrow> (t', evs))"
| "exec_step worker (OpTimeout i, now, sentinel) t =
     (case mark_timeout now t i of (t', _, evs) \<Rightarrow> (t', evs))"
| "exec_step worker (OpStuck i msg, now, sentinel) t =
     (case mark_stuck sentinel now t i msg of (t', _, evs) \<Rightarrow> (t', evs))"
| "exec_step worker (OpSetupFailed i msg, now, sentinel) t =
     (case mark_setup_failed now t i msg of (t', _, evs) \<Rightarrow> (t', evs))"
| "exec_step worker (OpCancel i, now, sentinel) t =
     (case cancel now t i of (t', _, evs) \<Rightarrow> (t', evs))"
| "exec_step worker (OpRegister i w p wt parent root a surface repo at0, now, sentinel) t =
     register worker t i w p wt parent root a surface repo at0"
| "exec_step worker (OpRegisterSetupFailed i a msg, now, sentinel) t =
     register_setup_failed now t i a msg"

text \<open>A run with its events, each tagged with the task whose operation sent it.\<close>

fun tracker_run ::
  "string \<Rightarrow> tracker_step list \<Rightarrow> TaskTracker \<Rightarrow> TaskTracker \<times> (string \<times> tracker_event) list"
where
  "tracker_run worker [] t = (t, [])"
| "tracker_run worker (x # xs) t =
     (let (t1, evs) = exec_step worker x t; (t2, rest) = tracker_run worker xs t1
      in (t2, map (\<lambda>e. (op_id (fst x), e)) evs @ rest))"

fun registers :: "tracker_op \<Rightarrow> bool" where
  "registers (OpRegister _ _ _ _ _ _ _ _ _ _) = True"
| "registers (OpRegisterSetupFailed _ _ _) = True"
| "registers _ = False"

fun op_final :: "tracker_op \<Rightarrow> TaskStatus" where
  "op_final (OpCompleted _ _ _ _ _ _) = Completed"
| "op_final (OpFailed _ _ _) = Failed"
| "op_final (OpTimeout _) = Timeout"
| "op_final (OpStuck _ _) = Stuck"
| "op_final (OpSetupFailed _ _) = SetupFailed"
| "op_final (OpCancel _) = Cancelled"
| "op_final (OpRegister _ _ _ _ _ _ _ _ _ _) = Working"
| "op_final (OpRegisterSetupFailed _ _ _) = SetupFailed"

fun dispatch_outcome :: "tracker_event \<Rightarrow> string option" where
  "dispatch_outcome (CodexDispatch _ out _ _ _ _) = Some out"
| "dispatch_outcome _ = None"

definition outcomes :: "tracker_event list \<Rightarrow> string list" where
  "outcomes evs = List.map_filter dispatch_outcome evs"

definition outcomes_of :: "string \<Rightarrow> (string \<times> tracker_event) list \<Rightarrow> string list" where
  "outcomes_of i evs = outcomes (map snd (filter (\<lambda>(j, _). j = i) evs))"

definition final_outcome :: "TaskRecord \<Rightarrow> string" where
  "final_outcome r =
     (if task_status r = Failed \<and> exit_code r = Some 0 then ''no_commit'' else status_label (task_status r))"

definition reported :: "TaskRecord \<Rightarrow> string list" where
  "reported r = (if task_status r = Working \<or> dispatch_surface r = None then [] else [final_outcome r])"

lemma outcomes_append [simp]: "outcomes (xs @ ys) = outcomes xs @ outcomes ys"
  by (simp add: outcomes_def List.map_filter_def)

lemma outcomes_simps [simp]:
  "outcomes [] = []"
  "outcomes (inc_dispatch_status t s) = []"
  "outcomes (emit_task_state t i w st ms sha) = []"
  "outcomes (snd (emit_worker_lifecycle worker t lc i p r sha err el)) = []"
  "outcomes (emit_terminal sf repo out ms64 code nf) = (case sf of None \<Rightarrow> [] | Some _ \<Rightarrow> [out])"
  "outcomes (SigTerm p' # evs) = outcomes evs"
  "outcomes (LocksCleaned wt # evs) = outcomes evs"
  by (auto simp: outcomes_def List.map_filter_def inc_dispatch_status_def emit_task_state_def
      emit_worker_lifecycle_def sequencer_next_def emit_terminal_def split: option.split bool.split)

lemma tasks_lifecycle [simp]: "tasks (fst (emit_worker_lifecycle worker t lc i p r sha err el)) = tasks t"
  by (auto simp: emit_worker_lifecycle_def sequencer_next_def split: option.split bool.split)

lemma tasks_put [simp]: "tasks (put t i r) = (tasks t)(i \<mapsto> r)"
  by (simp add: put_def)

lemma guarded_cases:
  assumes "guarded t i f = (t', oc, evs)"
  obtains (left_alone) "t' = t" "evs = []" "status_for t i \<noteq> Some Working"
  | (moved) r where "tasks t i = Some r" "task_status r = Working" "f r = (t', oc, evs)"
proof (cases "tasks t i")
  case None
  then show ?thesis using assms left_alone by (simp add: guarded_def status_for_def)
next
  case (Some r)
  show ?thesis
  proof (cases "task_status r = Working")
    case True
    then show ?thesis using assms Some moved by (simp add: guarded_def)
  next
    case False
    then have "is_terminal (task_status r)" by (cases "task_status r") auto
    then show ?thesis using assms Some False left_alone by (simp add: guarded_def status_for_def)
  qed
qed

text \<open>What a transition does to the tasks and to the reported outcomes.\<close>

definition moved_to ::
  "tracker_op \<Rightarrow> TaskTracker \<Rightarrow> TaskTracker \<Rightarrow> tracker_event list \<Rightarrow> TaskRecord \<Rightarrow> TaskRecord \<Rightarrow> bool"
where
  "moved_to op t t' evs r r' \<longleftrightarrow> tasks t' = (tasks t)(op_id op \<mapsto> r') \<and> task_status r' = op_final op
     \<and> dispatch_surface r' = dispatch_surface r \<and> outcomes evs = reported r'"

definition moves_once :: "tracker_op \<Rightarrow> TaskTracker \<Rightarrow> TaskTracker \<Rightarrow> tracker_event list \<Rightarrow> bool" where
  "moves_once op t t' evs \<longleftrightarrow>
     tasks t' = tasks t \<and> outcomes evs = [] \<and> (status_for t (op_id op) \<noteq> Some Working \<or> is_OpStuck op)
     \<or> (\<exists>r r'. tasks t (op_id op) = Some r \<and> task_status r = Working \<and> moved_to op t t' evs r r')"

lemma moves_once_guarded:
  assumes g: "guarded t (op_id op) f = (t', oc, evs)"
    and f: "\<And>r. tasks t (op_id op) = Some r \<Longrightarrow> task_status r = Working \<Longrightarrow> f r = (t', oc, evs) \<Longrightarrow>
      tasks t' = tasks t \<and> outcomes evs = [] \<and> is_OpStuck op \<or> moved_to op t t' evs r (the (tasks t' (op_id op)))"
  shows "moves_once op t t' evs"
  using g
proof (cases rule: guarded_cases)
  case left_alone
  then show ?thesis by (simp add: moves_once_def)
next
  case (moved r)
  then show ?thesis using f [OF moved] by (auto simp: moves_once_def)
qed

lemma moves_completed:
  assumes "mark_completed worker now t i sha mods so vlog tout = (t', oc, evs)"
  shows "moves_once (OpCompleted i sha mods so vlog tout) t t' evs"
  by (rule moves_once_guarded [where op = "OpCompleted i sha mods so vlog tout", unfolded tracker_op.sel,
        OF assms [unfolded mark_completed_def]])
    (auto simp: Let_def split_beta moved_to_def reported_def final_outcome_def split: option.splits if_splits)

lemma moves_failed:
  assumes "mark_failed worker now t i code msg = (t', oc, evs)"
  shows "moves_once (OpFailed i code msg) t t' evs"
  by (rule moves_once_guarded [where op = "OpFailed i code msg", unfolded tracker_op.sel,
        OF assms [unfolded mark_failed_def]])
    (auto simp: Let_def split_beta moved_to_def reported_def final_outcome_def split: option.splits if_splits)

lemma moves_timeout:
  assumes "mark_timeout now t i = (t', oc, evs)"
  shows "moves_once (OpTimeout i) t t' evs"
  by (rule moves_once_guarded [where op = "OpTimeout i", unfolded tracker_op.sel,
        OF assms [unfolded mark_timeout_def]])
    (auto simp: Let_def moved_to_def reported_def final_outcome_def split: option.splits if_splits)

lemma moves_stuck:
  assumes "mark_stuck sentinel now t i msg = (t', oc, evs)"
  shows "moves_once (OpStuck i msg) t t' evs"
  by (rule moves_once_guarded [where op = "OpStuck i msg", unfolded tracker_op.sel,
        OF assms [unfolded mark_stuck_def]])
    (auto simp: Let_def moved_to_def reported_def final_outcome_def split: option.splits if_splits)

lemma moves_setup_failed:
  assumes "mark_setup_failed now t i msg = (t', oc, evs)"
  shows "moves_once (OpSetupFailed i msg) t t' evs"
  by (rule moves_once_guarded [where op = "OpSetupFailed i msg", unfolded tracker_op.sel,
        OF assms [unfolded mark_setup_failed_def]])
    (auto simp: Let_def moved_to_def reported_def final_outcome_def split: option.splits if_splits)

lemma not_terminal [simp]: "\<not> is_terminal s \<longleftrightarrow> s = Working"
  by (cases s) auto

lemma moves_cancel:
  assumes "cancel now t i = (t', oc, evs)"
  shows "moves_once (OpCancel i) t t' evs"
proof (cases "\<exists>r. tasks t i = Some r \<and> task_status r = Working")
  case True
  then obtain r where r: "tasks t i = Some r" "task_status r = Working" by blast
  have "moved_to (OpCancel i) t t' evs r (the (tasks t' i))"
    using assms r
    by (auto simp: cancel_def moved_to_def Let_def reported_def final_outcome_def split: option.splits)
  then show ?thesis using r by (auto simp: moves_once_def)
next
  case False
  then show ?thesis
    using assms by (auto simp: cancel_def moves_once_def status_for_def split: option.splits if_splits)
qed

lemmas moves_lemmas = moves_completed moves_failed moves_timeout moves_stuck moves_setup_failed moves_cancel

lemma exec_step_moves_once:
  "\<not> registers (fst x) \<Longrightarrow> exec_step worker x t = (t', evs) \<Longrightarrow> moves_once (fst x) t t' evs"
  by (cases "(worker, x, t)" rule: exec_step.cases)
    (auto intro: moves_lemmas split: prod.splits)

lemma exec_step_register_other:
  assumes "registers (fst x)" and "exec_step worker x t = (t', evs)" and "j \<noteq> op_id (fst x)"
  shows "tasks t' j = tasks t j"
  using assms
  by (cases "(worker, x, t)" rule: exec_step.cases)
    (auto simp: register_def register_setup_failed_def Let_def split_beta)

subsection \<open>One outcome per dispatch\<close>

text \<open>A run in which the task is not registered again, seen from that task.\<close>

lemma tracker_run_task:
  assumes "tasks t i = Some r" and "\<forall>x \<in> set xs. registers (fst x) \<longrightarrow> op_id (fst x) \<noteq> i"
    and "tracker_run worker xs t = (t', evs)"
  shows "\<exists>r'. tasks t' i = Some r' \<and> dispatch_surface r' = dispatch_surface r
    \<and> (task_status r \<noteq> Working \<longrightarrow> r' = r \<and> outcomes_of i evs = [])
    \<and> (task_status r = Working \<longrightarrow> outcomes_of i evs = reported r')"
  using assms
proof (induction xs arbitrary: t r evs)
  case Nil
  then show ?case by (simp add: outcomes_of_def reported_def)
next
  case (Cons x xs)
  obtain t1 e1 where e1: "exec_step worker x t = (t1, e1)" by fastforce
  obtain e2 where e2: "tracker_run worker xs t1 = (t', e2)"
    and evs: "evs = map (\<lambda>e. (op_id (fst x), e)) e1 @ e2"
    using Cons.prems(3) e1 by (auto simp: Let_def split: prod.splits)
  have tag: "outcomes_of i evs = (if op_id (fst x) = i then outcomes e1 else []) @ outcomes_of i e2"
    by (simp add: outcomes_of_def evs filter_map comp_def)
  have rest: "\<forall>x \<in> set xs. registers (fst x) \<longrightarrow> op_id (fst x) \<noteq> i" using Cons.prems(2) by simp
  consider (same) "tasks t1 i = Some r" "op_id (fst x) = i \<longrightarrow> outcomes e1 = []"
    | (moved) r1 where "op_id (fst x) = i" "task_status r = Working" "tasks t1 i = Some r1"
        "task_status r1 = op_final (fst x)" "dispatch_surface r1 = dispatch_surface r"
        "outcomes e1 = reported r1" "\<not> registers (fst x)"
  proof (cases "registers (fst x)")
    case True
    then show ?thesis using exec_step_register_other [OF True e1, of i] Cons.prems(1,2) same by auto
  next
    case False
    then show ?thesis
      using exec_step_moves_once [OF False e1] Cons.prems(1) same moved
      by (cases "op_id (fst x) = i") (auto simp: moves_once_def moved_to_def)
  qed
  then show ?case
  proof cases
    case same
    then show ?thesis using Cons.IH [OF same(1) rest e2] tag by auto
  next
    case moved
    then have "task_status r1 \<noteq> Working" by (cases "fst x") auto
    then show ?thesis using Cons.IH [OF moved(3) rest e2] tag moved by auto
  qed
qed

text \<open>C15: a dispatch reports exactly one outcome. From the registration of a task on, whatever the
  monitor, the watchdog, the supervisor and callers that cancel do and in whatever order, as long as
  the task is working no outcome event has been sent for it, and once it is finished exactly one has,
  naming the way it finished (a clean exit that committed nothing as \<open>no_commit\<close>).\<close>

theorem dispatch_reports_once:
  assumes "tasks t i = Some r" and "task_status r = Working" and "dispatch_surface r = Some s"
    and "\<forall>x \<in> set xs. registers (fst x) \<longrightarrow> op_id (fst x) \<noteq> i"
    and "tracker_run worker xs t = (t', evs)"
  shows "\<exists>r'. tasks t' i = Some r'
    \<and> outcomes_of i evs = (if task_status r' = Working then [] else [final_outcome r'])"
  using tracker_run_task [OF assms(1,4,5)] assms(2,3) by (auto simp: reported_def)

text \<open>A finished record never changes: no later operation on the task, short of registering its
  name anew, alters any field of it or reports a second outcome. In particular a cancellation that
  won stays \<open>cancelled\<close> when the monitor reaps the worker.\<close>

theorem finished_is_final:
  assumes "tasks t i = Some r" and "is_terminal (task_status r)"
    and "\<forall>x \<in> set xs. registers (fst x) \<longrightarrow> op_id (fst x) \<noteq> i"
    and "tracker_run worker xs t = (t', evs)"
  shows "tasks t' i = Some r \<and> outcomes_of i evs = []"
proof -
  have "task_status r \<noteq> Working" using assms(2) by auto
  then show ?thesis using tracker_run_task [OF assms(1,3,4)] by blast
qed

subsection \<open>The specification: the first terminal transition wins\<close>

inductive first_wins ::
  "(string \<Rightarrow> TaskStatus option) \<Rightarrow> tracker_op \<Rightarrow> (string \<Rightarrow> TaskStatus option) \<Rightarrow> bool"
where
  fw_register: "registers op \<Longrightarrow> first_wins m op (m(op_id op \<mapsto> op_final op))"
| fw_first: "\<not> registers op \<Longrightarrow> m (op_id op) = Some Working \<Longrightarrow> first_wins m op (m(op_id op \<mapsto> op_final op))"
| fw_late: "\<not> registers op \<Longrightarrow> m (op_id op) \<noteq> Some Working \<Longrightarrow> first_wins m op m"
| fw_sentinel: "is_OpStuck op \<Longrightarrow> first_wins m op m"

inductive_cases first_wins_stuckE: "first_wins m (OpStuck i msg) m'"

lemma exec_step_register:
  assumes "registers (fst x)" and "exec_step worker x t = (t', evs)"
  shows "status_for t' = (status_for t)(op_id (fst x) \<mapsto> op_final (fst x))"
  using assms
  by (cases "(worker, x, t)" rule: exec_step.cases)
    (auto simp: register_def register_setup_failed_def status_for_def fun_eq_iff Let_def split_beta)

text \<open>C24: the tracker refines the specification. Seen through the status of each task, every operation
  is a step of the automaton in which registering starts a task, the first terminal transition of a
  working task decides it, and every later one changes nothing; only a watchdog that meets the
  worker's completion file may leave a working task alone.\<close>

theorem tracker_refines_first_wins:
  assumes "exec_step worker x t = (t', evs)"
  shows "first_wins (status_for t) (fst x) (status_for t')"
proof (cases "registers (fst x)")
  case True
  then show ?thesis using exec_step_register [OF True assms] by (simp add: fw_register)
next
  case False
  from exec_step_moves_once [OF False assms] consider
    (kept) "status_for t' = status_for t" "status_for t (op_id (fst x)) \<noteq> Some Working \<or> is_OpStuck (fst x)"
  | (moved) "status_for t (op_id (fst x)) = Some Working"
      "status_for t' = (status_for t)(op_id (fst x) \<mapsto> op_final (fst x))"
    by (fastforce simp: moves_once_def moved_to_def status_for_def fun_eq_iff)
  then show ?thesis
  proof cases
    case kept
    then show ?thesis using False fw_late fw_sentinel by metis
  next
    case moved
    then show ?thesis using False fw_first by metis
  qed
qed

subsection \<open>A cancelled task\<close>

definition ex_registered :: TaskTracker where
  "ex_registered = fst (register ''codex'' tracker_default ''t1'' 1 (Some 42) None None None ''codex''
     (Some ''dispatch_codex'') None 0)"

definition ex_steps :: "tracker_step list" where
  "ex_steps = [(OpCancel ''t1'', 5, \<lambda>_. False), (OpFailed ''t1'' (Some 143) ''killed'', 6, \<lambda>_. False)]"

lemma ex_registered_task:
  "\<exists>r. tasks ex_registered ''t1'' = Some r \<and> task_status r = Working
     \<and> dispatch_surface r = Some ''dispatch_codex''"
  by (simp add: ex_registered_def register_def tracker_default_def put_def emit_worker_lifecycle_def
      emit_task_state_def Let_def)

theorem dispatch_reports_once_witness:
  "\<exists>r'. tasks (fst (tracker_run ''codex'' ex_steps ex_registered)) ''t1'' = Some r'
     \<and> outcomes_of ''t1'' (snd (tracker_run ''codex'' ex_steps ex_registered)) =
         (if task_status r' = Working then [] else [final_outcome r'])"
proof -
  obtain r where r: "tasks ex_registered ''t1'' = Some r" "task_status r = Working"
    "dispatch_surface r = Some ''dispatch_codex''" using ex_registered_task by blast
  have "\<forall>x \<in> set ex_steps. registers (fst x) \<longrightarrow> op_id (fst x) \<noteq> ''t1''" by (simp add: ex_steps_def)
  from dispatch_reports_once [OF r this surjective_pairing] show ?thesis .
qed

theorem finished_is_final_witness:
  "status_for (fst (tracker_run ''codex'' [(OpFailed ''t1'' (Some 143) ''killed'', 6, \<lambda>_. False)]
     (fst (cancel 5 ex_registered ''t1'')))) ''t1'' = Some Cancelled"
proof -
  obtain r where r: "tasks ex_registered ''t1'' = Some r" "task_status r = Working"
    using ex_registered_task by blast
  then have c: "tasks (fst (cancel 5 ex_registered ''t1'')) ''t1'' =
      Some (r\<lparr>task_status := Cancelled, has_child := False\<rparr>)"
    by (simp add: cancel_def Let_def)
  have "tasks (fst (tracker_run ''codex'' [(OpFailed ''t1'' (Some 143) ''killed'', 6, \<lambda>_. False)]
      (fst (cancel 5 ex_registered ''t1'')))) ''t1'' = Some (r\<lparr>task_status := Cancelled, has_child := False\<rparr>)"
    by (rule finished_is_final [OF c _ _ surjective_pairing, THEN conjunct1]) simp_all
  then show ?thesis by (simp add: status_for_def)
qed

theorem tracker_refines_first_wins_witness:
  "first_wins (status_for ex_registered) (OpTimeout ''t1'')
     (status_for (fst (exec_step ''codex'' (OpTimeout ''t1'', 9, \<lambda>_. False) ex_registered)))"
  using tracker_refines_first_wins [of "''codex''" "(OpTimeout ''t1'', 9, \<lambda>_. False)" ex_registered,
      OF surjective_pairing] by simp

end
