(* ===== verification/Abe_Build.thy ===== *)
theory Abe_Build
  imports Complex_Main Abe_Plan Task_Tracker
begin

text \<open>
  A build: its persisted artifacts (\<open>triumvirate/src/abe/build_artifacts.rs\<close>), the orchestrator that
  runs a plan wave by wave (\<open>triumvirate/src/abe/orchestrator.rs\<close>), and the reconciliation after a
  restart (\<open>triumvirate/src/abe/resume.rs\<close>).

  The disk answers every call on its own: the fault of the \<open>n\<close>-th call is \<open>faults n\<close>, and a write that
  fails half way leaves the file truncated, as \<open>fs::write\<close> does. The backend is asynchronous, so the run
  is driven by the list of completions it delivers: which of the running futures finishes next and with
  what result. A run that has used up the list is \<open>Blocked\<close> at its \<open>await\<close>; quantifying over the list
  covers every interleaving and every prefix of it. Errors are the chain of contexts, outermost first.
\<close>

subsection \<open>The disk\<close>

datatype io_fault = OpenFails string | WriteFails string nat

record disk =
  dfiles :: "string \<Rightarrow> string option"
  io_clock :: nat
  faults :: "nat \<Rightarrow> io_fault option"

type_synonym chain = "string list"

fun fault_text :: "io_fault \<Rightarrow> string" where
  "fault_text (OpenFails e) = e"
| "fault_text (WriteFails e _) = e"

definition tick :: "disk \<Rightarrow> disk" where
  "tick d = d\<lparr>io_clock := Suc (io_clock d)\<rparr>"

definition fs_write :: "disk \<Rightarrow> string \<Rightarrow> string \<Rightarrow> disk \<times> (string + unit)" where
  "fs_write d path bytes =
     (case faults d (io_clock d) of
        None \<Rightarrow> ((tick d)\<lparr>dfiles := (dfiles d)(path \<mapsto> bytes)\<rparr>, Inr ())
      | Some (OpenFails e) \<Rightarrow> (tick d, Inl e)
      | Some (WriteFails e k) \<Rightarrow> ((tick d)\<lparr>dfiles := (dfiles d)(path \<mapsto> take k bytes)\<rparr>, Inl e))"

definition fs_read :: "disk \<Rightarrow> string \<Rightarrow> disk \<times> (string + string)" where
  "fs_read d path =
     (tick d,
      case faults d (io_clock d) of
        Some f \<Rightarrow> Inl (fault_text f)
      | None \<Rightarrow> (case dfiles d path of Some b \<Rightarrow> Inr b
                 | None \<Rightarrow> Inl ''No such file or directory (os error 2)''))"

text \<open>\<open>Path::exists\<close> is false when the call fails.\<close>

definition fs_exists :: "disk \<Rightarrow> string \<Rightarrow> disk \<times> bool" where
  "fs_exists d path = (tick d, faults d (io_clock d) = None \<and> dfiles d path \<noteq> None)"

subsection \<open>build_artifacts.rs\<close>

record BuildState =
  build_id :: string
  plan_path :: string
  current_wave :: u32
  tasks_completed :: "string list"
  tasks_remaining :: "string list"
  tasks_running :: "string list"
  tasks_failed :: "string list"
  validation_pass_rate :: rat
  collateral_fix_count :: u32
  last_commit_sha :: string
  wave_0_sha :: string
  max_parallel :: u32
  build_timeout_sec :: "u64 option"
  build_started_at :: string
  updated_at :: string

text \<open>\<open>serde_json\<close> at the build state.\<close>

record build_codec =
  enc_state :: "BuildState \<Rightarrow> string + string"
  dec_state :: "string \<Rightarrow> string + BuildState"

definition update_state :: "build_codec \<Rightarrow> string \<Rightarrow> BuildState \<Rightarrow> disk \<Rightarrow> disk \<times> (chain + unit)" where
  "update_state js path st d =
     (case enc_state js st of
        Inl e \<Rightarrow> (d, Inl [''failed to serialize BUILD_STATE payload for '' @ path, e])
      | Inr payload \<Rightarrow>
        (case fs_write d path payload of
           (d', Inl e) \<Rightarrow> (d', Inl [''failed to write BUILD_STATE file at '' @ path, e])
         | (d', Inr _) \<Rightarrow> (d', Inr ())))"

definition read_state :: "build_codec \<Rightarrow> string \<Rightarrow> disk \<Rightarrow> disk \<times> (chain + BuildState)" where
  "read_state js path d =
     (case fs_read d path of
        (d', Inl e) \<Rightarrow> (d', Inl [''failed to read BUILD_STATE file at '' @ path, e])
      | (d', Inr raw) \<Rightarrow>
        (d', case dec_state js raw of
           Inl e \<Rightarrow> Inl [''failed to parse BUILD_STATE JSON from '' @ path, e]
         | Inr st \<Rightarrow> Inr st))"

text \<open>Both logs are appended to by reading the file, adding the text and writing it whole; a file that
  does not exist is first given its heading.\<close>

definition append_log ::
  "string \<Rightarrow> string \<Rightarrow> string \<Rightarrow> string \<Rightarrow> disk \<Rightarrow> disk \<times> (chain + unit)"
where
  "append_log name heading path entry d =
     (let (d1, present) = fs_exists d path;
          (d2, init) = (if present then (d1, Inr ()) else fs_write d1 path heading)
      in case init of
           Inl e \<Rightarrow> (d2, Inl [''failed to initialize '' @ name @ '' at '' @ path, e])
         | Inr _ \<Rightarrow>
           (case fs_read d2 path of
              (d3, Inl e) \<Rightarrow> (d3, Inl [''failed to read '' @ name @ '' at '' @ path, e])
            | (d3, Inr existing) \<Rightarrow>
              (case fs_write d3 path (existing @ entry) of
                 (d4, Inl e) \<Rightarrow> (d4, Inl [''failed to append to '' @ name @ '' at '' @ path, e])
               | (d4, Inr _) \<Rightarrow> (d4, Inr ()))))"

definition manifest_heading :: string where
  "manifest_heading =
     ''## BUILD_MANIFEST'' @ [nl_char, nl_char]
     @ ''| task_id | req_ids | wave | files_modified | attempts | commit_sha | validation | gemini_review | timestamp |''
     @ [nl_char] @ ''|---|---|---|---|---|---|---|---|---|'' @ [nl_char]"

definition manifest_row ::
  "string \<Rightarrow> string list \<Rightarrow> string \<Rightarrow> u32 \<Rightarrow> string list \<Rightarrow> u32 \<Rightarrow> string \<Rightarrow> string \<Rightarrow> string \<Rightarrow> string"
where
  "manifest_row tid reqs sha w fs attempts validation review ts =
     ''| '' @ tid @ '' | '' @ join '','' reqs @ '' | '' @ show_nat (unat w) @ '' | '' @ join '','' fs @ '' | ''
       @ show_nat (unat attempts) @ '' | '' @ sha @ '' | '' @ validation @ '' | '' @ review @ '' | '' @ ts @ '' |''
       @ [nl_char]"

definition append_manifest ::
  "string \<Rightarrow> string \<Rightarrow> string list \<Rightarrow> string \<Rightarrow> u32 \<Rightarrow> string list \<Rightarrow> u32 \<Rightarrow> string \<Rightarrow> string \<Rightarrow> string
     \<Rightarrow> disk \<Rightarrow> disk \<times> (chain + unit)"
where
  "append_manifest path tid reqs sha w fs attempts validation review ts =
     append_log ''BUILD_MANIFEST'' manifest_heading path
       (manifest_row tid reqs sha w fs attempts validation review ts)"

definition deviation_heading :: string where
  "deviation_heading = ''## DEVIATION_LOG'' @ [nl_char, nl_char]"

definition deviation_entry :: "string \<Rightarrow> string \<Rightarrow> string \<Rightarrow> string \<Rightarrow> string \<Rightarrow> string" where
  "deviation_entry tid severity summary classification ts =
     ''### '' @ ts @ '' - '' @ tid @ [nl_char] @ ''- severity: '' @ severity @ [nl_char]
       @ ''- class: '' @ classification @ [nl_char] @ ''- summary: '' @ summary @ [nl_char, nl_char]"

definition append_deviation ::
  "string \<Rightarrow> string \<Rightarrow> string \<Rightarrow> string \<Rightarrow> string \<Rightarrow> string \<Rightarrow> disk \<Rightarrow> disk \<times> (chain + unit)"
where
  "append_deviation path tid severity summary classification ts =
     append_log ''DEVIATION_LOG'' deviation_heading path (deviation_entry tid severity summary classification ts)"

subsection \<open>orchestrator.rs\<close>

record TaskResult =
  tr_task_id :: string
  tr_status :: string
  tr_commit_sha :: string
  tr_modified_files :: "string list"
  tr_attempts :: u32

record build_paths =
  p_plan :: string
  p_state :: string
  p_manifest :: string
  p_deviation :: string

text \<open>What the run traces.\<close>

datatype build_event = WaveStarted u32 nat | DispatchStarted string u32 nat
  | CollateralFix string "string list" | TaskCompleted string string

record orch =
  o_state :: BuildState
  o_disk :: disk
  o_pending :: "PlanTask list"
  o_running :: "PlanTask list"
  o_log :: "build_event list"

record completion =
  c_pick :: nat
  c_outcome :: "chain + TaskResult"
  c_time :: string

datatype orch_result = Blocked orch | WaveDone orch "completion list" | Returned orch "chain + unit"

text \<open>\<open>anyhow::Context\<close>, and writing the state with a context.\<close>

definition persist ::
  "build_codec \<Rightarrow> build_paths \<Rightarrow> string \<Rightarrow> BuildState \<Rightarrow> orch \<Rightarrow> orch \<times> (chain + unit)"
where
  "persist js ps ctx st run =
     (case update_state js (p_state ps) st (o_disk run) of
        (d, Inl e) \<Rightarrow> (run\<lparr>o_state := st, o_disk := d\<rparr>, Inl (ctx # e))
      | (d, Inr _) \<Rightarrow> (run\<lparr>o_state := st, o_disk := d\<rparr>, Inr ()))"

text \<open>The inner \<open>while\<close>: start tasks until the limit is reached or none is pending.\<close>

fun dispatch_fill ::
  "build_codec \<Rightarrow> build_paths \<Rightarrow> nat \<Rightarrow> PlanTask list \<Rightarrow> orch \<Rightarrow> orch \<times> (chain + unit)"
where
  "dispatch_fill js ps maxp [] run = (run\<lparr>o_pending := []\<rparr>, Inr ())"
| "dispatch_fill js ps maxp (t # ts) run =
     (if length (o_running run) < maxp then
        (let st = o_state run;
             run1 = run\<lparr>o_log := o_log run @ [DispatchStarted (pt_task_id t) (pt_wave t)
                       (length (cf_allowed_files (pt_contract_fields t)))]\<rparr>
         in case persist js ps
                   (''failed to persist running state for task '' @ pt_task_id t @ '' in '' @ p_state ps)
                   (st\<lparr>tasks_running := tasks_running st @ [pt_task_id t]\<rparr>) run1 of
              (run2, Inl e) \<Rightarrow> (run2, Inl e)
            | (run2, Inr _) \<Rightarrow> dispatch_fill js ps maxp ts (run2\<lparr>o_running := o_running run2 @ [t]\<rparr>))
      else (run\<lparr>o_pending := t # ts\<rparr>, Inr ()))"

definition log_call ::
  "(disk \<Rightarrow> disk \<times> (chain + unit)) \<Rightarrow> string \<Rightarrow> orch \<Rightarrow> orch \<times> (chain + unit)"
where
  "log_call f ctx run =
     (case f (o_disk run) of
        (d, Inl e) \<Rightarrow> (run\<lparr>o_disk := d\<rparr>, Inl (ctx # e))
      | (d, Inr _) \<Rightarrow> (run\<lparr>o_disk := d\<rparr>, Inr ()))"

definition extra_files :: "PlanTask \<Rightarrow> TaskResult \<Rightarrow> string list" where
  "extra_files t r = filter (\<lambda>f. f \<notin> set (cf_allowed_files (pt_contract_fields t))) (tr_modified_files r)"

text \<open>What happens to a finished task: the completed branch and the failed branch, then the state is
  written again.\<close>

definition record_completed ::
  "build_paths \<Rightarrow> PlanTask \<Rightarrow> TaskResult \<Rightarrow> string \<Rightarrow> orch \<Rightarrow> orch \<times> (chain + unit)"
where
  "record_completed ps t r ts run =
     (let st = o_state run; tid = pt_task_id t;
          run1 = run\<lparr>o_state := st\<lparr>tasks_completed := tasks_completed st @ [tid],
                                    tasks_remaining := filter (\<lambda>x. x \<noteq> tid) (tasks_remaining st)\<rparr>,
                     o_log := o_log run
                       @ (if extra_files t r \<noteq> [] then [CollateralFix tid (extra_files t r)] else [])
                       @ [TaskCompleted tid (tr_commit_sha r)]\<rparr>
      in case log_call (append_manifest (p_manifest ps) tid [pt_req t] (tr_commit_sha r) (pt_wave t)
                (tr_modified_files r) (tr_attempts r) ''PASS'' ''clean'' ts)
                (''failed to append manifest row for task '' @ tid @ '' at '' @ p_manifest ps) run1 of
           (run2, Inl e) \<Rightarrow> (run2, Inl e)
         | (run2, Inr _) \<Rightarrow>
             log_call (append_deviation (p_deviation ps) tid ''info'' ''clean - no deviations'' ''none'' ts)
               (''failed to append deviation row for task '' @ tid @ '' at '' @ p_deviation ps) run2)"

definition record_failed ::
  "build_paths \<Rightarrow> PlanTask \<Rightarrow> string \<Rightarrow> orch \<Rightarrow> orch \<times> (chain + unit)"
where
  "record_failed ps t ts run =
     (let st = o_state run; tid = pt_task_id t in
      log_call (append_deviation (p_deviation ps) tid ''error'' ''task failed'' ''worker-error'' ts)
        (''failed to append failure deviation row for task '' @ tid @ '' at '' @ p_deviation ps)
        (run\<lparr>o_state := st\<lparr>tasks_failed := tasks_failed st @ [tid]\<rparr>\<rparr>))"

definition finish_task ::
  "build_codec \<Rightarrow> build_paths \<Rightarrow> PlanTask \<Rightarrow> TaskResult \<Rightarrow> string \<Rightarrow> orch \<Rightarrow> orch \<times> (chain + unit)"
where
  "finish_task js ps t r ts run =
     (let st = o_state run;
          run0 = run\<lparr>o_state := st\<lparr>tasks_running := filter (\<lambda>x. x \<noteq> pt_task_id t) (tasks_running st)\<rparr>\<rparr>
      in case (if eq_ignore_ascii_case (tr_status r) ''completed'' then record_completed ps t r ts run0
               else record_failed ps t ts run0) of
           (run1, Inl e) \<Rightarrow> (run1, Inl e)
         | (run1, Inr _) \<Rightarrow>
             persist js ps (''failed to persist post-task state for '' @ pt_task_id t @ '' in '' @ p_state ps)
               (o_state run1) run1)"

text \<open>The \<open>loop\<close> of one wave; a completion picks one of the running futures.\<close>

fun wave_loop :: "build_codec \<Rightarrow> build_paths \<Rightarrow> nat \<Rightarrow> completion list \<Rightarrow> orch \<Rightarrow> orch_result" where
  "wave_loop js ps maxp [] run =
     (case dispatch_fill js ps maxp (o_pending run) run of
        (run1, Inl e) \<Rightarrow> Returned run1 (Inl e)
      | (run1, Inr _) \<Rightarrow> if o_running run1 = [] then WaveDone run1 [] else Blocked run1)"
| "wave_loop js ps maxp (c # cs) run =
     (case dispatch_fill js ps maxp (o_pending run) run of
        (run1, Inl e) \<Rightarrow> Returned run1 (Inl e)
      | (run1, Inr _) \<Rightarrow>
        if o_running run1 = [] then WaveDone run1 (c # cs)
        else
          (let i = c_pick c mod length (o_running run1);
               t = o_running run1 ! i;
               run2 = run1\<lparr>o_running := take i (o_running run1) @ drop (Suc i) (o_running run1)\<rparr>
           in case c_outcome c of
                Inl e \<Rightarrow> Returned run2 (Inl e)
              | Inr r \<Rightarrow>
                (case finish_task js ps t r (c_time c) run2 of
                   (run3, Inl e) \<Rightarrow> Returned run3 (Inl e)
                 | (run3, Inr _) \<Rightarrow> wave_loop js ps maxp cs run3)))"

fun run_waves ::
  "build_codec \<Rightarrow> build_paths \<Rightarrow> nat \<Rightarrow> (u32 \<times> PlanTask list) list \<Rightarrow> completion list \<Rightarrow> orch \<Rightarrow> orch_result"
where
  "run_waves js ps maxp [] cs run = Returned run (Inr ())"
| "run_waves js ps maxp ((w, ts) # ws) cs run =
     (let run0 = run\<lparr>o_log := o_log run @ [WaveStarted w (length ts)]\<rparr> in
      case persist js ps
             (''failed to persist state while starting wave '' @ show_nat (unat w) @ '' in '' @ p_state ps)
             ((o_state run)\<lparr>current_wave := w\<rparr>) run0 of
        (run1, Inl e) \<Rightarrow> Returned run1 (Inl e)
      | (run1, Inr _) \<Rightarrow>
        (case wave_loop js ps maxp cs (run1\<lparr>o_pending := ts, o_running := []\<rparr>) of
           WaveDone run2 cs' \<Rightarrow> run_waves js ps maxp ws cs' run2
         | res \<Rightarrow> res))"

definition outstanding :: "BuildState \<Rightarrow> PlanTask list \<Rightarrow> PlanTask list" where
  "outstanding st plan = filter (\<lambda>t. pt_task_id t \<notin> set (tasks_completed st)) plan"

definition add_to_wave :: "PlanTask \<Rightarrow> (u32, PlanTask list) btree_map \<Rightarrow> (u32, PlanTask list) btree_map" where
  "add_to_wave t m =
     bt_insert (pt_wave t) ((case bt_get m (pt_wave t) of Some ts \<Rightarrow> ts | None \<Rightarrow> []) @ [t]) m"

definition group_waves :: "PlanTask list \<Rightarrow> (u32, PlanTask list) btree_map" where
  "group_waves plan = fold add_to_wave plan bt_empty"

text \<open>\<open>run_orchestrator\<close>: an error before the first wave starts has no run to report.\<close>

definition run_orchestrator ::
  "build_codec \<Rightarrow> build_paths \<Rightarrow> nat \<Rightarrow> completion list \<Rightarrow> disk \<Rightarrow> chain + orch_result"
where
  "run_orchestrator js ps maxp cs d =
     (case read_state js (p_state ps) d of
        (_, Inl e) \<Rightarrow> Inl ((''failed to load orchestrator build state from '' @ p_state ps) # e)
      | (d1, Inr st) \<Rightarrow>
        (case fs_read d1 (p_plan ps) of
           (_, Inl e) \<Rightarrow> Inl [''failed to parse plan file at '' @ p_plan ps,
                              ''failed to read implementation plan at '' @ p_plan ps, e]
         | (d2, Inr content) \<Rightarrow>
             (case parse_plan (Inr content) of
                Inl e \<Rightarrow> Inl [''failed to parse plan file at '' @ p_plan ps, e]
              | Inr plan \<Rightarrow>
                  Inr (run_waves js ps maxp (group_waves (outstanding st plan)) cs
                    \<lparr>o_state = st, o_disk = d2, o_pending = [], o_running = [], o_log = []\<rparr>))))"

subsection \<open>resume.rs\<close>

record ResumeResult =
  first_incomplete_task :: "string option"
  recovered_running_tasks :: "string list"

fun reconcile ::
  "(string \<Rightarrow> TaskStatus option) \<Rightarrow> string list \<Rightarrow> BuildState \<times> string list \<Rightarrow> BuildState \<times> string list"
where
  "reconcile lookup [] acc = acc"
| "reconcile lookup (t # ts) (st, recovered) =
     (case lookup t of
        Some Completed \<Rightarrow>
          reconcile lookup ts
            (st\<lparr>tasks_running := filter (\<lambda>x. x \<noteq> t) (tasks_running st),
                tasks_completed := (if t \<in> set (tasks_completed st) then tasks_completed st
                                    else tasks_completed st @ [t]),
                tasks_remaining := filter (\<lambda>x. x \<noteq> t) (tasks_remaining st)\<rparr>, recovered @ [t])
      | Some Working \<Rightarrow> reconcile lookup ts (st, recovered)
      | _ \<Rightarrow>
          reconcile lookup ts
            (st\<lparr>tasks_running := filter (\<lambda>x. x \<noteq> t) (tasks_running st),
                tasks_failed := (if t \<in> set (tasks_failed st) then tasks_failed st
                                 else tasks_failed st @ [t])\<rparr>, recovered))"

definition resume_from_state ::
  "build_codec \<Rightarrow> string \<Rightarrow> (string \<Rightarrow> TaskStatus option) \<Rightarrow> disk \<Rightarrow> chain + (BuildState \<times> ResumeResult)"
where
  "resume_from_state js path lookup d =
     (case snd (read_state js path d) of
        Inl e \<Rightarrow> Inl e
      | Inr st0 \<Rightarrow>
        (let (st, recovered) = reconcile lookup (tasks_running st0) (st0, []) in
         Inr (st, \<lparr>first_incomplete_task =
                     find (\<lambda>t. t \<notin> set (tasks_completed st)) (tasks_remaining st),
                   recovered_running_tasks = recovered\<rparr>)))"


subsection \<open>Steps of a run\<close>

definition settled :: "BuildState \<Rightarrow> string set" where
  "settled st = set (tasks_completed st) \<union> set (tasks_failed st)"

lemma persist_fields:
  "persist js ps ctx st run = (run', r) \<Longrightarrow>
     o_state run' = st \<and> o_pending run' = o_pending run \<and> o_running run' = o_running run
     \<and> o_log run' = o_log run"
  by (auto simp: persist_def split: prod.splits sum.splits)

lemma log_call_fields:
  "log_call f ctx run = (run', r) \<Longrightarrow>
     o_state run' = o_state run \<and> o_pending run' = o_pending run \<and> o_running run' = o_running run
     \<and> o_log run' = o_log run"
  by (auto simp: log_call_def split: prod.splits sum.splits)

lemma dispatch_fill_Inr:
  assumes "dispatch_fill js ps maxp ts run = (run', Inr u)"
  shows "\<exists>k \<le> length ts. o_running run' = o_running run @ take k ts \<and> o_pending run' = drop k ts
     \<and> (length (o_running run) \<le> maxp \<longrightarrow> length (o_running run') \<le> maxp)
     \<and> (o_pending run' \<noteq> [] \<longrightarrow> maxp \<le> length (o_running run'))
     \<and> tasks_running (o_state run') = tasks_running (o_state run) @ map pt_task_id (take k ts)
     \<and> current_wave (o_state run') = current_wave (o_state run)
     \<and> tasks_completed (o_state run') = tasks_completed (o_state run)
     \<and> tasks_failed (o_state run') = tasks_failed (o_state run)
     \<and> tasks_remaining (o_state run') = tasks_remaining (o_state run)"
  using assms
proof (induction js ps maxp ts run rule: dispatch_fill.induct)
  case (1 js ps maxp run)
  then show ?case by auto
next
  case (2 js ps maxp t ts run)
  show ?case
  proof (cases "length (o_running run) < maxp")
    case False
    with 2 show ?thesis by (intro exI [of _ 0]) auto
  next
    case True
    let ?run1 = "run\<lparr>o_log := o_log run @ [DispatchStarted (pt_task_id t) (pt_wave t)
                       (length (cf_allowed_files (pt_contract_fields t)))]\<rparr>"
    let ?st = "(o_state run)\<lparr>tasks_running := tasks_running (o_state run) @ [pt_task_id t]\<rparr>"
    let ?ctx = "''failed to persist running state for task '' @ pt_task_id t @ '' in '' @ p_state ps"
    obtain run2 r where p: "persist js ps ?ctx ?st ?run1 = (run2, r)" by fastforce
    then obtain v where r: "r = Inr v" using "2.prems" True by (cases r) (simp_all add: Let_def)
    note f = persist_fields [OF p]
    have "dispatch_fill js ps maxp ts (run2\<lparr>o_running := o_running run2 @ [t]\<rparr>) = (run', Inr u)"
      using "2.prems" True p r by (simp add: Let_def)
    from "2.IH" [OF True refl refl p [symmetric] r this] obtain k where
      "k \<le> length ts" "o_running run' = (o_running run @ [t]) @ take k ts" "o_pending run' = drop k ts"
      "length (o_running run @ [t]) \<le> maxp \<longrightarrow> length (o_running run') \<le> maxp"
      "o_pending run' \<noteq> [] \<longrightarrow> maxp \<le> length (o_running run')"
      "tasks_running (o_state run') = tasks_running ?st @ map pt_task_id (take k ts)"
      "current_wave (o_state run') = current_wave ?st"
      "tasks_completed (o_state run') = tasks_completed ?st"
      "tasks_failed (o_state run') = tasks_failed ?st"
      "tasks_remaining (o_state run') = tasks_remaining ?st"
      using f by auto
    with True show ?thesis by (intro exI [of _ "Suc k"]) auto
  qed
qed

lemma finish_task_Inr:
  assumes "finish_task js ps t r ts run = (run', Inr u)"
  shows "o_pending run' = o_pending run \<and> o_running run' = o_running run
    \<and> current_wave (o_state run') = current_wave (o_state run)
    \<and> settled (o_state run') = insert (pt_task_id t) (settled (o_state run))
    \<and> tasks_running (o_state run') = filter (\<lambda>x. x \<noteq> pt_task_id t) (tasks_running (o_state run))
    \<and> tasks_completed (o_state run') = tasks_completed (o_state run)
        @ (if eq_ignore_ascii_case (tr_status r) ''completed'' then [pt_task_id t] else [])"
  using assms
  by (auto simp: finish_task_def record_completed_def record_failed_def settled_def Let_def
      split: if_splits prod.splits sum.splits dest!: persist_fields log_call_fields)


text \<open>The invariant of a wave: only its own tasks wait or run, no more than the limit run, and every task
  of the wave waits, runs or is settled.\<close>

definition wave_inv :: "u32 \<Rightarrow> nat \<Rightarrow> PlanTask list \<Rightarrow> orch \<Rightarrow> bool" where
  "wave_inv w maxp ts run \<longleftrightarrow>
     current_wave (o_state run) = w \<and> length (o_running run) \<le> maxp
     \<and> set (o_pending run) \<union> set (o_running run) \<subseteq> set ts
     \<and> (\<forall>t \<in> set ts. pt_task_id t \<in> settled (o_state run)
          \<or> t \<in> set (o_pending run) \<or> t \<in> set (o_running run))"

lemma wave_inv_pos: "wave_inv w maxp ts run \<Longrightarrow> o_running run \<noteq> [] \<Longrightarrow> 0 < maxp"
  by (cases "o_running run") (auto simp: wave_inv_def)

abbreviation waiting :: "orch \<Rightarrow> nat" where
  "waiting run \<equiv> length (o_pending run) + length (o_running run)"

lemma dispatch_fill_inv:
  assumes "dispatch_fill js ps maxp (o_pending run) run = (run', Inr u)" and "wave_inv w maxp ts run"
  shows "wave_inv w maxp ts run'" and "waiting run' = waiting run"
    and "settled (o_state run') = settled (o_state run)"
    and "o_pending run' \<noteq> [] \<Longrightarrow> maxp \<le> length (o_running run')"
proof -
  from dispatch_fill_Inr [OF assms(1)] obtain k where k: "k \<le> length (o_pending run)"
    "o_running run' = o_running run @ take k (o_pending run)" "o_pending run' = drop k (o_pending run)"
    "length (o_running run) \<le> maxp \<longrightarrow> length (o_running run') \<le> maxp"
    "o_pending run' \<noteq> [] \<longrightarrow> maxp \<le> length (o_running run')"
    "current_wave (o_state run') = current_wave (o_state run)"
    "tasks_completed (o_state run') = tasks_completed (o_state run)"
    "tasks_failed (o_state run') = tasks_failed (o_state run)"
    by auto
  have pend: "set (o_pending run) = set (o_pending run') \<union> set (take k (o_pending run))"
    by (metis append_take_drop_id k(3) set_append sup_commute)
  show s: "settled (o_state run') = settled (o_state run)" using k by (simp add: settled_def)
  show "wave_inv w maxp ts run'" using assms(2) k(2,4,6) pend s by (auto simp: wave_inv_def)
  show "waiting run' = waiting run" using k(1,2,3) by simp
  show "o_pending run' \<noteq> [] \<Longrightarrow> maxp \<le> length (o_running run')" using k(5) by blast
qed

lemma remove_nth_set: "i < length xs \<Longrightarrow> set xs = insert (xs ! i) (set (take i xs @ drop (Suc i) xs))"
  using id_take_nth_drop [of i xs] by (metis Un_insert_right list.simps(15) set_append)

lemma finish_task_inv:
  assumes fin: "finish_task js ps (o_running run ! i) r ts
      (run\<lparr>o_running := take i (o_running run) @ drop (Suc i) (o_running run)\<rparr>) = (run', Inr u)"
    and inv: "wave_inv w maxp tasks' run" and i: "i < length (o_running run)"
  shows "wave_inv w maxp tasks' run'" and "Suc (waiting run') = waiting run"
    and "settled (o_state run) \<subseteq> settled (o_state run')"
proof -
  note f = finish_task_Inr [OF fin, simplified]
  show "settled (o_state run) \<subseteq> settled (o_state run')" using f by auto
  show "Suc (waiting run') = waiting run" using f i by auto
  show "wave_inv w maxp tasks' run'"
    using f inv i remove_nth_set [OF i] by (auto simp: wave_inv_def)
qed

text \<open>One wave, for every list of completions: where it waits it obeys its invariant and has used all of
  them; when it is done it used one per task it no longer holds, and with a limit above zero it holds
  none.\<close>

lemma wave_loop_result:
  assumes "wave_inv w maxp ts run"
  shows "case wave_loop js ps maxp cs run of
     Blocked run' \<Rightarrow> wave_inv w maxp ts run' \<and> o_running run' \<noteq> []
       \<and> length cs < waiting run \<and> settled (o_state run) \<subseteq> settled (o_state run')
   | WaveDone run' cs' \<Rightarrow> wave_inv w maxp ts run' \<and> o_running run' = []
       \<and> (maxp > 0 \<longrightarrow> o_pending run' = []) \<and> length cs' + waiting run = length cs + waiting run'
       \<and> settled (o_state run) \<subseteq> settled (o_state run')
   | Returned run' res \<Rightarrow> \<exists>e. res = Inl e"
  using assms
proof (induction js ps maxp cs run rule: wave_loop.induct)
  case (1 js ps maxp run)
  obtain run1 r where fill: "dispatch_fill js ps maxp (o_pending run) run = (run1, r)" by fastforce
  show ?case
  proof (cases r)
    case (Inl e)
    with fill show ?thesis by simp
  next
    case (Inr u)
    note f = dispatch_fill_inv [OF fill [unfolded Inr] "1.prems"]
    show ?thesis
      using f fill Inr by (cases "o_running run1") auto
  qed
next
  case (2 js ps maxp c cs run)
  obtain run1 r where fill: "dispatch_fill js ps maxp (o_pending run) run = (run1, r)" by fastforce
  show ?case
  proof (cases r)
    case (Inl e)
    with fill show ?thesis by simp
  next
    case (Inr u)
    note f = dispatch_fill_inv [OF fill [unfolded Inr] "2.prems"]
    show ?thesis
    proof (cases "o_running run1 = []")
      case True
      with f fill Inr show ?thesis by auto
    next
      case False
      let ?i = "c_pick c mod length (o_running run1)"
      let ?run2 = "run1\<lparr>o_running := take ?i (o_running run1) @ drop (Suc ?i) (o_running run1)\<rparr>"
      have i: "?i < length (o_running run1)" using False by simp
      show ?thesis
      proof (cases "c_outcome c")
        case (Inl e)
        with fill Inr False show ?thesis by (simp add: Let_def)
      next
        case res: (Inr res)
        obtain run3 r3 where fin: "finish_task js ps (o_running run1 ! ?i) res (c_time c) ?run2 = (run3, r3)"
          by fastforce
        show ?thesis
        proof (cases r3)
          case (Inl e)
          with fill Inr False res fin show ?thesis by (simp add: Let_def)
        next
          case r3: (Inr v)
          note g = finish_task_inv [OF fin [unfolded r3] f(1) i]
          have step: "wave_loop js ps maxp (c # cs) run = wave_loop js ps maxp cs run3"
            using fill Inr False res fin r3 by (simp add: Let_def)
          have "case wave_loop js ps maxp cs run3 of
             Blocked run' \<Rightarrow> wave_inv w maxp ts run' \<and> o_running run' \<noteq> []
               \<and> length cs < waiting run3 \<and> settled (o_state run3) \<subseteq> settled (o_state run')
           | WaveDone run' cs' \<Rightarrow> wave_inv w maxp ts run' \<and> o_running run' = []
               \<and> (maxp > 0 \<longrightarrow> o_pending run' = []) \<and> length cs' + waiting run3 = length cs + waiting run'
               \<and> settled (o_state run3) \<subseteq> settled (o_state run')
           | Returned run' res \<Rightarrow> \<exists>e. res = Inl e"
            using "2.IH" [OF fill [symmetric] Inr False refl refl refl res fin [symmetric] r3 g(1)] .
          then show ?thesis
            unfolding step using f(2,3) g(2,3) by (auto split: orch_result.splits)
        qed
      qed
    qed
  qed
qed


subsection \<open>The waves of a plan\<close>

lemma group_waves_get:
  "bt_invar (group_waves plan) \<and>
   bt_get (group_waves plan) w =
     (let ts = filter (\<lambda>t. pt_wave t = w) plan in if ts = [] then None else Some ts)"
proof (induction plan arbitrary: w rule: rev_induct)
  case Nil
  then show ?case by (simp add: group_waves_def bt_invar_def bt_get_def)
next
  case (snoc t plan)
  have "group_waves (plan @ [t]) = add_to_wave t (group_waves plan)" by (simp add: group_waves_def)
  then show ?case
    using snoc [of w] snoc [of "pt_wave t"]
    by (auto simp: add_to_wave_def bt_invar_insert bt_get_insert Let_def filter_empty_conv)
qed

lemma group_waves_entries:
  "(w, ts) \<in> set (group_waves plan) \<longleftrightarrow> ts = filter (\<lambda>t. pt_wave t = w) plan \<and> ts \<noteq> []"
proof -
  have "(w, ts) \<in> set (group_waves plan) \<longleftrightarrow> bt_get (group_waves plan) w = Some ts"
    using bt.get_iff_entries [of "group_waves plan" w ts] group_waves_get [of plan w] by simp
  then show ?thesis using group_waves_get [of plan w] by (auto simp: Let_def)
qed

lemma sum_partition:
  "distinct ws \<Longrightarrow> (\<forall>x \<in> set xs. f x \<in> set ws) \<Longrightarrow>
     sum_list (map (\<lambda>w. length (filter (\<lambda>x. f x = w) xs)) ws) = length xs"
proof (induction xs)
  case Nil
  then show ?case by (induction ws) auto
next
  case (Cons x xs)
  have "distinct ws" and "f x \<in> set ws" using Cons.prems by simp_all
  then have one: "sum_list (map (\<lambda>w. if f x = w then 1 else (0::nat)) ws) = 1"
    by (induction ws) (auto simp: sum_list_0)
  have "sum_list (map (\<lambda>w. length (filter (\<lambda>x. f x = w) (x # xs))) ws) =
      sum_list (map (\<lambda>w. (if f x = w then 1 else 0) + length (filter (\<lambda>x. f x = w) xs)) ws)"
    by (rule arg_cong [where f = sum_list]) (rule map_cong, simp_all)
  then show ?case using Cons one by (simp add: sum_list_addf)
qed

lemma group_waves_total: "sum_list (map (length \<circ> snd) (group_waves plan)) = length plan"
proof -
  let ?g = "group_waves plan"
  have "map (length \<circ> snd) ?g = map (\<lambda>w. length (filter (\<lambda>t. pt_wave t = w) plan)) (map fst ?g)"
    using group_waves_entries by (auto intro!: map_cong)
  moreover have "distinct (map fst ?g)" using bt_invar_distinct group_waves_get by blast
  moreover have "\<forall>t \<in> set plan. pt_wave t \<in> set (map fst ?g)"
  proof
    fix t assume "t \<in> set plan"
    then have "(pt_wave t, filter (\<lambda>u. pt_wave u = pt_wave t) plan) \<in> set ?g"
      using group_waves_entries by (auto simp: filter_empty_conv)
    then show "pt_wave t \<in> set (map fst ?g)" by force
  qed
  ultimately show ?thesis using sum_partition by metis
qed

text \<open>All waves: where the run waits it is inside one of them with every earlier one settled.\<close>

lemma run_waves_result:
  assumes "maxp > 0 \<longrightarrow> (\<forall>t \<in> old. pt_task_id t \<in> settled (o_state run))"
  shows "case run_waves js ps maxp ws cs run of
     Blocked run' \<Rightarrow> \<exists>before w ts after. ws = before @ (w, ts) # after \<and> wave_inv w maxp ts run'
       \<and> o_running run' \<noteq> [] \<and> length cs < sum_list (map (length \<circ> snd) ws)
       \<and> (\<forall>t \<in> old \<union> set (concat (map snd before)). pt_task_id t \<in> settled (o_state run'))
   | WaveDone run' cs' \<Rightarrow> False
   | Returned run' res \<Rightarrow> res = Inr () \<and> maxp > 0 \<longrightarrow>
       (\<forall>t \<in> old \<union> set (concat (map snd ws)). pt_task_id t \<in> settled (o_state run'))"
  using assms
proof (induction js ps maxp ws cs run arbitrary: old rule: run_waves.induct)
  case (1 js ps maxp cs run)
  then show ?case by simp
next
  case (2 js ps maxp w ts ws cs run)
  let ?run0 = "run\<lparr>o_log := o_log run @ [WaveStarted w (length ts)]\<rparr>"
  let ?ctx = "''failed to persist state while starting wave '' @ show_nat (unat w) @ '' in '' @ p_state ps"
  obtain run1 r where p: "persist js ps ?ctx ((o_state run)\<lparr>current_wave := w\<rparr>) ?run0 = (run1, r)"
    by fastforce
  show ?case
  proof (cases r)
    case (Inl e)
    with p show ?thesis by (simp add: Let_def)
  next
    case (Inr u)
    let ?start = "run1\<lparr>o_pending := ts, o_running := []\<rparr>"
    have st: "o_state run1 = (o_state run)\<lparr>current_wave := w\<rparr>" using persist_fields [OF p] by simp
    then have s0: "settled (o_state ?start) = settled (o_state run)" by (simp add: settled_def)
    have inv: "wave_inv w maxp ts ?start" by (simp add: wave_inv_def st)
    note res = wave_loop_result [OF inv, where js = js and ps = ps and cs = cs]
    have run: "run_waves js ps maxp ((w, ts) # ws) cs run =
        (case wave_loop js ps maxp cs ?start of WaveDone run2 cs' \<Rightarrow> run_waves js ps maxp ws cs' run2
           | res \<Rightarrow> res)"
      using p Inr by (simp add: Let_def)
    show ?thesis
    proof (cases "wave_loop js ps maxp cs ?start")
      case (Blocked run')
      with res have b: "wave_inv w maxp ts run'" "o_running run' \<noteq> []" "length cs < length ts"
        "settled (o_state run) \<subseteq> settled (o_state run')" using s0 by auto
      then have "maxp > 0" using wave_inv_pos by blast
      then have "\<forall>t \<in> old. pt_task_id t \<in> settled (o_state run')" using "2.prems" b(4) by blast
      with b show ?thesis
        unfolding run Blocked by (auto intro!: exI [of _ "[]"])
    next
      case (WaveDone run2 cs')
      with res have d: "wave_inv w maxp ts run2" "o_running run2 = []" "maxp > 0 \<longrightarrow> o_pending run2 = []"
        "length cs' + length ts = length cs + length (o_pending run2)"
        "settled (o_state run) \<subseteq> settled (o_state run2)" using s0 by auto
      have done_all: "maxp > 0 \<longrightarrow> (\<forall>t \<in> old \<union> set ts. pt_task_id t \<in> settled (o_state run2))"
        using d(1-3,5) "2.prems" by (auto simp: wave_inv_def)
      have ih: "case run_waves js ps maxp ws cs' run2 of
           Blocked run' \<Rightarrow> \<exists>before w' ts' after. ws = before @ (w', ts') # after \<and> wave_inv w' maxp ts' run'
             \<and> o_running run' \<noteq> [] \<and> length cs' < sum_list (map (length \<circ> snd) ws)
             \<and> (\<forall>t \<in> (old \<union> set ts) \<union> set (concat (map snd before)). pt_task_id t \<in> settled (o_state run'))
         | WaveDone run' cs' \<Rightarrow> False
         | Returned run' res \<Rightarrow> res = Inr () \<and> maxp > 0 \<longrightarrow>
             (\<forall>t \<in> (old \<union> set ts) \<union> set (concat (map snd ws)). pt_task_id t \<in> settled (o_state run'))"
        by (rule "2.IH" [OF refl p [symmetric] Inr WaveDone done_all])
      show ?thesis
      proof (cases "run_waves js ps maxp ws cs' run2")
        case (Blocked run')
        with ih obtain before w' ts' after where b: "ws = before @ (w', ts') # after"
          "wave_inv w' maxp ts' run'" "o_running run' \<noteq> []" "length cs' < sum_list (map (length \<circ> snd) ws)"
          "\<forall>t \<in> (old \<union> set ts) \<union> set (concat (map snd before)). pt_task_id t \<in> settled (o_state run')"
          by auto
        then have "maxp > 0" using wave_inv_pos by blast
        then have "length cs < length ts + sum_list (map (length \<circ> snd) ws)" using d(3,4) b(4) by simp
        with b show ?thesis
          unfolding run WaveDone orch_result.case Blocked
          by (intro exI [of _ "(w, ts) # before"] exI [of _ w'] exI [of _ ts'] exI [of _ after]) auto
      next
        case (WaveDone run' cs'')
        with ih show ?thesis by simp
      next
        case (Returned run' res')
        with ih show ?thesis unfolding run WaveDone orch_result.case by auto
      qed
    next
      case (Returned run' res')
      with res show ?thesis unfolding run Returned by auto
    qed
  qed
qed


subsection \<open>The orchestrator\<close>

text \<open>What a run starts from: the state and the plan on the disk.\<close>

definition loaded :: "build_codec \<Rightarrow> build_paths \<Rightarrow> disk \<Rightarrow> (BuildState \<times> PlanTask list) option" where
  "loaded js ps d =
     (case read_state js (p_state ps) d of
        (_, Inl e) \<Rightarrow> None
      | (d1, Inr st) \<Rightarrow>
        (case snd (fs_read d1 (p_plan ps)) of
           Inl e \<Rightarrow> None
         | Inr content \<Rightarrow> (case parse_plan (Inr content) of Inl e \<Rightarrow> None | Inr plan \<Rightarrow> Some (st, plan))))"

lemma run_orchestrator_loaded:
  assumes "loaded js ps d = Some (st, plan)"
  obtains d2 where "run_orchestrator js ps maxp cs d =
    Inr (run_waves js ps maxp (group_waves (outstanding st plan)) cs
      \<lparr>o_state = st, o_disk = d2, o_pending = [], o_running = [], o_log = []\<rparr>)"
proof -
  obtain d1 where r: "read_state js (p_state ps) d = (d1, Inr st)"
    using assms by (auto simp: loaded_def split: prod.splits sum.splits)
  obtain d2 c where f: "fs_read d1 (p_plan ps) = (d2, Inr c)" and p: "parse_plan (Inr c) = Inr plan"
    using assms by (auto simp: loaded_def r split: prod.splits sum.splits) (metis prod.collapse)
  show thesis by (rule that [of d2]) (simp add: run_orchestrator_def r f p)
qed

text \<open>C32: a build always returns. However the backend orders its completions and whatever it reports,
  once it has delivered one completion for every task of the plan that was not yet completed, the run is
  not waiting any more: it has returned, with success or with the first error.\<close>

theorem orchestrator_returns:
  assumes "loaded js ps d = Some (st, plan)" and "length (outstanding st plan) \<le> length cs"
  shows "\<exists>run r. run_orchestrator js ps maxp cs d = Inr (Returned run r)"
proof -
  obtain d2 where run: "run_orchestrator js ps maxp cs d =
      Inr (run_waves js ps maxp (group_waves (outstanding st plan)) cs
        \<lparr>o_state = st, o_disk = d2, o_pending = [], o_running = [], o_log = []\<rparr>)"
    by (rule run_orchestrator_loaded [OF assms(1)])
  have "case run_waves js ps maxp (group_waves (outstanding st plan)) cs
        \<lparr>o_state = st, o_disk = d2, o_pending = [], o_running = [], o_log = []\<rparr> of
      Blocked _ \<Rightarrow> length cs < length (outstanding st plan) | WaveDone _ _ \<Rightarrow> False | Returned _ _ \<Rightarrow> True"
    using run_waves_result [where old = "{}" and js = js and ps = ps and maxp = maxp and cs = cs
        and ws = "group_waves (outstanding st plan)"
        and run = "\<lparr>o_state = st, o_disk = d2, o_pending = [], o_running = [], o_log = []\<rparr>"]
    by (auto simp: group_waves_total split: orch_result.splits)
  with assms(2) run show ?thesis by (auto split: orch_result.splits)
qed

lemma group_waves_order:
  assumes "group_waves plan = before @ (w, ts) # after" and "t \<in> set plan" and "pt_wave t < w"
  shows "t \<in> set (concat (map snd before))"
proof -
  let ?us = "filter (\<lambda>u. pt_wave u = pt_wave t) plan"
  have "(pt_wave t, ?us) \<in> set (group_waves plan)"
    using assms(2) by (auto simp: group_waves_entries filter_empty_conv)
  moreover have "sorted_wrt (<) (map fst (group_waves plan))"
    using group_waves_get by (simp add: bt_invar_def)
  ultimately have "(pt_wave t, ?us) \<in> set before"
    using assms(1,3) by (fastforce simp: sorted_wrt_append)
  then show ?thesis using assms(2) by force
qed

text \<open>C33: waves do not overlap and the limit holds. Wherever a run waits, between one and
  \<open>max_parallel\<close> tasks are running, all of them tasks of the plan in the current wave, and every task of
  an earlier wave that was not yet completed when the run began has been completed or has failed.\<close>

theorem orchestrator_wave_discipline:
  assumes "loaded js ps d = Some (st, plan)"
    and "run_orchestrator js ps maxp cs d = Inr (Blocked run)"
  shows "0 < length (o_running run) \<and> length (o_running run) \<le> maxp
    \<and> (\<forall>t \<in> set (o_running run) \<union> set (o_pending run).
         t \<in> set (outstanding st plan) \<and> pt_wave t = current_wave (o_state run))
    \<and> (\<forall>t \<in> set (outstanding st plan). pt_wave t < current_wave (o_state run)
         \<longrightarrow> pt_task_id t \<in> settled (o_state run))"
proof -
  obtain d2 where "run_orchestrator js ps maxp cs d =
      Inr (run_waves js ps maxp (group_waves (outstanding st plan)) cs
        \<lparr>o_state = st, o_disk = d2, o_pending = [], o_running = [], o_log = []\<rparr>)"
    by (rule run_orchestrator_loaded [OF assms(1)])
  then have "run_waves js ps maxp (group_waves (outstanding st plan)) cs
        \<lparr>o_state = st, o_disk = d2, o_pending = [], o_running = [], o_log = []\<rparr> = Blocked run"
    using assms(2) by simp
  then obtain before w ts after where b: "group_waves (outstanding st plan) = before @ (w, ts) # after"
    and inv: "wave_inv w maxp ts run" and ne: "o_running run \<noteq> []"
    and old: "\<forall>t \<in> set (concat (map snd before)). pt_task_id t \<in> settled (o_state run)"
    using run_waves_result [where old = "{}" and js = js and ps = ps and maxp = maxp and cs = cs
        and ws = "group_waves (outstanding st plan)"
        and run = "\<lparr>o_state = st, o_disk = d2, o_pending = [], o_running = [], o_log = []\<rparr>"]
    by auto
  have "(w, ts) \<in> set (group_waves (outstanding st plan))" by (simp add: b)
  then have ts: "ts = filter (\<lambda>t. pt_wave t = w) (outstanding st plan)"
    unfolding group_waves_entries by simp
  have w: "w = current_wave (o_state run)" using inv by (simp add: wave_inv_def)
  have "\<forall>t \<in> set (outstanding st plan). pt_wave t < w \<longrightarrow> pt_task_id t \<in> settled (o_state run)"
    using old group_waves_order [OF b] by blast
  with inv ne show ?thesis unfolding w [symmetric] by (auto simp: wave_inv_def ts)
qed

text \<open>A build that returns without an error, with room for at least one task, has settled everything:
  each task of the plan is completed or failed in the state it leaves. With a limit of zero it would
  return at once, having run nothing.\<close>

theorem orchestrator_settles_all:
  assumes "loaded js ps d = Some (st, plan)" and "0 < maxp"
    and "run_orchestrator js ps maxp cs d = Inr (Returned run (Inr ()))"
  shows "\<forall>t \<in> set (outstanding st plan). pt_task_id t \<in> settled (o_state run)"
proof -
  obtain d2 where "run_orchestrator js ps maxp cs d =
      Inr (run_waves js ps maxp (group_waves (outstanding st plan)) cs
        \<lparr>o_state = st, o_disk = d2, o_pending = [], o_running = [], o_log = []\<rparr>)"
    by (rule run_orchestrator_loaded [OF assms(1)])
  then have "run_waves js ps maxp (group_waves (outstanding st plan)) cs
        \<lparr>o_state = st, o_disk = d2, o_pending = [], o_running = [], o_log = []\<rparr> = Returned run (Inr ())"
    using assms(3) by simp
  then have "\<forall>t \<in> set (concat (map snd (group_waves (outstanding st plan)))). pt_task_id t \<in> settled (o_state run)"
    using run_waves_result [where old = "{}" and js = js and ps = ps and maxp = maxp and cs = cs
        and ws = "group_waves (outstanding st plan)"
        and run = "\<lparr>o_state = st, o_disk = d2, o_pending = [], o_running = [], o_log = []\<rparr>"] assms(2)
    by auto
  moreover have "t \<in> set (concat (map snd (group_waves (outstanding st plan))))"
    if "t \<in> set (outstanding st plan)" for t
    using that group_waves_entries [of "pt_wave t" "filter (\<lambda>u. pt_wave u = pt_wave t) (outstanding st plan)"
        "outstanding st plan"]
    by (force simp: filter_empty_conv)
  ultimately show ?thesis by blast
qed


subsection \<open>A crash loses nothing\<close>

text \<open>What is on the disk at an \<open>await\<close>: the state in memory, with every running task in its list.\<close>

definition persisted :: "build_codec \<Rightarrow> build_paths \<Rightarrow> orch \<Rightarrow> bool" where
  "persisted js ps run \<longleftrightarrow>
     (\<exists>b. enc_state js (o_state run) = Inr b \<and> dfiles (o_disk run) (p_state ps) = Some b)"

definition tracked :: "orch \<Rightarrow> bool" where
  "tracked run \<longleftrightarrow> distinct (map pt_task_id (o_running run @ o_pending run))
     \<and> pt_task_id ` set (o_running run) \<subseteq> set (tasks_running (o_state run))"

lemma persist_persisted: "persist js ps ctx st run = (run', Inr u) \<Longrightarrow> persisted js ps run'"
  by (auto simp: persist_def update_state_def fs_write_def persisted_def
      split: prod.splits sum.splits option.splits io_fault.splits)

lemma dispatch_fill_persisted:
  "dispatch_fill js ps maxp ts run = (run', Inr u) \<Longrightarrow> persisted js ps run \<Longrightarrow> persisted js ps run'"
proof (induction js ps maxp ts run rule: dispatch_fill.induct)
  case (1 js ps maxp run)
  then show ?case by (auto simp: persisted_def)
next
  case (2 js ps maxp t ts run)
  show ?case
  proof (cases "length (o_running run) < maxp")
    case False
    with "2.prems" show ?thesis by (auto simp: persisted_def)
  next
    case True
    let ?run1 = "run\<lparr>o_log := o_log run @ [DispatchStarted (pt_task_id t) (pt_wave t)
                       (length (cf_allowed_files (pt_contract_fields t)))]\<rparr>"
    let ?st = "(o_state run)\<lparr>tasks_running := tasks_running (o_state run) @ [pt_task_id t]\<rparr>"
    let ?ctx = "''failed to persist running state for task '' @ pt_task_id t @ '' in '' @ p_state ps"
    obtain run2 r where p: "persist js ps ?ctx ?st ?run1 = (run2, r)" by fastforce
    then obtain v where r: "r = Inr v" using "2.prems" True by (cases r) (simp_all add: Let_def)
    have "dispatch_fill js ps maxp ts (run2\<lparr>o_running := o_running run2 @ [t]\<rparr>) = (run', Inr u)"
      using "2.prems" True p r by (simp add: Let_def)
    moreover have "persisted js ps (run2\<lparr>o_running := o_running run2 @ [t]\<rparr>)"
      using persist_persisted [OF p [unfolded r]] by (simp add: persisted_def)
    ultimately show ?thesis by (rule "2.IH" [OF True refl refl p [symmetric] r])
  qed
qed

lemma dispatch_fill_tracked:
  assumes "dispatch_fill js ps maxp (o_pending run) run = (run', Inr u)" and "tracked run"
  shows "tracked run'"
proof -
  from dispatch_fill_Inr [OF assms(1)] obtain k where
    k: "o_running run' = o_running run @ take k (o_pending run)" "o_pending run' = drop k (o_pending run)"
      "tasks_running (o_state run') = tasks_running (o_state run) @ map pt_task_id (take k (o_pending run))"
    by auto
  have "o_running run' @ o_pending run' = o_running run @ o_pending run" using k(1,2) by simp
  with assms(2) k show ?thesis unfolding tracked_def by auto
qed

lemma finish_task_persisted: "finish_task js ps t r ts run = (run', Inr u) \<Longrightarrow> persisted js ps run'"
  by (auto simp: finish_task_def Let_def dest: persist_persisted split: prod.splits sum.splits)

lemma finish_task_tracked:
  assumes fin: "finish_task js ps (o_running run ! i) r ts
      (run\<lparr>o_running := take i (o_running run) @ drop (Suc i) (o_running run)\<rparr>) = (run', Inr u)"
    and tr: "tracked run" and i: "i < length (o_running run)"
  shows "tracked run'"
proof -
  let ?t = "o_running run ! i" and ?rest = "take i (o_running run) @ drop (Suc i) (o_running run)"
  note f = finish_task_Inr [OF fin, simplified]
  have split: "o_running run = take i (o_running run) @ ?t # drop (Suc i) (o_running run)"
    using id_take_nth_drop [OF i] by simp
  then have "distinct (map pt_task_id ((take i (o_running run) @ ?t # drop (Suc i) (o_running run)) @ o_pending run))"
    using tr by (simp add: tracked_def)
  then have d: "distinct (map pt_task_id (?rest @ o_pending run))" and n: "pt_task_id ?t \<notin> pt_task_id ` set ?rest"
    by auto
  have sub: "pt_task_id ` set ?rest \<subseteq> set (tasks_running (o_state run))"
    using tr remove_nth_set [OF i] by (auto simp: tracked_def)
  have run': "o_running run' = ?rest" "o_pending run' = o_pending run"
    "set (tasks_running (o_state run')) = set (tasks_running (o_state run)) - {pt_task_id ?t}"
    using f by auto
  show ?thesis unfolding tracked_def run' using d n sub by blast
qed

lemma wave_loop_crash:
  "persisted js ps run \<Longrightarrow> tracked run \<Longrightarrow>
   (case wave_loop js ps maxp cs run of
      Blocked run' \<Rightarrow> persisted js ps run' \<and> tracked run'
    | _ \<Rightarrow> True)"
proof (induction js ps maxp cs run rule: wave_loop.induct)
  case (1 js ps maxp run)
  then show ?case
    by (auto split: prod.splits sum.splits intro: dispatch_fill_persisted dispatch_fill_tracked)
next
  case (2 js ps maxp c cs run)
  obtain run1 r where fill: "dispatch_fill js ps maxp (o_pending run) run = (run1, r)" by fastforce
  show ?case
  proof (cases "r = Inr () \<and> o_running run1 \<noteq> []")
    case False
    with fill show ?thesis by (cases r) auto
  next
    case True
    let ?i = "c_pick c mod length (o_running run1)"
    let ?run2 = "run1\<lparr>o_running := take ?i (o_running run1) @ drop (Suc ?i) (o_running run1)\<rparr>"
    have i: "?i < length (o_running run1)" using True by simp
    have t1: "tracked run1" using dispatch_fill_tracked fill True "2.prems"(2) by blast
    show ?thesis
    proof (cases "c_outcome c")
      case (Inl e)
      with fill True show ?thesis by (simp add: Let_def)
    next
      case res: (Inr res)
      obtain run3 r3 where fin: "finish_task js ps (o_running run1 ! ?i) res (c_time c) ?run2 = (run3, r3)"
        by fastforce
      show ?thesis
      proof (cases r3)
        case (Inl e)
        with fill True res fin show ?thesis by (simp add: Let_def)
      next
        case r3: (Inr v)
        have "persisted js ps run3" "tracked run3"
          using finish_task_persisted finish_task_tracked [OF fin [unfolded r3] t1 i] fin r3 by blast+
        then have "case wave_loop js ps maxp cs run3 of
            Blocked run' \<Rightarrow> persisted js ps run' \<and> tracked run' | _ \<Rightarrow> True"
          using True by (intro "2.IH" [OF fill [symmetric] _ _ refl refl refl res fin [symmetric] r3]) auto
        moreover have "wave_loop js ps maxp (c # cs) run = wave_loop js ps maxp cs run3"
          using fill True res fin r3 by (simp add: Let_def)
        ultimately show ?thesis by simp
      qed
    qed
  qed
qed

lemma run_waves_crash:
  assumes "\<forall>(w, ts) \<in> set ws. distinct (map pt_task_id ts)"
  shows "case run_waves js ps maxp ws cs run of
      Blocked run' \<Rightarrow> persisted js ps run' \<and> tracked run' | _ \<Rightarrow> True"
  using assms
proof (induction js ps maxp ws cs run rule: run_waves.induct)
  case (2 js ps maxp w ts ws cs run)
  let ?run0 = "run\<lparr>o_log := o_log run @ [WaveStarted w (length ts)]\<rparr>"
  let ?ctx = "''failed to persist state while starting wave '' @ show_nat (unat w) @ '' in '' @ p_state ps"
  obtain run1 r where p: "persist js ps ?ctx ((o_state run)\<lparr>current_wave := w\<rparr>) ?run0 = (run1, r)"
    by fastforce
  show ?case
  proof (cases r)
    case (Inl e)
    with p show ?thesis by (simp add: Let_def)
  next
    case (Inr u)
    let ?start = "run1\<lparr>o_pending := ts, o_running := []\<rparr>"
    have "persisted js ps ?start" using persist_persisted [OF p [unfolded Inr]] by (simp add: persisted_def)
    moreover have "tracked ?start" using "2.prems" by (simp add: tracked_def)
    ultimately have w: "case wave_loop js ps maxp cs ?start of
        Blocked run' \<Rightarrow> persisted js ps run' \<and> tracked run' | _ \<Rightarrow> True"
      by (rule wave_loop_crash)
    show ?thesis
    proof (cases "wave_loop js ps maxp cs ?start")
      case (WaveDone run2 cs')
      have "case run_waves js ps maxp ws cs' run2 of
          Blocked run' \<Rightarrow> persisted js ps run' \<and> tracked run' | _ \<Rightarrow> True"
        using "2.prems" by (intro "2.IH" [OF refl p [symmetric] Inr WaveDone]) auto
      with p Inr WaveDone show ?thesis by (simp add: Let_def)
    qed (use w p Inr in \<open>simp_all add: Let_def\<close>)
  qed
qed simp


subsection \<open>Resuming\<close>

lemma set_push_new: "set (if t \<in> set xs then xs else xs @ [t]) = insert t (set xs)"
  by auto

lemma reconcile_result:
  assumes "reconcile lookup ts (st, rec) = (st', rec')"
  shows "set (tasks_running st') = set (tasks_running st) - {t \<in> set ts. lookup t \<noteq> Some Working}"
    and "set (tasks_completed st') = set (tasks_completed st) \<union> {t \<in> set ts. lookup t = Some Completed}"
    and "set (tasks_failed st') = set (tasks_failed st)
           \<union> {t \<in> set ts. lookup t \<noteq> Some Completed \<and> lookup t \<noteq> Some Working}"
    and "set (tasks_remaining st') = set (tasks_remaining st) - {t \<in> set ts. lookup t = Some Completed}"
    and "set rec' = set rec \<union> {t \<in> set ts. lookup t = Some Completed}"
proof -
  have "set (tasks_running st') = set (tasks_running st) - {t \<in> set ts. lookup t \<noteq> Some Working}
     \<and> set (tasks_completed st') = set (tasks_completed st) \<union> {t \<in> set ts. lookup t = Some Completed}
     \<and> set (tasks_failed st') = set (tasks_failed st)
           \<union> {t \<in> set ts. lookup t \<noteq> Some Completed \<and> lookup t \<noteq> Some Working}
     \<and> set (tasks_remaining st') = set (tasks_remaining st) - {t \<in> set ts. lookup t = Some Completed}
     \<and> set rec' = set rec \<union> {t \<in> set ts. lookup t = Some Completed}"
    using assms
  proof (induction ts arbitrary: st rec)
    case (Cons t ts)
    show ?case
    proof (cases "lookup t")
      case None
      with Cons.prems show ?thesis by (auto simp: set_push_new dest!: Cons.IH)
    next
      case (Some status)
      with Cons.prems show ?thesis by (cases status) (auto simp: set_push_new dest!: Cons.IH)
    qed
  qed simp
  then show "set (tasks_running st') = set (tasks_running st) - {t \<in> set ts. lookup t \<noteq> Some Working}"
    and "set (tasks_completed st') = set (tasks_completed st) \<union> {t \<in> set ts. lookup t = Some Completed}"
    and "set (tasks_failed st') = set (tasks_failed st)
           \<union> {t \<in> set ts. lookup t \<noteq> Some Completed \<and> lookup t \<noteq> Some Working}"
    and "set (tasks_remaining st') = set (tasks_remaining st) - {t \<in> set ts. lookup t = Some Completed}"
    and "set rec' = set rec \<union> {t \<in> set ts. lookup t = Some Completed}"
    by blast+
qed

text \<open>A disk as it is found after the process died: no call fails any more.\<close>

definition rebooted :: "disk \<Rightarrow> disk" where
  "rebooted d = d\<lparr>faults := (\<lambda>_. None)\<rparr>"

lemma resume_persisted:
  assumes "persisted js ps run" and "\<forall>st b. enc_state js st = Inr b \<longrightarrow> dec_state js b = Inr st"
  shows "\<exists>st' res. resume_from_state js (p_state ps) lookup (rebooted (o_disk run)) = Inr (st', res)
    \<and> reconcile lookup (tasks_running (o_state run)) (o_state run, []) = (st', recovered_running_tasks res)"
proof -
  obtain b where "enc_state js (o_state run) = Inr b" "dfiles (o_disk run) (p_state ps) = Some b"
    using assms(1) by (auto simp: persisted_def)
  then have "snd (read_state js (p_state ps) (rebooted (o_disk run))) = Inr (o_state run)"
    using assms(2) by (simp add: read_state_def fs_read_def rebooted_def)
  then show ?thesis
    by (cases "reconcile lookup (tasks_running (o_state run)) (o_state run, [])")
      (simp add: resume_from_state_def)
qed

text \<open>C34: a crash loses no task. When the process dies while a build waits, and the plan had no two tasks
  with one id, resuming from what is on the disk succeeds and gives every task that was running the place
  its worker's status calls for: completed, still running, or failed. Tasks that were completed before the
  crash stay completed.\<close>

theorem crash_then_resume:
  assumes "loaded js ps d = Some (st, plan)" and "distinct (map pt_task_id plan)"
    and "\<forall>st b. enc_state js st = Inr b \<longrightarrow> dec_state js b = Inr st"
    and "run_orchestrator js ps maxp cs d = Inr (Blocked run)"
  shows "\<exists>st' res. resume_from_state js (p_state ps) lookup (rebooted (o_disk run)) = Inr (st', res)
    \<and> set (tasks_completed (o_state run)) \<subseteq> set (tasks_completed st')
    \<and> (\<forall>t \<in> set (o_running run). case lookup (pt_task_id t) of
          Some Completed \<Rightarrow> pt_task_id t \<in> set (tasks_completed st') \<inter> set (recovered_running_tasks res)
        | Some Working \<Rightarrow> pt_task_id t \<in> set (tasks_running st')
        | _ \<Rightarrow> pt_task_id t \<in> set (tasks_failed st') - set (tasks_running st'))"
proof -
  obtain d2 where "run_orchestrator js ps maxp cs d =
      Inr (run_waves js ps maxp (group_waves (outstanding st plan)) cs
        \<lparr>o_state = st, o_disk = d2, o_pending = [], o_running = [], o_log = []\<rparr>)"
    by (rule run_orchestrator_loaded [OF assms(1)])
  then have blocked: "run_waves js ps maxp (group_waves (outstanding st plan)) cs
        \<lparr>o_state = st, o_disk = d2, o_pending = [], o_running = [], o_log = []\<rparr> = Blocked run"
    using assms(4) by simp
  have "\<forall>(w, ts) \<in> set (group_waves (outstanding st plan)). distinct (map pt_task_id ts)"
    using assms(2) by (auto simp: group_waves_entries outstanding_def distinct_map_filter)
  from run_waves_crash [OF this, where js = js and ps = ps and maxp = maxp and cs = cs
      and run = "\<lparr>o_state = st, o_disk = d2, o_pending = [], o_running = [], o_log = []\<rparr>"]
  have p: "persisted js ps run" and "tracked run" by (simp_all add: blocked)
  then have tr: "pt_task_id ` set (o_running run) \<subseteq> set (tasks_running (o_state run))"
    by (simp add: tracked_def)
  from resume_persisted [OF p assms(3)] obtain st' res where
    r: "resume_from_state js (p_state ps) lookup (rebooted (o_disk run)) = Inr (st', res)"
    and rec: "reconcile lookup (tasks_running (o_state run)) (o_state run, []) = (st', recovered_running_tasks res)"
    by blast
  show ?thesis
    using reconcile_result [OF rec] tr
    by (intro exI [of _ st'] exI [of _ res] conjI r)
      (auto split: option.splits TaskStatus.splits)
qed


subsection \<open>A concrete build\<close>

definition sample_state :: "string list \<Rightarrow> string list \<Rightarrow> string list \<Rightarrow> BuildState" where
  "sample_state completed remaining running =
     \<lparr>build_id = ''abe-1'', plan_path = ''plan'', current_wave = 0, tasks_completed = completed,
      tasks_remaining = remaining, tasks_running = running, tasks_failed = [], validation_pass_rate = 1,
      collateral_fix_count = 0, last_commit_sha = ''base'', wave_0_sha = ''base'', max_parallel = 2,
      build_timeout_sec = None, build_started_at = ''t0'', updated_at = ''t0''\<rparr>"

definition sample_codec :: build_codec where
  "sample_codec =
     \<lparr>enc_state = (\<lambda>st. if st = sample_state [] [''T-1''] [] then Inr ''0''
        else if st = sample_state [] [''T-1''] [''T-1''] then Inr ''1''
        else if st = sample_state [''T-1''] [] [] then Inr ''2'' else Inl ''unknown state''),
      dec_state = (\<lambda>b. if b = ''0'' then Inr (sample_state [] [''T-1''] [])
        else if b = ''1'' then Inr (sample_state [] [''T-1''] [''T-1''])
        else if b = ''2'' then Inr (sample_state [''T-1''] [] []) else Inl ''bad json'')\<rparr>"

definition sample_paths :: build_paths where
  "sample_paths = \<lparr>p_plan = ''plan'', p_state = ''state'', p_manifest = ''manifest'', p_deviation = ''deviation''\<rparr>"

definition sample_plan :: string where
  "sample_plan = render_plan [sample_entry ''T-1'' 0] ''.''"

definition sample_disk :: disk where
  "sample_disk = \<lparr>dfiles = [''state'' \<mapsto> ''0'', ''plan'' \<mapsto> sample_plan], io_clock = 0, faults = (\<lambda>_. None)\<rparr>"

definition sample_completion :: completion where
  "sample_completion = \<lparr>c_pick = 0,
     c_outcome = Inr \<lparr>tr_task_id = ''T-1'', tr_status = ''completed'', tr_commit_sha = ''abc'',
       tr_modified_files = [''src/a.rs''], tr_attempts = 1\<rparr>, c_time = ''t1''\<rparr>"

lemma sample_codec_roundtrip: "\<forall>st b. enc_state sample_codec st = Inr b \<longrightarrow> dec_state sample_codec b = Inr st"
  by (auto simp: sample_codec_def split: if_splits)

lemma parse_sample_plan: "parse_plan (Inr sample_plan) = Inr [task_of (sample_entry ''T-1'' 0)]"
proof -
  have "list_all plain_entry [sample_entry ''T-1'' 0]" by code_simp
  then have "plan_loop sample_plan 0 [] = Inr (map task_of [sample_entry ''T-1'' 0])"
    using plan_loop_rendered [of "[sample_entry ''T-1'' 0]" "''.''" sample_plan "[]" "[]"]
    by (simp add: sample_plan_def render_plan_def)
  then show ?thesis by (simp add: parse_plan_def)
qed

lemma task_of_sample: "pt_task_id (task_of (sample_entry i w)) = i" "pt_wave (task_of (sample_entry i w)) = w"
  by (simp_all add: task_of_def sample_entry_def)

lemmas sample_defs = sample_disk_def sample_paths_def sample_codec_def sample_state_def

lemma sample_loaded:
  "loaded sample_codec sample_paths sample_disk =
     Some (sample_state [] [''T-1''] [], [task_of (sample_entry ''T-1'' 0)])"
  by (simp add: loaded_def read_state_def fs_read_def tick_def sample_defs parse_sample_plan)

lemma sample_outstanding:
  "outstanding (sample_state [] [''T-1''] []) [task_of (sample_entry ''T-1'' 0)] = [task_of (sample_entry ''T-1'' 0)]"
  by (simp add: outstanding_def sample_state_def)

lemmas run_defs = run_orchestrator_def read_state_def fs_read_def tick_def parse_sample_plan
  sample_outstanding [unfolded sample_state_def] group_waves_def add_to_wave_def task_of_sample persist_def
  update_state_def fs_write_def Let_def

lemma sample_blocked:
  "\<exists>run. run_orchestrator sample_codec sample_paths 2 [] sample_disk = Inr (Blocked run)
     \<and> o_running run = [task_of (sample_entry ''T-1'' 0)]"
  by (simp add: run_defs sample_defs bt_get_def)

lemma sample_finished:
  "\<exists>run. run_orchestrator sample_codec sample_paths 2 [sample_completion] sample_disk = Inr (Returned run (Inr ()))"
  by (simp add: run_defs sample_defs bt_get_def sample_completion_def finish_task_def record_completed_def
      log_call_def append_manifest_def append_deviation_def append_log_def fs_exists_def extra_files_def)

theorem orchestrator_returns_witness:
  "\<exists>run r. run_orchestrator sample_codec sample_paths 1 [sample_completion] sample_disk = Inr (Returned run r)"
  using orchestrator_returns [OF sample_loaded, of "[sample_completion]" 1] by (simp add: sample_outstanding)

theorem orchestrator_wave_discipline_witness:
  "\<exists>run. run_orchestrator sample_codec sample_paths 2 [] sample_disk = Inr (Blocked run)
     \<and> 0 < length (o_running run) \<and> length (o_running run) \<le> 2"
  using sample_blocked orchestrator_wave_discipline [OF sample_loaded, of 2 "[]"] by blast

theorem orchestrator_settles_all_witness:
  "\<exists>run. run_orchestrator sample_codec sample_paths 2 [sample_completion] sample_disk = Inr (Returned run (Inr ()))
     \<and> ''T-1'' \<in> settled (o_state run)"
proof -
  obtain run where run: "run_orchestrator sample_codec sample_paths 2 [sample_completion] sample_disk
      = Inr (Returned run (Inr ()))" using sample_finished by blast
  from orchestrator_settles_all [OF sample_loaded _ run] show ?thesis
    using run by (simp add: sample_outstanding task_of_sample)
qed

theorem crash_then_resume_witness:
  "\<exists>run st' res. run_orchestrator sample_codec sample_paths 2 [] sample_disk = Inr (Blocked run)
     \<and> resume_from_state sample_codec ''state'' (\<lambda>_. Some Completed) (rebooted (o_disk run)) = Inr (st', res)
     \<and> ''T-1'' \<in> set (tasks_completed st')"
proof -
  obtain run where run: "run_orchestrator sample_codec sample_paths 2 [] sample_disk = Inr (Blocked run)"
    and t: "o_running run = [task_of (sample_entry ''T-1'' 0)]" using sample_blocked by blast
  have "distinct (map pt_task_id [task_of (sample_entry ''T-1'' 0)])" by simp
  from crash_then_resume [OF sample_loaded this sample_codec_roundtrip run, of "\<lambda>_. Some Completed"]
  show ?thesis using run by (auto simp: t task_of_sample sample_paths_def)
qed

text \<open>With no room for a task the run returns at once and reports success.\<close>

lemma zero_limit_runs_nothing:
  "\<exists>run. run_orchestrator sample_codec sample_paths 0 [] sample_disk = Inr (Returned run (Inr ()))
     \<and> ''T-1'' \<notin> settled (o_state run)"
  by (simp add: run_defs sample_defs bt_get_def settled_def)

end
