(* ===== verification/Fleet_Ledger.thy ===== *)
theory Fleet_Ledger
  imports Rust_Text
begin

text \<open>
  The ledger database as fleets use it: the tables of \<open>ledger/src/store.rs\<close>, the ingestion of events
  (\<open>ledger/src/ingest.rs\<close>) and the task store (\<open>fleet/src/tasks.rs\<close>). SQLite is a store of tables on which one statement acts at a time; a
  table is the list of its rows in insertion order. Every statement may fail: \<open>lg_faults\<close> says with which
  error, by the number of the statement. A failing statement changes nothing.

  Shown here: a task is claimed at most once and only after its dependencies are done. \<open>keeps\<close> and
  \<open>valid\<close> carry the proofs of this and the following theories over sequences of statements that may fail.
\<close>

subsection \<open>Tables and statements\<close>

record fleet_row =
  fl_id :: string
  fl_description :: string
  fl_state :: string
  fl_failure_reason :: "string option"

record task_row =
  tk_id :: string
  tk_fleet :: string
  tk_title :: string
  tk_agent :: "string option"
  tk_state :: string
  tk_depends :: "string option"

record event_row =
  ev_session :: string
  ev_type :: string
  ev_sequence :: int
  ev_payload :: json

record review_row =
  rv_id :: string
  rv_fleet :: "string option"
  rv_author :: string
  rv_reviewer :: "string option"
  rv_artifact :: string
  rv_type :: string
  rv_verdict :: "string option"
  rv_comments :: "string option"
  rv_requested_at :: nat
  rv_reviewed_at :: "nat option"
  rv_state :: string
  rv_dispatch_owned :: bool

record ledger =
  lg_fleets :: "fleet_row list"
  lg_tasks :: "task_row list"
  lg_events :: "event_row list"
  lg_sessions :: "(string \<times> nat) list"
  lg_reviews :: "review_row list"
  lg_notes :: "(string \<times> string) list"
  lg_now :: nat
  lg_faults :: "nat \<Rightarrow> string option"
  lg_tick :: nat

type_synonym 'a db = "ledger \<Rightarrow> (string + 'a) \<times> ledger"

text \<open>One statement: it fails, or its effect happens at once. \<open>sql_try\<close> is a statement that a constraint
  of the schema can refuse.\<close>

definition sql_try :: "(ledger \<Rightarrow> (string + 'a) \<times> ledger) \<Rightarrow> 'a db" where
  "sql_try f L =
     (let L' = L\<lparr>lg_tick := lg_tick L + 1\<rparr> in
      case lg_faults L (lg_tick L) of
        Some e \<Rightarrow> (Inl e, L')
      | None \<Rightarrow> f L')"

definition sql :: "(ledger \<Rightarrow> 'a \<times> ledger) \<Rightarrow> 'a db" where
  "sql f = sql_try (\<lambda>L. case f L of (x, L') \<Rightarrow> (Inr x, L'))"

definition and_then :: "'a db \<Rightarrow> ('a \<Rightarrow> 'b db) \<Rightarrow> 'b db" where
  "and_then m f L = (case m L of (Inl e, L') \<Rightarrow> (Inl e, L') | (Inr x, L') \<Rightarrow> f x L')"

definition db_return :: "'a \<Rightarrow> 'a db" where
  "db_return x L = (Inr x, L)"

definition db_fail :: "string \<Rightarrow> 'a db" where
  "db_fail e L = (Inl e, L)"

text \<open>Opening a connection or the store.\<close>

definition open_conn :: "unit db" where
  "open_conn = sql (\<lambda>L. ((), L))"

subsection \<open>Events\<close>

definition same_key :: "event_row \<Rightarrow> event_row \<Rightarrow> bool" where
  "same_key a b \<longleftrightarrow> ev_session a = ev_session b \<and> ev_type a = ev_type b \<and> ev_sequence a = ev_sequence b"

text \<open>\<open>INSERT ... ON CONFLICT DO NOTHING\<close>: whether a row was inserted.\<close>

definition insert_event :: "event_row \<Rightarrow> ledger \<Rightarrow> bool \<times> ledger" where
  "insert_event ev L =
     (if list_ex (same_key ev) (lg_events L) then (False, L)
      else (True, L\<lparr>lg_events := lg_events L @ [ev]\<rparr>))"

definition bump_session :: "string \<Rightarrow> ledger \<Rightarrow> unit \<times> ledger" where
  "bump_session s L =
     ((), L\<lparr>lg_sessions :=
        (case map_of (lg_sessions L) s of
           None \<Rightarrow> lg_sessions L @ [(s, 1)]
         | Some n \<Rightarrow> map (\<lambda>(k, m). if k = s then (k, m + 1) else (k, m)) (lg_sessions L))\<rparr>)"

definition ingest_event :: "event_row \<Rightarrow> unit db" where
  "ingest_event ev =
     and_then (sql (insert_event ev))
       (\<lambda>inserted. if inserted then sql (bump_session (ev_session ev)) else db_return ())"

definition max_sequence :: "string \<Rightarrow> string \<Rightarrow> ledger \<Rightarrow> int option" where
  "max_sequence session ty L =
     (let seqs = map ev_sequence (filter (\<lambda>e. ev_session e = session \<and> ev_type e = ty) (lg_events L)) in
      if seqs = [] then None else Some (Max (set seqs)))"

definition event_sequence_for :: "string \<Rightarrow> string \<Rightarrow> int db" where
  "event_sequence_for session ty =
     and_then open_conn (\<lambda>_. sql (\<lambda>L.
       ((case max_sequence session ty L of None \<Rightarrow> 0 | Some m \<Rightarrow> m) + 1, L)))"

definition fleet_event :: "string \<Rightarrow> string \<Rightarrow> json \<Rightarrow> int \<Rightarrow> event_row" where
  "fleet_event session ty payload n =
     \<lparr>ev_session = session, ev_type = ty, ev_sequence = n, ev_payload = payload\<rparr>"

text \<open>\<open>ingest_fleet_event\<close>: up to eight tries, each with a fresh sequence; it never fails.\<close>

fun ingest_tries :: "nat \<Rightarrow> string \<Rightarrow> string \<Rightarrow> json \<Rightarrow> ledger \<Rightarrow> ledger" where
  "ingest_tries 0 session ty payload L = L"
| "ingest_tries (Suc n) session ty payload L =
     (case event_sequence_for session ty L of
        (r, L1) \<Rightarrow>
          (case ingest_event (fleet_event session ty payload (case r of Inl _ \<Rightarrow> 1 | Inr s \<Rightarrow> s)) L1 of
             (Inr _, L2) \<Rightarrow> L2
           | (Inl _, L2) \<Rightarrow> ingest_tries n session ty payload L2))"

definition ingest_fleet_event :: "string \<Rightarrow> string \<Rightarrow> json \<Rightarrow> ledger \<Rightarrow> ledger" where
  "ingest_fleet_event fleet ty payload L =
     (case open_conn L of (Inl _, L1) \<Rightarrow> L1 | (Inr _, L1) \<Rightarrow> ingest_tries 8 fleet ty payload L1)"

definition record_fleet_event :: "string \<Rightarrow> string \<Rightarrow> json \<Rightarrow> unit db" where
  "record_fleet_event fleet ty payload =
     and_then (event_sequence_for fleet ty) (\<lambda>n. ingest_event (fleet_event fleet ty payload n))"

definition record_manual :: "string \<Rightarrow> string \<Rightarrow> unit db" where
  "record_manual title narrative = sql (\<lambda>L. ((), L\<lparr>lg_notes := lg_notes L @ [(title, narrative)]\<rparr>))"

subsection \<open>The task store\<close>

text \<open>\<open>serde_json\<close> on lists of strings.\<close>

record dep_codec =
  enc_deps :: "string list \<Rightarrow> string"
  dec_deps :: "string \<Rightarrow> string + string list"

definition insert_fleet :: "string \<Rightarrow> string \<Rightarrow> unit db" where
  "insert_fleet fleet description =
     and_then open_conn (\<lambda>_. sql_try (\<lambda>L.
       if list_ex (\<lambda>f. fl_id f = fleet) (lg_fleets L) then (Inl ''UNIQUE constraint failed: fleets.fleet_id'', L)
       else (Inr (), L\<lparr>lg_fleets := lg_fleets L @
              [\<lparr>fl_id = fleet, fl_description = description, fl_state = ''spawning'', fl_failure_reason = None\<rparr>]\<rparr>)))"

definition insert_task :: "dep_codec \<Rightarrow> string \<Rightarrow> string \<Rightarrow> string \<Rightarrow> string list \<Rightarrow> unit db" where
  "insert_task J task fleet title depends_on =
     and_then open_conn (\<lambda>_. sql_try (\<lambda>L.
       if list_ex (\<lambda>t. tk_id t = task) (lg_tasks L) then (Inl ''UNIQUE constraint failed: tasks.task_id'', L)
       else (Inr (), L\<lparr>lg_tasks := lg_tasks L @
              [\<lparr>tk_id = task, tk_fleet = fleet, tk_title = title, tk_agent = None, tk_state = ''pending'',
                tk_depends = (if depends_on = [] then None else Some (enc_deps J depends_on))\<rparr>]\<rparr>)))"

definition find_task :: "string \<Rightarrow> ledger \<Rightarrow> task_row option" where
  "find_task task L = find (\<lambda>t. tk_id t = task) (lg_tasks L)"

definition parse_depends :: "dep_codec \<Rightarrow> string option \<Rightarrow> string + string list" where
  "parse_depends J raw =
     (case raw of
        Some s \<Rightarrow> if trim s \<noteq> [] then dec_deps J s else Inr []
      | None \<Rightarrow> Inr [])"

fun dependencies_satisfied :: "string list \<Rightarrow> bool db" where
  "dependencies_satisfied [] = db_return True"
| "dependencies_satisfied (dep # deps) =
     and_then (sql (\<lambda>L. (map_option tk_state (find_task dep L), L)))
       (\<lambda>state. if state = Some ''done'' then dependencies_satisfied deps else db_return False)"

fun claimable_rows :: "dep_codec \<Rightarrow> task_row list \<Rightarrow> (task_row \<times> string list) list db" where
  "claimable_rows J [] = db_return []"
| "claimable_rows J (r # rs) =
     (case parse_depends J (tk_depends r) of
        Inl e \<Rightarrow> db_fail e
      | Inr deps \<Rightarrow>
          and_then (dependencies_satisfied deps) (\<lambda>ok.
            and_then (claimable_rows J rs) (\<lambda>out.
              db_return (if ok then (r, deps) # out else out))))"

definition list_claimable :: "dep_codec \<Rightarrow> string \<Rightarrow> (task_row \<times> string list) list db" where
  "list_claimable J fleet =
     and_then open_conn (\<lambda>_.
       and_then (sql (\<lambda>L. (sort_key tk_id
           (filter (\<lambda>t. tk_fleet t = fleet \<and> tk_state t = ''pending'') (lg_tasks L)), L)))
         (claimable_rows J))"

definition update_tasks :: "(task_row \<Rightarrow> bool) \<Rightarrow> (task_row \<Rightarrow> task_row) \<Rightarrow> ledger \<Rightarrow> nat \<times> ledger" where
  "update_tasks p f L =
     (length (filter p (lg_tasks L)), L\<lparr>lg_tasks := map (\<lambda>t. if p t then f t else t) (lg_tasks L)\<rparr>)"

definition next_event_sequence :: "string \<Rightarrow> string \<Rightarrow> int db" where
  "next_event_sequence session ty = event_sequence_for session ty"

definition record_event :: "string \<Rightarrow> string \<Rightarrow> json \<Rightarrow> unit db" where
  "record_event session ty payload =
     and_then open_conn (\<lambda>_.
       and_then (next_event_sequence session ty) (\<lambda>n. ingest_event (fleet_event session ty payload n)))"

text \<open>The transaction of \<open>claim_task\<close>: the fleet when the row was moved. An error, like \<open>ROLLBACK\<close>,
  leaves the tables as they were.\<close>

definition claim_tx :: "dep_codec \<Rightarrow> string \<Rightarrow> string \<Rightarrow> string option db" where
  "claim_tx J task agent =
     and_then (sql (\<lambda>L. (find_task task L, L))) (\<lambda>row. case row of
         None \<Rightarrow> db_return None
       | Some t \<Rightarrow>
           if tk_state t \<noteq> ''pending'' then db_return None
           else (case parse_depends J (tk_depends t) of
               Inl e \<Rightarrow> db_fail e
             | Inr deps \<Rightarrow>
                 and_then (dependencies_satisfied deps) (\<lambda>ok.
                   if \<not> ok then db_return None
                   else and_then (sql (update_tasks (\<lambda>t. tk_id t = task \<and> tk_state t = ''pending'')
                                          (\<lambda>t. t\<lparr>tk_state := ''claimed'', tk_agent := Some agent\<rparr>)))
                          (\<lambda>updated. db_return (if updated = 1 then Some (tk_fleet t) else None)))))"

definition transaction :: "'a option db \<Rightarrow> 'a option db" where
  "transaction m =
     and_then open_conn (\<lambda>_. and_then (sql (\<lambda>L. ((), L))) (\<lambda>_ L0. case m L0 of
         (Inr (Some x), L1) \<Rightarrow> and_then (sql (\<lambda>L. ((), L))) (\<lambda>_. db_return (Some x)) L1
       | (Inr None, L1) \<Rightarrow> and_then (sql (\<lambda>L. ((), L))) (\<lambda>_. db_return None) (L1\<lparr>lg_tasks := lg_tasks L0\<rparr>)
       | (Inl e, L1) \<Rightarrow> (Inl e, L1\<lparr>lg_tasks := lg_tasks L0\<rparr>)))"

definition claim_task :: "dep_codec \<Rightarrow> string \<Rightarrow> string \<Rightarrow> bool db" where
  "claim_task J task agent =
     and_then (\<lambda>L. case transaction (claim_tx J task agent) L of
                 (Inl e, L') \<Rightarrow> (Inl e, L'\<lparr>lg_tasks := lg_tasks L\<rparr>)
               | r \<Rightarrow> r)
       (\<lambda>claimed. case claimed of
           None \<Rightarrow> db_return False
         | Some fleet \<Rightarrow>
             and_then (record_event fleet ''task_claimed''
                         (JObject [(''task_id'', JString task), (''assigned_agent'', JString agent)]))
               (\<lambda>_. db_return True))"

definition complete_task :: "string \<Rightarrow> unit db" where
  "complete_task task =
     and_then open_conn (\<lambda>_.
       and_then (sql (\<lambda>L. (map_option tk_fleet (find_task task L), L))) (\<lambda>fleet.
         and_then (sql (update_tasks (\<lambda>t. tk_id t = task) (\<lambda>t. t\<lparr>tk_state := ''done''\<rparr>))) (\<lambda>_.
           case fleet of
             None \<Rightarrow> db_return ()
           | Some f \<Rightarrow> record_event f ''task_completed'' (JObject [(''task_id'', JString task)]))))"

subsection \<open>Frames\<close>

text \<open>\<open>keeps g m\<close>: whatever fails in it, \<open>m\<close> leaves the part \<open>g\<close> of the ledger alone.\<close>

definition keeps :: "(ledger \<Rightarrow> 'b) \<Rightarrow> 'a db \<Rightarrow> bool" where
  "keeps g m \<longleftrightarrow> (\<forall>L. g (snd (m L)) = g L)"

named_theorems frame \<open>rules that a statement keeps a part of the ledger\<close>

lemma keepsD: "keeps g m \<Longrightarrow> m L = (r, L') \<Longrightarrow> g L' = g L"
  unfolding keeps_def by (metis snd_conv)

lemma keeps_and_then [frame]: "keeps g m \<Longrightarrow> (\<And>x. keeps g (f x)) \<Longrightarrow> keeps g (and_then m f)"
  unfolding keeps_def and_then_def by (auto split: prod.split sum.split) (metis snd_conv)+

lemma keeps_return [frame]: "keeps g (db_return x)"
  by (simp add: keeps_def db_return_def)

lemma keeps_fail [frame]: "keeps g (db_fail e)"
  by (simp add: keeps_def db_fail_def)

lemma keeps_sql [frame]:
  "(\<And>L n. g (L\<lparr>lg_tick := n\<rparr>) = g L) \<Longrightarrow> (\<And>L. g (snd (f L)) = g L) \<Longrightarrow> keeps g (sql f)"
  unfolding keeps_def sql_def sql_try_def Let_def by (auto split: prod.split option.split) (metis snd_conv)

lemma keeps_sql_try [frame]:
  "(\<And>L n. g (L\<lparr>lg_tick := n\<rparr>) = g L) \<Longrightarrow> (\<And>L. g (snd (f L)) = g L) \<Longrightarrow> keeps g (sql_try f)"
  unfolding keeps_def sql_try_def Let_def by (auto split: prod.split option.split)

lemma keeps_open_conn [frame]: "(\<And>L n. g (L\<lparr>lg_tick := n\<rparr>) = g L) \<Longrightarrow> keeps g open_conn"
  unfolding open_conn_def by (rule keeps_sql) simp_all

lemma tasks_insert_event [simp]: "lg_tasks (snd (insert_event e L)) = lg_tasks L"
  by (simp add: insert_event_def)

lemma tasks_bump_session [simp]: "lg_tasks (snd (bump_session s L)) = lg_tasks L"
  by (simp add: bump_session_def)

lemma tasks_ingest_event [frame]: "keeps lg_tasks (ingest_event e)"
  unfolding ingest_event_def by (intro frame, simp_all) (intro conjI impI frame, simp_all)

lemma tasks_event_sequence_for [frame]: "keeps lg_tasks (event_sequence_for s ty)"
  unfolding event_sequence_for_def by (intro frame, simp_all)

lemma tasks_record_event [frame]: "keeps lg_tasks (record_event s ty p)"
  unfolding record_event_def next_event_sequence_def by (intro frame) simp_all

text \<open>\<open>valid I P m Q\<close>: from a ledger with \<open>P\<close>, \<open>m\<close> ends in one with \<open>Q\<close> of its answer, or fails
  and leaves one with \<open>I\<close>.\<close>

definition valid :: "(ledger \<Rightarrow> bool) \<Rightarrow> (ledger \<Rightarrow> bool) \<Rightarrow> 'a db \<Rightarrow> ('a \<Rightarrow> ledger \<Rightarrow> bool) \<Rightarrow> bool" where
  "valid I P m Q \<longleftrightarrow> (\<forall>L. P L \<longrightarrow> (case m L of (Inl _, L') \<Rightarrow> I L' | (Inr x, L') \<Rightarrow> Q x L'))"

lemma valid_and_then: "valid I P m R \<Longrightarrow> (\<And>x. valid I (R x) (f x) Q) \<Longrightarrow> valid I P (and_then m f) Q"
  unfolding valid_def and_then_def by (fastforce split: prod.splits sum.splits)

lemma valid_return: "(\<And>L. P L \<Longrightarrow> Q x L) \<Longrightarrow> valid I P (db_return x) Q"
  by (simp add: valid_def db_return_def)

lemma valid_fail: "(\<And>L. P L \<Longrightarrow> I L) \<Longrightarrow> valid I P (db_fail e) Q"
  by (simp add: valid_def db_fail_def)

lemma valid_sql_try:
  assumes "\<And>L n. P L \<Longrightarrow> P (L\<lparr>lg_tick := n\<rparr>)" "\<And>L. P L \<Longrightarrow> I L"
    and "\<And>L. P L \<Longrightarrow> (case f L of (Inl _, L') \<Rightarrow> I L' | (Inr x, L') \<Rightarrow> Q x L')"
  shows "valid I P (sql_try f) Q"
  unfolding valid_def sql_try_def Let_def
  using assms(2)[OF assms(1)] assms(3)[OF assms(1)] by (auto split: option.split)

lemma valid_sql:
  assumes "\<And>L n. P L \<Longrightarrow> P (L\<lparr>lg_tick := n\<rparr>)" "\<And>L. P L \<Longrightarrow> I L"
    and "\<And>L. P L \<Longrightarrow> Q (fst (f L)) (snd (f L))"
  shows "valid I P (sql f) Q"
  unfolding sql_def by (rule valid_sql_try) (simp_all add: assms split_beta)

lemma valid_open_conn:
  "(\<And>L n. P L \<Longrightarrow> P (L\<lparr>lg_tick := n\<rparr>)) \<Longrightarrow> (\<And>L. P L \<Longrightarrow> I L) \<Longrightarrow> valid I P open_conn (\<lambda>_. P)"
  unfolding open_conn_def by (rule valid_sql) simp_all

lemma validD: "valid I P m Q \<Longrightarrow> P L \<Longrightarrow> m L = (r, L') \<Longrightarrow> (case r of Inl _ \<Rightarrow> I L' | Inr x \<Rightarrow> Q x L')"
  unfolding valid_def by (auto split: sum.split)

subsection \<open>Claims\<close>

text \<open>A statement that succeeds acted on the tables as they were.\<close>

lemma sql_Inr: "sql f L = (Inr x, L') \<Longrightarrow> f (L\<lparr>lg_tick := lg_tick L + 1\<rparr>) = (x, L')"
  by (auto simp: sql_def sql_try_def Let_def split: option.splits prod.splits)

lemma and_then_Inr:
  "and_then m f L = (Inr y, L') \<Longrightarrow> (\<And>x L1. m L = (Inr x, L1) \<Longrightarrow> f x L1 = (Inr y, L') \<Longrightarrow> thesis) \<Longrightarrow> thesis"
  by (auto simp: and_then_def split: prod.splits sum.splits)

lemma find_task_cong: "lg_tasks L = lg_tasks L' \<Longrightarrow> find_task t L = find_task t L'"
  by (simp add: find_task_def)

lemma tasks_dependencies_satisfied [frame]: "keeps lg_tasks (dependencies_satisfied deps)"
  by (induction deps) (simp_all add: frame)

definition deps_done :: "string list \<Rightarrow> ledger \<Rightarrow> bool" where
  "deps_done deps L \<longleftrightarrow> list_all (\<lambda>d. map_option tk_state (find_task d L) = Some ''done'') deps"

lemma dependencies_satisfied_True:
  "dependencies_satisfied deps L = (Inr ok, L') \<Longrightarrow> ok \<longleftrightarrow> deps_done deps L"
proof (induction deps arbitrary: L)
  case Nil
  then show ?case by (simp add: db_return_def deps_done_def)
next
  case (Cons d deps)
  from Cons.prems obtain s L1 where
      q: "sql (\<lambda>L. (map_option tk_state (find_task d L), L)) L = (Inr s, L1)"
    and r: "(if s = Some ''done'' then dependencies_satisfied deps else db_return False) L1 = (Inr ok, L')"
    by (auto elim!: and_then_Inr)
  from sql_Inr[OF q] have s: "s = map_option tk_state (find_task d L)" and same: "lg_tasks L1 = lg_tasks L"
    by (auto simp: find_task_def)
  have eq: "deps_done deps L1 = deps_done deps L"
    unfolding deps_done_def by (simp add: find_task_cong[OF same])
  show ?case
  proof (cases "s = Some ''done''")
    case True
    with r have "dependencies_satisfied deps L1 = (Inr ok, L')" by simp
    with Cons.IH eq have "ok \<longleftrightarrow> deps_done deps L" by blast
    with True s show ?thesis by (simp add: deps_done_def)
  next
    case False
    with r have "\<not> ok" by (simp add: db_return_def)
    with False s show ?thesis by (simp only: deps_done_def list.pred_inject simp_thms)
  qed
qed

text \<open>What one claim did: nothing, or it moved exactly this row.\<close>

definition claim_row :: "string \<Rightarrow> string \<Rightarrow> task_row \<Rightarrow> task_row" where
  "claim_row task agent t =
     (if tk_id t = task \<and> tk_state t = ''pending'' then t\<lparr>tk_state := ''claimed'', tk_agent := Some agent\<rparr> else t)"

definition ready :: "dep_codec \<Rightarrow> string \<Rightarrow> ledger \<Rightarrow> bool" where
  "ready J task L \<longleftrightarrow>
     (case find_task task L of
        None \<Rightarrow> False
      | Some t \<Rightarrow> tk_state t = ''pending'' \<and>
          (case parse_depends J (tk_depends t) of Inl _ \<Rightarrow> False | Inr deps \<Rightarrow> deps_done deps L))"

lemma claim_tx_Some:
  assumes "claim_tx J task agent L = (Inr (Some f), L')"
  shows "ready J task L \<and> lg_tasks L' = map (claim_row task agent) (lg_tasks L)"
proof -
  from assms obtain row L1 where
      q: "sql (\<lambda>L. (find_task task L, L)) L = (Inr row, L1)"
    and r: "(case row of
         None \<Rightarrow> db_return None
       | Some t \<Rightarrow>
           if tk_state t \<noteq> ''pending'' then db_return None
           else (case parse_depends J (tk_depends t) of
               Inl e \<Rightarrow> db_fail e
             | Inr deps \<Rightarrow>
                 and_then (dependencies_satisfied deps) (\<lambda>ok.
                   if \<not> ok then db_return None
                   else and_then (sql (update_tasks (\<lambda>t. tk_id t = task \<and> tk_state t = ''pending'')
                                          (\<lambda>t. t\<lparr>tk_state := ''claimed'', tk_agent := Some agent\<rparr>)))
                          (\<lambda>updated. db_return (if updated = 1 then Some (tk_fleet t) else None))))) L1
          = (Inr (Some f), L')"
    unfolding claim_tx_def by (rule and_then_Inr)
  from sql_Inr[OF q] have row: "row = find_task task L" and same: "lg_tasks L1 = lg_tasks L"
    by (auto simp: find_task_def)
  from r obtain t where t: "row = Some t" by (cases row) (simp_all add: db_return_def)
  from r t have p: "tk_state t = ''pending''" by (simp add: db_return_def split: if_split_asm)
  from r t p obtain deps where d: "parse_depends J (tk_depends t) = Inr deps"
    by (cases "parse_depends J (tk_depends t)") (simp_all add: db_fail_def)
  from r[unfolded t option.case] p d obtain ok L2 where
      ds: "dependencies_satisfied deps L1 = (Inr ok, L2)"
    and u: "(if \<not> ok then db_return None
             else and_then (sql (update_tasks (\<lambda>t. tk_id t = task \<and> tk_state t = ''pending'')
                                    (\<lambda>t. t\<lparr>tk_state := ''claimed'', tk_agent := Some agent\<rparr>)))
                    (\<lambda>updated. db_return (if updated = 1 then Some (tk_fleet t) else None))) L2 = (Inr (Some f), L')"
    by (simp add: if_not_P) (erule and_then_Inr)
  have ok: ok using u by (simp add: db_return_def split: if_split_asm)
  from dependencies_satisfied_True[OF ds] ok have "deps_done deps L1" by simp
  then have dd: "deps_done deps L" unfolding deps_done_def by (simp add: find_task_cong[OF same])
  have same2: "lg_tasks L2 = lg_tasks L" using keepsD[OF tasks_dependencies_satisfied ds] same by simp
  from u ok have "and_then (sql (update_tasks (\<lambda>t. tk_id t = task \<and> tk_state t = ''pending'')
                                    (\<lambda>t. t\<lparr>tk_state := ''claimed'', tk_agent := Some agent\<rparr>)))
                    (\<lambda>updated. db_return (if updated = 1 then Some (tk_fleet t) else None)) L2 = (Inr (Some f), L')"
    by simp
  then obtain n L3 where n: "sql (update_tasks (\<lambda>t. tk_id t = task \<and> tk_state t = ''pending'')
                                    (\<lambda>t. t\<lparr>tk_state := ''claimed'', tk_agent := Some agent\<rparr>)) L2 = (Inr n, L3)"
    and l3: "L3 = L'"
    by (rule and_then_Inr) (auto simp: db_return_def)
  have "lg_tasks L' = map (claim_row task agent) (lg_tasks L)"
    using sql_Inr[OF n] l3 same2 by (auto simp: update_tasks_def claim_row_def)
  moreover have "ready J task L" using row[symmetric] t p d dd by (simp add: ready_def)
  ultimately show ?thesis by blast
qed

lemma nop_Inr: "sql (\<lambda>L. ((), L)) L = (Inr x, L') \<Longrightarrow> lg_tasks L' = lg_tasks L"
  using sql_Inr by fastforce

lemma transaction_Inr:
  assumes "transaction m L = (Inr r, L')"
  obtains "r = None" "lg_tasks L' = lg_tasks L"
  | x L0 L1 where "r = Some x" "lg_tasks L0 = lg_tasks L" "m L0 = (Inr (Some x), L1)" "lg_tasks L' = lg_tasks L1"
proof -
  from assms obtain L0 where same: "lg_tasks L0 = lg_tasks L"
    and r: "(case m L0 of
         (Inr (Some x), L1) \<Rightarrow> and_then (sql (\<lambda>L. ((), L))) (\<lambda>_. db_return (Some x)) L1
       | (Inr None, L1) \<Rightarrow> and_then (sql (\<lambda>L. ((), L))) (\<lambda>_. db_return None) (L1\<lparr>lg_tasks := lg_tasks L0\<rparr>)
       | (Inl e, L1) \<Rightarrow> (Inl e, L1\<lparr>lg_tasks := lg_tasks L0\<rparr>)) = (Inr r, L')"
    unfolding transaction_def open_conn_def by (fastforce elim!: and_then_Inr dest!: nop_Inr)
  obtain a L1 where m: "m L0 = (a, L1)" by (rule prod.exhaust)
  show thesis
  proof (cases a)
    case (Inl e)
    with r m show thesis by simp
  next
    case (Inr o1)
    show thesis
    proof (cases o1)
      case None
      with r m Inr have "and_then (sql (\<lambda>L. ((), L))) (\<lambda>_. db_return None) (L1\<lparr>lg_tasks := lg_tasks L0\<rparr>) = (Inr r, L')"
        by simp
      then have "r = None" "lg_tasks L' = lg_tasks L"
        using same by (auto elim!: and_then_Inr dest!: nop_Inr simp: db_return_def)
      then show thesis by (rule that(1))
    next
      case (Some x)
      with r m Inr have "and_then (sql (\<lambda>L. ((), L))) (\<lambda>_. db_return (Some x)) L1 = (Inr r, L')" by simp
      then have "r = Some x" "lg_tasks L' = lg_tasks L1"
        by (auto elim!: and_then_Inr dest!: nop_Inr simp: db_return_def)
      then show thesis using same m Inr Some by (intro that(2)) simp_all
    qed
  qed
qed

lemma ready_cong: "lg_tasks L = lg_tasks L' \<Longrightarrow> ready J task L = ready J task L'"
  by (simp add: ready_def deps_done_def find_task_def split: option.split sum.split)

text \<open>The row moves exactly when the claim went through: it was pending, with every dependency done.\<close>

lemma claim_task_exact_lemma:
  assumes "claim_task J task agent L = (r, L')"
  shows "(lg_tasks L' = lg_tasks L \<and> r \<noteq> Inr True)
       \<or> (lg_tasks L' = map (claim_row task agent) (lg_tasks L) \<and> ready J task L \<and> r \<noteq> Inr False)"
proof -
  define tx where "tx = (\<lambda>L. case transaction (claim_tx J task agent) L of
                 (Inl e, L') \<Rightarrow> (Inl e, L'\<lparr>lg_tasks := lg_tasks L\<rparr>)
               | r \<Rightarrow> r)"
  define ev where "ev = (\<lambda>fleet. record_event fleet ''task_claimed''
                         (JObject [(''task_id'', JString task), (''assigned_agent'', JString agent)]))"
  have ct: "and_then tx (\<lambda>claimed. case claimed of None \<Rightarrow> db_return False
         | Some fleet \<Rightarrow> and_then (ev fleet) (\<lambda>_. db_return True)) L = (r, L')"
    using assms unfolding claim_task_def tx_def ev_def .
  obtain a L1 where t: "transaction (claim_tx J task agent) L = (a, L1)" by (rule prod.exhaust)
  show ?thesis
  proof (cases a)
    case (Inl e)
    with ct t have "L' = L1\<lparr>lg_tasks := lg_tasks L\<rparr>" "r = Inl e"
      by (simp_all add: and_then_def tx_def)
    then show ?thesis by simp
  next
    case (Inr c)
    then have tx: "tx L = (Inr c, L1)" using t by (simp add: tx_def)
    from t[unfolded Inr] show ?thesis
    proof (cases rule: transaction_Inr)
      case 1
      with ct tx show ?thesis by (auto simp: and_then_def db_return_def)
    next
      case (2 f L0 L2)
      have "ready J task L" "lg_tasks L1 = map (claim_row task agent) (lg_tasks L)"
        using claim_tx_Some[OF 2(3)] 2(2,4) ready_cong[OF 2(2)] by simp_all
      moreover have "keeps lg_tasks (and_then (ev f) (\<lambda>_. db_return True))"
        unfolding ev_def by (intro frame)
      then have "lg_tasks L' = lg_tasks L1"
        using ct tx 2(1) by (auto simp: and_then_def dest: keepsD)
      moreover have "r \<noteq> Inr False"
        using ct tx 2(1) by (auto simp: and_then_def db_return_def split: prod.split_asm sum.split_asm)
      ultimately show ?thesis by simp
    qed
  qed
qed

subsubsection \<open>Any number of claimants\<close>

text \<open>Claims arrive in some order (\<open>BEGIN IMMEDIATE\<close> serialises them), each by an agent, each statement
  of each of them possibly failing.\<close>

fun run_claims :: "dep_codec \<Rightarrow> (string \<times> string) list \<Rightarrow> ledger \<Rightarrow> (string \<times> string \<times> (string + bool)) list \<times> ledger" where
  "run_claims J [] L = ([], L)"
| "run_claims J ((task, agent) # cs) L =
     (case claim_task J task agent L of (r, L1) \<Rightarrow>
      case run_claims J cs L1 of (rs, L2) \<Rightarrow> ((task, agent, r) # rs, L2))"

definition won :: "string \<Rightarrow> string \<times> string \<times> (string + bool) \<Rightarrow> bool" where
  "won task c \<longleftrightarrow> (case c of (t, _, r) \<Rightarrow> t = task \<and> r = Inr True)"

definition not_pending :: "string \<Rightarrow> ledger \<Rightarrow> bool" where
  "not_pending task L \<longleftrightarrow> list_all (\<lambda>t. tk_id t = task \<longrightarrow> tk_state t \<noteq> ''pending'') (lg_tasks L)"

lemma claim_row_simps [simp]:
  "tk_id (claim_row task agent t) = tk_id t"
  "tk_depends (claim_row task agent t) = tk_depends t"
  "tk_fleet (claim_row task agent t) = tk_fleet t"
  by (simp_all add: claim_row_def)

lemma not_pending_claimed: "lg_tasks L' = map (claim_row task agent) (lg_tasks L) \<Longrightarrow> not_pending task L'"
  by (simp add: not_pending_def list_all_length claim_row_def)

lemma not_pending_stays:
  assumes np: "not_pending task L" and ct: "claim_task J t agent L = (r, L')"
  shows "not_pending task L'"
proof -
  have "tk_state (claim_row t agent x) = ''pending'' \<longrightarrow> tk_state x = ''pending''" for x
    by (simp add: claim_row_def)
  with np claim_task_exact_lemma[OF ct] show ?thesis
    unfolding not_pending_def list_all_iff by fastforce
qed

lemma not_pending_refused:
  assumes "not_pending task L" "claim_task J task agent L = (r, L')"
  shows "r \<noteq> Inr True"
proof
  assume "r = Inr True"
  with claim_task_exact_lemma[OF assms(2)] have "ready J task L" by simp
  then obtain t where t: "find_task task L = Some t" "tk_state t = ''pending''"
    unfolding ready_def by (cases "find_task task L") simp_all
  then have "t \<in> set (lg_tasks L)" "tk_id t = task"
    unfolding find_task_def by (auto simp: find_Some_iff)
  with assms(1) t(2) show False by (auto simp: not_pending_def list_all_iff)
qed

lemma none_won_later: "not_pending task L \<Longrightarrow> filter (won task) (fst (run_claims J cs L)) = []"
proof (induction cs arbitrary: L)
  case (Cons c cs)
  obtain t agent where c: "c = (t, agent)" by (rule prod.exhaust)
  obtain r L1 where ct: "claim_task J t agent L = (r, L1)" by (rule prod.exhaust)
  obtain rs L2 where rc: "run_claims J cs L1 = (rs, L2)" by (rule prod.exhaust)
  from Cons.IH[OF not_pending_stays[OF Cons.prems ct]] rc have "filter (won task) rs = []" by simp
  moreover have "\<not> won task (t, agent, r)"
    using not_pending_refused[OF Cons.prems] ct by (auto simp: won_def)
  ultimately show ?case using c ct rc by simp
qed simp

text \<open>C25: however many agents claim a task, in whatever order and with whatever statement failing, at most one of
  them is told that the task is its own.\<close>

theorem claimed_at_most_once: "length (filter (won task) (fst (run_claims J cs L))) \<le> 1"
proof (induction cs arbitrary: L)
  case (Cons c cs)
  obtain t agent where c: "c = (t, agent)" by (rule prod.exhaust)
  obtain r L1 where ct: "claim_task J t agent L = (r, L1)" by (rule prod.exhaust)
  obtain rs L2 where rc: "run_claims J cs L1 = (rs, L2)" by (rule prod.exhaust)
  show ?case
  proof (cases "won task (t, agent, r)")
    case True
    then have "not_pending task L1"
      using claim_task_exact_lemma[OF ct] not_pending_claimed by (auto simp: won_def)
    from none_won_later[OF this, of J cs] show ?thesis using c ct rc True by simp
  next
    case False
    with Cons.IH[of L1] show ?thesis using c ct rc by simp
  qed
qed simp

lemma ready_moves:
  assumes "ready J task L"
  shows "map (claim_row task agent) (lg_tasks L) \<noteq> lg_tasks L"
proof -
  from assms obtain t where t: "find_task task L = Some t" "tk_state t = ''pending''"
    unfolding ready_def by (cases "find_task task L") simp_all
  then have t2: "t \<in> set (lg_tasks L)" "tk_id t = task"
    unfolding find_task_def by (auto simp: find_Some_iff)
  have "tk_state (claim_row task agent t) = ''claimed''" using t t2 by (simp add: claim_row_def)
  then have "claim_row task agent t \<noteq> t" using t(2) by auto
  then have "map (claim_row task agent) (lg_tasks L) \<noteq> map (\<lambda>x. x) (lg_tasks L)"
    using t2(1) unfolding map_eq_conv by blast
  then show ?thesis by simp
qed

text \<open>A claim moves a row exactly when the task was pending with every dependency recorded as done, and then
  only that row, to the claimed state under that agent. It answers yes only when it moved the row, and no only when
  it moved nothing; an error may come after the move, when only the event could not be written.\<close>

theorem claim_task_exact:
  "case claim_task J task agent L of (r, L') \<Rightarrow>
     if lg_tasks L' = lg_tasks L then r \<noteq> Inr True
     else lg_tasks L' = map (claim_row task agent) (lg_tasks L) \<and> ready J task L \<and> r \<noteq> Inr False"
proof -
  obtain r L' where c: "claim_task J task agent L = (r, L')" by (rule prod.exhaust)
  show ?thesis
  proof (cases "lg_tasks L' = lg_tasks L")
    case True
    with claim_task_exact_lemma[OF c] ready_moves[of J task L agent] have "r \<noteq> Inr True" by auto
    with c True show ?thesis by simp
  next
    case False
    with claim_task_exact_lemma[OF c] c show ?thesis by simp
  qed
qed

end
