(* ===== verification/Contention.thy ===== *)
theory Contention
  imports Rust_Prelude
begin

text \<open>
  Two contracts that several components share. In a settling store a final value is never replaced: reviews, tasks and
  their interleaved writers keep it. In a contest many contenders go for one thing that only one of them may get:
  recorders for a task, claimants for a launch. Their consequences are proved here once, from the laws alone.
\<close>

locale settling_store =
  fixes look :: "'k \<Rightarrow> 's \<Rightarrow> 'v option"
    and final :: "'v \<Rightarrow> bool"
    and step :: "'s \<Rightarrow> 's \<Rightarrow> bool"
  assumes step_settled: "step s s' \<Longrightarrow> look k s = Some v \<Longrightarrow> final v \<Longrightarrow> look k s' = Some v"
begin

lemma settled_stays: "step\<^sup>*\<^sup>* s s' \<Longrightarrow> look k s = Some v \<Longrightarrow> final v \<Longrightarrow> look k s' = Some v"
  by (induction rule: rtranclp_induct) (auto dest: step_settled)

text \<open>Two readers that each saw a final value, at whatever times, saw the same one.\<close>

lemma readers_agree:
  assumes "step\<^sup>*\<^sup>* s s'" "look k s = Some v" "final v" "look k s' = Some w"
  shows "w = v"
  using settled_stays[OF assms(1-3)] assms(4) by simp

end

locale contest =
  fixes step :: "'s \<Rightarrow> 's \<Rightarrow> bool"
    and has :: "nat \<Rightarrow> 's \<Rightarrow> bool"
    and free :: "'s \<Rightarrow> bool"
    and ok :: "'s \<Rightarrow> bool"
  assumes ok_step: "ok s \<Longrightarrow> step s s' \<Longrightarrow> ok s'"
    and had: "ok s \<Longrightarrow> has i s \<Longrightarrow> \<not> free s"
    and got: "ok s \<Longrightarrow> step s s' \<Longrightarrow> has i s' \<Longrightarrow> has i s \<or> free s"
    and one_mover: "ok s \<Longrightarrow> step s s' \<Longrightarrow> has i s' \<Longrightarrow> \<not> has i s \<Longrightarrow> has j s' \<Longrightarrow> \<not> has j s \<Longrightarrow> i = j"
begin

lemma single_step:
  assumes "ok s" "step s s'" "\<And>i j. has i s \<Longrightarrow> has j s \<Longrightarrow> i = j" "has i s'" "has j s'"
  shows "i = j"
proof (cases "has i s"; cases "has j s")
  assume "has i s" "has j s"
  then show ?thesis by (rule assms(3))
next
  assume "has i s" "\<not> has j s"
  with got[OF assms(1,2,5)] had[OF assms(1)] show ?thesis by blast
next
  assume "\<not> has i s" "has j s"
  with got[OF assms(1,2,4)] had[OF assms(1)] show ?thesis by blast
next
  assume "\<not> has i s" "\<not> has j s"
  with one_mover[OF assms(1,2)] assms(4,5) show ?thesis by blast
qed

lemma at_most_one:
  assumes "step\<^sup>*\<^sup>* s s'" "ok s" "\<And>i. \<not> has i s"
  shows "ok s' \<and> (\<forall>i j. has i s' \<longrightarrow> has j s' \<longrightarrow> i = j)"
  using assms(1)
proof (induction rule: rtranclp_induct)
  case base
  then show ?case using assms(2,3) by blast
next
  case (step s1 s2)
  then have "ok s2" using ok_step by blast
  moreover have "i = j" if "has i s2" "has j s2" for i j
    by (rule single_step[of s1 s2]) (use step that in blast)+
  ultimately show ?case by blast
qed

end

end
