(* ===== verification/Peer_Review.thy ===== *)
theory Peer_Review
  imports Fleet_Ledger Seats Contention
begin

text \<open>
  The peer review engine (\<open>peer-review/src/lib.rs\<close>): who reviews what, the bound on reviews in progress, who
  may record which verdict, and the promotion of waiting reviews. Time is counted in seconds, the resolution of
  \<open>datetime('now')\<close>; the rows of a table are in the order of their \<open>rowid\<close>.

  Shown here: nobody reviews its own output whatever it is called, a verdict once recorded never changes however
  operations interleave, an approval from outside comes from the assigned reviewer, and operations that do not
  overlap keep the bound on reviews in progress.
\<close>

subsection \<open>The panel\<close>

definition DEFAULT_PANEL :: "string list" where
  "DEFAULT_PANEL = [''codex'', ''gemini'', ''grok'', ''claude'']"

definition default_reviewers :: "string option \<Rightarrow> string list" where
  "default_reviewers env =
     (case env of
        Some raw \<Rightarrow>
          (let picked = filter (\<lambda>s. s \<noteq> []) (map (\<lambda>s. to_lowercase (trim s)) (split_char CHR '','' raw)) in
           if picked = [] then DEFAULT_PANEL else picked)
      | None \<Rightarrow> DEFAULT_PANEL)"

text \<open>The panel of the engine and its counter of assignments, a \<open>usize\<close>.\<close>

record engine =
  en_reviewers :: "string list"
  en_round_robin :: u64

definition new_engine :: "string option \<Rightarrow> engine" where
  "new_engine env = \<lparr>en_reviewers = default_reviewers env, en_round_robin = 0\<rparr>"

definition non_authors :: "engine \<Rightarrow> string \<Rightarrow> string list" where
  "non_authors en author =
     filter (\<lambda>name. normalize_agent_name name \<noteq> normalize_agent_name author) (en_reviewers en)"

definition next_reviewer_through ::
  "engine \<Rightarrow> string \<Rightarrow> (string \<Rightarrow> bool) option \<Rightarrow> (string + string) \<times> engine"
where
  "next_reviewer_through en author gate =
     (case gate of
        None \<Rightarrow> (Inl ''reviewer_gate_not_installed'', en)
      | Some g \<Rightarrow>
          (let candidates = non_authors en author in
           if candidates = [] then (Inl ''no non-author reviewers available'', en)
           else
             (let refused = filter (\<lambda>name. \<not> g (normalize_agent_name name)) candidates;
                  admitted = filter (\<lambda>name. name \<notin> set refused) candidates
              in if admitted = [] then
                   (Inl (''no non-author reviewer is allowed in the peer-review rotation; refused by the seat gate: ''
                           @ join '', '' refused), en)
                 else
                   (Inr (admitted ! (unat (en_round_robin en) mod length admitted)),
                    en\<lparr>en_round_robin := saturating_add (en_round_robin en) 1\<rparr>))))"

subsection \<open>Statements on the table of reviews\<close>

definition find_review :: "string \<Rightarrow> ledger \<Rightarrow> review_row option" where
  "find_review rid L = find (\<lambda>r. rv_id r = rid) (lg_reviews L)"

definition in_flight :: "ledger \<Rightarrow> nat" where
  "in_flight L = length (filter (\<lambda>r. rv_state r = ''in_progress'') (lg_reviews L))"

definition update_reviews :: "(review_row \<Rightarrow> bool) \<Rightarrow> (review_row \<Rightarrow> review_row) \<Rightarrow> ledger \<Rightarrow> nat \<times> ledger" where
  "update_reviews p f L =
     (length (filter p (lg_reviews L)), L\<lparr>lg_reviews := map (\<lambda>r. if p r then f r else r) (lg_reviews L)\<rparr>)"

definition insert_review :: "review_row \<Rightarrow> ledger \<Rightarrow> (string + unit) \<times> ledger" where
  "insert_review r L =
     (if list_ex (\<lambda>r'. rv_id r' = rv_id r) (lg_reviews L) then (Inl ''UNIQUE constraint failed: reviews.review_id'', L)
      else (Inr (), L\<lparr>lg_reviews := lg_reviews L @ [r\<lparr>rv_requested_at := lg_now L\<rparr>]\<rparr>))"

definition settle_review :: "string \<Rightarrow> string \<Rightarrow> string option \<Rightarrow> ledger \<Rightarrow> nat \<times> ledger" where
  "settle_review rid verdict comments L =
     update_reviews (\<lambda>r. rv_id r = rid \<and> rv_state r = ''in_progress'')
       (\<lambda>r. r\<lparr>rv_verdict := Some verdict, rv_comments := comments, rv_reviewed_at := Some (lg_now L), rv_state := ''done''\<rparr>) L"

definition promote_review :: "string \<Rightarrow> ledger \<Rightarrow> nat \<times> ledger" where
  "promote_review rid L =
     update_reviews (\<lambda>r. rv_id r = rid \<and> rv_state r = ''pending'') (\<lambda>r. r\<lparr>rv_state := ''in_progress''\<rparr>) L"

definition expire_reviews :: "nat \<Rightarrow> ledger \<Rightarrow> nat \<times> ledger" where
  "expire_reviews timeout L =
     update_reviews (\<lambda>r. rv_state r = ''in_progress'' \<and> int (rv_requested_at r) < int (lg_now L) - int timeout)
       (\<lambda>r. r\<lparr>rv_state := ''failed'',
              rv_comments := (case rv_comments r of Some c \<Rightarrow> Some c | None \<Rightarrow> Some ''timeout'')\<rparr>) L"

definition next_pending :: "ledger \<Rightarrow> string option" where
  "next_pending L =
     (case sort_key rv_requested_at (filter (\<lambda>r. rv_state r = ''pending'') (lg_reviews L)) of
        r # _ \<Rightarrow> Some (rv_id r)
      | [] \<Rightarrow> None)"

definition get_review :: "string \<Rightarrow> review_row option db" where
  "get_review rid = and_then open_conn (\<lambda>_. sql (\<lambda>L. (find_review rid L, L)))"

text \<open>\<open>ORDER BY reviewed_at DESC NULLS LAST, rowid DESC\<close>.\<close>

definition artifact_rows :: "string \<Rightarrow> ledger \<Rightarrow> review_row list" where
  "artifact_rows artifact L =
     (let rs = filter (\<lambda>r. rv_artifact r = artifact) (lg_reviews L)
      in rev (sort_key (\<lambda>r. case rv_reviewed_at r of Some n \<Rightarrow> n | None \<Rightarrow> 0)
                (filter (\<lambda>r. rv_reviewed_at r \<noteq> None) rs))
           @ rev (filter (\<lambda>r. rv_reviewed_at r = None) rs))"

definition reviews_for_artifact :: "string \<Rightarrow> review_row list db" where
  "reviews_for_artifact artifact = and_then open_conn (\<lambda>_. sql (\<lambda>L. (artifact_rows artifact L, L)))"

subsection \<open>Requests and verdicts\<close>

text \<open>The number is compared after a cast to \<open>i64\<close>; one of \<open>2 ^ 63\<close> or more becomes negative, so that no count of reviews is
  below it, as with zero.\<close>

definition max_inflight_limit :: "string option \<Rightarrow> nat" where
  "max_inflight_limit env =
     (case Option.bind env (parse_uint 64) of
        Some n \<Rightarrow> if n > 0 then (if n < 2 ^ 63 then n else 0) else 2
      | None \<Rightarrow> 2)"

record review_request =
  rq_fleet :: "string option"
  rq_author :: string
  rq_artifact :: string
  rq_type :: string
  rq_dispatch_owned :: bool

text \<open>The row that a request inserts. \<open>uuid\<close> is the fresh identifier.\<close>

definition review_row_of :: "string \<Rightarrow> review_request \<Rightarrow> string \<Rightarrow> string \<Rightarrow> review_row" where
  "review_row_of uuid req reviewer state =
     \<lparr>rv_id = ''review-'' @ uuid, rv_fleet = rq_fleet req, rv_author = rq_author req, rv_reviewer = Some reviewer,
      rv_artifact = rq_artifact req, rv_type = rq_type req, rv_verdict = None, rv_comments = None,
      rv_requested_at = 0, rv_reviewed_at = None, rv_state = state, rv_dispatch_owned = rq_dispatch_owned req\<rparr>"

text \<open>The part of \<open>request_review\<close> after the reviewer is chosen: the count, the insertion, the row read back.\<close>

definition file_review :: "nat \<Rightarrow> string \<Rightarrow> review_request \<Rightarrow> string \<Rightarrow> review_row db" where
  "file_review limit uuid req reviewer =
     and_then open_conn (\<lambda>_.
     and_then (sql (\<lambda>L. (in_flight L, L))) (\<lambda>inflight.
     and_then (sql_try (insert_review
                 (review_row_of uuid req reviewer (if inflight < limit then ''in_progress'' else ''pending'')))) (\<lambda>_.
     and_then (get_review (''review-'' @ uuid)) (\<lambda>row.
       case row of Some r \<Rightarrow> db_return r | None \<Rightarrow> db_fail ''review insert did not persist''))))"

definition request_review ::
  "(string \<Rightarrow> bool) option \<Rightarrow> nat \<Rightarrow> string \<Rightarrow> review_request \<Rightarrow> engine \<Rightarrow> ledger
     \<Rightarrow> (string + review_row) \<times> engine \<times> ledger"
where
  "request_review gate limit uuid req en L =
     (case next_reviewer_through en (rq_author req) gate of
        (Inl e, en') \<Rightarrow> (Inl e, en', L)
      | (Inr reviewer, en') \<Rightarrow>
          if normalize_agent_name reviewer = normalize_agent_name (rq_author req) then
            (Inl (''author cannot review own output (`'' @ reviewer @ ''` and `'' @ rq_author req
                    @ ''` are the same agent)''), en', L)
          else (case file_review limit uuid req reviewer L of (r, L') \<Rightarrow> (r, en', L')))"

datatype Submitter = Dispatch | Agent string

definition VERDICTS :: "string list" where
  "VERDICTS = [''approve'', ''concerns'', ''reject'', ''indeterminate'']"

definition normalise_verdict :: "string \<Rightarrow> string + string" where
  "normalise_verdict raw =
     (let cleaned = to_lowercase (trim raw) in
      if cleaned \<in> set VERDICTS then Inr cleaned
      else Inl (''unknown verdict '' @ debug_str cleaned
                  @ '': expected one of approve, concerns, reject, indeterminate''))"

definition authorised :: "Submitter \<Rightarrow> review_row \<Rightarrow> bool" where
  "authorised submitter r =
     (let assigned = (case rv_reviewer r of Some a \<Rightarrow> a | None \<Rightarrow> []) in
      case submitter of
        Dispatch \<Rightarrow> True
      | Agent name \<Rightarrow> assigned \<noteq> [] \<and> eq_ignore_ascii_case name assigned)"

text \<open>The refusals of \<open>submit_review\<close> once the row was read.\<close>

definition submit_refused :: "string \<Rightarrow> string \<Rightarrow> Submitter \<Rightarrow> review_row \<Rightarrow> string option" where
  "submit_refused rid verdict submitter r =
     (let q = [CHR 0x27];
          assigned = (case rv_reviewer r of Some a \<Rightarrow> a | None \<Rightarrow> []);
          claimed = (case submitter of
              Dispatch \<Rightarrow> ''in-process dispatch''
            | Agent name \<Rightarrow> if name = [] then ''(no reviewer named)'' else name)
      in if rv_state r \<noteq> ''in_progress'' then
           Some (''review '' @ rid @ '' is '' @ q @ rv_state r @ q @ '', not '' @ q @ ''in_progress'' @ q
                   @ '': a verdict can only be recorded against a review that is actually running'')
         else if rv_dispatch_owned r \<and> submitter \<noteq> Dispatch then
           Some (''review '' @ rid @ '' is being conducted by the daemon'' @ q
                   @ ''s own review dispatch and                  cannot be submitted by a client'')
         else if verdict = ''approve'' \<and> \<not> authorised submitter r then
           Some (''review '' @ rid @ '' is assigned to '' @ q @ assigned @ q
                   @ '', but the approve was submitted by '' @ q @ claimed @ q)
         else None)"

text \<open>After a verdict: the oldest waiting review starts when there is room.\<close>

definition promote_next :: "nat \<Rightarrow> string option db" where
  "promote_next limit =
     and_then (sql (\<lambda>L. (in_flight L, L))) (\<lambda>inflight.
       if inflight \<ge> limit then db_return None
       else and_then (sql (\<lambda>L. (next_pending L, L))) (\<lambda>next.
         case next of
           Some rid \<Rightarrow> and_then (sql (promote_review rid)) (\<lambda>_. db_return (Some rid))
         | None \<Rightarrow> db_return None))"

definition submit_review :: "nat \<Rightarrow> string \<Rightarrow> string \<Rightarrow> string option \<Rightarrow> Submitter \<Rightarrow> string option db" where
  "submit_review limit rid verdict comments submitter =
     (case normalise_verdict verdict of
        Inl e \<Rightarrow> db_fail e
      | Inr v \<Rightarrow>
          and_then open_conn (\<lambda>_.
          and_then (get_review rid) (\<lambda>row.
            case row of
              None \<Rightarrow> db_fail (''review not found: '' @ rid)
            | Some r \<Rightarrow>
                (case submit_refused rid v submitter r of
                   Some e \<Rightarrow> db_fail e
                 | None \<Rightarrow>
                     and_then (sql (settle_review rid v comments)) (\<lambda>updated.
                       if updated = 0 then
                         db_fail (''review '' @ rid @ '' changed state while the verdict was being recorded'')
                       else promote_next limit)))))"

definition fail_timed_out_reviews :: "nat \<Rightarrow> nat db" where
  "fail_timed_out_reviews timeout = and_then open_conn (\<lambda>_. sql (expire_reviews timeout))"

subsection \<open>Who reviews\<close>

lemma next_reviewer_admitted:
  assumes "next_reviewer_through en author gate = (Inr name, en')"
  obtains g where "gate = Some g" "name \<in> set (en_reviewers en)" "g (normalize_agent_name name)"
    "normalize_agent_name name \<noteq> normalize_agent_name author" "en_reviewers en' = en_reviewers en"
proof -
  from assms obtain g where g: "gate = Some g"
    by (cases gate) (simp_all add: next_reviewer_through_def)
  define adm where "adm = filter (\<lambda>name. name \<notin> set (filter (\<lambda>name. \<not> g (normalize_agent_name name))
                            (non_authors en author))) (non_authors en author)"
  from assms g have "adm \<noteq> []" and name: "name = adm ! (unat (en_round_robin en) mod length adm)"
    and en: "en_reviewers en' = en_reviewers en"
    unfolding next_reviewer_through_def adm_def
    by (auto simp: Let_def simp del: filter_filter split: if_split_asm)
  then have "name \<in> set adm" by simp
  then have "name \<in> set (non_authors en author)" "g (normalize_agent_name name)"
    unfolding adm_def by auto
  with g en show thesis by (intro that[of g]) (auto simp: non_authors_def)
qed

lemma request_review_cases:
  assumes "request_review gate limit uuid req en L = (r, en', L')"
  obtains (refused) e where "r = Inl e" "L' = L"
  | (filed) reviewer where "next_reviewer_through en (rq_author req) gate = (Inr reviewer, en')"
      "file_review limit uuid req reviewer L = (r, L')"
proof -
  obtain a en1 where n: "next_reviewer_through en (rq_author req) gate = (a, en1)" by (rule prod.exhaust)
  show thesis
  proof (cases a)
    case (Inl e)
    with assms n have "r = Inl e" "L' = L" by (simp_all add: request_review_def)
    then show thesis by (rule refused)
  next
    case (Inr reviewer)
    with n have "normalize_agent_name reviewer \<noteq> normalize_agent_name (rq_author req)"
      by (auto elim: next_reviewer_admitted)
    with assms n Inr have "file_review limit uuid req reviewer L = (r, L')" "en' = en1"
      by (auto simp: request_review_def split: prod.split_asm)
    with n Inr show thesis by (intro filed) simp_all
  qed
qed

lemma file_review_row:
  assumes "file_review limit uuid req reviewer L = (Inr row, L')"
  shows "rv_author row = rq_author req" "rv_reviewer row = Some reviewer"
proof -
  define st where "st = (\<lambda>n. if n < limit then ''in_progress'' else ''pending'')"
  from assms obtain n L1 L2 u L3 where
      ins: "sql_try (insert_review (review_row_of uuid req reviewer (st n))) L1 = (Inr u, L2)"
    and get: "get_review (''review-'' @ uuid) L2 = (Inr (Some row), L3)"
    unfolding file_review_def st_def
    by (fastforce elim!: and_then_Inr simp: db_fail_def db_return_def split: option.split_asm)
  from ins have
      fresh: "\<not> list_ex (\<lambda>r'. rv_id r' = ''review-'' @ uuid) (lg_reviews L1)"
    and L2: "lg_reviews L2 = lg_reviews L1 @ [(review_row_of uuid req reviewer (st n))\<lparr>rv_requested_at := lg_now L1\<rparr>]"
    by (auto simp: sql_try_def insert_review_def review_row_of_def Let_def split: option.split_asm if_split_asm)
  from get have row: "find_review (''review-'' @ uuid) L2 = Some row"
    unfolding get_review_def open_conn_def by (auto elim!: and_then_Inr dest!: sql_Inr simp: find_review_def)
  have none: "find (\<lambda>r. rv_id r = ''review-'' @ uuid) (lg_reviews L1) = None"
    using fresh by (auto simp: find_None_iff list_ex_iff)
  have app: "find P (xs @ [y]) = (case find P xs of Some z \<Rightarrow> Some z | None \<Rightarrow> if P y then Some y else None)" for P xs and y :: review_row
    by (induction xs) auto
  have "row = (review_row_of uuid req reviewer (st n))\<lparr>rv_requested_at := lg_now L1\<rparr>"
    using row none unfolding find_review_def L2 app by (simp add: review_row_of_def)
  then show "rv_author row = rq_author req" "rv_reviewer row = Some reviewer"
    by (simp_all add: review_row_of_def)
qed

text \<open>A review that was assigned is assigned to a seat of the panel that the seat gate admits and whose canonical
  name is not the canonical name of the author; without an installed gate nothing is assigned.\<close>

theorem reviewer_is_not_author:
  "case fst (request_review gate limit uuid req en L) of
     Inl _ \<Rightarrow> True
   | Inr row \<Rightarrow> \<exists>g a. gate = Some g \<and> rv_reviewer row = Some a \<and> rv_author row = rq_author req
       \<and> a \<in> set (en_reviewers en) \<and> g (normalize_agent_name a)
       \<and> normalize_agent_name a \<noteq> normalize_agent_name (rq_author req)"
proof -
  obtain r en' L' where rr: "request_review gate limit uuid req en L = (r, en', L')" by (metis prod_cases3)
  show ?thesis
  proof (cases r)
    case (Inr row)
    from rr show ?thesis
    proof (cases rule: request_review_cases)
      case (filed reviewer)
      obtain g where "gate = Some g" "reviewer \<in> set (en_reviewers en)" "g (normalize_agent_name reviewer)"
          "normalize_agent_name reviewer \<noteq> normalize_agent_name (rq_author req)"
        using filed(1) by (rule next_reviewer_admitted)
      with file_review_row[OF filed(2)[unfolded Inr]] show ?thesis using rr Inr by simp
    qed (simp add: Inr)
  qed (simp add: rr)
qed

text \<open>Every caller makes its own engine, so its counter is always zero and the first admitted name is always the one.\<close>

lemma fresh_engine_never_rotates:
  assumes "next_reviewer_through (new_engine env) author gate = (Inr b, en')"
  shows "\<exists>g. gate = Some g \<and> b = hd (filter (\<lambda>n. g (normalize_agent_name n)) (non_authors (new_engine env) author))"
proof -
  from assms obtain g where g: "gate = Some g"
    by (cases gate) (simp_all add: next_reviewer_through_def)
  have eq: "filter (\<lambda>x. x \<in> set xs \<longrightarrow> g (normalize_agent_name x)) xs = filter (\<lambda>x. g (normalize_agent_name x)) xs" for xs
    by (rule filter_cong) simp_all
  show ?thesis
    using assms g
    by (auto simp: next_reviewer_through_def Let_def new_engine_def eq hd_conv_nth split: if_split_asm)
qed

subsection \<open>Interleavings\<close>

text \<open>What one statement does to the table, whoever runs it. \<open>fresh_row\<close> is a row that a request inserts.\<close>

definition fresh_row :: "review_row \<Rightarrow> bool" where
  "fresh_row r \<longleftrightarrow> rv_verdict r = None \<and> rv_state r \<in> {''pending'', ''in_progress''}
     \<and> (case rv_reviewer r of None \<Rightarrow> False | Some a \<Rightarrow> normalize_agent_name a \<noteq> normalize_agent_name (rv_author r))"

inductive review_write :: "ledger \<Rightarrow> ledger \<Rightarrow> bool" where
  insert: "fresh_row r \<Longrightarrow> insert_review r L = (Inr (), L') \<Longrightarrow> review_write L L'"
| settle: "v \<in> set VERDICTS \<Longrightarrow> settle_review rid v c L = (n, L') \<Longrightarrow> review_write L L'"
| promote: "promote_review rid L = (n, L') \<Longrightarrow> review_write L L'"
| expire: "expire_reviews timeout L = (n, L') \<Longrightarrow> review_write L L'"
| other: "lg_reviews L' = lg_reviews L \<Longrightarrow> review_write L L'"

definition review_runs :: "'a db \<Rightarrow> bool" where
  "review_runs m \<longleftrightarrow> (\<forall>L. review_write\<^sup>*\<^sup>* L (snd (m L)))"

lemma review_runs_and_then [frame]:
  "review_runs m \<Longrightarrow> (\<And>x. review_runs (f x)) \<Longrightarrow> review_runs (and_then m f)"
  unfolding review_runs_def and_then_def
  by (auto split: prod.split sum.split) (metis snd_conv, metis snd_conv rtranclp_trans)

lemma review_runs_keeps: "keeps lg_reviews m \<Longrightarrow> review_runs m"
  unfolding keeps_def review_runs_def by (blast intro: review_write.other)

lemma review_runs_return [frame]: "review_runs (db_return x)"
  and review_runs_fail [frame]: "review_runs (db_fail e)"
  by (simp_all add: review_runs_def db_return_def db_fail_def)

lemma review_runs_sql_try:
  assumes "\<And>L. review_write L (snd (f L))"
  shows "review_runs (sql_try f)"
  unfolding review_runs_def
proof
  fix L
  have t: "review_write L (L\<lparr>lg_tick := lg_tick L + 1\<rparr>)" by (rule review_write.other) simp
  with assms[of "L\<lparr>lg_tick := lg_tick L + 1\<rparr>"] show "review_write\<^sup>*\<^sup>* L (snd (sql_try f L))"
    by (auto simp: sql_try_def Let_def split: option.split intro: rtranclp.intros)
qed

lemma review_runs_sql [frame]: "(\<And>L. review_write L (snd (f L))) \<Longrightarrow> review_runs (sql f)"
  unfolding sql_def by (rule review_runs_sql_try) (simp split: prod.split add: split_beta)

lemma review_runs_get [frame]: "review_runs (get_review rid)"
  unfolding get_review_def open_conn_def by (intro frame review_write.other) simp_all

lemma normalise_verdict_known: "normalise_verdict raw = Inr v \<Longrightarrow> v \<in> set VERDICTS"
  unfolding normalise_verdict_def Let_def by (simp split: if_split_asm)

lemma review_runs_if [frame]:
  "(b \<Longrightarrow> review_runs m) \<Longrightarrow> (\<not> b \<Longrightarrow> review_runs m') \<Longrightarrow> review_runs (if b then m else m')"
  by simp

lemma review_runs_option [frame]:
  "(x = None \<Longrightarrow> review_runs m) \<Longrightarrow> (\<And>y. x = Some y \<Longrightarrow> review_runs (f y)) \<Longrightarrow>
   review_runs (case x of None \<Rightarrow> m | Some y \<Rightarrow> f y)"
  by (cases x) simp_all

lemma review_write_read: "(\<And>L. lg_reviews (snd (f L)) = lg_reviews L) \<Longrightarrow> review_runs (sql f)"
  by (intro frame review_write.other) simp

lemma review_runs_settle: "v \<in> set VERDICTS \<Longrightarrow> review_runs (sql (settle_review rid v c))"
  by (intro frame review_write.settle[OF _ surjective_pairing])

lemma review_runs_promote: "review_runs (sql (promote_review rid))"
  by (intro frame review_write.promote[OF surjective_pairing])

lemma review_runs_open [frame]: "review_runs open_conn"
  unfolding open_conn_def by (rule review_write_read) simp

lemma review_runs_promote_next [frame]: "review_runs (promote_next limit)"
  unfolding promote_next_def by (intro frame review_write_read review_runs_promote) simp_all

lemma review_runs_submit: "review_runs (submit_review limit rid verdict comments submitter)"
proof (cases "normalise_verdict verdict")
  case (Inr v)
  from normalise_verdict_known[OF this] show ?thesis
    unfolding submit_review_def Inr sum.case by (intro frame review_runs_settle)
qed (simp add: submit_review_def frame)

lemma review_runs_fail_timed_out: "review_runs (fail_timed_out_reviews timeout)"
  unfolding fail_timed_out_reviews_def
  by (intro frame review_runs_sql review_write.expire[OF surjective_pairing])

lemma review_runs_file:
  assumes "normalize_agent_name reviewer \<noteq> normalize_agent_name (rq_author req)"
  shows "review_runs (file_review limit uuid req reviewer)"
proof -
  have "review_write L (snd (insert_review (review_row_of uuid req reviewer st) L))"
    if "st = ''in_progress'' \<or> st = ''pending''" for st L
  proof (cases "insert_review (review_row_of uuid req reviewer st) L")
    case (Pair a L')
    show ?thesis
    proof (cases a)
      case (Inl e)
      with Pair show ?thesis
        by (auto simp: insert_review_def intro: review_write.other split: if_split_asm)
    next
      case (Inr u)
      have "fresh_row (review_row_of uuid req reviewer st)"
        using assms that by (auto simp: fresh_row_def review_row_of_def)
      with Pair Inr show ?thesis by (simp add: review_write.insert)
    qed
  qed
  then show ?thesis
    unfolding file_review_def by (intro frame review_write_read review_runs_sql_try) (simp_all split: if_split)
qed

text \<open>Every operation, whatever fails in it and however it answers, is a sequence of such statements.\<close>

lemma request_review_runs: "review_write\<^sup>*\<^sup>* L (snd (snd (request_review gate limit uuid req en L)))"
proof -
  obtain r en' L' where rr: "request_review gate limit uuid req en L = (r, en', L')" by (metis prod_cases3)
  from rr show ?thesis
  proof (cases rule: request_review_cases)
    case (filed reviewer)
    then have "normalize_agent_name reviewer \<noteq> normalize_agent_name (rq_author req)"
      by (auto elim: next_reviewer_admitted)
    from review_runs_file[OF this, of limit uuid] filed(2) rr show ?thesis
      unfolding review_runs_def by (metis snd_conv)
  qed (simp add: rr)
qed

text \<open>The rows of the table: an author never reviews, and exactly the answered reviews carry a verdict, a known one.\<close>

definition row_ok :: "review_row \<Rightarrow> bool" where
  "row_ok r \<longleftrightarrow>
     (case rv_reviewer r of None \<Rightarrow> False | Some a \<Rightarrow> normalize_agent_name a \<noteq> normalize_agent_name (rv_author r))
   \<and> (case rv_verdict r of None \<Rightarrow> rv_state r \<noteq> ''done'' | Some v \<Rightarrow> v \<in> set VERDICTS \<and> rv_state r = ''done'')
   \<and> rv_state r \<in> {''pending'', ''in_progress'', ''done'', ''failed''}"

lemma review_write_rows:
  assumes "review_write L L'" "list_all row_ok (lg_reviews L)"
  shows "list_all row_ok (lg_reviews L')"
  using assms
proof cases
  case (insert r)
  then have "row_ok (r\<lparr>rv_requested_at := lg_now L\<rparr>)"
    by (auto simp: fresh_row_def row_ok_def split: option.split_asm)
  with insert assms(2) show ?thesis by (auto simp: insert_review_def split: if_split_asm)
next
  case (settle v rid c n)
  have "row_ok (r\<lparr>rv_verdict := Some v, rv_comments := c, rv_reviewed_at := Some (lg_now L), rv_state := ''done''\<rparr>)"
    if "row_ok r" for r
    using that settle(1) by (simp add: row_ok_def split: option.split_asm)
  with settle assms(2) show ?thesis by (auto simp: settle_review_def update_reviews_def list_all_iff)
next
  case (promote rid n)
  have "row_ok (r\<lparr>rv_state := ''in_progress''\<rparr>)" if "row_ok r" "rv_state r = ''pending''" for r
    using that by (simp add: row_ok_def split: option.split_asm)
  with promote assms(2) show ?thesis by (auto simp: promote_review_def update_reviews_def list_all_iff)
next
  case (expire timeout n)
  have "row_ok (r\<lparr>rv_state := ''failed'', rv_comments := c\<rparr>)" if "row_ok r" "rv_state r = ''in_progress''" for r c
    using that by (simp add: row_ok_def split: option.split_asm)
  with expire assms(2) show ?thesis by (auto simp: expire_reviews_def update_reviews_def list_all_iff)
qed simp

lemma find_map_same:
  "(\<And>x. P (f x) = P x) \<Longrightarrow> find P (map f xs) = map_option f (find P xs)"
  by (induction xs) auto

lemma find_append_Some: "find P xs = Some x \<Longrightarrow> find P (xs @ ys) = Some x"
  by (induction xs) (auto split: if_split_asm)

lemma review_write_settled:
  assumes "review_write L L'" and r: "find_review rid L = Some r" and "rv_state r \<in> {''done'', ''failed''}"
  shows "find_review rid L' = Some r"
  using assms(1)
proof cases
  case (insert x)
  with r show ?thesis
    by (auto simp: insert_review_def find_review_def find_append_Some split: if_split_asm)
next
  case (settle v i c n)
  with r assms(3) show ?thesis
    by (auto simp: settle_review_def update_reviews_def find_review_def find_map_same)
next
  case (promote i n)
  with r assms(3) show ?thesis
    by (auto simp: promote_review_def update_reviews_def find_review_def find_map_same)
next
  case (expire t n)
  with r assms(3) show ?thesis
    by (auto simp: expire_reviews_def update_reviews_def find_review_def find_map_same)
qed (use r in \<open>simp add: find_review_def\<close>)

interpretation reviews: settling_store find_review "\<lambda>r. rv_state r \<in> {''done'', ''failed''}" review_write
  by unfold_locales (rule review_write_settled)

lemma review_writes_rows: "review_write\<^sup>*\<^sup>* L L' \<Longrightarrow> list_all row_ok (lg_reviews L) \<Longrightarrow> list_all row_ok (lg_reviews L')"
  by (induction rule: rtranclp_induct) (simp_all add: review_write_rows)

text \<open>C18: however requests, verdicts, promotions and time-outs interleave, statement by statement, the rows stay
  well formed (no author among the reviewers, a known verdict exactly on the answered reviews), and a review that was
  answered or expired keeps its row, verdict included, for ever.\<close>

theorem verdicts_are_final:
  assumes "review_write\<^sup>*\<^sup>* L L'" and "list_all row_ok (lg_reviews L)"
    and "find_review rid L = Some r" and "rv_state r \<in> {''done'', ''failed''}"
  shows "list_all row_ok (lg_reviews L') \<and> find_review rid L' = Some r"
  using review_writes_rows[OF assms(1,2)] reviews.settled_stays[OF assms(1,3,4)] ..

text \<open>A concrete table: one review in progress, assigned to grok.\<close>

definition demo_row :: review_row where
  "demo_row = \<lparr>rv_id = ''review-1'', rv_fleet = None, rv_author = ''antigravity'', rv_reviewer = Some ''grok'',
     rv_artifact = ''fleet/f/t'', rv_type = ''code'', rv_verdict = None, rv_comments = None, rv_requested_at = 0,
     rv_reviewed_at = None, rv_state = ''in_progress'', rv_dispatch_owned = False\<rparr>"

definition demo_ledger :: ledger where
  "demo_ledger = \<lparr>lg_fleets = [], lg_tasks = [], lg_events = [], lg_sessions = [], lg_reviews = [demo_row],
     lg_notes = [], lg_now = 5, lg_faults = (\<lambda>_. None), lg_tick = 0\<rparr>"

definition demo_done :: ledger where
  "demo_done = snd (settle_review ''review-1'' ''reject'' None demo_ledger)"

lemma demo_row_ok: "row_ok demo_row" "list_all row_ok (lg_reviews demo_done)"
  by code_simp+

theorem verdicts_are_final_witness:
  "map_option rv_verdict (find_review ''review-1'' (snd (settle_review ''review-1'' ''approve'' None demo_done))) = Some (Some ''reject'')"
proof -
  have w: "review_write\<^sup>*\<^sup>* demo_done (snd (settle_review ''review-1'' ''approve'' None demo_done))"
    by (rule r_into_rtranclp, rule review_write.settle[OF _ surjective_pairing]) (simp add: VERDICTS_def)
  obtain r where r: "find_review ''review-1'' demo_done = Some r" "rv_state r = ''done''" "rv_verdict r = Some ''reject''"
    by (rule that[of "hd (lg_reviews demo_done)"]) code_simp+
  from verdicts_are_final[OF w demo_row_ok(2) r(1)] r(2,3) show ?thesis by simp
qed

subsection \<open>Verdicts\<close>

lemma get_review_Inr: "get_review rid L = (Inr x, L') \<Longrightarrow> x = find_review rid L \<and> lg_reviews L' = lg_reviews L"
  unfolding get_review_def open_conn_def
  by (auto elim!: and_then_Inr dest!: sql_Inr simp: find_review_def)

lemma open_conn_Inr: "open_conn L = (Inr x, L') \<Longrightarrow> lg_reviews L' = lg_reviews L \<and> lg_tasks L' = lg_tasks L \<and> lg_now L' = lg_now L"
  unfolding open_conn_def by (auto dest!: sql_Inr)

lemma submit_review_Inr:
  assumes "submit_review limit rid v c submitter L = (Inr x, L')"
  obtains r vn L1 n L2 where "normalise_verdict v = Inr vn" "find_review rid L = Some r"
    "submit_refused rid vn submitter r = None" "lg_reviews L1 = lg_reviews L"
    "settle_review rid vn c L1 = (n, L2)" "n \<noteq> 0" "promote_next limit L2 = (Inr x, L')"
proof -
  from assms obtain vn where vn: "normalise_verdict v = Inr vn"
    by (cases "normalise_verdict v") (simp_all add: submit_review_def db_fail_def)
  from assms[unfolded submit_review_def vn sum.case]
  obtain u La row Lb where o: "open_conn L = (Inr u, La)" and g: "get_review rid La = (Inr row, Lb)"
    and k: "(case row of
              None \<Rightarrow> db_fail (''review not found: '' @ rid)
            | Some r \<Rightarrow>
                (case submit_refused rid vn submitter r of
                   Some e \<Rightarrow> db_fail e
                 | None \<Rightarrow>
                     and_then (sql (settle_review rid vn c)) (\<lambda>updated.
                       if updated = 0 then
                         db_fail (''review '' @ rid @ '' changed state while the verdict was being recorded'')
                       else promote_next limit))) Lb = (Inr x, L')"
    by (elim and_then_Inr) blast
  from k obtain r where r: "row = Some r" by (cases row) (simp_all add: db_fail_def)
  from k r have ref: "submit_refused rid vn submitter r = None"
    by (cases "submit_refused rid vn submitter r") (simp_all add: db_fail_def)
  from k[unfolded r option.case ref] obtain n L2 where
      s: "sql (settle_review rid vn c) Lb = (Inr n, L2)"
    and p: "(if n = 0 then db_fail (''review '' @ rid @ '' changed state while the verdict was being recorded'')
             else promote_next limit) L2 = (Inr x, L')"
    by (rule and_then_Inr)
  from p have n: "n \<noteq> 0" "promote_next limit L2 = (Inr x, L')"
    by (simp_all add: db_fail_def split: if_split_asm)
  have same: "lg_reviews Lb = lg_reviews L" "find_review rid L = Some r"
    using open_conn_Inr[OF o] get_review_Inr[OF g] r by (simp_all add: find_review_def)
  show thesis
    by (rule that[OF vn same(2) ref _ sql_Inr[OF s] n]) (simp add: same)
qed

text \<open>C20: a verdict that was accepted went to a review that was in progress, is one of the four known ones and stands
  in the row afterwards. From outside it never goes to a review that the daemon conducts itself, and an approval is
  accepted only under the name of the assigned reviewer.\<close>

theorem accepted_verdict_was_authorised:
  "case submit_review limit rid v c submitter L of
     (Inl _, _) \<Rightarrow> True
   | (Inr _, L') \<Rightarrow> \<exists>r r' vn. find_review rid L = Some r \<and> rv_state r = ''in_progress''
        \<and> normalise_verdict v = Inr vn \<and> vn \<in> set VERDICTS
        \<and> find_review rid L' = Some r' \<and> rv_verdict r' = Some vn \<and> rv_state r' = ''done''
        \<and> (case submitter of
             Dispatch \<Rightarrow> True
           | Agent name \<Rightarrow> \<not> rv_dispatch_owned r \<and>
               (if vn = ''approve'' then \<exists>a. rv_reviewer r = Some a \<and> a \<noteq> [] \<and> eq_ignore_ascii_case name a else True))"
proof -
  obtain a L' where s: "submit_review limit rid v c submitter L = (a, L')" by (rule prod.exhaust)
  show ?thesis
  proof (cases a)
    case (Inr x)
    obtain r vn L1 n L2 where vn: "normalise_verdict v = Inr vn" and r: "find_review rid L = Some r"
      and ref: "submit_refused rid vn submitter r = None" and same: "lg_reviews L1 = lg_reviews L"
      and set: "settle_review rid vn c L1 = (n, L2)" and p: "promote_next limit L2 = (Inr x, L')"
      using s[unfolded Inr] by (rule submit_review_Inr)
    from ref have st: "rv_state r = ''in_progress''" and own: "rv_dispatch_owned r \<Longrightarrow> submitter = Dispatch"
      and auth: "vn = ''approve'' \<Longrightarrow> authorised submitter r"
      by (auto simp: submit_refused_def Let_def simp del: append.simps split: if_split_asm)
    define r' where "r' = r\<lparr>rv_verdict := Some vn, rv_comments := c, rv_reviewed_at := Some (lg_now L1), rv_state := ''done''\<rparr>"
    have "rv_id r = rid" using r by (auto simp: find_review_def find_Some_iff)
    then have r2: "find_review rid L2 = Some r'"
      using set r same st
      by (auto simp: settle_review_def update_reviews_def find_review_def find_map_same r'_def)
    have "review_write\<^sup>*\<^sup>* L2 L'"
      using review_runs_promote_next p unfolding review_runs_def by (metis snd_conv)
    then have "find_review rid L' = Some r'"
      by (rule reviews.settled_stays[OF _ r2]) (simp add: r'_def)
    moreover have "rv_verdict r' = Some vn" "rv_state r' = ''done''" by (simp_all add: r'_def)
    moreover have "case submitter of Dispatch \<Rightarrow> True
           | Agent name \<Rightarrow> \<not> rv_dispatch_owned r \<and>
               (if vn = ''approve'' then \<exists>a. rv_reviewer r = Some a \<and> a \<noteq> [] \<and> eq_ignore_ascii_case name a else True)"
      using own auth by (cases submitter) (auto simp: authorised_def Let_def split: option.split_asm)
    ultimately show ?thesis using s Inr r st vn normalise_verdict_known[OF vn] by simp
  qed (simp add: s)
qed

text \<open>Only an approval is checked for its sender: anyone may record concerns, and a fleet merges on those.\<close>

lemma anyone_may_record_concerns:
  "rv_state r = ''in_progress'' \<Longrightarrow> \<not> rv_dispatch_owned r \<Longrightarrow> submit_refused rid ''concerns'' (Agent name) r = None"
  by (simp add: submit_refused_def)

subsection \<open>Reviews in progress\<close>

definition bounded :: "nat \<Rightarrow> ledger \<Rightarrow> bool" where
  "bounded limit L \<longleftrightarrow> distinct (map rv_id (lg_reviews L)) \<and> in_flight L \<le> limit"

definition room :: "nat \<Rightarrow> ledger \<Rightarrow> bool" where
  "room limit L \<longleftrightarrow> distinct (map rv_id (lg_reviews L)) \<and> in_flight L < limit"

lemma bounded_tick [simp]: "bounded limit (L\<lparr>lg_tick := n\<rparr>) = bounded limit L"
  and room_tick [simp]: "room limit (L\<lparr>lg_tick := n\<rparr>) = room limit L"
  by (simp_all add: bounded_def room_def in_flight_def)

lemma room_bounded: "room limit L \<Longrightarrow> bounded limit L"
  by (simp add: room_def bounded_def)

lemma in_flight_update:
  assumes "\<And>r. p r \<Longrightarrow> rv_state (f r) \<noteq> ''in_progress''"
  shows "in_flight (snd (update_reviews p f L)) \<le> in_flight L"
proof -
  have "length (filter (\<lambda>r. rv_state r = ''in_progress'') (map (\<lambda>r. if p r then f r else r) rs))
        \<le> length (filter (\<lambda>r. rv_state r = ''in_progress'') rs)" for rs
    by (induction rs) (use assms in auto)
  then show ?thesis by (simp add: in_flight_def update_reviews_def)
qed

lemma ids_update: "(\<And>r. rv_id (f r) = rv_id r) \<Longrightarrow> map rv_id (lg_reviews (snd (update_reviews p f L))) = map rv_id (lg_reviews L)"
  by (simp add: update_reviews_def)

lemma bounded_update:
  assumes "\<And>r. rv_id (f r) = rv_id r" "\<And>r. p r \<Longrightarrow> rv_state (f r) \<noteq> ''in_progress''" "bounded limit L"
  shows "bounded limit (snd (update_reviews p f L))"
  using assms ids_update[of f p L, OF assms(1)] in_flight_update[of p f L, OF assms(2)]
  by (simp add: bounded_def)

lemma bounded_settle: "bounded limit L \<Longrightarrow> bounded limit (snd (settle_review rid v c L))"
  unfolding settle_review_def by (rule bounded_update) simp_all

lemma bounded_expire: "bounded limit L \<Longrightarrow> bounded limit (snd (expire_reviews timeout L))"
  unfolding expire_reviews_def by (rule bounded_update) simp_all

lemma bounded_promote:
  assumes "room limit L"
  shows "bounded limit (snd (promote_review rid L))"
proof -
  have step: "length (filter (\<lambda>r. rv_state r = ''in_progress'') (map (\<lambda>r. if rv_id r = rid \<and> rv_state r = ''pending''
          then r\<lparr>rv_state := ''in_progress''\<rparr> else r) rs))
        \<le> length (filter (\<lambda>r. rv_state r = ''in_progress'') rs) + (if rid \<in> set (map rv_id rs) then 1 else 0)"
    if "distinct (map rv_id rs)" for rs
    using that by (induction rs) auto
  have d: "distinct (map rv_id (lg_reviews L))" using assms by (simp add: room_def)
  have "map rv_id (lg_reviews (snd (promote_review rid L))) = map rv_id (lg_reviews L)"
    unfolding promote_review_def by (rule ids_update) simp
  moreover have "in_flight (snd (promote_review rid L)) \<le> in_flight L + 1"
    unfolding in_flight_def promote_review_def update_reviews_def
    using order_trans[OF step[OF d], of "length (filter (\<lambda>r. rv_state r = ''in_progress'') (lg_reviews L)) + 1"] by simp
  ultimately show ?thesis using assms by (simp add: room_def bounded_def)
qed

lemma valid_promote_next: "valid (bounded limit) (bounded limit) (promote_next limit) (\<lambda>_. bounded limit)"
proof -
  have "valid (bounded limit) (bounded limit) (sql (\<lambda>L. (in_flight L, L)))
          (\<lambda>n L. bounded limit L \<and> n = in_flight L)"
    by (rule valid_sql) simp_all
  moreover have "valid (bounded limit) (\<lambda>L. bounded limit L \<and> n = in_flight L)
       (if limit \<le> n then db_return None
        else and_then (sql (\<lambda>L. (next_pending L, L))) (\<lambda>next.
         case next of
           Some rid \<Rightarrow> and_then (sql (promote_review rid)) (\<lambda>_. db_return (Some rid))
         | None \<Rightarrow> db_return None)) (\<lambda>_. bounded limit)" for n
  proof (cases "limit \<le> n")
    case False
    have "valid (bounded limit) (\<lambda>L. bounded limit L \<and> n = in_flight L) (sql (\<lambda>L. (next_pending L, L))) (\<lambda>_. room limit)"
      by (rule valid_sql) (use False in \<open>auto simp: bounded_def room_def in_flight_def\<close>)
    moreover have "valid (bounded limit) (room limit) (sql (promote_review rid)) (\<lambda>_. bounded limit)" for rid
      by (rule valid_sql) (simp_all add: room_bounded bounded_promote)
    then have "valid (bounded limit) (room limit) (case next of
           Some rid \<Rightarrow> and_then (sql (promote_review rid)) (\<lambda>_. db_return (Some rid))
         | None \<Rightarrow> db_return None) (\<lambda>_. bounded limit)" for "next"
      by (cases "next") (auto intro: valid_return room_bounded valid_and_then[where R = "\<lambda>_. bounded limit"])
    ultimately show ?thesis using False by (simp add: valid_and_then[where R = "\<lambda>_. room limit"])
  qed (auto intro: valid_return)
  ultimately show ?thesis unfolding promote_next_def by (rule valid_and_then)
qed

lemma valid_read: "valid (bounded limit) (bounded limit) open_conn (\<lambda>_. bounded limit)"
  "valid (bounded limit) (bounded limit) (get_review rid) (\<lambda>_. bounded limit)"
  unfolding get_review_def by (auto intro!: valid_open_conn valid_sql valid_and_then[where R = "\<lambda>_. bounded limit"])

lemma valid_submit:
  "valid (bounded limit) (bounded limit) (submit_review limit rid v c submitter) (\<lambda>_. bounded limit)"
proof (cases "normalise_verdict v")
  case (Inl e)
  then show ?thesis by (simp add: submit_review_def valid_fail)
next
  case (Inr vn)
  have s: "valid (bounded limit) (bounded limit) (sql (settle_review rid vn c)) (\<lambda>_. bounded limit)"
    by (rule valid_sql) (simp_all add: bounded_settle)
  have u: "valid (bounded limit) (bounded limit)
      (if n = 0 then db_fail e else promote_next limit) (\<lambda>_. bounded limit)" for n :: nat and e
    by (simp add: valid_fail valid_promote_next)
  have k: "valid (bounded limit) (bounded limit) (case submit_refused rid vn submitter r of
                   Some e \<Rightarrow> db_fail e
                 | None \<Rightarrow> and_then (sql (settle_review rid vn c)) (\<lambda>updated.
                       if updated = 0 then
                         db_fail (''review '' @ rid @ '' changed state while the verdict was being recorded'')
                       else promote_next limit)) (\<lambda>_. bounded limit)" for r
    by (cases "submit_refused rid vn submitter r") (simp_all only: option.case valid_fail valid_and_then[OF s u])
  show ?thesis
    unfolding submit_review_def Inr sum.case
    by (rule valid_and_then[OF valid_read(1)], rule valid_and_then[OF valid_read(2)])
       (simp only: k valid_fail split: option.split, blast)
qed

lemma bounded_insert:
  assumes "bounded limit L" "if rv_state r = ''in_progress'' then in_flight L < limit else True"
  shows "case insert_review r L of (Inl _, L') \<Rightarrow> bounded limit L' | (Inr x, L') \<Rightarrow> bounded limit L'"
  using assms by (auto simp: insert_review_def bounded_def in_flight_def list_ex_iff image_iff)

lemma valid_file: "valid (bounded limit) (bounded limit) (file_review limit uuid req reviewer) (\<lambda>_. bounded limit)"
proof -
  define st where "st n = (if n < limit then ''in_progress'' else ''pending'')" for n
  have c: "valid (bounded limit) (bounded limit) (sql (\<lambda>L. (in_flight L, L))) (\<lambda>n L. bounded limit L \<and> n = in_flight L)"
    by (rule valid_sql) simp_all
  have i: "valid (bounded limit) (\<lambda>L. bounded limit L \<and> n = in_flight L)
        (sql_try (insert_review (review_row_of uuid req reviewer (st n)))) (\<lambda>_. bounded limit)" for n
  proof (rule valid_sql_try)
    fix L
    assume L: "bounded limit L \<and> n = in_flight L"
    then show "case insert_review (review_row_of uuid req reviewer (st n)) L of
        (Inl _, L') \<Rightarrow> bounded limit L' | (Inr x, L') \<Rightarrow> bounded limit L'"
      by (intro bounded_insert) (simp_all add: review_row_of_def st_def)
  qed (simp_all add: in_flight_def)
  have g: "valid (bounded limit) (bounded limit) (case row of Some r \<Rightarrow> db_return r
             | None \<Rightarrow> db_fail ''review insert did not persist'') (\<lambda>_. bounded limit)" for row
    by (cases row) (simp_all add: valid_return valid_fail)
  show ?thesis
    unfolding file_review_def st_def[symmetric]
    by (rule valid_and_then[OF valid_read(1)], rule valid_and_then[OF c], rule valid_and_then[OF i],
        rule valid_and_then[OF valid_read(2)], rule g)
qed

lemma valid_expire: "valid (bounded limit) (bounded limit) (fail_timed_out_reviews timeout) (\<lambda>_. bounded limit)"
  unfolding fail_timed_out_reviews_def
  by (rule valid_and_then[OF valid_read(1)], rule valid_sql) (simp_all add: bounded_expire)

text \<open>Operations one after the other, each of them complete or cut short by an error; between them, time passes and
  other tables change.\<close>

inductive reviews_reachable :: "nat \<Rightarrow> ledger \<Rightarrow> bool" for limit where
  empty: "lg_reviews L = [] \<Longrightarrow> reviews_reachable limit L"
| request: "reviews_reachable limit L \<Longrightarrow> request_review gate limit uuid req en L = (r, en', L')
    \<Longrightarrow> reviews_reachable limit L'"
| submit: "reviews_reachable limit L \<Longrightarrow> submit_review limit rid v c submitter L = (x, L')
    \<Longrightarrow> reviews_reachable limit L'"
| expire: "reviews_reachable limit L \<Longrightarrow> fail_timed_out_reviews timeout L = (y, L') \<Longrightarrow> reviews_reachable limit L'"
| other: "reviews_reachable limit L \<Longrightarrow> lg_reviews L' = lg_reviews L \<Longrightarrow> reviews_reachable limit L'"

lemma reachable_bounded: "reviews_reachable limit L \<Longrightarrow> bounded limit L"
proof (induction rule: reviews_reachable.induct)
  case (empty L)
  then show ?case by (simp add: bounded_def in_flight_def)
next
  case (request L gate uuid req en r en' L')
  from request.hyps(2) show ?case
  proof (cases rule: request_review_cases)
    case (filed reviewer)
    with validD[OF valid_file request.IH filed(2)] show ?thesis by (simp split: sum.split_asm)
  qed (use request.IH in simp)
next
  case (submit L rid v c submitter x L')
  from validD[OF valid_submit submit.IH submit.hyps(2)] show ?case by (simp split: sum.split_asm)
next
  case (expire L timeout y L')
  from validD[OF valid_expire expire.IH expire.hyps(2)] show ?case by (simp split: sum.split_asm)
next
  case (other L L')
  then show ?case by (simp add: bounded_def in_flight_def)
qed

text \<open>C23: whatever requests, verdicts and time-outs a ledger went through, one operation at a time and any of their
  statements failing, at most the configured number of reviews is in progress and every review has its own
  identifier.\<close>

theorem reviews_in_progress_bounded:
  assumes "reviews_reachable limit L"
  shows "in_flight L \<le> limit \<and> distinct (map rv_id (lg_reviews L))"
  using reachable_bounded[OF assms] by (simp add: bounded_def)

definition demo_request :: review_request where
  "demo_request = \<lparr>rq_fleet = None, rq_author = ''agy'', rq_artifact = ''a'', rq_type = ''code'', rq_dispatch_owned = False\<rparr>"

lemma demo_next: "next_reviewer_through (new_engine None) ''agy'' (Some (\<lambda>_. True))
    = (Inr ''codex'', (new_engine None)\<lparr>en_round_robin := saturating_add 0 1\<rparr>)"
proof -
  have "filter (\<lambda>name. normalize_agent_name name \<noteq> normalize_agent_name ''agy'') DEFAULT_PANEL = [''codex'', ''grok'', ''claude'']"
    by code_simp
  then show ?thesis
    by (simp add: next_reviewer_through_def new_engine_def non_authors_def default_reviewers_def)
qed

theorem reviews_in_progress_bounded_witness:
  "\<exists>row en' L'. request_review (Some (\<lambda>_. True)) 1 ''1'' demo_request (new_engine None) (demo_ledger\<lparr>lg_reviews := []\<rparr>)
       = (Inr row, en', L') \<and> rv_state row = ''in_progress'' \<and> in_flight L' \<le> 1"
proof -
  obtain r en' L' where r: "request_review (Some (\<lambda>_. True)) 1 ''1'' demo_request (new_engine None) (demo_ledger\<lparr>lg_reviews := []\<rparr>)
       = (r, en', L')" by (rule prod_cases3)
  have "map_sum (\<lambda>_. ()) rv_state (fst (file_review 1 ''1'' demo_request ''codex'' (demo_ledger\<lparr>lg_reviews := []\<rparr>))) = Inr ''in_progress''"
    by code_simp
  moreover have "normalize_agent_name ''codex'' \<noteq> normalize_agent_name ''agy''" by code_simp
  moreover have "rq_author demo_request = ''agy''" by (simp add: demo_request_def)
  ultimately have "\<exists>row. r = Inr row \<and> rv_state row = ''in_progress''"
    using r by (cases r) (auto simp: request_review_def demo_next split: prod.split_asm if_split_asm)
  moreover have "reviews_reachable 1 L'"
    by (rule reviews_reachable.request[OF reviews_reachable.empty r]) (simp add: demo_ledger_def)
  from reviews_in_progress_bounded[OF this] have "in_flight L' \<le> 1" by simp
  ultimately show ?thesis using r by blast
qed

text \<open>Two requests that both counted before either inserted exceed the bound: count and insertion are two
  statements outside a transaction.\<close>

lemma interleaved_requests_exceed:
  assumes "in_flight L = 0" "rv_id r1 \<noteq> rv_id r2" "rv_id r1 \<notin> rv_id ` set (lg_reviews L)"
    "rv_id r2 \<notin> rv_id ` set (lg_reviews L)" "rv_state r1 = ''in_progress''" "rv_state r2 = ''in_progress''"
  shows "in_flight (snd (insert_review r2 (snd (insert_review r1 L)))) = 2"
  using assms by (auto simp: in_flight_def insert_review_def list_ex_iff image_iff)

text \<open>A time-out frees its place without starting a waiting review; with nothing in progress no verdict is accepted,
  so nothing that waits is ever started by one.\<close>

lemma nothing_in_progress_nothing_starts:
  assumes "in_flight L = 0"
  shows "\<nexists>x L'. submit_review limit rid v c submitter L = (Inr x, L')"
proof
  assume "\<exists>x L'. submit_review limit rid v c submitter L = (Inr x, L')"
  then obtain x L' where s: "submit_review limit rid v c submitter L = (Inr x, L')" by blast
  obtain r vn L1 n L2 where r: "find_review rid L = Some r" and ref: "submit_refused rid vn submitter r = None"
    using s by (rule submit_review_Inr)
  from ref have "rv_state r = ''in_progress''"
    by (simp add: submit_refused_def Let_def split: if_split_asm)
  moreover have "r \<in> set (lg_reviews L)" using r by (auto simp: find_review_def find_Some_iff)
  ultimately show False using assms by (auto simp: in_flight_def filter_empty_conv)
qed

lemma filter_update_other:
  "(\<And>r. p r \<Longrightarrow> \<not> q r \<and> \<not> q (f r)) \<Longrightarrow> filter q (map (\<lambda>r. if p r then f r else r) rs) = filter q rs"
  by (induction rs) auto

lemma expiry_starts_nothing:
  "filter (\<lambda>r. rv_state r = ''pending'') (lg_reviews (snd (expire_reviews timeout L)))
     = filter (\<lambda>r. rv_state r = ''pending'') (lg_reviews L)"
  unfolding expire_reviews_def update_reviews_def by (simp, rule filter_update_other) simp

end
