(* ===== verification/Fleet_Recorders.thy ===== *)
theory Fleet_Recorders
  imports Peer_Review
begin

text \<open>
  The recorders of the fleet orchestrator (\<open>fleet/src/orchestrator.rs\<close>): how a worker's end becomes the state of
  its task, an event and a review request; the states of a fleet; and the judgement of a member's run.

  Shown here: of any number of concurrent recorders of one task at most one reports, in agreement with the row; and a
  run counts as done exactly when it exited cleanly and left a new commit.
\<close>

subsection \<open>The recorders\<close>

definition is_terminal_task_state :: "string \<Rightarrow> bool" where
  "is_terminal_task_state s \<longleftrightarrow> s = ''done'' \<or> s = ''failed''"

definition task_row_state :: "string \<Rightarrow> ledger \<Rightarrow> string option \<times> ledger" where
  "task_row_state task L =
     (case and_then open_conn (\<lambda>_. sql (\<lambda>L. (map_option tk_state (find_task task L), L))) L of
        (Inr s, L') \<Rightarrow> (s, L')
      | (Inl _, L') \<Rightarrow> (None, L'))"

text \<open>The guarded update both recorders decide by.\<close>

definition settle_row :: "string \<Rightarrow> string \<Rightarrow> nat db" where
  "settle_row task state =
     and_then open_conn (\<lambda>_. sql (update_tasks
       (\<lambda>t. tk_id t = task \<and> \<not> is_terminal_task_state (tk_state t)) (\<lambda>t. t\<lparr>tk_state := state\<rparr>)))"

datatype FailedWrite = Landed | AlreadyTerminal | NotWritten

definition write_task_failed :: "string \<Rightarrow> string \<Rightarrow> json \<Rightarrow> ledger \<Rightarrow> FailedWrite \<times> ledger" where
  "write_task_failed fleet task payload L =
     (case task_row_state task L of
        (st, L1) \<Rightarrow>
          if (case st of Some s \<Rightarrow> is_terminal_task_state s | None \<Rightarrow> False) then (AlreadyTerminal, L1)
          else (case settle_row task ''failed'' L1 of
              (Inl _, L2) \<Rightarrow> (NotWritten, L2)
            | (Inr n, L2) \<Rightarrow>
                if n = 0 then
                  (case task_row_state task L2 of
                     (st', L3) \<Rightarrow> if (case st' of Some s \<Rightarrow> is_terminal_task_state s | None \<Rightarrow> False)
                                  then (AlreadyTerminal, L3) else (NotWritten, L3))
                else (Landed, ingest_fleet_event fleet ''task_failed'' payload L2)))"

definition record_task_failed :: "string \<Rightarrow> string \<Rightarrow> json \<Rightarrow> ledger \<Rightarrow> bool \<times> ledger" where
  "record_task_failed fleet task payload L =
     (case write_task_failed fleet task payload L of (w, L') \<Rightarrow> (w \<noteq> NotWritten, L'))"

text \<open>What a completion needs of the process: the reviewer gate, the limit on reviews, the panel and a fresh
  identifier.\<close>

record review_env =
  re_gate :: "(string \<Rightarrow> bool) option"
  re_limit :: nat
  re_panel :: "string option"
  re_uuid :: string

definition completion_request :: "string \<Rightarrow> string \<Rightarrow> string \<Rightarrow> review_request" where
  "completion_request fleet task author =
     \<lparr>rq_fleet = Some fleet, rq_author = author, rq_artifact = ''fleet/'' @ fleet @ ''/'' @ task,
      rq_type = ''code'', rq_dispatch_owned = False\<rparr>"

definition request_completion_review :: "review_env \<Rightarrow> string \<Rightarrow> string \<Rightarrow> string \<Rightarrow> ledger \<Rightarrow> ledger" where
  "request_completion_review R fleet task author L =
     snd (snd (request_review (re_gate R) (re_limit R) (re_uuid R) (completion_request fleet task author)
                 (new_engine (re_panel R)) L))"

definition record_task_completed ::
  "review_env \<Rightarrow> string \<Rightarrow> string \<Rightarrow> string \<Rightarrow> json \<Rightarrow> ledger \<Rightarrow> bool \<times> ledger"
where
  "record_task_completed R fleet task author payload L =
     (case task_row_state task L of
        (st, L1) \<Rightarrow>
          if (case st of Some s \<Rightarrow> is_terminal_task_state s | None \<Rightarrow> False) then (st = Some ''done'', L1)
          else (case settle_row task ''done'' L1 of
              (Inl _, L2) \<Rightarrow> (False, L2)
            | (Inr n, L2) \<Rightarrow>
                if n = 0 then (case task_row_state task L2 of (st', L3) \<Rightarrow> (st' = Some ''done'', L3))
                else (True, request_completion_review R fleet task author
                              (ingest_fleet_event fleet ''task_completed'' payload L2))))"

subsubsection \<open>The recorders statement by statement\<close>

text \<open>A recorder between its statements on the table of tasks. \<open>Finished landed answer\<close>: whether its update was the
  one that settled the row, and what it returned.\<close>

record recorder =
  rc_fleet :: string
  rc_task :: string
  rc_done :: bool
  rc_author :: string
  rc_payload :: json
  rc_env :: review_env

datatype rec_pc = Check | Settle | Recheck | OpenStore | Number nat | Insert nat int | Request | Finished bool bool

definition settled :: "string option \<Rightarrow> bool" where
  "settled st = (case st of Some s \<Rightarrow> is_terminal_task_state s | None \<Rightarrow> False)"

definition outcome :: "recorder \<Rightarrow> string" where
  "outcome r = (if rc_done r then ''done'' else ''failed'')"

definition event_of :: "recorder \<Rightarrow> string" where
  "event_of r = (if rc_done r then ''task_completed'' else ''task_failed'')"

definition agrees :: "recorder \<Rightarrow> string option \<Rightarrow> bool" where
  "agrees r st \<longleftrightarrow> (if rc_done r then st = Some ''done'' else settled st)"

fun rec_step :: "recorder \<Rightarrow> rec_pc \<Rightarrow> ledger \<Rightarrow> rec_pc \<times> ledger" where
  "rec_step r Check L =
     (case task_row_state (rc_task r) L of
        (st, L') \<Rightarrow> (if settled st then Finished False (agrees r st) else Settle, L'))"
| "rec_step r Settle L =
     (case settle_row (rc_task r) (outcome r) L of
        (Inl _, L') \<Rightarrow> (Finished False False, L')
      | (Inr n, L') \<Rightarrow> (if n = 0 then Recheck else OpenStore, L'))"
| "rec_step r Recheck L =
     (case task_row_state (rc_task r) L of (st, L') \<Rightarrow> (Finished False (agrees r st), L'))"
| "rec_step r OpenStore L =
     (case open_conn L of (Inl _, L') \<Rightarrow> (Request, L') | (Inr _, L') \<Rightarrow> (Number 8, L'))"
| "rec_step r (Number 0) L = (Request, L)"
| "rec_step r (Number (Suc n)) L =
     (case event_sequence_for (rc_fleet r) (event_of r) L of
        (x, L') \<Rightarrow> (Insert n (case x of Inl _ \<Rightarrow> 1 | Inr q \<Rightarrow> q), L'))"
| "rec_step r (Insert n q) L =
     (case ingest_event (fleet_event (rc_fleet r) (event_of r) (rc_payload r) q) L of
        (Inr _, L') \<Rightarrow> (Request, L')
      | (Inl _, L') \<Rightarrow> (Number n, L'))"
| "rec_step r Request L =
     (Finished True True,
      if rc_done r then request_completion_review (rc_env r) (rc_fleet r) (rc_task r) (rc_author r) L else L)"
| "rec_step r (Finished l a) L = (Finished l a, L)"

definition rec_alone :: "recorder \<Rightarrow> rec_pc \<times> ledger \<Rightarrow> rec_pc \<times> ledger" where
  "rec_alone r = (\<lambda>(pc, L). rec_step r pc L)"

text \<open>Run alone, the statements are the recorders of the code.\<close>

definition leads :: "recorder \<Rightarrow> rec_pc \<times> ledger \<Rightarrow> rec_pc \<times> ledger \<Rightarrow> bool" where
  "leads r x y \<longleftrightarrow> (\<exists>k. (rec_alone r ^^ k) x = y)"

lemma leads_step: "rec_alone r x = y \<Longrightarrow> leads r y z \<Longrightarrow> leads r x z"
  unfolding leads_def by (metis comp_apply funpow_Suc_right)

lemma leads_one: "rec_alone r x = y \<Longrightarrow> leads r x y"
  unfolding leads_def by (rule exI[of _ 1]) simp

lemma leads_trans: "leads r x y \<Longrightarrow> leads r y z \<Longrightarrow> leads r x z"
  unfolding leads_def by (metis comp_apply funpow_add)

lemma alone_ingest_tries:
  "leads r (Number n, L) (Request, ingest_tries n (rc_fleet r) (event_of r) (rc_payload r) L)"
proof (induction n arbitrary: L)
  case 0
  show ?case by (rule leads_one) (simp add: rec_alone_def)
next
  case (Suc n)
  obtain x L1 where q: "event_sequence_for (rc_fleet r) (event_of r) L = (x, L1)" by (rule prod.exhaust)
  let ?q = "case x of Inl _ \<Rightarrow> 1 | Inr q \<Rightarrow> q"
  obtain y L2 where i: "ingest_event (fleet_event (rc_fleet r) (event_of r) (rc_payload r) ?q) L1 = (y, L2)" by (rule prod.exhaust)
  have s1: "rec_alone r (Number (Suc n), L) = (Insert n ?q, L1)" using q by (simp add: rec_alone_def)
  show ?case
  proof (cases y)
    case (Inl e)
    with i have "rec_alone r (Insert n ?q, L1) = (Number n, L2)" by (simp add: rec_alone_def)
    from leads_step[OF s1 leads_step[OF this Suc.IH]] show ?thesis using q i Inl by simp
  next
    case (Inr u)
    with i have "rec_alone r (Insert n ?q, L1) = (Request, L2)" by (simp add: rec_alone_def)
    from leads_step[OF s1 leads_one[OF this]] show ?thesis using q i Inr by simp
  qed
qed

lemma alone_landed:
  "leads r (OpenStore, L)
     (Finished True True,
      (let L' = ingest_fleet_event (rc_fleet r) (event_of r) (rc_payload r) L in
       if rc_done r then request_completion_review (rc_env r) (rc_fleet r) (rc_task r) (rc_author r) L' else L'))"
proof -
  have "leads r (OpenStore, L) (Request, ingest_fleet_event (rc_fleet r) (event_of r) (rc_payload r) L)"
  proof -
    obtain x L1 where o: "open_conn L = (x, L1)" by (rule prod.exhaust)
    show ?thesis
    proof (cases x)
      case (Inl e)
      with o have "rec_alone r (OpenStore, L) = (Request, L1)" by (simp add: rec_alone_def)
      from leads_one[OF this] show ?thesis using o Inl by (simp add: ingest_fleet_event_def)
    next
      case (Inr u)
      with o have "rec_alone r (OpenStore, L) = (Number 8, L1)" by (simp add: rec_alone_def)
      from leads_step[OF this alone_ingest_tries] show ?thesis using o Inr by (simp add: ingest_fleet_event_def)
    qed
  qed
  from leads_trans[OF this leads_one[OF refl]] show ?thesis
    by (simp add: rec_alone_def Let_def)
qed

lemma alone_failed:
  assumes "\<not> rc_done r" "write_task_failed (rc_fleet r) (rc_task r) (rc_payload r) L = (w, L')"
  shows "leads r (Check, L) (Finished (w = Landed) (w \<noteq> NotWritten), L')"
proof -
  have ev: "event_of r = ''task_failed''" "outcome r = ''failed''" using assms(1) by (simp_all add: event_of_def outcome_def)
  obtain st L1 where c: "task_row_state (rc_task r) L = (st, L1)" by (rule prod.exhaust)
  show ?thesis
  proof (cases "settled st")
    case True
    with c assms have "w = AlreadyTerminal" "L' = L1"
      by (simp_all add: write_task_failed_def settled_def)
    moreover have "rec_alone r (Check, L) = (Finished False True, L1)"
      using c True assms(1) by (simp add: rec_alone_def agrees_def)
    ultimately show ?thesis by (simp add: leads_one)
  next
    case False
    then have s1: "rec_alone r (Check, L) = (Settle, L1)" using c by (simp add: rec_alone_def)
    obtain x L2 where u: "settle_row (rc_task r) ''failed'' L1 = (x, L2)" by (rule prod.exhaust)
    show ?thesis
    proof (cases x)
      case (Inl e)
      with c u False assms(2) have "w = NotWritten" "L' = L2"
        by (simp_all add: write_task_failed_def settled_def)
      moreover have "rec_alone r (Settle, L1) = (Finished False False, L2)"
        using u Inl ev by (simp add: rec_alone_def)
      ultimately show ?thesis by (simp add: leads_step[OF s1 leads_one])
    next
      case (Inr n)
      show ?thesis
      proof (cases "n = 0")
        case True
        obtain st' L3 where c': "task_row_state (rc_task r) L2 = (st', L3)" by (rule prod.exhaust)
        have two: "rec_alone r (Settle, L1) = (Recheck, L2)" "rec_alone r (Recheck, L2) = (Finished False (settled st'), L3)"
          using u Inr True ev c' assms(1) by (simp_all add: rec_alone_def agrees_def)
        moreover have "w = (if settled st' then AlreadyTerminal else NotWritten)" "L' = L3"
          using c u c' Inr True False assms(2) by (auto simp: write_task_failed_def settled_def[symmetric] split: if_split_asm)
        ultimately show ?thesis using leads_step[OF s1 leads_step[OF two(1) leads_one[OF two(2)]]] by auto
      next
        case nz: False
        have s2: "rec_alone r (Settle, L1) = (OpenStore, L2)" using u Inr nz ev by (simp add: rec_alone_def)
        have "w = Landed" "L' = ingest_fleet_event (rc_fleet r) ''task_failed'' (rc_payload r) L2"
          using c u Inr nz False assms(2) by (simp_all add: write_task_failed_def settled_def[symmetric])
        with leads_step[OF s1 leads_step[OF s2 alone_landed]] assms(1) ev show ?thesis by simp
      qed
    qed
  qed
qed

lemma alone_completed:
  assumes "rc_done r"
    and "record_task_completed (rc_env r) (rc_fleet r) (rc_task r) (rc_author r) (rc_payload r) L = (b, L')"
  shows "\<exists>l. leads r (Check, L) (Finished l b, L')"
proof -
  have ev: "event_of r = ''task_completed''" "outcome r = ''done''" using assms(1) by (simp_all add: event_of_def outcome_def)
  obtain st L1 where c: "task_row_state (rc_task r) L = (st, L1)" by (rule prod.exhaust)
  show ?thesis
  proof (cases "settled st")
    case True
    with c assms have "b = (st = Some ''done'')" "L' = L1"
      by (auto simp: record_task_completed_def settled_def)
    moreover have "leads r (Check, L) (Finished False (st = Some ''done''), L1)"
      by (rule leads_one) (use c True assms(1) in \<open>simp add: rec_alone_def agrees_def\<close>)
    ultimately show ?thesis by blast
  next
    case False
    then have s1: "rec_alone r (Check, L) = (Settle, L1)" using c by (simp add: rec_alone_def)
    obtain x L2 where u: "settle_row (rc_task r) ''done'' L1 = (x, L2)" by (rule prod.exhaust)
    show ?thesis
    proof (cases x)
      case (Inl e)
      with c u False assms(2) have "\<not> b" "L' = L2"
        by (simp_all add: record_task_completed_def settled_def)
      moreover have "rec_alone r (Settle, L1) = (Finished False False, L2)"
        using u Inl ev by (simp add: rec_alone_def)
      ultimately show ?thesis by (auto intro: leads_step[OF s1 leads_one])
    next
      case (Inr n)
      show ?thesis
      proof (cases "n = 0")
        case True
        obtain st' L3 where c': "task_row_state (rc_task r) L2 = (st', L3)" by (rule prod.exhaust)
        have two: "rec_alone r (Settle, L1) = (Recheck, L2)" "rec_alone r (Recheck, L2) = (Finished False (st' = Some ''done''), L3)"
          using u Inr True ev c' assms(1) by (simp_all add: rec_alone_def agrees_def)
        moreover have "b = (st' = Some ''done'')" "L' = L3"
          using c u c' Inr True False assms(2) by (auto simp: record_task_completed_def settled_def[symmetric])
        ultimately show ?thesis using leads_step[OF s1 leads_step[OF two(1) leads_one[OF two(2)]]] by auto
      next
        case nz: False
        have s2: "rec_alone r (Settle, L1) = (OpenStore, L2)" using u Inr nz ev by (simp add: rec_alone_def)
        have "b" "L' = request_completion_review (rc_env r) (rc_fleet r) (rc_task r) (rc_author r)
                          (ingest_fleet_event (rc_fleet r) ''task_completed'' (rc_payload r) L2)"
          using c u Inr nz False assms(2) by (simp_all add: record_task_completed_def settled_def[symmetric])
        with leads_step[OF s1 leads_step[OF s2 alone_landed]] assms(1) ev show ?thesis by (auto simp: Let_def)
      qed
    qed
  qed
qed

subsubsection \<open>Concurrent recorders\<close>

definition task_state :: "string \<Rightarrow> ledger \<Rightarrow> string option" where
  "task_state task L = map_option tk_state (find_task task L)"

text \<open>Recorders \<open>rs\<close> of any tasks interleave statement by statement with each other, with claims, and with anything
  that leaves the tasks alone.\<close>

inductive sys_step :: "recorder list \<Rightarrow> rec_pc list \<times> ledger \<Rightarrow> rec_pc list \<times> ledger \<Rightarrow> bool" for rs where
  recorder: "i < length rs \<Longrightarrow> rec_step (rs ! i) (pcs ! i) L = (pc', L') \<Longrightarrow> sys_step rs (pcs, L) (pcs[i := pc'], L')"
| claim: "claim_task J task agent L = (x, L') \<Longrightarrow> sys_step rs (pcs, L) (pcs, L')"
| other: "lg_tasks L' = lg_tasks L \<Longrightarrow> sys_step rs (pcs, L) (pcs, L')"

fun landed :: "rec_pc \<Rightarrow> bool" where
  "landed OpenStore = True"
| "landed (Number n) = True"
| "landed (Insert n q) = True"
| "landed Request = True"
| "landed (Finished l a) = l"
| "landed pc = False"

definition recorders_inv :: "recorder list \<Rightarrow> rec_pc list \<times> ledger \<Rightarrow> bool" where
  "recorders_inv rs = (\<lambda>(pcs, L).
     length pcs = length rs \<and> distinct (map tk_id (lg_tasks L)) \<and>
     (\<forall>i < length rs. landed (pcs ! i) \<longrightarrow> task_state (rc_task (rs ! i)) L = Some (outcome (rs ! i))) \<and>
     (\<forall>i < length rs. \<forall>l. pcs ! i = Finished l True \<longrightarrow> agrees (rs ! i) (task_state (rc_task (rs ! i)) L)))"

lemma task_state_cong: "lg_tasks L = lg_tasks L' \<Longrightarrow> task_state t L = task_state t L'"
  by (simp add: task_state_def find_task_def)

lemma outcome_terminal: "settled (Some (outcome r))"
  by (simp add: settled_def outcome_def is_terminal_task_state_def)

lemma task_row_state_spec:
  assumes "task_row_state task L = (st, L')"
  shows "lg_tasks L' = lg_tasks L \<and> (st = None \<or> st = task_state task L)"
proof -
  define q where "q = and_then open_conn (\<lambda>_. sql (\<lambda>L. (map_option tk_state (find_task task L), L)))"
  have k: "keeps lg_tasks q" unfolding q_def by (intro frame) simp_all
  obtain x L1 where x: "q L = (x, L1)" by (rule prod.exhaust)
  have same: "lg_tasks L1 = lg_tasks L" using keepsD[OF k x] .
  show ?thesis
  proof (cases x)
    case (Inl e)
    with x same assms show ?thesis by (simp add: task_row_state_def q_def[symmetric])
  next
    case (Inr s)
    with x obtain u L0 where "open_conn L = (Inr u, L0)"
        "sql (\<lambda>L. (map_option tk_state (find_task task L), L)) L0 = (Inr s, L1)"
      unfolding q_def by (auto elim: and_then_Inr)
    with open_conn_Inr sql_Inr have "s = task_state task L"
      unfolding task_state_def by (fastforce simp: find_task_def)
    with x Inr same assms show ?thesis by (simp add: task_row_state_def q_def[symmetric])
  qed
qed

definition settle_all :: "string \<Rightarrow> string \<Rightarrow> task_row list \<Rightarrow> task_row list" where
  "settle_all task state =
     map (\<lambda>t. if tk_id t = task \<and> \<not> is_terminal_task_state (tk_state t) then t\<lparr>tk_state := state\<rparr> else t)"

lemma settle_row_spec:
  assumes "settle_row task state L = (x, L')"
  shows "case x of Inl _ \<Rightarrow> lg_tasks L' = lg_tasks L
       | Inr n \<Rightarrow> lg_tasks L' = settle_all task state (lg_tasks L)
            \<and> n = length (filter (\<lambda>t. tk_id t = task \<and> \<not> is_terminal_task_state (tk_state t)) (lg_tasks L))"
proof -
  define u where "u = update_tasks (\<lambda>t. tk_id t = task \<and> \<not> is_terminal_task_state (tk_state t)) (\<lambda>t. t\<lparr>tk_state := state\<rparr>)"
  have sq: "sql u L1 = (y, L2) \<Longrightarrow> case y of Inl _ \<Rightarrow> lg_tasks L2 = lg_tasks L1
       | Inr n \<Rightarrow> lg_tasks L2 = settle_all task state (lg_tasks L1)
            \<and> n = length (filter (\<lambda>t. tk_id t = task \<and> \<not> is_terminal_task_state (tk_state t)) (lg_tasks L1))" for L1 y L2
    by (auto simp: sql_def sql_try_def Let_def u_def update_tasks_def settle_all_def split: option.split_asm)
  have o: "open_conn L = (z, L1) \<Longrightarrow> lg_tasks L1 = lg_tasks L" for z L1
    by (rule keepsD[of lg_tasks open_conn]) (auto intro: frame)
  obtain z L1 where z: "open_conn L = (z, L1)" by (rule prod.exhaust)
  show ?thesis
  proof (cases z)
    case (Inl e)
    with assms z o[OF z] show ?thesis by (auto simp: settle_row_def and_then_def)
  next
    case (Inr v)
    with assms z have "sql u L1 = (x, L')" by (simp add: settle_row_def and_then_def u_def)
    from sq[OF this] show ?thesis by (simp only: o[OF z])
  qed
qed

lemma find_settle_all:
  "find (\<lambda>t. tk_id t = t0) (settle_all task state ts)
     = map_option (\<lambda>t. if tk_id t = task \<and> \<not> is_terminal_task_state (tk_state t) then t\<lparr>tk_state := state\<rparr> else t)
         (find (\<lambda>t. tk_id t = t0) ts)"
  unfolding settle_all_def by (rule find_map_same) simp

text \<open>A settled row is never moved again, and only the settling statement settles.\<close>

lemma settle_all_stable:
  "task_state t L = Some s \<Longrightarrow> settled (Some s) \<Longrightarrow> lg_tasks L' = settle_all task state (lg_tasks L) \<Longrightarrow> task_state t L' = Some s"
  unfolding task_state_def find_task_def by (auto simp: find_settle_all settled_def)

lemma claim_stable:
  assumes "claim_task J task agent L = (x, L')" "task_state t L = Some s" "settled (Some s)"
  shows "task_state t L' = Some s"
proof -
  have np: "s \<noteq> ''pending''" using assms(3) by (auto simp: settled_def is_terminal_task_state_def)
  have f: "find (\<lambda>r. tk_id r = t) (map (claim_row task agent) ts) = map_option (claim_row task agent) (find (\<lambda>r. tk_id r = t) ts)" for ts
    by (rule find_map_same) simp
  from assms(2) np have "tk_state (claim_row task agent r) = s" if "find_task t L = Some r" for r
    using that by (auto simp: task_state_def claim_row_def)
  with claim_task_exact_lemma[OF assms(1)] assms(2) show ?thesis
    unfolding task_state_def find_task_def by (auto simp: f)
qed

lemma tasks_ingest_tries: "lg_tasks (ingest_tries n s ty p L) = lg_tasks L"
proof (induction n arbitrary: L)
  case (Suc n)
  obtain x L1 where q: "event_sequence_for s ty L = (x, L1)" by (rule prod.exhaust)
  obtain y L2 where i: "ingest_event (fleet_event s ty p (case x of Inl _ \<Rightarrow> 1 | Inr q \<Rightarrow> q)) L1 = (y, L2)" by (rule prod.exhaust)
  from keepsD[OF tasks_event_sequence_for q] keepsD[OF tasks_ingest_event i] Suc.IH[of L2] show ?case
    using q i by (cases y) simp_all
qed simp

lemma tasks_request: "lg_tasks (request_completion_review R fleet task author L) = lg_tasks L"
proof -
  have "keeps lg_tasks (file_review limit uuid req reviewer)" for limit uuid req reviewer
    unfolding file_review_def get_review_def open_conn_def
    by (intro frame keeps_sql_try) (simp_all add: frame insert_review_def split: option.split)
  then show ?thesis unfolding request_completion_review_def request_review_def keeps_def
    by (auto split: prod.split sum.split) (metis snd_conv)
qed

lemma rec_step_cases:
  assumes "rec_step r pc L = (pc', L')"
  obtains (quiet) "lg_tasks L' = lg_tasks L" "landed pc' = landed pc"
      "\<And>l. pc' = Finished l True \<Longrightarrow> landed pc \<or> pc = pc' \<or> agrees r (task_state (rc_task r) L)"
  | (lands) "pc = Settle" "pc' = OpenStore" "lg_tasks L' = settle_all (rc_task r) (outcome r) (lg_tasks L)"
      "\<exists>t \<in> set (lg_tasks L). tk_id t = rc_task r \<and> \<not> is_terminal_task_state (tk_state t)"
proof (cases pc)
  case Check
  obtain st L1 where c: "task_row_state (rc_task r) L = (st, L1)" by (rule prod.exhaust)
  from task_row_state_spec[OF c] have "agrees r st \<Longrightarrow> agrees r (task_state (rc_task r) L)"
    by (auto simp: agrees_def settled_def split: if_split_asm)
  with task_row_state_spec[OF c] assms Check c show thesis by (intro quiet) (auto split: if_split_asm)
next
  case Recheck
  obtain st L1 where c: "task_row_state (rc_task r) L = (st, L1)" by (rule prod.exhaust)
  from task_row_state_spec[OF c] have "agrees r st \<Longrightarrow> agrees r (task_state (rc_task r) L)"
    by (auto simp: agrees_def settled_def split: if_split_asm)
  with task_row_state_spec[OF c] assms Recheck c show thesis by (intro quiet) auto
next
  case Settle
  obtain x L1 where u: "settle_row (rc_task r) (outcome r) L = (x, L1)" by (rule prod.exhaust)
  show thesis
  proof (cases x)
    case (Inl e)
    with settle_row_spec[OF u] assms Settle u show thesis by (intro quiet) auto
  next
    case (Inr n)
    from settle_row_spec[OF u] Inr have ts: "lg_tasks L1 = settle_all (rc_task r) (outcome r) (lg_tasks L)"
      and n: "n = length (filter (\<lambda>t. tk_id t = rc_task r \<and> \<not> is_terminal_task_state (tk_state t)) (lg_tasks L))"
      by simp_all
    show thesis
    proof (cases "n = 0")
      case True
      then have "settle_all (rc_task r) (outcome r) (lg_tasks L) = lg_tasks L"
        using n unfolding settle_all_def by (intro map_idI) (auto simp: filter_empty_conv)
      with True Inr ts assms Settle u show thesis by (intro quiet) auto
    next
      case False
      then have "\<exists>t \<in> set (lg_tasks L). tk_id t = rc_task r \<and> \<not> is_terminal_task_state (tk_state t)"
        using n by (auto simp: filter_empty_conv)
      with False Inr ts assms Settle u show thesis by (intro lands) auto
    qed
  qed
next
  case OpenStore
  obtain x L1 where x: "open_conn L = (x, L1)" by (rule prod.exhaust)
  have "lg_tasks L1 = lg_tasks L" using keepsD[OF keeps_open_conn[of lg_tasks] x] by simp
  with x assms OpenStore show thesis by (intro quiet) (auto split: sum.split_asm)
next
  case (Number k)
  show thesis
  proof (cases k)
    case 0
    with assms Number show thesis by (intro quiet) auto
  next
    case (Suc n)
    obtain x L1 where x: "event_sequence_for (rc_fleet r) (event_of r) L = (x, L1)" by (rule prod.exhaust)
    with keepsD[OF tasks_event_sequence_for x] assms Number Suc show thesis by (intro quiet) auto
  qed
next
  case (Insert n q)
  obtain x L1 where x: "ingest_event (fleet_event (rc_fleet r) (event_of r) (rc_payload r) q) L = (x, L1)" by (rule prod.exhaust)
  with keepsD[OF tasks_ingest_event x] assms Insert show thesis by (intro quiet) (auto split: sum.split_asm)
next
  case Request
  with assms show thesis by (intro quiet) (auto simp: tasks_request split: if_split_asm)
next
  case (Finished l a)
  with assms show thesis by (intro quiet) auto
qed

lemma find_distinct_key:
  "distinct (map k xs) \<Longrightarrow> x \<in> set xs \<Longrightarrow> k x = y \<Longrightarrow> find (\<lambda>z. k z = y) xs = Some x"
  by (induction xs) (auto simp: image_iff)

lemma ids_settle_all [simp]: "map tk_id (settle_all task state ts) = map tk_id ts"
  by (simp add: settle_all_def)

lemma settle_all_lands:
  assumes "distinct (map tk_id (lg_tasks L))" "\<exists>t \<in> set (lg_tasks L). tk_id t = task \<and> \<not> is_terminal_task_state (tk_state t)"
    "lg_tasks L' = settle_all task state (lg_tasks L)"
  shows "\<not> settled (task_state task L)" "task_state task L' = Some state"
proof -
  from assms(2) obtain t where t: "t \<in> set (lg_tasks L)" "tk_id t = task" "\<not> is_terminal_task_state (tk_state t)" by blast
  have f: "find_task task L = Some t"
    using assms(1) t(1,2) unfolding find_task_def
    by (rule find_distinct_key)
  then show "\<not> settled (task_state task L)" using t(3) by (simp add: task_state_def settled_def)
  show "task_state task L' = Some state"
    using f t(2,3) assms(3) by (simp add: task_state_def find_task_def find_settle_all)
qed

lemma recorders_inv_step:
  assumes step: "sys_step rs s s'" and inv: "recorders_inv rs s"
  shows "recorders_inv rs s'"
  using step
proof cases
  case (recorder i pcs L pc' L')
  note st = inv[unfolded recorders_inv_def recorder(1) prod.case]
  have len: "length pcs = length rs" and i: "i < length pcs" using st recorder(3) by simp_all
  from recorder(4) show ?thesis
  proof (cases rule: rec_step_cases)
    case quiet
    note same = task_state_cong[OF quiet(1)]
    have ld: "landed (pcs[i := pc'] ! j) = landed (pcs ! j)" for j
      using quiet(2) i by (cases "j = i") simp_all
    have own: "agrees (rs ! i) (task_state (rc_task (rs ! i)) L)" if pcl: "pc' = Finished l True" for l
    proof -
      consider "landed (pcs ! i)" | "pcs ! i = pc'" | "agrees (rs ! i) (task_state (rc_task (rs ! i)) L)"
        using quiet(3)[OF pcl] by blast
      then show ?thesis
      proof cases
        case 1
        with st recorder(3) have "task_state (rc_task (rs ! i)) L = Some (outcome (rs ! i))" by blast
        then show ?thesis by (simp add: agrees_def outcome_def settled_def is_terminal_task_state_def)
      next
        case 2
        with st recorder(3) pcl show ?thesis by blast
      qed
    qed
    have fin: "agrees (rs ! j) (task_state (rc_task (rs ! j)) L)" if "j < length rs" "pcs[i := pc'] ! j = Finished l True" for j l
      using that own st i by (cases "j = i") auto
    show ?thesis
      unfolding recorders_inv_def recorder(2) prod.case same ld quiet(1) using st fin by simp
  next
    case lands
    have d: "distinct (map tk_id (lg_tasks L))" using st by simp
    note l2 = settle_all_lands[OF d lands(4,3)]
    have stab: "task_state (rc_task (rs ! j)) L' = task_state (rc_task (rs ! j)) L"
      if "settled (task_state (rc_task (rs ! j)) L)" for j
      using that settle_all_stable[OF _ _ lands(3)] by (cases "task_state (rc_task (rs ! j)) L") (auto simp: settled_def)
    have a1: "task_state (rc_task (rs ! j)) L' = Some (outcome (rs ! j))"
      if "j < length rs" "landed (pcs[i := pc'] ! j)" for j
    proof (cases "j = i")
      case False
      with that have "task_state (rc_task (rs ! j)) L = Some (outcome (rs ! j))" using st by simp
      with stab[of j] outcome_terminal show ?thesis by metis
    qed (use l2(2) in simp)
    have a3: "agrees (rs ! j) (task_state (rc_task (rs ! j)) L')"
      if "j < length rs" "pcs[i := pc'] ! j = Finished l True" for j l
    proof -
      have "j \<noteq> i" using that i lands(2) by auto
      with that st have a: "agrees (rs ! j) (task_state (rc_task (rs ! j)) L)" by auto
      then have "settled (task_state (rc_task (rs ! j)) L)"
        by (auto simp: agrees_def settled_def is_terminal_task_state_def split: if_split_asm)
      with stab a show ?thesis by simp
    qed
    show ?thesis
      unfolding recorders_inv_def recorder(2) prod.case using len d a1 a3 lands(3) by simp
  qed
next
  case (claim J task agent L x L' pcs)
  note st = inv[unfolded recorders_inv_def claim(1) prod.case]
  have stab: "task_state t L' = task_state t L" if "settled (task_state t L)" for t
    using that claim_stable[OF claim(3)] by (cases "task_state t L") (auto simp: settled_def)
  have "map tk_id (lg_tasks L') = map tk_id (lg_tasks L)"
    using claim_task_exact_lemma[OF claim(3)] by auto
  moreover have "agrees r (task_state t L) \<Longrightarrow> agrees r (task_state t L')" for r t
    using stab[of t] by (auto simp: agrees_def settled_def is_terminal_task_state_def split: if_split_asm)
  moreover have "task_state t L = Some (outcome r) \<Longrightarrow> task_state t L' = Some (outcome r)" for r t
    using stab[of t] outcome_terminal[of r] by simp
  ultimately show ?thesis
    using st unfolding recorders_inv_def claim(2) prod.case by simp
next
  case (other L' L pcs)
  then show ?thesis using inv task_state_cong[OF other(3)] by (simp add: recorders_inv_def)
qed

lemma recorders_inv_start:
  "distinct (map tk_id (lg_tasks L)) \<Longrightarrow> recorders_inv rs (replicate (length rs) Check, L)"
  by (simp add: recorders_inv_def)

lemma sys_step_settled:
  assumes "sys_step rs s s'" "task_state t (snd s) = Some v" "settled (Some v)"
  shows "task_state t (snd s') = Some v"
  using assms(1)
proof cases
  case (recorder i pcs L pc' L')
  from recorder(4) show ?thesis
  proof (cases rule: rec_step_cases)
    case quiet
    from task_state_cong[OF quiet(1)] assms(2) recorder(1,2) show ?thesis by simp
  next
    case lands
    from settle_all_stable[OF _ assms(3) lands(3)] assms(2) recorder(1,2) show ?thesis by simp
  qed
next
  case (claim J task agent L x L' pcs)
  then show ?thesis using claim_stable assms(2,3) by simp
next
  case (other L' L pcs)
  then show ?thesis using task_state_cong[OF other(3)] assms(2) by simp
qed

text \<open>The task table is a settling store, and the recorders of one task contend for its row.\<close>

interpretation task_store: settling_store "\<lambda>t s. task_state t (snd s)" "\<lambda>v. settled (Some v)" "sys_step rs" for rs
  by unfold_locales (rule sys_step_settled)

interpretation recorders: contest "sys_step rs" "\<lambda>i s. i < length rs \<and> rc_task (rs ! i) = t \<and> landed (fst s ! i)"
    "\<lambda>s. \<not> settled (task_state t (snd s))" "recorders_inv rs" for rs t
proof
  fix s s' and i j :: nat
  assume inv: "recorders_inv rs s" and st: "sys_step rs s s'"
  show "recorders_inv rs s'" by (rule recorders_inv_step[OF st inv])
  have one: "\<exists>a. \<forall>i < length rs. landed (fst s' ! i) \<longrightarrow> landed (fst s ! i) \<or> i = a \<and> \<not> settled (task_state (rc_task (rs ! i)) (snd s))"
    using st
  proof cases
    case (recorder a pcs L pc' L')
    note i = inv[unfolded recorders_inv_def recorder(1) prod.case]
    from recorder(4) show ?thesis
    proof (cases rule: rec_step_cases)
      case quiet
      then show ?thesis using recorder i by (intro exI[of _ a]) (auto simp: nth_list_update)
    next
      case lands
      from settle_all_lands(1)[OF _ lands(4,3)] i recorder show ?thesis
        by (intro exI[of _ a]) (auto simp: nth_list_update)
    qed
  qed auto
  show "(i < length rs \<and> rc_task (rs ! i) = t \<and> landed (fst s ! i)) \<or> \<not> settled (task_state t (snd s))"
    if "i < length rs \<and> rc_task (rs ! i) = t \<and> landed (fst s' ! i)"
    using one that by blast
  show "i = j" if "i < length rs \<and> rc_task (rs ! i) = t \<and> landed (fst s' ! i)" "\<not> (i < length rs \<and> rc_task (rs ! i) = t \<and> landed (fst s ! i))"
      "j < length rs \<and> rc_task (rs ! j) = t \<and> landed (fst s' ! j)" "\<not> (j < length rs \<and> rc_task (rs ! j) = t \<and> landed (fst s ! j))"
    using one that by blast
next
  fix s and i :: nat
  assume "recorders_inv rs s" "i < length rs \<and> rc_task (rs ! i) = t \<and> landed (fst s ! i)"
  then show "\<not> \<not> settled (task_state t (snd s))"
    using outcome_terminal by (auto simp: recorders_inv_def split: prod.split_asm)
qed

text \<open>C12: let any number of recorders run concurrently, statement by statement, interleaved with claims, each statement
  failing or not. Of all recorders of one task at most one finds that its update settled the row, so at most one goes
  on to the event and the review request; the row then has the outcome it recorded; and whoever was answered yes can
  rely on the row: it is done for a completion, settled for a failure.\<close>

theorem recorders_report_once:
  assumes "(sys_step rs)\<^sup>*\<^sup>* (replicate (length rs) Check, L0) (pcs, L)" and "distinct (map tk_id (lg_tasks L0))"
  shows "(\<forall>i < length rs. landed (pcs ! i) \<longrightarrow> task_state (rc_task (rs ! i)) L = Some (outcome (rs ! i)))
       \<and> (\<forall>i < length rs. \<forall>j < length rs. landed (pcs ! i) \<and> landed (pcs ! j)
            \<and> rc_task (rs ! i) = rc_task (rs ! j) \<longrightarrow> i = j)
       \<and> (\<forall>i < length rs. \<forall>l. pcs ! i = Finished l True \<longrightarrow> agrees (rs ! i) (task_state (rc_task (rs ! i)) L))"
proof -
  have start: "\<not> (i < length rs \<and> rc_task (rs ! i) = t \<and> landed (fst (replicate (length rs) Check, L0) ! i))" for i t by auto
  note one = recorders.at_most_one[OF assms(1) recorders_inv_start[OF assms(2)] start]
  from one[of undefined] have "recorders_inv rs (pcs, L)" by (rule conjunct1)
  with one show ?thesis unfolding recorders_inv_def by auto
qed

subsubsection \<open>Concrete runs\<close>

definition demo_task :: "string \<Rightarrow> task_row" where
  "demo_task t = \<lparr>tk_id = t, tk_fleet = ''f'', tk_title = t, tk_agent = None, tk_state = ''claimed'', tk_depends = None\<rparr>"

definition demo_fleet :: "string list \<Rightarrow> ledger" where
  "demo_fleet ts = \<lparr>lg_fleets = [], lg_tasks = map demo_task ts, lg_events = [], lg_sessions = [], lg_reviews = [],
     lg_notes = [], lg_now = 0, lg_faults = (\<lambda>_. None), lg_tick = 0\<rparr>"

definition demo_failure :: "string \<Rightarrow> recorder" where
  "demo_failure t = \<lparr>rc_fleet = ''f'', rc_task = t, rc_done = False, rc_author = ''codex'',
     rc_payload = JObject [(''task_id'', JString t)],
     rc_env = \<lparr>re_gate = None, re_limit = 2, re_panel = None, re_uuid = ''1''\<rparr>\<rparr>"

text \<open>A schedule names, step by step, the recorder that moves.\<close>

fun run_schedule :: "recorder list \<Rightarrow> nat list \<Rightarrow> rec_pc list \<times> ledger \<Rightarrow> rec_pc list \<times> ledger" where
  "run_schedule rs [] s = s"
| "run_schedule rs (i # is) (pcs, L) =
     (if i < length rs then
        (case rec_step (rs ! i) (pcs ! i) L of (pc', L') \<Rightarrow> run_schedule rs is (pcs[i := pc'], L'))
      else run_schedule rs is (pcs, L))"

lemma run_schedule_steps: "(sys_step rs)\<^sup>*\<^sup>* s (run_schedule rs is s)"
proof (induction rs "is" s rule: run_schedule.induct)
  case (2 rs i "is" pcs L)
  show ?case
  proof (cases "i < length rs")
    case True
    obtain pc' L' where p: "rec_step (rs ! i) (pcs ! i) L = (pc', L')" by (rule prod.exhaust)
    from sys_step.recorder[OF True p] 2(1)[OF True p[symmetric]] show ?thesis
      using True p by (simp add: converse_rtranclp_into_rtranclp)
  qed (use 2(2) in simp)
qed simp

text \<open>Two recorders of one failed task, both past the check before either settles: one lands.\<close>

theorem recorders_report_once_witness:
  "map landed (fst (run_schedule (replicate 2 (demo_failure ''t'')) [0, 1, 1, 0, 0, 1] (replicate 2 Check, demo_fleet [''t''])))
     = [False, True]
   \<and> task_state ''t'' (snd (run_schedule (replicate 2 (demo_failure ''t'')) [0, 1, 1, 0, 0, 1] (replicate 2 Check, demo_fleet [''t''])))
     = Some ''failed''"
  (is "map landed (fst ?s) = _ \<and> _")
proof
  obtain pcs L where s: "?s = (pcs, L)" by (rule prod.exhaust)
  have l: "map landed (fst ?s) = [False, True]" by code_simp
  then show "map landed (fst ?s) = [False, True]" .
  have "landed (pcs ! 1)" using l s by (cases pcs; cases "tl pcs") auto
  moreover have st: "(sys_step (replicate 2 (demo_failure ''t'')))\<^sup>*\<^sup>*
      (replicate (length (replicate 2 (demo_failure ''t''))) Check, demo_fleet [''t'']) (pcs, L)"
    using run_schedule_steps[of "replicate 2 (demo_failure ''t'')" "(replicate 2 Check, demo_fleet [''t''])" "[0, 1, 1, 0, 0, 1]"]
    unfolding s length_replicate .
  have d: "distinct (map tk_id (lg_tasks (demo_fleet [''t''])))" by (simp add: demo_fleet_def)
  from conjunct1[OF recorders_report_once[OF st d], rule_format, of 1]
  have "landed (pcs ! 1) \<Longrightarrow> task_state (rc_task (demo_failure ''t'')) L = Some (outcome (demo_failure ''t''))" by simp
  ultimately have "task_state (rc_task (demo_failure ''t'')) L = Some (outcome (demo_failure ''t''))" by blast
  then show "task_state ''t'' (snd ?s) = Some ''failed''" using s by (simp add: demo_failure_def outcome_def)
qed

text \<open>Two failures of different tasks of one fleet whose recorders both number their event before either writes it:
  both answer yes, and one of the two events is lost without an error.\<close>

lemma concurrent_events_are_lost:
  "let (pcs, L) = run_schedule [demo_failure ''s'', demo_failure ''t''] [0, 1, 0, 1, 0, 1, 0, 1, 0, 1, 0, 1]
                    (replicate 2 Check, demo_fleet [''s'', ''t''])
   in pcs = [Finished True True, Finished True True]
      \<and> map ev_payload (lg_events L) = [JObject [(''task_id'', JString ''s'')]]"
  by code_simp

text \<open>The insertion of an event and of its session are two statements: when the second fails, the event is written
  again under the next number.\<close>

lemma failing_session_doubles_the_event:
  "map ev_sequence (lg_events (ingest_fleet_event ''f'' ''task_failed'' JNull
       ((demo_fleet [])\<lparr>lg_faults := (\<lambda>n. if n = 4 then Some ''disk I/O error'' else None)\<rparr>))) = [1, 2]"
  by code_simp

subsection \<open>States of a fleet\<close>

definition find_fleet :: "string \<Rightarrow> ledger \<Rightarrow> fleet_row option" where
  "find_fleet fleet L = find (\<lambda>f. fl_id f = fleet) (lg_fleets L)"

definition update_fleets :: "(fleet_row \<Rightarrow> bool) \<Rightarrow> (fleet_row \<Rightarrow> fleet_row) \<Rightarrow> ledger \<Rightarrow> nat \<times> ledger" where
  "update_fleets p f L =
     (length (filter p (lg_fleets L)), L\<lparr>lg_fleets := map (\<lambda>r. if p r then f r else r) (lg_fleets L)\<rparr>)"

definition mark_fleet_cancelled :: "string \<Rightarrow> string \<Rightarrow> ledger \<Rightarrow> bool \<times> ledger" where
  "mark_fleet_cancelled fleet why L =
     (case and_then open_conn (\<lambda>_. sql (update_fleets
             (\<lambda>r. fl_id r = fleet \<and> fl_state r \<notin> {''done'', ''failed'', ''cancelled''})
             (\<lambda>r. r\<lparr>fl_state := ''cancelled'', fl_failure_reason := Some why\<rparr>))) L of
        (Inr _, L') \<Rightarrow> (True, L')
      | (Inl _, L') \<Rightarrow> (False, L'))"

text \<open>\<open>cancelled_here\<close> is the set of fleets that were cancelled in this process.\<close>

definition fleet_cancel_requested :: "string set \<Rightarrow> string \<Rightarrow> ledger \<Rightarrow> bool \<times> ledger" where
  "fleet_cancel_requested cancelled_here fleet L =
     (if fleet \<in> cancelled_here then (True, L)
      else case and_then open_conn (\<lambda>_. sql (\<lambda>L. (map_option fl_state (find_fleet fleet L), L))) L of
          (Inr st, L') \<Rightarrow> (st = Some ''cancelled'', L')
        | (Inl _, L') \<Rightarrow> (False, L'))"

definition conn_state_blocked :: "string \<Rightarrow> unit db" where
  "conn_state_blocked fleet =
     and_then open_conn (\<lambda>_. and_then (sql (update_fleets (\<lambda>r. fl_id r = fleet)
       (\<lambda>r. r\<lparr>fl_state := ''blocked_on_review''\<rparr>))) (\<lambda>_. db_return ()))"

definition has_active_fleets :: "bool db" where
  "has_active_fleets =
     sql (\<lambda>L. (list_ex (\<lambda>r. fl_state r \<notin> {''done'', ''failed'', ''blocked_on_review''}) (lg_fleets L), L))"

definition fleet_base_sha :: "string \<Rightarrow> ledger \<Rightarrow> string option" where
  "fleet_base_sha fleet L =
     (case and_then open_conn (\<lambda>_. sql (\<lambda>L. (sort_key ev_sequence
             (filter (\<lambda>e. ev_session e = fleet \<and> ev_type e = ''fleet_spawned'') (lg_events L)), L))) L of
        (Inr (e # _), _) \<Rightarrow> Option.bind (json_get (ev_payload e) ''head_sha'') as_str
      | _ \<Rightarrow> None)"

subsection \<open>Judging a member\<close>

text \<open>\<open>is_ancestor a b\<close> is the exit code of \<open>git merge-base --is-ancestor\<close>, \<open>None\<close> when git did not run.\<close>

definition commit_is_new :: "(string \<Rightarrow> string \<Rightarrow> int option) \<Rightarrow> string \<Rightarrow> string \<Rightarrow> bool option" where
  "commit_is_new is_ancestor base head =
     (let answer = (\<lambda>a b. case is_ancestor a b of
                            Some c \<Rightarrow> if c = 0 then Some True else if c = 1 then Some False else None
                          | None \<Rightarrow> None)
      in case answer base head of
           None \<Rightarrow> None
         | Some False \<Rightarrow> Some False
         | Some True \<Rightarrow> map_option Not (answer head base))"

definition show_exit :: "int option \<Rightarrow> string" where
  "show_exit c = (case c of Some n \<Rightarrow> ''Some('' @ show_int n @ '')'' | None \<Rightarrow> ''None'')"

definition judge_member_run ::
  "int option \<Rightarrow> string option \<Rightarrow> string option \<Rightarrow> bool option \<Rightarrow> string + unit"
where
  "judge_member_run exit_code branch_head base_sha new_commit =
     (if exit_code \<noteq> Some 0 then Inl (''agent exited '' @ show_exit exit_code)
      else case (branch_head, base_sha, new_commit) of
          (Some _, Some _, Some True) \<Rightarrow> Inr ()
        | (Some h, Some b, Some False) \<Rightarrow>
            Inl (''agent exited 0 without committing: its branch head '' @ h
                   @ '' is not a new commit on the fleet'' @ [CHR 0x27] @ ''s base '' @ b)
        | (None, _, _) \<Rightarrow> Inl ''agent exited 0 but its branch head could not be read, so no commit is proven''
        | (Some _, None, _) \<Rightarrow>
            Inl (''agent exited 0 but the fleet'' @ [CHR 0x27]
                   @ ''s base commit is not in the ledger, so no new commit is proven'')
        | (Some _, Some _, None) \<Rightarrow>
            Inl (''agent exited 0 but git could not compare its head with the fleet'' @ [CHR 0x27]
                   @ ''s base, so no new commit is proven''))"

definition name_print_timeout :: "string + unit \<Rightarrow> string list \<Rightarrow> string + unit" where
  "name_print_timeout verdict outputs =
     (case verdict of
        Inr u \<Rightarrow> Inr u
      | Inl why \<Rightarrow>
          (case filter (\<lambda>l. contains_sub l ''print timeout after'') (concat (map lines outputs)) of
             l # _ \<Rightarrow> Inl (''agent hit its print timeout and stopped mid-turn ('' @ trim l @ ''); '' @ why)
           | [] \<Rightarrow> Inl why))"

definition judge_worktree_run ::
  "(string \<Rightarrow> string \<Rightarrow> int option) \<Rightarrow> string option \<Rightarrow> string \<Rightarrow> int option \<Rightarrow> ledger
     \<Rightarrow> (string + unit) \<times> string option \<times> string option"
where
  "judge_worktree_run is_ancestor head fleet exit_code L =
     (let base = fleet_base_sha fleet L;
          new_commit = (case (head, base) of (Some h, Some b) \<Rightarrow> commit_is_new is_ancestor b h | _ \<Rightarrow> None)
      in (judge_member_run exit_code head base new_commit, head, base))"

text \<open>A member's run is judged done exactly when the agent exited with 0 and git confirms that its branch head
  descends from the recorded base commit of the fleet and that the base does not descend from it: an unreadable head,
  a base missing from the ledger, a git that did not run and an unmoved branch all judge it failed.\<close>

theorem member_done_iff:
  "fst (judge_worktree_run is_ancestor head fleet exit_code L) = Inr () \<longleftrightarrow>
     exit_code = Some 0 \<and> (\<exists>h b. head = Some h \<and> fleet_base_sha fleet L = Some b
       \<and> is_ancestor b h = Some 0 \<and> is_ancestor h b = Some 1)"
proof -
  have new: "commit_is_new is_ancestor b h = Some True \<longleftrightarrow> is_ancestor b h = Some 0 \<and> is_ancestor h b = Some 1" for b h
    by (auto simp: commit_is_new_def Let_def split: option.splits if_splits bool.splits)
  have j: "judge_member_run c hd bs nc = Inr () \<longleftrightarrow> c = Some 0 \<and> hd \<noteq> None \<and> bs \<noteq> None \<and> nc = Some True" for c hd bs nc
    by (cases hd; cases bs; cases nc) (simp_all add: judge_member_run_def split: bool.split)
  show ?thesis
    by (cases head; cases "fleet_base_sha fleet L") (simp_all add: judge_worktree_run_def Let_def j new)
qed

text \<open>Cancelling leaves finished fleets alone; parking a fleet for its review does not leave a cancelled one alone.\<close>

lemma cancel_keeps_finished:
  assumes "find_fleet fleet L = Some r" "fl_state r \<in> {''done'', ''failed'', ''cancelled''}"
  shows "find_fleet fleet (snd (mark_fleet_cancelled fleet why L)) = Some r"
proof -
  define u where "u = update_fleets (\<lambda>r. fl_id r = fleet \<and> fl_state r \<notin> {''done'', ''failed'', ''cancelled''})
             (\<lambda>r. r\<lparr>fl_state := ''cancelled'', fl_failure_reason := Some why\<rparr>)"
  have u: "find_fleet fleet (snd (u L1)) = Some r" if "find_fleet fleet L1 = Some r" for L1
    using that assms(2) by (auto simp: u_def update_fleets_def find_fleet_def find_map_same)
  have "valid (\<lambda>L. find_fleet fleet L = Some r) (\<lambda>L. find_fleet fleet L = Some r)
          (and_then open_conn (\<lambda>_. sql u)) (\<lambda>_ L. find_fleet fleet L = Some r)"
    by (rule valid_and_then, rule valid_open_conn) (auto simp: find_fleet_def[of _ "_\<lparr>lg_tick := _\<rparr>"] find_fleet_def[symmetric] intro!: valid_sql u)
  from validD[OF this assms(1)] show ?thesis
    unfolding mark_fleet_cancelled_def u_def[symmetric] by (auto split: prod.split sum.split)
qed

lemma parking_overwrites_a_cancellation:
  "map fl_state (lg_fleets (snd (conn_state_blocked ''f''
     (snd (mark_fleet_cancelled ''f'' ''operator''
        ((demo_fleet [])\<lparr>lg_fleets := [\<lparr>fl_id = ''f'', fl_description = [], fl_state = ''merging'', fl_failure_reason = None\<rparr>]\<rparr>))))))
   = [''blocked_on_review'']"
  by code_simp

text \<open>A cancelled fleet counts as active for ever.\<close>

lemma cancelled_fleet_is_active:
  "fl_state r = ''cancelled'' \<Longrightarrow> r \<in> set (lg_fleets L) \<Longrightarrow> lg_faults L (lg_tick L) = None \<Longrightarrow>
   fst (has_active_fleets L) = Inr True"
  by (simp add: has_active_fleets_def sql_def sql_try_def Let_def list_ex_iff) force

end
