(* ===== verification/Fleet_Merge.thy ===== *)
theory Fleet_Merge
  imports Fleet_Recorders "HOL-Library.AList"
begin

text \<open>
  The merge phase of a fleet: the merge coordinator (\<open>fleet/src/merge.rs\<close>), the review gate and the completion of a
  fleet (\<open>fleet/src/orchestrator.rs\<close>). Git is what \<open>git\<close> answers to a merge of a branch after the merges it
  was asked for before; \<open>mc_git\<close> is the record of these.

  Shown here: branches are merged in the order of completion and only under an approval; a fleet is recorded as done
  only when the branch of every task was merged and none was refused by its review.
\<close>

subsection \<open>The coordinator\<close>

record completed_work =
  cw_task :: string
  cw_branch :: string

datatype ReviewGateState = Approved | Pending | RequestChanges

datatype MergeResult = Success | Conflict "string list"

type_synonym git_log = "(string \<times> (string + MergeResult)) list"

type_synonym git_ops = "git_log \<Rightarrow> string \<Rightarrow> string + MergeResult"

record coordinator =
  mc_project_root :: bool
  mc_queue :: "completed_work list"
  mc_merged_order :: "string list"
  mc_paused :: bool
  mc_conflicts :: "(string \<times> string list) list"
  mc_status :: "(string \<times> ReviewGateState) list"
  mc_comments :: "(string \<times> string) list"
  mc_git :: git_log

definition new_coordinator :: coordinator where
  "new_coordinator = \<lparr>mc_project_root = False, mc_queue = [], mc_merged_order = [], mc_paused = False, mc_conflicts = [],
     mc_status = [], mc_comments = [], mc_git = []\<rparr>"

definition with_project_root :: "coordinator \<Rightarrow> coordinator" where
  "with_project_root c = c\<lparr>mc_project_root := True\<rparr>"

definition enqueue_completed :: "string \<Rightarrow> string \<Rightarrow> coordinator \<Rightarrow> coordinator" where
  "enqueue_completed task branch c = c\<lparr>mc_queue := mc_queue c @ [\<lparr>cw_task = task, cw_branch = branch\<rparr>]\<rparr>"

definition set_review_status :: "string \<Rightarrow> ReviewGateState \<Rightarrow> string option \<Rightarrow> coordinator \<Rightarrow> coordinator" where
  "set_review_status task state comments c =
     c\<lparr>mc_status := AList.update task state (mc_status c),
       mc_comments := (case comments of Some s \<Rightarrow> AList.update task s (mc_comments c) | None \<Rightarrow> mc_comments c)\<rparr>"

definition fleet_id_from_branch :: "string \<Rightarrow> string option" where
  "fleet_id_from_branch branch =
     (case split_char CHR ''/'' branch of
        first # second # _ \<Rightarrow> if first = ''fleet'' \<and> second \<noteq> [] then Some second else None
      | _ \<Rightarrow> None)"

definition skip_review_enabled :: "string option \<Rightarrow> bool" where
  "skip_review_enabled env =
     (case env of Some v \<Rightarrow> to_lowercase v \<notin> {''0'', ''false'', ''no'', ''off''} | None \<Rightarrow> False)"

definition record_merge_event :: "coordinator \<Rightarrow> completed_work \<Rightarrow> string \<Rightarrow> json \<Rightarrow> unit db" where
  "record_merge_event c work ty payload =
     (if \<not> mc_project_root c then db_return ()
      else case fleet_id_from_branch (cw_branch work) of
          None \<Rightarrow> db_return ()
        | Some fleet \<Rightarrow>
            and_then (event_sequence_for fleet ty) (\<lambda>n.
              and_then open_conn (\<lambda>_. ingest_event (fleet_event fleet ty payload n))))"

definition work_payload :: "completed_work \<Rightarrow> (string \<times> json) list \<Rightarrow> json" where
  "work_payload w rest = JObject ([(''task_id'', JString (cw_task w)), (''branch'', JString (cw_branch w))] @ rest)"

text \<open>The review check of \<open>merge_next\<close>: nothing, or its error with the queue put back.\<close>

definition review_check ::
  "bool \<Rightarrow> coordinator \<Rightarrow> completed_work \<Rightarrow> ledger \<Rightarrow> (string + unit) \<times> coordinator \<times> ledger"
where
  "review_check skip c work L =
     (if \<not> skip then
        (case (case map_of (mc_status c) (cw_task work) of Some s \<Rightarrow> s | None \<Rightarrow> Pending) of
           Approved \<Rightarrow> (Inr (), c, L)
         | Pending \<Rightarrow> (Inl ''pending review for task; merge blocked'', c\<lparr>mc_queue := work # mc_queue c\<rparr>, L)
         | RequestChanges \<Rightarrow>
             (Inl (''merge paused due to request_changes: '' @
                (case map_of (mc_comments c) (cw_task work) of Some s \<Rightarrow> s | None \<Rightarrow> ''request_changes'')),
              c\<lparr>mc_paused := True, mc_queue := work # mc_queue c\<rparr>, L))
      else if mc_project_root c then
        (case open_conn L of
           (Inl e, L') \<Rightarrow> (Inl e, c, L')
         | (Inr _, L') \<Rightarrow>
             (Inr (), c, snd (record_manual (''review skipped for '' @ cw_task work) ''TRIUMVIRATE_FLEET_SKIP_REVIEW=1'' L')))
      else (Inr (), c, L))"

text \<open>The merge itself. A success is recorded, and the end of the queue too; a conflict pauses the queue.\<close>

definition merge_work ::
  "git_ops \<Rightarrow> coordinator \<Rightarrow> completed_work \<Rightarrow> ledger \<Rightarrow> (string + string option) \<times> coordinator \<times> ledger"
where
  "merge_work git c0 work L =
     (let answer = git (mc_git c0) (cw_branch work);
          c = c0\<lparr>mc_git := mc_git c0 @ [(cw_branch work, answer)]\<rparr>
      in case answer of
           Inl e \<Rightarrow> (Inl e, c, L)
         | Inr Success \<Rightarrow>
             (let c' = c\<lparr>mc_merged_order := mc_merged_order c @ [cw_task work]\<rparr> in
              case and_then (record_merge_event c' work ''merge_result'' (work_payload work [(''result'', JString ''success'')]))
                     (\<lambda>_. if mc_queue c' = [] then record_merge_event c' work ''fleet_done'' (work_payload work [])
                          else db_return ()) L of
                (Inl e, L') \<Rightarrow> (Inl e, c', L')
              | (Inr _, L') \<Rightarrow> (Inr (Some (cw_task work)), c', L'))
         | Inr (Conflict files) \<Rightarrow>
             (let c' = c\<lparr>mc_paused := True, mc_conflicts := mc_conflicts c @ [(cw_task work, files)]\<rparr> in
              case record_merge_event c' work ''merge_result''
                     (work_payload work [(''result'', JString ''conflict''), (''files'', JArray (map JString files))]) L of
                (Inl e, L') \<Rightarrow> (Inl e, c', L')
              | (Inr _, L') \<Rightarrow>
                  (Inl (''merge conflict while merging task '' @ cw_task work @ '': '' @ join '', '' files @ ''; queue paused''),
                   c', L')))"

definition merge_next ::
  "git_ops \<Rightarrow> bool \<Rightarrow> coordinator \<Rightarrow> ledger \<Rightarrow> (string + string option) \<times> coordinator \<times> ledger"
where
  "merge_next git skip c L =
     (if mc_paused c then (Inl ''merge queue paused due to previous conflict'', c, L)
      else case mc_queue c of
          [] \<Rightarrow> (Inr None, c, L)
        | work # rest \<Rightarrow>
            (let c1 = c\<lparr>mc_queue := rest\<rparr> in
             case record_merge_event c1 work ''merge_started'' (work_payload work []) L of
               (Inl e, L1) \<Rightarrow> (Inl e, c1, L1)
             | (Inr _, L1) \<Rightarrow>
                 (case review_check skip c1 work L1 of
                    (Inl e, c2, L2) \<Rightarrow> (Inl e, c2, L2)
                  | (Inr _, c2, L2) \<Rightarrow> merge_work git c2 work L2)))"

lemma merge_work_queue: "merge_work git c work L = (r, c', L') \<Longrightarrow> mc_queue c' = mc_queue c"
  unfolding merge_work_def Let_def
  by (auto split: sum.split_asm MergeResult.split_asm prod.split_asm)

lemma merge_next_shrinks:
  assumes "merge_next git skip c L = (Inr (Some t), c', L')"
  shows "length (mc_queue c') < length (mc_queue c)"
proof -
  from assms have np: "\<not> mc_paused c" by (auto simp: merge_next_def)
  from assms np obtain w ws where q: "mc_queue c = w # ws" by (cases "mc_queue c") (auto simp: merge_next_def)
  define c1 where "c1 = c\<lparr>mc_queue := ws\<rparr>"
  obtain a L1 where m: "record_merge_event c1 w ''merge_started'' (work_payload w []) L = (a, L1)" by (rule prod.exhaust)
  obtain b c2 L2 where rc: "review_check skip c1 w L1 = (b, c2, L2)" by (rule prod_cases3)
  from assms np q m rc obtain u v where ok: "a = Inr u" "b = Inr v" "merge_work git c2 w L2 = (Inr (Some t), c', L')"
    by (auto simp: merge_next_def c1_def[symmetric] Let_def split: sum.split_asm)
  have "c2 = c1" using rc ok(2)
    by (auto simp: review_check_def split: if_split_asm ReviewGateState.split_asm prod.split_asm sum.split_asm)
  with merge_work_queue[OF ok(3)] q show ?thesis by (simp add: c1_def)
qed

text \<open>\<open>while coordinator.merge_next().await?.is_some()\<close>.\<close>

function merge_all :: "git_ops \<Rightarrow> bool \<Rightarrow> coordinator \<Rightarrow> ledger \<Rightarrow> (string + unit) \<times> coordinator \<times> ledger" where
  "merge_all git skip c L =
     (case merge_next git skip c L of
        (Inl e, c', L') \<Rightarrow> (Inl e, c', L')
      | (Inr None, c', L') \<Rightarrow> (Inr (), c', L')
      | (Inr (Some t), c', L') \<Rightarrow> merge_all git skip c' L')"
  by pat_completeness auto

termination
  by (relation "measure (\<lambda>(git, skip, c, L). length (mc_queue c))") (auto dest!: merge_next_shrinks[OF sym])

declare merge_all.simps [simp del]

subsection \<open>Order and approval of merges\<close>

definition allowed :: "bool \<Rightarrow> coordinator \<Rightarrow> completed_work \<Rightarrow> bool" where
  "allowed skip c w \<longleftrightarrow> skip \<or> map_of (mc_status c) (cw_task w) = Some Approved"

lemma review_check_ok:
  "review_check skip c w L = (Inr u, c', L') \<Longrightarrow> c' = c \<and> allowed skip c w"
  by (auto simp: review_check_def allowed_def split: if_split_asm ReviewGateState.split_asm option.split_asm prod.split_asm sum.split_asm)

lemma review_check_log: "review_check skip c w L = (r, c', L') \<Longrightarrow> mc_git c' = mc_git c"
  by (auto simp: review_check_def split: if_split_asm ReviewGateState.split_asm prod.split_asm sum.split_asm)

lemma merge_work_cases:
  assumes "merge_work git c w L = (r, c', L')"
  obtains (merged) "r = Inr (Some (cw_task w))" "mc_git c' = mc_git c @ [(cw_branch w, Inr Success)]"
      "mc_queue c' = mc_queue c" "mc_status c' = mc_status c" "mc_paused c' = mc_paused c"
  | (failed) e a where "r = Inl e" "mc_git c' = mc_git c @ [(cw_branch w, a)]"
proof (cases "git (mc_git c) (cw_branch w)")
  case (Inl e)
  with assms show thesis by (intro failed) (auto simp: merge_work_def)
next
  case (Inr m)
  show thesis
  proof (cases m)
    case Success
    define c1 where "c1 = c\<lparr>mc_git := mc_git c @ [(cw_branch w, Inr Success)], mc_merged_order := mc_merged_order c @ [cw_task w]\<rparr>"
    define ev where "ev = and_then (record_merge_event c1 w ''merge_result'' (work_payload w [(''result'', JString ''success'')]))
                     (\<lambda>_. if mc_queue c1 = [] then record_merge_event c1 w ''fleet_done'' (work_payload w [])
                          else db_return ())"
    obtain x L1 where x: "ev L = (x, L1)" by (rule prod.exhaust)
    have eq: "(r, c', L') = (case ev L of (Inl e, L') \<Rightarrow> (Inl e, c1, L') | (Inr _, L') \<Rightarrow> (Inr (Some (cw_task w)), c1, L'))"
      unfolding assms[symmetric] ev_def c1_def by (simp add: merge_work_def Let_def Inr Success)
    show thesis
    proof (cases x)
      case (Inl e)
      with eq x have "r = Inl e" "c' = c1" by simp_all
      then show thesis by (intro failed) (simp_all add: c1_def)
    next
      case (Inr u)
      with eq x have "r = Inr (Some (cw_task w))" "c' = c1" by simp_all
      then show thesis by (intro merged) (simp_all add: c1_def)
    qed
  next
    case (Conflict files)
    with assms Inr have "\<exists>e. r = Inl e" "mc_git c' = mc_git c @ [(cw_branch w, Inr (Conflict files))]"
      by (auto simp: merge_work_def Let_def split: prod.split_asm sum.split_asm)
    then show thesis using failed by blast
  qed
qed

lemma merge_next_cases:
  assumes "merge_next git skip c L = (r, c', L')"
  obtains (finished) "r = Inr None" "mc_queue c = []" "c' = c"
  | (refused) e where "r = Inl e" "mc_git c' = mc_git c"
  | (failed) e w ws a where "r = Inl e" "mc_queue c = w # ws" "allowed skip c w" "mc_git c' = mc_git c @ [(cw_branch w, a)]"
  | (merged) w ws where "r = Inr (Some (cw_task w))" "mc_queue c = w # ws" "allowed skip c w"
      "mc_git c' = mc_git c @ [(cw_branch w, Inr Success)]" "mc_queue c' = ws" "mc_status c' = mc_status c"
proof (cases "mc_paused c")
  case True
  with assms show thesis by (intro refused) (auto simp: merge_next_def)
next
  case np: False
  show thesis
  proof (cases "mc_queue c")
    case Nil
    with np assms show thesis by (intro finished) (auto simp: merge_next_def)
  next
    case (Cons w ws)
    define c1 where "c1 = c\<lparr>mc_queue := ws\<rparr>"
    obtain a L1 where m: "record_merge_event c1 w ''merge_started'' (work_payload w []) L = (a, L1)" by (rule prod.exhaust)
    obtain b c2 L2 where rc: "review_check skip c1 w L1 = (b, c2, L2)" by (rule prod_cases3)
    note eqs = merge_next_def Let_def c1_def[symmetric]
    show thesis
    proof (cases a)
      case (Inl e)
      with assms np Cons m have "r = Inl e" "c' = c1" by (simp_all add: eqs)
      then show thesis by (intro refused) (simp_all add: c1_def)
    next
      case (Inr u)
      show thesis
      proof (cases b)
        case (Inl e)
        with assms np Cons m Inr rc have "r = Inl e" "c' = c2" by (simp_all add: eqs)
        then show thesis using review_check_log[OF rc] by (intro refused) (simp_all add: c1_def)
      next
        case (Inr v)
        with assms np Cons m \<open>a = _\<close> rc have mw: "merge_work git c2 w L2 = (r, c', L')" by (simp add: eqs)
        from review_check_ok[OF rc[unfolded Inr]] have c2: "c2 = c1" and al: "allowed skip c w"
          by (simp_all add: c1_def allowed_def)
        from mw[unfolded c2] show thesis
        proof (cases rule: merge_work_cases)
          case merged
          with Cons al show thesis by (intro that(4)) (simp_all add: c1_def)
        next
          case (failed e a)
          with Cons al show thesis by (intro that(3)) (simp_all add: c1_def)
        qed
      qed
    qed
  qed
qed

definition merges :: "bool \<Rightarrow> coordinator \<Rightarrow> git_log \<Rightarrow> bool" where
  "merges skip c log \<longleftrightarrow> (\<exists>k \<le> length (mc_queue c).
     map fst log = map cw_branch (take k (mc_queue c)) \<and> list_all (allowed skip c) (take k (mc_queue c))
     \<and> list_all (\<lambda>(b, a). a = Inr Success) (butlast log))"

lemma merge_all_log:
  assumes "merge_all git skip c L = (r, c', L')"
  shows "\<exists>log. mc_git c' = mc_git c @ log \<and> merges skip c log
     \<and> (r = Inr () \<longrightarrow> map fst log = map cw_branch (mc_queue c) \<and> list_all (allowed skip c) (mc_queue c)
          \<and> list_all (\<lambda>(b, a). a = Inr Success) log)"
  using assms
proof (induction git skip c L rule: merge_all.induct)
  case (1 git skip c L)
  obtain x c1 L1 where n: "merge_next git skip c L = (x, c1, L1)" by (rule prod_cases3)
  from n show ?case
  proof (cases rule: merge_next_cases)
    case finished
    with 1(2) n have "c' = c" "r = Inr ()" by (auto simp: merge_all.simps[of git skip c L])
    then show ?thesis using finished by (simp add: merges_def)
  next
    case (refused e)
    with 1(2) n have "c' = c1" "r = Inl e" by (auto simp: merge_all.simps[of git skip c L])
    then show ?thesis using refused by (auto simp: merges_def intro: exI[of _ 0])
  next
    case (failed e w ws a)
    with 1(2) n have "c' = c1" "r = Inl e" by (auto simp: merge_all.simps[of git skip c L])
    then show ?thesis using failed by (intro exI[of _ "[(cw_branch w, a)]"]) (auto simp: merges_def intro: exI[of _ 1])
  next
    case (merged w ws)
    with 1(2) n have rest: "merge_all git skip c1 L1 = (r, c', L')" by (auto simp: merge_all.simps[of git skip c L])
    from 1(1)[OF n[symmetric] merged(1) refl refl rest] obtain log where
        log: "mc_git c' = mc_git c1 @ log" "merges skip c1 log"
          "r = Inr () \<longrightarrow> map fst log = map cw_branch (mc_queue c1) \<and> list_all (allowed skip c1) (mc_queue c1)
             \<and> list_all (\<lambda>(b, a). a = Inr Success) log"
      by auto
    have al: "allowed skip c1 = allowed skip c" using merged by (auto simp: allowed_def fun_eq_iff)
    from log(2) obtain k where k: "k \<le> length ws" "map fst log = map cw_branch (take k ws)"
        "list_all (allowed skip c) (take k ws)" "list_all (\<lambda>(b, a). a = Inr Success) (butlast log)"
      using merged al by (auto simp: merges_def)
    have "merges skip c ((cw_branch w, Inr Success) # log)"
      unfolding merges_def using k merged by (intro exI[of _ "Suc k"]) (cases log, auto)
    then show ?thesis using log merged al by (intro exI[of _ "(cw_branch w, Inr Success) # log"]) simp
  qed
qed

text \<open>A run of the merge loop asks git for the branches of the queue in the order of their completion, skipping
  none, every one of them approved (unless reviews are switched off), and every one but the last asked for merged
  cleanly. When it ends without an error, every branch of the queue was merged cleanly.\<close>

theorem merges_in_order_and_approved:
  "case merge_all git skip c L of (r, c', L') \<Rightarrow>
     \<exists>log. mc_git c' = mc_git c @ log \<and> merges skip c log
       \<and> (if r = Inr () then map fst log = map cw_branch (mc_queue c) \<and> list_all (allowed skip c) (mc_queue c)
            \<and> list_all (\<lambda>(b, a). a = Inr Success) log else True)"
proof -
  obtain r c' L' where m: "merge_all git skip c L = (r, c', L')" by (rule prod_cases3)
  from merge_all_log[OF m] show ?thesis unfolding m prod.case if_bool_eq_conj by simp
qed

subsection \<open>The review gate\<close>

datatype GateDecision = GateApproved "string option" | Blocked string | AutoApproved

definition review_gate_decision :: "string + review_row list \<Rightarrow> bool \<Rightarrow> GateDecision" where
  "review_gate_decision reviews require_review =
     (case reviews of
        Inl e \<Rightarrow> Blocked (''review lookup failed: '' @ e)
      | Inr rows \<Rightarrow>
          (case find (\<lambda>r. eq_ignore_ascii_case (rv_state r) ''done'') rows of
             Some r \<Rightarrow>
               (let v = to_lowercase (case rv_verdict r of Some v \<Rightarrow> v | None \<Rightarrow> ''indeterminate'') in
                if v = ''approve'' \<or> v = ''concerns'' then GateApproved (rv_comments r)
                else Blocked (''verdict '' @ v @ '', review '' @ rv_id r))
           | None \<Rightarrow> if require_review then Blocked ''no verdict recorded'' else AutoApproved))"

definition require_review_enabled :: "string option \<Rightarrow> bool" where
  "require_review_enabled env =
     (case env of Some v \<Rightarrow> to_lowercase v \<in> {''1'', ''true'', ''yes'', ''on''} | None \<Rightarrow> False)"

definition AUTO_COMMENT :: string where
  "AUTO_COMMENT = ''auto-approved by complete_fleet: no verdict was recorded. Set TRIUMVIRATE_FLEET_REQUIRE_REVIEW=1 to block instead.''"

text \<open>One round of the loop of \<open>complete_fleet\<close> over the tasks, and the loop.\<close>

definition gate_task ::
  "bool \<Rightarrow> string \<Rightarrow> string \<Rightarrow> coordinator \<times> string list \<times> ledger \<Rightarrow> coordinator \<times> string list \<times> ledger"
where
  "gate_task require_review fleet task = (\<lambda>(c0, blocked, L0).
     let artifact = ''fleet/'' @ fleet @ ''/'' @ task;
         c = enqueue_completed task artifact c0
     in case reviews_for_artifact artifact L0 of (reviews, L) \<Rightarrow>
        (case review_gate_decision reviews require_review of
           GateApproved comment \<Rightarrow> (set_review_status task Approved comment c, blocked, L)
         | Blocked reason \<Rightarrow>
             (set_review_status task RequestChanges (Some reason) c, blocked @ [task @ '' ('' @ reason @ '')''], L)
         | AutoApproved \<Rightarrow>
             (set_review_status task Approved (Some AUTO_COMMENT) c, blocked,
              ingest_fleet_event fleet ''review_auto_approved''
                (JObject [(''task_id'', JString task), (''artifact'', JString artifact),
                          (''reason'', JString ''no verdict recorded; TRIUMVIRATE_FLEET_REQUIRE_REVIEW is off'')]) L)))"

definition gate_tasks ::
  "bool \<Rightarrow> string \<Rightarrow> string list \<Rightarrow> coordinator \<times> string list \<times> ledger \<Rightarrow> coordinator \<times> string list \<times> ledger"
where
  "gate_tasks require_review fleet = fold (gate_task require_review fleet)"

subsection \<open>Completion of a fleet\<close>

definition done_tasks :: "string \<Rightarrow> ledger \<Rightarrow> string list" where
  "done_tasks fleet L = sort (map tk_id (filter (\<lambda>t. tk_fleet t = fleet \<and> tk_state t = ''done'') (lg_tasks L)))"

definition failed_count :: "string \<Rightarrow> ledger \<Rightarrow> nat" where
  "failed_count fleet L = length (filter (\<lambda>t. tk_fleet t = fleet \<and> tk_state t = ''failed'') (lg_tasks L))"

text \<open>Into the merge phase: whether this call moved the fleet, then its start event and the tasks.\<close>

definition enter_merge :: "string \<Rightarrow> (string list \<times> nat) option db" where
  "enter_merge fleet =
     and_then open_conn (\<lambda>_.
     and_then (sql (update_fleets (\<lambda>r. fl_id r = fleet \<and> fl_state r \<in> {''spawning'', ''running'', ''blocked_on_review''})
                      (\<lambda>r. r\<lparr>fl_state := ''merging''\<rparr>))) (\<lambda>updated.
       if updated = 0 then db_return None
       else
         and_then open_conn (\<lambda>_.
         and_then (record_fleet_event fleet ''merge_started'' (JObject [(''fleet_id'', JString fleet)])) (\<lambda>_.
         and_then (sql (\<lambda>L. (done_tasks fleet L, L))) (\<lambda>tasks.
         and_then (sql (\<lambda>L. (failed_count fleet L, L))) (\<lambda>failed. db_return (Some (tasks, failed))))))))"

definition fail_before_merge :: "string \<Rightarrow> nat \<Rightarrow> unit db" where
  "fail_before_merge fleet failed =
     and_then open_conn (\<lambda>_.
     and_then (sql (update_fleets (\<lambda>r. fl_id r = fleet \<and> fl_state r \<noteq> ''cancelled'')
        (\<lambda>r. r\<lparr>fl_state := ''failed'', fl_failure_reason := Some (show_nat failed @ '' task(s) failed before merge'')\<rparr>))) (\<lambda>_.
       record_fleet_event fleet ''fleet_failed''
         (JObject [(''fleet_id'', JString fleet), (''failed_tasks'', JNumber (show_nat failed))])))"

definition finish_fleet :: "string \<Rightarrow> string + unit \<Rightarrow> unit db" where
  "finish_fleet fleet merged =
     and_then open_conn (\<lambda>_.
       case merged of
         Inr _ \<Rightarrow>
           and_then (sql (update_fleets (\<lambda>r. fl_id r = fleet) (\<lambda>r. r\<lparr>fl_state := ''done''\<rparr>))) (\<lambda>_.
             record_fleet_event fleet ''fleet_done'' (JObject [(''fleet_id'', JString fleet)]))
       | Inl e \<Rightarrow>
           and_then (sql (update_fleets (\<lambda>r. fl_id r = fleet)
               (\<lambda>r. r\<lparr>fl_state := ''failed'', fl_failure_reason := Some e\<rparr>))) (\<lambda>_.
             record_fleet_event fleet ''fleet_failed'' (JObject [(''fleet_id'', JString fleet), (''error'', JString e)])))"

text \<open>\<open>complete_fleet\<close>, with what it asked of git.\<close>

definition complete_fleet ::
  "git_ops \<Rightarrow> bool \<Rightarrow> bool \<Rightarrow> string \<Rightarrow> ledger \<Rightarrow> (string + unit) \<times> git_log \<times> ledger"
where
  "complete_fleet git skip require_review fleet L =
     (case enter_merge fleet L of
        (Inl e, L1) \<Rightarrow> (Inl e, [], L1)
      | (Inr None, L1) \<Rightarrow> (Inr (), [], L1)
      | (Inr (Some (tasks, failed)), L1) \<Rightarrow>
          if failed > 0 then (case fail_before_merge fleet failed L1 of (r, L2) \<Rightarrow> (r, [], L2))
          else
            (case gate_tasks require_review fleet tasks (with_project_root new_coordinator, [], L1) of
               (c, blocked, L2) \<Rightarrow>
                 if blocked \<noteq> [] then
                   (case conn_state_blocked fleet
                      (ingest_fleet_event fleet ''fleet_blocked_on_review''
                         (JObject [(''fleet_id'', JString fleet), (''blocked'', JArray (map JString blocked))]) L2) of
                      (r, L3) \<Rightarrow> (r, [], L3))
                 else
                   (case merge_all git skip c L2 of
                      (merged, c', L3) \<Rightarrow>
                        (case finish_fleet fleet merged L3 of (r, L4) \<Rightarrow> (r, mc_git c', L4)))))"

definition finalize_if_all_tasks_terminal ::
  "git_ops \<Rightarrow> bool \<Rightarrow> bool \<Rightarrow> string \<Rightarrow> ledger \<Rightarrow> git_log \<times> ledger"
where
  "finalize_if_all_tasks_terminal git skip require_review fleet L =
     (case and_then open_conn (\<lambda>_. sql (\<lambda>L. (length (filter (\<lambda>t. tk_fleet t = fleet
             \<and> \<not> is_terminal_task_state (tk_state t)) (lg_tasks L)), L))) L of
        (r, L1) \<Rightarrow>
          if (case r of Inr n \<Rightarrow> n | Inl _ \<Rightarrow> 1) = 0 then
            (case complete_fleet git skip require_review fleet L1 of (_, log, L2) \<Rightarrow> (log, L2))
          else ([], L1))"

subsection \<open>What the merge phase leaves alone\<close>

text \<open>A part of the ledger that events, sessions and notes do not belong to.\<close>

definition quiet :: "(ledger \<Rightarrow> 'b) \<Rightarrow> bool" where
  "quiet g \<longleftrightarrow> (\<forall>L x. g (L\<lparr>lg_tick := x\<rparr>) = g L) \<and> (\<forall>L x. g (L\<lparr>lg_events := x\<rparr>) = g L)
     \<and> (\<forall>L x. g (L\<lparr>lg_sessions := x\<rparr>) = g L) \<and> (\<forall>L x. g (L\<lparr>lg_notes := x\<rparr>) = g L)"

lemma quiet_tables [simp]: "quiet lg_fleets" "quiet lg_tasks" "quiet lg_reviews"
  by (simp_all add: quiet_def)

lemma quiet_sql: "quiet g \<Longrightarrow> (\<And>L. g (snd (f L)) = g L) \<Longrightarrow> keeps g (sql f)"
  by (rule keeps_sql) (simp_all add: quiet_def)

lemma quiet_open [frame]: "quiet g \<Longrightarrow> keeps g open_conn"
  unfolding open_conn_def by (rule quiet_sql) simp_all

lemma quiet_ingest_event [frame]: "quiet g \<Longrightarrow> keeps g (ingest_event e)"
  unfolding ingest_event_def
  by (intro keeps_and_then quiet_sql; simp add: quiet_def insert_event_def frame split: if_split)
     (intro conjI impI quiet_sql frame; simp add: quiet_def bump_session_def)

lemma quiet_event_sequence_for [frame]: "quiet g \<Longrightarrow> keeps g (event_sequence_for s ty)"
  unfolding event_sequence_for_def by (intro keeps_and_then quiet_open quiet_sql) simp_all

lemma quiet_record_fleet_event [frame]: "quiet g \<Longrightarrow> keeps g (record_fleet_event f ty p)"
  unfolding record_fleet_event_def by (intro keeps_and_then quiet_event_sequence_for quiet_ingest_event)

lemma quiet_record_merge_event [frame]: "quiet g \<Longrightarrow> keeps g (record_merge_event c w ty p)"
  unfolding record_merge_event_def
  by (simp split: option.split)
     (intro conjI impI allI keeps_and_then keeps_return quiet_event_sequence_for quiet_ingest_event quiet_open; assumption)

lemma quiet_record_manual [frame]: "quiet g \<Longrightarrow> keeps g (record_manual t n)"
  unfolding record_manual_def by (rule quiet_sql) (simp_all add: quiet_def)

lemma quiet_ingest_tries: "quiet g \<Longrightarrow> g (ingest_tries n s ty p L) = g L"
proof (induction n arbitrary: L)
  case (Suc n)
  obtain x L1 where q: "event_sequence_for s ty L = (x, L1)" by (rule prod.exhaust)
  obtain y L2 where i: "ingest_event (fleet_event s ty p (case x of Inl _ \<Rightarrow> 1 | Inr q \<Rightarrow> q)) L1 = (y, L2)" by (rule prod.exhaust)
  from keepsD[OF quiet_event_sequence_for[OF Suc.prems] q] keepsD[OF quiet_ingest_event[OF Suc.prems] i]
    Suc.IH[OF Suc.prems] show ?case using q i by (cases y) simp_all
qed simp

lemma quiet_ingest_fleet_event [simp]: "quiet g \<Longrightarrow> g (ingest_fleet_event f ty p L) = g L"
proof -
  assume g: "quiet g"
  obtain x L1 where o: "open_conn L = (x, L1)" by (rule prod.exhaust)
  from keepsD[OF quiet_open[OF g] o] quiet_ingest_tries[OF g] show ?thesis
    using o by (cases x) (simp_all add: ingest_fleet_event_def)
qed

lemma quiet_review_check: "quiet g \<Longrightarrow> review_check skip c w L = (r, c', L') \<Longrightarrow> g L' = g L"
proof -
  assume g: "quiet g" and rc: "review_check skip c w L = (r, c', L')"
  obtain x L1 where o: "open_conn L = (x, L1)" by (rule prod.exhaust)
  have m: "g (snd (record_manual t n L1)) = g L1" for t n
    using quiet_record_manual[OF g] unfolding keeps_def by blast
  from rc o m keepsD[OF quiet_open[OF g] o] show ?thesis
    by (cases x) (auto simp: review_check_def split: if_split_asm ReviewGateState.split_asm)
qed

lemma quiet_merge_work: "quiet g \<Longrightarrow> merge_work git c w L = (r, c', L') \<Longrightarrow> g L' = g L"
proof -
  assume g: "quiet g" and mw: "merge_work git c w L = (r, c', L')"
  note k = quiet_record_merge_event[OF g]
  have k2: "keeps g (and_then (record_merge_event c1 w a b) (\<lambda>_. if p then record_merge_event c2 w d e else db_return ()))"
    for c1 a b p c2 d e
    by (cases p) (simp_all add: keeps_and_then k keeps_return)
  from mw show ?thesis unfolding merge_work_def Let_def
    by (auto split: sum.split_asm MergeResult.split_asm prod.split_asm dest: keepsD[OF k] keepsD[OF k2])
qed

lemma quiet_merge_next:
  assumes g: "quiet g" and "merge_next git skip c L = (r, c', L')"
  shows "g L' = g L"
  using assms(2) unfolding merge_next_def Let_def
  by (auto split: if_split_asm list.split_asm prod.split_asm sum.split_asm
      dest!: keepsD[OF quiet_record_merge_event[OF g]] quiet_review_check[OF g] quiet_merge_work[OF g])

lemma quiet_merge_all: "quiet g \<Longrightarrow> merge_all git skip c L = (r, c', L') \<Longrightarrow> g L' = g L"
proof (induction git skip c L rule: merge_all.induct)
  case (1 git skip c L)
  obtain x c1 L1 where n: "merge_next git skip c L = (x, c1, L1)" by (rule prod_cases3)
  note s = quiet_merge_next[OF 1(2) n]
  show ?case
  proof (cases x)
    case (Inl e)
    with 1(3) n s show ?thesis by (simp add: merge_all.simps[of git skip c L])
  next
    case (Inr o1)
    show ?thesis
    proof (cases o1)
      case None
      with 1(3) n s Inr show ?thesis by (simp add: merge_all.simps[of git skip c L])
    next
      case (Some t)
      with 1(3) n Inr have "merge_all git skip c1 L1 = (r, c', L')" by (simp add: merge_all.simps[of git skip c L])
      from 1(1)[OF n[symmetric] Inr Some refl 1(2) this] s show ?thesis by simp
    qed
  qed
qed

subsection \<open>A fleet that is done\<close>

definition task_branch :: "string \<Rightarrow> string \<Rightarrow> string" where
  "task_branch fleet task = ''fleet/'' @ fleet @ ''/'' @ task"

definition gate_open :: "bool \<Rightarrow> string \<Rightarrow> ledger \<Rightarrow> bool" where
  "gate_open require_review artifact L =
     (case review_gate_decision (Inr (artifact_rows artifact L)) require_review of Blocked _ \<Rightarrow> False | _ \<Rightarrow> True)"

definition fleet_state :: "string \<Rightarrow> ledger \<Rightarrow> string option" where
  "fleet_state fleet L = map_option fl_state (find_fleet fleet L)"

lemma quiet_reviews_for_artifact:
  assumes "quiet g" "reviews_for_artifact artifact L = (x, L')"
  shows "g L' = g L"
proof -
  have "keeps g (reviews_for_artifact artifact)"
    unfolding reviews_for_artifact_def by (intro keeps_and_then quiet_open[OF assms(1)] quiet_sql[OF assms(1)]) simp
  from keepsD[OF this assms(2)] show ?thesis .
qed

lemma reviews_for_artifact_Inr:
  assumes "reviews_for_artifact artifact L = (Inr rows, L')"
  shows "rows = artifact_rows artifact L"
proof -
  from assms obtain u L1 where "open_conn L = (Inr u, L1)" "sql (\<lambda>L. (artifact_rows artifact L, L)) L1 = (Inr rows, L')"
    unfolding reviews_for_artifact_def by (auto elim: and_then_Inr)
  with open_conn_Inr[of L u L1] sql_Inr show ?thesis by (fastforce simp: artifact_rows_def)
qed

lemma gate_task_spec:
  assumes "gate_task req fleet task (c, bl, L) = (c', bl', L')"
  shows "mc_git c' = mc_git c"
    "mc_queue c' = mc_queue c @ [\<lparr>cw_task = task, cw_branch = task_branch fleet task\<rparr>]"
    "quiet g \<Longrightarrow> g L' = g L"
    "bl' = [] \<Longrightarrow> bl = [] \<and> gate_open req (task_branch fleet task) L"
proof -
  obtain x L1 where r: "reviews_for_artifact (task_branch fleet task) L = (x, L1)" by (rule prod.exhaust)
  define d where "d = review_gate_decision x req"
  define ev where "ev = ingest_fleet_event fleet ''review_auto_approved''
                (JObject [(''task_id'', JString task), (''artifact'', JString (task_branch fleet task)),
                          (''reason'', JString ''no verdict recorded; TRIUMVIRATE_FLEET_REQUIRE_REVIEW is off'')])"
  define auto where "auto = Some AUTO_COMMENT"
  have eq: "(c', bl', L') = (let c = enqueue_completed task (task_branch fleet task) c in
        case d of
           GateApproved comment \<Rightarrow> (set_review_status task Approved comment c, bl, L1)
         | Blocked reason \<Rightarrow>
             (set_review_status task RequestChanges (Some reason) c, bl @ [task @ '' ('' @ reason @ '')''], L1)
         | AutoApproved \<Rightarrow> (set_review_status task Approved auto c, bl, ev L1))"
    unfolding assms[symmetric] gate_task_def prod.case Let_def task_branch_def[symmetric] r d_def ev_def auto_def ..
  have ev: "quiet h \<Longrightarrow> h (ev L1) = h L1" for h :: "ledger \<Rightarrow> 'a" unfolding ev_def by (rule quiet_ingest_fleet_event)
  obtain st cm where c': "c' = set_review_status task st cm (enqueue_completed task (task_branch fleet task) c)"
  proof (cases d)
    case (GateApproved x)
    then show thesis using eq that by (simp add: Let_def)
  next
    case (Blocked x)
    then show thesis using eq that by (simp add: Let_def)
  next
    case AutoApproved
    then show thesis using eq that by (simp add: Let_def)
  qed
  show "mc_git c' = mc_git c" "mc_queue c' = mc_queue c @ [\<lparr>cw_task = task, cw_branch = task_branch fleet task\<rparr>]"
    unfolding c' by (simp_all add: enqueue_completed_def set_review_status_def)
  show "g L' = g L" if "quiet g"
  proof -
    have "g L1 = g L" using quiet_reviews_for_artifact[OF that r] .
    with eq ev[OF that] show ?thesis by (cases d) (simp_all add: Let_def)
  qed
  show "bl = [] \<and> gate_open req (task_branch fleet task) L" if "bl' = []"
  proof -
    have nb: "\<forall>e. d \<noteq> Blocked e" and bl: "bl = []" using eq that by (cases d; simp)+
    then obtain rows where rows: "x = Inr rows" by (cases x) (auto simp: d_def review_gate_decision_def)
    with reviews_for_artifact_Inr r have "x = Inr (artifact_rows (task_branch fleet task) L)" by simp
    with nb bl show ?thesis by (cases d) (simp_all add: gate_open_def d_def)
  qed
qed

lemma gate_open_cong: "lg_reviews L = lg_reviews L' \<Longrightarrow> gate_open req a L = gate_open req a L'"
  by (simp add: gate_open_def artifact_rows_def)

lemma gate_tasks_spec:
  assumes "gate_tasks req fleet ts (c, bl, L) = (c', bl', L')"
  shows "mc_git c' = mc_git c
       \<and> mc_queue c' = mc_queue c @ map (\<lambda>t. \<lparr>cw_task = t, cw_branch = task_branch fleet t\<rparr>) ts
       \<and> lg_fleets L' = lg_fleets L \<and> lg_reviews L' = lg_reviews L \<and> lg_tasks L' = lg_tasks L
       \<and> (bl' = [] \<longrightarrow> bl = [] \<and> list_all (\<lambda>t. gate_open req (task_branch fleet t) L) ts)"
  using assms
proof (induction ts arbitrary: c bl L)
  case Nil
  then show ?case by (simp add: gate_tasks_def)
next
  case (Cons t ts)
  obtain c1 bl1 L1 where g: "gate_task req fleet t (c, bl, L) = (c1, bl1, L1)" by (rule prod_cases3)
  have rest: "gate_tasks req fleet ts (c1, bl1, L1) = (c', bl', L')" using Cons.prems g by (simp add: gate_tasks_def)
  note sp = gate_task_spec[OF g]
  have same: "lg_fleets L1 = lg_fleets L" "lg_reviews L1 = lg_reviews L" "lg_tasks L1 = lg_tasks L"
    by (simp_all add: sp(3))
  from Cons.IH[OF rest] sp(1,2,4) same gate_open_cong[OF same(2)] show ?case by simp
qed

lemma fleet_state_tick [simp]: "fleet_state fleet (L\<lparr>lg_tick := n\<rparr>) = fleet_state fleet L"
  by (simp add: fleet_state_def find_fleet_def)

lemma fleet_state_cong: "lg_fleets L = lg_fleets L' \<Longrightarrow> fleet_state fleet L = fleet_state fleet L'"
  by (simp add: fleet_state_def find_fleet_def)

lemma fleet_state_update:
  assumes "\<And>r. fl_id (f r) = fl_id r" "\<And>r. fl_state (f r) \<noteq> ''done''" "fleet_state fleet L \<noteq> Some ''done''"
  shows "fleet_state fleet (snd (update_fleets p f L)) \<noteq> Some ''done''"
  using assms by (auto simp: fleet_state_def find_fleet_def update_fleets_def find_map_same)

text \<open>Not done yet, with the tasks and reviews of \<open>L0\<close>.\<close>

definition undone :: "string \<Rightarrow> ledger \<Rightarrow> ledger \<Rightarrow> bool" where
  "undone fleet L0 L \<longleftrightarrow> fleet_state fleet L \<noteq> Some ''done'' \<and> lg_tasks L = lg_tasks L0 \<and> lg_reviews L = lg_reviews L0"

lemma undone_tick [simp]: "undone fleet L0 (L\<lparr>lg_tick := n\<rparr>) = undone fleet L0 L"
  by (simp add: undone_def)

lemma undone_update:
  assumes "\<And>r. fl_id (f r) = fl_id r" "\<And>r. fl_state (f r) \<noteq> ''done''" "undone fleet L0 L"
  shows "undone fleet L0 (snd (update_fleets p f L))"
  using fleet_state_update[OF assms(1,2)] assms(3) by (simp add: undone_def) (simp add: update_fleets_def)

lemma undone_keeps:
  assumes "keeps lg_fleets m" "keeps lg_tasks m" "keeps lg_reviews m"
  shows "valid (undone fleet L0) (undone fleet L0) m (\<lambda>_. undone fleet L0)"
proof -
  have "undone fleet L0 L'" if "undone fleet L0 L" "m L = (r, L')" for L r L'
    using that(1) keepsD[OF assms(1) that(2)] keepsD[OF assms(2) that(2)] keepsD[OF assms(3) that(2)]
      fleet_state_cong[of L' L fleet]
    by (simp add: undone_def)
  then show ?thesis unfolding valid_def by (auto split: prod.split sum.split)
qed

lemma undone_set:
  assumes "\<And>r. fl_id (f r) = fl_id r" "\<And>r. fl_state (f r) \<noteq> ''done''"
  shows "valid (undone fleet L0) (undone fleet L0) (sql (update_fleets p f)) (\<lambda>_. undone fleet L0)"
  by (rule valid_sql) (use undone_update[OF assms] in simp_all)

lemma undone_open: "valid (undone fleet L0) (undone fleet L0) open_conn (\<lambda>_. undone fleet L0)"
  by (intro undone_keeps quiet_open quiet_tables)

lemma undone_event: "valid (undone fleet L0) (undone fleet L0) (record_fleet_event f ty p) (\<lambda>_. undone fleet L0)"
  by (intro undone_keeps quiet_record_fleet_event quiet_tables)

lemma enter_merge_undone:
  "valid (undone fleet L0) (undone fleet L0) (enter_merge fleet)
     (\<lambda>x L. undone fleet L0 L \<and> (case x of None \<Rightarrow> True
        | Some (ts, n) \<Rightarrow> ts = done_tasks fleet L0 \<and> n = failed_count fleet L0))"
proof -
  have u: "valid (undone fleet L0) (undone fleet L0)
      (sql (update_fleets p (\<lambda>r. r\<lparr>fl_state := ''merging''\<rparr>))) (\<lambda>_. undone fleet L0)" for p
    by (rule undone_set) simp_all
  have d: "valid (undone fleet L0) (undone fleet L0) (sql (\<lambda>L. (done_tasks fleet L, L)))
      (\<lambda>ts L. undone fleet L0 L \<and> ts = done_tasks fleet L0)"
    by (rule valid_sql) (simp_all add: undone_def done_tasks_def)
  have f: "valid (undone fleet L0) (\<lambda>L. undone fleet L0 L \<and> ts = done_tasks fleet L0) (sql (\<lambda>L. (failed_count fleet L, L)))
      (\<lambda>n L. undone fleet L0 L \<and> ts = done_tasks fleet L0 \<and> n = failed_count fleet L0)" for ts
    by (rule valid_sql) (simp_all add: undone_def failed_count_def)
  show ?thesis
    unfolding enter_merge_def
    apply (rule valid_and_then[OF undone_open])
    apply (rule valid_and_then[OF u])
    subgoal for _ updated
      apply (cases "updated = 0")
       apply (simp add: valid_return)
      apply (simp only: if_False)
      apply (rule valid_and_then[OF undone_open])
      apply (rule valid_and_then[OF undone_event])
      apply (rule valid_and_then[OF d])
      apply (rule valid_and_then[OF f])
      apply (rule valid_return)
      apply simp
      done
    done
qed

lemma fail_before_merge_undone:
  "valid (undone fleet L0) (undone fleet L0) (fail_before_merge fleet n) (\<lambda>_. undone fleet L0)"
  unfolding fail_before_merge_def
  by (rule valid_and_then[OF undone_open], rule valid_and_then[OF undone_set]) (simp_all add: undone_event)

lemma conn_state_blocked_undone:
  "valid (undone fleet L0) (undone fleet L0) (conn_state_blocked f) (\<lambda>_. undone fleet L0)"
  unfolding conn_state_blocked_def
  by (rule valid_and_then[OF undone_open], rule valid_and_then[OF undone_set]) (simp_all add: valid_return)

lemma finish_fleet_undone:
  "valid (undone fleet L0) (undone fleet L0) (finish_fleet f (Inl e)) (\<lambda>_. undone fleet L0)"
  unfolding finish_fleet_def sum.case
  by (rule valid_and_then[OF undone_open], rule valid_and_then[OF undone_set]) (simp_all add: undone_event)

lemma undone_same: "undone fleet L0 L \<Longrightarrow> lg_fleets L' = lg_fleets L \<Longrightarrow> lg_tasks L' = lg_tasks L \<Longrightarrow>
   lg_reviews L' = lg_reviews L \<Longrightarrow> undone fleet L0 L'"
  using fleet_state_cong[of L' L fleet] by (simp add: undone_def)

lemma validE: "valid I P m (\<lambda>_. I) \<Longrightarrow> P L \<Longrightarrow> m L = (r, L') \<Longrightarrow> I L'"
  using validD by (fastforce split: sum.split_asm)

text \<open>How far the completion of a fleet got.\<close>

lemma complete_fleet_cases:
  assumes "complete_fleet git skip req fleet L = (r, log, L')" "fleet_state fleet L \<noteq> Some ''done''"
  obtains (stopped) "fleet_state fleet L' \<noteq> Some ''done''"
  | (merged) c L2 c' L3 where
      "failed_count fleet L = 0" "list_all (\<lambda>t. gate_open req (task_branch fleet t) L) (done_tasks fleet L)"
      "mc_git c = []" "mc_queue c = map (\<lambda>t. \<lparr>cw_task = t, cw_branch = task_branch fleet t\<rparr>) (done_tasks fleet L)"
      "merge_all git skip c L2 = (Inr (), c', L3)" "log = mc_git c'"
proof -
  have und: "undone fleet L L" using assms(2) by (simp add: undone_def)
  have out: "undone fleet L L' \<Longrightarrow> thesis" using stopped by (simp add: undone_def)
  obtain x L1 where em: "enter_merge fleet L = (x, L1)" by (rule prod.exhaust)
  note v = validD[OF enter_merge_undone und em]
  note eqs = assms(1)[unfolded complete_fleet_def em prod.case]
  show thesis
  proof (cases x)
    case (Inl e)
    with eqs v show thesis by (intro out) auto
  next
    case (Inr o1)
    show thesis
    proof (cases o1)
      case None
      with eqs v Inr show thesis by (intro out) auto
    next
      case (Some tn)
      obtain ts n where tn: "tn = (ts, n)" by (rule prod.exhaust)
      have u1: "undone fleet L L1" and ts: "ts = done_tasks fleet L" and n: "n = failed_count fleet L"
        using v Inr Some tn by auto
      show thesis
      proof (cases "n > 0")
        case True
        obtain y L2 where f: "fail_before_merge fleet n L1 = (y, L2)" by (rule prod.exhaust)
        with eqs True Inr Some tn have "L' = L2" by simp
        with validE[OF fail_before_merge_undone u1 f] show thesis by (intro out) simp
      next
        case nf: False
        obtain c bl L2 where g: "gate_tasks req fleet ts (with_project_root new_coordinator, [], L1) = (c, bl, L2)"
          by (rule prod_cases3)
        note gs = gate_tasks_spec[OF g]
        have u2: "undone fleet L L2" using undone_same[OF u1] gs by blast
        show thesis
        proof (cases "bl = []")
          case False
          define pl where "pl = JObject [(''fleet_id'', JString fleet), (''blocked'', JArray (map JString bl))]"
          obtain y L3 where b: "conn_state_blocked fleet (ingest_fleet_event fleet ''fleet_blocked_on_review'' pl L2) = (y, L3)"
            by (rule prod.exhaust)
          with eqs nf Inr Some tn g False have "L' = L3" by (simp add: pl_def)
          moreover have "undone fleet L (ingest_fleet_event fleet ''fleet_blocked_on_review'' pl L2)"
            by (rule undone_same[OF u2]) simp_all
          ultimately show thesis using validE[OF conn_state_blocked_undone _ b] by (intro out) simp
        next
          case True
          obtain m c' L3 where ma: "merge_all git skip c L2 = (m, c', L3)" by (rule prod_cases3)
          obtain y L4 where ff: "finish_fleet fleet m L3 = (y, L4)" by (rule prod.exhaust)
          have res: "log = mc_git c'" "L' = L4" using eqs nf Inr Some tn g True ma ff by simp_all
          show thesis
          proof (cases m)
            case (Inl e)
            have "undone fleet L L3"
              by (rule undone_same[OF u2]; rule quiet_merge_all[OF _ ma]; simp)
            with validE[OF finish_fleet_undone _ ff[unfolded Inl]] res show thesis by (intro out) simp
          next
            case (Inr u)
            have op: "list_all (\<lambda>t. gate_open req (task_branch fleet t) L) (done_tasks fleet L)"
              using gs True ts gate_open_cong[of L1 L] u1 by (simp add: undone_def)
            show thesis
              by (rule merged[of c L2 c' L3])
                 (use op n nf gs ts ma res Inr in \<open>simp_all add: with_project_root_def new_coordinator_def\<close>)
          qed
        qed
      qed
    qed
  qed
qed

text \<open>C11: a fleet becomes done only when none of its tasks had failed, no task was refused by its review, and git merged
  the branch of every completed task cleanly, in the order of the task identifiers and nothing else.\<close>

theorem fleet_done_means_merged:
  assumes "complete_fleet git skip req fleet L = (r, log, L')"
    and "fleet_state fleet L \<noteq> Some ''done''" and "fleet_state fleet L' = Some ''done''"
  shows "log = map (\<lambda>t. (task_branch fleet t, Inr Success)) (done_tasks fleet L) \<and> failed_count fleet L = 0
       \<and> list_all (\<lambda>t. gate_open req (task_branch fleet t) L) (done_tasks fleet L)"
  using assms(1,2)
proof (cases rule: complete_fleet_cases)
  case stopped
  with assms(3) show ?thesis by simp
next
  case (merged c L2 c' L3)
  from merge_all_log[OF merged(5)] merged(3) obtain log' where
      "mc_git c' = log'" "map fst log' = map cw_branch (mc_queue c)" "list_all (\<lambda>(b, a). a = Inr Success) log'"
    by auto
  then have "log = map (\<lambda>t. (task_branch fleet t, Inr Success)) (done_tasks fleet L)"
    using merged(4,6) by (auto intro!: nth_equalityI simp: list_all_length list_eq_iff_nth_eq prod_eq_iff split_beta)
  with merged(1,2) show ?thesis by simp
qed

definition demo_merge :: ledger where
  "demo_merge = (demo_fleet [''t''])\<lparr>lg_tasks := [(demo_task ''t'')\<lparr>tk_state := ''done''\<rparr>],
     lg_fleets := [\<lparr>fl_id = ''f'', fl_description = [], fl_state = ''running'', fl_failure_reason = None\<rparr>]\<rparr>"

definition demo_completion :: "(string + unit) \<times> git_log \<times> ledger" where
  "demo_completion = complete_fleet (\<lambda>_ _. Inr Success) False False ''f'' demo_merge"

lemma demo_completion_done:
  "fleet_state ''f'' demo_merge = Some ''running''" "fleet_state ''f'' (snd (snd demo_completion)) = Some ''done''"
  by code_simp+

theorem fleet_done_means_merged_witness:
  "fst (snd demo_completion) = [(''fleet/f/t'', Inr Success)]"
proof -
  obtain r log L' where d: "complete_fleet (\<lambda>_ _. Inr Success) False False ''f'' demo_merge = (r, log, L')" by (rule prod_cases3)
  then have "fleet_state ''f'' L' = Some ''done''" using demo_completion_done(2) by (simp add: demo_completion_def)
  moreover have "fleet_state ''f'' demo_merge \<noteq> Some ''done''" using demo_completion_done(1) by simp
  ultimately have "log = map (\<lambda>t. (task_branch ''f'' t, Inr Success)) (done_tasks ''f'' demo_merge)"
    using fleet_done_means_merged[OF d] by blast
  moreover have "done_tasks ''f'' demo_merge = [''t'']" by code_simp
  ultimately show ?thesis using d by (simp add: demo_completion_def task_branch_def)
qed

text \<open>The end of the queue and the completion both record the end of the fleet: twice for every merged fleet.\<close>

lemma fleet_done_is_recorded_twice:
  "map ev_sequence (filter (\<lambda>e. ev_type e = ''fleet_done'') (lg_events (snd (snd demo_completion)))) = [1, 2]"
  by code_simp

text \<open>The last statement of the completion is unconditional: a cancellation during the merges is overwritten.\<close>

lemma completion_overwrites_a_cancellation:
  "fleet_state ''f'' (snd (finish_fleet ''f'' (Inr ()) (snd (mark_fleet_cancelled ''f'' ''operator'' demo_merge)))) = Some ''done''"
  by code_simp

text \<open>A review answered with concerns by anyone at all lets the task merge.\<close>

lemma concerns_open_the_gate:
  "review_gate_decision (Inr [demo_row\<lparr>rv_state := ''done'', rv_verdict := Some ''concerns''\<rparr>]) True = GateApproved None"
  by code_simp

lemma forged_concerns_merge:
  "fst (submit_review 2 ''review-1'' ''concerns'' None (Agent ''mallory'') demo_ledger) = Inr None
   \<and> gate_open True ''fleet/f/t'' (snd (submit_review 2 ''review-1'' ''concerns'' None (Agent ''mallory'') demo_ledger))"
  by code_simp

end
