(* ===== verification/Worker_Token.thy ===== *)
theory Worker_Token
  imports Rust_Text
begin

text \<open>
  Launch tokens (\<open>fleet/src/worker_token.rs\<close>) and the stopping of workers (\<open>stop_fleet_workers\<close> of
  \<open>fleet/src/orchestrator.rs\<close>). The operating system is a view \<open>T\<close>: what every system call would answer at each
  tick. A call takes one tick; the state of a run is the tick, the number of sleeps and the signals that were sent. The
  clock is an arbitrary non-decreasing reading plus fifty milliseconds for every sleep of the polling loop.

  Shown here: no signal ever goes to a process that the token does not name, a signal is only sent right after the
  operating system confirmed the process, and every stop comes to an end.
\<close>

subsection \<open>The operating system\<close>

record ProcInfo =
  pi_start_time_us :: nat
  pi_pgid :: nat

text \<open>The Linux answer for a process: \<open>/proc/PID/stat\<close>, read after the last closing parenthesis, since the command name
  may contain anything. The outer \<open>None\<close> is the panic of a slice that starts after the end.\<close>

definition rfind_char :: "char \<Rightarrow> string \<Rightarrow> nat option" where
  "rfind_char c s = (if c \<in> set s then Some (length s - 1 - length (takeWhile (\<lambda>x. x \<noteq> c) (rev s))) else None)"

definition stat_fields :: "nat \<Rightarrow> string list \<Rightarrow> ProcInfo option" where
  "stat_fields hz cols =
     (if cols \<noteq> [] \<and> hd cols = ''Z'' then None
      else if length cols \<le> 19 then None
      else (case parse_uint 64 (cols ! 19) of
          None \<Rightarrow> None
        | Some ticks \<Rightarrow>
            if hz = 0 then None
            else (case parse_uint 32 (cols ! 2) of
                None \<Rightarrow> None
              | Some g \<Rightarrow> Some \<lparr>pi_start_time_us = (ticks * 1000000) mod 2 ^ 64 div hz, pi_pgid = g\<rparr>)))"

definition stat_info :: "nat \<Rightarrow> string \<Rightarrow> ProcInfo option option" where
  "stat_info hz stat =
     (case rfind_char CHR '')'' stat of
        None \<Rightarrow> Some None
      | Some i \<Rightarrow> if i + 2 > length stat then None else Some (stat_fields hz (split_whitespace (drop (i + 2) stat))))"

text \<open>\<open>ov_proc\<close> is what the process query answers at a tick: \<open>stat_info\<close> of the file there, nothing when there is none.\<close>

record os_view =
  ov_proc :: "nat \<Rightarrow> nat \<Rightarrow> ProcInfo option"
  ov_probe :: "nat \<Rightarrow> int \<Rightarrow> nat option"
  ov_kill :: "nat \<Rightarrow> nat option"
  ov_clock :: "nat \<Rightarrow> nat"
  ov_self :: nat

record os_run =
  os_tick :: nat
  os_slept :: nat
  os_sent :: "(nat \<times> int \<times> nat) list"

definition ESRCH :: nat where
  "ESRCH = 3"

definition EPERM :: nat where
  "EPERM = 1"

definition SIGTERM :: nat where
  "SIGTERM = 15"

definition SIGKILL :: nat where
  "SIGKILL = 9"

definition advance :: "os_run \<Rightarrow> os_run" where
  "advance W = W\<lparr>os_tick := os_tick W + 1\<rparr>"

definition proc_info :: "os_view \<Rightarrow> nat \<Rightarrow> os_run \<Rightarrow> ProcInfo option \<times> os_run" where
  "proc_info T pid W = (ov_proc T (os_tick W) pid, advance W)"

text \<open>Milliseconds.\<close>

definition now :: "os_view \<Rightarrow> os_run \<Rightarrow> nat \<times> os_run" where
  "now T W = (ov_clock T (os_tick W) + 50 * os_slept W, advance W)"

definition sleep50 :: "os_run \<Rightarrow> os_run" where
  "sleep50 W = W\<lparr>os_slept := os_slept W + 1\<rparr>"

text \<open>\<open>-(pgid as i32)\<close>: a cast to 32 bits and a negation.\<close>

definition group_arg :: "nat \<Rightarrow> int" where
  "group_arg pgid = - (if pgid < 2147483648 then int pgid else int pgid - 4294967296)"

definition kill :: "os_view \<Rightarrow> int \<Rightarrow> nat \<Rightarrow> os_run \<Rightarrow> nat option \<times> os_run" where
  "kill T target sig W =
     (ov_kill T (os_tick W), (advance W)\<lparr>os_sent := os_sent W @ [(os_tick W, target, sig)]\<rparr>)"

definition signal_group :: "os_view \<Rightarrow> nat \<Rightarrow> nat \<Rightarrow> os_run \<Rightarrow> (string + unit) \<times> os_run" where
  "signal_group T pgid sig W =
     (if pgid \<le> 1 then (Inl (''refusing to signal process group '' @ show_nat pgid), W)
      else case kill T (group_arg pgid) sig W of
          (None, W') \<Rightarrow> (Inr (), W')
        | (Some e, W') \<Rightarrow>
            if e = ESRCH then (Inr (), W')
            else (Inl (''kill(-'' @ show_nat pgid @ '', '' @ show_nat sig @ '') failed: '' @ show_nat e), W'))"

definition signal_pid :: "os_view \<Rightarrow> nat \<Rightarrow> nat \<Rightarrow> os_run \<Rightarrow> (string + unit) \<times> os_run" where
  "signal_pid T pid sig W =
     (if pid \<le> 1 then (Inl (''refusing to signal pid '' @ show_nat pid), W)
      else case kill T (- group_arg pid) sig W of
          (None, W') \<Rightarrow> (Inr (), W')
        | (Some e, W') \<Rightarrow>
            if e = ESRCH then (Inr (), W')
            else (Inl (''kill('' @ show_nat pid @ '', '' @ show_nat sig @ '') failed: '' @ show_nat e), W'))"

subsection \<open>Tokens\<close>

record ProcessIdentity =
  id_pid :: nat
  id_start_time_us :: nat

record WorkerToken =
  wt_pid :: nat
  wt_pgid :: nat
  wt_start_time_us :: nat
  wt_fleet_id :: string
  wt_task_id :: string
  wt_agent :: string
  wt_owner :: ProcessIdentity

definition current_identity :: "os_view \<Rightarrow> os_run \<Rightarrow> ProcessIdentity option \<times> os_run" where
  "current_identity T W =
     (case proc_info T (ov_self T) W of
        (i, W') \<Rightarrow> (map_option (\<lambda>i. \<lparr>id_pid = ov_self T, id_start_time_us = pi_start_time_us i\<rparr>) i, W'))"

definition is_alive :: "os_view \<Rightarrow> ProcessIdentity \<Rightarrow> os_run \<Rightarrow> bool \<times> os_run" where
  "is_alive T p W =
     (case proc_info T (id_pid p) W of
        (i, W') \<Rightarrow> (case i of Some i \<Rightarrow> pi_start_time_us i = id_start_time_us p | None \<Rightarrow> False, W'))"

definition for_spawned_child ::
  "os_view \<Rightarrow> nat \<Rightarrow> string \<Rightarrow> string \<Rightarrow> string \<Rightarrow> os_run \<Rightarrow> WorkerToken option \<times> os_run"
where
  "for_spawned_child T pid fleet task agent W =
     (case proc_info T pid W of
        (None, W1) \<Rightarrow> (None, W1)
      | (Some i, W1) \<Rightarrow>
          if pi_pgid i \<noteq> pid then (None, W1)
          else (case current_identity T W1 of
              (None, W2) \<Rightarrow> (None, W2)
            | (Some me, W2) \<Rightarrow>
                (Some \<lparr>wt_pid = pid, wt_pgid = pi_pgid i, wt_start_time_us = pi_start_time_us i, wt_fleet_id = fleet,
                       wt_task_id = task, wt_agent = agent, wt_owner = me\<rparr>, W2)))"

datatype Verification = Live | Gone | Reused string | Refused string

definition verify :: "os_view \<Rightarrow> WorkerToken \<Rightarrow> os_run \<Rightarrow> Verification \<times> os_run" where
  "verify T t W =
     (if wt_pgid t \<noteq> wt_pid t then
        (Refused (''token names group '' @ show_nat (wt_pgid t) @ '' for pid '' @ show_nat (wt_pid t)
                    @ '': a worker always leads its own group''), W)
      else case proc_info T (wt_pid t) W of
          (None, W') \<Rightarrow> (Gone, W')
        | (Some i, W') \<Rightarrow>
            if pi_start_time_us i \<noteq> wt_start_time_us t then
              (Reused (''pid '' @ show_nat (wt_pid t) @ '' start time is '' @ show_nat (pi_start_time_us i)
                         @ '' but the token says '' @ show_nat (wt_start_time_us t) @ '': the pid was reused''), W')
            else if pi_pgid i \<noteq> wt_pgid t then
              (Refused (''pid '' @ show_nat (wt_pid t) @ '' is still our worker but moved to process group ''
                          @ show_nat (pi_pgid i) @ '' (token says '' @ show_nat (wt_pgid t) @ '')''), W')
            else (Live, W'))"

definition signal_verified :: "os_view \<Rightarrow> WorkerToken \<Rightarrow> nat \<Rightarrow> os_run \<Rightarrow> (string + bool) \<times> os_run" where
  "signal_verified T t sig W =
     (case verify T t W of
        (Gone, W1) \<Rightarrow> (Inr False, W1)
      | (Reused why, W1) \<Rightarrow> (Inl (''refused to signal '' @ show_nat (wt_pid t) @ '': '' @ why), W1)
      | (Refused why, W1) \<Rightarrow> (Inl (''refused to signal '' @ show_nat (wt_pid t) @ '': '' @ why), W1)
      | (Live, W1) \<Rightarrow> (case signal_group T (wt_pgid t) sig W1 of (r, W2) \<Rightarrow> (map_sum (\<lambda>e. e) (\<lambda>_. True) r, W2)))"

definition probe :: "os_view \<Rightarrow> nat \<Rightarrow> os_run \<Rightarrow> bool \<times> os_run" where
  "probe T pgid W =
     (case ov_probe T (os_tick W) (group_arg pgid) of None \<Rightarrow> True | Some e \<Rightarrow> e = EPERM, advance W)"

definition group_exists :: "os_view \<Rightarrow> WorkerToken \<Rightarrow> os_run \<Rightarrow> bool \<times> os_run" where
  "group_exists T t W =
     (case verify T t W of (v, W1) \<Rightarrow> if v = Live then (True, W1) else probe T (wt_pgid t) W1)"

subsection \<open>Stopping a worker\<close>

text \<open>The polling loop, with the number of rounds as fuel; \<open>None\<close> when it runs out.\<close>

fun wait_loop :: "os_view \<Rightarrow> (os_run \<Rightarrow> bool \<times> os_run) \<Rightarrow> nat \<Rightarrow> nat \<Rightarrow> os_run \<Rightarrow> bool option \<times> os_run" where
  "wait_loop T finished deadline 0 W = (None, W)"
| "wait_loop T finished deadline (Suc n) W =
     (case finished W of
        (True, W1) \<Rightarrow> (Some True, W1)
      | (False, W1) \<Rightarrow>
          (case now T W1 of (t, W2) \<Rightarrow>
             if t \<ge> deadline then (Some False, W2) else wait_loop T finished deadline n (sleep50 W2)))"

definition rounds :: "nat \<Rightarrow> nat" where
  "rounds limit = limit div 50 + 2"

definition wait_until :: "os_view \<Rightarrow> nat \<Rightarrow> (os_run \<Rightarrow> bool \<times> os_run) \<Rightarrow> os_run \<Rightarrow> bool option \<times> os_run" where
  "wait_until T limit finished W =
     (case now T W of (t, W1) \<Rightarrow> wait_loop T finished (t + limit) (rounds limit) W1)"

definition group_gone :: "os_view \<Rightarrow> WorkerToken \<Rightarrow> os_run \<Rightarrow> bool \<times> os_run" where
  "group_gone T t W = (case group_exists T t W of (b, W') \<Rightarrow> (\<not> b, W'))"

datatype TerminateOutcome = AlreadyGone | Terminated | Killed

text \<open>The second half of \<open>terminate\<close>: the group outlived its grace.\<close>

definition escalate :: "os_view \<Rightarrow> WorkerToken \<Rightarrow> os_run \<Rightarrow> (string + TerminateOutcome) option \<times> os_run" where
  "escalate T t W =
     (case verify T t W of
        (v, W1) \<Rightarrow>
          (case (if v \<noteq> Gone then (case signal_verified T t SIGKILL W1 of (r, W2) \<Rightarrow> (map_sum (\<lambda>e. e) (\<lambda>_. ()) r, W2))
                 else signal_group T (wt_pgid t) SIGKILL W1) of
             (Inl e, W2) \<Rightarrow> (Some (Inl e), W2)
           | (Inr _, W2) \<Rightarrow>
               (case wait_until T 5000 (group_gone T t) W2 of
                  (Some True, W3) \<Rightarrow> (Some (Inr Killed), W3)
                | (Some False, W3) \<Rightarrow>
                    (Some (Inl (''process group '' @ show_nat (wt_pgid t) @ '' still exists 5s after SIGKILL'')), W3)
                | (None, W3) \<Rightarrow> (None, W3))))"

definition terminate :: "os_view \<Rightarrow> WorkerToken \<Rightarrow> nat \<Rightarrow> os_run \<Rightarrow> (string + TerminateOutcome) option \<times> os_run" where
  "terminate T t grace W =
     (case signal_verified T t SIGTERM W of
        (Inl e, W1) \<Rightarrow> (Some (Inl e), W1)
      | (Inr False, W1) \<Rightarrow> (Some (Inr AlreadyGone), W1)
      | (Inr True, W1) \<Rightarrow>
          (case wait_until T grace (group_gone T t) W1 of
             (Some True, W2) \<Rightarrow> (Some (Inr Terminated), W2)
           | (Some False, W2) \<Rightarrow> escalate T t W2
           | (None, W2) \<Rightarrow> (None, W2)))"

subsection \<open>Every stop ends\<close>

lemma tick_mono:
  "os_tick (snd (proc_info T p W)) = os_tick W + 1" "os_slept (snd (proc_info T p W)) = os_slept W"
  "os_tick (snd (probe T g W)) = os_tick W + 1" "os_slept (snd (probe T g W)) = os_slept W"
  by (simp_all add: proc_info_def probe_def advance_def)

text \<open>A check of the loop that neither sleeps nor turns time back.\<close>

definition steady :: "(os_run \<Rightarrow> bool \<times> os_run) \<Rightarrow> bool" where
  "steady f \<longleftrightarrow> (\<forall>W. os_tick W \<le> os_tick (snd (f W)) \<and> os_slept (snd (f W)) = os_slept W)"

lemma steady_group_gone: "steady (group_gone T t)"
  by (auto simp: steady_def group_gone_def group_exists_def verify_def proc_info_def probe_def advance_def split: option.split prod.split if_split)

lemma wait_loop_returns:
  assumes "steady f" "mono (ov_clock T)"
  shows "deadline \<le> ov_clock T (os_tick W) + 50 * os_slept W + 50 * n \<Longrightarrow> fst (wait_loop T f deadline (Suc n) W) \<noteq> None"
proof (induction n arbitrary: W)
  case (0 W)
  obtain b W1 where f: "f W = (b, W1)" by (rule prod.exhaust)
  have W1: "os_tick W \<le> os_tick W1" "os_slept W1 = os_slept W"
    using assms(1) f by (auto simp: steady_def dest: spec[of _ W])
  with 0 monoD[OF assms(2) W1(1)] show ?case using f by (cases b) (simp_all add: now_def)
next
  case (Suc n W)
  obtain b W1 where f: "f W = (b, W1)" by (rule prod.exhaust)
  have W1: "os_tick W \<le> os_tick W1" "os_slept W1 = os_slept W"
    using assms(1) f by (auto simp: steady_def dest: spec[of _ W])
  define W3 where "W3 = sleep50 (snd (now T W1))"
  have "ov_clock T (os_tick W) \<le> ov_clock T (os_tick W3)" "os_slept W3 = os_slept W + 1"
    using monoD[OF assms(2), of "os_tick W" "os_tick W1 + 1"] W1 by (simp_all add: W3_def sleep50_def now_def advance_def)
  then have "fst (wait_loop T f deadline (Suc n) W3) \<noteq> None"
    by (intro Suc.IH) (use Suc.prems in simp)
  then show ?case using f by (cases b) (auto simp: now_def W3_def)
qed

lemma wait_until_returns: "steady f \<Longrightarrow> mono (ov_clock T) \<Longrightarrow> fst (wait_until T limit f W) \<noteq> None"
proof -
  assume f: "steady f" and m: "mono (ov_clock T)"
  have "limit \<le> 50 * (limit div 50 + 1)" by presburger
  moreover have "ov_clock T (os_tick W) \<le> ov_clock T (os_tick W + 1)" using monoD[OF m] by simp
  ultimately show ?thesis
    using wait_loop_returns[OF f m, of "ov_clock T (os_tick W) + 50 * os_slept W + limit" "advance W" "limit div 50 + 1"]
    by (simp add: wait_until_def rounds_def now_def advance_def)
qed

text \<open>Stopping a worker always comes to an end, whatever the operating system answers, as long as its clock does
  not run backwards: at most one round of polling per fifty milliseconds of the grace and of the five seconds after
  the kill.\<close>

theorem terminate_returns:
  assumes "mono (ov_clock T)"
  shows "fst (terminate T t grace W) \<noteq> None"
proof -
  have w: "fst (wait_until T l (group_gone T t) W) \<noteq> None" for l W
    by (rule wait_until_returns[OF steady_group_gone assms])
  have "fst (escalate T t W) \<noteq> None" for W
    using w by (auto simp: escalate_def split: prod.split sum.split option.split bool.split) (metis fst_conv option.distinct(1))+
  with w show ?thesis
    by (auto simp: terminate_def split: prod.split sum.split option.split bool.split) (metis fst_conv option.distinct(1))+
qed

definition quiet_os :: os_view where
  "quiet_os = \<lparr>ov_proc = (\<lambda>_ _. None), ov_probe = (\<lambda>_ _. Some ESRCH), ov_kill = (\<lambda>_. None), ov_clock = (\<lambda>k. k), ov_self = 1\<rparr>"

definition some_token :: WorkerToken where
  "some_token = \<lparr>wt_pid = 42, wt_pgid = 42, wt_start_time_us = 7, wt_fleet_id = ''f'', wt_task_id = ''t'', wt_agent = ''codex'',
     wt_owner = \<lparr>id_pid = 1, id_start_time_us = 1\<rparr>\<rparr>"

theorem terminate_returns_witness:
  "fst (terminate quiet_os some_token 5000 \<lparr>os_tick = 0, os_slept = 0, os_sent = []\<rparr>) = Some (Inr AlreadyGone)
   \<and> fst (terminate quiet_os some_token 5000 \<lparr>os_tick = 0, os_slept = 0, os_sent = []\<rparr>) \<noteq> None"
proof
  show "fst (terminate quiet_os some_token 5000 \<lparr>os_tick = 0, os_slept = 0, os_sent = []\<rparr>) = Some (Inr AlreadyGone)"
    by (simp add: terminate_def signal_verified_def verify_def quiet_os_def some_token_def proc_info_def)
  show "fst (terminate quiet_os some_token 5000 \<lparr>os_tick = 0, os_slept = 0, os_sent = []\<rparr>) \<noteq> None"
    by (rule terminate_returns) (simp add: quiet_os_def mono_def)
qed

subsection \<open>Signals\<close>

text \<open>What the operating system said of the process of a token at a tick.\<close>

definition confirmed :: "os_view \<Rightarrow> WorkerToken \<Rightarrow> nat \<Rightarrow> bool" where
  "confirmed T t k \<longleftrightarrow> wt_pgid t = wt_pid t \<and>
     (case ov_proc T k (wt_pid t) of Some i \<Rightarrow> pi_start_time_us i = wt_start_time_us t \<and> pi_pgid i = wt_pgid t | None \<Rightarrow> False)"

definition vacant :: "os_view \<Rightarrow> WorkerToken \<Rightarrow> nat \<Rightarrow> bool" where
  "vacant T t k \<longleftrightarrow> wt_pgid t = wt_pid t \<and> ov_proc T k (wt_pid t) = None"

definition emptied :: "os_view \<Rightarrow> WorkerToken \<Rightarrow> nat \<Rightarrow> bool" where
  "emptied T t k \<longleftrightarrow> (case ov_probe T k (group_arg (wt_pgid t)) of None \<Rightarrow> False | Some e \<Rightarrow> e \<noteq> EPERM)"

lemma verify_spec:
  assumes "verify T t W = (v, W')"
  shows "os_sent W' = os_sent W" "v = Live \<Longrightarrow> confirmed T t (os_tick W) \<and> os_tick W' = os_tick W + 1"
    "v = Gone \<Longrightarrow> vacant T t (os_tick W) \<and> os_tick W' = os_tick W + 1"
  using assms
  by (auto simp: verify_def proc_info_def advance_def confirmed_def vacant_def split: if_split_asm option.split_asm)

lemma signal_group_spec:
  assumes "signal_group T g sig W = (r, W')"
  shows "os_sent W' = os_sent W @ (if g \<le> 1 then [] else [(os_tick W, group_arg g, sig)])" "r = Inr u \<Longrightarrow> 1 < g"
  using assms by (auto simp: signal_group_def kill_def advance_def split: if_split_asm option.split_asm)

lemma signal_verified_spec:
  assumes "signal_verified T t sig W = (r, W')"
  shows "\<exists>sent. os_sent W' = os_sent W @ sent
       \<and> (sent = [] \<or> (sent = [(os_tick W + 1, group_arg (wt_pgid t), sig)] \<and> 1 < wt_pgid t \<and> confirmed T t (os_tick W)))
       \<and> (r = Inr True \<longrightarrow> sent \<noteq> []) \<and> (r = Inr False \<longrightarrow> sent = [] \<and> vacant T t (os_tick W))"
proof -
  obtain v W1 where v: "verify T t W = (v, W1)" by (rule prod.exhaust)
  note vs = verify_spec[OF v]
  show ?thesis
  proof (cases v)
    case Live
    obtain x W2 where g: "signal_group T (wt_pgid t) sig W1 = (x, W2)" by (rule prod.exhaust)
    have "W' = W2" "r = map_sum (\<lambda>e. e) (\<lambda>_. True) x" using assms v Live g by (simp_all add: signal_verified_def)
    moreover have "x = Inr () \<Longrightarrow> 1 < wt_pgid t" using signal_group_spec(2)[OF g] .
    ultimately show ?thesis
      using vs(1) vs(2)[OF Live] signal_group_spec(1)[OF g] by (cases x) auto
  qed (use assms v vs in \<open>auto simp: signal_verified_def\<close>)
qed

text \<open>The worker's group still has members, as far as the system says.\<close>

definition lingering :: "os_view \<Rightarrow> WorkerToken \<Rightarrow> nat \<Rightarrow> bool" where
  "lingering T t k \<longleftrightarrow> confirmed T t k \<or> \<not> emptied T t k"

lemma group_gone_spec:
  assumes "group_gone T t W = (b, W')"
  shows "os_sent W' = os_sent W" "b \<Longrightarrow> \<exists>k. os_tick W' = k + 1 \<and> emptied T t k"
    "\<not> b \<Longrightarrow> \<exists>k. os_tick W \<le> k \<and> k < os_tick W' \<and> lingering T t k"
proof -
  obtain v W1 where v: "verify T t W = (v, W1)" by (rule prod.exhaust)
  have "os_sent W' = os_sent W \<and> (b \<longrightarrow> (\<exists>k. os_tick W' = k + 1 \<and> emptied T t k))"
    using assms v verify_spec(1)[OF v]
    by (cases "ov_probe T (os_tick W1) (group_arg (wt_pgid t))")
       (auto simp: group_gone_def group_exists_def probe_def advance_def emptied_def split: if_split_asm)
  then show "os_sent W' = os_sent W" "b \<Longrightarrow> \<exists>k. os_tick W' = k + 1 \<and> emptied T t k" by blast+
  have le: "os_tick W \<le> os_tick W1"
    using v by (auto simp: verify_def proc_info_def advance_def split: if_split_asm option.split_asm)
  show "\<exists>k. os_tick W \<le> k \<and> k < os_tick W' \<and> lingering T t k" if "\<not> b"
  proof (cases "v = Live")
    case True
    have "W' = W1" using assms v True by (simp add: group_gone_def group_exists_def)
    then show ?thesis using verify_spec(2)[OF v True] by (intro exI[of _ "os_tick W"]) (simp add: lingering_def)
  next
    case False
    have "\<not> emptied T t (os_tick W1)" "os_tick W' = os_tick W1 + 1"
      using assms v False that by (auto simp: group_gone_def group_exists_def probe_def advance_def emptied_def split: option.split_asm)
    with le show ?thesis by (intro exI[of _ "os_tick W1"]) (simp add: lingering_def)
  qed
qed

lemma wait_loop_spec:
  "wait_loop T (group_gone T t) deadline n W = (r, W') \<Longrightarrow>
   os_sent W' = os_sent W \<and> (r = Some True \<longrightarrow> (\<exists>k. os_tick W' = k + 1 \<and> emptied T t k))
   \<and> (r = Some False \<longrightarrow> (\<exists>k. os_tick W \<le> k \<and> k < os_tick W' \<and> lingering T t k))"
proof (induction n arbitrary: W)
  case (Suc n)
  obtain b W1 where g: "group_gone T t W = (b, W1)" by (rule prod.exhaust)
  note gs = group_gone_spec[OF g]
  show ?case
  proof (cases b)
    case True
    with Suc.prems g gs(1,2) show ?thesis by auto
  next
    case False
    have le: "os_tick W \<le> os_tick W1" using steady_group_gone[of T t] g by (auto simp: steady_def dest: spec[of _ W])
    obtain c W2 where n: "now T W1 = (c, W2)" by (rule prod.exhaust)
    have n2: "os_sent W2 = os_sent W1" "os_tick W2 = os_tick W1 + 1" using n by (auto simp: now_def advance_def)
    show ?thesis
    proof (cases "deadline \<le> c")
      case True
      with Suc.prems g False n have "r = Some False" "W' = W2" by simp_all
      with gs(1) gs(3)[OF False] n2 show ?thesis by auto
    next
      case nd: False
      with Suc.prems g False n have "wait_loop T (group_gone T t) deadline n (sleep50 W2) = (r, W')" by simp
      note ih = Suc.IH[OF this]
      have sl: "os_sent (sleep50 W2) = os_sent W" "os_tick W \<le> os_tick (sleep50 W2)"
        using n2 gs(1) le by (simp_all add: sleep50_def)
      from ih sl show ?thesis by (metis le_trans)
    qed
  qed
qed simp

lemma wait_until_spec:
  "wait_until T limit (group_gone T t) W = (r, W') \<Longrightarrow>
   os_sent W' = os_sent W \<and> (r = Some True \<longrightarrow> (\<exists>k. os_tick W' = k + 1 \<and> emptied T t k))
   \<and> (r = Some False \<longrightarrow> (\<exists>k. os_tick W < k \<and> k < os_tick W' \<and> lingering T t k))"
proof -
  assume w: "wait_until T limit (group_gone T t) W = (r, W')"
  obtain c W1 where n: "now T W = (c, W1)" by (rule prod.exhaust)
  then have W1: "os_sent W1 = os_sent W" "os_tick W1 = os_tick W + 1" by (auto simp: now_def advance_def)
  have less: "os_tick W < k" if "os_tick W1 \<le> k" for k using that W1 by simp
  from w n have "wait_loop T (group_gone T t) (c + limit) (rounds limit) W1 = (r, W')" by (simp add: wait_until_def)
  from wait_loop_spec[OF this] W1(1) less show ?thesis by (metis (no_types))
qed

text \<open>One signal of a token, at the tick before which the system was asked.\<close>

definition asked_first :: "os_view \<Rightarrow> WorkerToken \<Rightarrow> nat \<times> int \<times> nat \<Rightarrow> bool" where
  "asked_first T t = (\<lambda>(k, target, sig). \<exists>j. k = j + 1 \<and> target = group_arg (wt_pgid t) \<and> 1 < wt_pgid t
     \<and> (if sig = SIGTERM then confirmed T t j else sig = SIGKILL \<and> (confirmed T t j \<or> vacant T t j)))"

text \<open>A group was warned before a tick when among the signals that were sent is a SIGTERM to it, right after the system
  confirmed the worker, and after that the system still reported members of the group.\<close>

definition warned :: "os_view \<Rightarrow> WorkerToken \<Rightarrow> (nat \<times> int \<times> nat) list \<Rightarrow> nat \<Rightarrow> bool" where
  "warned T t sent k \<longleftrightarrow>
     list_ex (\<lambda>(k0, target, sig). target = group_arg (wt_pgid t) \<and> sig = SIGTERM \<and> 0 < k0 \<and> confirmed T t (k0 - 1)
                \<and> list_ex (lingering T t) [Suc k0 ..< k]) sent"

text \<open>A signal goes to the group of the token, right after the system confirmed the worker; or it is the SIGKILL to a group
  that was warned, right after the system reported the worker itself as gone.\<close>

definition justified :: "os_view \<Rightarrow> WorkerToken \<Rightarrow> (nat \<times> int \<times> nat) list \<Rightarrow> nat \<times> int \<times> nat \<Rightarrow> bool" where
  "justified T t sent = (\<lambda>(k, target, sig).
     0 < k \<and> target = group_arg (wt_pgid t) \<and> 1 < wt_pgid t \<and> sig \<in> {SIGTERM, SIGKILL}
     \<and> (confirmed T t (k - 1) \<or> sig = SIGKILL \<and> vacant T t (k - 1) \<and> warned T t sent k))"

lemma justified_mono: "set sent \<subseteq> set sent' \<Longrightarrow> justified T t sent s \<Longrightarrow> justified T t sent' s"
  by (auto simp: justified_def warned_def list_ex_iff)

lemma signs:
  "SIGTERM \<noteq> SIGKILL" "SIGKILL \<noteq> SIGTERM"
  by (simp_all add: SIGTERM_def SIGKILL_def)

lemma escalate_spec:
  assumes "escalate T t W = (r, W')"
  shows "\<exists>sent. os_sent W' = os_sent W @ sent \<and> list_all (\<lambda>s. asked_first T t s \<and> os_tick W < fst s) sent \<and> length sent \<le> 1
       \<and> (case r of Some (Inr AlreadyGone) \<Rightarrow> False | Some (Inr _) \<Rightarrow> (\<exists>k. os_tick W' = k + 1 \<and> emptied T t k) | _ \<Rightarrow> True)"
proof -
  obtain v W1 where v: "verify T t W = (v, W1)" by (rule prod.exhaust)
  note vs = verify_spec[OF v]
  define sg where "sg = (if v \<noteq> Gone then (case signal_verified T t SIGKILL W1 of (r, W2) \<Rightarrow> (map_sum (\<lambda>e. e) (\<lambda>_. ()) r, W2))
                 else signal_group T (wt_pgid t) SIGKILL W1)"
  obtain x W2 where sg2: "sg = (x, W2)" by (rule prod.exhaust)
  have le: "os_tick W \<le> os_tick W1"
    using v by (auto simp: verify_def proc_info_def advance_def split: if_split_asm option.split_asm)
  have sent: "\<exists>sent. os_sent W2 = os_sent W @ sent \<and> list_all (\<lambda>s. asked_first T t s \<and> os_tick W < fst s) sent \<and> length sent \<le> 1"
  proof (cases "v = Gone")
    case True
    with sg2 have g: "signal_group T (wt_pgid t) SIGKILL W1 = (x, W2)" by (simp add: sg_def)
    from vs(1) vs(3)[OF True] signal_group_spec(1)[OF g] show ?thesis by (auto simp: asked_first_def signs)
  next
    case False
    obtain y W3 where sv: "signal_verified T t SIGKILL W1 = (y, W3)" by (rule prod.exhaust)
    with sg2 False have "W3 = W2" by (simp add: sg_def)
    with signal_verified_spec[OF sv] vs(1) le show ?thesis by (auto simp: asked_first_def signs)
  qed
  have eq: "(r, W') = (case (x, W2) of
             (Inl e, W2) \<Rightarrow> (Some (Inl e), W2)
           | (Inr _, W2) \<Rightarrow>
               (case wait_until T 5000 (group_gone T t) W2 of
                  (Some True, W3) \<Rightarrow> (Some (Inr Killed), W3)
                | (Some False, W3) \<Rightarrow>
                    (Some (Inl (''process group '' @ show_nat (wt_pgid t) @ '' still exists 5s after SIGKILL'')), W3)
                | (None, W3) \<Rightarrow> (None, W3)))"
    unfolding assms[symmetric] escalate_def v prod.case sg2[unfolded sg_def] ..
  show ?thesis
  proof (cases x)
    case (Inl e)
    with eq sent show ?thesis by auto
  next
    case (Inr u)
    obtain b W3 where w: "wait_until T 5000 (group_gone T t) W2 = (b, W3)" by (rule prod.exhaust)
    note ws = wait_until_spec[OF w]
    from eq Inr w have "W' = W3" "case r of Some (Inr AlreadyGone) \<Rightarrow> False | Some (Inr _) \<Rightarrow> b = Some True | _ \<Rightarrow> True"
      by (auto split: option.split_asm bool.split_asm)
    then show ?thesis using sent ws by (auto split: option.split sum.split TerminateOutcome.split)
  qed
qed

text \<open>Whatever the operating system answers, stopping a worker sends at most two signals, both to the process group
  of the token, first SIGTERM and perhaps later SIGKILL. Right before SIGTERM the system confirmed that the process of
  the token, with its start time and leading its own group, is running; right before SIGKILL it confirmed that again,
  or it reported that nobody holds the process id, after it had reported members of the group since the SIGTERM. A stop that reports success either sent nothing because the process
  was gone, or ended with the system reporting the group as empty.\<close>

lemma terminate_spec:
  "case terminate T t grace W of (r, W') \<Rightarrow> \<exists>sent. os_sent W' = os_sent W @ sent
     \<and> list_all (justified T t sent) sent \<and> length sent \<le> 2
     \<and> (case sent of [] \<Rightarrow> True | s # _ \<Rightarrow> snd (snd s) = SIGTERM)
     \<and> (case r of
          Some (Inr AlreadyGone) \<Rightarrow> sent = [] \<and> vacant T t (os_tick W)
        | Some (Inr _) \<Rightarrow> \<exists>k. os_tick W' = k + 1 \<and> emptied T t k
        | _ \<Rightarrow> True)"
proof -
  obtain r W' where tm: "terminate T t grace W = (r, W')" by (rule prod.exhaust)
  obtain x W1 where sv: "signal_verified T t SIGTERM W = (x, W1)" by (rule prod.exhaust)
  from signal_verified_spec[OF sv] obtain sent where
      s1: "os_sent W1 = os_sent W @ sent" "sent = [] \<or> (sent = [(os_tick W + 1, group_arg (wt_pgid t), SIGTERM)]
             \<and> 1 < wt_pgid t \<and> confirmed T t (os_tick W))"
        "x = Inr True \<longrightarrow> sent \<noteq> []" "x = Inr False \<longrightarrow> sent = [] \<and> vacant T t (os_tick W)" by blast
  have j: "list_all (justified T t sent) sent" using s1(2) by (auto simp: justified_def)
  have "\<exists>sent. os_sent W' = os_sent W @ sent \<and> list_all (justified T t sent) sent \<and> length sent \<le> 2
     \<and> (case sent of [] \<Rightarrow> True | s # _ \<Rightarrow> snd (snd s) = SIGTERM)
     \<and> (case r of Some (Inr AlreadyGone) \<Rightarrow> sent = [] \<and> vacant T t (os_tick W)
        | Some (Inr _) \<Rightarrow> \<exists>k. os_tick W' = k + 1 \<and> emptied T t k | _ \<Rightarrow> True)"
  proof (cases x)
    case (Inl e)
    with tm sv have "W' = W1" "r = Some (Inl e)" by (simp_all add: terminate_def)
    with s1 j show ?thesis by (intro exI[of _ sent]) (auto split: list.split)
  next
    case (Inr b)
    show ?thesis
    proof (cases b)
      case False
      with tm sv Inr have "W' = W1" "r = Some (Inr AlreadyGone)" by (simp_all add: terminate_def)
      with s1 Inr False show ?thesis by (intro exI[of _ "[]"]) auto
    next
      case True
      with Inr s1(2,3) have sent: "sent = [(os_tick W + 1, group_arg (wt_pgid t), SIGTERM)]" by auto
      obtain d W2 where w: "wait_until T grace (group_gone T t) W1 = (d, W2)" by (rule prod.exhaust)
      note ws = wait_until_spec[OF w]
      consider "d = None" | "d = Some True" | "d = Some False" by (cases d) auto
      then show ?thesis
      proof cases
        case 3
        with tm sv Inr True w have "escalate T t W2 = (r, W')" by (simp add: terminate_def)
        from escalate_spec[OF this] obtain more where
            m: "os_sent W' = os_sent W2 @ more" "list_all (\<lambda>s. asked_first T t s \<and> os_tick W2 < fst s) more" "length more \<le> 1"
              "case r of Some (Inr AlreadyGone) \<Rightarrow> False | Some (Inr _) \<Rightarrow> (\<exists>k. os_tick W' = k + 1 \<and> emptied T t k) | _ \<Rightarrow> True"
          by blast
        from s1(1,2) sv sent have at: "os_tick W1 = os_tick W + 2" "confirmed T t (os_tick W)"
          by (auto simp: signal_verified_def verify_def proc_info_def signal_group_def kill_def advance_def
              split: if_split_asm option.split_asm)
        with ws 3 obtain l where l: "os_tick W1 < l" "l < os_tick W2" "lingering T t l" by auto
        have "warned T t (sent @ more) k" if "os_tick W2 < k" for k
          using sent at l that by (auto simp: warned_def list_ex_iff intro!: bexI[of _ l])
        with m(2) have "list_all (justified T t (sent @ more)) more"
          by (fastforce simp: list_all_iff asked_first_def justified_def split: if_split_asm)
        moreover have "list_all (justified T t (sent @ more)) sent"
          using j justified_mono[of sent "sent @ more"] by (auto simp: list_all_iff)
        ultimately have "list_all (justified T t (sent @ more)) (sent @ more)" by simp
        with m(1,3,4) show ?thesis using ws s1(1) sent
          by (intro exI[of _ "sent @ more"]) (auto split: option.split_asm sum.split_asm TerminateOutcome.split_asm)
      qed (use tm sv Inr True w ws s1(1) sent j in \<open>auto simp: terminate_def\<close>)
    qed
  qed
  then show ?thesis by (simp only: tm prod.case)
qed

subsection \<open>Stopping the workers of a fleet\<close>

record WorkerStopReport =
  sr_stopped :: nat
  sr_escalated :: nat
  sr_problems :: "string list"

definition fleet_kill_grace :: "string option \<Rightarrow> nat" where
  "fleet_kill_grace env = 1000 * (case Option.bind env (parse_uint 64) of Some n \<Rightarrow> n | None \<Rightarrow> 5)"

definition count_stop :: "WorkerToken \<Rightarrow> (string + TerminateOutcome) option \<Rightarrow> WorkerStopReport \<Rightarrow> WorkerStopReport" where
  "count_stop t r R =
     (case r of
        Some (Inr AlreadyGone) \<Rightarrow> R
      | Some (Inr Terminated) \<Rightarrow> R\<lparr>sr_stopped := sr_stopped R + 1\<rparr>
      | Some (Inr Killed) \<Rightarrow> R\<lparr>sr_stopped := sr_stopped R + 1, sr_escalated := sr_escalated R + 1\<rparr>
      | Some (Inl e) \<Rightarrow> R\<lparr>sr_problems := sr_problems R @ [wt_task_id t @ '': '' @ e]\<rparr>
      | None \<Rightarrow> R\<lparr>sr_problems := sr_problems R @ [''stop task failed'']\<rparr>)"

text \<open>The tokens are stopped by jobs that run side by side; each job sees the system at ticks of its own, so they are
  taken one after the other here.\<close>

fun stop_tokens :: "os_view \<Rightarrow> nat \<Rightarrow> (string \<times> (string + WorkerToken)) list \<Rightarrow> WorkerStopReport \<Rightarrow> os_run \<Rightarrow> WorkerStopReport \<times> os_run" where
  "stop_tokens T grace [] R W = (R, W)"
| "stop_tokens T grace ((path, Inl e) # ts) R W =
     stop_tokens T grace ts (R\<lparr>sr_problems := sr_problems R @ [''unreadable launch token in '' @ path @ '': '' @ e]\<rparr>) W"
| "stop_tokens T grace ((path, Inr t) # ts) R W =
     (case terminate T t grace W of (r, W') \<Rightarrow> stop_tokens T grace ts (count_stop t r R) W')"

definition stop_extra :: "os_view \<Rightarrow> ProcessIdentity \<Rightarrow> WorkerStopReport \<times> os_run \<Rightarrow> WorkerStopReport \<times> os_run" where
  "stop_extra T p = (\<lambda>(R, W).
     case proc_info T (id_pid p) W of
       (None, W1) \<Rightarrow> (R, W1)
     | (Some i, W1) \<Rightarrow>
         if pi_start_time_us i \<noteq> id_start_time_us p then (R, W1)
         else (case (if pi_pgid i = id_pid p then signal_group T (id_pid p) SIGTERM W1 else signal_pid T (id_pid p) SIGTERM W1) of
             (Inr _, W2) \<Rightarrow> (R\<lparr>sr_stopped := sr_stopped R + 1\<rparr>, W2)
           | (Inl e, W2) \<Rightarrow> (R\<lparr>sr_problems := sr_problems R @ [e]\<rparr>, W2)))"

definition stop_fleet_workers ::
  "os_view \<Rightarrow> nat \<Rightarrow> (string \<times> (string + WorkerToken)) list \<Rightarrow> ProcessIdentity list \<Rightarrow> os_run \<Rightarrow> WorkerStopReport \<times> os_run"
where
  "stop_fleet_workers T grace tokens extra W =
     (let covered = List.map_filter (\<lambda>(_, t). case t of Inr t \<Rightarrow> Some (wt_pid t) | Inl _ \<Rightarrow> None) tokens
      in fold (stop_extra T) (filter (\<lambda>p. id_pid p \<notin> set covered) extra)
           (stop_tokens T grace tokens \<lparr>sr_stopped = 0, sr_escalated = 0, sr_problems = []\<rparr> W))"

text \<open>A signal to a child without a token: the system confirmed its start time right before.\<close>

definition child_justified :: "os_view \<Rightarrow> ProcessIdentity \<Rightarrow> nat \<times> int \<times> nat \<Rightarrow> bool" where
  "child_justified T p = (\<lambda>(k, target, sig). \<exists>j i. k = j + 1 \<and> sig = SIGTERM \<and> 1 < id_pid p
     \<and> ov_proc T j (id_pid p) = Some i \<and> pi_start_time_us i = id_start_time_us p
     \<and> target = (if pi_pgid i = id_pid p then group_arg (id_pid p) else - group_arg (id_pid p)))"

lemma terminate_sent:
  assumes "terminate T t grace W = (r, W')"
  shows "\<exists>sent. os_sent W' = os_sent W @ sent \<and> list_all (justified T t sent) sent"
  using terminate_spec[where T = T and t = t and grace = grace and W = W] assms by auto

text \<open>A signal that some token of a list justifies.\<close>

definition token_signal :: "os_view \<Rightarrow> (string \<times> (string + WorkerToken)) list \<Rightarrow> (nat \<times> int \<times> nat) list \<Rightarrow> nat \<times> int \<times> nat \<Rightarrow> bool"
where
  "token_signal T ts sent s = list_ex (\<lambda>(_, t). case t of Inr t \<Rightarrow> justified T t sent s | Inl _ \<Rightarrow> False) ts"

lemma token_signal_mono:
  assumes "set sent \<subseteq> set sent'" "set ts \<subseteq> set ts'" "token_signal T ts sent s"
  shows "token_signal T ts' sent' s"
  using assms(2,3) justified_mono[OF assms(1), of T _ s] by (fastforce simp: token_signal_def list_ex_iff split: sum.splits)

lemma token_signals_append:
  assumes "list_all (token_signal T ts1 s1) s1" "list_all (token_signal T ts2 s2) s2" "set ts1 \<subseteq> set ts" "set ts2 \<subseteq> set ts"
  shows "list_all (token_signal T ts (s1 @ s2)) (s1 @ s2)"
  using assms token_signal_mono[of s1 "s1 @ s2" ts1 ts T] token_signal_mono[of s2 "s1 @ s2" ts2 ts T]
  by (auto simp: list_all_iff)

lemma terminate_signals:
  assumes "terminate T t grace W = (r, W')" "(path, Inr t) \<in> set ts"
  shows "\<exists>sent. os_sent W' = os_sent W @ sent \<and> list_all (token_signal T ts sent) sent"
proof -
  obtain sent where "os_sent W' = os_sent W @ sent" "list_all (justified T t sent) sent" using terminate_sent[OF assms(1)] by blast
  with assms(2) show ?thesis by (intro exI[of _ sent]) (force simp: token_signal_def list_all_iff list_ex_iff)
qed

lemma stop_tokens_sent:
  "stop_tokens T grace ts R W = (R', W') \<Longrightarrow>
   \<exists>sent. os_sent W' = os_sent W @ sent \<and> list_all (token_signal T ts sent) sent"
proof (induction T grace ts R W rule: stop_tokens.induct)
  case (2 T grace path e ts R W)
  then obtain sent where "os_sent W' = os_sent W @ sent" "list_all (token_signal T ts sent) sent" by auto
  then show ?case using token_signal_mono[of sent sent ts "(path, Inl e) # ts" T] by (auto simp: list_all_iff)
next
  case (3 T grace path t ts R W)
  obtain r W1 where tm: "terminate T t grace W = (r, W1)" by (rule prod.exhaust)
  from terminate_signals[OF tm, of path "(path, Inr t) # ts"] obtain s1 where
      s1: "os_sent W1 = os_sent W @ s1" "list_all (token_signal T ((path, Inr t) # ts) s1) s1" by auto
  from "3.IH"[OF tm[symmetric]] "3.prems" tm obtain s2 where
      s2: "os_sent W' = os_sent W1 @ s2" "list_all (token_signal T ts s2) s2" by auto
  have "list_all (token_signal T ((path, Inr t) # ts) (s1 @ s2)) (s1 @ s2)"
    by (rule token_signals_append[OF s1(2) s2(2)]) auto
  with s1(1) s2(1) show ?case by (intro exI[of _ "s1 @ s2"]) simp
qed simp

lemma stop_extra_sent:
  assumes "stop_extra T p (R, W) = (R', W')"
  shows "\<exists>sent. os_sent W' = os_sent W @ sent \<and> list_all (child_justified T p) sent"
proof (cases "ov_proc T (os_tick W) (id_pid p)")
  case None
  with assms show ?thesis by (auto simp: stop_extra_def proc_info_def advance_def)
next
  case (Some i)
  show ?thesis
  proof (cases "pi_start_time_us i = id_start_time_us p \<and> 1 < id_pid p")
    case False
    with assms Some show ?thesis
      by (auto simp: stop_extra_def proc_info_def advance_def signal_group_def signal_pid_def split: if_split_asm)
  next
    case True
    have "os_sent W' = os_sent W @ [(os_tick W + 1, if pi_pgid i = id_pid p then group_arg (id_pid p) else - group_arg (id_pid p), SIGTERM)]"
      using assms Some True
      by (auto simp: stop_extra_def proc_info_def advance_def signal_group_def signal_pid_def kill_def
            split: if_split_asm option.split_asm)
    then show ?thesis using Some True by (simp add: child_justified_def)
  qed
qed

lemma stop_extras_sent:
  "fold (stop_extra T) ps (R, W) = (R', W') \<Longrightarrow>
   \<exists>sent. os_sent W' = os_sent W @ sent \<and> list_all (\<lambda>s. list_ex (\<lambda>p. child_justified T p s) ps) sent"
proof (induction ps arbitrary: R W)
  case (Cons p ps)
  obtain R1 W1 where p: "stop_extra T p (R, W) = (R1, W1)" by (rule prod.exhaust)
  from stop_extra_sent[OF p] obtain s1 where "os_sent W1 = os_sent W @ s1" "list_all (child_justified T p) s1" by blast
  moreover from Cons.IH[of R1 W1] Cons.prems p obtain s2 where
      "os_sent W' = os_sent W1 @ s2" "list_all (\<lambda>s. list_ex (\<lambda>p. child_justified T p s) ps) s2" by auto
  ultimately show ?case by (intro exI[of _ "s1 @ s2"]) (auto simp: list_all_iff)
qed simp

text \<open>C13: cancelling a fleet signals nobody but its own workers. The first signal to the group of a launch token is sent
  right after the system confirmed the token's process, with its start time and leading that group. Every later one is
  sent right after the system confirmed it again; or it is the final SIGKILL, right after the system reported the process
  id as vacant, to a group that got such a confirmed SIGTERM and of which the system still reported members after it: a
  worker that exited and left children. Every other signal went to a child of this process right after the system
  confirmed its process id with its start time.\<close>

theorem fleet_stop_signals_only_its_workers:
  "\<exists>sent. os_sent (snd (stop_fleet_workers T grace tokens extra W)) = os_sent W @ sent
     \<and> list_all (\<lambda>s. token_signal T tokens sent s \<or> list_ex (\<lambda>p. child_justified T p s) extra) sent"
proof -
  obtain R1 W1 where st: "stop_tokens T grace tokens \<lparr>sr_stopped = 0, sr_escalated = 0, sr_problems = []\<rparr> W = (R1, W1)"
    by (rule prod.exhaust)
  define ps where "ps = filter (\<lambda>p. id_pid p \<notin> set (List.map_filter (\<lambda>(_, t). case t of Inr t \<Rightarrow> Some (wt_pid t) | Inl _ \<Rightarrow> None) tokens)) extra"
  obtain R2 W2 where ex: "fold (stop_extra T) ps (R1, W1) = (R2, W2)" by (rule prod.exhaust)
  have res: "snd (stop_fleet_workers T grace tokens extra W) = W2"
    using st ex by (simp add: stop_fleet_workers_def Let_def ps_def)
  have sub: "list_ex (\<lambda>p. child_justified T p s) ps \<Longrightarrow> list_ex (\<lambda>p. child_justified T p s) extra" for s
    by (auto simp: ps_def list_ex_iff)
  from stop_tokens_sent[OF st] obtain s1 where
    s1: "os_sent W1 = os_sent W @ s1" "list_all (token_signal T tokens s1) s1"
    by blast
  from stop_extras_sent[OF ex] obtain s2 where
    s2: "os_sent W2 = os_sent W1 @ s2" "list_all (\<lambda>s. list_ex (\<lambda>p. child_justified T p s) ps) s2" by blast
  have "token_signal T tokens (s1 @ s2) s" if "s \<in> set s1" for s
    using s1(2) that token_signal_mono[of s1 "s1 @ s2" tokens tokens T s] by (simp add: list_all_iff)
  with s1(1) s2 sub show ?thesis unfolding res by (intro exI[of _ "s1 @ s2"]) (auto simp: list_all_iff)
qed

text \<open>A worker whose leader exited while a child keeps its group alive counts as gone: nothing is signalled, nothing
  is probed.\<close>

lemma exited_leader_hides_its_group:
  "vacant T t (os_tick W) \<Longrightarrow> fst (terminate T t grace W) = Some (Inr AlreadyGone)"
  by (simp add: vacant_def terminate_def signal_verified_def verify_def proc_info_def)

subsection \<open>Reading the process table\<close>

lemma rfind_char_last: "c \<notin> set post \<Longrightarrow> rfind_char c (pre @ [c] @ post) = Some (length pre)"
proof -
  assume c: "c \<notin> set post"
  have "takeWhile (\<lambda>x. x \<noteq> c) (rev post @ c # rev pre) = rev post"
    using c by (subst takeWhile_append2) auto
  then show ?thesis by (simp add: rfind_char_def)
qed

text \<open>A command name cannot forge the fields: whatever stands between the parentheses, the answer depends only on what
  follows the last one.\<close>

lemma command_name_cannot_forge:
  assumes "CHR '')'' \<notin> set post"
  shows "stat_info hz (pid @ '' ('' @ name @ '')'' @ '' '' @ post) = Some (stat_fields hz (split_whitespace post))"
proof -
  have "rfind_char CHR '')'' ((pid @ '' ('' @ name) @ [CHR '')''] @ ('' '' @ post)) = Some (length (pid @ '' ('' @ name))"
    by (rule rfind_char_last) (use assms in simp)
  then show ?thesis by (simp add: stat_info_def eval_nat_numeral)
qed

end
