(* ===== verification/Launch_Claim.thy ===== *)
theory Launch_Claim
  imports Worker_Token Contention
begin

text \<open>
  The files of launch tokens and the exclusive claim of a launch (\<open>fleet/src/worker_token.rs\<close>): the checked paths, and
  \<open>try_claim_launch\<close> step by step for any number of claimants, since its creation, reading and removal of the marker are
  separate system calls.

  Shown here: the path of a token stays inside the directory of its fleet and belongs to one task; among live
  claimants at most one wins a launch; two claimants that both find the marker of a dead one may both win.
\<close>

subsection \<open>Paths\<close>

definition check_id :: "string \<Rightarrow> string + unit" where
  "check_id i =
     (if i = [] \<or> CHR ''/'' \<in> set i \<or> CHR 0x5C \<in> set i \<or> i = ''.'' \<or> i = ''..''
      then Inl (''unsafe id for a token path: '' @ debug_str i) else Inr ())"

definition owner_record_path :: "string \<Rightarrow> string \<Rightarrow> string" where
  "owner_record_path root fleet = root @ ''/.triumvirate/fleet-owners/'' @ fleet @ ''.json''"

definition fleet_token_dir :: "string \<Rightarrow> string \<Rightarrow> string + string" where
  "fleet_token_dir root fleet =
     (case check_id fleet of Inl e \<Rightarrow> Inl e | Inr _ \<Rightarrow> Inr (root @ ''/.triumvirate/fleet-workers/'' @ fleet))"

definition task_file :: "string \<Rightarrow> string \<Rightarrow> string \<Rightarrow> string \<Rightarrow> string + string" where
  "task_file ext root fleet task =
     (case check_id task of
        Inl e \<Rightarrow> Inl e
      | Inr _ \<Rightarrow> (case fleet_token_dir root fleet of Inl e \<Rightarrow> Inl e | Inr d \<Rightarrow> Inr (d @ ''/'' @ task @ ext)))"

definition token_path :: "string \<Rightarrow> string \<Rightarrow> string \<Rightarrow> string + string" where
  "token_path = task_file ''.json''"

definition launch_marker_path :: "string \<Rightarrow> string \<Rightarrow> string \<Rightarrow> string + string" where
  "launch_marker_path = task_file ''.launching''"

lemma check_id_ok: "check_id i = Inr u \<Longrightarrow> i \<noteq> [] \<and> CHR ''/'' \<notin> set i \<and> i \<noteq> ''.'' \<and> i \<noteq> ''..''"
  by (auto simp: check_id_def split: if_split_asm)

lemma split_at_slash:
  "a @ ''/'' @ b = c @ ''/'' @ d \<Longrightarrow> CHR ''/'' \<notin> set a \<Longrightarrow> CHR ''/'' \<notin> set c \<Longrightarrow> a = c \<and> b = d"
  by (induction a arbitrary: c) (case_tac c; auto)+

lemma task_file_Inr:
  assumes "task_file ext root fleet task = Inr p"
  shows "p = root @ ''/.triumvirate/fleet-workers/'' @ fleet @ ''/'' @ task @ ext"
    "CHR ''/'' \<notin> set fleet" "CHR ''/'' \<notin> set task" "fleet \<notin> {[], ''.'', ''..''}" "task \<notin> {[], ''.'', ''..''}"
proof -
  obtain u where u: "check_id task = Inr u" using assms by (cases "check_id task") (simp_all add: task_file_def)
  obtain v where v: "check_id fleet = Inr v" using assms u by (cases "check_id fleet") (simp_all add: task_file_def fleet_token_dir_def)
  show "p = root @ ''/.triumvirate/fleet-workers/'' @ fleet @ ''/'' @ task @ ext"
    using assms u v by (simp add: task_file_def fleet_token_dir_def)
  show "CHR ''/'' \<notin> set fleet" "CHR ''/'' \<notin> set task" "fleet \<notin> {[], ''.'', ''..''}" "task \<notin> {[], ''.'', ''..''}"
    using check_id_ok[OF u] check_id_ok[OF v] by simp_all
qed

text \<open>A token path names its fleet and its task: two paths are the same file only for the same pair, and no task name
  leaves the directory of the fleet.\<close>

lemma token_paths_injective:
  assumes "token_path root f t = Inr p" "token_path root f' t' = Inr p"
  shows "f = f' \<and> t = t'"
proof -
  note a = task_file_Inr[OF assms(1)[unfolded token_path_def]] and b = task_file_Inr[OF assms(2)[unfolded token_path_def]]
  from a(1) b(1) have "f @ ''/'' @ (t @ ''.json'') = f' @ ''/'' @ (t' @ ''.json'')" by simp
  from split_at_slash[OF this a(2) b(2)] show ?thesis by simp
qed

subsection \<open>The claim, call by call\<close>

text \<open>The marker: absent, created and still empty, or naming its claimant.\<close>

datatype marker = Absent | Unnamed | Named ProcessIdentity

datatype claim_pc = Create nat | Write | Inspect nat | Remove nat | Claimed | Lost | Failed

text \<open>\<open>alive\<close> is what the system says of a claimant at the moment of the check, \<open>tokened\<close> whether the task has a token,
  \<open>None\<close> when that cannot be read, and \<open>works\<close> whether the call of the step goes through. A marker that vanished between
  the refused creation and the reading, or that cannot be read, has no claimant; one that cannot be written stays
  without a name.\<close>

fun claim_step ::
  "(ProcessIdentity \<Rightarrow> bool) \<Rightarrow> bool option \<Rightarrow> bool \<Rightarrow> ProcessIdentity \<Rightarrow> claim_pc \<Rightarrow> marker \<Rightarrow> claim_pc \<times> marker"
where
  "claim_step alive tokened works me (Create 0) m = (Lost, m)"
| "claim_step alive tokened works me (Create (Suc n)) m =
     (if \<not> works then (Failed, m) else if m = Absent then (Write, Unnamed) else (Inspect n, m))"
| "claim_step alive tokened works me Write m = (if \<not> works then (Failed, m) else (Claimed, if m = Absent then Absent else Named me))"
| "claim_step alive tokened works me (Inspect n) m =
     (case m of
        Named c \<Rightarrow>
          if \<not> works \<or> alive c then (Lost, m)
          else (case tokened of None \<Rightarrow> (Failed, m) | Some True \<Rightarrow> (Lost, m) | Some False \<Rightarrow> (Remove n, m))
      | _ \<Rightarrow> (Lost, m))"
| "claim_step alive tokened works me (Remove n) m = (if \<not> works \<or> m = Absent then (Failed, m) else (Create n, Absent))"
| "claim_step alive tokened works me pc m = (pc, m)"

text \<open>Alone and when every call goes through, a claimant that finds no marker wins, one that finds a live claimant's marker loses, and one that finds a
  dead claimant's marker and no token takes it over.\<close>

fun claim_alone :: "nat \<Rightarrow> (ProcessIdentity \<Rightarrow> bool) \<Rightarrow> bool \<Rightarrow> ProcessIdentity \<Rightarrow> claim_pc \<Rightarrow> marker \<Rightarrow> claim_pc \<times> marker" where
  "claim_alone 0 alive tokened me pc m = (pc, m)"
| "claim_alone (Suc k) alive tokened me pc m =
     (case claim_step alive (Some tokened) True me pc m of (pc', m') \<Rightarrow> claim_alone k alive tokened me pc' m')"

definition try_claim_launch :: "(ProcessIdentity \<Rightarrow> bool) \<Rightarrow> bool \<Rightarrow> ProcessIdentity \<Rightarrow> marker \<Rightarrow> claim_pc \<times> marker" where
  "try_claim_launch alive tokened me m = claim_alone 8 alive tokened me (Create 2) m"

lemma try_claim_launch_alone:
  "try_claim_launch alive tokened me m =
     (case m of
        Absent \<Rightarrow> (Claimed, Named me)
      | Unnamed \<Rightarrow> (Lost, Unnamed)
      | Named c \<Rightarrow> if \<not> alive c \<and> \<not> tokened then (Claimed, Named me) else (Lost, Named c))"
  by (cases m) (simp_all add: try_claim_launch_def eval_nat_numeral)

subsection \<open>Several claimants\<close>

text \<open>Each claimant is a process of its own; \<open>alive\<close> may change from step to step.\<close>

inductive claims_step :: "ProcessIdentity list \<Rightarrow> claim_pc list \<times> marker \<Rightarrow> claim_pc list \<times> marker \<Rightarrow> bool" for ps where
  step: "i < length ps \<Longrightarrow> (\<And>j. j < length ps \<Longrightarrow> alive (ps ! j)) \<Longrightarrow>
    claim_step alive tokened works (ps ! i) (pcs ! i) m = (pc', m') \<Longrightarrow> claims_step ps (pcs, m) (pcs[i := pc'], m')"

definition holds :: "claim_pc \<Rightarrow> bool" where
  "holds pc \<longleftrightarrow> pc = Write \<or> pc = Claimed"

text \<open>A held launch has its marker, the marker names nobody but a claimant, and nobody removes it.\<close>

definition claims_inv :: "ProcessIdentity list \<Rightarrow> claim_pc list \<times> marker \<Rightarrow> bool" where
  "claims_inv ps = (\<lambda>(pcs, m). length pcs = length ps
     \<and> (\<forall>i < length ps. \<forall>n. pcs ! i \<noteq> Remove n)
     \<and> (\<forall>i < length ps. holds (pcs ! i) \<longrightarrow> m \<noteq> Absent)
     \<and> (\<forall>c. m = Named c \<longrightarrow> c \<in> set ps))"

lemma claim_step_inv:
  assumes "claim_step alive tokened works me pc m = (pc', m')" "me \<in> set ps" "\<And>c. c \<in> set ps \<Longrightarrow> alive c"
    and "\<And>n. pc \<noteq> Remove n" "holds pc \<Longrightarrow> m \<noteq> Absent" "\<And>c. m = Named c \<Longrightarrow> c \<in> set ps"
  shows "\<And>n. pc' \<noteq> Remove n" "holds pc' \<Longrightarrow> m' \<noteq> Absent" "\<And>c. m' = Named c \<Longrightarrow> c \<in> set ps"
    "m \<noteq> Absent \<Longrightarrow> m' \<noteq> Absent" "holds pc' \<Longrightarrow> holds pc \<or> m = Absent"
proof -
  have "(\<forall>n. pc' \<noteq> Remove n) \<and> (holds pc' \<longrightarrow> m' \<noteq> Absent) \<and> (\<forall>c. m' = Named c \<longrightarrow> c \<in> set ps)
      \<and> (m \<noteq> Absent \<longrightarrow> m' \<noteq> Absent) \<and> (holds pc' \<longrightarrow> holds pc \<or> m = Absent)"
  proof (cases pc)
    case (Create n)
    then show ?thesis using assms by (cases n) (auto simp: holds_def split: if_split_asm)
  next
    case (Inspect n)
    then show ?thesis using assms by (auto simp: holds_def split: marker.split_asm if_split_asm option.split_asm bool.split_asm)
  qed (use assms in \<open>auto simp: holds_def split: if_split_asm\<close>)
  then show "\<And>n. pc' \<noteq> Remove n" "holds pc' \<Longrightarrow> m' \<noteq> Absent" "\<And>c. m' = Named c \<Longrightarrow> c \<in> set ps"
    "m \<noteq> Absent \<Longrightarrow> m' \<noteq> Absent" "holds pc' \<Longrightarrow> holds pc \<or> m = Absent" by blast+
qed

inductive_cases claims_stepE: "claims_step ps (pcs, m) s'"

interpretation launch: contest "claims_step ps" "\<lambda>i (pcs, m). i < length ps \<and> holds (pcs ! i)" "\<lambda>(pcs, m). m = Absent" "claims_inv ps"
  for ps
proof
  fix s s' and i j :: nat
  assume ok: "claims_inv ps s" and st: "claims_step ps s s'"
  obtain pcs m where s: "s = (pcs, m)" by (rule prod.exhaust)
  note inv = ok[unfolded s claims_inv_def prod.case]
  from st[unfolded s] obtain a pc' m' alive tokened works where s': "s' = (pcs[a := pc'], m')" and a: "a < length ps"
      "\<And>j. j < length ps \<Longrightarrow> alive (ps ! j)" "claim_step alive tokened works (ps ! a) (pcs ! a) m = (pc', m')"
    by (elim claims_stepE) blast
  have al: "c \<in> set ps \<Longrightarrow> alive c" for c using a(2) by (auto simp: in_set_conv_nth)
  have pre: "\<forall>n. pcs ! a \<noteq> Remove n" "holds (pcs ! a) \<Longrightarrow> m \<noteq> Absent" "\<And>c. m = Named c \<Longrightarrow> c \<in> set ps" using inv a(1) by blast+
  have post: "\<forall>n. pc' \<noteq> Remove n" "holds pc' \<Longrightarrow> m' \<noteq> Absent" "\<And>c. m' = Named c \<Longrightarrow> c \<in> set ps"
      "m \<noteq> Absent \<Longrightarrow> m' \<noteq> Absent" "holds pc' \<Longrightarrow> holds (pcs ! a) \<or> m = Absent"
    using claim_step_inv[OF a(3) nth_mem[OF a(1)] al] pre by blast+
  have len: "length pcs = length ps" using inv by blast
  show "claims_inv ps s'"
    unfolding s' claims_inv_def prod.case
    using inv post a(1) by (auto simp: nth_list_update split: if_split_asm)
  show "(case s of (pcs, m) \<Rightarrow> i < length ps \<and> holds (pcs ! i)) \<or> (case s of (pcs, m) \<Rightarrow> m = Absent)"
    if "case s' of (pcs, m) \<Rightarrow> i < length ps \<and> holds (pcs ! i)"
    using that post(5) len unfolding s s' by (cases "i = a") auto
  show "i = j" if "case s' of (pcs, m) \<Rightarrow> i < length ps \<and> holds (pcs ! i)" "\<not> (case s of (pcs, m) \<Rightarrow> i < length ps \<and> holds (pcs ! i))"
    "case s' of (pcs, m) \<Rightarrow> j < length ps \<and> holds (pcs ! j)" "\<not> (case s of (pcs, m) \<Rightarrow> j < length ps \<and> holds (pcs ! j))"
    using that unfolding s s' by (cases "i = a"; cases "j = a") auto
next
  fix s and i :: nat
  assume "claims_inv ps s" "case s of (pcs, m) \<Rightarrow> i < length ps \<and> holds (pcs ! i)"
  then show "\<not> (case s of (pcs, m) \<Rightarrow> m = Absent)" by (auto simp: claims_inv_def)
qed

text \<open>C14: any number of running processes claim one launch at the same time, call by call, while nobody has claimed it
  before: at most one of them is told that the launch is its own.\<close>

theorem launch_claimed_once:
  assumes "(claims_step ps)\<^sup>*\<^sup>* (replicate (length ps) (Create 2), Absent) (pcs, m)"
  shows "card {i. i < length ps \<and> pcs ! i = Claimed} \<le> 1"
proof -
  have "claims_inv ps (replicate (length ps) (Create 2), Absent)" by (simp add: claims_inv_def holds_def)
  from launch.at_most_one[OF assms this]
  have "i = j" if "i < length ps" "j < length ps" "pcs ! i = Claimed" "pcs ! j = Claimed" for i j
    using that by (auto simp: holds_def)
  then show ?thesis by (simp add: card_le_Suc0_iff_eq)
qed

text \<open>A schedule names the claimant that moves.\<close>

fun claim_schedule :: "(ProcessIdentity \<Rightarrow> bool) \<Rightarrow> ProcessIdentity list \<Rightarrow> nat list \<Rightarrow> claim_pc list \<times> marker \<Rightarrow> claim_pc list \<times> marker" where
  "claim_schedule alive ps [] s = s"
| "claim_schedule alive ps (i # is) (pcs, m) =
     (if i < length ps then
        (case claim_step alive (Some False) True (ps ! i) (pcs ! i) m of (pc', m') \<Rightarrow> claim_schedule alive ps is (pcs[i := pc'], m'))
      else claim_schedule alive ps is (pcs, m))"

lemma claim_schedule_steps:
  "(\<And>j. j < length ps \<Longrightarrow> alive (ps ! j)) \<Longrightarrow> (claims_step ps)\<^sup>*\<^sup>* s (claim_schedule alive ps is s)"
proof (induction alive ps "is" s rule: claim_schedule.induct)
  case (2 alive ps i "is" pcs m)
  show ?case
  proof (cases "i < length ps")
    case True
    obtain pc' m' where p: "claim_step alive (Some False) True (ps ! i) (pcs ! i) m = (pc', m')" by (rule prod.exhaust)
    from claims_step.step[OF True 2(3) p] 2(1)[OF True p[symmetric] 2(3)] show ?thesis
      using True p by (simp add: converse_rtranclp_into_rtranclp)
  qed (use 2(2)[OF _ 2(3)] in simp)
qed simp

definition two_claimants :: "ProcessIdentity list" where
  "two_claimants = [\<lparr>id_pid = 10, id_start_time_us = 1\<rparr>, \<lparr>id_pid = 11, id_start_time_us = 1\<rparr>]"

theorem launch_claimed_once_witness:
  "fst (claim_schedule (\<lambda>_. True) two_claimants [0, 1, 0, 1] (replicate 2 (Create 2), Absent)) = [Claimed, Lost]
   \<and> card {i. i < 2 \<and> fst (claim_schedule (\<lambda>_. True) two_claimants [0, 1, 0, 1] (replicate 2 (Create 2), Absent)) ! i = Claimed} \<le> 1"
  (is "fst ?s = _ \<and> _")
proof
  obtain pcs m where s: "?s = (pcs, m)" by (rule prod.exhaust)
  have len: "length two_claimants = 2" by (simp add: two_claimants_def)
  show "fst ?s = [Claimed, Lost]" by code_simp
  have "(claims_step two_claimants)\<^sup>*\<^sup>* (replicate (length two_claimants) (Create 2), Absent) (pcs, m)"
    using claim_schedule_steps[of two_claimants "\<lambda>_. True" "(replicate 2 (Create 2), Absent)" "[0, 1, 0, 1]"] unfolding s len by simp
  from launch_claimed_once[OF this] show "card {i. i < 2 \<and> fst ?s ! i = Claimed} \<le> 1" unfolding s len by simp
qed

text \<open>With the marker of a dead claimant: both see it, the first takes it over and wins, and the second then removes
  the marker of the first, who is running, and wins too.\<close>

lemma dead_marker_is_claimed_twice:
  "claim_schedule (\<lambda>c. id_pid c \<noteq> 9) two_claimants [0, 0, 1, 1, 0, 0, 0, 1, 1, 1]
     (replicate 2 (Create 2), Named \<lparr>id_pid = 9, id_start_time_us = 1\<rparr>)
   = ([Claimed, Claimed], Named \<lparr>id_pid = 11, id_start_time_us = 1\<rparr>)"
  by code_simp

end
