(* ===== verification/Fleet_Recovery.thy ===== *)
theory Fleet_Recovery
  imports Fleet_Merge Launch_Claim
begin

text \<open>
  Recovery of crashed fleets (\<open>fleet/src/recovery.rs\<close>) on the ledger, the files of launch tokens and the operating
  system: which fleets it touches, how it stops their orphans and when it gives their tasks back. The files are what a
  reading of them gives (\<open>disk\<close>); recovery writes none.

  Shown here: tasks of a fleet are given back only when the owner was not running and every worker of the fleet that
  could be running was proven gone, and recovery signals nobody but the workers of launch tokens; the directories that
  the operator's recovery deletes have exactly the documented shape.
\<close>

subsection \<open>Files\<close>

record disk =
  dk_engine :: "string \<Rightarrow> string option"
  dk_dir :: "string \<Rightarrow> (string \<times> (string + WorkerToken option)) list option"
  dk_owner :: "string \<Rightarrow> string + ProcessIdentity option"
  dk_marker :: "string \<Rightarrow> string \<Rightarrow> bool"

definition is_temporal_engine :: "disk \<Rightarrow> string \<Rightarrow> bool" where
  "is_temporal_engine D fleet =
     (case check_id fleet of
        Inl _ \<Rightarrow> False
      | Inr _ \<Rightarrow> (case dk_engine D fleet of Some s \<Rightarrow> trim s = ''temporal'' | None \<Rightarrow> False))"

definition has_launch_marker :: "disk \<Rightarrow> string \<Rightarrow> string \<Rightarrow> bool" where
  "has_launch_marker D fleet task =
     (case launch_marker_path [] fleet task of Inl _ \<Rightarrow> False | Inr _ \<Rightarrow> dk_marker D fleet task)"

text \<open>A file name with the extension \<open>json\<close>, without it.\<close>

definition json_stem :: "string \<Rightarrow> string option" where
  "json_stem name = (case strip_suffix name ''.json'' of Some s \<Rightarrow> if s = [] then None else Some s | None \<Rightarrow> None)"

definition token_entry :: "string \<Rightarrow> string \<times> (string + WorkerToken option) \<Rightarrow> (string \<times> (string + WorkerToken)) option" where
  "token_entry fleet = (\<lambda>(name, r).
     case json_stem name of
       None \<Rightarrow> None
     | Some stem \<Rightarrow>
         (case r of
            Inr (Some t) \<Rightarrow>
              Some (name, if wt_fleet_id t = fleet \<and> wt_task_id t = stem then Inr t
                          else Inl (''token names fleet '' @ wt_fleet_id t @ '' task '' @ wt_task_id t @ '', not the file it is in''))
          | Inr None \<Rightarrow> None
          | Inl e \<Rightarrow> Some (name, Inl e)))"

definition fleet_tokens :: "disk \<Rightarrow> string \<Rightarrow> (string \<times> (string + WorkerToken)) list" where
  "fleet_tokens D fleet =
     (case check_id fleet of
        Inl _ \<Rightarrow> []
      | Inr _ \<Rightarrow>
          (case dk_dir D fleet of
             None \<Rightarrow> []
           | Some es \<Rightarrow> sort_key fst (List.map_filter (token_entry fleet) es)))"

subsection \<open>One fleet\<close>

record StaleFleetReport =
  sf_recovered :: "string list"
  sf_live_owner :: "string list"
  sf_ownerless :: "string list"
  sf_blocked :: "(string \<times> string) list"
  sf_orphans_stopped :: nat
  sf_temporal_engine :: "string list"

definition empty_report :: StaleFleetReport where
  "empty_report = \<lparr>sf_recovered = [], sf_live_owner = [], sf_ownerless = [], sf_blocked = [], sf_orphans_stopped = 0,
     sf_temporal_engine = []\<rparr>"

record RecoveryOptions =
  ro_include_ownerless :: bool
  ro_grace :: nat

definition RECOVERY_REASON :: string where
  "RECOVERY_REASON = ''crash recovery: stale fleet detected''"

fun token_owner_alive :: "os_view \<Rightarrow> (string \<times> (string + WorkerToken)) list \<Rightarrow> os_run \<Rightarrow> bool \<times> os_run" where
  "token_owner_alive T [] W = (False, W)"
| "token_owner_alive T ((_, Inl _) # ts) W = token_owner_alive T ts W"
| "token_owner_alive T ((_, Inr t) # ts) W =
     (case is_alive T (wt_owner t) W of (b, W') \<Rightarrow> if b then (True, W') else token_owner_alive T ts W')"

definition owner_alive :: "os_view \<Rightarrow> ProcessIdentity option \<Rightarrow> os_run \<Rightarrow> bool \<times> os_run" where
  "owner_alive T owner W = (case owner of Some p \<Rightarrow> is_alive T p W | None \<Rightarrow> (False, W))"

fun stop_orphans ::
  "os_view \<Rightarrow> nat \<Rightarrow> (string \<times> (string + WorkerToken)) list \<Rightarrow> string list \<times> nat \<Rightarrow> os_run \<Rightarrow> (string list \<times> nat) \<times> os_run"
where
  "stop_orphans T grace [] s W = (s, W)"
| "stop_orphans T grace ((path, Inl e) # ts) (problems, n) W =
     stop_orphans T grace ts (problems @ [''unreadable launch token in '' @ path @ '': '' @ e], n) W"
| "stop_orphans T grace ((path, Inr t) # ts) (problems, n) W =
     (case verify T t W of
        (Reused why, W1) \<Rightarrow> stop_orphans T grace ts (problems, n) W1
      | (Refused why, W1) \<Rightarrow> stop_orphans T grace ts (problems @ [wt_task_id t @ '': '' @ why], n) W1
      | (_, W1) \<Rightarrow>
          (case terminate T t grace W1 of
             (Some (Inr AlreadyGone), W2) \<Rightarrow> stop_orphans T grace ts (problems, n) W2
           | (Some (Inr _), W2) \<Rightarrow> stop_orphans T grace ts (problems, n + 1) W2
           | (Some (Inl e), W2) \<Rightarrow> stop_orphans T grace ts (problems @ [wt_task_id t @ '': '' @ e], n) W2
           | (None, W2) \<Rightarrow> stop_orphans T grace ts (problems @ [wt_task_id t], n) W2))"

definition in_flight_task :: "string \<Rightarrow> task_row \<Rightarrow> bool" where
  "in_flight_task fleet t \<longleftrightarrow> tk_fleet t = fleet \<and> (tk_state t = ''claimed'' \<or> tk_state t = ''in_progress'')"

definition untracked :: "(string \<times> (string + WorkerToken)) list \<Rightarrow> string \<Rightarrow> ledger \<Rightarrow> string list" where
  "untracked tokens fleet L =
     (let tokened = List.map_filter (\<lambda>(_, t). case t of Inr t \<Rightarrow> Some (wt_task_id t) | Inl _ \<Rightarrow> None) tokens
      in filter (\<lambda>t. t \<notin> set tokened) (map tk_id (filter (in_flight_task fleet) (lg_tasks L))))"

definition launch_problem :: "string \<Rightarrow> string" where
  "launch_problem t = t @ '': launched but no launch token was written; a worker may still be running. Once you have confirmed none is, fleet_cancel takes the fleet out of recovery''"

definition reset_task :: "task_row \<Rightarrow> task_row" where
  "reset_task t = t\<lparr>tk_state := ''pending'', tk_agent := None\<rparr>"

definition give_back :: "string \<Rightarrow> unit db" where
  "give_back fleet =
     and_then (sql (update_fleets (\<lambda>r. fl_id r = fleet)
        (\<lambda>r. r\<lparr>fl_state := ''failed'', fl_failure_reason := Some RECOVERY_REASON\<rparr>))) (\<lambda>_.
     and_then (sql (update_tasks (in_flight_task fleet) reset_task)) (\<lambda>_. db_return ()))"

type_synonym recovery = "StaleFleetReport \<times> os_run \<times> ledger"

text \<open>The part of the loop body after the owner checks.\<close>

definition settle_fleet ::
  "os_view \<Rightarrow> disk \<Rightarrow> nat \<Rightarrow> string \<Rightarrow> (string \<times> (string + WorkerToken)) list \<Rightarrow> recovery \<Rightarrow> (string option) \<times> recovery"
where
  "settle_fleet T D grace fleet tokens = (\<lambda>(R, W, L).
     case sql (\<lambda>L. (untracked tokens fleet L, L)) L of
       (Inl e, L1) \<Rightarrow> (Some e, R, W, L1)
     | (Inr ts, L1) \<Rightarrow>
         (case stop_orphans T grace tokens (map launch_problem (filter (has_launch_marker D fleet) ts), 0) W of
            ((problems, n), W1) \<Rightarrow>
              let R1 = R\<lparr>sf_orphans_stopped := sf_orphans_stopped R + n\<rparr> in
              if problems \<noteq> [] then (None, R1\<lparr>sf_blocked := sf_blocked R1 @ [(fleet, join ''; '' problems)]\<rparr>, W1, L1)
              else (case give_back fleet L1 of
                  (Inl e, L2) \<Rightarrow> (Some e, R1, W1, L2)
                | (Inr _, L2) \<Rightarrow> (None, R1\<lparr>sf_recovered := sf_recovered R1 @ [fleet]\<rparr>, W1, L2))))"

definition recover_fleet :: "os_view \<Rightarrow> disk \<Rightarrow> RecoveryOptions \<Rightarrow> string \<Rightarrow> recovery \<Rightarrow> (string option) \<times> recovery" where
  "recover_fleet T D opts fleet = (\<lambda>(R, W, L).
     if is_temporal_engine D fleet then (None, R\<lparr>sf_temporal_engine := sf_temporal_engine R @ [fleet]\<rparr>, W, L)
     else
       (let tokens = fleet_tokens D fleet in
        case dk_owner D fleet of
          Inl e \<Rightarrow> (Some e, R, W, L)
        | Inr owner \<Rightarrow>
            (case token_owner_alive T tokens W of (tb, W1) \<Rightarrow>
             case owner_alive T owner W1 of (ob, W2) \<Rightarrow>
               if ob \<or> tb then (None, R\<lparr>sf_live_owner := sf_live_owner R @ [fleet]\<rparr>, W2, L)
               else if owner = None \<and> \<not> list_ex (\<lambda>(_, t). case t of Inr _ \<Rightarrow> True | Inl _ \<Rightarrow> False) tokens \<and> \<not> ro_include_ownerless opts
               then (None, R\<lparr>sf_ownerless := sf_ownerless R @ [fleet]\<rparr>, W2, L)
               else settle_fleet T D (ro_grace opts) fleet tokens (R, W2, L))))"

fun recover_fleets :: "os_view \<Rightarrow> disk \<Rightarrow> RecoveryOptions \<Rightarrow> string list \<Rightarrow> recovery \<Rightarrow> (string option) \<times> recovery" where
  "recover_fleets T D opts [] s = (None, s)"
| "recover_fleets T D opts (f # fs) s =
     (case recover_fleet T D opts f s of
        (Some e, s') \<Rightarrow> (Some e, s')
      | (None, s') \<Rightarrow> recover_fleets T D opts fs s')"

definition recovery_event :: "nat \<Rightarrow> string \<Rightarrow> event_row" where
  "recovery_event idx fleet =
     fleet_event fleet ''fleet_recovery'' (JObject [(''fleet_id'', JString fleet), (''reason'', JString RECOVERY_REASON)]) (int idx + 1)"

fun ingest_all :: "event_row list \<Rightarrow> unit db" where
  "ingest_all [] = db_return ()"
| "ingest_all (e # es) = and_then (ingest_event e) (\<lambda>_. ingest_all es)"

definition stale_candidates :: "ledger \<Rightarrow> string list" where
  "stale_candidates L =
     map fl_id (filter (\<lambda>r. fl_state r \<in> {''spawning'', ''running'', ''merging'', ''recovery_required''}) (lg_fleets L))"

definition recover_stale_fleets ::
  "os_view \<Rightarrow> disk \<Rightarrow> RecoveryOptions \<Rightarrow> os_run \<Rightarrow> ledger \<Rightarrow> (string + StaleFleetReport) \<times> os_run \<times> ledger"
where
  "recover_stale_fleets T D opts W L =
     (case and_then open_conn (\<lambda>_. sql (\<lambda>L. (stale_candidates L, L))) L of
        (Inl e, L1) \<Rightarrow> (Inl e, W, L1)
      | (Inr fs, L1) \<Rightarrow>
          (case recover_fleets T D opts fs (empty_report, W, L1) of
             (Some e, R, W2, L2) \<Rightarrow> (Inl e, W2, L2)
           | (None, R, W2, L2) \<Rightarrow>
               if sf_recovered R = [] then (Inr R, W2, L2)
               else (case and_then open_conn (\<lambda>_. ingest_all
                         (map (\<lambda>(i, f). recovery_event i f) (List.enumerate 0 (sf_recovered R)))) L2 of
                   (Inl e, L3) \<Rightarrow> (Inl e, W2, L3)
                 | (Inr _, L3) \<Rightarrow> (Inr R, W2, L3))))"

text \<open>\<open>{fleet}-{task}-{agent}\<close>, the task with or without its fleet in front.\<close>

definition is_fleet_worktree :: "string \<Rightarrow> string \<Rightarrow> bool" where
  "is_fleet_worktree name fleet =
     (case Option.bind (strip_prefix name fleet) (\<lambda>r. strip_prefix r ''-'') of
        None \<Rightarrow> False
      | Some rest0 \<Rightarrow>
          (let rest = (case Option.bind (strip_prefix rest0 fleet) (\<lambda>r. strip_prefix r ''-'') of Some r \<Rightarrow> r | None \<Rightarrow> rest0) in
           case strip_prefix rest ''T-'' of
             None \<Rightarrow> False
           | Some rest1 \<Rightarrow>
               (case split_once rest1 ''-'' of
                  None \<Rightarrow> False
                | Some (num, agent) \<Rightarrow> num \<noteq> [] \<and> list_all is_ascii_digit num \<and> agent \<noteq> []
                    \<and> list_all (\<lambda>b. is_ascii_alphanumeric b \<or> b = CHR ''_'') agent)))"

subsection \<open>Proof that a worker is gone\<close>

text \<open>At some tick the system reported that nobody holds the process id of the token, or that another process does, or
  that its group is empty.\<close>

definition gone_at :: "os_view \<Rightarrow> WorkerToken \<Rightarrow> nat \<Rightarrow> bool" where
  "gone_at T t k \<longleftrightarrow> vacant T t k \<or> emptied T t k
     \<or> (case ov_proc T k (wt_pid t) of Some i \<Rightarrow> pi_start_time_us i \<noteq> wt_start_time_us t | None \<Rightarrow> False)"

definition running :: "os_view \<Rightarrow> ProcessIdentity \<Rightarrow> nat \<Rightarrow> bool" where
  "running T p k = (case ov_proc T k (id_pid p) of Some i \<Rightarrow> pi_start_time_us i = id_start_time_us p | None \<Rightarrow> False)"

definition proven_gone :: "os_view \<Rightarrow> string \<times> (string + WorkerToken) \<Rightarrow> bool" where
  "proven_gone T = (\<lambda>(_, t). case t of Inr t \<Rightarrow> \<exists>k. gone_at T t k | Inl _ \<Rightarrow> False)"

lemma verify_Reused:
  "verify T t W = (Reused why, W') \<Longrightarrow> gone_at T t (os_tick W)"
  by (auto simp: verify_def proc_info_def gone_at_def split: if_split_asm option.split_asm)

lemma terminate_gone:
  assumes "terminate T t grace W = (Some (Inr o1), W')"
  shows "\<exists>k. gone_at T t k"
  using terminate_spec[where T = T and t = t and grace = grace and W = W] assms
  by (cases o1) (auto simp: gone_at_def)

lemma stop_orphans_spec:
  "stop_orphans T grace ts (p, n) W = ((p', n'), W') \<Longrightarrow>
   (p' = [] \<longrightarrow> p = [] \<and> list_all (proven_gone T) ts)
   \<and> (\<exists>sent. os_sent W' = os_sent W @ sent \<and> list_all (token_signal T ts sent) sent)"
proof (induction ts arbitrary: p n W)
  case Nil
  then show ?case by simp
next
  case (Cons x ts)
  obtain path r where x: "x = (path, r)" by (rule prod.exhaust)
  have step: ?case if rec: "stop_orphans T grace ts (q, m) V = ((p', n'), W')" and q: "q = [] \<longrightarrow> p = [] \<and> proven_gone T x"
    and s1: "os_sent V = os_sent W @ ss" "list_all (token_signal T (x # ts) ss) ss" for q m V ss
  proof -
    from Cons.IH[OF rec] obtain s2 where s2: "os_sent W' = os_sent V @ s2" "list_all (token_signal T ts s2) s2"
        and pq: "p' = [] \<longrightarrow> q = [] \<and> list_all (proven_gone T) ts" by blast
    have "list_all (token_signal T (x # ts) (ss @ s2)) (ss @ s2)" by (rule token_signals_append[OF s1(2) s2(2)]) auto
    moreover have "os_sent W' = os_sent W @ (ss @ s2)" using s1(1) s2(1) by simp
    moreover note pq
    ultimately show ?thesis using q by (simp only: list.pred_inject) blast
  qed
  show ?case
  proof (cases r)
    case (Inl e)
    then show ?thesis using Cons.prems x by (intro step[where ss = "[]" and V = W]) (auto simp: list_all_iff)
  next
    case (Inr t)
    obtain v W1 where v: "verify T t W = (v, W1)" by (rule prod.exhaust)
    note vs = verify_spec(1)[OF v]
    show ?thesis
    proof (cases "\<exists>why. v = Reused why \<or> v = Refused why")
      case True
      then consider why where "v = Reused why" | why where "v = Refused why" by blast
      then show ?thesis
      proof cases
        case 1
        with v verify_Reused[of T t W why W1] have "gone_at T t (os_tick W)" by simp
        then have "proven_gone T x" using x Inr by (auto simp: proven_gone_def)
        with 1 show ?thesis using Cons.prems x Inr v vs by (intro step[where ss = "[]" and V = W1]) auto
      next
        case 2
        then show ?thesis using Cons.prems x Inr v vs by (intro step[where ss = "[]" and V = W1]) auto
      qed
    next
      case False
      obtain z W2 where tm: "terminate T t grace W1 = (z, W2)" by (rule prod.exhaust)
      from terminate_signals[OF tm, of path "x # ts"] x Inr obtain s1 where
        s1: "os_sent W2 = os_sent W1 @ s1" and s1': "list_all (token_signal T (x # ts) s1) s1" by auto
      have g: "proven_gone T x" if "z = Some (Inr o1)" for o1
        using terminate_gone[of T t grace W1 o1 W2] tm that x Inr by (simp add: proven_gone_def)
      have eq: "stop_orphans T grace (x # ts) (p, n) W =
          (case (z, W2) of
             (Some (Inr AlreadyGone), W2) \<Rightarrow> stop_orphans T grace ts (p, n) W2
           | (Some (Inr _), W2) \<Rightarrow> stop_orphans T grace ts (p, n + 1) W2
           | (Some (Inl e), W2) \<Rightarrow> stop_orphans T grace ts (p @ [wt_task_id t @ '': '' @ e], n) W2
           | (None, W2) \<Rightarrow> stop_orphans T grace ts (p @ [wt_task_id t], n) W2)"
        using False v tm x Inr by (cases v) simp_all
      note rec = Cons.prems[unfolded eq prod.case]
      have same: "os_sent W2 = os_sent W @ s1" using s1 vs by simp
      consider "z = None" | e where "z = Some (Inl e)" | "z = Some (Inr AlreadyGone)" | o1 where "z = Some (Inr o1)" "o1 \<noteq> AlreadyGone"
        by (metis option.exhaust sum.exhaust)
      then show ?thesis
      proof cases
        case 1
        with rec same s1' show ?thesis by (intro step[where ss = s1 and V = W2]) auto
      next
        case 2
        with rec same s1' show ?thesis by (intro step[where ss = s1 and V = W2]) auto
      next
        case 3
        with rec same s1' g show ?thesis by (intro step[where ss = s1 and V = W2]) auto
      next
        case 4
        then have "stop_orphans T grace ts (p, n + 1) W2 = ((p', n'), W')" using rec by (cases o1) simp_all
        with same s1' g[OF 4(1)] show ?thesis by (intro step[where ss = s1 and V = W2]) auto
      qed
    qed
  qed
qed

subsection \<open>Tasks that are given back\<close>

definition give_rows :: "string list \<Rightarrow> task_row list \<Rightarrow> task_row list" where
  "give_rows fs = map (\<lambda>t. if list_ex (\<lambda>f. in_flight_task f t) fs then reset_task t else t)"

lemma in_flight_reset [simp]: "\<not> in_flight_task f (reset_task t)"
  by (simp add: in_flight_task_def reset_task_def)

lemma give_rows_snoc:
  "map (\<lambda>t. if in_flight_task f t then reset_task t else t) (give_rows fs ts) = give_rows (fs @ [f]) ts"
  by (auto simp: give_rows_def)

lemma give_rows_Nil [simp]: "give_rows [] ts = ts"
  by (simp add: give_rows_def)

lemma give_back_tasks:
  assumes "give_back fleet L = (r, L')"
  shows "lg_tasks L' = lg_tasks L \<or> lg_tasks L' = map (\<lambda>t. if in_flight_task fleet t then reset_task t else t) (lg_tasks L)"
proof -
  have k1: "keeps lg_tasks (sql (update_fleets p f))" for p f
    by (intro frame) (simp_all add: update_fleets_def)
  have u: "lg_tasks L2 = lg_tasks L1 \<or> lg_tasks L2 = map (\<lambda>t. if in_flight_task fleet t then reset_task t else t) (lg_tasks L1)"
    if "sql (update_tasks (in_flight_task fleet) reset_task) L1 = (x, L2)" for x L1 L2
    using that by (auto simp: sql_def sql_try_def Let_def update_tasks_def split: option.split_asm)
  obtain a L1 where a: "sql (update_fleets (\<lambda>r. fl_id r = fleet)
        (\<lambda>r. r\<lparr>fl_state := ''failed'', fl_failure_reason := Some RECOVERY_REASON\<rparr>)) L = (a, L1)" by (rule prod.exhaust)
  obtain b L2 where b: "sql (update_tasks (in_flight_task fleet) reset_task) L1 = (b, L2)" by (rule prod.exhaust)
  note same = keepsD[OF k1 a]
  show ?thesis
  proof (cases a)
    case (Inl e)
    with a assms same show ?thesis by (simp add: give_back_def and_then_def)
  next
    case (Inr n)
    with a b assms have "L' = L2" by (cases b) (simp_all add: give_back_def and_then_def db_return_def)
    with u[OF b] same show ?thesis by simp
  qed
qed

definition no_untracked_launch :: "disk \<Rightarrow> string \<Rightarrow> ledger \<Rightarrow> bool" where
  "no_untracked_launch D fleet L = list_all (\<lambda>t. \<not> has_launch_marker D fleet t) (untracked (fleet_tokens D fleet) fleet L)"

lemma settle_fleet_spec:
  assumes "settle_fleet T D grace fleet (fleet_tokens D fleet) (R, W, L) = (e, R', W', L')"
  shows "lg_tasks L' = lg_tasks L \<or>
     (lg_tasks L' = map (\<lambda>t. if in_flight_task fleet t then reset_task t else t) (lg_tasks L)
      \<and> list_all (proven_gone T) (fleet_tokens D fleet) \<and> no_untracked_launch D fleet L)"
    "\<exists>sent. os_sent W' = os_sent W @ sent \<and> list_all (token_signal T (fleet_tokens D fleet) sent) sent"
proof -
  let ?ts = "fleet_tokens D fleet"
  have k: "keeps lg_tasks (sql (\<lambda>L. (untracked ?ts fleet L, L)))" by (intro frame) simp_all
  obtain a L1 where a: "sql (\<lambda>L. (untracked ?ts fleet L, L)) L = (a, L1)" by (rule prod.exhaust)
  note same = keepsD[OF k a]
  have "(lg_tasks L' = lg_tasks L \<or>
     (lg_tasks L' = map (\<lambda>t. if in_flight_task fleet t then reset_task t else t) (lg_tasks L)
      \<and> list_all (proven_gone T) ?ts \<and> no_untracked_launch D fleet L))
     \<and> (\<exists>sent. os_sent W' = os_sent W @ sent \<and> list_all (token_signal T ?ts sent) sent)"
  proof (cases a)
    case (Inl err)
    with assms a same show ?thesis by (auto simp: settle_fleet_def)
  next
    case (Inr ts)
    have ts: "ts = untracked ?ts fleet L"
      using sql_Inr[of "\<lambda>L. (untracked ?ts fleet L, L)" L ts L1] a Inr by (auto simp: untracked_def)
    define p0 where "p0 = map launch_problem (filter (has_launch_marker D fleet) ts)"
    obtain p n W1 where so: "stop_orphans T grace ?ts (p0, 0) W = ((p, n), W1)" by (metis prod.exhaust)
    note sp = stop_orphans_spec[OF so]
    obtain b L2 where gb: "give_back fleet L1 = (b, L2)" by (rule prod.exhaust)
    have W': "W' = W1" and L': "L' = (if p \<noteq> [] then L1 else L2)"
      using assms a Inr so gb by (auto simp: settle_fleet_def p0_def Let_def split: if_split_asm sum.split_asm)
    show ?thesis
    proof (cases "p = []")
      case True
      with sp have "p0 = []" "list_all (proven_gone T) ?ts" by simp_all
      then have "no_untracked_launch D fleet L"
        by (simp add: no_untracked_launch_def p0_def ts filter_empty_conv list_all_iff)
      with give_back_tasks[OF gb] same True sp W' L' \<open>list_all (proven_gone T) ?ts\<close> show ?thesis by auto
    next
      case False
      with same sp W' L' show ?thesis by auto
    qed
  qed
  then show "lg_tasks L' = lg_tasks L \<or>
     (lg_tasks L' = map (\<lambda>t. if in_flight_task fleet t then reset_task t else t) (lg_tasks L)
      \<and> list_all (proven_gone T) ?ts \<and> no_untracked_launch D fleet L)"
    "\<exists>sent. os_sent W' = os_sent W @ sent \<and> list_all (token_signal T ?ts sent) sent" by blast+
qed

text \<open>What recovery has to know of a fleet before it gives its tasks back.\<close>

definition cleared :: "os_view \<Rightarrow> disk \<Rightarrow> RecoveryOptions \<Rightarrow> string \<Rightarrow> ledger \<Rightarrow> bool" where
  "cleared T D opts fleet L \<longleftrightarrow> \<not> is_temporal_engine D fleet
     \<and> (case dk_owner D fleet of
          Inl _ \<Rightarrow> False
        | Inr None \<Rightarrow> fleet_tokens D fleet \<noteq> [] \<or> ro_include_ownerless opts
        | Inr (Some p) \<Rightarrow> \<exists>k. \<not> running T p k)
     \<and> list_all (\<lambda>(_, t). case t of Inr t \<Rightarrow> \<exists>k. \<not> running T (wt_owner t) k | Inl _ \<Rightarrow> False) (fleet_tokens D fleet)
     \<and> list_all (proven_gone T) (fleet_tokens D fleet)
     \<and> no_untracked_launch D fleet L"

lemma is_alive_spec: "is_alive T p W = (b, W') \<Longrightarrow> b = running T p (os_tick W) \<and> os_sent W' = os_sent W"
  by (auto simp: is_alive_def proc_info_def running_def advance_def split: option.split)

lemma token_owner_alive_spec:
  "token_owner_alive T ts W = (b, W') \<Longrightarrow> os_sent W' = os_sent W
     \<and> (\<not> b \<longrightarrow> list_all (\<lambda>(_, t). case t of Inr t \<Rightarrow> \<exists>k. \<not> running T (wt_owner t) k | Inl _ \<Rightarrow> True) ts)"
proof (induction T ts W rule: token_owner_alive.induct)
  case (3 T n t ts W)
  obtain c W1 where a: "is_alive T (wt_owner t) W = (c, W1)" by (rule prod.exhaust)
  note as = is_alive_spec[OF a]
  show ?case
  proof (cases c)
    case True
    with 3(2) a as show ?thesis by simp
  next
    case False
    with 3(2) a have "token_owner_alive T ts W1 = (b, W')" by simp
    from 3(1)[OF a[symmetric] False this] as False show ?thesis by auto
  qed
qed simp_all

lemma recover_fleet_spec:
  assumes "recover_fleet T D opts fleet (R, W, L) = (e, R', W', L')"
  shows "(lg_tasks L' = lg_tasks L
       \<or> (lg_tasks L' = map (\<lambda>t. if in_flight_task fleet t then reset_task t else t) (lg_tasks L) \<and> cleared T D opts fleet L))
     \<and> (\<exists>sent. os_sent W' = os_sent W @ sent \<and> list_all (token_signal T (fleet_tokens D fleet) sent) sent)"
proof (cases "is_temporal_engine D fleet")
  case True
  with assms show ?thesis by (simp add: recover_fleet_def)
next
  case nt: False
  let ?ts = "fleet_tokens D fleet"
  show ?thesis
  proof (cases "dk_owner D fleet")
    case (Inl err)
    with assms nt show ?thesis by (simp add: recover_fleet_def)
  next
    case (Inr owner)
    obtain tb W1 where t: "token_owner_alive T ?ts W = (tb, W1)" by (rule prod.exhaust)
    obtain ob W2 where o: "owner_alive T owner W1 = (ob, W2)" by (rule prod.exhaust)
    note tsp = token_owner_alive_spec[OF t]
    have osp: "os_sent W2 = os_sent W1" "\<not> ob \<Longrightarrow> (case owner of None \<Rightarrow> True | Some p \<Rightarrow> \<exists>k. \<not> running T p k)"
      using o by (auto simp: owner_alive_def dest!: is_alive_spec split: option.split_asm)
    define skip where "skip \<longleftrightarrow> owner = None \<and> \<not> list_ex (\<lambda>(_, t). case t of Inr _ \<Rightarrow> True | Inl _ \<Rightarrow> False) ?ts \<and> \<not> ro_include_ownerless opts"
    show ?thesis
    proof (cases "ob \<or> tb \<or> skip")
      case True
      with assms nt Inr t o have "W' = W2" "L' = L" by (auto simp: recover_fleet_def Let_def skip_def split: if_split_asm)
      with tsp osp show ?thesis by simp
    next
      case False
      with assms nt Inr t o have st: "settle_fleet T D (ro_grace opts) fleet ?ts (R, W2, L) = (e, R', W', L')"
        by (auto simp: recover_fleet_def Let_def skip_def)
      have "cleared T D opts fleet L" if "list_all (proven_gone T) ?ts" "no_untracked_launch D fleet L"
      proof -
        have "list_all (\<lambda>(_, t). case t of Inr t \<Rightarrow> \<exists>k. \<not> running T (wt_owner t) k | Inl _ \<Rightarrow> False) ?ts"
          unfolding list_all_iff
        proof
          fix x assume x: "x \<in> set ?ts"
          obtain n r where xr: "x = (n, r)" by (rule prod.exhaust)
          from that(1) x xr have "proven_gone T (n, r)" by (simp add: list_all_iff)
          moreover from tsp False x xr have "case r of Inr t \<Rightarrow> \<exists>k. \<not> running T (wt_owner t) k | Inl _ \<Rightarrow> True"
            by (auto simp: list_all_iff)
          ultimately show "case x of (_, t) \<Rightarrow> case t of Inr t \<Rightarrow> \<exists>k. \<not> running T (wt_owner t) k | Inl _ \<Rightarrow> False"
            using xr by (cases r) (simp_all add: proven_gone_def)
        qed
        moreover have "?ts \<noteq> [] \<or> ro_include_ownerless opts" if "owner = None"
          using False that by (auto simp: skip_def)
        ultimately show ?thesis using that nt Inr osp(2) False by (cases owner) (simp_all add: cleared_def)
      qed
      with settle_fleet_spec[OF st] tsp osp(1) show ?thesis by auto
    qed
  qed
qed

lemma untracked_give_rows:
  assumes "lg_tasks L = give_rows fs (lg_tasks L0)" "f \<notin> set fs"
  shows "untracked ts f L = untracked ts f L0"
proof -
  have "map tk_id (filter (in_flight_task f) (give_rows fs rows)) = map tk_id (filter (in_flight_task f) rows)" for rows
  proof (induction rows)
    case (Cons t rows)
    have "\<not> list_ex (\<lambda>g. in_flight_task g t) fs" if "in_flight_task f t"
      using that assms(2) by (auto simp: list_ex_iff in_flight_task_def)
    with Cons show ?case by (auto simp: give_rows_def)
  qed (simp add: give_rows_def)
  then show ?thesis by (simp add: untracked_def assms(1))
qed

lemma recover_fleets_spec:
  assumes "recover_fleets T D opts fs (R, W, L) = (e, R', W', L')"
    and "lg_tasks L = give_rows gs (lg_tasks L0)" "list_all (\<lambda>f. cleared T D opts f L0) gs"
  shows "(\<exists>hs. lg_tasks L' = give_rows hs (lg_tasks L0) \<and> list_all (\<lambda>f. cleared T D opts f L0) hs)
     \<and> (\<exists>sent. os_sent W' = os_sent W @ sent \<and> list_all (\<lambda>s. list_ex (\<lambda>f. token_signal T (fleet_tokens D f) sent s) fs) sent)"
  using assms
proof (induction fs arbitrary: R W L gs)
  case Nil
  then show ?case by auto
next
  case (Cons f fs)
  obtain e1 R1 W1 L1 where r: "recover_fleet T D opts f (R, W, L) = (e1, R1, W1, L1)" by (metis prod_cases3 prod.exhaust)
  from recover_fleet_spec[OF r] obtain s1 where s1: "os_sent W1 = os_sent W @ s1" "list_all (token_signal T (fleet_tokens D f) s1) s1"
    by blast
  have inv: "\<exists>hs. lg_tasks L1 = give_rows hs (lg_tasks L0) \<and> list_all (\<lambda>f. cleared T D opts f L0) hs"
  proof (cases "lg_tasks L1 = lg_tasks L")
    case True
    with Cons.prems show ?thesis by auto
  next
    case False
    with recover_fleet_spec[OF r] have m: "lg_tasks L1 = map (\<lambda>t. if in_flight_task f t then reset_task t else t) (lg_tasks L)"
      and cl: "cleared T D opts f L" by auto
    have "cleared T D opts f L0"
    proof (cases "f \<in> set gs")
      case True
      with Cons.prems(3) show ?thesis by (simp add: list_all_iff)
    next
      case False
      with cl untracked_give_rows[OF Cons.prems(2) False] show ?thesis by (simp add: cleared_def no_untracked_launch_def)
    qed
    with m Cons.prems(2,3) show ?thesis by (intro exI[of _ "gs @ [f]"]) (simp add: give_rows_snoc)
  qed
  show ?case
  proof (cases e1)
    case (Some x)
    with Cons.prems(1) r have "L' = L1" "W' = W1" by simp_all
    moreover have "list_all (\<lambda>s. list_ex (\<lambda>f. token_signal T (fleet_tokens D f) s1 s) (f # fs)) s1"
      using s1(2) by (simp add: list_all_iff)
    ultimately show ?thesis using inv s1(1) by blast
  next
    case None
    with Cons.prems(1) r have rest: "recover_fleets T D opts fs (R1, W1, L1) = (e, R', W', L')" by simp
    from inv obtain hs where "lg_tasks L1 = give_rows hs (lg_tasks L0)" "list_all (\<lambda>f. cleared T D opts f L0) hs" by blast
    from Cons.IH[OF rest this] obtain s2 where
        s2: "os_sent W' = os_sent W1 @ s2" "list_all (\<lambda>s. list_ex (\<lambda>f. token_signal T (fleet_tokens D f) s2 s) fs) s2"
      and g: "\<exists>hs. lg_tasks L' = give_rows hs (lg_tasks L0) \<and> list_all (\<lambda>f. cleared T D opts f L0) hs" by blast
    have up: "token_signal T ts (s1 @ s2) s" if "token_signal T ts sa s" "set sa \<subseteq> set (s1 @ s2)" for ts sa s
      using token_signal_mono[OF that(2) subset_refl that(1)] .
    have "list_all (\<lambda>s. list_ex (\<lambda>f. token_signal T (fleet_tokens D f) (s1 @ s2) s) (f # fs)) (s1 @ s2)"
      using s1(2) s2(2) up[where sa = s1] up[where sa = s2] by (fastforce simp: list_all_iff list_ex_iff)
    moreover have "os_sent W' = os_sent W @ (s1 @ s2)" using s1(1) s2(1) by simp
    ultimately show ?thesis using g by blast
  qed
qed

lemma tasks_ingest_all [frame]: "keeps lg_tasks (ingest_all es)"
  by (induction es) (simp_all add: frame)

text \<open>C10: whatever the ledger, the files and the operating system answer, recovery changes task rows only by giving
  in-flight tasks back, and only those of fleets that it cleared: not run by the Temporal engine; the recorded owner, if
  any, seen not running; without a recorded owner only when the fleet has launch tokens or the operator asked for such
  fleets; every launch token that it could list readable, with an owner seen not running and a worker proven gone; and no
  in-flight task without a token that was marked as launching. A token directory that cannot be listed has no tokens for
  it, so that a worker of such a fleet may still run (\<open>unreadable_directory_gives_back\<close> below). And every signal goes
  to the group of a launch token, right after the system confirmed the worker, or is the SIGKILL to a group that got such
  a confirmed SIGTERM and still had members after it, right after the system reported the process id as vacant.\<close>

theorem recovery_gives_back_only_proven:
  "case recover_stale_fleets T D opts W L of (r, W', L') \<Rightarrow>
     (\<exists>fs. lg_tasks L' = give_rows fs (lg_tasks L) \<and> list_all (\<lambda>f. cleared T D opts f L) fs)
   \<and> (\<exists>sent. os_sent W' = os_sent W @ sent \<and> list_all (\<lambda>s. \<exists>f. token_signal T (fleet_tokens D f) sent s) sent)"
proof -
  obtain r W' L' where rs: "recover_stale_fleets T D opts W L = (r, W', L')" by (rule prod_cases3)
  have k: "keeps lg_tasks (and_then open_conn (\<lambda>_. sql (\<lambda>L. (stale_candidates L, L))))" by (intro frame) simp_all
  obtain a L1 where a: "and_then open_conn (\<lambda>_. sql (\<lambda>L. (stale_candidates L, L))) L = (a, L1)" by (rule prod.exhaust)
  note same = keepsD[OF k a]
  have none: "\<exists>fs. lg_tasks L = give_rows fs (lg_tasks L) \<and> list_all (\<lambda>f. cleared T D opts f L) fs"
    by (rule exI[of _ "[]"]) simp
  have "(\<exists>fs. lg_tasks L' = give_rows fs (lg_tasks L) \<and> list_all (\<lambda>f. cleared T D opts f L) fs)
   \<and> (\<exists>sent. os_sent W' = os_sent W @ sent \<and> list_all (\<lambda>s. \<exists>f. token_signal T (fleet_tokens D f) sent s) sent)"
  proof (cases a)
    case (Inl e)
    with rs a have "L' = L1" "W' = W" by (simp_all add: recover_stale_fleets_def)
    with same none show ?thesis by simp
  next
    case (Inr fs)
    obtain e R W2 L2 where rf: "recover_fleets T D opts fs (empty_report, W, L1) = (e, R, W2, L2)" by (metis prod_cases3 prod.exhaust)
    have ev: "keeps lg_tasks (and_then open_conn (\<lambda>_. ingest_all es))" for es
      by (intro keeps_and_then tasks_ingest_all keeps_open_conn) simp
    have "lg_tasks L' = lg_tasks L2 \<and> W' = W2"
      using rs a Inr rf keepsD[OF ev]
      by (auto simp: recover_stale_fleets_def split: option.split_asm if_split_asm prod.split_asm sum.split_asm)
    moreover have "lg_tasks L1 = give_rows [] (lg_tasks L)" "list_all (\<lambda>f. cleared T D opts f L) []" using same by simp_all
    note sp = recover_fleets_spec[OF rf this]
    moreover have "\<exists>sent. os_sent W2 = os_sent W @ sent \<and> list_all (\<lambda>s. \<exists>f. token_signal T (fleet_tokens D f) sent s) sent"
      using sp unfolding list_all_iff list_ex_iff by blast
    ultimately show ?thesis by auto
  qed
  then show ?thesis by (simp only: rs prod.case)
qed

subsection \<open>Concrete recoveries\<close>

definition crashed :: ledger where
  "crashed = (demo_fleet [''t''])\<lparr>lg_fleets := [\<lparr>fl_id = ''f'', fl_description = [], fl_state = ''running'', fl_failure_reason = None\<rparr>]\<rparr>"

definition dead_owner_disk :: "(string \<times> (string + WorkerToken option)) list option \<Rightarrow> disk" where
  "dead_owner_disk dir = \<lparr>dk_engine = (\<lambda>_. None), dk_dir = (\<lambda>_. dir),
     dk_owner = (\<lambda>_. Inr (Some \<lparr>id_pid = 9, id_start_time_us = 1\<rparr>)), dk_marker = (\<lambda>_ _. False)\<rparr>"

definition worker_os :: os_view where
  "worker_os = \<lparr>ov_proc = (\<lambda>_ p. if p = 42 then Some \<lparr>pi_start_time_us = 7, pi_pgid = 42\<rparr> else None),
     ov_probe = (\<lambda>_ _. None), ov_kill = (\<lambda>_. None), ov_clock = (\<lambda>k. k), ov_self = 1\<rparr>"

definition start_run :: os_run where
  "start_run = \<lparr>os_tick = 0, os_slept = 0, os_sent = []\<rparr>"

text \<open>The worker of a task is running. A token that cannot be read blocks the recovery; a directory that cannot be read
  reads as no tokens at all, and the task is given back while its worker runs.\<close>

lemma unreadable_token_blocks:
  "map tk_state (lg_tasks (snd (snd (recover_stale_fleets worker_os (dead_owner_disk (Some [(''t.json'', Inl ''denied'')]))
     \<lparr>ro_include_ownerless = False, ro_grace = 0\<rparr> start_run crashed)))) = [''claimed'']"
  by code_simp

lemma unreadable_directory_gives_back:
  "map tk_state (lg_tasks (snd (snd (recover_stale_fleets worker_os (dead_owner_disk None)
     \<lparr>ro_include_ownerless = False, ro_grace = 0\<rparr> start_run crashed)))) = [''pending'']"
  by code_simp

text \<open>The directories that the operator's recovery deletes: \<open>{fleet}-T-NNN-{agent}\<close> or
  \<open>{fleet}-{fleet}-T-NNN-{agent}\<close>, with digits and an agent name of one word.\<close>

lemma split_once_dash:
  "split_once s ''-'' = Some (a, b) \<Longrightarrow> s = a @ ''-'' @ b"
proof -
  assume so: "split_once s ''-'' = Some (a, b)"
  then obtain i where i: "find_sub s ''-'' = Some i" "a = take i s" "b = drop (i + 1) s"
    by (cases "find_sub s ''-''") (simp_all add: split_once_def)
  from find_sub_SomeD[OF i(1)] obtain r where r: "s = take i s @ ''-'' @ r" "i < length s" by auto
  then have "b = r" using i(3) by (metis Suc_eq_plus1 append.assoc append_eq_conv_conj i(2) length_append_singleton length_take min.absorb4)
  with r(1) i(2) show "s = a @ ''-'' @ b" by simp
qed

lemma deleted_directory_shape:
  assumes "is_fleet_worktree name fleet"
  shows "\<exists>pre num agent. pre \<in> {[], fleet @ ''-''} \<and> name = fleet @ ''-'' @ pre @ ''T-'' @ num @ ''-'' @ agent
     \<and> num \<noteq> [] \<and> list_all is_ascii_digit num \<and> agent \<noteq> [] \<and> CHR ''-'' \<notin> set agent \<and> CHR ''/'' \<notin> set agent"
proof -
  obtain r0 where r0: "Option.bind (strip_prefix name fleet) (\<lambda>r. strip_prefix r ''-'') = Some r0"
    using assms unfolding is_fleet_worktree_def by (cases "Option.bind (strip_prefix name fleet) (\<lambda>r. strip_prefix r ''-'')") simp_all
  then have name: "name = fleet @ ''-'' @ r0" by (auto simp: bind_eq_Some_conv strip_prefix_Some)
  define rest where "rest = (case Option.bind (strip_prefix r0 fleet) (\<lambda>r. strip_prefix r ''-'') of Some r \<Rightarrow> r | None \<Rightarrow> r0)"
  obtain pre where pre: "pre \<in> {[], fleet @ ''-''}" "r0 = pre @ rest"
  proof (cases "Option.bind (strip_prefix r0 fleet) (\<lambda>r. strip_prefix r ''-'')")
    case None
    then show thesis by (intro that[of "[]"]) (simp_all add: rest_def)
  next
    case (Some r)
    then have "r0 = fleet @ ''-'' @ r" by (auto simp: bind_eq_Some_conv strip_prefix_Some)
    with Some show thesis by (intro that[of "fleet @ ''-''"]) (simp_all add: rest_def)
  qed
  from assms r0 obtain r1 where r1: "strip_prefix rest ''T-'' = Some r1"
    unfolding is_fleet_worktree_def by (auto simp: rest_def[symmetric] Let_def split: option.split_asm)
  from assms r0 r1 obtain num agent where so: "split_once r1 ''-'' = Some (num, agent)"
    and ok: "num \<noteq> []" "list_all is_ascii_digit num" "agent \<noteq> []" "list_all (\<lambda>b. is_ascii_alphanumeric b \<or> b = CHR ''_'') agent"
    unfolding is_fleet_worktree_def by (auto simp: rest_def[symmetric] Let_def split: option.split_asm)
  have "CHR ''-'' \<notin> set agent" "CHR ''/'' \<notin> set agent"
    using ok(4) by (auto simp: list_all_iff is_ascii_alphanumeric_def is_ascii_uppercase_def is_ascii_lowercase_def is_ascii_digit_def)
  moreover have "name = fleet @ ''-'' @ pre @ ''T-'' @ num @ ''-'' @ agent"
    using name pre(2) r1 split_once_dash[OF so] by (simp add: strip_prefix_Some)
  ultimately show ?thesis using pre(1) ok by blast
qed

end
