(* ===== verification/Shell_Reads.thy ===== *)
theory Shell_Reads
  imports Rust_Text "HOL-Library.Monad_Syntax"
begin

text \<open>
  Which shell commands count as reading a file (\<open>agent-adapter/src/codex.rs\<close>, first half). A reviewer
  reports its work as shell commands; from the text of a command alone these functions decide which
  file it read and which lines: \<open>cat\<close> and \<open>nl\<close> read a file whole, \<open>sed -n 'a,bp'\<close> reads a window, and
  chains are taken apart only where every link is known to have run.

  Numbers are \<open>u64\<close> or \<open>usize\<close> of a release build: they are read with a bound of \<open>2 ^ 64\<close>, and \<open>wrap64\<close>
  is written where a sum can leave that range.
\<close>

subsection \<open>Taking a command apart\<close>

abbreviation squote :: char where
  "squote \<equiv> CHR 0x27"

abbreviation dquote :: char where
  "dquote \<equiv> CHR 0x22"

abbreviation backslash :: char where
  "backslash \<equiv> CHR 0x5C"

abbreviation backtick :: char where
  "backtick \<equiv> CHR 0x60"

definition contains_any :: "string \<Rightarrow> char list \<Rightarrow> bool" where
  "contains_any s cs \<longleftrightarrow> list_ex (\<lambda>c. c \<in> set cs) s"

definition SHELLS :: "string list" where
  "SHELLS = [''sh'', ''bash'', ''zsh'', ''dash'', ''ksh'']"

definition shell_c_script :: "string \<Rightarrow> string option" where
  "shell_c_script cmd =
     (case split_whitespace cmd of
        program # flag # _ \<Rightarrow>
          if base_name program \<notin> set SHELLS then None
          else if \<not> (starts_with flag ''-'' \<and> ends_with flag ''c'') then None
          else Some (trim (drop (case find_sub cmd flag of Some i \<Rightarrow> i + length flag | None \<Rightarrow> length cmd) cmd))
      | _ \<Rightarrow> None)"

definition unquoted_script :: "char \<Rightarrow> string \<Rightarrow> string option" where
  "unquoted_script q rest =
     (if starts_with rest [q] \<and> ends_with rest [q] \<and> length rest \<ge> 2
         \<and> q \<notin> set (butlast (List.tl rest))
      then Some (butlast (List.tl rest)) else None)"

definition unwrap_shell_wrapper :: "string \<Rightarrow> string" where
  "unwrap_shell_wrapper cmd =
     (case shell_c_script cmd of
        None \<Rightarrow> cmd
      | Some rest \<Rightarrow>
          (case unquoted_script squote rest of
             Some inner \<Rightarrow> inner
           | None \<Rightarrow> (case unquoted_script dquote rest of Some inner \<Rightarrow> inner | None \<Rightarrow> cmd)))"

text \<open>\<open>join_adjacent_quotes\<close>: the three loops are one scan, whose mode is the quote it is inside of.\<close>

fun join_quotes :: "char option \<Rightarrow> string \<Rightarrow> string option" where
  "join_quotes None [] = Some []"
| "join_quotes (Some q) [] = None"
| "join_quotes None (c # cs) =
     (if c = squote \<or> c = dquote then join_quotes (Some c) cs else None)"
| "join_quotes (Some q) (c # cs) =
     (if c = q then join_quotes None cs
      else if q = squote then map_option ((#) c) (join_quotes (Some q) cs)
      else if c = CHR ''$'' \<or> c = backtick then None
      else if c = backslash then
        (case cs of
           [] \<Rightarrow> None
         | e # es \<Rightarrow> if e \<in> {dquote, backslash, CHR ''$'', backtick}
                     then map_option ((#) e) (join_quotes (Some q) es) else None)
      else map_option ((#) c) (join_quotes (Some q) cs))"

definition join_adjacent_quotes :: "string \<Rightarrow> string option" where
  "join_adjacent_quotes word = join_quotes None word"

definition normalize_wrapped_script :: "string \<Rightarrow> string" where
  "normalize_wrapped_script cmd =
     (case shell_c_script cmd of
        None \<Rightarrow> cmd
      | Some rest \<Rightarrow>
          if length (unwrap_shell_wrapper cmd) \<noteq> length cmd then cmd
          else (case join_adjacent_quotes rest of Some s \<Rightarrow> s | None \<Rightarrow> cmd))"

subsection \<open>Line windows\<close>

record LineRange =
  lr_start :: nat
  lr_end :: "nat option"

record Decoration =
  number_width :: "nat option"
  dollar :: bool
  visible :: bool

abbreviation plain_decoration :: Decoration where
  "plain_decoration \<equiv> \<lparr>number_width = None, dollar = False, visible = False\<rparr>"

record RangedRead =
  rr_range :: LineRange
  rr_operand :: string
  via_nl :: bool
  rr_decoration :: Decoration

definition wrap64 :: "nat \<Rightarrow> nat" where
  "wrap64 n = n mod 18446744073709551616"

text \<open>\<open>ilog10\<close> of a positive number.\<close>

fun ilog10 :: "nat \<Rightarrow> nat" where
  "ilog10 n = (if n < 10 then 0 else Suc (ilog10 (n div 10)))"

declare ilog10.simps [simp del]

definition printed_len :: "Decoration \<Rightarrow> string \<Rightarrow> nat \<Rightarrow> nat" where
  "printed_len d line line_no =
     wrap64 (length line
       + (case number_width d of None \<Rightarrow> 0 | Some w \<Rightarrow> max w (ilog10 (max line_no 1) + 1) + 1)
       + (if dollar d then 1 else 0)
       + (if visible d
          then 3 * length (filter (\<lambda>b. b \<noteq> nl_char \<and> \<not> (32 \<le> (of_char b :: nat) \<and> (of_char b :: nat) < 127)) line)
          else 0))"

definition strip_quotes :: "string \<Rightarrow> string" where
  "strip_quotes tok =
     (case Option.bind (strip_prefix tok [squote]) (\<lambda>t. strip_suffix t [squote]) of
        Some inner \<Rightarrow> inner
      | None \<Rightarrow>
          (case Option.bind (strip_prefix tok [dquote]) (\<lambda>t. strip_suffix t [dquote]) of
             Some inner \<Rightarrow> inner
           | None \<Rightarrow> tok))"

definition parse_sed_print_range :: "string \<Rightarrow> LineRange option" where
  "parse_sed_print_range script = do {
     body \<leftarrow> strip_suffix (strip_quotes script) ''p'';
     let (a, b) = (case split_once body '','' of
                     Some (a, b) \<Rightarrow> (a, if b = ''$'' then None else Some b)
                   | None \<Rightarrow> (body, Some body));
     start \<leftarrow> (case parse_uint 64 a of Some n \<Rightarrow> if n > 0 then Some n else None | None \<Rightarrow> None);
     (case b of
        None \<Rightarrow> Some \<lparr>lr_start = start, lr_end = None\<rparr>
      | Some e \<Rightarrow>
          (case parse_uint 64 e of
             Some n \<Rightarrow> if n \<ge> start then Some \<lparr>lr_start = start, lr_end = Some n\<rparr> else None
           | None \<Rightarrow> None))
   }"

definition sed_range_stage :: "string \<Rightarrow> bool \<Rightarrow> (LineRange \<times> string option) option" where
  "sed_range_stage stage with_operand =
     (let toks = split_whitespace stage in
      if length toks \<noteq> (if with_operand then 4 else 3) then None
      else if base_name (toks ! 0) \<noteq> ''sed'' \<or> toks ! 1 \<noteq> ''-n'' then None
      else if with_operand then
        (let op = strip_quotes (toks ! 3) in
         if starts_with op ''-'' \<or> op = [] then None
         else map_option (\<lambda>r. (r, Some op)) (parse_sed_print_range (toks ! 2)))
      else map_option (\<lambda>r. (r, None)) (parse_sed_print_range (toks ! 2)))"

definition CAT_PORTABLE_LINE_PRESERVING_FLAGS :: "string list" where
  "CAT_PORTABLE_LINE_PRESERVING_FLAGS = [''-n'', ''-b'', ''-v'', ''-e'', ''-t'']"

definition nl_flag_is_line_preserving :: "string \<Rightarrow> bool" where
  "nl_flag_is_line_preserving tok \<longleftrightarrow>
     tok \<in> {''-ba'', ''-bt'', ''-bn''}
     \<or> (case strip_prefix tok ''-w'' of
          None \<Rightarrow> False
        | Some d \<Rightarrow> (case parse_uint 32 d of Some n \<Rightarrow> n > 0 | None \<Rightarrow> False))"

definition decorate :: "string \<Rightarrow> string \<Rightarrow> Decoration \<Rightarrow> Decoration" where
  "decorate base tok d =
     (if base = ''cat'' \<and> tok \<in> {''-n'', ''-b''} then d\<lparr>number_width := Some 6\<rparr>
      else if base = ''cat'' \<and> tok = ''-e'' then d\<lparr>dollar := True, visible := True\<rparr>
      else if base = ''cat'' \<and> tok \<in> {''-v'', ''-t''} then d\<lparr>visible := True\<rparr>
      else if base = ''nl'' \<and> starts_with tok ''-w'' then d\<lparr>number_width := parse_uint 64 (drop 2 tok)\<rparr>
      else d)"

fun reader_operands ::
  "string \<Rightarrow> string list \<Rightarrow> string option \<Rightarrow> Decoration \<Rightarrow> (string \<times> Decoration) option"
where
  "reader_operands base [] operand d = map_option (\<lambda>op. (op, d)) operand"
| "reader_operands base (tok # toks) operand d =
     (if tok = ''-'' then None
      else if starts_with tok ''-'' then
        (if (if base = ''cat'' then tok \<in> set CAT_PORTABLE_LINE_PRESERVING_FLAGS
             else nl_flag_is_line_preserving tok)
         then reader_operands base toks operand (decorate base tok d) else None)
      else if operand \<noteq> None then None
      else (let op = strip_quotes tok in
            if op = [] \<or> starts_with op ''-'' then None
            else reader_operands base toks (Some op) d))"

definition whole_file_reader_with_one_operand :: "string \<Rightarrow> (string \<times> bool \<times> Decoration) option" where
  "whole_file_reader_with_one_operand stage =
     (case split_whitespace stage of
        [] \<Rightarrow> None
      | program # toks \<Rightarrow>
          (let base = base_name program in
           if base \<noteq> ''cat'' \<and> base \<noteq> ''nl'' then None
           else map_option (\<lambda>(op, d). (op, base = ''nl'', d))
                  (reader_operands base toks None
                     (if base = ''nl'' then plain_decoration\<lparr>number_width := Some 6\<rparr>
                      else plain_decoration))))"

fun nl_filter_flags :: "nat \<Rightarrow> string list \<Rightarrow> Decoration \<Rightarrow> Decoration option" where
  "nl_filter_flags window_start [] d = Some d"
| "nl_filter_flags window_start (tok # toks) d =
     (if tok \<in> {''-ba'', ''-bt'', ''-bn''} then nl_filter_flags window_start toks d
      else case strip_prefix tok ''-w'' of
          Some w \<Rightarrow>
            (case parse_uint 64 w of
               Some n \<Rightarrow> if n > 0 then nl_filter_flags window_start toks (d\<lparr>number_width := Some n\<rparr>) else None
             | None \<Rightarrow> None)
        | None \<Rightarrow>
            (case strip_prefix tok ''-v'' of
               Some k \<Rightarrow>
                 (case parse_uint 64 k of
                    Some n \<Rightarrow> if n \<le> window_start then nl_filter_flags window_start toks d else None
                  | None \<Rightarrow> None)
             | None \<Rightarrow> None))"

definition nl_numbering_filter :: "string \<Rightarrow> nat \<Rightarrow> Decoration option" where
  "nl_numbering_filter stage window_start =
     (case split_whitespace stage of
        [] \<Rightarrow> None
      | program # toks \<Rightarrow>
          if base_name program \<noteq> ''nl'' then None
          else nl_filter_flags window_start toks (plain_decoration\<lparr>number_width := Some 6\<rparr>))"

definition command_read_range :: "string \<Rightarrow> RangedRead option" where
  "command_read_range command =
     (let cmd = unwrap_shell_wrapper (trim command) in
      if cmd = [] \<or> contains_sub cmd ''&&'' \<or> contains_sub cmd ''||'' \<or> CHR '';'' \<in> set cmd
         \<or> CHR ''&'' \<in> set cmd \<or> CHR ''>'' \<in> set cmd \<or> CHR ''<'' \<in> set cmd \<or> backtick \<in> set cmd
         \<or> contains_sub cmd ''$('' \<or> contains_sub cmd [CHR ''$'', squote] then None
      else case map trim (split_char (CHR ''|'') cmd) of
          [single] \<Rightarrow>
            (case sed_range_stage single True of
               Some (rng, Some op) \<Rightarrow>
                 Some \<lparr>rr_range = rng, rr_operand = op, via_nl = False, rr_decoration = plain_decoration\<rparr>
             | _ \<Rightarrow> None)
        | [reader, filter_stage] \<Rightarrow>
            (case whole_file_reader_with_one_operand reader of
               Some (op, nl, d) \<Rightarrow>
                 map_option (\<lambda>(rng, _). \<lparr>rr_range = rng, rr_operand = op, via_nl = nl, rr_decoration = d\<rparr>)
                   (sed_range_stage filter_stage False)
             | None \<Rightarrow>
                 (case sed_range_stage reader True of
                    Some (rng, Some op) \<Rightarrow>
                      map_option (\<lambda>d. \<lparr>rr_range = rng, rr_operand = op, via_nl = True, rr_decoration = d\<rparr>)
                        (nl_numbering_filter filter_stage (lr_start rng))
                  | _ \<Rightarrow> None))
        | _ \<Rightarrow> None)"

definition whole_file_read :: "string \<Rightarrow> (string \<times> Decoration) option" where
  "whole_file_read command =
     (if command_read_range command \<noteq> None then None
      else let cmd = unwrap_shell_wrapper (trim command) in
        if contains_any cmd [CHR ''|'', CHR ''<'', CHR ''>'', CHR ''#'', CHR '';'', CHR ''&'', backtick,
             CHR ''$'', CHR ''('', CHR '')''] then None
        else map_option (\<lambda>(op, _, d). (op, d)) (whole_file_reader_with_one_operand cmd))"

definition whole_file_read_operand :: "string \<Rightarrow> string option" where
  "whole_file_read_operand command =
     (if command_read_range command \<noteq> None then None
      else let cmd = unwrap_shell_wrapper (trim command) in
        if contains_any cmd [CHR ''|'', CHR ''<'', CHR ''>'', CHR ''#'', CHR '';'', CHR ''&'', backtick,
             CHR ''$'', CHR ''('', CHR '')''] then None
        else map_option fst (whole_file_read cmd))"

subsection \<open>Chains and sequences\<close>

definition UNSAFE_FIRST_WORDS :: "string list" where
  "UNSAFE_FIRST_WORDS =
     [''if'', ''then'', ''else'', ''elif'', ''fi'', ''case'', ''esac'', ''for'', ''select'', ''while'', ''until'',
      ''do'', ''done'', ''function'', ''time'', ''coproc'', ''exit'', ''return'', ''exec'', ''break'',
      ''continue'', ''eval'', ''source'', ''.'', ''alias'', ''unalias'', ''cd'', ''pushd'', ''popd'', ''set'',
      ''shopt'', ''setopt'', ''trap'', ''kill'', ''builtin'', ''command'', ''enable'', ''hash'', ''export'',
      ''unset'', ''declare'', ''typeset'', ''local'', ''readonly'', ''!'', ''[['', ''{'', ''}'']"

text \<open>The scan of \<open>chain_links_are_unprovable\<close>: the quote it is inside of, the link so far and the text
  that is left. \<open>None\<close> is the early \<open>return true\<close> on a bracket outside quotes.\<close>

fun chain_links :: "char option \<Rightarrow> string \<Rightarrow> string \<Rightarrow> string list option" where
  "chain_links quote link [] = Some [link]"
| "chain_links (Some q) link (b # bs) =
     chain_links (if b = q then None else Some q) (link @ [b]) bs"
| "chain_links None link (b # bs) =
     (if b = squote \<or> b = dquote then chain_links (Some b) (link @ [b]) bs
      else if b \<in> {CHR ''('', CHR '')'', CHR ''{'', CHR ''}''} then None
      else if b = CHR '';'' \<or> b = nl_char then map_option ((#) link) (chain_links None [] bs)
      else if b = CHR ''&'' \<and> starts_with bs ''&'' then map_option ((#) link) (chain_links None [] (drop 1 bs))
      else chain_links None (link @ [b]) bs)"

definition unsafe_link :: "string \<Rightarrow> bool" where
  "unsafe_link l \<longleftrightarrow>
     (let first = (case split_whitespace l of [] \<Rightarrow> [] | w # _ \<Rightarrow> w) in
      first \<in> set UNSAFE_FIRST_WORDS \<or> CHR ''='' \<in> set first)"

definition chain_links_are_unprovable :: "string \<Rightarrow> bool" where
  "chain_links_are_unprovable command \<longleftrightarrow>
     contains_sub command ''<<'' \<or> contains_sub command [backslash, nl_char]
     \<or> (case chain_links None [] command of None \<Rightarrow> True | Some links \<Rightarrow> list_ex unsafe_link links)"

text \<open>The scan of \<open>split_unquoted\<close>: the pieces, and the quote still open at the end. The separators in
  use are not empty, so \<open>length sep - 1\<close> bytes are left of one after its first.\<close>

fun split_scan :: "string \<Rightarrow> char option \<Rightarrow> string \<Rightarrow> string \<Rightarrow> string list \<times> char option" where
  "split_scan sep quote piece [] = ([piece], quote)"
| "split_scan sep (Some q) piece (b # bs) =
     split_scan sep (if b = q then None else Some q) (piece @ [b]) bs"
| "split_scan sep None piece (b # bs) =
     (if b = squote \<or> b = dquote then split_scan sep (Some b) (piece @ [b]) bs
      else if starts_with (b # bs) sep then
        (case split_scan sep None [] (drop (length sep - 1) bs) of (ps, q) \<Rightarrow> (piece # ps, q))
      else split_scan sep None (piece @ [b]) bs)"

definition split_unquoted :: "string \<Rightarrow> string \<Rightarrow> string list" where
  "split_unquoted command sep =
     (case split_scan sep None [] command of
        (_, Some q) \<Rightarrow> [trim command]
      | (ps, None) \<Rightarrow> filter (\<lambda>s. s \<noteq> []) (map trim ps))"

definition and_chain_segments :: "string \<Rightarrow> string list" where
  "and_chain_segments command =
     (if chain_links_are_unprovable command then [trim command] else split_unquoted command ''&&'')"

definition literal_word :: "string \<Rightarrow> string \<Rightarrow> bool" where
  "literal_word extra t \<longleftrightarrow> list_all (\<lambda>c. is_ascii_alphanumeric c \<or> c \<in> set extra) t"

definition is_inert_echo :: "string \<Rightarrow> bool" where
  "is_inert_echo link =
     (case split_whitespace link of
        [] \<Rightarrow> False
      | t # ts \<Rightarrow> t = ''echo'' \<and> list_all (literal_word ''._/-:,+@%'') ts)"

definition link_read :: "string \<Rightarrow> string option" where
  "link_read link =
     (case command_read_range link of
        Some r \<Rightarrow> Some (rr_operand r)
      | None \<Rightarrow> map_option fst (whole_file_read link))"

fun sequence_links :: "string list \<Rightarrow> string option \<Rightarrow> bool \<Rightarrow> (string option \<times> bool) option" where
  "sequence_links [] operand last_is_read = Some (operand, last_is_read)"
| "sequence_links (link # links) operand last_is_read =
     (if contains_sub link ''&&'' \<or> contains_sub link ''||'' then None
      else case link_read link of
          Some op \<Rightarrow>
            if (case operand of None \<Rightarrow> False | Some old \<Rightarrow> old \<noteq> op) then None
            else sequence_links links (Some op) True
        | None \<Rightarrow> if is_inert_echo link then sequence_links links operand False else None)"

definition sequence_of_reads :: "string \<Rightarrow> string list option" where
  "sequence_of_reads cmd =
     (if chain_links_are_unprovable cmd then None
      else let links = concat (map (\<lambda>l. split_unquoted l [nl_char]) (split_unquoted cmd '';'')) in
        if length links < 2 then None
        else case sequence_links links None False of
            Some (Some op, True) \<Rightarrow> Some links
          | _ \<Rightarrow> None)"

definition read_segments :: "string \<Rightarrow> string list" where
  "read_segments command =
     (let cmd = unwrap_shell_wrapper (trim command) in
      case sequence_of_reads cmd of Some links \<Rightarrow> links | None \<Rightarrow> and_chain_segments cmd)"

definition whole_file_reads :: "string \<Rightarrow> (string \<times> Decoration) list" where
  "whole_file_reads command = List.map_filter whole_file_read (read_segments command)"

definition whole_file_read_operands :: "string \<Rightarrow> string list" where
  "whole_file_read_operands command = List.map_filter whole_file_read_operand (read_segments command)"

definition command_read_ranges :: "string \<Rightarrow> RangedRead list" where
  "command_read_ranges command = List.map_filter command_read_range (read_segments command)"

subsection \<open>The kind of a shell call\<close>

definition READERS :: "string list" where
  "READERS = [''cat'', ''head'', ''tail'', ''nl'', ''bat'', ''od'', ''xxd'', ''strings'', ''cut'', ''pr'', ''zcat'',
     ''more'', ''less'']"

definition WHOLE_FILE_READERS :: "string list" where
  "WHOLE_FILE_READERS = [''cat'', ''nl'', ''bat'', ''od'', ''xxd'', ''strings'', ''pr'', ''zcat'']"

definition in_place_flag :: "string \<Rightarrow> bool" where
  "in_place_flag tok \<longleftrightarrow>
     tok = ''-i'' \<or> (starts_with tok ''-i'' \<and> length tok \<le> 4) \<or> starts_with tok ''--in-place''"

definition segment_reads_file_contents :: "string \<Rightarrow> bool" where
  "segment_reads_file_contents command =
     (if command_read_range command \<noteq> None then True
      else let cmd = unwrap_shell_wrapper (trim command) in
        if cmd = [] then False
        else if contains_sub cmd ''&&'' \<or> contains_sub cmd ''||'' \<or> CHR '';'' \<in> set cmd
                \<or> CHR ''|'' \<in> set cmd \<or> CHR ''&'' \<in> set cmd then False
        else if CHR ''>'' \<in> set cmd then False
        else case split_whitespace cmd of
            [] \<Rightarrow> False
          | program # toks \<Rightarrow>
              if list_ex in_place_flag toks then False else base_name program \<in> set READERS)"

definition command_reads_file_contents :: "string \<Rightarrow> bool" where
  "command_reads_file_contents command = list_ex segment_reads_file_contents (read_segments command)"

definition segment_reads_whole_file :: "string \<Rightarrow> bool" where
  "segment_reads_whole_file command =
     (if \<not> command_reads_file_contents command then False
      else if command_read_range command \<noteq> None then False
      else case split_whitespace (unwrap_shell_wrapper (trim command)) of
          [] \<Rightarrow> False
        | program # _ \<Rightarrow> base_name program \<in> set WHOLE_FILE_READERS)"

definition command_reads_whole_file :: "string \<Rightarrow> bool" where
  "command_reads_whole_file command = list_ex segment_reads_whole_file (read_segments command)"

datatype ToolKind = ReadFile | WriteFile | EditFile | Bash | Grep | Glob | RequestUserInput | UnknownTool

definition shell_command_from_value :: "json option \<Rightarrow> string option" where
  "shell_command_from_value args = do {
     v \<leftarrow> args;
     c \<leftarrow> (case json_get v ''command'' of Some c \<Rightarrow> Some c | None \<Rightarrow> json_get v ''CommandLine'');
     s \<leftarrow> as_str c;
     Some (normalize_wrapped_script s)
   }"

definition shell_command_from_args_json :: "(string \<Rightarrow> json option) \<Rightarrow> string \<Rightarrow> string option" where
  "shell_command_from_args_json from_json args = do {
     v \<leftarrow> from_json args;
     shell_command_from_value (Some v)
   }"

definition shell_read_kind :: "ToolKind \<Rightarrow> json option \<Rightarrow> ToolKind" where
  "shell_read_kind kind args =
     (if kind \<noteq> Bash then kind
      else case shell_command_from_value args of
          Some cmd \<Rightarrow> if command_reads_file_contents cmd then ReadFile else kind
        | None \<Rightarrow> kind)"

definition COLLAB_TOOL :: string where
  "COLLAB_TOOL = ''collab_tool_call''"

subsection \<open>A read is bound to its operand\<close>

definition vetted_flag :: "string \<Rightarrow> string \<Rightarrow> bool" where
  "vetted_flag base f \<longleftrightarrow>
     starts_with f ''-'' \<and> f \<noteq> ''-''
     \<and> (if base = ''cat'' then f \<in> set CAT_PORTABLE_LINE_PRESERVING_FLAGS else nl_flag_is_line_preserving f)"

lemma reader_operands_given:
  "reader_operands base toks (Some op) d = Some (op', d') \<Longrightarrow> op' = op \<and> list_all (vetted_flag base) toks"
  by (induction toks arbitrary: d) (auto simp: vetted_flag_def split: if_split_asm)

lemma reader_operands_bound:
  "reader_operands base toks None d = Some (op, d') \<Longrightarrow>
     \<exists>pre tok post. toks = pre @ tok # post \<and> \<not> starts_with tok ''-'' \<and> op = strip_quotes tok \<and> op \<noteq> []
       \<and> \<not> starts_with op ''-'' \<and> list_all (vetted_flag base) (pre @ post)"
proof (induction toks arbitrary: d)
  case (Cons t toks)
  show ?case
  proof (cases "starts_with t ''-''")
    case True
    with Cons.prems have v: "vetted_flag base t"
      and "reader_operands base toks None (decorate base t d) = Some (op, d')"
      by (auto simp: vetted_flag_def split: if_split_asm)
    from Cons.IH [OF this(2)] obtain pre tok post where
      *: "toks = pre @ tok # post" "\<not> starts_with tok ''-''" "op = strip_quotes tok" "op \<noteq> []"
        "\<not> starts_with op ''-''" "list_all (vetted_flag base) (pre @ post)"
      by blast
    show ?thesis using * v by (intro exI [of _ "t # pre"] exI [of _ tok] exI [of _ post]) simp
  next
    case False
    with Cons.prems have "reader_operands base toks (Some (strip_quotes t)) d = Some (op, d')"
      "strip_quotes t \<noteq> []" "\<not> starts_with (strip_quotes t) ''-''"
      by (auto simp: Let_def split: if_split_asm)
    with reader_operands_given [OF this(1)] False show ?thesis
      by (intro exI [of _ "[]"] exI [of _ t] exI [of _ toks]) simp
  qed
qed simp

definition reads_whole :: "string \<Rightarrow> string \<Rightarrow> bool" where
  "reads_whole cmd op \<longleftrightarrow>
     (\<exists>program pre tok post. split_whitespace cmd = program # pre @ tok # post
        \<and> base_name program \<in> {''cat'', ''nl''} \<and> op = strip_quotes tok \<and> op \<noteq> [] \<and> \<not> starts_with tok ''-''
        \<and> list_all (vetted_flag (base_name program)) (pre @ post))"

lemma whole_file_reader_bound:
  "whole_file_reader_with_one_operand stage = Some (op, nl, d) \<Longrightarrow> reads_whole stage op"
proof -
  assume "whole_file_reader_with_one_operand stage = Some (op, nl, d)"
  then obtain program toks d0 where toks: "split_whitespace stage = program # toks"
    and base: "base_name program \<in> {''cat'', ''nl''}"
    and "reader_operands (base_name program) toks None d0 = Some (op, d)"
    by (auto simp: whole_file_reader_with_one_operand_def Let_def split: list.split_asm if_split_asm)
  from reader_operands_bound [OF this(3)] obtain pre tok post where
    "toks = pre @ tok # post" "\<not> starts_with tok ''-''" "op = strip_quotes tok" "op \<noteq> []"
    "list_all (vetted_flag (base_name program)) (pre @ post)"
    by blast
  with toks base show ?thesis
    unfolding reads_whole_def
    by (intro exI [of _ program] exI [of _ pre] exI [of _ tok] exI [of _ post]) simp
qed

lemma whole_file_read_bound:
  assumes "whole_file_read command = Some (op, d)"
  shows "reads_whole (unwrap_shell_wrapper (trim command)) op
    \<and> \<not> contains_any (unwrap_shell_wrapper (trim command)) ''|<>#;&$()''"
proof -
  let ?cmd = "unwrap_shell_wrapper (trim command)"
  have free: "\<not> contains_any ?cmd [CHR ''|'', CHR ''<'', CHR ''>'', CHR ''#'', CHR '';'', CHR ''&'', backtick,
      CHR ''$'', CHR ''('', CHR '')'']"
    and "map_option (\<lambda>(op, _, d). (op, d)) (whole_file_reader_with_one_operand ?cmd) = Some (op, d)"
    using assms unfolding whole_file_read_def Let_def by (metis option.distinct(1))+
  then obtain nl where "whole_file_reader_with_one_operand ?cmd = Some (op, nl, d)" by auto
  moreover from free have "\<not> contains_any ?cmd ''|<>#;&$()''"
    by (simp add: contains_any_def list_ex_iff)
  ultimately show ?thesis by (simp add: whole_file_reader_bound)
qed

definition valid_window :: "LineRange \<Rightarrow> bool" where
  "valid_window r \<longleftrightarrow>
     0 < lr_start r \<and> lr_start r < 2 ^ 64
     \<and> (case lr_end r of None \<Rightarrow> True | Some e \<Rightarrow> lr_start r \<le> e \<and> e < 2 ^ 64)"

lemma parse_uint_less: "parse_uint w s = Some n \<Longrightarrow> n < 2 ^ w"
  by (auto simp: parse_uint_def Let_def split: option.split_asm if_split_asm)

lemma parse_sed_print_range_valid:
  assumes "parse_sed_print_range script = Some r"
  shows "valid_window r"
proof -
  obtain body where sb: "strip_suffix (strip_quotes script) ''p'' = Some body"
    using assms by (cases "strip_suffix (strip_quotes script) ''p''") (simp_all add: parse_sed_print_range_def)
  note body = assms [unfolded parse_sed_print_range_def sb Option.bind_lunit]
  obtain a b where "(case split_once body '','' of
                     Some (a, b) \<Rightarrow> (a, if b = ''$'' then None else Some b)
                   | None \<Rightarrow> (body, Some body)) = (a, b)"
    by (rule prod.exhaust)
  with body have "Option.bind
      (case parse_uint 64 a of Some n \<Rightarrow> if n > 0 then Some n else None | None \<Rightarrow> None)
      (\<lambda>start. case b of
           None \<Rightarrow> Some \<lparr>lr_start = start, lr_end = None\<rparr>
         | Some e \<Rightarrow> (case parse_uint 64 e of
               Some n \<Rightarrow> if n \<ge> start then Some \<lparr>lr_start = start, lr_end = Some n\<rparr> else None
             | None \<Rightarrow> None)) = Some r"
    by (simp only: Let_def prod.case)
  then show ?thesis
    by (cases "parse_uint 64 a"; cases b; cases "parse_uint 64 (the b)")
      (auto simp: valid_window_def dest: parse_uint_less split: if_split_asm)
qed

lemma sed_range_stageD:
  "sed_range_stage stage True = Some (r, x) \<Longrightarrow>
     \<exists>op. x = Some op \<and> op \<noteq> [] \<and> \<not> starts_with op ''-'' \<and> valid_window r"
  "sed_range_stage stage False = Some (r, x) \<Longrightarrow> valid_window r"
  by (auto simp: sed_range_stage_def Let_def dest: parse_sed_print_range_valid split: if_split_asm)

lemma single_stage_sound:
  "(case sed_range_stage single True of
      Some (rng, Some op) \<Rightarrow>
        Some \<lparr>rr_range = rng, rr_operand = op, via_nl = False, rr_decoration = plain_decoration\<rparr>
    | _ \<Rightarrow> None) = Some r \<Longrightarrow> valid_window (rr_range r) \<and> rr_operand r \<noteq> []"
  by (auto dest!: sed_range_stageD split: option.split_asm)

lemma two_stages_sound:
  "(case whole_file_reader_with_one_operand reader of
      Some (op, nl, d) \<Rightarrow>
        map_option (\<lambda>(rng, _). \<lparr>rr_range = rng, rr_operand = op, via_nl = nl, rr_decoration = d\<rparr>)
          (sed_range_stage filter_stage False)
    | None \<Rightarrow>
        (case sed_range_stage reader True of
           Some (rng, Some op) \<Rightarrow>
             map_option (\<lambda>d. \<lparr>rr_range = rng, rr_operand = op, via_nl = True, rr_decoration = d\<rparr>)
               (nl_numbering_filter filter_stage (lr_start rng))
         | _ \<Rightarrow> None)) = Some r \<Longrightarrow> valid_window (rr_range r) \<and> rr_operand r \<noteq> []"
  by (auto simp: reads_whole_def dest!: sed_range_stageD whole_file_reader_bound
      split: option.split_asm prod.split_asm)

lemma command_read_range_sound:
  assumes "command_read_range command = Some r"
  shows "valid_window (rr_range r) \<and> rr_operand r \<noteq> []
    \<and> (\<forall>c \<in> {CHR '';'', CHR ''&'', CHR ''>'', CHR ''<'', backtick}.
         c \<notin> set (unwrap_shell_wrapper (trim command)))"
proof -
  let ?cmd = "unwrap_shell_wrapper (trim command)"
  define stages where "stages = map trim (split_char (CHR ''|'') ?cmd)"
  note body = assms [unfolded command_read_range_def Let_def, folded stages_def]
  have "\<forall>c \<in> {CHR '';'', CHR ''&'', CHR ''>'', CHR ''<'', backtick}. c \<notin> set ?cmd"
    using body by (simp split: if_split_asm)
  moreover have "valid_window (rr_range r) \<and> rr_operand r \<noteq> []"
  proof -
    from body have
      "(case stages of
          [single] \<Rightarrow>
            (case sed_range_stage single True of
               Some (rng, Some op) \<Rightarrow>
                 Some \<lparr>rr_range = rng, rr_operand = op, via_nl = False, rr_decoration = plain_decoration\<rparr>
             | _ \<Rightarrow> None)
        | [reader, filter_stage] \<Rightarrow>
            (case whole_file_reader_with_one_operand reader of
               Some (op, nl, d) \<Rightarrow>
                 map_option (\<lambda>(rng, _). \<lparr>rr_range = rng, rr_operand = op, via_nl = nl, rr_decoration = d\<rparr>)
                   (sed_range_stage filter_stage False)
             | None \<Rightarrow>
                 (case sed_range_stage reader True of
                    Some (rng, Some op) \<Rightarrow>
                      map_option (\<lambda>d. \<lparr>rr_range = rng, rr_operand = op, via_nl = True, rr_decoration = d\<rparr>)
                        (nl_numbering_filter filter_stage (lr_start rng))
                  | _ \<Rightarrow> None))
        | _ \<Rightarrow> None) = Some r"
      by (metis option.distinct(1))
    then show ?thesis
      by (cases stages rule: remdups_adj.cases; simp only: list.case)
        (auto dest: single_stage_sound two_stages_sound split: list.split_asm)
  qed
  ultimately show ?thesis by blast
qed

lemma sequence_links_one_file:
  assumes "sequence_links links x b = Some (Some op, b')"
  shows "(\<forall>l \<in> set links. \<not> contains_sub l ''&&'' \<and> \<not> contains_sub l ''||''
            \<and> (link_read l = Some op \<or> (link_read l = None \<and> is_inert_echo l)))
    \<and> (x \<noteq> None \<longrightarrow> x = Some op)
    \<and> (b' \<longrightarrow> (if links = [] then b else link_read (last links) = Some op))"
  using assms
proof (induction links x b rule: sequence_links.induct)
  case (2 link links x b)
  show ?case
  proof (cases "link_read link")
    case None
    with 2(3) have plain: "\<not> (contains_sub link ''&&'' \<or> contains_sub link ''||'')"
      and echo: "is_inert_echo link" and rec: "sequence_links links x False = Some (Some op, b')"
      by (simp_all only: sequence_links.simps option.case split: if_split_asm) simp_all
    from 2(1) [OF plain None echo rec] plain echo None show ?thesis by auto
  next
    case (Some o1)
    with 2(3) have plain: "\<not> (contains_sub link ''&&'' \<or> contains_sub link ''||'')"
      and same: "x = None \<or> x = Some o1"
      and rec: "sequence_links links (Some o1) True = Some (Some op, b')"
      by (auto split: if_split_asm option.split_asm)
    have *: "(\<forall>l \<in> set links. \<not> contains_sub l ''&&'' \<and> \<not> contains_sub l ''||''
            \<and> (link_read l = Some op \<or> (link_read l = None \<and> is_inert_echo l)))
      \<and> (Some o1 \<noteq> None \<longrightarrow> Some o1 = Some op)
      \<and> (b' \<longrightarrow> (if links = [] then True else link_read (last links) = Some op))"
      using 2(2) [OF plain Some _ rec] same by (auto split: option.split)
    with plain same Some show ?thesis by auto
  qed
qed simp

lemma sequence_of_reads_one_file:
  assumes "sequence_of_reads cmd = Some links"
  shows "\<exists>op. link_read (last links) = Some op
    \<and> (\<forall>l \<in> set links. \<not> contains_sub l ''&&'' \<and> \<not> contains_sub l ''||''
         \<and> (link_read l = Some op \<or> (link_read l = None \<and> is_inert_echo l)))"
proof -
  obtain op where seq: "sequence_links links None False = Some (Some op, True)" and "\<not> length links < 2"
    using assms by (auto simp: sequence_of_reads_def Let_def split: if_split_asm option.split_asm prod.split_asm bool.split_asm)
  then have "links \<noteq> []" by auto
  with sequence_links_one_file [OF seq] show ?thesis by auto
qed

text \<open>A command counts as reading a file only for what it opens. A whole-file read is a \<open>cat\<close> or \<open>nl\<close>
  with exactly one operand, the file it is credited with, and otherwise only vetted flags, in a command
  free of pipes, redirections, comments, expansions and further commands. A ranged read has a window
  that starts at line one or later and does not end before it starts. A sequence over several lines is
  taken apart only when it reads one single file, ends in a read, and hides no other command.\<close>

theorem reads_are_bound:
  "(whole_file_read command = Some (op, d) \<longrightarrow>
      reads_whole (unwrap_shell_wrapper (trim command)) op
      \<and> \<not> contains_any (unwrap_shell_wrapper (trim command)) ''|<>#;&$()'')
   \<and> (command_read_range command = Some r \<longrightarrow>
        valid_window (rr_range r) \<and> rr_operand r \<noteq> []
        \<and> (\<forall>c \<in> {CHR '';'', CHR ''&'', CHR ''>'', CHR ''<'', backtick}.
             c \<notin> set (unwrap_shell_wrapper (trim command))))
   \<and> (sequence_of_reads command = Some links \<longrightarrow>
        (\<exists>one. link_read (last links) = Some one
          \<and> (\<forall>l \<in> set links. \<not> contains_sub l ''&&'' \<and> \<not> contains_sub l ''||''
               \<and> (link_read l = Some one \<or> (link_read l = None \<and> is_inert_echo l)))))"
  using whole_file_read_bound [of command op d] command_read_range_sound [of command r]
    sequence_of_reads_one_file [of command links]
  by blast

theorem reads_are_bound_witness:
  "reads_whole ''cat -n /repo/a.rs'' ''/repo/a.rs''
   \<and> valid_window \<lparr>lr_start = 2, lr_end = Some 4\<rparr>
   \<and> (\<exists>one. link_read ''cat F'' = Some one)"
proof -
  have whole: "whole_file_read ''cat -n /repo/a.rs'' = Some (''/repo/a.rs'', plain_decoration\<lparr>number_width := Some 6\<rparr>)"
    and unwrapped: "unwrap_shell_wrapper (trim ''cat -n /repo/a.rs'') = ''cat -n /repo/a.rs''"
    and ranged: "command_read_range ''sed -n 2,4p F'' = Some \<lparr>rr_range = \<lparr>lr_start = 2, lr_end = Some 4\<rparr>,
        rr_operand = ''F'', via_nl = False, rr_decoration = plain_decoration\<rparr>"
    and seq: "sequence_of_reads ''cat F; echo -- ; cat F'' = Some [''cat F'', ''echo --'', ''cat F'']"
    by code_simp+
  note one = reads_are_bound [THEN conjunct1, THEN mp, OF whole]
    and two = reads_are_bound [THEN conjunct2, THEN conjunct1, THEN mp, OF ranged]
    and three = reads_are_bound [THEN conjunct2, THEN conjunct2, THEN mp, OF seq]
  have "reads_whole ''cat -n /repo/a.rs'' ''/repo/a.rs''"
    using one unfolding unwrapped by (rule conjunct1)
  moreover have "valid_window \<lparr>lr_start = 2, lr_end = Some 4\<rparr>"
    using two [THEN conjunct1] by simp
  moreover have "\<exists>one. link_read ''cat F'' = Some one"
  proof -
    from three obtain one where "link_read (last [''cat F'', ''echo --'', ''cat F'']) = Some one"
      by (elim exE conjE)
    moreover have "last [''cat F'', ''echo --'', ''cat F''] = ''cat F''" by simp
    ultimately show ?thesis by metis
  qed
  ultimately show ?thesis by blast
qed

subsection \<open>Quoting\<close>

text \<open>How a script is recorded: pieces in single quotes, which contain none, and pieces in double
  quotes, in which the four characters that stay special are escaped.\<close>

datatype quoted_piece = Single string | Double string

fun piece_text :: "quoted_piece \<Rightarrow> string" where
  "piece_text (Single s) = s"
| "piece_text (Double s) = s"

definition escape_double :: "char \<Rightarrow> string" where
  "escape_double c = (if c \<in> {dquote, backslash, CHR ''$'', backtick} then [backslash, c] else [c])"

fun render_piece :: "quoted_piece \<Rightarrow> string" where
  "render_piece (Single s) = squote # s @ [squote]"
| "render_piece (Double s) = dquote # concat (map escape_double s) @ [dquote]"

fun piece_ok :: "quoted_piece \<Rightarrow> bool" where
  "piece_ok (Single s) = (squote \<notin> set s)"
| "piece_ok (Double s) = True"

lemma join_single:
  "squote \<notin> set s \<Longrightarrow>
     join_quotes (Some squote) (s @ squote # rest) = map_option ((@) s) (join_quotes None rest)"
  by (cases "join_quotes None rest"; induction s) auto

lemma join_double:
  "join_quotes (Some dquote) (concat (map escape_double s) @ dquote # rest)
     = map_option ((@) s) (join_quotes None rest)"
  by (cases "join_quotes None rest"; induction s) (auto simp: escape_double_def)

lemma join_render:
  "piece_ok p \<Longrightarrow> join_quotes None (render_piece p @ rest) = map_option ((@) (piece_text p)) (join_quotes None rest)"
  by (cases p) (simp_all add: join_single join_double)

text \<open>Joining undoes the rendering of any script, however it was cut into pieces.\<close>

lemma join_adjacent_quotes_render:
  "list_all piece_ok ps \<Longrightarrow>
     join_adjacent_quotes (concat (map render_piece ps)) = Some (concat (map piece_text ps))"
proof -
  assume "list_all piece_ok ps"
  then have "join_quotes None (concat (map render_piece ps)) = Some (concat (map piece_text ps))"
    by (induction ps) (simp_all add: join_render)
  then show ?thesis by (simp add: join_adjacent_quotes_def)
qed

end
