(* ===== verification/Sight_Gate.thy ===== *)
theory Sight_Gate
  imports Shell_Reads Seats Rust_Path "HOL-Library.Product_Lexorder"
begin

text \<open>
  The sight gate (\<open>triumvirate/src/agent_exec.rs\<close>): a review is accepted only when the recorded tool
  calls of the turn show that every line of every named source was put in front of the reviewer. The
  environment \<open>sight_env\<close> is \<open>serde_json::from_str\<close> and the file system as the daemon reads it, keyed by
  the components of a path. A call that panics is \<open>None\<close>. Of a message only what is interpolated into
  its prose is kept, as the arguments of a constructor of \<open>SightDetail\<close>.

  Shown here: the sweep over the windows decides exactly whether their union covers the file, and an
  accepted review really showed every line.
\<close>

subsection \<open>Tool calls\<close>

record ToolCallRecord =
  tc_id :: "string option"
  tool :: string
  kind :: ToolKind
  success :: "bool option"
  duration_ms :: "u64 option"
  args_json :: "string option"
  returned_lines :: "(nat \<times> nat) list"
  shown_output :: "string option"

definition SHOWN_OUTPUT_CAP :: nat where
  "SHOWN_OUTPUT_CAP = 64 * 1024"

definition capped_shown_output :: "string \<Rightarrow> string" where
  "capped_shown_output out = take (floor_char_boundary out (min (length out) SHOWN_OUTPUT_CAP)) out"

text \<open>The arrow \<open>U+2192\<close> in UTF-8.\<close>

definition arrow :: string where
  "arrow = [CHR 0xE2, CHR 0x86, CHR 0x92]"

definition line_number_marker :: "string \<Rightarrow> nat option" where
  "line_number_marker line =
     (let t = trim_start_matches (\<lambda>c. c = CHR '' '') line;
          ds = takeWhile is_ascii_digit t;
          rest = dropWhile is_ascii_digit t
      in if ds \<noteq> [] \<and> (starts_with rest arrow \<or> starts_with rest [CHR 0x09])
         then parse_uint 64 ds else None)"

text \<open>The loop extends the last run or opens a new one. The runs are kept newest first.\<close>

definition push_run :: "(nat \<times> nat) list \<Rightarrow> nat \<Rightarrow> (nat \<times> nat) list" where
  "push_run runs n =
     (case runs of
        (a, b) # rs \<Rightarrow> if b + 1 = n then (a, n) # rs else (n, n) # runs
      | [] \<Rightarrow> [(n, n)])"

definition numbered_line_runs :: "string \<Rightarrow> (nat \<times> nat) list" where
  "numbered_line_runs text =
     rev (foldl push_run [] (remdups (sort (List.map_filter line_number_marker (lines text)))))"

definition is_shell_tool :: "string \<Rightarrow> bool" where
  "is_shell_tool name \<longleftrightarrow>
     to_lowercase name \<in> {''run_terminal_command'', ''bash'', ''shell'', ''terminal''}"

definition is_shell_read_tool :: "string \<Rightarrow> bool" where
  "is_shell_read_tool name \<longleftrightarrow> name = ''command_execution'' \<or> name = ''run_command'' \<or> is_shell_tool name"

definition successful_read :: "ToolCallRecord \<Rightarrow> bool" where
  "successful_read c \<longleftrightarrow> kind c = ReadFile \<and> success c = Some True"

subsection \<open>Sources\<close>

record sight_env =
  from_json :: "string \<Rightarrow> json option"
  read_file :: "path \<Rightarrow> string option"

definition is_absolute :: "string \<Rightarrow> bool" where
  "is_absolute p \<longleftrightarrow> starts_with p ''/''"

text \<open>\<open>Path::join\<close> with a relative second path.\<close>

definition join_path :: "string \<Rightarrow> string \<Rightarrow> string" where
  "join_path dir p = (if dir = [] \<or> ends_with dir ''/'' then dir @ p else dir @ ''/'' @ p)"

definition source_bytes :: "sight_env \<Rightarrow> string \<Rightarrow> string \<Rightarrow> string option" where
  "source_bytes E source cwd =
     read_file E (components (if is_absolute source then source else join_path cwd source))"

definition source_path_candidates :: "string \<Rightarrow> string \<Rightarrow> string list" where
  "source_path_candidates source cwd =
     (let trimmed_cwd = trim_end_matches (\<lambda>c. c = CHR ''/'') cwd;
          inside = (if trimmed_cwd = [] then []
                    else case Option.bind (strip_prefix source trimmed_cwd) (\<lambda>r. strip_prefix r ''/'') of
                        None \<Rightarrow> []
                      | Some rel \<Rightarrow> if rel \<noteq> [] then [rel, ''./'' @ rel] else []);
          absolute = (if trimmed_cwd \<noteq> [] \<and> \<not> is_absolute source
                      then [trimmed_cwd @ ''/'' @ (case strip_prefix source ''./'' of Some r \<Rightarrow> r | None \<Rightarrow> source)]
                      else [])
      in [source] @ inside @ absolute)"

definition count_lines :: "string \<Rightarrow> nat" where
  "count_lines bytes =
     length (filter (\<lambda>b. b = nl_char) bytes)
       + (if bytes \<noteq> [] \<and> last bytes \<noteq> nl_char then 1 else 0)"

definition source_line_count :: "sight_env \<Rightarrow> string \<Rightarrow> string \<Rightarrow> nat option" where
  "source_line_count E source cwd = map_option count_lines (source_bytes E source cwd)"

definition has_nl_delimiter_line :: "string \<Rightarrow> bool" where
  "has_nl_delimiter_line bytes =
     list_ex (\<lambda>line. line \<in> {backslash # '':'', backslash # '':'' @ backslash # '':'',
                            backslash # '':'' @ backslash # '':'' @ backslash # '':''})
       (split_char nl_char bytes)"

text \<open>\<open>split_inclusive\<close> on the line feed: the pieces keep it, and there is no empty last piece.\<close>

fun split_inclusive :: "string \<Rightarrow> string list" where
  "split_inclusive [] = []"
| "split_inclusive (c # cs) =
     (if c = nl_char then [c] # split_inclusive cs
      else (case split_inclusive cs of [] \<Rightarrow> [[c]] | w # ws \<Rightarrow> (c # w) # ws))"

subsection \<open>What one call printed\<close>

definition SHELL_OUTPUT_BUDGET :: nat where
  "SHELL_OUTPUT_BUDGET = 30000"

definition in_window :: "LineRange \<Rightarrow> nat \<Rightarrow> bool" where
  "in_window r n \<longleftrightarrow> lr_start r \<le> n \<and> (case lr_end r of None \<Rightarrow> True | Some e \<Rightarrow> n \<le> e)"

definition printed_bytes :: "string \<Rightarrow> LineRange \<Rightarrow> Decoration \<Rightarrow> nat" where
  "printed_bytes bytes r d =
     (let start = max (lr_start r) 1 in
      if (case lr_end r of None \<Rightarrow> False | Some e \<Rightarrow> e < start) then 0
      else wrap64 (sum_list (map (\<lambda>(n, l). printed_len d l n)
             (filter (\<lambda>(n, _). in_window (r\<lparr>lr_start := start\<rparr>) n)
                (enumerate 1 (split_inclusive bytes))))))"

definition small_output_bound :: "string \<Rightarrow> nat option" where
  "small_output_bound seg0 =
     (let seg = trim seg0 in
      if \<not> list_all (literal_word ''._/-:=,+@%'') (split_whitespace seg) then None
      else case split_whitespace seg of
          [] \<Rightarrow> None
        | program # rest \<Rightarrow>
            if base_name program = ''pwd'' \<and> rest = [] then Some (4096 + 1)
            else if base_name program = ''echo'' then Some (length seg + 1)
            else if base_name program = ''wc''
                    \<and> list_all (\<lambda>t. \<not> starts_with t ''-'' \<or> t \<in> {''-l'', ''-c'', ''-w'', ''-m'', ''-lc'', ''-lw''}) rest
            then Some (sum_list (map (\<lambda>t. length t + 64) rest) + 64)
            else None)"

fun printed_segments :: "sight_env \<Rightarrow> string \<Rightarrow> string list \<Rightarrow> nat \<Rightarrow> nat option" where
  "printed_segments E cwd [] tot = Some tot"
| "printed_segments E cwd (seg # segs) tot =
     (case (case command_read_range seg of
              Some r \<Rightarrow> Some (rr_operand r, rr_range r, rr_decoration r)
            | None \<Rightarrow> map_option (\<lambda>(op, d). (op, \<lparr>lr_start = 1, lr_end = None\<rparr>, d)) (whole_file_read seg)) of
        Some (operand, r, d) \<Rightarrow>
          (case source_bytes E operand cwd of
             None \<Rightarrow> None
           | Some bytes \<Rightarrow>
               (let new = wrap64 (tot + printed_bytes bytes r d) in
                if new > SHELL_OUTPUT_BUDGET then Some new else printed_segments E cwd segs new))
      | None \<Rightarrow>
          (case small_output_bound seg of
             Some n \<Rightarrow> printed_segments E cwd segs (wrap64 (tot + n))
           | None \<Rightarrow> None))"

definition call_command :: "sight_env \<Rightarrow> ToolCallRecord \<Rightarrow> string option" where
  "call_command E c = Option.bind (args_json c) (shell_command_from_args_json (from_json E))"

definition shell_call_printed_bytes :: "sight_env \<Rightarrow> ToolCallRecord \<Rightarrow> string \<Rightarrow> nat option" where
  "shell_call_printed_bytes E c cwd = do {
     command \<leftarrow> call_command E c;
     printed_segments E cwd (read_segments command) 0
   }"

definition shell_call_fits_budget :: "sight_env \<Rightarrow> ToolCallRecord \<Rightarrow> string \<Rightarrow> bool" where
  "shell_call_fits_budget E c cwd =
     (case shell_call_printed_bytes E c cwd of None \<Rightarrow> False | Some n \<Rightarrow> n \<le> SHELL_OUTPUT_BUDGET)"

text \<open>The scan of \<open>first_line_not_shown\<close> over the numbered lines, with the output from the cursor on:
  the number of the first line it does not show.\<close>

fun first_not_shown :: "LineRange \<Rightarrow> (nat \<times> string) list \<Rightarrow> string \<Rightarrow> nat option" where
  "first_not_shown r [] shown = None"
| "first_not_shown r ((n, raw) # ls) shown =
     (let line = strip_cr raw in
      if n < lr_start r \<or> line = [] then first_not_shown r ls shown
      else if (case lr_end r of None \<Rightarrow> False | Some e \<Rightarrow> n > e) then None
      else case find_sub shown line of
          Some i \<Rightarrow> first_not_shown r ls (drop (i + length line) shown)
        | None \<Rightarrow> Some n)"

definition first_line_not_shown ::
  "sight_env \<Rightarrow> ToolCallRecord \<Rightarrow> string \<Rightarrow> LineRange \<Rightarrow> string \<Rightarrow> string option"
where
  "first_line_not_shown E c operand r cwd =
     (case shown_output c of
        None \<Rightarrow> Some ''no recorded output''
      | Some shown \<Rightarrow>
          (case source_bytes E operand cwd of
             None \<Rightarrow> Some ''a file the daemon cannot read''
           | Some bytes \<Rightarrow>
               map_option (\<lambda>n. ''line '' @ show_nat n @ '' of '' @ operand @ '' as it is on disk now'')
                 (first_not_shown (r\<lparr>lr_start := max (lr_start r) 1\<rparr>)
                    (enumerate 1 (split_char nl_char bytes)) shown)))"

definition call_showed_lines ::
  "sight_env \<Rightarrow> ToolCallRecord \<Rightarrow> string \<Rightarrow> LineRange \<Rightarrow> string \<Rightarrow> bool"
where
  "call_showed_lines E c operand r cwd \<longleftrightarrow> first_line_not_shown E c operand r cwd = None"

subsection \<open>Windows\<close>

definition clamp_span :: "nat \<Rightarrow> LineRange \<Rightarrow> nat \<times> nat" where
  "clamp_span tot r = (lr_start r, min (case lr_end r of None \<Rightarrow> tot | Some e \<Rightarrow> e) tot)"

fun sweep :: "nat \<Rightarrow> (nat \<times> nat) list \<Rightarrow> nat option" where
  "sweep need [] = Some need"
| "sweep need ((start, e) # spans) =
     (if start > need then None else sweep (max need (e + 1)) spans)"

definition ranges_cover_lines :: "LineRange list \<Rightarrow> nat \<Rightarrow> bool" where
  "ranges_cover_lines ranges tot =
     (if tot = 0 then True
      else case sweep 1 (sort (filter (\<lambda>(s, e). s \<le> e) (map (clamp_span tot) ranges))) of
          None \<Rightarrow> False
        | Some need \<Rightarrow> need > tot)"

definition READ_OPERAND_KEYS :: "string list" where
  "READ_OPERAND_KEYS = [''target_file'', ''path'', ''file_path'', ''filePath'', ''file'', ''abs_path'',
     ''AbsolutePath'', ''absolute_path'', ''filename'']"

definition UNNUMBERED_READ_CAPS :: "(string \<times> nat) list" where
  "UNNUMBERED_READ_CAPS = [(''view_file'', 800)]"

definition first_num :: "json \<Rightarrow> string list \<Rightarrow> nat option" where
  "first_num v ks =
     (case List.map_filter (\<lambda>k. Option.bind (json_get v k) as_u64) ks of [] \<Rightarrow> None | n # _ \<Rightarrow> Some n)"

definition operand_is_source :: "json \<Rightarrow> string list \<Rightarrow> bool" where
  "operand_is_source v candidates =
     list_ex (\<lambda>k. case Option.bind (json_get v k) as_str of
                    Some operand \<Rightarrow> operand \<in> set candidates | None \<Rightarrow> False) READ_OPERAND_KEYS"

text \<open>The window an unnumbered read is credited with. \<open>None\<close> is a limit of zero lines.\<close>

definition requested_window :: "json \<Rightarrow> nat \<Rightarrow> LineRange option" where
  "requested_window v cap =
     (let start = max (case first_num v [''offset'', ''line_offset'', ''start_line'', ''StartLine''] of
                         Some n \<Rightarrow> n | None \<Rightarrow> 1) 1;
          end_line = first_num v [''end_line'', ''EndLine''];
          capped = wrap64 (start + cap + 18446744073709551615);
          credited = (\<lambda>e. Some \<lparr>lr_start = start,
                                lr_end = Some (case e of None \<Rightarrow> capped | Some n \<Rightarrow> min n capped)\<rparr>)
      in case first_num v [''limit'', ''max_lines''] of
           Some limit \<Rightarrow>
             if limit = 0 then None
             else credited (Some (case end_line of
                                    Some e \<Rightarrow> e
                                  | None \<Rightarrow> wrap64 (start + limit + 18446744073709551615)))
         | None \<Rightarrow> credited end_line)"

definition structured_ranges_of_call ::
  "sight_env \<Rightarrow> string list \<Rightarrow> ToolCallRecord \<Rightarrow> LineRange list option"
where
  "structured_ranges_of_call E candidates c =
     (if is_shell_read_tool (tool c) \<or> \<not> successful_read c then None
      else do {
        args \<leftarrow> args_json c;
        v \<leftarrow> from_json E args;
        (if \<not> operand_is_source v candidates then None
         else if returned_lines c \<noteq> []
         then Some (map (\<lambda>(first, last). \<lparr>lr_start = first, lr_end = Some last\<rparr>) (returned_lines c))
         else do {
           cap \<leftarrow> map_of UNNUMBERED_READ_CAPS (tool c);
           r \<leftarrow> requested_window v cap;
           Some [r]
         })
      })"

definition structured_read_ranges ::
  "sight_env \<Rightarrow> ToolCallRecord list \<Rightarrow> string list \<Rightarrow> LineRange list"
where
  "structured_read_ranges E tool_calls candidates =
     concat (List.map_filter (structured_ranges_of_call E candidates) tool_calls)"

definition shell_windows ::
  "sight_env \<Rightarrow> string list \<Rightarrow> bool \<Rightarrow> string \<Rightarrow> ToolCallRecord \<Rightarrow> LineRange list"
where
  "shell_windows E candidates nl_drops_lines cwd c =
     (if is_shell_read_tool (tool c) \<and> successful_read c then
        (let ranges = (case call_command E c of None \<Rightarrow> [] | Some command \<Rightarrow> command_read_ranges command);
             windows = map rr_range (filter (\<lambda>r. rr_operand r \<in> set candidates
                                             \<and> \<not> (via_nl r \<and> nl_drops_lines)
                                             \<and> call_showed_lines E c (rr_operand r) (rr_range r) cwd) ranges)
         in if shell_call_fits_budget E c cwd then windows else [])
      else [])"

definition codex_ranged_reads_cover_source ::
  "sight_env \<Rightarrow> ToolCallRecord list \<Rightarrow> string list \<Rightarrow> string \<Rightarrow> string \<Rightarrow> bool"
where
  "codex_ranged_reads_cover_source E tool_calls candidates source cwd =
     (case source_bytes E source cwd of
        None \<Rightarrow> False
      | Some bytes \<Rightarrow>
          (let ranges = concat (map (shell_windows E candidates (has_nl_delimiter_line bytes) cwd) tool_calls)
                          @ structured_read_ranges E tool_calls candidates
           in ranges \<noteq> [] \<and> ranges_cover_lines ranges (count_lines bytes)))"

subsection \<open>Which source a call names\<close>

definition is_boundary :: "char \<Rightarrow> bool" where
  "is_boundary c \<longleftrightarrow> c \<in> {dquote, squote, CHR '' '', CHR ''='', CHR '','', CHR ''('', CHR '')'', CHR ''['', CHR '']'',
     CHR ''{'', CHR ''}'', CHR '':'', backslash}"

text \<open>The search of \<open>args_name_path\<close> from one position on: the byte before the position and the text after
  it. The search goes on one byte after the start of a match, and slicing the text there panics when that
  byte is inside a character.\<close>

function path_search :: "string \<Rightarrow> char option \<Rightarrow> string \<Rightarrow> bool option" where
  "path_search path before rest =
     (case find_sub rest path of
        None \<Rightarrow> Some False
      | Some i \<Rightarrow>
          (let prev = (if i = 0 then before else Some (rest ! (i - 1)));
               after = drop (i + length path) rest;
               before_ok = (case prev of None \<Rightarrow> True | Some c \<Rightarrow> is_boundary c);
               after_ok = (case after of [] \<Rightarrow> True | c # _ \<Rightarrow> is_boundary c)
           in if before_ok \<and> after_ok then Some True
              else (case drop (i + 1) rest of
                      c # cs \<Rightarrow> if is_continuation c then None
                                else path_search path (Some (rest ! i)) (c # cs)
                    | [] \<Rightarrow> Some False)))"
  by pat_completeness auto

termination path_search
proof (relation "measure (\<lambda>(path, before, rest). length rest)")
  fix path before and rest :: string and i prev after before_ok after_ok c cs
  assume "drop (i + 1) rest = c # cs"
  then have "length (c # cs) = length rest - (i + 1)" by (metis length_drop)
  then show "((path, Some (rest ! i), c # cs), path, before, rest)
      \<in> measure (\<lambda>(path, before, rest). length rest)" by auto
qed simp

declare path_search.simps [simp del]

definition args_name_path :: "string \<Rightarrow> string \<Rightarrow> bool option" where
  "args_name_path args path = (if path = [] then Some False else path_search path None args)"

definition record_names_source :: "sight_env \<Rightarrow> ToolCallRecord \<Rightarrow> string \<Rightarrow> bool option" where
  "record_names_source E c cand =
     (case args_json c of
        None \<Rightarrow> Some False
      | Some args \<Rightarrow>
          if is_shell_read_tool (tool c) then
            (case shell_command_from_args_json (from_json E) args of
               None \<Rightarrow> Some False
             | Some cmd \<Rightarrow>
                 (let whole = whole_file_read_operands cmd; ranged = command_read_ranges cmd in
                  Some (if whole \<noteq> [] then cand \<in> set whole
                        else if ranged \<noteq> [] then list_ex (\<lambda>r. rr_operand r = cand) ranged
                        else if command_reads_file_contents cmd
                        then list_ex (\<lambda>t. trim_matches (\<lambda>ch. ch = squote \<or> ch = dquote) t = cand)
                               (split_whitespace cmd)
                        else False)))
          else args_name_path args cand)"

definition record_read_source_whole :: "sight_env \<Rightarrow> ToolCallRecord \<Rightarrow> string \<Rightarrow> bool" where
  "record_read_source_whole E c cand =
     (case args_json c of
        None \<Rightarrow> False
      | Some args \<Rightarrow>
          is_shell_read_tool (tool c)
          \<and> (case shell_command_from_args_json (from_json E) args of
               None \<Rightarrow> False
             | Some cmd \<Rightarrow> cand \<in> set (whole_file_read_operands cmd)))"

definition tool_call_touched_source ::
  "sight_env \<Rightarrow> ToolCallRecord list \<Rightarrow> string \<Rightarrow> string \<Rightarrow> bool option"
where
  "tool_call_touched_source E tool_calls source cwd =
     any_opt (\<lambda>c. if successful_read c
                  then any_opt (record_names_source E c) (source_path_candidates source cwd)
                  else Some False) tool_calls"

definition whole_read_of ::
  "sight_env \<Rightarrow> string list \<Rightarrow> string \<Rightarrow> ToolCallRecord \<Rightarrow> bool"
where
  "whole_read_of E candidates cwd c \<longleftrightarrow>
     successful_read c
     \<and> (\<not> is_shell_read_tool (tool c) \<or> shell_call_fits_budget E c cwd)
     \<and> list_ex (\<lambda>cand. record_read_source_whole E c cand
                       \<and> call_showed_lines E c cand \<lparr>lr_start = 1, lr_end = None\<rparr> cwd) candidates"

definition tool_call_read_source_in_full ::
  "sight_env \<Rightarrow> ToolCallRecord list \<Rightarrow> string \<Rightarrow> string \<Rightarrow> bool"
where
  "tool_call_read_source_in_full E tool_calls source cwd =
     (let candidates = source_path_candidates source cwd in
      list_ex (whole_read_of E candidates cwd) tool_calls
      \<or> codex_ranged_reads_cover_source E tool_calls candidates source cwd)"

subsection \<open>Receipts\<close>

definition truncate_for_receipt :: "string \<Rightarrow> string" where
  "truncate_for_receipt t =
     (let starts = filter (\<lambda>i. \<not> is_continuation (t ! i)) [0 ..< length t] in
      if length starts > 500 then take (starts ! 500) t @ ''...'' else t)"

definition show_window :: "RangedRead \<Rightarrow> string" where
  "show_window r =
     ''lines '' @ show_nat (lr_start (rr_range r)) @ ''-''
       @ (case lr_end (rr_range r) of Some e \<Rightarrow> show_nat e | None \<Rightarrow> ''$'') @ '' of '' @ rr_operand r"

definition describe_what_the_read_bound :: "sight_env \<Rightarrow> string \<Rightarrow> string" where
  "describe_what_the_read_bound E args =
     (case shell_command_from_args_json (from_json E) args of
        None \<Rightarrow> truncate_for_receipt args
      | Some cmd \<Rightarrow>
          (let bound = map (\<lambda>op. ''whole read of '' @ op) (whole_file_read_operands cmd)
                         @ map show_window (command_read_ranges cmd)
           in if bound = [] then ''no read the parser recognises in: '' @ truncate_for_receipt cmd
              else ''bound to ['' @ join ''; '' bound @ '']''))"

definition shell_read_not_shown ::
  "sight_env \<Rightarrow> ToolCallRecord \<Rightarrow> string list \<Rightarrow> string \<Rightarrow> (string \<times> string) option"
where
  "shell_read_not_shown E c candidates cwd =
     (if \<not> is_shell_read_tool (tool c) then None
      else case call_command E c of
          None \<Rightarrow> None
        | Some cmd \<Rightarrow>
            (let reads = map (\<lambda>op. (op, \<lparr>lr_start = 1, lr_end = None\<rparr>)) (whole_file_read_operands cmd)
                           @ map (\<lambda>r. (rr_operand r, rr_range r)) (command_read_ranges cmd);
                 window = (\<lambda>r. case lr_end r of
                     None \<Rightarrow> if lr_start r \<le> 1 then ''the whole read''
                             else ''lines '' @ show_nat (lr_start r) @ ''-$''
                   | Some e \<Rightarrow> ''lines '' @ show_nat (lr_start r) @ ''-'' @ show_nat e);
                 refused = List.map_filter
                   (\<lambda>(op, r). map_option (\<lambda>why. (window r, why)) (first_line_not_shown E c op r cwd))
                   (filter (\<lambda>(op, _). op \<in> set candidates) reads)
             in case refused of [] \<Rightarrow> None | x # _ \<Rightarrow> Some x))"

definition names_any :: "string \<Rightarrow> string list \<Rightarrow> bool option" where
  "names_any args candidates = any_opt (args_name_path args) candidates"

definition describe_read ::
  "sight_env \<Rightarrow> string list \<Rightarrow> string \<Rightarrow> ToolCallRecord \<Rightarrow> string \<Rightarrow> string"
where
  "describe_read E candidates cwd c args =
     (let windows = (case shell_command_from_args_json (from_json E) args of
                       None \<Rightarrow> []
                     | Some cmd \<Rightarrow> map show_window
                         (filter (\<lambda>r. rr_operand r \<in> set candidates) (command_read_ranges cmd)));
          described = (if windows = [] then describe_what_the_read_bound E args else join '', '' windows)
      in if is_shell_read_tool (tool c) \<and> \<not> shell_call_fits_budget E c cwd then
           described @ '' (not credited: this command ''
             @ (case shell_call_printed_bytes E c cwd of
                  Some n \<Rightarrow> ''printed at least '' @ show_nat n @ '' bytes, every file in it together, over''
                | None \<Rightarrow> ''could not be sized against'')
             @ '' the '' @ show_nat SHELL_OUTPUT_BUDGET @ ''-byte limit for one command)''
         else case shell_read_not_shown E c candidates cwd of
             Some (window, why) \<Rightarrow>
               described @ '' ('' @ window @ '' not credited: its output does not show '' @ why @ '')''
           | None \<Rightarrow> described)"

definition reads_of_source ::
  "sight_env \<Rightarrow> ToolCallRecord list \<Rightarrow> string list \<Rightarrow> string \<Rightarrow> string list option"
where
  "reads_of_source E tool_calls candidates cwd =
     map_option (List.map_filter (\<lambda>x. x))
       (those (map (\<lambda>c. case args_json c of
                          None \<Rightarrow> Some None
                        | Some args \<Rightarrow> map_option (\<lambda>b. if b then Some (describe_read E candidates cwd c args) else None)
                                         (names_any args candidates))
                 (filter successful_read tool_calls)))"

definition describe_reads_of_source ::
  "sight_env \<Rightarrow> ToolCallRecord list \<Rightarrow> string \<Rightarrow> string \<Rightarrow> string option"
where
  "describe_reads_of_source E tool_calls source cwd =
     map_option (\<lambda>reads.
         source @ '' has ''
           @ (case source_line_count E source cwd of
                Some n \<Rightarrow> show_nat n @ '' lines''
              | None \<Rightarrow> ''a line count the daemon could not obtain'')
           @ ''; read this turn as ['' @ join '', '' reads @ '']'')
       (reads_of_source E tool_calls (source_path_candidates source cwd) cwd)"

fun show_tool_kind :: "ToolKind \<Rightarrow> string" where
  "show_tool_kind ReadFile = ''ReadFile''"
| "show_tool_kind WriteFile = ''WriteFile''"
| "show_tool_kind EditFile = ''EditFile''"
| "show_tool_kind Bash = ''Bash''"
| "show_tool_kind Grep = ''Grep''"
| "show_tool_kind Glob = ''Glob''"
| "show_tool_kind RequestUserInput = ''RequestUserInput''"
| "show_tool_kind UnknownTool = ''Unknown''"

definition describe_attempt :: "sight_env \<Rightarrow> ToolCallRecord \<Rightarrow> string \<Rightarrow> string" where
  "describe_attempt E c args =
     show_tool_kind (kind c) @ '' ''
       @ (case success c of Some True \<Rightarrow> ''ok'' | Some False \<Rightarrow> ''FAILED'' | None \<Rightarrow> ''no exit status'')
       @ '' '' @ describe_what_the_read_bound E args"

definition describe_attempts_on_source ::
  "sight_env \<Rightarrow> ToolCallRecord list \<Rightarrow> string \<Rightarrow> string \<Rightarrow> string option"
where
  "describe_attempts_on_source E tool_calls source cwd =
     map_option (\<lambda>found. let attempts = List.map_filter (\<lambda>x. x) found in
         if attempts = [] then
           source @ '': no tool call named it in '' @ show_nat (length tool_calls) @ '' recorded call(s) this turn''
         else source @ '': named by ['' @ join '', '' attempts @ ''], none counted as a successful whole read'')
       (those (map (\<lambda>c. case args_json c of
                          None \<Rightarrow> Some None
                        | Some args \<Rightarrow> map_option (\<lambda>b. if b then Some (describe_attempt E c args) else None)
                                         (names_any args (source_path_candidates source cwd)))
                 tool_calls))"

subsection \<open>The gate\<close>

datatype SightDetail =
    ModifiedFiles string "string list"
  | Delegated string
  | UnverifiedParser string string "string list"
  | UnclassifiedReads string string "string list"
  | ReadPart string nat "string list" "string list"
  | NeverOpened string nat "string list" "string list"
  | ZeroToolCalls string
  | RepairSkipped duration
  | RepairSent string string
  | RepairPassed string string
  | RepairRefused string
  | RepairUnfinished string

record LifecycleEvent =
  le_state :: string
  le_detail :: SightDetail

definition parser_modes_with_tool_records :: "string list" where
  "parser_modes_with_tool_records = modes_with_tool_records_from all_seats"

definition parser_modes_that_classify_reads :: "string list" where
  "parser_modes_that_classify_reads = modes_that_classify_reads_from all_seats"

definition AGENTS_WITHOUT_TOOLS :: "string list" where
  "AGENTS_WITHOUT_TOOLS = [''deepseek'']"

record sight_request =
  require_sight :: "bool option"
  required_sources :: "string list"

definition sight_required :: "sight_request \<Rightarrow> bool" where
  "sight_required req \<longleftrightarrow>
     (case require_sight req of Some b \<Rightarrow> b | None \<Rightarrow> False) \<or> required_sources req \<noteq> []"

definition reject :: "LifecycleEvent list \<Rightarrow> SightDetail \<Rightarrow> (SightDetail + unit) \<times> LifecycleEvent list" where
  "reject lifecycle d = (Inl d, lifecycle @ [\<lparr>le_state = ''REJECTED'', le_detail = d\<rparr>])"

definition peeked_at ::
  "sight_env \<Rightarrow> ToolCallRecord list \<Rightarrow> string \<Rightarrow> string \<Rightarrow> bool option"
where
  "peeked_at E tool_calls cwd src =
     map_option (\<lambda>touched. touched \<and> \<not> tool_call_read_source_in_full E tool_calls src cwd)
       (tool_call_touched_source E tool_calls src cwd)"

definition check_sources ::
  "sight_env \<Rightarrow> string \<Rightarrow> ToolCallRecord list \<Rightarrow> string list \<Rightarrow> string \<Rightarrow> LifecycleEvent list
     \<Rightarrow> ((SightDetail + unit) \<times> LifecycleEvent list) option"
where
  "check_sources E agent_display tool_calls sources cwd lifecycle = do {
     peeked \<leftarrow> filter_opt (peeked_at E tool_calls cwd) sources;
     (if peeked \<noteq> [] then do {
        evidence \<leftarrow> those (map (\<lambda>src. describe_reads_of_source E tool_calls src cwd) peeked);
        Some (reject lifecycle (ReadPart agent_display (length sources) peeked evidence))
      } else do {
        missed \<leftarrow> filter_opt (\<lambda>src. map_option Not (tool_call_touched_source E tool_calls src cwd)) sources;
        (if missed \<noteq> [] then do {
           evidence \<leftarrow> those (map (\<lambda>src. describe_attempts_on_source E tool_calls src cwd) missed);
           Some (reject lifecycle (NeverOpened agent_display (length sources) missed evidence))
         } else Some (Inr (), lifecycle))
      })
   }"

definition enforce_reviewer_sight ::
  "sight_env \<Rightarrow> string \<Rightarrow> ToolCallRecord list \<Rightarrow> string \<Rightarrow> string list \<Rightarrow> string \<Rightarrow> LifecycleEvent list
     \<Rightarrow> ((SightDetail + unit) \<times> LifecycleEvent list) option"
where
  "enforce_reviewer_sight E agent_display tool_calls parser_mode sources cwd lifecycle =
     (let mutations = map tool (filter (\<lambda>c. kind c = WriteFile \<or> kind c = EditFile) tool_calls) in
      if mutations \<noteq> [] then Some (reject lifecycle (ModifiedFiles agent_display mutations))
      else if list_ex (\<lambda>c. tool c = COLLAB_TOOL) tool_calls then Some (reject lifecycle (Delegated agent_display))
      else if parser_mode \<notin> set parser_modes_with_tool_records then
        Some (reject lifecycle (UnverifiedParser agent_display parser_mode parser_modes_with_tool_records))
      else if sources \<noteq> [] \<and> parser_mode \<notin> set parser_modes_that_classify_reads then
        Some (reject lifecycle (UnclassifiedReads agent_display parser_mode parser_modes_that_classify_reads))
      else if sources \<noteq> [] then check_sources E agent_display tool_calls sources cwd lifecycle
      else if tool_calls \<noteq> [] then Some (Inr (), lifecycle)
      else Some (reject lifecycle (ZeroToolCalls agent_display)))"

text \<open>The canary: \<open>create\<close> and \<open>write\<close> are the outcomes of preparing its directory and its file, and
  \<open>E\<close> is the file system after them.\<close>

definition sight_gate_canary ::
  "sight_env \<Rightarrow> string \<Rightarrow> string option \<Rightarrow> string option \<Rightarrow> nat \<Rightarrow> (string + unit) option"
where
  "sight_gate_canary E temp_dir create_error write_error pid =
     (let dir = join_path temp_dir (''triumvirate-sight-canary-'' @ show_nat pid) in
      case create_error of
        Some e \<Rightarrow> Some (Inl (''canary could not create its source: '' @ e))
      | None \<Rightarrow>
          (case write_error of
             Some e \<Rightarrow> Some (Inl (''canary could not write its source: '' @ e))
           | None \<Rightarrow>
               map_option (\<lambda>(verdict, _). case verdict of
                   Inl _ \<Rightarrow> Inr ()
                 | Inr _ \<Rightarrow> Inl ''the sight gate ACCEPTED a review that read nothing. It is installed and inert: every source-gated review since it stopped rejecting is unverified.'')
                 (enforce_reviewer_sight E ''Canary'' [] ''codex-exec-json''
                    [join_path dir ''canary-source.md''] dir [])))"

subsection \<open>The sweep decides coverage\<close>

lemma sweep_sound:
  "sweep need spans = Some m \<Longrightarrow> need \<le> n \<Longrightarrow> n < m \<Longrightarrow> \<exists>(s, e) \<in> set spans. s \<le> n \<and> n \<le> e"
proof (induction need spans rule: sweep.induct)
  case (2 need start e spans)
  then have start: "start \<le> need" and rest: "sweep (max need (e + 1)) spans = Some m"
    by (auto split: if_splits)
  show ?case
  proof (cases "n \<le> e")
    case True
    with start 2 show ?thesis by auto
  next
    case False
    with 2 rest start have "\<exists>(s, e) \<in> set spans. s \<le> n \<and> n \<le> e" by auto
    then show ?thesis by auto
  qed
qed simp

lemma sweep_complete:
  assumes "sorted spans" and "\<And>s e. (s, e) \<in> set spans \<Longrightarrow> s \<le> e \<and> e \<le> tot"
    and "\<And>n. need \<le> n \<Longrightarrow> n \<le> tot \<Longrightarrow> \<exists>(s, e) \<in> set spans. s \<le> n \<and> n \<le> e"
  shows "\<exists>m. sweep need spans = Some m \<and> tot < m"
  using assms
proof (induction need spans rule: sweep.induct)
  case (1 need)
  then show ?case by (force simp: not_le [symmetric])
next
  case (2 need start e spans)
  have first: "start \<le> s" if "(s, e') \<in> set spans" for s e'
    using 2(2) that by (auto simp: less_eq_prod_def)
  have le: "start \<le> e" "e \<le> tot" using 2(3) by auto
  have start: "start \<le> need"
  proof (rule ccontr)
    assume "\<not> start \<le> need"
    with le have "need \<le> tot" by simp
    with 2(4) obtain s e' where "(s, e') \<in> set ((start, e) # spans)" "s \<le> need" by blast
    with first \<open>\<not> start \<le> need\<close> show False by fastforce
  qed
  have "\<exists>m. sweep (max need (e + 1)) spans = Some m \<and> tot < m"
  proof (rule 2(1))
    show "\<not> need < start" using start by simp
    show "sorted spans" using 2(2) by simp
    show "s \<le> e' \<and> e' \<le> tot" if "(s, e') \<in> set spans" for s e'
      using 2(3) [of s e'] that by simp
    show "\<exists>(s, e) \<in> set spans. s \<le> n \<and> n \<le> e" if "max need (e + 1) \<le> n" "n \<le> tot" for n
      using 2(4) [of n] that by auto
  qed
  with start show ?case by simp
qed

lemma span_iff:
  "1 \<le> n \<Longrightarrow> n \<le> tot \<Longrightarrow>
     (\<exists>(s, e) \<in> set (filter (\<lambda>(s, e). s \<le> e) (map (clamp_span tot) ranges)). s \<le> n \<and> n \<le> e)
       \<longleftrightarrow> (\<exists>r \<in> set ranges. in_window r n)"
  by (force simp: clamp_span_def in_window_def split: option.splits)

lemma cover_iff:
  "ranges_cover_lines ranges tot
     \<longleftrightarrow> {1 .. tot} \<subseteq> {n. \<exists>r. r \<in> set ranges \<and> in_window r n}"
proof -
  define spans where "spans = sort (filter (\<lambda>(s, e). s \<le> e) (map (clamp_span tot) ranges))"
  have set_spans: "set spans = set (filter (\<lambda>(s, e). s \<le> e) (map (clamp_span tot) ranges))"
    by (simp add: spans_def)
  show ?thesis
  proof (cases "tot = 0")
    case False
    then have "ranges_cover_lines ranges tot \<longleftrightarrow> (\<exists>m. sweep 1 spans = Some m \<and> tot < m)"
      by (simp add: ranges_cover_lines_def spans_def split: option.split)
    also have "\<dots> \<longleftrightarrow> (\<forall>n \<in> {1 .. tot}. \<exists>(s, e) \<in> set spans. s \<le> n \<and> n \<le> e)"
    proof
      assume "\<exists>m. sweep 1 spans = Some m \<and> tot < m"
      then show "\<forall>n \<in> {1 .. tot}. \<exists>(s, e) \<in> set spans. s \<le> n \<and> n \<le> e"
        using sweep_sound [of 1 spans] by fastforce
    next
      assume "\<forall>n \<in> {1 .. tot}. \<exists>(s, e) \<in> set spans. s \<le> n \<and> n \<le> e"
      moreover have "sorted spans" by (simp add: spans_def)
      moreover have "s \<le> e \<and> e \<le> tot" if "(s, e) \<in> set spans" for s e
        using that by (auto simp: set_spans clamp_span_def)
      ultimately show "\<exists>m. sweep 1 spans = Some m \<and> tot < m"
        by (intro sweep_complete) auto
    qed
    also have "\<dots> \<longleftrightarrow> (\<forall>n \<in> {1 .. tot}. \<exists>r \<in> set ranges. in_window r n)"
      unfolding set_spans using span_iff [of _ tot ranges] by (intro ball_cong) auto
    finally show ?thesis by blast
  qed (simp add: ranges_cover_lines_def)
qed

text \<open>C8: The sort-and-sweep of the windows decides exactly whether their union covers the file: it
  answers yes when, and only when, every line from the first to the last lies in some window.\<close>

theorem ranges_cover_lines_iff:
  "ranges_cover_lines ranges tot
     \<longleftrightarrow> {1 .. tot} \<subseteq> {n. \<exists>r. r \<in> set ranges \<and> in_window r n}"
  by (rule cover_iff)

subsection \<open>Numbered results\<close>

definition run_lines :: "(nat \<times> nat) list \<Rightarrow> nat set" where
  "run_lines runs = {n. \<exists>a b. (a, b) \<in> set runs \<and> a \<le> n \<and> n \<le> b}"

lemma run_lines_Cons: "run_lines ((a, b) # runs) = {a .. b} \<union> run_lines runs"
  unfolding run_lines_def set_simps by (auto 0 4)

lemma push_run_lines:
  assumes "list_all (\<lambda>(a, b). a \<le> b) runs"
  shows "run_lines (push_run runs n) = insert n (run_lines runs) \<and> list_all (\<lambda>(a, b). a \<le> b) (push_run runs n)"
proof (cases runs)
  case Nil
  then show ?thesis by (auto simp: push_run_def run_lines_def)
next
  case (Cons r rs)
  obtain a b where r: "r = (a, b)" by fastforce
  with Cons assms have "a \<le> b" by simp
  then have "{a .. b + 1} = insert (b + 1) {a .. b}" by auto
  with Cons r assms show ?thesis by (auto simp: push_run_def run_lines_Cons)
qed

lemma foldl_push_run:
  "list_all (\<lambda>(a, b). a \<le> b) runs \<Longrightarrow> run_lines (foldl push_run runs ns) = set ns \<union> run_lines runs"
  by (induction ns arbitrary: runs) (auto simp: push_run_lines)

text \<open>A numbered result is credited with exactly the lines it numbered: a line lies in one of the
  reported runs if and only if some line of the text starts with its number and a marker.\<close>

theorem numbered_line_runs_exact:
  "(\<exists>a b. (a, b) \<in> set (numbered_line_runs t) \<and> a \<le> n \<and> n \<le> b)
     \<longleftrightarrow> Some n \<in> set (map line_number_marker (lines t))"
proof -
  let ?ns = "remdups (sort (List.map_filter line_number_marker (lines t)))"
  have "run_lines (foldl push_run [] ?ns) = set ?ns"
    by (simp add: foldl_push_run) (simp add: run_lines_def)
  moreover have "n \<in> set ?ns \<longleftrightarrow> Some n \<in> set (map line_number_marker (lines t))"
    by (auto simp: in_set_map_filter eq_commute [of "Some n"] image_iff)
  ultimately show ?thesis
    unfolding numbered_line_runs_def set_rev by (auto simp: run_lines_def)
qed

subsection \<open>What a credited call showed\<close>

text \<open>The reference for the output check: the lines occur one after the other, without overlap.\<close>

primrec shown_in_order :: "string list \<Rightarrow> string \<Rightarrow> bool" where
  "shown_in_order [] s \<longleftrightarrow> True"
| "shown_in_order (w # ws) s \<longleftrightarrow> (\<exists>a b. s = a @ w @ b \<and> shown_in_order ws b)"

lemma shown_in_order_longer: "shown_in_order ws b \<Longrightarrow> shown_in_order ws (a @ b)"
  by (cases ws) (auto, metis append.assoc)

lemma shown_in_order_first:
  "shown_in_order (w # ws) s \<longleftrightarrow>
     (case find_sub s w of None \<Rightarrow> False | Some i \<Rightarrow> shown_in_order ws (drop (i + length w) s))"
proof (cases "find_sub s w")
  case None
  then have "\<not> contains_sub s w" by (simp add: contains_sub_def)
  with None show ?thesis by (auto simp: contains_sub_iff)
next
  case (Some i)
  have "shown_in_order ws (drop (i + length w) s)" if "s = a @ w @ b" "shown_in_order ws b" for a b
  proof -
    have "i \<le> length a"
    proof (rule ccontr)
      assume "\<not> i \<le> length a"
      then have "\<not> starts_with (drop (length a) s) w" using Some find_sub_least by simp
      with that show False by (simp add: starts_with_iff)
    qed
    then have "drop (i + length w) s = drop (i + length w) (a @ w) @ b" using that by simp
    with that(2) show ?thesis by (simp add: shown_in_order_longer)
  qed
  moreover have "\<exists>a b. s = a @ w @ b \<and> b = drop (i + length w) s"
  proof -
    from find_sub_SomeD [OF Some] obtain r where r: "s = take i s @ w @ r" "i + length w \<le> length s" by auto
    then have "drop (i + length w) s = r"
      by (metis append.assoc append_eq_conv_conj length_append length_take min.absorb2 add_leD1)
    with r show ?thesis by blast
  qed
  ultimately show ?thesis unfolding shown_in_order.simps using Some by (metis option.simps(5))
qed

definition window_lines :: "LineRange \<Rightarrow> (nat \<times> string) list \<Rightarrow> string list" where
  "window_lines r ls =
     map (\<lambda>(_, raw). strip_cr raw) (filter (\<lambda>(n, raw). in_window r n \<and> strip_cr raw \<noteq> []) ls)"

lemma window_lines_Nil: "(\<And>n raw. (n, raw) \<in> set ls \<Longrightarrow> \<not> in_window r n) \<Longrightarrow> window_lines r ls = []"
  by (auto simp: window_lines_def filter_empty_conv)

lemma first_not_shown_None_iff:
  "sorted (map fst ls) \<Longrightarrow> first_not_shown r ls shown = None \<longleftrightarrow> shown_in_order (window_lines r ls) shown"
proof (induction r ls shown rule: first_not_shown.induct)
  case (2 r n raw ls shown)
  let ?line = "strip_cr raw"
  consider (skip) "n < lr_start r \<or> ?line = []"
    | (past) e where "\<not> (n < lr_start r \<or> ?line = [])" "lr_end r = Some e" "e < n"
    | (look) "\<not> (n < lr_start r \<or> ?line = [])" "case lr_end r of None \<Rightarrow> True | Some e \<Rightarrow> n \<le> e"
    by (cases "lr_end r") (auto simp: not_le [symmetric])
  then show ?case
  proof cases
    case skip
    then have "window_lines r ((n, raw) # ls) = window_lines r ls"
      by (auto simp: window_lines_def in_window_def)
    with 2 skip show ?thesis by auto
  next
    case past
    have "window_lines r ((n, raw) # ls) = []"
      using past 2(3) by (intro window_lines_Nil) (auto simp: in_window_def dest!: bspec)
    with past show ?thesis by simp
  next
    case look
    then have w: "window_lines r ((n, raw) # ls) = ?line # window_lines r ls"
      by (simp add: window_lines_def in_window_def)
    have "\<not> (case lr_end r of None \<Rightarrow> False | Some e \<Rightarrow> e < n)"
      using look(2) by (auto split: option.splits)
    with look 2(2,3) show ?thesis
      unfolding w shown_in_order_first
      by (auto simp: Let_def split: option.split)
  qed
qed (simp add: window_lines_def)

lemma shown_in_order_contains: "shown_in_order ws s \<Longrightarrow> w \<in> set ws \<Longrightarrow> contains_sub s w"
proof (induction ws arbitrary: s)
  case (Cons v ws)
  then obtain a b where s: "s = a @ v @ b" "shown_in_order ws b" by auto
  show ?case
  proof (cases "w = v")
    case False
    with Cons s have "contains_sub b w" by simp
    then show ?thesis using s(1) by (auto simp: contains_sub_iff) (metis append.assoc)
  qed (use s in \<open>auto simp: contains_sub_iff\<close>)
qed simp

lemma call_showed_line:
  assumes "call_showed_lines E c operand r cwd" and "source_bytes E operand cwd = Some bytes"
    and "(n, raw) \<in> set (enumerate 1 (split_char nl_char bytes))" and "in_window r n"
  shows "\<exists>shown. shown_output c = Some shown \<and> contains_sub shown (strip_cr raw)"
proof (cases "strip_cr raw = []")
  case True
  have "contains_sub shown []" for shown unfolding contains_sub_iff by (metis append_Nil)
  with True assms(1) show ?thesis
    by (auto simp: call_showed_lines_def first_line_not_shown_def split: option.splits)
next
  case False
  let ?r = "r\<lparr>lr_start := max (lr_start r) 1\<rparr>" and ?ls = "enumerate 1 (split_char nl_char bytes)"
  obtain shown where shown: "shown_output c = Some shown"
    using assms(1) by (auto simp: call_showed_lines_def first_line_not_shown_def split: option.splits)
  then have "first_not_shown ?r ?ls shown = None"
    using assms(1,2) by (simp add: call_showed_lines_def first_line_not_shown_def)
  moreover have "sorted (map fst ?ls)" unfolding map_fst_enumerate by (rule sorted_upt)
  ultimately have ord: "shown_in_order (window_lines ?r ?ls) shown"
    by (simp add: first_not_shown_None_iff)
  have "1 \<le> n" using assms(3) by (auto simp: in_set_enumerate_eq)
  then have "strip_cr raw \<in> set (window_lines ?r ?ls)"
    using assms(3,4) False by (force simp: window_lines_def in_window_def)
  with ord shown show ?thesis using shown_in_order_contains by blast
qed

subsection \<open>All spellings of a source are the same file\<close>

definition segs :: "string \<Rightarrow> path" where
  "segs p = map (\<lambda>s. if s = ''..'' then ParentDir else NormalComp s)
              (filter (\<lambda>s. s \<noteq> [] \<and> s \<noteq> ''.'') (split_char (CHR ''/'') p))"

lemma split_char_append: "split_char d (a @ d # b) = split_char d a @ split_char d b"
proof (induction a)
  case (Cons c a)
  then show ?case by (cases "split_char d a") auto
qed simp

lemma segs_slash: "segs (a @ CHR ''/'' # b) = segs a @ segs b"
  by (simp add: segs_def split_char_append)

lemma segs_Nil [simp]: "segs [] = []"
  by (simp add: segs_def)

lemma segs_cur: "segs (CHR ''.'' # CHR ''/'' # r) = segs r"
  using segs_slash [of "''.''" r] by (simp add: segs_def)

lemma components_absolute: "is_absolute p \<Longrightarrow> components p = RootDir # segs p"
  by (simp add: components_def segs_def is_absolute_def)

lemma segs_join_path: "segs (join_path dir p) = segs dir @ segs p"
proof (cases "dir \<noteq> [] \<and> ends_with dir ''/''")
  case True
  then obtain d where "dir = d @ ''/''" by (auto simp: ends_with_iff)
  then show ?thesis by (simp add: join_path_def ends_with_iff segs_slash)
qed (auto simp: join_path_def segs_slash)

lemma trim_slashes: "\<exists>k. cwd = trim_end_matches (\<lambda>c. c = CHR ''/'') cwd @ replicate k (CHR ''/'')"
proof -
  have "takeWhile (\<lambda>c. c = x) xs = replicate (length (takeWhile (\<lambda>c. c = x) xs)) x" for x :: char and xs
    by (metis (full_types) replicate_length_same set_takeWhileD)
  then have "rev (takeWhile (\<lambda>c. c = CHR ''/'') (rev cwd))
      = replicate (length (takeWhile (\<lambda>c. c = CHR ''/'') (rev cwd))) (CHR ''/'')"
    by (metis rev_replicate)
  moreover have "cwd = rev (dropWhile (\<lambda>c. c = CHR ''/'') (rev cwd)) @ rev (takeWhile (\<lambda>c. c = CHR ''/'') (rev cwd))"
    by (metis rev_append rev_rev_ident takeWhile_dropWhile_id)
  ultimately show ?thesis unfolding trim_end_matches_def by metis
qed

lemma segs_trim_slashes: "segs (trim_end_matches (\<lambda>c. c = CHR ''/'') cwd) = segs cwd"
proof -
  have rep: "segs (t @ replicate k (CHR ''/'')) = segs t" for t k
  proof (induction k arbitrary: t)
    case (Suc k)
    have "segs (t @ replicate (Suc k) (CHR ''/'')) = segs ((t @ ''/'') @ replicate k (CHR ''/''))" by simp
    also have "\<dots> = segs (t @ ''/'')" by (rule Suc)
    finally show ?case by (simp add: segs_slash)
  qed simp
  obtain k where "cwd = trim_end_matches (\<lambda>c. c = CHR ''/'') cwd @ replicate k (CHR ''/'')"
    using trim_slashes by blast
  then show ?thesis by (metis rep)
qed

lemma source_bytes_relative:
  "is_absolute cwd \<Longrightarrow> \<not> is_absolute p \<Longrightarrow> source_bytes E p cwd = read_file E (RootDir # segs cwd @ segs p)"
proof -
  assume "is_absolute cwd" "\<not> is_absolute p"
  moreover from this have "is_absolute (join_path cwd p)"
    by (cases cwd) (auto simp: is_absolute_def join_path_def)
  ultimately show ?thesis by (simp add: source_bytes_def components_absolute segs_join_path)
qed

lemma source_bytes_absolute: "is_absolute p \<Longrightarrow> source_bytes E p cwd = read_file E (RootDir # segs p)"
  by (simp add: source_bytes_def components_absolute)

text \<open>The sources for which every accepted spelling is the same file: the source or the working directory is absolute, and
  the source does not go on with a doubled slash right after the working directory, which would leave an absolute path
  when the working directory is cut off.\<close>

definition names_one_file :: "string \<Rightarrow> string \<Rightarrow> bool" where
  "names_one_file source cwd \<longleftrightarrow>
     (is_absolute source \<or> is_absolute cwd)
     \<and> (let t = trim_end_matches (\<lambda>c. c = CHR ''/'') cwd in t = [] \<or> \<not> starts_with source (t @ ''//''))"

lemma absolute_prefix: "is_absolute (t @ s) \<Longrightarrow> t \<noteq> [] \<Longrightarrow> is_absolute (t @ u)"
  by (cases t) (auto simp: is_absolute_def)

lemma candidates_same_file:
  assumes one: "names_one_file source cwd"
    and cand: "cand \<in> set (source_path_candidates source cwd)"
  shows "source_bytes E cand cwd = source_bytes E source cwd"
proof -
  define t where "t = trim_end_matches (\<lambda>c. c = CHR ''/'') cwd"
  have t: "segs t = segs cwd" by (simp add: t_def segs_trim_slashes)
  have some: "is_absolute source \<or> is_absolute cwd" and plain: "t = [] \<or> \<not> starts_with source (t @ ''//'')"
    using one by (simp_all add: names_one_file_def Let_def t_def)
  obtain k where k: "cwd = t @ replicate k (CHR ''/'')" using trim_slashes unfolding t_def by blast
  consider "cand = source"
    | rel where "t \<noteq> []" "source = t @ CHR ''/'' # rel" "rel \<noteq> []" "cand = rel \<or> cand = ''./'' @ rel"
    | r where "t \<noteq> []" "\<not> is_absolute source" "cand = t @ CHR ''/'' # r"
        "source = r \<or> source = CHR ''.'' # CHR ''/'' # r"
    using cand unfolding source_path_candidates_def Let_def t_def [symmetric]
    by (auto simp: strip_prefix_Some Option.bind_eq_Some_conv eq_commute [of "Some _"]
        split: if_splits option.splits)
  then show ?thesis
  proof cases
    case (2 rel)
    then have cwd: "is_absolute cwd" using some k absolute_prefix[of t "CHR ''/'' # rel"] by auto
    have abs: "is_absolute (t @ s)" for s using cwd k 2(1) absolute_prefix by metis
    have "\<not> is_absolute rel"
    proof
      assume "is_absolute rel"
      then obtain r where "rel = CHR ''/'' # r" by (cases rel) (auto simp: is_absolute_def)
      with 2 have "source = t @ ''//'' @ r" by simp
      with plain 2(1) show False by (auto simp: starts_with_iff)
    qed
    moreover have "\<not> is_absolute (''./'' @ rel)" by (simp add: is_absolute_def)
    ultimately have "source_bytes E cand cwd = read_file E (RootDir # segs cwd @ segs rel)"
      using 2(4) cwd by (auto simp: source_bytes_relative segs_cur)
    with 2 abs show ?thesis by (simp add: source_bytes_absolute segs_slash t)
  next
    case (3 r)
    then have cwd: "is_absolute cwd" using some by blast
    have abs: "is_absolute (t @ s)" for s using cwd k 3(1) absolute_prefix by metis
    from 3 have "segs source = segs r" by (auto simp: segs_cur)
    with 3 abs cwd show ?thesis
      by (simp add: source_bytes_absolute source_bytes_relative segs_slash t)
  qed simp
qed

subsection \<open>An accepted review read every line\<close>

lemma length_split_char: "length (split_char d s) = length (filter (\<lambda>c. c = d) s) + 1"
  by (induction s) (auto split: list.split)

lemma last_split_char_Nil: "s = [] \<or> last s = d \<Longrightarrow> last (split_char d s) = []"
proof (induction s rule: rev_induct)
  case (snoc c s)
  then show ?case using split_char_append [of d s "[]"] by simp
qed simp

lemma numbered_line_counted:
  assumes "(n, raw) \<in> set (enumerate 1 (split_char nl_char bytes))" and "raw \<noteq> []"
  shows "1 \<le> n \<and> n \<le> count_lines bytes"
proof -
  let ?ps = "split_char nl_char bytes"
  have n: "1 \<le> n" "n - 1 < length ?ps" "raw = ?ps ! (n - 1)"
    using assms(1) by (auto simp: in_set_enumerate_eq)
  show ?thesis
  proof (cases "bytes \<noteq> [] \<and> last bytes \<noteq> nl_char")
    case False
    then have "last ?ps = []" using last_split_char_Nil by blast
    then have "n - 1 \<noteq> length ?ps - 1" using n(3) assms(2) by (metis last_conv_nth split_char_nonempty)
    with n show ?thesis by (auto simp: count_lines_def length_split_char)
  qed (use n in \<open>auto simp: count_lines_def length_split_char\<close>)
qed

text \<open>The lines of a file, numbered as \<open>sed\<close> numbers them. What is left after them is the empty piece after a final line
  feed.\<close>

definition numbered_lines :: "string \<Rightarrow> (nat \<times> string) list" where
  "numbered_lines bytes = take (count_lines bytes) (enumerate 1 (split_char nl_char bytes))"

lemma numbered_linesD:
  "(n, raw) \<in> set (numbered_lines bytes) \<Longrightarrow>
     (n, raw) \<in> set (enumerate 1 (split_char nl_char bytes)) \<and> n \<in> {1 .. count_lines bytes}"
  by (auto simp: numbered_lines_def in_set_conv_nth nth_enumerate_eq)

lemma numbered_lines_complete:
  "(n, raw) \<in> set (enumerate 1 (split_char nl_char bytes)) \<Longrightarrow> raw \<noteq> [] \<Longrightarrow> (n, raw) \<in> set (numbered_lines bytes)"
  using numbered_line_counted[of n raw bytes]
  by (auto simp: numbered_lines_def in_set_conv_nth nth_enumerate_eq)

text \<open>A command that opens a file under the name, as a whole or in windows.\<close>

definition reads_operand :: "sight_env \<Rightarrow> ToolCallRecord \<Rightarrow> string \<Rightarrow> bool" where
  "reads_operand E c operand \<longleftrightarrow>
     record_read_source_whole E c operand
     \<or> (case call_command E c of None \<Rightarrow> False | Some cmd \<Rightarrow> operand \<in> set (map rr_operand (command_read_ranges cmd)))"

definition seen_by ::
  "sight_env \<Rightarrow> string \<Rightarrow> string \<Rightarrow> nat \<Rightarrow> string \<Rightarrow> ToolCallRecord \<Rightarrow> bool"
where
  "seen_by E source cwd n line c \<longleftrightarrow>
     successful_read c
     \<and> (if is_shell_read_tool (tool c)
        then list_ex (reads_operand E c) (source_path_candidates source cwd)
             \<and> (\<exists>shown. shown_output c = Some shown \<and> contains_sub shown line)
        else \<exists>rs r. structured_ranges_of_call E (source_path_candidates source cwd) c = Some rs
                    \<and> r \<in> set rs \<and> in_window r n)"

lemma shell_windowD:
  "r \<in> set (shell_windows E cands drops cwd c) \<Longrightarrow>
     is_shell_read_tool (tool c) \<and> successful_read c
     \<and> (\<exists>operand \<in> set cands. reads_operand E c operand \<and> call_showed_lines E c operand r cwd)"
  by (force simp: shell_windows_def reads_operand_def Let_def split: if_splits option.splits)

lemma structured_rangeD:
  "structured_ranges_of_call E cands c = Some rs \<Longrightarrow> \<not> is_shell_read_tool (tool c) \<and> successful_read c"
  by (auto simp: structured_ranges_of_call_def split: if_splits)

lemma read_in_full_shows:
  assumes one: "names_one_file source cwd"
    and full: "tool_call_read_source_in_full E calls source cwd"
  shows "\<exists>bytes. source_bytes E source cwd = Some bytes
    \<and> list_all (\<lambda>(n, raw). list_ex (seen_by E source cwd n (strip_cr raw)) calls) (numbered_lines bytes)"
proof -
  let ?cands = "source_path_candidates source cwd"
  note same = candidates_same_file [OF one]
  from full consider (whole) c where "c \<in> set calls" "whole_read_of E ?cands cwd c"
    | (windows) "codex_ranged_reads_cover_source E calls ?cands source cwd"
    by (auto simp: tool_call_read_source_in_full_def Let_def list_ex_iff)
  then show ?thesis
  proof cases
    case whole
    then obtain cand where cand: "cand \<in> set ?cands" "record_read_source_whole E c cand"
      "call_showed_lines E c cand \<lparr>lr_start = 1, lr_end = None\<rparr> cwd" and ok: "successful_read c"
      by (auto simp: whole_read_of_def list_ex_iff)
    have shell: "is_shell_read_tool (tool c)"
      using cand(2) by (auto simp: record_read_source_whole_def split: option.splits)
    obtain bytes where bytes: "source_bytes E cand cwd = Some bytes"
      using cand(3) by (auto simp: call_showed_lines_def first_line_not_shown_def split: option.splits)
    have "list_ex (seen_by E source cwd n (strip_cr raw)) calls"
      if line: "(n, raw) \<in> set (numbered_lines bytes)" for n raw
    proof -
      note that = numbered_linesD [OF line]
      then have "in_window \<lparr>lr_start = 1, lr_end = None\<rparr> n" by (simp add: in_window_def)
      from call_showed_line [OF cand(3) bytes conjunct1 [OF that] this] show ?thesis
        using whole(1) ok shell cand(1,2) by (auto simp: seen_by_def reads_operand_def list_ex_iff)
    qed
    with bytes same [OF cand(1)] show ?thesis by (auto simp: list_all_iff)
  next
    case windows
    then obtain bytes where bytes: "source_bytes E source cwd = Some bytes"
      and cover: "ranges_cover_lines (concat (map (shell_windows E ?cands (has_nl_delimiter_line bytes) cwd) calls)
          @ structured_read_ranges E calls ?cands) (count_lines bytes)"
      by (auto simp: codex_ranged_reads_cover_source_def Let_def split: option.splits)
    have "list_ex (seen_by E source cwd n (strip_cr raw)) calls"
      if l: "(n, raw) \<in> set (numbered_lines bytes)" for n raw
    proof -
      note line = numbered_linesD [OF l]
      with cover obtain r where r: "in_window r n"
        "r \<in> set (concat (map (shell_windows E ?cands (has_nl_delimiter_line bytes) cwd) calls)
            @ structured_read_ranges E calls ?cands)"
        unfolding cover_iff by blast
      then consider (shell) c where "c \<in> set calls" "r \<in> set (shell_windows E ?cands (has_nl_delimiter_line bytes) cwd c)"
        | (struct) c rs where "c \<in> set calls" "structured_ranges_of_call E ?cands c = Some rs" "r \<in> set rs"
        by (auto simp: structured_read_ranges_def in_set_map_filter)
      then show ?thesis
      proof cases
        case shell
        then obtain operand where op: "operand \<in> set ?cands" "call_showed_lines E c operand r cwd" "reads_operand E c operand"
          and c: "is_shell_read_tool (tool c)" "successful_read c"
          using shell_windowD by blast
        from call_showed_line [OF op(2) _ conjunct1 [OF line] r(1)] same [OF op(1)] bytes
        have "\<exists>shown. shown_output c = Some shown \<and> contains_sub shown (strip_cr raw)" by simp
        with c shell(1) op(1,3) show ?thesis by (auto simp: seen_by_def list_ex_iff)
      next
        case struct
        with structured_rangeD [OF struct(2)] r(1) show ?thesis
          by (auto simp: seen_by_def list_ex_iff)
      qed
    qed
    with bytes show ?thesis by (auto simp: list_all_iff)
  qed
qed

lemma check_sources_Ok:
  "check_sources E a calls srcs cwd lc = Some (Inr (), lc') \<longleftrightarrow>
     lc' = lc \<and> list_all (\<lambda>src. tool_call_touched_source E calls src cwd = Some True
                              \<and> tool_call_read_source_in_full E calls src cwd) srcs"
proof
  assume "check_sources E a calls srcs cwd lc = Some (Inr (), lc')"
  then obtain p: "filter_opt (peeked_at E calls cwd) srcs = Some []"
      and m: "filter_opt (\<lambda>src. map_option Not (tool_call_touched_source E calls src cwd)) srcs = Some []"
      and lc: "lc' = lc"
    by (auto simp: check_sources_def reject_def Option.bind_eq_Some_conv split: if_splits)
  have "tool_call_touched_source E calls src cwd = Some True
      \<and> tool_call_read_source_in_full E calls src cwd" if "src \<in> set srcs" for src
  proof -
    have "map_option Not (tool_call_touched_source E calls src cwd) = Some False"
      using filter_opt_Some [OF m] that by fastforce
    then have t: "tool_call_touched_source E calls src cwd = Some True" by auto
    have "peeked_at E calls cwd src \<noteq> Some True" using filter_opt_Some [OF p] that by auto
    with t show ?thesis by (simp add: peeked_at_def)
  qed
  with lc show "lc' = lc \<and> list_all (\<lambda>src. tool_call_touched_source E calls src cwd = Some True
      \<and> tool_call_read_source_in_full E calls src cwd) srcs"
    by (simp add: list_all_iff)
next
  assume r: "lc' = lc \<and> list_all (\<lambda>src. tool_call_touched_source E calls src cwd = Some True
      \<and> tool_call_read_source_in_full E calls src cwd) srcs"
  have "filter_opt f srcs = Some []" if "\<And>x. x \<in> set srcs \<Longrightarrow> f x = Some False" for f
    using that by (induction srcs) auto
  with r show "check_sources E a calls srcs cwd lc = Some (Inr (), lc')"
    by (simp add: check_sources_def list_all_iff peeked_at_def)
qed

text \<open>C7: The gate accepts a turn exactly when it wrote and delegated nothing, ran under a parser that
  is known to record tool calls, and either named no source and made some call, or ran under a parser
  that tells reads apart, opened every named source and read each of them in full. Acceptance adds
  nothing to the lifecycle.\<close>

theorem enforce_accepts_iff:
  "enforce_reviewer_sight E a calls mode srcs cwd lc = Some (Inr (), lc') \<longleftrightarrow>
     lc' = lc
     \<and> list_all (\<lambda>c. kind c \<noteq> WriteFile \<and> kind c \<noteq> EditFile \<and> tool c \<noteq> COLLAB_TOOL) calls
     \<and> mode \<in> set parser_modes_with_tool_records
     \<and> (if srcs = [] then calls \<noteq> []
        else mode \<in> set parser_modes_that_classify_reads
             \<and> list_all (\<lambda>src. tool_call_touched_source E calls src cwd = Some True
                             \<and> tool_call_read_source_in_full E calls src cwd) srcs)"
  unfolding enforce_reviewer_sight_def Let_def
  by (auto simp: check_sources_Ok reject_def filter_empty_conv list_all_iff list_ex_iff)

text \<open>The gate never adds a rejection without returning it, and never returns one it did not record.\<close>

lemma reject_recorded:
  "enforce_reviewer_sight E a calls mode srcs cwd lc = Some (Inl d, lc') \<Longrightarrow>
     lc' = lc @ [\<lparr>le_state = ''REJECTED'', le_detail = d\<rparr>]"
  by (auto simp: enforce_reviewer_sight_def check_sources_def reject_def Let_def Option.bind_eq_Some_conv
      split: if_splits)

lemma enforce_full:
  assumes "enforce_reviewer_sight E a calls mode srcs cwd lc = Some (Inr (), lc')" and "src \<in> set srcs"
  shows "tool_call_read_source_in_full E calls src cwd"
proof -
  have "check_sources E a calls srcs cwd lc = Some (Inr (), lc')"
    using assms by (auto simp: enforce_reviewer_sight_def reject_def Let_def split: if_splits)
  with assms(2) show ?thesis by (simp add: check_sources_Ok list_all_iff)
qed

text \<open>A call that was a successful read and named the source by one of its spellings.\<close>

definition opened_source :: "sight_env \<Rightarrow> string \<Rightarrow> string \<Rightarrow> ToolCallRecord \<Rightarrow> bool" where
  "opened_source E src cwd c \<longleftrightarrow>
     successful_read c \<and> list_ex (\<lambda>cand. record_names_source E c cand = Some True) (source_path_candidates src cwd)"

lemma touched_opened:
  assumes "tool_call_touched_source E calls src cwd = Some True"
  shows "list_ex (opened_source E src cwd) calls"
proof -
  obtain c where "c \<in> set calls" "(if successful_read c then any_opt (record_names_source E c) (source_path_candidates src cwd) else Some False) = Some True"
    using any_opt_True[OF assms[unfolded tool_call_touched_source_def]] by blast
  then show ?thesis
    using any_opt_True[of "record_names_source E c" "source_path_candidates src cwd"]
    by (auto simp: opened_source_def list_ex_iff split: if_split_asm)
qed

lemma enforce_opened:
  assumes "enforce_reviewer_sight E a calls mode srcs cwd lc = Some (Inr (), lc')" and "src \<in> set srcs"
  shows "list_ex (opened_source E src cwd) calls"
proof -
  have "check_sources E a calls srcs cwd lc = Some (Inr (), lc')"
    using assms by (auto simp: enforce_reviewer_sight_def reject_def Let_def split: if_splits)
  with assms(2) show ?thesis by (auto simp: check_sources_Ok list_all_iff intro: touched_opened)
qed

text \<open>An accepted review has seen its sources: the daemon can read the file, and each of its lines is in the recorded output
  of a successful shell command that opens the source, or inside the lines that a successful structured read of this very file returned, or
  inside the measured window of such a read. A source whose spellings are several files is outside of this.\<close>

theorem accepted_review_saw_every_line:
  assumes "enforce_reviewer_sight E a calls mode srcs cwd lc = Some (Inr (), lc')"
    and "src \<in> set srcs" and "names_one_file src cwd"
  shows "\<exists>bytes. source_bytes E src cwd = Some bytes
    \<and> list_all (\<lambda>(n, raw). list_ex (seen_by E src cwd n (strip_cr raw)) calls) (numbered_lines bytes)"
  using read_in_full_shows [OF assms(3) enforce_full [OF assms(1,2)]] .

text \<open>The environment and the turns of the examples: \<open>/r/a\<close> has two lines, \<open>/r/b\<close> one.\<close>

definition example_text :: string where
  "example_text = ''one'' @ [nl_char] @ ''two'' @ [nl_char]"

definition example_env :: sight_env where
  "example_env =
     \<lparr>from_json = (\<lambda>s. Some (JObject [(''command'', JString s)])),
      read_file = (\<lambda>p. if p = components ''/r/a'' then Some example_text
                       else if p = components ''/r/b'' then Some (''bee'' @ [nl_char])
                       else None)\<rparr>"

definition shell_call :: "string \<Rightarrow> string \<Rightarrow> ToolCallRecord" where
  "shell_call command out =
     \<lparr>tc_id = None, tool = ''command_execution'', kind = ReadFile, success = Some True, duration_ms = None,
      args_json = Some command, returned_lines = [], shown_output = Some out\<rparr>"

lemma example_candidates: "source_path_candidates ''/r/a'' ''/r'' = [''/r/a'', ''a'', ''./a'']"
  by code_simp

lemma example_whole: "whole_file_read_operands (normalize_wrapped_script ''cat a'') = [''a'']"
  by code_simp

lemma example_segments: "read_segments (normalize_wrapped_script ''cat a'') = [''cat a'']"
  by code_simp

lemma wrap64_code [code]: "wrap64 n = nat (int n mod 18446744073709551616)"
  by (simp add: wrap64_def nat_mod_distrib)

lemma example_read:
  "command_read_range ''cat a'' = None" "whole_file_read ''cat a'' = Some (''a'', plain_decoration)"
  "source_bytes example_env ''a'' ''/r'' = Some example_text"
  "printed_bytes example_text \<lparr>lr_start = 1, lr_end = None\<rparr> plain_decoration = 8"
  by code_simp+

lemma example_fits: "shell_call_fits_budget example_env (shell_call ''cat a'' example_text) ''/r''"
proof -
  have "call_command example_env (shell_call ''cat a'' example_text) = Some (normalize_wrapped_script ''cat a'')"
    by (simp add: call_command_def example_env_def shell_call_def shell_command_from_args_json_def
        shell_command_from_value_def json_get_def as_str_def)
  then show ?thesis
    by (simp add: shell_call_fits_budget_def shell_call_printed_bytes_def example_segments example_read
        SHELL_OUTPUT_BUDGET_def wrap64_def del: One_nat_def)
qed

lemma example_shown:
  "call_showed_lines example_env (shell_call ''cat a'' example_text) ''a'' \<lparr>lr_start = 1, lr_end = None\<rparr> ''/r''"
  "record_read_source_whole example_env (shell_call ''cat a'' example_text) ''a''"
  "record_names_source example_env (shell_call ''cat a'' example_text) ''/r/a'' = Some False"
  "record_names_source example_env (shell_call ''cat a'' example_text) ''a'' = Some True"
  by code_simp+

lemma example_modes:
  "''codex-exec-json'' \<in> set parser_modes_with_tool_records"
  "''codex-exec-json'' \<in> set parser_modes_that_classify_reads"
  by code_simp+

lemma example_accepted:
  "enforce_reviewer_sight example_env ''Codex'' [shell_call ''cat a'' example_text] ''codex-exec-json'' [''/r/a''] ''/r'' []
     = Some (Inr (), [])"
proof -
  have ok: "successful_read (shell_call ''cat a'' example_text)" "kind (shell_call ''cat a'' example_text) = ReadFile"
    "tool (shell_call ''cat a'' example_text) = ''command_execution''"
    by (simp_all add: successful_read_def shell_call_def)
  have t: "tool_call_touched_source example_env [shell_call ''cat a'' example_text] ''/r/a'' ''/r'' = Some True"
    by (simp add: tool_call_touched_source_def example_candidates example_shown ok)
  have w: "whole_read_of example_env [''/r/a'', ''a'', ''./a''] ''/r'' (shell_call ''cat a'' example_text)"
    by (simp add: whole_read_of_def ok example_fits example_shown del: One_nat_def)
  then have f: "tool_call_read_source_in_full example_env [shell_call ''cat a'' example_text] ''/r/a'' ''/r''"
    by (simp add: tool_call_read_source_in_full_def example_candidates)
  show ?thesis
    using example_modes t f by (simp add: enforce_reviewer_sight_def check_sources_Ok ok COLLAB_TOOL_def)
qed

theorem accepted_review_saw_every_line_witness:
  "\<exists>bytes. source_bytes example_env ''/r/a'' ''/r'' = Some bytes
    \<and> list_all (\<lambda>(n, raw). list_ex (seen_by example_env ''/r/a'' ''/r'' n (strip_cr raw)) [shell_call ''cat a'' example_text])
        (numbered_lines bytes)"
proof (rule accepted_review_saw_every_line [OF example_accepted])
  show "names_one_file ''/r/a'' ''/r''" by code_simp
qed simp

text \<open>The canary is always rejected, whatever is on disk.\<close>

lemma canary_healthy: "sight_gate_canary E dir None None pid = Some (Inr ())"
proof -
  have "tool_call_touched_source E [] src cwd = Some False" for src cwd
    by (simp add: tool_call_touched_source_def)
  then show ?thesis
    using example_modes
    by (simp add: sight_gate_canary_def Let_def enforce_reviewer_sight_def check_sources_def peeked_at_def
        describe_attempts_on_source_def reject_def)
qed

text \<open>A source that was read in full can still be refused: when one command reads one file whole and
  another in windows, only the whole read counts as opening a file, so the second source is reported as
  never opened.\<close>

definition mixed_command :: string where
  "mixed_command = ''cat a && sed -n 1,1p b''"

lemma mixed_chain_never_opened:
  "whole_file_read_operands mixed_command = [''a'']"
  "map rr_operand (command_read_ranges mixed_command) = [''b'']"
  "record_names_source example_env (shell_call mixed_command out) ''b'' = Some False"
  by code_simp+

text \<open>A source below the working directory with a doubled slash has an absolute path outside of it among
  its spellings.\<close>

lemma doubled_slash_escapes:
  "''/x'' \<in> set (source_path_candidates ''/r//x'' ''/r'')" "\<not> names_one_file ''/r//x'' ''/r''" "names_one_file ''/r/a//x'' ''/r''"
  by code_simp+

text \<open>A newline between the reader and its operand is white space to the parser, while the shell starts
  two commands.\<close>

lemma newline_is_white_space:
  "whole_file_read_operands (''cat'' @ [nl_char] @ ''/r/run.sh'') = [''/r/run.sh'']"
  by code_simp

text \<open>A call that names another file panics the gate when the file name begins with a character of
  several bytes: \<open>C3 BC\<close> is one such character.\<close>

lemma path_search_panics:
  "args_name_path (''/other/'' @ [CHR 0xC3, CHR 0xBC] @ ''.rs'') ([CHR 0xC3, CHR 0xBC] @ ''.rs'') = None"
  by code_simp

text \<open>A number column of the greatest width adds nothing to the budget.\<close>

lemma widest_column_is_free:
  "printed_len \<lparr>number_width = Some 18446744073709551615, dollar = False, visible = False\<rparr> line 1
     = wrap64 (length line)"
  by (simp add: printed_len_def wrap64_def ilog10.simps mod_add_right_eq [symmetric, of "length line"])

end
