(* ===== verification/Sight_Repair.thy ===== *)
theory Sight_Repair
  imports Sight_Gate Complex_Main
begin

text \<open>
  What happens to a review turn around the sight gate (\<open>triumvirate/src/agent_exec.rs\<close>): the contract
  that names the sources in the prompt, the refusal of a reply that is only retired tool markers, the
  note about sources that changed while the review ran, the one repair turn, and the reading of a
  reviewer's verdict. A turn of an agent is the parameter \<open>run\<close>: it answers a prompt in a session and
  leaves a file system behind, since a reviewer and its caller work on the same disk. A cost in dollars is
  an exact rational.

  Shown here: whatever leaves the dispatch arm as the answer to a review has shown every line of every
  named source, also when it took the repair turn.
\<close>

subsection \<open>A turn\<close>

record TokenUsage =
  input_tokens :: "u64 option"
  output_tokens :: "u64 option"
  cached_tokens :: "u64 option"
  thinking_tokens :: "u64 option"
  latency_ms :: "u64 option"
  usage_tool_calls :: "u64 option"
  total_tokens :: "u64 option"

datatype WorkingState = TurnStarted | MessageDelta | ToolCallStarted | ToolCallCompleted | CommandStarted
  | CommandCompleted | FileEditStarted | FileEditCompleted | InputRequested | Stuck | TurnCompleted
  | WorkingError | UnknownState

record WorkingStateEvent =
  ws_agent :: string
  ws_state :: WorkingState
  ws_detail :: string
  ws_tool_name :: "string option"
  ws_tool_args_json :: "string option"
  ws_token_usage :: "TokenUsage option"
  ws_ts_ms :: "nat option"

record ParsedAgentResult =
  response_text :: string
  session_id :: "string option"
  events :: "WorkingStateEvent list"
  tool_calls :: "ToolCallRecord list"
  token_usage :: "TokenUsage option"
  self_reported_cost_usd :: "rat option"
  cli_version :: "string option"
  parser_mode :: string

datatype AgentVerbosity = Quiet | Standard | Detailed | Raw

definition AgentVerbosity_from_env :: "string option \<Rightarrow> AgentVerbosity" where
  "AgentVerbosity_from_env raw =
     (let v = to_lowercase (case raw of Some r \<Rightarrow> r | None \<Rightarrow> ''normal'') in
      if v = ''quiet'' \<or> v = ''minimal'' then Quiet
      else if v = ''standard'' \<or> v = ''normal'' then Standard
      else if v = ''detailed'' \<or> v = ''verbose'' then Detailed
      else if v = ''raw'' \<or> v = ''debug'' then Raw
      else Standard)"

definition should_display :: "WorkingState \<Rightarrow> AgentVerbosity \<Rightarrow> bool" where
  "should_display st v =
     (case v of
        Quiet \<Rightarrow> st \<in> {TurnStarted, TurnCompleted, Stuck, WorkingError, InputRequested}
      | Standard \<Rightarrow> st \<in> {TurnStarted, TurnCompleted, ToolCallStarted, ToolCallCompleted, CommandStarted,
                         CommandCompleted, InputRequested, Stuck, WorkingError}
      | Detailed \<Rightarrow> st \<noteq> UnknownState
      | Raw \<Rightarrow> True)"

datatype SightError =
    Refused SightDetail
  | ChangedDuringReview SightError "string list"
  | AfterRepair SightDetail string
  | RepairDidNotFinish SightError string
  | OnlyToolMarkers string "string list"

subsection \<open>The contract in the prompt\<close>

definition sight_contract_line :: "sight_env \<Rightarrow> string \<Rightarrow> string" where
  "sight_contract_line E source =
     (case source_bytes E source [] of
        Some bytes \<Rightarrow>
          ''- '' @ source @ '' ('' @ show_nat (count_lines bytes) @ '' lines, '' @ show_nat (length bytes) @ '' bytes''
            @ (if length bytes > SHELL_OUTPUT_BUDGET then '', over the one-command limit: read in windows'' else [])
            @ '')''
      | None \<Rightarrow> ''- '' @ source)"

definition SIGHT_CONTRACT_RULE :: string where
  "SIGHT_CONTRACT_RULE = ''How this review is checked: it is rejected unless THIS turn'' @ [squote]
     @ ''s tool calls show every line, 1 to N, of every source above. Earlier turns do not count. Read each source whole (''
     @ [backtick] @ ''cat <path>'' @ [backtick]
     @ '', or your file-read tool with no offset and no limit). If you read in windows, the windows together must cover 1 to N with no gap. One shell command''
     @ [squote]
     @ ''s output is cut at 30000 bytes and a cut read earns nothing. The limit counts everything the command prints, every file in it together, so read a source marked over that limit in windows, and keep each command''
     @ [squote] @ ''s reads under it. To read several small files in one command, join the reads with ''
     @ [backtick] @ ''&&'' @ [backtick] @ ''; reads of different files joined with '' @ [backtick] @ '';''
     @ [backtick]
     @ '' or a newline are not counted, because a failed read is hidden by the next one. Do not modify any file.''"

definition with_required_sources :: "sight_env \<Rightarrow> string \<Rightarrow> string list \<Rightarrow> string" where
  "with_required_sources E message sources =
     (if sources = [] then message
      else message @ [nl_char, nl_char]
        @ ''Sources you must read in full (absolute paths; they exist, do not search for others):'' @ [nl_char]
        @ join [nl_char] (map (sight_contract_line E) sources) @ [nl_char, nl_char] @ SIGHT_CONTRACT_RULE)"

subsection \<open>Replies that are only tool markers\<close>

definition tool_open :: string where
  "tool_open = ''<triumvirate_tool''"

definition tool_close :: string where
  "tool_close = ''</triumvirate_tool>''"

definition unfence :: "string \<Rightarrow> string" where
  "unfence response =
     (let rest = trim response in
      case strip_prefix rest [backtick, backtick, backtick] of
        None \<Rightarrow> rest
      | Some inner0 \<Rightarrow>
          (let inner = (case split_once inner0 [nl_char] of Some (_, body) \<Rightarrow> body | None \<Rightarrow> [])
           in trim (case strip_suffix (trim_end_matches is_whitespace inner) [backtick, backtick, backtick] of
                      Some body \<Rightarrow> body | None \<Rightarrow> inner)))"

definition marker_name :: "string \<Rightarrow> string" where
  "marker_name element =
     (let open_tag = (case split_once element ''>'' of Some (tag, _) \<Rightarrow> tag | None \<Rightarrow> []);
          tails = List.map_filter (\<lambda>attr. strip_prefix attr (''name='' @ [dquote])) (split_whitespace open_tag)
      in case tails of
           [] \<Rightarrow> ''(unparsed)''
         | t # _ \<Rightarrow>
             (case split_once t [dquote] of
                Some (name, after) \<Rightarrow>
                  if after = [] \<and> trim name \<noteq> [] then trim name else ''(unparsed)''
              | None \<Rightarrow> ''(unparsed)''))"

definition at_marker :: "string \<Rightarrow> bool" where
  "at_marker rest =
     (case strip_prefix rest tool_open of
        Some (c # _) \<Rightarrow> c = CHR ''>'' \<or> is_whitespace c
      | _ \<Rightarrow> False)"

text \<open>The loop: the names of the leading markers and what follows them.\<close>

function leading_markers :: "string \<Rightarrow> string list \<times> string" where
  "leading_markers rest =
     (if \<not> at_marker rest then ([], rest)
      else case find_sub rest tool_close of
          None \<Rightarrow> ([''(unclosed)''], [])
        | Some close \<Rightarrow>
            (let e = close + length tool_close;
                 (names, r) = leading_markers (trim_start_matches is_whitespace (drop e rest))
             in (marker_name (take e rest) # names, r)))"
  by pat_completeness auto

lemma length_trim_start: "length (trim_start_matches p s) \<le> length s"
  by (simp add: trim_start_matches_def length_dropWhile_le)

termination leading_markers
proof (relation "measure length")
  fix rest close e
  assume "\<not> \<not> at_marker rest" and e: "e = close + length tool_close"
  then have "rest \<noteq> []" by (auto simp: at_marker_def strip_prefix_def tool_open_def split: option.splits)
  moreover have "e > 0" by (simp add: e tool_close_def)
  ultimately have "length (drop e rest) < length rest" by (cases rest) auto
  then show "(trim_start_matches is_whitespace (drop e rest), rest) \<in> measure length"
    using length_trim_start [of is_whitespace "drop e rest"] by simp
qed simp

declare leading_markers.simps [simp del]

definition unexecuted_tool_marker :: "string \<Rightarrow> string \<Rightarrow> SightError option" where
  "unexecuted_tool_marker agent_display response =
     (case leading_markers (unfence response) of
        (names, rest) \<Rightarrow> if names = [] \<or> rest \<noteq> [] then None else Some (OnlyToolMarkers agent_display names))"

subsection \<open>The repair turn\<close>

definition changed_sources ::
  "sight_env \<Rightarrow> string list \<Rightarrow> string option list \<Rightarrow> string \<Rightarrow> string list"
where
  "changed_sources E sources snapshot cwd =
     map fst (filter (\<lambda>(s, before). source_bytes E s cwd \<noteq> before) (zip sources snapshot))"

definition note_sources_changed_during_review ::
  "sight_env \<Rightarrow> SightError \<Rightarrow> ToolCallRecord list \<Rightarrow> string list \<Rightarrow> string option list \<Rightarrow> string \<Rightarrow> SightError"
where
  "note_sources_changed_during_review E err calls sources snapshot cwd =
     (let changed = map fst (filter (\<lambda>(s, before). source_bytes E s cwd \<noteq> before
                                      \<and> \<not> tool_call_read_source_in_full E calls s cwd) (zip sources snapshot))
      in if changed = [] then err else ChangedDuringReview err changed)"

datatype SightRepair = NotTried | Passed ParsedAgentResult | Failed SightError ParsedAgentResult

definition sight_repair_agents :: "string list" where
  "sight_repair_agents = sight_repair_agents_from all_seats"

definition SIGHT_REPAIR_MIN_BUDGET :: duration where
  "SIGHT_REPAIR_MIN_BUDGET = from_secs 120"

definition sight_failure_is_repairable :: "ToolCallRecord list \<Rightarrow> string \<Rightarrow> string list \<Rightarrow> bool" where
  "sight_failure_is_repairable calls mode sources \<longleftrightarrow>
     sources \<noteq> [] \<and> mode \<in> set parser_modes_with_tool_records \<and> mode \<in> set parser_modes_that_classify_reads
     \<and> \<not> list_ex (\<lambda>c. kind c = WriteFile \<or> kind c = EditFile) calls
     \<and> \<not> list_ex (\<lambda>c. tool c = COLLAB_TOOL) calls
     \<and> list_ex successful_read calls"

definition repair_gap ::
  "sight_env \<Rightarrow> ToolCallRecord list \<Rightarrow> string \<Rightarrow> string \<Rightarrow> string option"
where
  "repair_gap E calls cwd src = do {
     touched \<leftarrow> tool_call_touched_source E calls src cwd;
     receipt \<leftarrow> (if touched then describe_reads_of_source E calls src cwd else Some ''never opened'');
     Some (sight_contract_line E src @ [nl_char] @ ''  counted so far: '' @ receipt)
   }"

definition sight_repair_prompt ::
  "sight_env \<Rightarrow> ToolCallRecord list \<Rightarrow> string list \<Rightarrow> string \<Rightarrow> string option"
where
  "sight_repair_prompt E calls sources cwd = do {
     gaps \<leftarrow> those (map (repair_gap E calls cwd)
              (filter (\<lambda>src. \<not> tool_call_read_source_in_full E calls src cwd) sources));
     Some (''Your review is not accepted yet: the sight gate could not count every line of these sources as read.''
       @ [nl_char] @ join [nl_char] gaps @ [nl_char, nl_char]
       @ ''Read what is missing now, on this turn. Your reads from the previous turn of this conversation still count, unless a file changed since, in which case read that file whole again. One shell command''
       @ [squote]
       @ ''s output is cut at 30000 bytes, counting every file in it together, and a cut read earns nothing: read one file per command, in windows if it is large. Do not modify any file.''
       @ [nl_char, nl_char]
       @ ''Then write your COMPLETE review again from the beginning, not only what changed: this text replaces your first answer. Change anything the lines you had not read change.'')
   }"

definition add_opt :: "u64 option \<Rightarrow> u64 option \<Rightarrow> u64 option" where
  "add_opt a b =
     (if a = None \<and> b = None then None
      else Some ((case a of Some x \<Rightarrow> x | None \<Rightarrow> 0) + (case b of Some x \<Rightarrow> x | None \<Rightarrow> 0)))"

definition add_usage :: "TokenUsage \<Rightarrow> TokenUsage \<Rightarrow> TokenUsage" where
  "add_usage a b =
     \<lparr>input_tokens = add_opt (input_tokens a) (input_tokens b),
      output_tokens = add_opt (output_tokens a) (output_tokens b),
      cached_tokens = add_opt (cached_tokens a) (cached_tokens b),
      thinking_tokens = add_opt (thinking_tokens a) (thinking_tokens b),
      latency_ms = add_opt (latency_ms a) (latency_ms b),
      usage_tool_calls = add_opt (usage_tool_calls a) (usage_tool_calls b),
      total_tokens = add_opt (total_tokens a) (total_tokens b)\<rparr>"

definition or_else :: "'a option \<Rightarrow> 'a option \<Rightarrow> 'a option" where
  "or_else a b = (case a of Some x \<Rightarrow> Some x | None \<Rightarrow> b)"

definition merge_repaired_turn :: "ParsedAgentResult \<Rightarrow> ParsedAgentResult \<Rightarrow> ParsedAgentResult" where
  "merge_repaired_turn first repair =
     \<lparr>response_text =
        ''[sight repair: the first turn did not read every line of the named sources; this answer was written again after a second turn read them]''
          @ [nl_char, nl_char] @ response_text repair,
      session_id = or_else (session_id repair) (session_id first),
      events = events first @ events repair,
      tool_calls = tool_calls first @ tool_calls repair,
      token_usage = (case (token_usage first, token_usage repair) of
                       (Some a, Some b) \<Rightarrow> Some (add_usage a b)
                     | (a, b) \<Rightarrow> or_else a b),
      self_reported_cost_usd = (case (self_reported_cost_usd first, self_reported_cost_usd repair) of
                                  (None, None) \<Rightarrow> None
                                | (a, b) \<Rightarrow> Some ((case a of Some x \<Rightarrow> x | None \<Rightarrow> 0) + (case b of Some x \<Rightarrow> x | None \<Rightarrow> 0))),
      cli_version = or_else (cli_version repair) (cli_version first),
      parser_mode = parser_mode repair\<rparr>"

definition repair_did_not_finish ::
  "ParsedAgentResult \<Rightarrow> SightError \<Rightarrow> string \<Rightarrow> LifecycleEvent list \<Rightarrow> SightRepair \<times> LifecycleEvent list"
where
  "repair_did_not_finish first first_err why lifecycle =
     (Failed (RepairDidNotFinish first_err why) first,
      lifecycle @ [\<lparr>le_state = ''SIGHT_REPAIR_FAILED'', le_detail = RepairUnfinished why\<rparr>])"

datatype turn_outcome = Replied ParsedAgentResult | TurnFailed string | TimedOut

text \<open>The calls of both turns that the gate may count after the repair.\<close>

definition kept_calls ::
  "sight_env \<Rightarrow> ParsedAgentResult \<Rightarrow> ParsedAgentResult \<Rightarrow> string list \<Rightarrow> string \<Rightarrow> ToolCallRecord list option"
where
  "kept_calls E first repair changed cwd = do {
     old \<leftarrow> filter_opt (\<lambda>c. if parser_mode repair = parser_mode first
                           then map_option Not (any_opt (\<lambda>s. tool_call_touched_source E [c] s cwd) changed)
                           else Some False) (tool_calls first);
     Some (old @ tool_calls repair)
   }"

definition repair_note :: "bool \<Rightarrow> string list \<Rightarrow> string" where
  "repair_note same_parser changed =
     (if \<not> same_parser then ''; the parser changed between turns, so only the repair turn'' @ [squote] @ ''s reads counted''
      else if changed = [] then []
      else ''; '' @ join '', '' changed @ '' changed after turn 1, so only the repair turn'' @ [squote]
             @ ''s reads of it counted'')"

definition judge_repair ::
  "sight_env \<Rightarrow> string \<Rightarrow> ParsedAgentResult \<Rightarrow> ParsedAgentResult \<Rightarrow> string list \<Rightarrow> string option list \<Rightarrow> string
     \<Rightarrow> LifecycleEvent list \<Rightarrow> (SightRepair \<times> LifecycleEvent list) option"
where
  "judge_repair E agent_display first repair sources snapshot cwd lifecycle = do {
     let changed = changed_sources E sources snapshot cwd;
     kept \<leftarrow> kept_calls E first repair changed cwd;
     let merged = merge_repaired_turn first repair;
     let note = repair_note (parser_mode repair = parser_mode first) changed;
     (verdict, lc) \<leftarrow> enforce_reviewer_sight E agent_display kept (parser_mode merged) sources cwd lifecycle;
     Some (case verdict of
             Inr _ \<Rightarrow> (Passed merged,
                        lc @ [\<lparr>le_state = ''SIGHT_REPAIR_PASSED'', le_detail = RepairPassed agent_display note\<rparr>])
           | Inl e \<Rightarrow> (Failed (AfterRepair e note) merged,
                        lc @ [\<lparr>le_state = ''SIGHT_REPAIR_FAILED'', le_detail = RepairRefused note\<rparr>]))
   }"

definition try_sight_repair ::
  "sight_env \<Rightarrow> (string \<Rightarrow> string \<Rightarrow> turn_outcome \<times> sight_env) \<Rightarrow> string \<Rightarrow> string \<Rightarrow> ParsedAgentResult \<Rightarrow> SightError
     \<Rightarrow> string list \<Rightarrow> string \<Rightarrow> string option list \<Rightarrow> duration \<Rightarrow> LifecycleEvent list
     \<Rightarrow> (SightRepair \<times> LifecycleEvent list \<times> sight_env) option"
where
  "try_sight_repair E run agent agent_display first first_err sources cwd snapshot budget lifecycle =
     (case session_id first of
        None \<Rightarrow> Some (NotTried, lifecycle, E)
      | Some session \<Rightarrow>
          if trim session = [] then Some (NotTried, lifecycle, E)
          else if agent \<notin> set sight_repair_agents
                  \<or> \<not> sight_failure_is_repairable (tool_calls first) (parser_mode first) sources
          then Some (NotTried, lifecycle, E)
          else if budget < SIGHT_REPAIR_MIN_BUDGET
          then Some (NotTried,
                 lifecycle @ [\<lparr>le_state = ''SIGHT_REPAIR_SKIPPED'', le_detail = RepairSkipped budget\<rparr>], E)
          else do {
            prompt \<leftarrow> sight_repair_prompt E (tool_calls first) sources cwd;
            let lc = lifecycle @ [\<lparr>le_state = ''SIGHT_REPAIR'', le_detail = RepairSent agent_display session\<rparr>];
            (case run prompt session of
               (Replied repair, E') \<Rightarrow>
                 map_option (\<lambda>(r, lc'). (r, lc', E'))
                   (judge_repair E' agent_display first repair sources snapshot cwd lc)
             | (TurnFailed e, E') \<Rightarrow>
                 (case repair_did_not_finish first first_err e lc of (r, lc') \<Rightarrow> Some (r, lc', E'))
             | (TimedOut, E') \<Rightarrow>
                 (case repair_did_not_finish first first_err
                         (''it exceeded the '' @ show_nat (as_secs budget) @ ''s left of the review budget'') lc of
                    (r, lc') \<Rightarrow> Some (r, lc', E')))
          })"

text \<open>The start of the success arm of a dispatch: the turn, what refuses it, and the file system.\<close>

definition sight_arm ::
  "sight_env \<Rightarrow> (string \<Rightarrow> string \<Rightarrow> turn_outcome \<times> sight_env) \<Rightarrow> string \<Rightarrow> string \<Rightarrow> sight_request
     \<Rightarrow> ParsedAgentResult \<Rightarrow> string \<Rightarrow> string option list \<Rightarrow> duration \<Rightarrow> LifecycleEvent list
     \<Rightarrow> (ParsedAgentResult \<times> SightError option \<times> LifecycleEvent list \<times> sight_env) option"
where
  "sight_arm E run agent agent_display req parsed cwd snapshot budget lifecycle =
     (case unexecuted_tool_marker agent_display (response_text parsed) of
        Some e \<Rightarrow> Some (parsed, Some e, lifecycle, E)
      | None \<Rightarrow>
          if \<not> sight_required req then Some (parsed, None, lifecycle, E)
          else do {
            (verdict, lc) \<leftarrow> enforce_reviewer_sight E agent_display (tool_calls parsed) (parser_mode parsed)
                               (required_sources req) cwd lifecycle;
            (case verdict of
               Inr _ \<Rightarrow> Some (parsed, None, lc, E)
             | Inl d \<Rightarrow> do {
                 let err = note_sources_changed_during_review E (Refused d) (tool_calls parsed)
                             (required_sources req) snapshot cwd;
                 (repair, lc', E') \<leftarrow> try_sight_repair E run agent agent_display parsed err (required_sources req)
                                      cwd snapshot budget lc;
                 Some (case repair of
                         Passed merged \<Rightarrow> (merged, None, lc', E')
                       | Failed e merged \<Rightarrow> (merged, Some e, lc', E')
                       | NotTried \<Rightarrow> (parsed, Some err, lc', E'))
               })
          })"

subsection \<open>The verdict of a review\<close>

datatype ReviewVerdict = Approve | Concerns | Reject | Indeterminate

fun ReviewVerdict_as_str :: "ReviewVerdict \<Rightarrow> string" where
  "ReviewVerdict_as_str Approve = ''approve''"
| "ReviewVerdict_as_str Concerns = ''concerns''"
| "ReviewVerdict_as_str Reject = ''reject''"
| "ReviewVerdict_as_str Indeterminate = ''indeterminate''"

definition verdict_blocks :: "ReviewVerdict \<Rightarrow> bool" where
  "verdict_blocks v \<longleftrightarrow> v \<in> {Reject, Indeterminate}"

definition strip_verdict_decoration :: "string \<Rightarrow> string" where
  "strip_verdict_decoration line =
     trim (trim_end_matches
       (\<lambda>c. c \<in> {CHR ''*'', CHR ''_'', backtick, dquote, squote, CHR ''.'', CHR '':'', CHR ''!'', CHR '' ''})
       (trim_start_matches
         (\<lambda>c. c \<in> {CHR ''#'', CHR ''*'', CHR ''_'', CHR ''>'', CHR ''-'', backtick, dquote, squote, CHR '' ''})
         (trim line)))"

definition take_chars :: "nat \<Rightarrow> string \<Rightarrow> string" where
  "take_chars n t =
     (let starts = filter (\<lambda>i. \<not> is_continuation (t ! i)) [0 ..< length t] in
      if length starts > n then take (starts ! n) t else t)"

definition classify_review_verdict :: "string \<Rightarrow> ReviewVerdict \<times> string" where
  "classify_review_verdict response =
     (let first = (case filter (\<lambda>l. l \<noteq> []) (map trim (lines response)) of [] \<Rightarrow> [] | l # _ \<Rightarrow> l);
          token = to_ascii_uppercase (strip_verdict_decoration first)
      in (if token = ''APPROVE'' then Approve
          else if token = ''REJECT'' then Reject
          else if token = ''CONCERNS'' then Concerns
          else Indeterminate,
          take_chars 4000 response))"

definition require_peer_review_enabled :: "(string \<Rightarrow> string option) \<Rightarrow> bool" where
  "require_peer_review_enabled env =
     (case env ''TRIUMVIRATE_REQUIRE_PEER_REVIEW'' of
        None \<Rightarrow> False
      | Some v \<Rightarrow> to_lowercase v \<notin> {''0'', ''false'', ''no'', ''off''})"

subsection \<open>Saved rejections\<close>

definition rejected_file_stem :: "string \<Rightarrow> string" where
  "rejected_file_stem request_id =
     map (\<lambda>c. if is_ascii_alphanumeric c \<or> c = CHR ''-'' \<or> c = CHR ''_'' then c else CHR ''_'')
       (filter (\<lambda>c. \<not> is_continuation c) request_id)"

definition REJECTED_TURNS_KEPT :: nat where
  "REJECTED_TURNS_KEPT = 1000"

text \<open>The files \<open>prune_rejected_turns\<close> removes, given the listing with modification times; a file
  whose time cannot be read has none.\<close>

definition prune_rejected_turns :: "(string \<times> nat option) list \<Rightarrow> nat \<Rightarrow> string list" where
  "prune_rejected_turns entries keep =
     (let saved = List.map_filter (\<lambda>(p, t). if ends_with p ''.json'' \<and> length p > 5 then map_option (\<lambda>m. (m, p)) t else None) entries
      in if length saved \<le> keep then []
         else map snd (take (length saved - keep) (sort saved)))"

subsection \<open>What the repair may count\<close>

lemma kept_calls_subset:
  "kept_calls E first repair changed cwd = Some kept \<Longrightarrow>
     set kept \<subseteq> set (tool_calls (merge_repaired_turn first repair))"
  by (auto simp: kept_calls_def merge_repaired_turn_def Option.bind_eq_Some_conv dest!: filter_opt_Some)

text \<open>No call of the first turn that opened a source which has changed since is counted again.\<close>

lemma kept_calls_fresh:
  assumes "kept_calls E first repair changed cwd = Some kept" and "c \<in> set kept"
    and "c \<notin> set (tool_calls repair)" and "s \<in> set changed"
  shows "c \<in> set (tool_calls first) \<and> tool_call_touched_source E [c] s cwd = Some False"
proof -
  obtain old where f: "filter_opt (\<lambda>c. if parser_mode repair = parser_mode first
      then map_option Not (any_opt (\<lambda>s. tool_call_touched_source E [c] s cwd) changed)
      else Some False) (tool_calls first) = Some old" and "kept = old @ tool_calls repair"
    using assms(1) by (auto simp: kept_calls_def Option.bind_eq_Some_conv)
  with assms(2,3) have "c \<in> set old" by auto
  with filter_opt_Some [OF f] have "c \<in> set (tool_calls first)"
    and "any_opt (\<lambda>s. tool_call_touched_source E [c] s cwd) changed = Some False"
    by (auto split: if_splits)
  with assms(4) show ?thesis by (simp add: any_opt_False)
qed

lemma judge_repair_Passed:
  assumes "judge_repair E a first repair srcs snap cwd lc = Some (Passed merged, lc')"
  obtains kept lc'' where "merged = merge_repaired_turn first repair"
    "kept_calls E first repair (changed_sources E srcs snap cwd) cwd = Some kept"
    "enforce_reviewer_sight E a kept (parser_mode merged) srcs cwd lc = Some (Inr (), lc'')"
proof -
  obtain kept verdict lc'' where kept: "kept_calls E first repair (changed_sources E srcs snap cwd) cwd = Some kept"
    and enf: "enforce_reviewer_sight E a kept (parser_mode (merge_repaired_turn first repair)) srcs cwd lc
        = Some (verdict, lc'')"
    using assms by (auto simp: judge_repair_def Option.bind_eq_Some_conv Let_def)
  moreover have "verdict = Inr () \<and> merged = merge_repaired_turn first repair"
    using assms kept enf by (cases verdict) (auto simp: judge_repair_def Let_def)
  ultimately show ?thesis using that [of kept lc''] by simp
qed

lemma try_sight_repair_Passed:
  assumes "try_sight_repair E run agent a first err srcs cwd snap budget lc = Some (Passed merged, lc', E')"
  obtains repair prompt session lc'' where "run prompt session = (Replied repair, E')"
    "judge_repair E' a first repair srcs snap cwd lc'' = Some (Passed merged, lc')"
proof -
  obtain prompt session lc'' where
    "(case run prompt session of
        (Replied repair, E'') \<Rightarrow>
          map_option (\<lambda>(r, lc'). (r, lc', E'')) (judge_repair E'' a first repair srcs snap cwd lc'')
      | (TurnFailed e, E'') \<Rightarrow>
          (case repair_did_not_finish first err e lc'' of (r, lc') \<Rightarrow> Some (r, lc', E''))
      | (TimedOut, E'') \<Rightarrow>
          (case repair_did_not_finish first err
                  (''it exceeded the '' @ show_nat (as_secs budget) @ ''s left of the review budget'') lc'' of
             (r, lc') \<Rightarrow> Some (r, lc', E''))) = Some (Passed merged, lc', E')"
    using assms
    by (auto simp: try_sight_repair_def Option.bind_eq_Some_conv Let_def split: option.split_asm if_split_asm)
  then show ?thesis using that
    by (auto simp: repair_did_not_finish_def split: prod.split_asm turn_outcome.split_asm)
qed

lemma sight_arm_accepted:
  assumes "sight_arm E run agent a req parsed cwd snap budget lc = Some (parsed', None, lc', E')"
    and "sight_required req"
  obtains calls lc0 lc1 where "set calls \<subseteq> set (tool_calls parsed')"
    "enforce_reviewer_sight E' a calls (parser_mode parsed') (required_sources req) cwd lc0 = Some (Inr (), lc1)"
proof -
  obtain verdict lc2 where v: "enforce_reviewer_sight E a (tool_calls parsed) (parser_mode parsed)
      (required_sources req) cwd lc = Some (verdict, lc2)"
    using assms by (auto simp: sight_arm_def Option.bind_eq_Some_conv split: option.split_asm)
  have rest: "(case verdict of
        Inr _ \<Rightarrow> parsed' = parsed \<and> E' = E
      | Inl d \<Rightarrow> \<exists>err lc3. try_sight_repair E run agent a parsed err (required_sources req) cwd snap budget lc2
                   = Some (Passed parsed', lc3, E'))"
    using assms v
    by (auto simp: sight_arm_def Option.bind_eq_Some_conv Let_def
        split: option.split_asm sum.split SightRepair.split_asm) (metis SightRepair.exhaust)
  show ?thesis
  proof (cases verdict)
    case (Inr u)
    with v rest that [of "tool_calls parsed" lc lc2] show ?thesis by simp
  next
    case (Inl d)
    with rest obtain err lc3 where "try_sight_repair E run agent a parsed err (required_sources req) cwd snap budget lc2
        = Some (Passed parsed', lc3, E')" by auto
    then obtain repair lc4 where "judge_repair E' a parsed repair (required_sources req) snap cwd lc4
        = Some (Passed parsed', lc3)"
      by (rule try_sight_repair_Passed)
    then obtain kept lc5 where "parsed' = merge_repaired_turn parsed repair"
      "kept_calls E' parsed repair (changed_sources E' (required_sources req) snap cwd) cwd = Some kept"
      "enforce_reviewer_sight E' a kept (parser_mode parsed') (required_sources req) cwd lc4 = Some (Inr (), lc5)"
      by (rule judge_repair_Passed)
    with kept_calls_subset that [of kept lc4 lc5] show ?thesis by auto
  qed
qed

text \<open>C6: Whatever a dispatch takes as the answer to a review has opened and seen its sources. When the success arm does not
  refuse the turn, be it the first turn or the turn merged after a repair, then every named source was named by a
  successful read among the calls of the turn that is returned; and when all spellings of the source are one file (the
  source or the working directory is absolute, and no doubled slash follows the working directory in it), every line of
  the file, as it is on disk when the decision is made, stands in the recorded output of a successful command of the turn
  that opens the source, or lies in the window that a successful structured read of the source returned. A blank line
  stands in every output.\<close>

theorem review_answer_saw_its_sources:
  assumes "sight_arm E run agent a req parsed cwd snap budget lc = Some (parsed', None, lc', E')"
    and "src \<in> set (required_sources req)"
  shows "list_ex (opened_source E' src cwd) (tool_calls parsed')
    \<and> (names_one_file src cwd \<longrightarrow>
        (\<exists>bytes. source_bytes E' src cwd = Some bytes
          \<and> list_all (\<lambda>(n, raw). list_ex (seen_by E' src cwd n (strip_cr raw)) (tool_calls parsed')) (numbered_lines bytes)))"
proof -
  have "sight_required req" using assms(2) by (auto simp: sight_required_def)
  with assms(1) obtain calls lc0 lc1 where sub: "set calls \<subseteq> set (tool_calls parsed')"
    and acc: "enforce_reviewer_sight E' a calls (parser_mode parsed') (required_sources req) cwd lc0 = Some (Inr (), lc1)"
    by (rule sight_arm_accepted)
  have more: "list_ex P (tool_calls parsed')" if "list_ex P calls" for P using that sub by (auto simp: list_ex_iff)
  have "\<exists>bytes. source_bytes E' src cwd = Some bytes
      \<and> list_all (\<lambda>(n, raw). list_ex (seen_by E' src cwd n (strip_cr raw)) (tool_calls parsed')) (numbered_lines bytes)"
    if "names_one_file src cwd"
    using read_in_full_shows [OF that enforce_full [OF acc assms(2)]] more by (fastforce simp: list_all_iff)
  with more [OF enforce_opened [OF acc assms(2)]] show ?thesis by blast
qed

definition example_turn :: ParsedAgentResult where
  "example_turn =
     \<lparr>response_text = ''APPROVE'', session_id = None, events = [],
      tool_calls = [shell_call ''cat a'' example_text], token_usage = None, self_reported_cost_usd = None,
      cli_version = None, parser_mode = ''codex-exec-json''\<rparr>"

lemma example_no_marker: "unexecuted_tool_marker ''Codex'' ''APPROVE'' = None"
  by code_simp

theorem review_answer_saw_its_sources_witness:
  "list_ex (opened_source example_env ''/r/a'' ''/r'') (tool_calls example_turn)
   \<and> (\<exists>bytes. source_bytes example_env ''/r/a'' ''/r'' = Some bytes
        \<and> list_all (\<lambda>(n, raw). list_ex (seen_by example_env ''/r/a'' ''/r'' n (strip_cr raw)) (tool_calls example_turn))
            (numbered_lines bytes))"
proof -
  have one: "names_one_file ''/r/a'' ''/r''" by code_simp
  have acc: "sight_arm example_env (\<lambda>_ _. (TimedOut, example_env)) ''codex'' ''Codex''
      \<lparr>require_sight = None, required_sources = [''/r/a'']\<rparr> example_turn ''/r'' [None] 0 []
    = Some (example_turn, None, [], example_env)"
    using example_accepted
    by (simp add: sight_arm_def example_turn_def example_no_marker sight_required_def)
  from review_answer_saw_its_sources [OF acc, of "''/r/a''"] one show ?thesis by simp
qed

subsection \<open>Verdicts and saved rejections\<close>

text \<open>A review that does not block was answered, after its decoration, by exactly one of two words.\<close>

lemma unblocked_iff:
  "\<not> verdict_blocks (fst (classify_review_verdict r)) \<longleftrightarrow>
     to_ascii_uppercase (strip_verdict_decoration
       (case filter (\<lambda>l. l \<noteq> []) (map trim (lines r)) of [] \<Rightarrow> [] | l # _ \<Rightarrow> l)) \<in> {''APPROVE'', ''CONCERNS''}"
  by (simp add: classify_review_verdict_def verdict_blocks_def Let_def)

text \<open>Pruning removes exactly the surplus, and the newest files stay.\<close>

lemma prune_length:
  "length (prune_rejected_turns entries keep) =
     length (List.map_filter (\<lambda>(p, t). if ends_with p ''.json'' \<and> length p > 5 then map_option (\<lambda>m. (m, p)) t else None) entries) - keep"
  by (simp add: prune_rejected_turns_def Let_def)

text \<open>A saved file name never walks out of its directory.\<close>

lemma rejected_file_stem_plain: "CHR ''/'' \<notin> set (rejected_file_stem i) \<and> CHR ''.'' \<notin> set (rejected_file_stem i)"
proof -
  have "\<not> is_ascii_alphanumeric (CHR ''/'')" "\<not> is_ascii_alphanumeric (CHR ''.'')" by code_simp+
  then show ?thesis by (auto simp: rejected_file_stem_def split: if_splits)
qed

end
