(* ===== verification/Stream_Types.thy ===== *)
theory Stream_Types
  imports Sight_Repair
begin

text \<open>
  What the parsers of agent output share (\<open>agent-adapter/src/lib.rs\<close>, \<open>shared-types/src/streaming.rs\<close>): outcomes of a
  dispatch, display events, the line a watcher is shown. The JSON library is the record \<open>serde\<close>: reading a text, writing
  a value, and the floating point value of a number, which is an exact rational here.

  An agent prints one JSON value per line. Every parser folds these values into a state with a list of tool calls, and
  the sight gate believes what that list says. The locale \<open>tool_stream\<close> is the contract that makes this sound: a call is in
  the list only because an event of the stream opened it, and it counts as successful only because an event proved it.
\<close>

subsection \<open>JSON\<close>

record serde =
  sj_from_str :: "string \<Rightarrow> json option"
  sj_to_string :: "json \<Rightarrow> string"
  sj_f64 :: "string \<Rightarrow> rat option"

definition as_bool :: "json \<Rightarrow> bool option" where
  "as_bool v = (case v of JBool b \<Rightarrow> Some b | _ \<Rightarrow> None)"

definition as_array :: "json \<Rightarrow> json list option" where
  "as_array v = (case v of JArray xs \<Rightarrow> Some xs | _ \<Rightarrow> None)"

definition as_i64 :: "json \<Rightarrow> int option" where
  "as_i64 v =
     (case v of
        JNumber (c # ds) \<Rightarrow>
          if c = CHR ''-'' then
            (case parse_uint 64 ds of Some n \<Rightarrow> if 0 < n \<and> int n \<le> 2 ^ 63 then Some (- int n) else None | None \<Rightarrow> None)
          else (case parse_uint 64 (c # ds) of Some n \<Rightarrow> if int n < 2 ^ 63 then Some (int n) else None | None \<Rightarrow> None)
      | _ \<Rightarrow> None)"

definition as_f64 :: "serde \<Rightarrow> json \<Rightarrow> rat option" where
  "as_f64 S v = (case v of JNumber n \<Rightarrow> sj_f64 S n | _ \<Rightarrow> None)"

text \<open>The chains \<open>v.get(k).and_then(Value::as_str)\<close> and their relatives.\<close>

definition get_str :: "json \<Rightarrow> string \<Rightarrow> string option" where
  "get_str v k = Option.bind (json_get v k) as_str"

definition get_u64 :: "json \<Rightarrow> string \<Rightarrow> u64 option" where
  "get_u64 v k = map_option of_nat (Option.bind (json_get v k) as_u64)"

definition get_array :: "json \<Rightarrow> string \<Rightarrow> json list option" where
  "get_array v k = Option.bind (json_get v k) as_array"

definition str_or :: "string \<Rightarrow> string option \<Rightarrow> string" where
  "str_or d x = (case x of Some s \<Rightarrow> s | None \<Rightarrow> d)"

definition or_else :: "'a option \<Rightarrow> 'a option \<Rightarrow> 'a option" where
  "or_else x y = (case x of Some _ \<Rightarrow> x | None \<Rightarrow> y)"

lemma or_else_simps [simp]: "or_else (Some x) y = Some x" "or_else None y = y"
  by (simp_all add: or_else_def)

lemma str_or_simps [simp]: "str_or d (Some s) = s" "str_or d None = d"
  by (simp_all add: str_or_def)

subsection \<open>Results\<close>

datatype SeatOutcome = Success | Partial string | Failure string

datatype UsageReport = Exact TokenUsage | NotReported

record SeatParsed =
  sp_result :: ParsedAgentResult
  sp_outcome :: SeatOutcome
  sp_usage :: UsageReport
  sp_served_model :: "string option"

datatype WorkerLifecycleType = Spawned | LifecycleCompleted | LifecycleFailed

datatype AgentStreamEvent =
    SeTurnStarted string string u64
  | SeToolCall string string string u64
  | SeFileRead string string u64
  | SeResponseChunk string string u64
  | SeTurnCompleted string int int "int option" int u64 u64
  | SeError string string u64
  | SeWorkerLifecycle WorkerLifecycleType string string "string option" "string option" "string option" "string option"
      "string option" "u64 option" u64

text \<open>A working-state event as the parsers build it: the time is never filled in.\<close>

definition working ::
  "string \<Rightarrow> WorkingState \<Rightarrow> string \<Rightarrow> string option \<Rightarrow> string option \<Rightarrow> TokenUsage option \<Rightarrow> WorkingStateEvent"
where
  "working agent st detail t args usage =
     \<lparr>ws_agent = agent, ws_state = st, ws_detail = detail, ws_tool_name = t, ws_tool_args_json = args,
      ws_token_usage = usage, ws_ts_ms = None\<rparr>"

definition no_usage :: TokenUsage where
  "no_usage = \<lparr>input_tokens = None, output_tokens = None, cached_tokens = None, thinking_tokens = None,
     latency_ms = None, usage_tool_calls = None, total_tokens = None\<rparr>"

text \<open>A call as it is recorded when it begins.\<close>

definition opened_call :: "string option \<Rightarrow> string \<Rightarrow> ToolKind \<Rightarrow> string option \<Rightarrow> ToolCallRecord" where
  "opened_call i t k args =
     \<lparr>tc_id = i, tool = t, kind = k, success = None, duration_ms = None, args_json = args, returned_lines = [],
      shown_output = None\<rparr>"

subsection \<open>The line of a watcher\<close>

definition title_agent :: "string \<Rightarrow> string" where
  "title_agent agent = (case agent of [] \<Rightarrow> ''Agent'' | c # cs \<Rightarrow> upper_char c # cs)"

definition extract_param :: "serde \<Rightarrow> string option \<Rightarrow> string list \<Rightarrow> string option" where
  "extract_param S raw ks =
     Option.bind raw (\<lambda>r. Option.bind (sj_from_str S r) (\<lambda>v.
       case List.map_filter (get_str v) ks of [] \<Rightarrow> None | p # _ \<Rightarrow> Some p))"

definition format_working_state :: "serde \<Rightarrow> WorkingStateEvent \<Rightarrow> string" where
  "format_working_state S e =
     (let name = title_agent (ws_agent e);
          line = (\<lambda>what. name @ '': '' @ ws_detail e @ '' ('' @ what @ '')'');
          args = ws_tool_args_json e;
          count = (\<lambda>f u. show_nat (unat (case f u of Some n \<Rightarrow> n | None \<Rightarrow> 0)))
      in if ws_state e = ToolCallStarted \<or> ws_state e = ToolCallCompleted then
           (case extract_param S args [''target_file'', ''file_path'', ''path'', ''filePath'', ''absolute_path''] of
              Some p \<Rightarrow> line p
            | None \<Rightarrow>
                (case extract_param S args [''command''] of
                   Some c \<Rightarrow> line c
                 | None \<Rightarrow>
                     (case extract_param S args [''pattern'', ''query''] of
                        Some p \<Rightarrow> line p
                      | None \<Rightarrow> line (str_or ''tool'' (ws_tool_name e)))))
         else if ws_state e = TurnCompleted then
           (case ws_token_usage e of
              Some u \<Rightarrow> name @ '': responded ('' @ count input_tokens u @ '' in / '' @ count output_tokens u @ '' out / ''
                         @ count cached_tokens u @ '' cached tokens)''
            | None \<Rightarrow> name @ '': '' @ ws_detail e)
         else name @ '': '' @ ws_detail e)"

subsection \<open>Streams of events\<close>

text \<open>\<open>iter_mut().find(..)\<close> and its reverse: the change of the first or of the last element with a property.\<close>

fun update_first :: "('a \<Rightarrow> bool) \<Rightarrow> ('a \<Rightarrow> 'a) \<Rightarrow> 'a list \<Rightarrow> 'a list" where
  "update_first P f [] = []"
| "update_first P f (x # xs) = (if P x then f x # xs else x # update_first P f xs)"

definition update_last :: "('a \<Rightarrow> bool) \<Rightarrow> ('a \<Rightarrow> 'a) \<Rightarrow> 'a list \<Rightarrow> 'a list" where
  "update_last P f xs = rev (update_first P f (rev xs))"

lemma in_update_firstD: "y \<in> set (update_first P f xs) \<Longrightarrow> y \<in> set xs \<or> (\<exists>x \<in> set xs. P x \<and> y = f x)"
  by (induction xs) (auto split: if_split_asm)

lemma in_update_lastD: "y \<in> set (update_last P f xs) \<Longrightarrow> y \<in> set xs \<or> (\<exists>x \<in> set xs. P x \<and> y = f x)"
  unfolding update_last_def using in_update_firstD by fastforce

lemma map_update_first: "(\<And>x. g (f x) = g x) \<Longrightarrow> map g (update_first P f xs) = map g xs"
  by (induction xs) auto

lemma map_update_last: "(\<And>x. g (f x) = g x) \<Longrightarrow> map g (update_last P f xs) = map g xs"
  unfolding update_last_def by (simp add: rev_map[symmetric] map_update_first)

lemma update_first_none: "\<not> list_ex P xs \<Longrightarrow> update_first P f xs = xs"
  by (induction xs) auto

text \<open>A fold keeps what each step keeps, and an element of the result is one of the start or the work of a step.\<close>

lemma fold_invariant:
  "(\<And>b s. b \<in> set bs \<Longrightarrow> I s \<Longrightarrow> I (f b s)) \<Longrightarrow> I s \<Longrightarrow> I (fold f bs s)"
  by (induction bs arbitrary: s) auto

lemma fold_origin:
  assumes "\<And>b s. b \<in> set bs \<Longrightarrow> I s \<Longrightarrow> I (f b s)"
    and "\<And>b s x. b \<in> set bs \<Longrightarrow> I s \<Longrightarrow> x \<in> A (f b s) \<Longrightarrow> P b x \<or> x \<in> A s"
  shows "I s \<Longrightarrow> x \<in> A (fold f bs s) \<Longrightarrow> (\<exists>b \<in> set bs. P b x) \<or> x \<in> A s"
  using assms
proof (induction bs arbitrary: s)
  case (Cons b bs)
  from Cons.prems(1) have "I (f b s)" by (rule Cons.prems(3)[rotated]) simp
  from Cons.IH[OF this] Cons.prems(2-4) have "(\<exists>b \<in> set bs. P b x) \<or> x \<in> A (f b s)" by simp
  with Cons.prems(4)[OF _ Cons.prems(1)] show ?case by auto
qed simp

text \<open>The values of a stream. Most parsers trim a line first and skip an empty one.\<close>

definition stream_values :: "serde \<Rightarrow> string list \<Rightarrow> json list" where
  "stream_values S ls = List.map_filter (sj_from_str S) ls"

definition trimmed_values :: "serde \<Rightarrow> string list \<Rightarrow> json list" where
  "trimmed_values S ls = stream_values S (filter (\<lambda>l. l \<noteq> []) (map trim ls))"

lemma fold_stream_values:
  "fold f (stream_values S ls) s = fold (\<lambda>l s. case sj_from_str S l of None \<Rightarrow> s | Some v \<Rightarrow> f v s) ls s"
  by (induction ls arbitrary: s) (simp_all add: stream_values_def List.map_filter_simps split: option.split)

lemma fold_trimmed_values:
  "fold f (trimmed_values S ls) s =
     fold (\<lambda>l s. if trim l = [] then s else case sj_from_str S (trim l) of None \<Rightarrow> s | Some v \<Rightarrow> f v s) ls s"
  by (induction ls arbitrary: s)
    (simp_all add: trimmed_values_def stream_values_def List.map_filter_simps split: option.split)

lemma contains_sub_capped: "contains_sub (capped_shown_output t) l \<Longrightarrow> contains_sub t l"
  unfolding contains_sub_iff capped_shown_output_def
  by (metis append.assoc append_take_drop_id)

lemma capped_short: "length t \<le> SHOWN_OUTPUT_CAP \<Longrightarrow> capped_shown_output t = t"
  by (cases "length t") (simp_all add: capped_shown_output_def is_char_boundary_def)

lemma structured_rangeE:
  assumes "structured_ranges_of_call E cands r = Some rs" "x \<in> set rs" "in_window x n"
    and "map_of UNNUMBERED_READ_CAPS (tool r) = None"
  obtains a b where "(a, b) \<in> set (returned_lines r)" "a \<le> n" "n \<le> b"
  using assms
  by (auto simp: structured_ranges_of_call_def Option.bind_eq_Some_conv in_window_def split: if_split_asm)

text \<open>\<open>ident\<close> is what of a record never changes after it was opened, \<open>opens v\<close> says that an event opens a call with
  this identity, \<open>proves v r\<close> that an event is the evidence for a record.\<close>

locale tool_stream =
  fixes feed :: "json \<Rightarrow> 's \<Rightarrow> 's"
    and calls :: "'s \<Rightarrow> ToolCallRecord list"
    and ok :: "'s \<Rightarrow> bool"
    and start :: 's
    and ident :: "ToolCallRecord \<Rightarrow> 'i"
    and opens :: "json \<Rightarrow> 'i \<Rightarrow> bool"
    and proves :: "json \<Rightarrow> ToolCallRecord \<Rightarrow> bool"
  assumes start_ok: "ok start" and start_calls: "calls start = []"
    and feed_ok: "ok s \<Longrightarrow> ok (feed v s)"
    and opened: "ok s \<Longrightarrow> r \<in> set (calls (feed v s)) \<Longrightarrow> opens v (ident r) \<or> ident r \<in> ident ` set (calls s)"
    and proved: "ok s \<Longrightarrow> r \<in> set (calls (feed v s)) \<Longrightarrow> success r = Some True \<Longrightarrow> proves v r \<or> r \<in> set (calls s)"
begin

definition run :: "json list \<Rightarrow> 's" where
  "run vs = fold feed vs start"

lemma run_snoc: "run (vs @ [v]) = feed v (run vs)"
  by (simp add: run_def)

lemma run_ok: "ok (run vs)"
  by (induction vs rule: rev_induct) (simp_all add: run_def start_ok feed_ok)

lemma run_opened: "r \<in> set (calls (run vs)) \<Longrightarrow> \<exists>u \<in> set vs. opens u (ident r)"
proof (induction vs arbitrary: r rule: rev_induct)
  case Nil
  then show ?case by (simp add: run_def start_calls)
next
  case (snoc v vs)
  from opened[OF run_ok snoc(2)[unfolded run_snoc]] show ?case
  proof
    assume "ident r \<in> ident ` set (calls (run vs))"
    then obtain r' where "r' \<in> set (calls (run vs))" "ident r = ident r'" by blast
    with snoc(1)[of r'] show ?thesis by auto
  qed simp
qed

text \<open>A successful record has its evidence in the stream, and what opened the call was there by then.\<close>

lemma run_traced:
  assumes traced: "\<And>s v r. ok s \<Longrightarrow> r \<in> set (calls (feed v s)) \<Longrightarrow> P r \<Longrightarrow> X v r \<or> r \<in> set (calls s)"
  shows "r \<in> set (calls (run vs)) \<Longrightarrow> P r \<Longrightarrow>
     \<exists>vs1 v vs2. vs = vs1 @ v # vs2 \<and> X v r \<and> (\<exists>u \<in> set (vs1 @ [v]). opens u (ident r))"
proof (induction vs rule: rev_induct)
  case Nil
  then show ?case by (simp add: run_def start_calls)
next
  case (snoc v vs)
  from traced[OF run_ok snoc(2)[unfolded run_snoc] snoc(3)] show ?case
  proof
    assume "X v r"
    with run_opened[OF snoc(2)] show ?thesis by blast
  next
    assume "r \<in> set (calls (run vs))"
    from snoc(1)[OF this snoc(3)] obtain vs1 w vs2
      where "vs = vs1 @ w # vs2" "X w r" "\<exists>u \<in> set (vs1 @ [w]). opens u (ident r)" by blast
    then show ?thesis by (intro exI[of _ vs1] exI[of _ w] exI[of _ "vs2 @ [v]"]) simp
  qed
qed

lemma run_proved:
  "r \<in> set (calls (run vs)) \<Longrightarrow> success r = Some True \<Longrightarrow>
     \<exists>vs1 v vs2. vs = vs1 @ v # vs2 \<and> proves v r \<and> (\<exists>u \<in> set (vs1 @ [v]). opens u (ident r))"
  by (rule run_traced[where P = "\<lambda>r. success r = Some True"]) (use proved in blast)+

text \<open>The gate believes the records, so what it accepts rests on events of the stream.\<close>

lemma accepted_evidence:
  assumes "enforce_reviewer_sight E a (calls (run vs)) mode srcs cwd lc = Some (Inr (), lc')"
    and "src \<in> set srcs" "names_one_file src cwd"
    and Q: "\<And>n line r vs1 v vs2 u. seen_by E src cwd n line r \<Longrightarrow> vs = vs1 @ v # vs2 \<Longrightarrow> proves v r
      \<Longrightarrow> u \<in> set (vs1 @ [v]) \<Longrightarrow> opens u (ident r) \<Longrightarrow> Q n line"
  shows "\<exists>bytes. source_bytes E src cwd = Some bytes
    \<and> list_all (\<lambda>(n, raw). Q n (strip_cr raw)) (numbered_lines bytes)"
proof -
  have q: "Q n line" if "list_ex (seen_by E src cwd n line) (calls (run vs))" for n line
  proof -
    from that obtain r where r: "r \<in> set (calls (run vs))" "seen_by E src cwd n line r" by (auto simp: list_ex_iff)
    then have "success r = Some True" by (simp add: seen_by_def successful_read_def)
    from run_proved[OF r(1) this] show ?thesis using Q[OF r(2)] by blast
  qed
  obtain bytes where "source_bytes E src cwd = Some bytes"
    and seen: "list_all (\<lambda>(n, raw). list_ex (seen_by E src cwd n (strip_cr raw)) (calls (run vs))) (numbered_lines bytes)"
    using read_in_full_shows[OF assms(3) enforce_full[OF assms(1,2)]] by blast
  moreover have "list_all (\<lambda>(n, raw). Q n (strip_cr raw)) (numbered_lines bytes)"
    using seen q by (auto simp: list_all_iff split: prod.split)
  ultimately show ?thesis by blast
qed

text \<open>However a source is spelled, it was named by a read that the stream shows as successful.\<close>

lemma accepted_opened:
  assumes "enforce_reviewer_sight E a (calls (run vs)) mode srcs cwd lc = Some (Inr (), lc')" and "src \<in> set srcs"
  obtains r vs1 v vs2 u where "opened_source E src cwd r" "vs = vs1 @ v # vs2" "proves v r" "u \<in> set (vs1 @ [v])" "opens u (ident r)"
proof -
  obtain r where r: "r \<in> set (calls (run vs))" "opened_source E src cwd r"
    using enforce_opened[OF assms] by (auto simp: list_ex_iff)
  then have "success r = Some True" by (simp add: opened_source_def successful_read_def)
  from run_proved[OF r(1) this] that r(2) show thesis by blast
qed

end

end
