(* ===== verification/Claude_Stream.thy ===== *)
theory Claude_Stream
  imports Stream_Types
begin

text \<open>
  The parser of claude's \<open>stream-json\<close> output (\<open>agent-adapter/src/claude_stream.rs\<close>). The map from the identifiers of
  open calls to positions in the list of calls is a function.

  Shown here: a position that the map holds is always in range; a successful call has in the stream the event that
  opened it and a later result for its identifier without an error, from whose text the recorded lines and the recorded
  output are taken; and only a stream that ended with a result is given the trusted parser mode.
\<close>

definition CLAUDE_MODE_STREAM :: string where
  "CLAUDE_MODE_STREAM = ''claude-stream-json''"

definition CLAUDE_MODE_PLAIN :: string where
  "CLAUDE_MODE_PLAIN = ''claude-plain-text''"

definition claude_tool_kind :: "string \<Rightarrow> ToolKind" where
  "claude_tool_kind name =
     (if name \<in> {''Read'', ''NotebookRead''} then ReadFile
      else if name = ''Write'' then WriteFile
      else if name \<in> {''Edit'', ''MultiEdit'', ''NotebookEdit''} then EditFile
      else if name \<in> {''Bash'', ''BashOutput'', ''KillShell''} then Bash
      else if name \<in> {''Grep'', ''WebSearch'', ''WebFetch''} then Grep
      else if name \<in> {''Glob'', ''LS''} then Glob
      else if name = ''AskUserQuestion'' then RequestUserInput
      else if name \<in> {''Task'', ''Agent'', ''Artifact'', ''SlashCommand'', ''Skill'', ''SendMessage'', ''RemoteTrigger'',
                     ''CronCreate'', ''CronDelete'', ''Workflow''} then EditFile
      else if starts_with name ''mcp__'' then EditFile
      else UnknownTool)"

definition claude_parse_usage :: "json \<Rightarrow> TokenUsage" where
  "claude_parse_usage u =
     \<lparr>input_tokens = get_u64 u ''input_tokens'', output_tokens = get_u64 u ''output_tokens'',
      cached_tokens = get_u64 u ''cache_read_input_tokens'',
      thinking_tokens = Option.bind (json_get u ''output_tokens_details'') (\<lambda>d. get_u64 d ''thinking_tokens''),
      latency_ms = None, usage_tool_calls = None, total_tokens = None\<rparr>"

definition claude_event ::
  "WorkingState \<Rightarrow> string \<Rightarrow> string option \<Rightarrow> string option \<Rightarrow> TokenUsage option \<Rightarrow> WorkingStateEvent"
where
  "claude_event = working ''claude''"

record claude_parser =
  cl_text_chunks :: "string list"
  cl_final_response :: "string option"
  cl_session_id :: "string option"
  cl_events :: "WorkingStateEvent list"
  cl_tool_calls :: "ToolCallRecord list"
  cl_usage :: "TokenUsage option"
  cl_pending :: "string \<Rightarrow> nat option"
  cl_is_error :: bool
  cl_saw_result :: bool

definition claude_new :: claude_parser where
  "claude_new = \<lparr>cl_text_chunks = [], cl_final_response = None, cl_session_id = None, cl_events = [],
     cl_tool_calls = [], cl_usage = None, cl_pending = (\<lambda>_. None), cl_is_error = False, cl_saw_result = False\<rparr>"

definition claude_push :: "WorkingStateEvent \<Rightarrow> claude_parser \<Rightarrow> claude_parser" where
  "claude_push e p = p\<lparr>cl_events := cl_events p @ [e]\<rparr>"

definition DENIED_DETAIL :: string where
  "DENIED_DETAIL = ''claude was DENIED a tool it asked for: it could not look, which is not the ''
     @ ''same as choosing not to. Dispatch with an explicit --allowedTools list.''"

definition claude_on_system :: "json \<Rightarrow> claude_parser \<Rightarrow> claude_parser" where
  "claude_on_system v p =
     (if get_str v ''subtype'' = Some ''init'' then
        claude_push (claude_event TurnStarted ''claude session started'' None None None)
          (case get_str v ''session_id'' of Some i \<Rightarrow> p\<lparr>cl_session_id := Some i\<rparr> | None \<Rightarrow> p)
      else if get_str v ''subtype'' = Some ''permission_denied'' then
        claude_push (claude_event WorkingError DENIED_DETAIL (get_str v ''tool_name'') None None) p
      else p)"

text \<open>The content blocks of a message, none when the path to them is missing.\<close>

definition message_content :: "json \<Rightarrow> json list" where
  "message_content v =
     (case Option.bind (json_get v ''message'') (\<lambda>m. get_array m ''content'') of Some bs \<Rightarrow> bs | None \<Rightarrow> [])"

definition claude_called :: "serde \<Rightarrow> json \<Rightarrow> ToolCallRecord" where
  "claude_called S b =
     (let name = str_or ''unknown'' (get_str b ''name'')
      in opened_call (get_str b ''id'') name (shell_read_kind (claude_tool_kind name) (json_get b ''input''))
           (map_option (sj_to_string S) (json_get b ''input'')))"

definition claude_assistant_block :: "serde \<Rightarrow> json \<Rightarrow> claude_parser \<Rightarrow> claude_parser" where
  "claude_assistant_block S b p =
     (if get_str b ''type'' = Some ''text'' then
        (case get_str b ''text'' of
           None \<Rightarrow> p
         | Some t \<Rightarrow>
             if t = [] then p
             else claude_push (claude_event MessageDelta (take_chars 120 t) None None None)
                    (p\<lparr>cl_text_chunks := cl_text_chunks p @ [t]\<rparr>))
      else if get_str b ''type'' = Some ''tool_use'' then
        (let r = claude_called S b;
             p1 = (case tc_id r of
                     Some i \<Rightarrow> p\<lparr>cl_pending := (cl_pending p)(i := Some (length (cl_tool_calls p)))\<rparr>
                   | None \<Rightarrow> p)
         in claude_push (claude_event ToolCallStarted (''claude called '' @ tool r) (Some (tool r)) (args_json r) None)
              (p1\<lparr>cl_tool_calls := cl_tool_calls p @ [r]\<rparr>))
      else p)"

definition claude_on_assistant :: "serde \<Rightarrow> json \<Rightarrow> claude_parser \<Rightarrow> claude_parser" where
  "claude_on_assistant S v p = fold (claude_assistant_block S) (message_content v) p"

text \<open>An absent \<open>is_error\<close> means success, a malformed one failure.\<close>

definition result_ok :: "json \<Rightarrow> bool" where
  "result_ok b = (case json_get b ''is_error'' of None \<Rightarrow> True | Some (JBool failed) \<Rightarrow> \<not> failed | Some _ \<Rightarrow> False)"

definition claude_block_text :: "json \<Rightarrow> string" where
  "claude_block_text b =
     (case json_get b ''content'' of
        Some (JString s) \<Rightarrow> s
      | Some (JArray parts) \<Rightarrow> join [CHR 0x0A] (List.map_filter (\<lambda>q. get_str q ''text'') parts)
      | _ \<Rightarrow> [])"

definition claude_result :: "json \<Rightarrow> ToolCallRecord \<Rightarrow> ToolCallRecord" where
  "claude_result b r =
     (let good = result_ok b; r1 = r\<lparr>success := Some good\<rparr>
      in if good \<and> kind r = ReadFile \<and> tool r \<noteq> ''Bash'' then
           r1\<lparr>returned_lines := numbered_line_runs (claude_block_text b)\<rparr>
         else if good \<and> tool r = ''Bash'' then
           r1\<lparr>shown_output := Some (capped_shown_output (claude_block_text b))\<rparr>
         else r1)"

definition claude_user_block :: "json \<Rightarrow> claude_parser \<Rightarrow> claude_parser" where
  "claude_user_block b p =
     (if get_str b ''type'' \<noteq> Some ''tool_result'' then p
      else case get_str b ''tool_use_id'' of
          None \<Rightarrow> p
        | Some i \<Rightarrow>
            (case cl_pending p i of
               None \<Rightarrow> p
             | Some idx \<Rightarrow>
                 (let p1 = p\<lparr>cl_pending := (cl_pending p)(i := None)\<rparr>
                  in if idx < length (cl_tool_calls p) then
                       (let r = claude_result b (cl_tool_calls p ! idx)
                        in claude_push
                             (claude_event (if result_ok b then ToolCallCompleted else WorkingError)
                                (''claude '' @ tool r @ '' '' @ (if result_ok b then ''completed'' else ''FAILED''))
                                (Some (tool r)) None None)
                             (p1\<lparr>cl_tool_calls := (cl_tool_calls p)[idx := r]\<rparr>))
                     else p1)))"

definition claude_on_user :: "json \<Rightarrow> claude_parser \<Rightarrow> claude_parser" where
  "claude_on_user v p = fold claude_user_block (message_content v) p"

definition claude_on_result :: "json \<Rightarrow> claude_parser \<Rightarrow> claude_parser" where
  "claude_on_result v p =
     (let p1 = p\<lparr>cl_saw_result := True\<rparr>;
          p2 = (case get_str v ''session_id'' of Some i \<Rightarrow> p1\<lparr>cl_session_id := Some i\<rparr> | None \<Rightarrow> p1);
          p3 = (if result_ok v then p2 else p2\<lparr>cl_is_error := True\<rparr>);
          p4 = (case get_str v ''result'' of Some t \<Rightarrow> p3\<lparr>cl_final_response := Some t\<rparr> | None \<Rightarrow> p3);
          p5 = (case json_get v ''usage'' of Some u \<Rightarrow> p4\<lparr>cl_usage := Some (claude_parse_usage u)\<rparr> | None \<Rightarrow> p4)
      in claude_push
           (claude_event (if cl_is_error p5 then WorkingError else TurnCompleted)
              (''claude turn finished ('' @ str_or ''unknown'' (get_str v ''subtype'') @ '')'') None None (cl_usage p5))
           p5)"

definition claude_feed :: "serde \<Rightarrow> json \<Rightarrow> claude_parser \<Rightarrow> claude_parser" where
  "claude_feed S v p =
     (let t = get_str v ''type''
      in if t = Some ''system'' then claude_on_system v p
         else if t = Some ''assistant'' then claude_on_assistant S v p
         else if t = Some ''user'' then claude_on_user v p
         else if t = Some ''result'' then claude_on_result v p
         else p)"

definition claude_parse_line :: "serde \<Rightarrow> string \<Rightarrow> claude_parser \<Rightarrow> claude_parser" where
  "claude_parse_line S l p =
     (let line = trim l
      in if line = [] then p
         else case sj_from_str S line of None \<Rightarrow> p | Some v \<Rightarrow> claude_feed S v p)"

definition claude_finish :: "claude_parser \<Rightarrow> ParsedAgentResult" where
  "claude_finish p =
     \<lparr>response_text = trim (case cl_final_response p of Some t \<Rightarrow> t | None \<Rightarrow> concat (cl_text_chunks p)),
      session_id = cl_session_id p, events = cl_events p, tool_calls = cl_tool_calls p, token_usage = cl_usage p,
      self_reported_cost_usd = None, cli_version = None,
      parser_mode = (if cl_saw_result p then CLAUDE_MODE_STREAM else CLAUDE_MODE_PLAIN)\<rparr>"

subsection \<open>The calls of a stream\<close>

text \<open>An identifier that is waiting for its result belongs to a call that has none yet.\<close>

definition claude_ok :: "claude_parser \<Rightarrow> bool" where
  "claude_ok p \<longleftrightarrow>
     (\<forall>i idx. cl_pending p i = Some idx \<longrightarrow>
        idx < length (cl_tool_calls p) \<and> (\<exists>t k a. cl_tool_calls p ! idx = opened_call (Some i) t k a))"

lemma claude_okD:
  "claude_ok p \<Longrightarrow> cl_pending p i = Some idx \<Longrightarrow> idx < length (cl_tool_calls p) \<and> tc_id (cl_tool_calls p ! idx) = Some i"
  unfolding claude_ok_def opened_call_def by fastforce

lemma claude_push_simps [simp]:
  "cl_tool_calls (claude_push e p) = cl_tool_calls p" "cl_pending (claude_push e p) = cl_pending p"
  "cl_saw_result (claude_push e p) = cl_saw_result p"
  "claude_ok (claude_push e p) = claude_ok p"
  by (simp_all add: claude_push_def claude_ok_def)

lemma claude_frame:
  "cl_tool_calls p' = cl_tool_calls p \<Longrightarrow> cl_pending p' = cl_pending p \<Longrightarrow> claude_ok p' = claude_ok p"
  by (simp add: claude_ok_def)

lemma claude_on_system_frame [simp]:
  "cl_tool_calls (claude_on_system v p) = cl_tool_calls p" "cl_pending (claude_on_system v p) = cl_pending p"
  "cl_saw_result (claude_on_system v p) = cl_saw_result p"
  by (simp_all add: claude_on_system_def split: option.split)

lemma claude_on_result_frame [simp]:
  "cl_tool_calls (claude_on_result v p) = cl_tool_calls p" "cl_pending (claude_on_result v p) = cl_pending p"
  "cl_saw_result (claude_on_result v p)"
  by (simp_all add: claude_on_result_def Let_def split: option.split)

text \<open>What the blocks of a message do to the calls.\<close>

lemma success_claude_called [simp]: "success (claude_called S b) = None"
  by (simp add: claude_called_def opened_call_def Let_def)

lemma claude_assistant_block_calls:
  "cl_tool_calls (claude_assistant_block S b p) =
     cl_tool_calls p @ (if get_str b ''type'' = Some ''tool_use'' then [claude_called S b] else [])"
  by (simp add: claude_assistant_block_def Let_def split: option.split)

lemma claude_assistant_block_ok:
  assumes "claude_ok p"
  shows "claude_ok (claude_assistant_block S b p)"
proof (cases "get_str b ''type'' = Some ''tool_use''")
  case True
  then show ?thesis
    using assms by (auto simp: claude_ok_def claude_assistant_block_def Let_def claude_called_def opened_call_def nth_append
        split: option.split if_split_asm)
next
  case False
  then have "cl_tool_calls (claude_assistant_block S b p) = cl_tool_calls p"
    "cl_pending (claude_assistant_block S b p) = cl_pending p"
    by (simp_all add: claude_assistant_block_def split: option.split)
  with assms show ?thesis using claude_frame by blast
qed

definition claude_identity :: "ToolCallRecord \<Rightarrow> string option \<times> string \<times> ToolKind \<times> string option" where
  "claude_identity r = (tc_id r, tool r, kind r, args_json r)"

lemma claude_result_identity [simp]: "claude_identity (claude_result b r) = claude_identity r"
  by (simp add: claude_identity_def claude_result_def Let_def)

text \<open>The evidence in one block: a result for the identifier of the call, with no error, and what was taken from it.\<close>

definition claude_receipt :: "json \<Rightarrow> ToolCallRecord \<Rightarrow> bool" where
  "claude_receipt b r \<longleftrightarrow>
     get_str b ''type'' = Some ''tool_result'' \<and> tc_id r \<noteq> None \<and> get_str b ''tool_use_id'' = tc_id r \<and> result_ok b
     \<and> returned_lines r = (if kind r = ReadFile \<and> tool r \<noteq> ''Bash'' then numbered_line_runs (claude_block_text b) else [])
     \<and> shown_output r = (if tool r = ''Bash'' then Some (capped_shown_output (claude_block_text b)) else None)"

lemma claude_user_block_cases:
  assumes "claude_ok p"
  obtains "cl_tool_calls (claude_user_block b p) = cl_tool_calls p" "cl_pending (claude_user_block b p) = cl_pending p"
  | i idx t k a where "get_str b ''type'' = Some ''tool_result''" "get_str b ''tool_use_id'' = Some i"
      "cl_pending p i = Some idx" "idx < length (cl_tool_calls p)" "cl_tool_calls p ! idx = opened_call (Some i) t k a"
      "cl_pending (claude_user_block b p) = (cl_pending p)(i := None)"
      "cl_tool_calls (claude_user_block b p) = (cl_tool_calls p)[idx := claude_result b (opened_call (Some i) t k a)]"
proof (cases "get_str b ''type'' = Some ''tool_result''")
  case True
  show thesis
  proof (cases "Option.bind (get_str b ''tool_use_id'') (cl_pending p)")
    case None
    then show thesis by (intro that(1)) (auto simp: claude_user_block_def split: option.split)
  next
    case (Some idx)
    then obtain i where i: "get_str b ''tool_use_id'' = Some i" "cl_pending p i = Some idx"
      by (auto simp: bind_eq_Some_conv)
    with assms obtain t k a where "idx < length (cl_tool_calls p)" "cl_tool_calls p ! idx = opened_call (Some i) t k a"
      unfolding claude_ok_def by blast
    with True i show thesis by (intro that(2)) (simp_all add: claude_user_block_def Let_def)
  qed
qed (rule that(1), simp_all add: claude_user_block_def)

lemma claude_user_block_ok:
  assumes "claude_ok p"
  shows "claude_ok (claude_user_block b p)"
  using assms
proof (cases rule: claude_user_block_cases[of p b])
  case 1
  then show ?thesis using claude_frame assms by blast
next
  case (2 i idx t k a)
  have "idx \<noteq> idx'" if "cl_pending p i' = Some idx'" "i' \<noteq> i" for i' idx'
    using claude_okD[OF assms that(1)] claude_okD[OF assms 2(3)] that(2) by auto
  then show ?thesis using assms 2(6,7) unfolding claude_ok_def by (auto split: if_split_asm)
qed

lemma claude_user_block_identity:
  assumes "claude_ok p"
  shows "claude_identity ` set (cl_tool_calls (claude_user_block b p)) = claude_identity ` set (cl_tool_calls p)"
  using assms
proof (cases rule: claude_user_block_cases[of p b])
  case (2 i idx t k a)
  have "map claude_identity (cl_tool_calls (claude_user_block b p)) = map claude_identity (cl_tool_calls p)"
    using 2(4,5) unfolding 2(7) map_update by (simp add: list_update_same_conv)
  then show ?thesis by (metis list.set_map)
qed simp

lemma claude_user_block_receipt:
  assumes "claude_ok p" "r \<in> set (cl_tool_calls (claude_user_block b p))" "success r = Some True"
  shows "claude_receipt b r \<or> r \<in> set (cl_tool_calls p)"
  using assms(1)
proof (cases rule: claude_user_block_cases[of p b])
  case 1
  then show ?thesis using assms(2) by simp
next
  case (2 i idx t k a)
  from assms(2) 2(7) consider "r \<in> set (cl_tool_calls p)" | "r = claude_result b (opened_call (Some i) t k a)"
    using set_update_subset_insert by (metis insert_iff subset_iff)
  then show ?thesis
  proof cases
    case r: 2
    with assms(3) have "result_ok b" by (auto simp: claude_result_def Let_def split: if_split_asm)
    with r 2(1,2) show ?thesis by (simp add: claude_receipt_def claude_result_def opened_call_def Let_def)
  qed simp
qed

subsection \<open>Evidence\<close>

definition claude_opens :: "serde \<Rightarrow> json \<Rightarrow> string option \<times> string \<times> ToolKind \<times> string option \<Rightarrow> bool" where
  "claude_opens S v i \<longleftrightarrow>
     get_str v ''type'' = Some ''assistant''
     \<and> (\<exists>b \<in> set (message_content v). get_str b ''type'' = Some ''tool_use'' \<and> claude_identity (claude_called S b) = i)"

definition claude_proves :: "json \<Rightarrow> ToolCallRecord \<Rightarrow> bool" where
  "claude_proves v r \<longleftrightarrow> get_str v ''type'' = Some ''user'' \<and> (\<exists>b \<in> set (message_content v). claude_receipt b r)"

lemma claude_feed_cases:
  obtains "get_str v ''type'' = Some ''assistant''" "claude_feed S v p = claude_on_assistant S v p"
  | "get_str v ''type'' = Some ''user''" "claude_feed S v p = claude_on_user v p"
  | "cl_tool_calls (claude_feed S v p) = cl_tool_calls p" "cl_pending (claude_feed S v p) = cl_pending p"
proof (cases "get_str v ''type'' = Some ''assistant'' \<or> get_str v ''type'' = Some ''user''")
  case True
  then show thesis using that(1,2) by (auto simp: claude_feed_def)
next
  case False
  then show thesis by (intro that(3)) (simp_all add: claude_feed_def Let_def)
qed

interpretation claude: tool_stream "claude_feed S" cl_tool_calls claude_ok claude_new claude_identity "claude_opens S" claude_proves
  for S
proof
  show "claude_ok claude_new" "cl_tool_calls claude_new = []" by (simp_all add: claude_ok_def claude_new_def)
next
  fix p v
  assume "claude_ok p"
  then show "claude_ok (claude_feed S v p)"
    by (cases rule: claude_feed_cases[of v S p])
      (auto simp: claude_on_assistant_def claude_on_user_def claude_assistant_block_ok claude_user_block_ok
        intro: fold_invariant claude_frame[THEN iffD2])
next
  fix p v r
  assume ok: "claude_ok p" and r: "r \<in> set (cl_tool_calls (claude_feed S v p))"
  show "claude_opens S v (claude_identity r) \<or> claude_identity r \<in> claude_identity ` set (cl_tool_calls p)"
  proof (cases rule: claude_feed_cases[of v S p])
    case 1
    have "(\<exists>b \<in> set (message_content v). get_str b ''type'' = Some ''tool_use'' \<and> claude_called S b = r) \<or> r \<in> set (cl_tool_calls p)"
      by (rule fold_origin[where I = "\<lambda>_. True" and A = "\<lambda>p. set (cl_tool_calls p)"])
        (use r 1 in \<open>auto simp: claude_on_assistant_def claude_assistant_block_calls split: if_split_asm\<close>)
    with 1 show ?thesis by (auto simp: claude_opens_def)
  next
    case 2
    have "claude_identity ` set (cl_tool_calls (claude_feed S v p)) = claude_identity ` set (cl_tool_calls p) \<and> claude_ok (claude_feed S v p)"
      unfolding 2(2) claude_on_user_def
      by (rule fold_invariant) (use ok in \<open>simp_all add: claude_user_block_identity claude_user_block_ok\<close>)
    with r show ?thesis by blast
  qed (use r in simp)
next
  fix p v r
  assume ok: "claude_ok p" and r: "r \<in> set (cl_tool_calls (claude_feed S v p))" "success r = Some True"
  show "claude_proves v r \<or> r \<in> set (cl_tool_calls p)"
  proof (cases rule: claude_feed_cases[of v S p])
    case 1
    have "(\<exists>b \<in> set (message_content v). False) \<or> r \<in> {r \<in> set (cl_tool_calls p). success r = Some True}"
      by (rule fold_origin[where I = "\<lambda>_. True" and A = "\<lambda>p. {r \<in> set (cl_tool_calls p). success r = Some True}"])
        (use r 1 in \<open>auto simp: claude_on_assistant_def claude_assistant_block_calls split: if_split_asm\<close>)
    then show ?thesis by simp
  next
    case 2
    have "(\<exists>b \<in> set (message_content v). claude_receipt b r) \<or> r \<in> {r \<in> set (cl_tool_calls p). success r = Some True}"
      by (rule fold_origin[where I = claude_ok and A = "\<lambda>p. {r \<in> set (cl_tool_calls p). success r = Some True}"])
        (use ok r 2 in \<open>auto simp: claude_on_user_def claude_user_block_ok dest: claude_user_block_receipt\<close>)
    with 2 show ?thesis by (auto simp: claude_proves_def)
  qed (use r in simp)
qed

definition claude_lines :: "serde \<Rightarrow> string list \<Rightarrow> claude_parser" where
  "claude_lines S ls = fold (claude_parse_line S) ls claude_new"

lemma claude_lines_run: "claude_lines S ls = claude.run S (trimmed_values S ls)"
  unfolding claude_lines_def claude.run_def fold_trimmed_values claude_parse_line_def Let_def ..

text \<open>Every kind of read that claude's tool names lead to is \<open>Bash\<close> or none of the shell tools.\<close>

lemma claude_read_shell:
  assumes "claude_opens S u (claude_identity r)" "kind r = ReadFile" "is_shell_read_tool (tool r)"
  shows "tool r = ''Bash''"
proof -
  from assms(1,2) obtain args where "shell_read_kind (claude_tool_kind (tool r)) args = ReadFile"
    by (auto simp: claude_opens_def claude_identity_def claude_called_def opened_call_def Let_def)
  then have "claude_tool_kind (tool r) \<in> {ReadFile, Bash}"
    by (auto simp: shell_read_kind_def split: if_split_asm option.split_asm)
  then have "tool r \<in> {''Read'', ''NotebookRead'', ''Bash'', ''BashOutput'', ''KillShell''}"
    by (auto simp: claude_tool_kind_def split: if_split_asm)
  moreover have "\<not> is_shell_read_tool x" if "x \<in> {''Read'', ''NotebookRead'', ''BashOutput'', ''KillShell''}" for x
    using that by (elim insertE emptyE) (hypsubst, code_simp)+
  ultimately show ?thesis using assms(3) by blast
qed

text \<open>The text of a result shows a line of a source: it contains the line, or numbers it.\<close>

definition claude_shows :: "json \<Rightarrow> ToolCallRecord \<Rightarrow> nat \<Rightarrow> string \<Rightarrow> bool" where
  "claude_shows b r n line \<longleftrightarrow>
     (if tool r = ''Bash'' then contains_sub (claude_block_text b) line
      else Some n \<in> set (map line_number_marker (lines (claude_block_text b))))"

lemma claude_receipt_shows:
  assumes "claude_receipt b r" "seen_by E src cwd n line r" "is_shell_read_tool (tool r) \<Longrightarrow> tool r = ''Bash''"
    and "map_of UNNUMBERED_READ_CAPS (tool r) = None"
  shows "claude_shows b r n line"
proof (cases "is_shell_read_tool (tool r)")
  case True
  with assms(1-3) show ?thesis
    by (auto simp: claude_receipt_def seen_by_def claude_shows_def dest: contains_sub_capped)
next
  case False
  have "is_shell_read_tool ''Bash''" by code_simp
  with False have nb: "tool r \<noteq> ''Bash''" by auto
  from False assms(2) obtain rs x where x: "structured_ranges_of_call E (source_path_candidates src cwd) r = Some rs"
      "x \<in> set rs" "in_window x n" and "successful_read r" by (auto simp: seen_by_def)
  then have "kind r = ReadFile" by (simp add: successful_read_def)
  obtain c d where "(c, d) \<in> set (returned_lines r)" "c \<le> n" "n \<le> d" using x assms(4) by (rule structured_rangeE)
  moreover have "returned_lines r = numbered_line_runs (claude_block_text b)"
    using assms(1) nb \<open>kind r = ReadFile\<close> by (simp add: claude_receipt_def)
  ultimately have "Some n \<in> set (map line_number_marker (lines (claude_block_text b)))"
    using numbered_line_runs_exact[THEN iffD1] by metis
  with nb show ?thesis by (simp add: claude_shows_def)
qed

lemma claude_saw_result_run: "cl_saw_result (claude.run S vs) \<longleftrightarrow> (\<exists>v \<in> set vs. get_str v ''type'' = Some ''result'')"
proof (induction vs rule: rev_induct)
  case Nil
  show ?case unfolding claude.run_def by (simp add: claude_new_def)
next
  case (snoc v vs)
  have a: "cl_saw_result (claude_assistant_block S b p) = cl_saw_result p" for b p
    by (simp add: claude_assistant_block_def Let_def split: option.split)
  have u: "cl_saw_result (claude_user_block b p) = cl_saw_result p" for b p
    by (simp add: claude_user_block_def Let_def split: option.split)
  have "cl_saw_result (claude_on_assistant S w p) = cl_saw_result p" "cl_saw_result (claude_on_user w p) = cl_saw_result p" for w p
    unfolding claude_on_assistant_def claude_on_user_def by (rule fold_invariant, simp_all add: a u)+
  then have "cl_saw_result (claude_feed S v p) \<longleftrightarrow> cl_saw_result p \<or> get_str v ''type'' = Some ''result''" for p
    by (simp add: claude_feed_def Let_def)
  then show ?case unfolding claude.run_snoc using snoc by auto
qed

text \<open>The stream has a call, and after it a result for this very call that shows the line.\<close>

definition claude_answered :: "serde \<Rightarrow> json list \<Rightarrow> ToolCallRecord \<Rightarrow> json \<Rightarrow> bool" where
  "claude_answered S vs r b \<longleftrightarrow>
     (\<exists>vs1 v vs2 u. vs = vs1 @ v # vs2 \<and> u \<in> set vs1 \<and> claude_opens S u (claude_identity r)
        \<and> get_str v ''type'' = Some ''user'' \<and> b \<in> set (message_content v) \<and> claude_receipt b r)"

definition claude_read_evidence :: "serde \<Rightarrow> json list \<Rightarrow> sight_env \<Rightarrow> string \<Rightarrow> string \<Rightarrow> bool" where
  "claude_read_evidence S vs E src cwd \<longleftrightarrow> (\<exists>r b. claude_answered S vs r b \<and> opened_source E src cwd r)"

definition claude_evidence :: "serde \<Rightarrow> json list \<Rightarrow> sight_env \<Rightarrow> string \<Rightarrow> string \<Rightarrow> nat \<Rightarrow> string \<Rightarrow> bool" where
  "claude_evidence S vs E src cwd n line \<longleftrightarrow>
     (\<exists>r b. claude_answered S vs r b \<and> seen_by E src cwd n line r \<and> claude_shows b r n line)"

lemma claude_answeredI:
  assumes "vs = vs1 @ v # vs2" "claude_proves v r" "u \<in> set (vs1 @ [v])" "claude_opens S u (claude_identity r)"
  obtains b where "claude_answered S vs r b" "claude_receipt b r"
proof -
  from assms(2) obtain b where b: "get_str v ''type'' = Some ''user''" "b \<in> set (message_content v)" "claude_receipt b r"
    by (auto simp: claude_proves_def)
  with assms(4) have "u \<noteq> v" by (auto simp: claude_opens_def)
  with assms(1,3,4) b have "claude_answered S vs r b" unfolding claude_answered_def by auto
  with that b(3) show thesis by blast
qed

lemma claude_evidenceI:
  assumes seen: "seen_by E src cwd n line r" and vs: "vs = vs1 @ v # vs2" and pr: "claude_proves v r"
    and um: "u \<in> set (vs1 @ [v])" and u: "claude_opens S u (claude_identity r)"
  shows "claude_evidence S vs E src cwd n line"
proof -
  obtain b where b: "claude_answered S vs r b" "claude_receipt b r" using claude_answeredI[OF vs pr um u] by blast
  have k: "kind r = ReadFile" using seen by (simp add: seen_by_def successful_read_def)
  have "claude_tool_kind ''view_file'' = UnknownTool" by code_simp
  with u k have "map_of UNNUMBERED_READ_CAPS (tool r) = None"
    by (auto simp: UNNUMBERED_READ_CAPS_def claude_opens_def claude_identity_def claude_called_def opened_call_def Let_def
        shell_read_kind_def)
  with b(2) seen claude_read_shell[OF u k] have "claude_shows b r n line" by (intro claude_receipt_shows)
  with b(1) seen show ?thesis unfolding claude_evidence_def by blast
qed

text \<open>C3: Claude's stream and the gate together. When the gate accepts what the parser made of the printed lines, the
  stream has a result event, and for every required source it has a call that names the source and after it a result
  for this very call, without an error. When all spellings of the source are one file (the source or the working
  directory is absolute, and no doubled slash follows the working directory in it), the same holds for every line of the
  file, as it is on disk when the decision is made, with a result whose text shows the line: it contains the line for a
  shell command that opens the source, so that a blank line asks for nothing more, and carries the number of the line
  for a read of the source.\<close>

theorem accepted_claude_review_was_shown:
  assumes "enforce_reviewer_sight E a (tool_calls (claude_finish (claude_lines S ls)))
             (parser_mode (claude_finish (claude_lines S ls))) srcs cwd lc = Some (Inr (), lc')"
    and "src \<in> set srcs"
  shows "(\<exists>v \<in> set (trimmed_values S ls). get_str v ''type'' = Some ''result'')
    \<and> claude_read_evidence S (trimmed_values S ls) E src cwd
    \<and> (names_one_file src cwd \<longrightarrow>
        (\<exists>bytes. source_bytes E src cwd = Some bytes
          \<and> list_all (\<lambda>(n, raw). claude_evidence S (trimmed_values S ls) E src cwd n (strip_cr raw)) (numbered_lines bytes)))"
proof (intro conjI impI)
  have calls: "tool_calls (claude_finish (claude_lines S ls)) = cl_tool_calls (claude.run S (trimmed_values S ls))"
    by (simp add: claude_finish_def claude_lines_run)
  have "parser_mode (claude_finish (claude_lines S ls)) \<in> set parser_modes_with_tool_records"
    using assms(1) by (auto simp: enforce_reviewer_sight_def reject_def Let_def split: if_split_asm)
  moreover have "CLAUDE_MODE_PLAIN \<notin> set parser_modes_with_tool_records" by code_simp
  ultimately have "cl_saw_result (claude_lines S ls)" by (auto simp: claude_finish_def split: if_split_asm)
  then show "\<exists>v \<in> set (trimmed_values S ls). get_str v ''type'' = Some ''result''"
    by (simp add: claude_lines_run claude_saw_result_run)
  show "claude_read_evidence S (trimmed_values S ls) E src cwd"
    using claude.accepted_opened[OF assms(1)[unfolded calls] assms(2)] claude_answeredI unfolding claude_read_evidence_def by metis
  show "\<exists>bytes. source_bytes E src cwd = Some bytes
      \<and> list_all (\<lambda>(n, raw). claude_evidence S (trimmed_values S ls) E src cwd n (strip_cr raw)) (numbered_lines bytes)"
    if "names_one_file src cwd"
    by (rule claude.accepted_evidence[OF assms(1)[unfolded calls] assms(2) that]) (rule claude_evidenceI)
qed

text \<open>A review of the two lines of \<open>/r/a\<close>, as it is printed: the call, its result, the end of the turn.\<close>

definition read_input :: json where
  "read_input = JObject [(''file_path'', JString ''/r/a'')]"

definition read_input_text :: string where
  "read_input_text = (let q = [CHR 0x22] in ''{'' @ q @ ''file_path'' @ q @ '':'' @ q @ ''/r/a'' @ q @ ''}'')"

definition message_of :: "string \<Rightarrow> json \<Rightarrow> json" where
  "message_of t b = JObject [(''type'', JString t), (''message'', JObject [(''content'', JArray [b])])]"

definition numbered_text :: string where
  "numbered_text = ''1'' @ [CHR 0x09] @ ''one'' @ [nl_char] @ ''2'' @ [CHR 0x09] @ ''two''"

definition example_serde :: serde where
  "example_serde = \<lparr>sj_from_str = (\<lambda>l.
       if l = ''call'' then Some (message_of ''assistant'' (JObject [(''type'', JString ''tool_use''), (''id'', JString ''t1''),
         (''name'', JString ''Read''), (''input'', read_input)]))
       else if l = ''shown'' then Some (message_of ''user'' (JObject [(''type'', JString ''tool_result''),
         (''tool_use_id'', JString ''t1''), (''content'', JString numbered_text)]))
       else if l = ''end'' then Some (JObject [(''type'', JString ''result'')])
       else None),
     sj_to_string = (\<lambda>_. read_input_text), sj_f64 = (\<lambda>_. None)\<rparr>"

definition read_env :: sight_env where
  "read_env = \<lparr>from_json = (\<lambda>s. if s = read_input_text then Some read_input else None), read_file = read_file example_env\<rparr>"

lemma claude_example_accepted:
  "enforce_reviewer_sight read_env ''Claude'' (tool_calls (claude_finish (claude_lines example_serde ['' call '', ''banner'', ''shown'', ''end''])))
     (parser_mode (claude_finish (claude_lines example_serde ['' call '', ''banner'', ''shown'', ''end'']))) [''/r/a''] ''/r'' []
   = Some (Inr (), [])"
  by code_simp

theorem accepted_claude_review_was_shown_witness:
  "claude_read_evidence example_serde (trimmed_values example_serde ['' call '', ''banner'', ''shown'', ''end'']) read_env ''/r/a'' ''/r''
   \<and> (\<exists>bytes. source_bytes read_env ''/r/a'' ''/r'' = Some bytes
     \<and> list_all (\<lambda>(n, raw). claude_evidence example_serde (trimmed_values example_serde ['' call '', ''banner'', ''shown'', ''end''])
          read_env ''/r/a'' ''/r'' n (strip_cr raw)) (numbered_lines bytes))"
proof -
  have "names_one_file ''/r/a'' ''/r''" by code_simp
  with accepted_claude_review_was_shown[OF claude_example_accepted, of "''/r/a''"] show ?thesis by simp
qed

end
