(* ===== verification/Codex_Stream.thy ===== *)
theory Codex_Stream
  imports Stream_Types
begin

text \<open>
  The parsers of codex: the \<open>exec\<close> stream (\<open>agent-adapter/src/codex.rs\<close>, second half) and the notifications of the app
  server (\<open>agent-adapter/src/codex_app_server.rs\<close>). A display channel is the list of the events offered to it, which it
  may drop; without one nothing is offered.

  Shown here: a successful command of the exec stream has in the stream the item that started it and a later completed
  item of the same identifier with exit code zero, whose output is the recorded one; an accepted review was therefore
  shown its sources by commands that codex itself reported as finished. The app server parser never records a tool call
  and so never satisfies the sight gate.
\<close>

subsection \<open>The exec stream\<close>

record codex_parser =
  cx_thread_id :: "string option"
  cx_response_chunks :: "string list"
  cx_events :: "WorkingStateEvent list"
  cx_tool_calls :: "ToolCallRecord list"
  cx_token_usage :: "TokenUsage option"
  cx_stream_tx :: "AgentStreamEvent list option"
  cx_stream_seq :: u64

definition codex_new :: codex_parser where
  "codex_new = \<lparr>cx_thread_id = None, cx_response_chunks = [], cx_events = [], cx_tool_calls = [],
     cx_token_usage = None, cx_stream_tx = None, cx_stream_seq = 0\<rparr>"

definition codex_with_stream_channel :: codex_parser where
  "codex_with_stream_channel = codex_new\<lparr>cx_stream_tx := Some []\<rparr>"

text \<open>\<open>next_seq\<close> followed by \<open>emit_stream_event\<close>.\<close>

definition codex_emit :: "(u64 \<Rightarrow> AgentStreamEvent) \<Rightarrow> codex_parser \<Rightarrow> codex_parser" where
  "codex_emit f p =
     (let q = cx_stream_seq p + 1
      in p\<lparr>cx_stream_seq := q, cx_stream_tx := map_option (\<lambda>es. es @ [f q]) (cx_stream_tx p)\<rparr>)"

definition codex_event ::
  "WorkingState \<Rightarrow> string \<Rightarrow> string option \<Rightarrow> string option \<Rightarrow> TokenUsage option \<Rightarrow> WorkingStateEvent"
where
  "codex_event = working ''codex''"

definition codex_push :: "WorkingStateEvent \<Rightarrow> codex_parser \<Rightarrow> codex_parser" where
  "codex_push e p = p\<lparr>cx_events := cx_events p @ [e]\<rparr>"

text \<open>\<open>json!({"command": command}).to_string()\<close>.\<close>

definition command_args :: "serde \<Rightarrow> string \<Rightarrow> string" where
  "command_args S command = sj_to_string S (JObject [(''command'', JString command)])"

definition item_command :: "json \<Rightarrow> string" where
  "item_command item = str_or [] (get_str item ''command'')"

definition codex_started :: "serde \<Rightarrow> json \<Rightarrow> ToolCallRecord" where
  "codex_started S item =
     (let command = item_command item
      in opened_call (get_str item ''id'') ''command_execution''
           (if command_reads_file_contents (normalize_wrapped_script command) then ReadFile else Bash)
           (Some (command_args S command)))"

definition codex_exit_code :: "json \<Rightarrow> int" where
  "codex_exit_code item = (case Option.bind (json_get item ''exit_code'') as_i64 of Some n \<Rightarrow> n | None \<Rightarrow> -1)"

definition codex_completed :: "json \<Rightarrow> ToolCallRecord \<Rightarrow> ToolCallRecord" where
  "codex_completed item r =
     r\<lparr>success := Some (codex_exit_code item = 0),
       shown_output := Some (capped_shown_output (str_or [] (get_str item ''aggregated_output'')))\<rparr>"

definition codex_delegated :: "serde \<Rightarrow> json \<Rightarrow> ToolCallRecord" where
  "codex_delegated S item = opened_call (get_str item ''id'') COLLAB_TOOL UnknownTool (Some (sj_to_string S item))"

definition codex_message_item :: "json \<Rightarrow> codex_parser \<Rightarrow> WorkingStateEvent option \<times> codex_parser" where
  "codex_message_item item p =
     (let t = str_or [] (get_str item ''text'');
          p1 = (if t = [] then p else p\<lparr>cx_response_chunks := cx_response_chunks p @ [t]\<rparr>);
          e = codex_event MessageDelta ''assistant response chunk'' None None None
      in (Some e, codex_push e p1))"

definition codex_command_item :: "serde \<Rightarrow> json \<Rightarrow> bool \<Rightarrow> codex_parser \<Rightarrow> WorkingStateEvent option \<times> codex_parser" where
  "codex_command_item S item started p =
     (let command = item_command item;
          p1 = (if started then p\<lparr>cx_tool_calls := cx_tool_calls p @ [codex_started S item]\<rparr>
                else case get_str item ''id'' of
                    None \<Rightarrow> p
                  | Some i \<Rightarrow> p\<lparr>cx_tool_calls :=
                                update_first (\<lambda>r. tc_id r = Some i) (codex_completed item) (cx_tool_calls p)\<rparr>);
          e = codex_event (if started then CommandStarted else CommandCompleted)
                (if started then ''running command'' else ''command completed'')
                (Some ''command_execution'') (Some (command_args S command)) None;
          p2 = codex_push e p1
      in (Some e, if started then codex_emit (SeToolCall ''codex'' ''bash'' command) p2 else p2))"

definition codex_other_item :: "serde \<Rightarrow> json \<Rightarrow> bool \<Rightarrow> codex_parser \<Rightarrow> WorkingStateEvent option \<times> codex_parser" where
  "codex_other_item S item started p =
     (let item_type = str_or [] (get_str item ''type'');
          p1 = (if started \<and> item_type = COLLAB_TOOL
                then p\<lparr>cx_tool_calls := cx_tool_calls p @ [codex_delegated S item]\<rparr> else p);
          e = codex_event (if started then ToolCallStarted else ToolCallCompleted)
                ((if started then ''started'' else ''completed'') @ '' '' @ item_type)
                (Some item_type) (Some (sj_to_string S item)) None
      in (Some e, codex_push e p1))"

definition codex_parse_item_event ::
  "serde \<Rightarrow> json \<Rightarrow> bool \<Rightarrow> codex_parser \<Rightarrow> WorkingStateEvent option \<times> codex_parser"
where
  "codex_parse_item_event S v started p =
     (case json_get v ''item'' of
        None \<Rightarrow> (None, p)
      | Some item \<Rightarrow>
          if get_str item ''type'' = Some ''agent_message'' then codex_message_item item p
          else if get_str item ''type'' = Some ''command_execution'' then codex_command_item S item started p
          else codex_other_item S item started p)"

definition codex_usage :: "json \<Rightarrow> TokenUsage" where
  "codex_usage v =
     (let u = (case json_get v ''usage'' of Some u \<Rightarrow> u | None \<Rightarrow> JNull)
      in \<lparr>input_tokens = get_u64 u ''input_tokens'', output_tokens = get_u64 u ''output_tokens'',
          cached_tokens = get_u64 u ''cached_input_tokens'', thinking_tokens = get_u64 u ''reasoning_output_tokens'',
          latency_ms = None, usage_tool_calls = None, total_tokens = None\<rparr>)"

definition codex_turn_started :: "string \<Rightarrow> codex_parser \<Rightarrow> WorkingStateEvent option \<times> codex_parser" where
  "codex_turn_started detail p =
     (let e = codex_event TurnStarted detail None None None
      in (Some e, codex_emit (SeTurnStarted ''codex'' (str_or [] (cx_thread_id p))) (codex_push e p)))"

definition codex_turn_completed :: "json \<Rightarrow> codex_parser \<Rightarrow> WorkingStateEvent option \<times> codex_parser" where
  "codex_turn_completed v p =
     (let u = codex_usage v;
          e = codex_event TurnCompleted ''turn completed'' None None (Some u);
          count = (\<lambda>x. case x of Some n \<Rightarrow> sint n | None \<Rightarrow> 0)
      in (Some e,
          codex_emit (SeTurnCompleted ''codex'' (count (input_tokens u)) (count (output_tokens u))
                        (map_option sint (cached_tokens u)) (int (length (cx_tool_calls p))) 0)
            (codex_push e (p\<lparr>cx_token_usage := Some u\<rparr>))))"

definition error_text :: "string \<Rightarrow> json \<Rightarrow> string" where
  "error_text d v = str_or d (Option.bind (or_else (json_get v ''message'') (json_get v ''error'')) as_str)"

definition codex_error :: "json \<Rightarrow> codex_parser \<Rightarrow> WorkingStateEvent option \<times> codex_parser" where
  "codex_error v p =
     (let d = error_text ''codex error'' v; e = codex_event WorkingError d None None None
      in (Some e, codex_emit (SeError ''codex'' d) (codex_push e p)))"

definition codex_parse_value :: "serde \<Rightarrow> json \<Rightarrow> codex_parser \<Rightarrow> WorkingStateEvent option \<times> codex_parser" where
  "codex_parse_value S v p =
     (let t = str_or [] (get_str v ''type'')
      in if t = ''thread.started'' then
           codex_turn_started ''thread started'' (p\<lparr>cx_thread_id := get_str v ''thread_id''\<rparr>)
         else if t = ''turn.started'' then codex_turn_started ''turn started'' p
         else if t = ''item.started'' then codex_parse_item_event S v True p
         else if t = ''item.completed'' then codex_parse_item_event S v False p
         else if t = ''turn.completed'' then codex_turn_completed v p
         else if t = ''error'' then codex_error v p
         else (None, p))"

definition codex_parse_line :: "serde \<Rightarrow> string \<Rightarrow> codex_parser \<Rightarrow> WorkingStateEvent option \<times> codex_parser" where
  "codex_parse_line S l p = (case sj_from_str S l of None \<Rightarrow> (None, p) | Some v \<Rightarrow> codex_parse_value S v p)"

definition codex_finish :: "codex_parser \<Rightarrow> ParsedAgentResult" where
  "codex_finish p =
     \<lparr>response_text = join [nl_char] (cx_response_chunks p), session_id = cx_thread_id p, events = cx_events p,
      tool_calls = cx_tool_calls p, token_usage = cx_token_usage p, self_reported_cost_usd = None,
      cli_version = None, parser_mode = ''codex-exec-json''\<rparr>"

subsection \<open>The app server\<close>

record ApprovalRequestEvent =
  ar_id :: "string option"
  ar_reason :: "string option"

datatype ApprovalChannelMode = ProceedOnce | FullAutoFallback

datatype CodexAppServerEvent = Working WorkingStateEvent | ApprovalRequest ApprovalRequestEvent

record app_server_parser =
  as_thread_id :: "string option"
  as_response_chunks :: "string list"
  as_events :: "WorkingStateEvent list"
  as_tool_calls :: "ToolCallRecord list"
  as_token_usage :: "TokenUsage option"
  as_cli_version :: "string option"

definition app_server_new :: app_server_parser where
  "app_server_new = \<lparr>as_thread_id = None, as_response_chunks = [], as_events = [], as_tool_calls = [],
     as_token_usage = None, as_cli_version = None\<rparr>"

definition app_server_record :: "WorkingStateEvent \<Rightarrow> app_server_parser \<Rightarrow> CodexAppServerEvent option \<times> app_server_parser" where
  "app_server_record e p = (Some (Working e), p\<lparr>as_events := as_events p @ [e]\<rparr>)"

definition app_server_usage :: "json option \<Rightarrow> TokenUsage" where
  "app_server_usage params =
     (let u = (case Option.bind params (\<lambda>q. json_get q ''usage'') of Some u \<Rightarrow> u | None \<Rightarrow> JNull);
          get = (\<lambda>k k'. map_option of_nat (Option.bind (or_else (json_get u k) (json_get u k')) as_u64))
      in \<lparr>input_tokens = get ''input_tokens'' ''input'', output_tokens = get ''output_tokens'' ''output'',
          cached_tokens = get ''cached_input_tokens'' ''cached'', thinking_tokens = None, latency_ms = None,
          usage_tool_calls = None, total_tokens = get ''total_tokens'' ''total''\<rparr>)"

definition parse_notification ::
  "string \<Rightarrow> json option \<Rightarrow> app_server_parser \<Rightarrow> CodexAppServerEvent option \<times> app_server_parser"
where
  "parse_notification method params p =
     (let param = (\<lambda>k. Option.bind params (\<lambda>q. get_str q k))
      in if method = ''initialized'' then
           app_server_record (codex_event TurnStarted ''app-server initialized'' None None None) p
         else if method = ''thread/start'' then
           app_server_record (codex_event TurnStarted ''thread started'' None None None) (p\<lparr>as_thread_id := param ''thread_id''\<rparr>)
         else if method = ''turn/start'' then
           app_server_record (codex_event TurnStarted ''turn started'' None None None) p
         else if method = ''turn/text-delta'' \<or> method = ''stream/text-delta'' then
           app_server_record (codex_event MessageDelta ''assistant response chunk'' None None None)
             (case or_else (param ''delta'') (param ''text'') of
                Some d \<Rightarrow> if d = [] then p else p\<lparr>as_response_chunks := as_response_chunks p @ [d]\<rparr>
              | None \<Rightarrow> p)
         else if method = ''approval/request'' \<or> method = ''approval_request'' then
           (Some (ApprovalRequest \<lparr>ar_id = param ''id'', ar_reason = param ''reason''\<rparr>), p)
         else if method = ''turn/completed'' then
           (let u = app_server_usage params
            in app_server_record (codex_event TurnCompleted ''turn completed'' None None (Some u))
                 (p\<lparr>as_token_usage := Some u\<rparr>))
         else (None, p))"

datatype app_server_error = BadJson | ExecFormatDetected

definition parse_event_line ::
  "serde \<Rightarrow> string \<Rightarrow> app_server_parser \<Rightarrow> (app_server_error + CodexAppServerEvent option) \<times> app_server_parser"
where
  "parse_event_line S l p =
     (case sj_from_str S l of
        None \<Rightarrow> (Inl BadJson, p)
      | Some v \<Rightarrow>
          if json_get v ''type'' \<noteq> None \<and> json_get v ''jsonrpc'' = None then (Inl ExecFormatDetected, p)
          else case get_str v ''method'' of
              Some m \<Rightarrow> (case parse_notification m (json_get v ''params'') p of (e, p') \<Rightarrow> (Inr e, p'))
            | None \<Rightarrow>
                (Inr None,
                 case Option.bind (json_get v ''result'') (\<lambda>r. get_str r ''model'') of
                   Some m \<Rightarrow> p\<lparr>as_cli_version := Some m\<rparr>
                 | None \<Rightarrow> p))"

definition app_server_parse_line ::
  "serde \<Rightarrow> string \<Rightarrow> app_server_parser \<Rightarrow> (app_server_error + WorkingStateEvent option) \<times> app_server_parser"
where
  "app_server_parse_line S l p =
     (case parse_event_line S l p of
        (Inl e, p') \<Rightarrow> (Inl e, p')
      | (Inr (Some (Working e)), p') \<Rightarrow> (Inr (Some e), p')
      | (Inr _, p') \<Rightarrow> (Inr None, p'))"

definition app_server_finish :: "app_server_parser \<Rightarrow> ParsedAgentResult" where
  "app_server_finish p =
     \<lparr>response_text = concat (as_response_chunks p), session_id = as_thread_id p, events = as_events p,
      tool_calls = as_tool_calls p, token_usage = as_token_usage p, self_reported_cost_usd = None,
      cli_version = as_cli_version p, parser_mode = ''codex-app-server-jsonrpc''\<rparr>"

datatype probe_error = ProbeBadJson | MethodNotSupported | ProbeFailed

definition probe_approval_response_channel :: "serde \<Rightarrow> string \<Rightarrow> probe_error + ApprovalChannelMode" where
  "probe_approval_response_channel S response =
     (case sj_from_str S response of
        None \<Rightarrow> Inl ProbeBadJson
      | Some v \<Rightarrow>
          (case json_get v ''error'' of
             None \<Rightarrow> Inr ProceedOnce
           | Some e \<Rightarrow>
               (case get_str e ''message'' of
                  Some m \<Rightarrow> if contains_sub (to_lowercase m) ''method not supported'' then Inl MethodNotSupported else Inl ProbeFailed
                | None \<Rightarrow> Inl ProbeFailed)))"

subsection \<open>Evidence of a command\<close>

definition call_identity :: "ToolCallRecord \<Rightarrow> string option \<times> string \<times> ToolKind \<times> string option" where
  "call_identity r = (tc_id r, tool r, kind r, args_json r)"

lemma call_identity_completed [simp]: "call_identity (codex_completed item r) = call_identity r"
  by (simp add: call_identity_def codex_completed_def)

lemma codex_frame [simp]:
  "cx_tool_calls (codex_push e p) = cx_tool_calls p" "cx_tool_calls (codex_emit f p) = cx_tool_calls p"
  by (simp_all add: codex_push_def codex_emit_def Let_def)

definition codex_opens :: "serde \<Rightarrow> json \<Rightarrow> string option \<times> string \<times> ToolKind \<times> string option \<Rightarrow> bool" where
  "codex_opens S v i \<longleftrightarrow>
     get_str v ''type'' = Some ''item.started'' \<and>
     (\<exists>item. json_get v ''item'' = Some item
        \<and> (get_str item ''type'' = Some ''command_execution'' \<and> i = call_identity (codex_started S item)
           \<or> get_str item ''type'' = Some COLLAB_TOOL \<and> i = call_identity (codex_delegated S item)))"

text \<open>A completed item of the same identifier that exited with zero and whose output is the recorded one.\<close>

definition codex_proves :: "json \<Rightarrow> ToolCallRecord \<Rightarrow> bool" where
  "codex_proves v r \<longleftrightarrow>
     get_str v ''type'' = Some ''item.completed'' \<and>
     (\<exists>item. json_get v ''item'' = Some item \<and> get_str item ''type'' = Some ''command_execution''
        \<and> tc_id r \<noteq> None \<and> get_str item ''id'' = tc_id r \<and> codex_exit_code item = 0
        \<and> shown_output r = Some (capped_shown_output (str_or [] (get_str item ''aggregated_output''))))"

abbreviation codex_feed :: "serde \<Rightarrow> json \<Rightarrow> codex_parser \<Rightarrow> codex_parser" where
  "codex_feed S v p \<equiv> snd (codex_parse_value S v p)"

lemma codex_feed_cases:
  obtains "cx_tool_calls (codex_feed S v p) = cx_tool_calls p"
  | item r where "get_str v ''type'' = Some ''item.started''" "json_get v ''item'' = Some item"
      "get_str item ''type'' = Some ''command_execution'' \<and> r = codex_started S item
        \<or> get_str item ''type'' = Some COLLAB_TOOL \<and> r = codex_delegated S item"
      "cx_tool_calls (codex_feed S v p) = cx_tool_calls p @ [r]"
  | item i where "get_str v ''type'' = Some ''item.completed''" "json_get v ''item'' = Some item"
      "get_str item ''type'' = Some ''command_execution''" "get_str item ''id'' = Some i"
      "cx_tool_calls (codex_feed S v p) = update_first (\<lambda>r. tc_id r = Some i) (codex_completed item) (cx_tool_calls p)"
proof -
  have no: "cx_tool_calls (snd (codex_turn_started d q)) = cx_tool_calls q" "cx_tool_calls (snd (codex_turn_completed v q)) = cx_tool_calls q"
    "cx_tool_calls (snd (codex_error v q)) = cx_tool_calls q" "cx_tool_calls (snd (codex_message_item item q)) = cx_tool_calls q" for d q item
    by (simp_all add: codex_turn_started_def codex_turn_completed_def codex_error_def codex_message_item_def Let_def)
  consider (start) "get_str v ''type'' = Some ''item.started''" | (complete) "get_str v ''type'' = Some ''item.completed''"
    | (rest) "get_str v ''type'' \<notin> {Some ''item.started'', Some ''item.completed''}" by blast
  then show thesis
  proof cases
    case start
    then have f: "codex_feed S v p = snd (codex_parse_item_event S v True p)" by (simp add: codex_parse_value_def)
    show thesis
    proof (cases "json_get v ''item''")
      case None
      then show thesis using f by (intro that(1)) (simp add: codex_parse_item_event_def)
    next
      case (Some item)
      consider "get_str item ''type'' = Some ''command_execution''"
        | "get_str item ''type'' = Some COLLAB_TOOL"
        | "get_str item ''type'' \<notin> {Some ''command_execution'', Some COLLAB_TOOL}" by blast
      then show thesis
      proof cases
        case 1
        with start Some f show thesis
          by (intro that(2)[of item "codex_started S item"]) (simp_all add: codex_parse_item_event_def codex_command_item_def Let_def)
      next
        case 2
        with start Some f show thesis
          by (intro that(2)[of item "codex_delegated S item"])
            (simp_all add: codex_parse_item_event_def codex_other_item_def COLLAB_TOOL_def Let_def)
      next
        case 3
        then have "str_or [] (get_str item ''type'') \<noteq> COLLAB_TOOL"
          by (cases "get_str item ''type''") (auto simp: COLLAB_TOOL_def)
        with 3 Some f show thesis
          by (intro that(1)) (simp add: codex_parse_item_event_def codex_other_item_def no Let_def)
      qed
    qed
  next
    case complete
    then have f: "codex_feed S v p = snd (codex_parse_item_event S v False p)" by (simp add: codex_parse_value_def)
    show thesis
    proof (cases "\<exists>item i. json_get v ''item'' = Some item \<and> get_str item ''type'' = Some ''command_execution'' \<and> get_str item ''id'' = Some i")
      case True
      then obtain item i where "json_get v ''item'' = Some item" "get_str item ''type'' = Some ''command_execution''" "get_str item ''id'' = Some i"
        by blast
      with complete f show thesis
        by (intro that(3)[of item i]) (simp_all add: codex_parse_item_event_def codex_command_item_def Let_def)
    next
      case False
      then show thesis using f
        by (intro that(1)) (auto simp: codex_parse_item_event_def codex_command_item_def codex_other_item_def no Let_def split: option.split)
    qed
  next
    case rest
    then show thesis by (intro that(1)) (cases "get_str v ''type''"; simp add: codex_parse_value_def no Let_def)
  qed
qed

interpretation codex: tool_stream "codex_feed S" cx_tool_calls "\<lambda>_. True" codex_new call_identity "codex_opens S" codex_proves
  for S
proof
  fix v p r
  assume r: "r \<in> set (cx_tool_calls (codex_feed S v p))"
  show "codex_opens S v (call_identity r) \<or> call_identity r \<in> call_identity ` set (cx_tool_calls p)"
  proof (cases rule: codex_feed_cases[of S v p])
    case (2 item r')
    with r show ?thesis by (auto simp: codex_opens_def)
  next
    case (3 item i)
    have "map call_identity (cx_tool_calls (codex_feed S v p)) = map call_identity (cx_tool_calls p)"
      unfolding 3(5) by (rule map_update_first) simp
    with r show ?thesis by (metis image_eqI list.set_map)
  qed (use r in simp)
  show "codex_proves v r \<or> r \<in> set (cx_tool_calls p)" if s: "success r = Some True"
  proof (cases rule: codex_feed_cases[of S v p])
    case (2 item r')
    then have "success r' = None" by (auto simp: codex_started_def codex_delegated_def opened_call_def Let_def)
    with r s 2(4) show ?thesis by auto
  next
    case (3 item i)
    from in_update_firstD[OF r[unfolded 3(5)]] show ?thesis
    proof
      assume "\<exists>x \<in> set (cx_tool_calls p). tc_id x = Some i \<and> r = codex_completed item x"
      with s 3(1-4) show ?thesis by (auto simp: codex_proves_def codex_completed_def)
    qed simp
  qed (use r in simp)
qed (simp_all add: codex_new_def)

definition codex_lines :: "serde \<Rightarrow> string list \<Rightarrow> codex_parser" where
  "codex_lines S ls = fold (\<lambda>l p. snd (codex_parse_line S l p)) ls codex_new"

lemma codex_lines_run: "codex_lines S ls = codex.run S (stream_values S ls)"
proof -
  have "snd (codex_parse_line S l p) = (case sj_from_str S l of None \<Rightarrow> p | Some v \<Rightarrow> codex_feed S v p)" for l p
    by (simp add: codex_parse_line_def split: option.split)
  then show ?thesis unfolding codex_lines_def codex.run_def fold_stream_values by simp
qed

text \<open>The stream has a started command that reads files, which is the recorded call, and after it the completion of this
  command with exit code zero and the given output.\<close>

definition codex_answered :: "serde \<Rightarrow> json list \<Rightarrow> ToolCallRecord \<Rightarrow> string \<Rightarrow> bool" where
  "codex_answered S vs r out \<longleftrightarrow>
     (\<exists>vs1 u vs2 v vs3 begun ended i. vs = vs1 @ u # vs2 @ v # vs3
        \<and> get_str u ''type'' = Some ''item.started'' \<and> json_get u ''item'' = Some begun
        \<and> get_str begun ''type'' = Some ''command_execution'' \<and> call_identity r = call_identity (codex_started S begun)
        \<and> get_str begun ''id'' = Some i \<and> command_reads_file_contents (normalize_wrapped_script (item_command begun))
        \<and> get_str v ''type'' = Some ''item.completed'' \<and> json_get v ''item'' = Some ended
        \<and> get_str ended ''id'' = Some i \<and> codex_exit_code ended = 0
        \<and> out = str_or [] (get_str ended ''aggregated_output''))"

definition codex_read_evidence :: "serde \<Rightarrow> json list \<Rightarrow> sight_env \<Rightarrow> string \<Rightarrow> string \<Rightarrow> bool" where
  "codex_read_evidence S vs E src cwd \<longleftrightarrow> (\<exists>r out. codex_answered S vs r out \<and> opened_source E src cwd r)"

definition codex_evidence :: "serde \<Rightarrow> json list \<Rightarrow> sight_env \<Rightarrow> string \<Rightarrow> string \<Rightarrow> string \<Rightarrow> bool" where
  "codex_evidence S vs E src cwd line \<longleftrightarrow>
     (\<exists>r out. codex_answered S vs r out \<and> list_ex (reads_operand E r) (source_path_candidates src cwd) \<and> contains_sub out line)"

lemma codex_answeredI:
  assumes vs: "vs = vs1 @ v # vs2" and pr: "codex_proves v r" and um: "u \<in> set (vs1 @ [v])"
    and u: "codex_opens S u (call_identity r)" and k: "kind r = ReadFile"
  obtains out where "codex_answered S vs r out" "shown_output r = Some (capped_shown_output out)" "tool r = ''command_execution''"
proof -
  have ck: "call_identity r \<noteq> call_identity (codex_delegated S item)" for item
    using k by (simp add: call_identity_def codex_delegated_def opened_call_def)
  with u obtain begun where b: "get_str u ''type'' = Some ''item.started''" "json_get u ''item'' = Some begun"
      "get_str begun ''type'' = Some ''command_execution''" "call_identity r = call_identity (codex_started S begun)"
    unfolding codex_opens_def by blast
  from b(4) have s: "tc_id r = tc_id (codex_started S begun)" "tool r = tool (codex_started S begun)" "kind (codex_started S begun) = ReadFile"
    using k by (simp_all only: call_identity_def prod.inject)
  have b': "get_str begun ''id'' = tc_id r" and t: "tool r = ''command_execution''"
    unfolding s(1,2) by (simp_all add: codex_started_def opened_call_def Let_def)
  have rd: "command_reads_file_contents (normalize_wrapped_script (item_command begun))"
  proof (rule ccontr)
    assume "\<not> ?thesis"
    with s(3) show False by (simp add: codex_started_def opened_call_def Let_def)
  qed
  from pr obtain ended i where e: "get_str v ''type'' = Some ''item.completed''" "json_get v ''item'' = Some ended"
      "tc_id r = Some i" "get_str ended ''id'' = Some i" "codex_exit_code ended = 0"
      and o: "shown_output r = Some (capped_shown_output (str_or [] (get_str ended ''aggregated_output'')))"
    by (auto simp: codex_proves_def)
  from b(1) e(1) have "u \<noteq> v" by auto
  with um obtain ws xs where "vs1 = ws @ u # xs" by (auto dest: split_list)
  with vs have "vs = ws @ u # xs @ v # vs2" by simp
  note b'[unfolded e(3)]
  with \<open>vs = ws @ u # xs @ v # vs2\<close> b rd e(1,2,4,5) have "codex_answered S vs r (str_or [] (get_str ended ''aggregated_output''))"
    unfolding codex_answered_def by (intro exI conjI) (assumption | rule refl)+
  with that o t show thesis by blast
qed

lemma codex_evidenceI:
  assumes seen: "seen_by E src cwd n line r" and vs: "vs = vs1 @ v # vs2" and pr: "codex_proves v r"
    and um: "u \<in> set (vs1 @ [v])" and u: "codex_opens S u (call_identity r)"
  shows "codex_evidence S vs E src cwd line"
proof -
  have "kind r = ReadFile" using seen by (simp add: seen_by_def successful_read_def)
  from codex_answeredI[OF vs pr um u this] obtain out where o: "codex_answered S vs r out"
      "shown_output r = Some (capped_shown_output out)" "tool r = ''command_execution''" by blast
  with seen have "list_ex (reads_operand E r) (source_path_candidates src cwd)" "contains_sub out line"
    by (auto simp: seen_by_def is_shell_read_tool_def dest: contains_sub_capped)
  with o(1) show ?thesis unfolding codex_evidence_def by blast
qed

text \<open>C4: Codex's stream and the gate together. When the gate accepts what the parser made of the printed lines, then for
  every required source the stream has a started command that reads file contents and names the source, and after it
  the completion of this very command with exit code zero. When all spellings of the source are one file (the source or
  the working directory is absolute, and no doubled slash follows the working directory in it), the same holds for every
  line of the file, as it is on disk when the decision is made, with a command that opens the source and an output that
  contains the line. A blank line is in every output.\<close>

theorem accepted_codex_review_was_shown:
  assumes "enforce_reviewer_sight E a (tool_calls (codex_finish (codex_lines S ls)))
             (parser_mode (codex_finish (codex_lines S ls))) srcs cwd lc = Some (Inr (), lc')"
    and "src \<in> set srcs"
  shows "codex_read_evidence S (stream_values S ls) E src cwd
    \<and> (names_one_file src cwd \<longrightarrow>
        (\<exists>bytes. source_bytes E src cwd = Some bytes
          \<and> list_all (\<lambda>(n, raw). codex_evidence S (stream_values S ls) E src cwd (strip_cr raw)) (numbered_lines bytes)))"
proof (intro conjI impI)
  have calls: "tool_calls (codex_finish (codex_lines S ls)) = cx_tool_calls (codex.run S (stream_values S ls))"
    by (simp add: codex_finish_def codex_lines_run)
  obtain r vs1 v vs2 u where r: "opened_source E src cwd r" "stream_values S ls = vs1 @ v # vs2" "codex_proves v r"
      "u \<in> set (vs1 @ [v])" "codex_opens S u (call_identity r)"
    by (rule codex.accepted_opened[OF assms(1)[unfolded calls] assms(2)])
  have "kind r = ReadFile" using r(1) by (simp add: opened_source_def successful_read_def)
  from codex_answeredI[OF r(2-5) this] r(1) show "codex_read_evidence S (stream_values S ls) E src cwd"
    unfolding codex_read_evidence_def by metis
  show "\<exists>bytes. source_bytes E src cwd = Some bytes
      \<and> list_all (\<lambda>(n, raw). codex_evidence S (stream_values S ls) E src cwd (strip_cr raw)) (numbered_lines bytes)"
    if "names_one_file src cwd"
    by (rule codex.accepted_evidence[OF assms(1)[unfolded calls] assms(2) that]) (rule codex_evidenceI)
qed

text \<open>The app server parser never records a call.\<close>

lemma app_server_records_no_call: "as_tool_calls (snd (parse_event_line S l p)) = as_tool_calls p"
proof -
  have "as_tool_calls (snd (parse_notification m q p)) = as_tool_calls p" for m q
    by (simp add: parse_notification_def app_server_record_def Let_def split: option.split)
  then show ?thesis
    by (auto simp: parse_event_line_def split: option.split prod.split) (metis snd_conv)+
qed

lemma app_server_review_is_refused:
  "enforce_reviewer_sight E a (tool_calls (app_server_finish p)) (parser_mode (app_server_finish p)) srcs cwd lc
     \<noteq> Some (Inr (), lc')"
proof -
  have "''codex-app-server-jsonrpc'' \<notin> set parser_modes_with_tool_records" by code_simp
  then show ?thesis by (auto simp: enforce_reviewer_sight_def reject_def app_server_finish_def Let_def)
qed

subsection \<open>A review by one command\<close>

text \<open>No check of the gate looks at the identifier of a call.\<close>

lemma tc_id_irrelevant:
  "successful_read (c\<lparr>tc_id := i\<rparr>) = successful_read c" "record_names_source E (c\<lparr>tc_id := i\<rparr>) src = record_names_source E c src"
  "record_read_source_whole E (c\<lparr>tc_id := i\<rparr>) src = record_read_source_whole E c src"
  "call_showed_lines E (c\<lparr>tc_id := i\<rparr>) src r cwd = call_showed_lines E c src r cwd"
  "shell_call_fits_budget E (c\<lparr>tc_id := i\<rparr>) cwd = shell_call_fits_budget E c cwd"
  by (simp_all add: successful_read_def record_names_source_def record_read_source_whole_def call_showed_lines_def
      first_line_not_shown_def shell_call_fits_budget_def shell_call_printed_bytes_def call_command_def cong: option.case_cong)

definition codex_item :: "string \<Rightarrow> (string \<times> json) list \<Rightarrow> json" where
  "codex_item t kvs = JObject [(''type'', JString t), (''item'', JObject ((''type'', JString ''command_execution'') # (''id'', JString ''c1'') # kvs))]"

definition codex_serde :: serde where
  "codex_serde = \<lparr>sj_from_str = (\<lambda>l.
       if l = ''begin'' then Some (codex_item ''item.started'' [(''command'', JString ''cat a'')])
       else if l = ''finish'' then Some (codex_item ''item.completed'' [(''exit_code'', JNumber ''0''), (''aggregated_output'', JString example_text)])
       else None),
     sj_to_string = (\<lambda>v. str_or [] (get_str v ''command'')), sj_f64 = (\<lambda>_. None)\<rparr>"

lemma codex_example_calls:
  "tool_calls (codex_finish (codex_lines codex_serde [''begin'', ''finish''])) = [(shell_call ''cat a'' example_text)\<lparr>tc_id := Some ''c1''\<rparr>]"
proof -
  have "command_reads_file_contents (normalize_wrapped_script ''cat a'')" by code_simp
  moreover have "codex_exit_code (JObject [(''type'', JString ''command_execution''), (''id'', JString ''c1''), (''exit_code'', JNumber ''0''),
      (''aggregated_output'', JString example_text)]) = 0" by code_simp
  moreover have "capped_shown_output example_text = example_text"
    by (rule capped_short) (simp add: SHOWN_OUTPUT_CAP_def example_text_def)
  ultimately show ?thesis
    by (simp add: codex_lines_def codex_parse_line_def codex_serde_def codex_parse_value_def codex_item_def get_str_def json_get_def
        as_str_def codex_parse_item_event_def codex_command_item_def codex_started_def item_command_def command_args_def
        codex_completed_def codex_finish_def codex_push_def codex_emit_def codex_new_def opened_call_def shell_call_def Let_def)
qed

lemma codex_example_accepted:
  "enforce_reviewer_sight example_env ''Codex'' (tool_calls (codex_finish (codex_lines codex_serde [''begin'', ''finish''])))
     (parser_mode (codex_finish (codex_lines codex_serde [''begin'', ''finish'']))) [''/r/a''] ''/r'' [] = Some (Inr (), [])"
proof -
  let ?c = "(shell_call ''cat a'' example_text)\<lparr>tc_id := Some ''c1''\<rparr>"
  have ok: "successful_read (shell_call ''cat a'' example_text)" "kind (shell_call ''cat a'' example_text) = ReadFile"
    "tool (shell_call ''cat a'' example_text) = ''command_execution''"
    by (simp_all add: successful_read_def shell_call_def)
  have "tool_call_touched_source example_env [?c] ''/r/a'' ''/r'' = Some True"
    by (simp add: tool_call_touched_source_def example_candidates example_shown ok tc_id_irrelevant)
  moreover have "whole_read_of example_env [''/r/a'', ''a'', ''./a''] ''/r'' ?c"
    by (simp add: whole_read_of_def ok example_fits example_shown tc_id_irrelevant del: One_nat_def)
  then have "tool_call_read_source_in_full example_env [?c] ''/r/a'' ''/r''"
    by (simp add: tool_call_read_source_in_full_def example_candidates)
  moreover have "parser_mode (codex_finish p) = ''codex-exec-json''" for p by (simp add: codex_finish_def)
  ultimately show ?thesis
    unfolding codex_example_calls using example_modes by (simp add: enforce_reviewer_sight_def check_sources_Ok ok COLLAB_TOOL_def)
qed

theorem accepted_codex_review_was_shown_witness:
  "codex_read_evidence codex_serde (stream_values codex_serde [''begin'', ''finish'']) example_env ''/r/a'' ''/r''
   \<and> (\<exists>bytes. source_bytes example_env ''/r/a'' ''/r'' = Some bytes
     \<and> list_all (\<lambda>(n, raw). codex_evidence codex_serde (stream_values codex_serde [''begin'', ''finish''])
          example_env ''/r/a'' ''/r'' (strip_cr raw)) (numbered_lines bytes))"
proof -
  have "names_one_file ''/r/a'' ''/r''" by code_simp
  with accepted_codex_review_was_shown[OF codex_example_accepted, of "''/r/a''"] show ?thesis by simp
qed

end
