(* ===== verification/Gemini_Stream.thy ===== *)
theory Gemini_Stream
  imports Stream_Types
begin

text \<open>
  The parser of the gemini CLI's stream (\<open>agent-adapter/src/gemini.rs\<close>).

  Shown here: a successful call has in the stream the event that opened it and a later result of the same identifier
  that reports success; the parser takes no line numbers from a result, so that a review is accepted through shell
  commands only, whatever was read with \<open>read_file\<close>.
\<close>

record gemini_parser =
  gm_session_id :: "string option"
  gm_response_chunks :: "string list"
  gm_events :: "WorkingStateEvent list"
  gm_tool_calls :: "ToolCallRecord list"
  gm_token_usage :: "TokenUsage option"
  gm_cli_version :: "string option"
  gm_stream_tx :: "AgentStreamEvent list option"
  gm_stream_seq :: u64

definition gemini_new :: gemini_parser where
  "gemini_new = \<lparr>gm_session_id = None, gm_response_chunks = [], gm_events = [], gm_tool_calls = [],
     gm_token_usage = None, gm_cli_version = None, gm_stream_tx = None, gm_stream_seq = 0\<rparr>"

definition gemini_with_stream_channel :: gemini_parser where
  "gemini_with_stream_channel = gemini_new\<lparr>gm_stream_tx := Some []\<rparr>"

definition gemini_emit :: "(u64 \<Rightarrow> AgentStreamEvent) \<Rightarrow> gemini_parser \<Rightarrow> gemini_parser" where
  "gemini_emit f p =
     (let q = gm_stream_seq p + 1
      in p\<lparr>gm_stream_seq := q, gm_stream_tx := map_option (\<lambda>es. es @ [f q]) (gm_stream_tx p)\<rparr>)"

definition gemini_event ::
  "WorkingState \<Rightarrow> string \<Rightarrow> string option \<Rightarrow> string option \<Rightarrow> TokenUsage option \<Rightarrow> WorkingStateEvent"
where
  "gemini_event = working ''gemini''"

definition gemini_push :: "WorkingStateEvent \<Rightarrow> gemini_parser \<Rightarrow> gemini_parser" where
  "gemini_push e p = p\<lparr>gm_events := gm_events p @ [e]\<rparr>"

definition gemini_map_tool_kind :: "string \<Rightarrow> ToolKind" where
  "gemini_map_tool_kind name =
     (let n = to_lowercase name
      in if n = ''read_file'' then ReadFile
         else if n = ''write_file'' then WriteFile
         else if n = ''edit_file'' then EditFile
         else if n = ''bash'' then Bash
         else if n = ''grep'' then Grep
         else if n = ''glob'' then Glob
         else if n = ''request_user_input'' then RequestUserInput
         else UnknownTool)"

definition gemini_on_init :: "json \<Rightarrow> gemini_parser \<Rightarrow> WorkingStateEvent option \<times> gemini_parser" where
  "gemini_on_init v p =
     (let p1 = p\<lparr>gm_session_id := get_str v ''session_id'', gm_cli_version := get_str v ''model''\<rparr>;
          e = gemini_event TurnStarted ''turn started'' None None None
      in (Some e, gemini_emit (SeTurnStarted ''gemini'' (str_or [] (gm_session_id p1))) (gemini_push e p1)))"

definition gemini_on_message :: "json \<Rightarrow> gemini_parser \<Rightarrow> WorkingStateEvent option \<times> gemini_parser" where
  "gemini_on_message v p =
     (if get_str v ''role'' = Some ''assistant'' then
        (let content = str_or [] (get_str v ''content'');
             p1 = (if content = [] then p else p\<lparr>gm_response_chunks := gm_response_chunks p @ [content]\<rparr>);
             e = gemini_event MessageDelta ''assistant response chunk'' None None None
         in (Some e, gemini_push e p1))
      else (None, p))"

definition gemini_called :: "serde \<Rightarrow> json \<Rightarrow> ToolCallRecord" where
  "gemini_called S v =
     (let name = str_or ''unknown'' (get_str v ''tool_name'')
      in opened_call (get_str v ''tool_id'') name (shell_read_kind (gemini_map_tool_kind name) (json_get v ''parameters''))
           (map_option (sj_to_string S) (json_get v ''parameters'')))"

definition gemini_on_tool_use :: "serde \<Rightarrow> json \<Rightarrow> gemini_parser \<Rightarrow> WorkingStateEvent option \<times> gemini_parser" where
  "gemini_on_tool_use S v p =
     (let r = gemini_called S v;
          e = gemini_event ToolCallStarted (''calling '' @ tool r) (Some (tool r)) (args_json r) None;
          p1 = gemini_push e (p\<lparr>gm_tool_calls := gm_tool_calls p @ [r]\<rparr>);
          path = str_or [] (Option.bind (args_json r) (\<lambda>j. Option.bind (sj_from_str S j) (\<lambda>a. get_str a ''path'')))
      in (Some e,
          gemini_emit (if tool r = ''read_file'' then SeFileRead ''gemini'' path
                       else SeToolCall ''gemini'' (tool r) (str_or [] (args_json r))) p1))"

definition gemini_result :: "json \<Rightarrow> ToolCallRecord \<Rightarrow> ToolCallRecord" where
  "gemini_result v r =
     (let r1 = r\<lparr>success := Some (eq_ignore_ascii_case (str_or ''unknown'' (get_str v ''status'')) ''success'')\<rparr>
      in if is_shell_tool (tool r)
         then r1\<lparr>shown_output := Some (capped_shown_output (str_or [] (get_str v ''output'')))\<rparr> else r1)"

definition gemini_on_tool_result :: "json \<Rightarrow> gemini_parser \<Rightarrow> WorkingStateEvent option \<times> gemini_parser" where
  "gemini_on_tool_result v p =
     (let p1 = (case get_str v ''tool_id'' of
                  None \<Rightarrow> p
                | Some i \<Rightarrow> p\<lparr>gm_tool_calls := update_first (\<lambda>r. tc_id r = Some i) (gemini_result v) (gm_tool_calls p)\<rparr>);
          e = gemini_event ToolCallCompleted (''tool result: '' @ str_or ''unknown'' (get_str v ''status'')) None None None
      in (Some e, gemini_push e p1))"

definition gemini_on_error :: "json \<Rightarrow> gemini_parser \<Rightarrow> WorkingStateEvent option \<times> gemini_parser" where
  "gemini_on_error v p =
     (let msg = str_or ''gemini error'' (Option.bind (or_else (json_get v ''message'') (json_get v ''error'')) as_str);
          e = gemini_event (if contains_sub (to_lowercase msg) ''loopdetected'' then Stuck else WorkingError) msg None None None
      in (Some e, gemini_emit (SeError ''gemini'' msg) (gemini_push e p)))"

definition gemini_usage :: "json \<Rightarrow> TokenUsage" where
  "gemini_usage v =
     (let st = (case json_get v ''stats'' of Some s \<Rightarrow> s | None \<Rightarrow> JNull);
          num = (\<lambda>x. map_option of_nat (Option.bind x as_u64))
      in \<lparr>input_tokens = num (or_else (json_get st ''input_tokens'') (json_get st ''input'')),
          output_tokens = num (json_get st ''output_tokens''), cached_tokens = num (json_get st ''cached''),
          thinking_tokens = num (json_get st ''thoughtsTokenCount''),
          latency_ms = num (or_else (json_get st ''totalLatencyMs'') (json_get st ''duration_ms'')),
          usage_tool_calls = num (or_else (Option.bind (json_get st ''tools'') (\<lambda>t. json_get t ''totalCalls'')) (json_get st ''tool_calls'')),
          total_tokens = num (json_get st ''total_tokens'')\<rparr>)"

definition gemini_on_result :: "json \<Rightarrow> gemini_parser \<Rightarrow> WorkingStateEvent option \<times> gemini_parser" where
  "gemini_on_result v p =
     (let u = gemini_usage v;
          e = gemini_event TurnCompleted ''turn completed'' None None (Some u);
          count = (\<lambda>x. case x of Some n \<Rightarrow> sint n | None \<Rightarrow> 0)
      in (Some e,
          gemini_emit (SeTurnCompleted ''gemini'' (count (input_tokens u)) (count (output_tokens u))
                         (map_option sint (cached_tokens u)) (count (usage_tool_calls u))
                         (case latency_ms u of Some n \<Rightarrow> n | None \<Rightarrow> 0))
            (gemini_push e (p\<lparr>gm_token_usage := Some u\<rparr>))))"

definition gemini_parse_value :: "serde \<Rightarrow> json \<Rightarrow> gemini_parser \<Rightarrow> WorkingStateEvent option \<times> gemini_parser" where
  "gemini_parse_value S v p =
     (let t = str_or [] (get_str v ''type'')
      in if t = ''init'' then gemini_on_init v p
         else if t = ''message'' then gemini_on_message v p
         else if t = ''tool_use'' then gemini_on_tool_use S v p
         else if t = ''tool_result'' then gemini_on_tool_result v p
         else if t = ''error'' then gemini_on_error v p
         else if t = ''result'' then gemini_on_result v p
         else (None, p))"

definition gemini_parse_line :: "serde \<Rightarrow> string \<Rightarrow> gemini_parser \<Rightarrow> WorkingStateEvent option \<times> gemini_parser" where
  "gemini_parse_line S l p = (case sj_from_str S l of None \<Rightarrow> (None, p) | Some v \<Rightarrow> gemini_parse_value S v p)"

definition gemini_finish :: "gemini_parser \<Rightarrow> ParsedAgentResult" where
  "gemini_finish p =
     \<lparr>response_text = concat (gm_response_chunks p), session_id = gm_session_id p, events = gm_events p,
      tool_calls = gm_tool_calls p, token_usage = gm_token_usage p, self_reported_cost_usd = None,
      cli_version = gm_cli_version p, parser_mode = ''gemini-stream-json''\<rparr>"

subsection \<open>Evidence of a call\<close>

definition gemini_identity :: "ToolCallRecord \<Rightarrow> string option \<times> string \<times> ToolKind \<times> string option \<times> (nat \<times> nat) list" where
  "gemini_identity r = (tc_id r, tool r, kind r, args_json r, returned_lines r)"

definition gemini_opens :: "serde \<Rightarrow> json \<Rightarrow> string option \<times> string \<times> ToolKind \<times> string option \<times> (nat \<times> nat) list \<Rightarrow> bool" where
  "gemini_opens S v i \<longleftrightarrow> get_str v ''type'' = Some ''tool_use'' \<and> i = gemini_identity (gemini_called S v)"

definition gemini_proves :: "json \<Rightarrow> ToolCallRecord \<Rightarrow> bool" where
  "gemini_proves v r \<longleftrightarrow>
     get_str v ''type'' = Some ''tool_result'' \<and> tc_id r \<noteq> None \<and> get_str v ''tool_id'' = tc_id r
     \<and> eq_ignore_ascii_case (str_or ''unknown'' (get_str v ''status'')) ''success''
     \<and> (is_shell_tool (tool r) \<longrightarrow> shown_output r = Some (capped_shown_output (str_or [] (get_str v ''output''))))"

abbreviation gemini_feed :: "serde \<Rightarrow> json \<Rightarrow> gemini_parser \<Rightarrow> gemini_parser" where
  "gemini_feed S v p \<equiv> snd (gemini_parse_value S v p)"

lemma gemini_frame [simp]:
  "gm_tool_calls (gemini_push e p) = gm_tool_calls p" "gm_tool_calls (gemini_emit f p) = gm_tool_calls p"
  by (simp_all add: gemini_push_def gemini_emit_def Let_def)

lemma gemini_result_identity [simp]: "gemini_identity (gemini_result v r) = gemini_identity r"
  by (simp add: gemini_identity_def gemini_result_def Let_def)

lemma gemini_result_simps [simp]:
  "success (gemini_result v r) = Some (eq_ignore_ascii_case (str_or ''unknown'' (get_str v ''status'')) ''success'')"
  "is_shell_tool (tool r) \<Longrightarrow> shown_output (gemini_result v r) = Some (capped_shown_output (str_or [] (get_str v ''output'')))"
  "tc_id (gemini_result v r) = tc_id r" "tool (gemini_result v r) = tool r"
  by (simp_all add: gemini_result_def Let_def)

lemma gemini_feed_cases:
  obtains "gm_tool_calls (gemini_feed S v p) = gm_tool_calls p"
  | "get_str v ''type'' = Some ''tool_use''" "gm_tool_calls (gemini_feed S v p) = gm_tool_calls p @ [gemini_called S v]"
  | i where "get_str v ''type'' = Some ''tool_result''" "get_str v ''tool_id'' = Some i"
      "gm_tool_calls (gemini_feed S v p) = update_first (\<lambda>r. tc_id r = Some i) (gemini_result v) (gm_tool_calls p)"
proof -
  have no: "gm_tool_calls (snd (gemini_on_init v p)) = gm_tool_calls p" "gm_tool_calls (snd (gemini_on_message v p)) = gm_tool_calls p"
    "gm_tool_calls (snd (gemini_on_error v p)) = gm_tool_calls p" "gm_tool_calls (snd (gemini_on_result v p)) = gm_tool_calls p"
    by (simp_all add: gemini_on_init_def gemini_on_message_def gemini_on_error_def gemini_on_result_def Let_def)
  consider (use) "get_str v ''type'' = Some ''tool_use''" | (res) "get_str v ''type'' = Some ''tool_result''"
    | (rest) "get_str v ''type'' \<notin> {Some ''tool_use'', Some ''tool_result''}" by blast
  then show thesis
  proof cases
    case use
    then show thesis by (intro that(2)) (simp_all add: gemini_parse_value_def gemini_on_tool_use_def Let_def)
  next
    case res
    show thesis
    proof (cases "get_str v ''tool_id''")
      case None
      with res show thesis by (intro that(1)) (simp add: gemini_parse_value_def gemini_on_tool_result_def Let_def)
    next
      case (Some i)
      with res show thesis by (intro that(3)[of i]) (simp_all add: gemini_parse_value_def gemini_on_tool_result_def Let_def)
    qed
  next
    case rest
    then show thesis by (intro that(1)) (cases "get_str v ''type''"; simp add: gemini_parse_value_def no Let_def)
  qed
qed

interpretation gemini: tool_stream "gemini_feed S" gm_tool_calls "\<lambda>_. True" gemini_new gemini_identity "gemini_opens S" gemini_proves
  for S
proof
  fix v p r
  assume r: "r \<in> set (gm_tool_calls (gemini_feed S v p))"
  show "gemini_opens S v (gemini_identity r) \<or> gemini_identity r \<in> gemini_identity ` set (gm_tool_calls p)"
  proof (cases rule: gemini_feed_cases[of S v p])
    case 2
    with r show ?thesis by (auto simp: gemini_opens_def)
  next
    case (3 i)
    have "map gemini_identity (gm_tool_calls (gemini_feed S v p)) = map gemini_identity (gm_tool_calls p)"
      unfolding 3(3) by (rule map_update_first) simp
    with r show ?thesis by (metis image_eqI list.set_map)
  qed (use r in simp)
  show "gemini_proves v r \<or> r \<in> set (gm_tool_calls p)" if s: "success r = Some True"
  proof (cases rule: gemini_feed_cases[of S v p])
    case 2
    have "success (gemini_called S v) = None" by (simp add: gemini_called_def opened_call_def Let_def)
    with r s 2(2) show ?thesis by auto
  next
    case (3 i)
    from in_update_firstD[OF r[unfolded 3(3)]] show ?thesis
    proof
      assume "\<exists>x \<in> set (gm_tool_calls p). tc_id x = Some i \<and> r = gemini_result v x"
      with s 3(1,2) show ?thesis by (auto simp: gemini_proves_def)
    qed simp
  qed (use r in simp)
qed (simp_all add: gemini_new_def)

definition gemini_lines :: "serde \<Rightarrow> string list \<Rightarrow> gemini_parser" where
  "gemini_lines S ls = fold (\<lambda>l p. snd (gemini_parse_line S l p)) ls gemini_new"

lemma gemini_lines_run: "gemini_lines S ls = gemini.run S (stream_values S ls)"
proof -
  have "snd (gemini_parse_line S l p) = (case sj_from_str S l of None \<Rightarrow> p | Some v \<Rightarrow> gemini_feed S v p)" for l p
    by (simp add: gemini_parse_line_def split: option.split)
  then show ?thesis unfolding gemini_lines_def gemini.run_def fold_stream_values by simp
qed

text \<open>Nothing but the output of a successful shell command counts. A review that opened its sources with \<open>read_file\<close>
  alone is refused, although the mode is listed among those that tell reads apart.\<close>

lemma gemini_credit_is_shell_output:
  assumes "seen_by E src cwd n line r" "gemini_opens S u (gemini_identity r)"
  shows "is_shell_tool (tool r)"
proof -
  have lines: "returned_lines r = []" and k: "kind r = ReadFile"
    using assms by (auto simp: gemini_opens_def gemini_identity_def gemini_called_def opened_call_def Let_def seen_by_def successful_read_def)
  from assms(2) k have names: "gemini_map_tool_kind (tool r) \<in> {ReadFile, Bash}"
    by (auto simp: gemini_opens_def gemini_identity_def gemini_called_def opened_call_def Let_def shell_read_kind_def
        split: if_split_asm option.split_asm)
  have "gemini_map_tool_kind ''view_file'' = UnknownTool" "gemini_map_tool_kind ''command_execution'' = UnknownTool"
    "gemini_map_tool_kind ''run_command'' = UnknownTool" by code_simp+
  with names have t: "tool r \<noteq> ''view_file''" "tool r \<noteq> ''command_execution''" "tool r \<noteq> ''run_command''" by auto
  have "is_shell_read_tool (tool r)"
  proof (rule ccontr)
    assume "\<not> is_shell_read_tool (tool r)"
    with assms(1) obtain rs x where "structured_ranges_of_call E (source_path_candidates src cwd) r = Some rs" "x \<in> set rs"
      "in_window x n" by (auto simp: seen_by_def)
    moreover have "map_of UNNUMBERED_READ_CAPS (tool r) = None" using t by (simp add: UNNUMBERED_READ_CAPS_def)
    ultimately obtain a b where "(a, b) \<in> set (returned_lines r)" by (rule structured_rangeE)
    with lines show False by simp
  qed
  with t show ?thesis by (simp add: is_shell_read_tool_def)
qed

lemma gemini_mode_is_listed: "''gemini-stream-json'' \<in> set parser_modes_that_classify_reads"
  by code_simp

text \<open>The output of a failed shell command is kept all the same.\<close>

lemma gemini_keeps_failed_output:
  "is_shell_tool (tool r) \<Longrightarrow> get_str v ''status'' = Some ''error'' \<Longrightarrow> get_str v ''output'' = Some t \<Longrightarrow>
     success (gemini_result v r) = Some False \<and> shown_output (gemini_result v r) = Some (capped_shown_output t)"
proof -
  assume a: "is_shell_tool (tool r)" "get_str v ''status'' = Some ''error''" "get_str v ''output'' = Some t"
  have "\<not> eq_ignore_ascii_case ''error'' ''success''" by code_simp
  with a show ?thesis by simp
qed

end
