(* ===== verification/Grok_Stream.thy ===== *)
theory Grok_Stream
  imports Stream_Types
begin

text \<open>
  The parser of grok's \<open>streaming-json\<close> output (\<open>agent-adapter/src/grok.rs\<close>).

  Shown here: the answer is the text printed before the end of the turn and nothing else; a turn is completed once; a
  successful call has in the stream the event that opened it and an update that reports its completion; and every line
  that a read is credited with was in front of the model, numbered, or equal to the line of the file at that place.
\<close>

subsection \<open>Tools and results\<close>

datatype Termination = Incomplete | EndTurn | Errored | MaxTurnsReached | Stopped

definition grok_map_tool_kind :: "string option \<Rightarrow> string \<Rightarrow> ToolKind" where
  "grok_map_tool_kind k name =
     (let by_kind = (case k of
            None \<Rightarrow> None
          | Some x \<Rightarrow>
              (let l = to_lowercase x
               in if l = ''read'' then Some ReadFile
                  else if l = ''write'' then Some WriteFile
                  else if l = ''edit'' then Some EditFile
                  else if l = ''execute'' then Some Bash
                  else if l = ''search'' then Some Grep
                  else None));
          n = to_lowercase name
      in case by_kind of
           Some r \<Rightarrow> r
         | None \<Rightarrow>
             if n \<in> {''read_file'', ''read''} then ReadFile
             else if n \<in> {''write'', ''write_file''} then WriteFile
             else if n \<in> {''search_replace'', ''edit'', ''edit_file'', ''apply_patch'', ''str_replace''} then EditFile
             else if n \<in> {''run_terminal_command'', ''bash'', ''shell'', ''terminal''} then Bash
             else if n = ''grep'' then Grep
             else if n \<in> {''glob'', ''glob_file_search'', ''list_dir''} then Glob
             else if n \<in> {''ask_user_question'', ''request_user_input'', ''ask''} then RequestUserInput
             else UnknownTool)"

definition strip_line_number :: "string \<Rightarrow> string" where
  "strip_line_number line =
     (let t = trim_start_matches is_ascii_digit (trim_start_matches (\<lambda>c. c = CHR '' '') line)
      in str_or t (or_else (strip_prefix t arrow) (strip_prefix t [CHR 0x09])))"

text \<open>\<open>str::rfind\<close>: the last occurrence.\<close>

definition rfind_sub :: "string \<Rightarrow> string \<Rightarrow> nat option" where
  "rfind_sub s w = map_option (\<lambda>j. length s - (j + length w)) (find_sub (rev s) (rev w))"

definition is_grok_truncation_of :: "string \<Rightarrow> string \<Rightarrow> bool" where
  "is_grok_truncation_of shown raw =
     (let mark = ''... (line truncated to ''
      in case rfind_sub shown mark of
           None \<Rightarrow> False
         | Some pos \<Rightarrow>
             (case strip_suffix (drop (pos + length mark) shown) '' chars)'' of
                Some d \<Rightarrow> d \<noteq> [] \<and> list_all is_ascii_digit d
              | None \<Rightarrow> False)
             \<and> length raw > pos \<and> starts_with raw (take pos shown))"

definition grok_offset :: "json \<Rightarrow> nat option" where
  "grok_offset fc =
     (case json_get fc ''offset'' of
        None \<Rightarrow> Some 1
      | Some JNull \<Rightarrow> Some 1
      | Some v \<Rightarrow> (case as_u64 v of Some n \<Rightarrow> if n \<ge> 1 then Some n else None | None \<Rightarrow> None))"

text \<open>A line as the model saw it, with its number removed, is the line of the file or grok's cut of it.\<close>

definition shown_as :: "nat \<Rightarrow> string \<Rightarrow> string \<Rightarrow> bool" where
  "shown_as k shown_line raw_line =
     (case line_number_marker shown_line of
        Some m \<Rightarrow> m = k \<and> (let body = strip_line_number shown_line in body = raw_line \<or> is_grok_truncation_of body raw_line)
      | None \<Rightarrow> shown_line = raw_line \<or> is_grok_truncation_of shown_line raw_line)"

definition grok_returned_lines :: "json \<Rightarrow> string \<Rightarrow> (nat \<times> nat) list" where
  "grok_returned_lines update shown =
     (let numbered = numbered_line_runs shown
      in case Option.bind (json_get update ''rawOutput'') (\<lambda>r. json_get r ''FileContent'') of
           None \<Rightarrow> numbered
         | Some fc \<Rightarrow>
             (case get_str fc ''raw_output'' of
                None \<Rightarrow> numbered
              | Some raw \<Rightarrow>
                  (case grok_offset fc of
                     None \<Rightarrow> numbered
                   | Some start \<Rightarrow>
                       (let n = length (lines raw); shown_lines = lines shown
                        in if n = 0 \<or> length shown_lines < n then numbered
                           else if line_number_marker (shown_lines ! 0) \<noteq> Some start then numbered
                           else if \<not> list_all (\<lambda>(i, s, r). shown_as (wrap64 (start + i)) s r)
                                        (enumerate 0 (zip shown_lines (lines raw))) then numbered
                           else [(start, wrap64 (start + n - 1))]))))"

definition grok_parse_usage :: "json \<Rightarrow> nat \<Rightarrow> TokenUsage" where
  "grok_parse_usage u n =
     \<lparr>input_tokens = get_u64 u ''input_tokens'', output_tokens = get_u64 u ''output_tokens'',
      cached_tokens = get_u64 u ''cache_read_input_tokens'', thinking_tokens = get_u64 u ''reasoning_tokens'',
      latency_ms = None, usage_tool_calls = Some (of_nat n), total_tokens = get_u64 u ''total_tokens''\<rparr>"

subsection \<open>The parser\<close>

record grok_parser =
  gk_session_id :: "string option"
  gk_response_chunks :: "string list"
  gk_events :: "WorkingStateEvent list"
  gk_tool_calls :: "ToolCallRecord list"
  gk_token_usage :: "TokenUsage option"
  gk_total_cost_usd :: "rat option"
  gk_termination :: Termination
  gk_stop_reason :: "string option"
  gk_tool_surface :: "(nat \<times> nat) option"
  gk_context_rewrite_failed :: "string option"
  gk_error_detail :: "string option"
  gk_stream_tx :: "AgentStreamEvent list option"
  gk_stream_seq :: u64
  gk_ended :: bool

definition grok_new :: grok_parser where
  "grok_new = \<lparr>gk_session_id = None, gk_response_chunks = [], gk_events = [], gk_tool_calls = [],
     gk_token_usage = None, gk_total_cost_usd = None, gk_termination = Incomplete, gk_stop_reason = None,
     gk_tool_surface = None, gk_context_rewrite_failed = None, gk_error_detail = None, gk_stream_tx = None,
     gk_stream_seq = 0, gk_ended = False\<rparr>"

definition grok_with_stream_channel :: grok_parser where
  "grok_with_stream_channel = grok_new\<lparr>gk_stream_tx := Some []\<rparr>"

definition grok_emit :: "(u64 \<Rightarrow> AgentStreamEvent) \<Rightarrow> grok_parser \<Rightarrow> grok_parser" where
  "grok_emit f p =
     (let q = gk_stream_seq p + 1
      in p\<lparr>gk_stream_seq := q, gk_stream_tx := map_option (\<lambda>es. es @ [f q]) (gk_stream_tx p)\<rparr>)"

definition grok_event :: "WorkingState \<Rightarrow> string \<Rightarrow> WorkingStateEvent" where
  "grok_event st detail = working ''grok'' st detail None None None"

definition grok_record :: "WorkingStateEvent \<Rightarrow> grok_parser \<Rightarrow> WorkingStateEvent option \<times> grok_parser" where
  "grok_record e p = (Some e, p\<lparr>gk_events := gk_events p @ [e]\<rparr>)"

definition grok_on_text :: "json \<Rightarrow> grok_parser \<Rightarrow> WorkingStateEvent option \<times> grok_parser" where
  "grok_on_text v p =
     (let data = str_or [] (get_str v ''data'')
      in if data = [] \<or> gk_ended p then (None, p)
         else let preview = take_chars 120 data
              in grok_record (grok_event MessageDelta preview)
                   (grok_emit (SeResponseChunk ''grok'' preview)
                     (p\<lparr>gk_response_chunks := gk_response_chunks p @ [data]\<rparr>)))"

definition grok_called :: "serde \<Rightarrow> json \<Rightarrow> ToolCallRecord" where
  "grok_called S v =
     (let name = str_or ''unknown'' (or_else (get_str v ''toolName'') (get_str v ''title''))
      in opened_call (get_str v ''toolCallId'') name
           (shell_read_kind (grok_map_tool_kind (get_str v ''kind'') name) (json_get v ''rawInput''))
           (map_option (sj_to_string S) (json_get v ''rawInput'')))"

definition grok_on_tool_call :: "serde \<Rightarrow> json \<Rightarrow> grok_parser \<Rightarrow> WorkingStateEvent option \<times> grok_parser" where
  "grok_on_tool_call S v p =
     (let r = grok_called S v;
          raw = json_get v ''rawInput'';
          field = (\<lambda>k. Option.bind raw (\<lambda>a. json_get a k));
          path = str_or [] (Option.bind (or_else (or_else (field ''target_file'') (field ''path'')) (field ''file_path'')) as_str);
          p1 = grok_emit (if kind r = ReadFile \<and> \<not> is_shell_tool (tool r) then SeFileRead ''grok'' path
                          else SeToolCall ''grok'' (tool r) (take_chars 120 (str_or [] (args_json r))))
                 (p\<lparr>gk_tool_calls := gk_tool_calls p @ [r]\<rparr>)
      in grok_record ((grok_event ToolCallStarted (tool r))\<lparr>ws_tool_name := Some (tool r), ws_tool_args_json := args_json r\<rparr>) p1)"

text \<open>\<open>iter().rposition(..)\<close>.\<close>

definition rposition :: "('a \<Rightarrow> bool) \<Rightarrow> 'a list \<Rightarrow> nat option" where
  "rposition P xs = (case filter (\<lambda>i. P (xs ! i)) [0 ..< length xs] of [] \<Rightarrow> None | is \<Rightarrow> Some (last is))"

definition grok_update_text :: "json \<Rightarrow> string" where
  "grok_update_text v =
     (case get_array v ''content'' of
        Some blks \<Rightarrow> join [nl_char] (List.map_filter (\<lambda>b. Option.bind (json_get b ''content'') (\<lambda>c. get_str c ''text'')) blks)
      | None \<Rightarrow> [])"

definition grok_updated :: "json \<Rightarrow> bool \<Rightarrow> ToolCallRecord \<Rightarrow> ToolCallRecord" where
  "grok_updated v completed r =
     (let r1 = r\<lparr>success := Some completed\<rparr>
      in if completed \<and> kind r = ReadFile \<and> \<not> is_shell_tool (tool r)
         then r1\<lparr>returned_lines := grok_returned_lines v (grok_update_text v)\<rparr>
         else if completed \<and> is_shell_tool (tool r)
         then r1\<lparr>shown_output := Some (capped_shown_output (grok_update_text v))\<rparr>
         else r1)"

definition grok_target :: "json \<Rightarrow> ToolCallRecord list \<Rightarrow> nat option" where
  "grok_target v calls =
     Option.bind (get_str v ''toolCallId'') (\<lambda>i.
       or_else (rposition (\<lambda>r. tc_id r = Some i \<and> success r = None) calls) (rposition (\<lambda>r. tc_id r = Some i) calls))"

definition grok_on_update :: "json \<Rightarrow> grok_parser \<Rightarrow> WorkingStateEvent option \<times> grok_parser" where
  "grok_on_update v p =
     (case get_str v ''status'' of
        None \<Rightarrow> grok_record (grok_event ToolCallStarted ''in progress'') p
      | Some status \<Rightarrow>
          (let completed = (status = ''completed'');
               target = grok_target v (gk_tool_calls p);
               p1 = (case target of
                       Some idx \<Rightarrow> p\<lparr>gk_tool_calls := (gk_tool_calls p)[idx := grok_updated v completed (gk_tool_calls p ! idx)]\<rparr>
                     | None \<Rightarrow> p);
               k = (case target of Some idx \<Rightarrow> kind (gk_tool_calls p1 ! idx) | None \<Rightarrow> UnknownTool);
               st = (if k = Bash then CommandCompleted
                     else if k = EditFile \<or> k = WriteFile then FileEditCompleted
                     else ToolCallCompleted)
           in grok_record (grok_event st (if completed then ''completed'' else ''failed'')) p1))"

definition grok_cost :: "serde \<Rightarrow> json \<Rightarrow> rat option \<Rightarrow> rat option" where
  "grok_cost S v old = or_else (Option.bind (json_get v ''total_cost_usd'') (as_f64 S)) old"

definition grok_on_usage :: "serde \<Rightarrow> json \<Rightarrow> grok_parser \<Rightarrow> WorkingStateEvent option \<times> grok_parser" where
  "grok_on_usage S v p =
     (let p1 = (case json_get v ''usage'' of
                  None \<Rightarrow> p
                | Some u \<Rightarrow>
                    (let usage = grok_parse_usage u (length (gk_tool_calls p));
                         es = (if gk_ended p
                               then update_last (\<lambda>e. ws_state e = TurnCompleted) (\<lambda>e. e\<lparr>ws_token_usage := Some usage\<rparr>) (gk_events p)
                               else gk_events p)
                     in p\<lparr>gk_events := es, gk_token_usage := Some usage\<rparr>))
      in (None, p1\<lparr>gk_total_cost_usd := grok_cost S v (gk_total_cost_usd p)\<rparr>))"

definition grok_stop :: "string \<Rightarrow> Termination" where
  "grok_stop reason =
     (if reason = ''max_turn_requests'' then MaxTurnsReached
      else if reason \<in> {''max_tokens'', ''refusal'', ''cancelled''} then Stopped
      else EndTurn)"

definition grok_on_end :: "serde \<Rightarrow> json \<Rightarrow> grok_parser \<Rightarrow> WorkingStateEvent option \<times> grok_parser" where
  "grok_on_end S v p =
     (if gk_ended p then (None, p)
      else
        let reason = str_or ''end_turn'' (get_str v ''stopReason'');
            usage = (case json_get v ''usage'' of
                       Some u \<Rightarrow> Some (grok_parse_usage u (length (gk_tool_calls p)))
                     | None \<Rightarrow> gk_token_usage p)
        in grok_record ((grok_event TurnCompleted reason)\<lparr>ws_token_usage := usage\<rparr>)
             (p\<lparr>gk_ended := True,
                gk_session_id := or_else (get_str v ''sessionId'') (gk_session_id p),
                gk_token_usage := usage,
                gk_total_cost_usd := grok_cost S v (gk_total_cost_usd p),
                gk_termination := (if gk_termination p = Incomplete then grok_stop reason else gk_termination p),
                gk_stop_reason := Some reason\<rparr>))"

definition grok_on_error :: "json \<Rightarrow> grok_parser \<Rightarrow> WorkingStateEvent option \<times> grok_parser" where
  "grok_on_error v p =
     (let msg = str_or ''grok reported an error'' (get_str v ''message'')
      in grok_record (grok_event WorkingError msg)
           (grok_emit (SeError ''grok'' msg) (p\<lparr>gk_termination := Errored, gk_error_detail := Some msg\<rparr>)))"

definition array_len :: "json \<Rightarrow> string \<Rightarrow> nat" where
  "array_len v k = (case get_array v k of Some xs \<Rightarrow> length xs | None \<Rightarrow> 0)"

definition grok_on_available_commands :: "json \<Rightarrow> grok_parser \<Rightarrow> WorkingStateEvent option \<times> grok_parser" where
  "grok_on_available_commands v p =
     (let t = array_len v ''tools''; c = array_len v ''commands''
      in grok_record (grok_event UnknownState (show_nat t @ '' tools, '' @ show_nat c @ '' commands available''))
           (p\<lparr>gk_tool_surface := Some (t, c)\<rparr>))"

definition grok_on_compact_failed :: "json \<Rightarrow> grok_parser \<Rightarrow> WorkingStateEvent option \<times> grok_parser" where
  "grok_on_compact_failed v p =
     (let detail = str_or ''auto-compaction failed'' (get_str v ''message'')
      in grok_record (grok_event WorkingError (''auto_compact_failed: '' @ detail))
           (p\<lparr>gk_context_rewrite_failed := Some detail\<rparr>))"

definition GROK_NOTICES :: "string list" where
  "GROK_NOTICES = [''auto_compact_started'', ''auto_compact_completed'', ''auto_compact_cancelled'',
     ''auto_continue_completed'', ''memory_flush_started'', ''memory_flush_completed'']"

definition grok_parse_value :: "serde \<Rightarrow> json \<Rightarrow> grok_parser \<Rightarrow> WorkingStateEvent option \<times> grok_parser" where
  "grok_parse_value S v p =
     (let t = str_or [] (get_str v ''type'')
      in if t = ''thought'' then grok_record (grok_event MessageDelta ''thinking'') p
         else if t = ''text'' then grok_on_text v p
         else if t = ''tool_call'' then grok_on_tool_call S v p
         else if t = ''tool_call_update'' then grok_on_update v p
         else if t = ''usage'' then grok_on_usage S v p
         else if t = ''end'' then grok_on_end S v p
         else if t = ''error'' then grok_on_error v p
         else if t = ''max_turns_reached'' then
           grok_record (grok_event Stuck ''max_turns_reached'') (p\<lparr>gk_termination := MaxTurnsReached\<rparr>)
         else if t = ''available_commands'' then grok_on_available_commands v p
         else if t = ''plan'' then
           grok_record (grok_event UnknownState (''plan: '' @ show_nat (array_len v ''entries'') @ '' entries'')) p
         else if t \<in> set GROK_NOTICES then grok_record (grok_event UnknownState t) p
         else if t = ''auto_compact_failed'' then grok_on_compact_failed v p
         else (None, p))"

definition grok_parse_line :: "serde \<Rightarrow> string \<Rightarrow> grok_parser \<Rightarrow> WorkingStateEvent option \<times> grok_parser" where
  "grok_parse_line S l p =
     (let line = trim l
      in if line = [] then (None, p)
         else case sj_from_str S line of None \<Rightarrow> (None, p) | Some v \<Rightarrow> grok_parse_value S v p)"

definition grok_parse_batch_json :: "json \<Rightarrow> ParsedAgentResult" where
  "grok_parse_batch_json v =
     \<lparr>response_text = str_or [] (get_str v ''text''), session_id = get_str v ''sessionId'', events = [], tool_calls = [],
      token_usage = map_option (\<lambda>u. grok_parse_usage u 0) (json_get v ''usage''), self_reported_cost_usd = None,
      cli_version = None, parser_mode = ''grok-batch-json''\<rparr>"

definition grok_finish :: "grok_parser \<Rightarrow> ParsedAgentResult" where
  "grok_finish p =
     \<lparr>response_text = concat (gk_response_chunks p), session_id = gk_session_id p, events = gk_events p,
      tool_calls = gk_tool_calls p, token_usage = gk_token_usage p, self_reported_cost_usd = gk_total_cost_usd p,
      cli_version = None, parser_mode = ''grok-streaming-json''\<rparr>"

record GrokParsed =
  gp_termination :: Termination
  gp_stop_reason :: "string option"
  gp_tool_surface :: "(nat \<times> nat) option"
  gp_context_rewrite_failed :: "string option"
  gp_total_cost_usd :: "rat option"
  gp_error_detail :: "string option"
  gp_parsed :: ParsedAgentResult

definition grok_finish_full :: "grok_parser \<Rightarrow> GrokParsed" where
  "grok_finish_full p =
     \<lparr>gp_termination = gk_termination p, gp_stop_reason = gk_stop_reason p, gp_tool_surface = gk_tool_surface p,
      gp_context_rewrite_failed = gk_context_rewrite_failed p, gp_total_cost_usd = gk_total_cost_usd p,
      gp_error_detail = gk_error_detail p, gp_parsed = grok_finish p\<rparr>"

abbreviation grok_feed :: "serde \<Rightarrow> json \<Rightarrow> grok_parser \<Rightarrow> grok_parser" where
  "grok_feed S v p \<equiv> snd (grok_parse_value S v p)"

definition grok_lines :: "serde \<Rightarrow> string list \<Rightarrow> grok_parser" where
  "grok_lines S ls = fold (\<lambda>l p. snd (grok_parse_line S l p)) ls grok_new"

lemma grok_lines_fold: "grok_lines S ls = fold (grok_feed S) (trimmed_values S ls) grok_new"
proof -
  have "snd (grok_parse_line S l p) = (if trim l = [] then p else case sj_from_str S (trim l) of None \<Rightarrow> p | Some v \<Rightarrow> grok_feed S v p)"
    for l p by (simp add: grok_parse_line_def Let_def split: option.split)
  then show ?thesis unfolding grok_lines_def fold_trimmed_values by simp
qed

subsection \<open>The answer\<close>

text \<open>The handlers that touch neither the answer nor the calls nor the end of the turn.\<close>

lemmas grok_handlers =
  grok_record_def grok_emit_def grok_event_def grok_on_text_def grok_on_tool_call_def grok_on_update_def
  grok_on_usage_def grok_on_end_def grok_on_error_def grok_on_available_commands_def grok_on_compact_failed_def

lemma grok_text_cases: "get_str v ''type'' = Some ''text'' \<Longrightarrow> grok_parse_value S v p = grok_on_text v p"
  and grok_call_cases: "get_str v ''type'' = Some ''tool_call'' \<Longrightarrow> grok_parse_value S v p = grok_on_tool_call S v p"
  and grok_update_cases: "get_str v ''type'' = Some ''tool_call_update'' \<Longrightarrow> grok_parse_value S v p = grok_on_update v p"
  and grok_usage_cases: "get_str v ''type'' = Some ''usage'' \<Longrightarrow> grok_parse_value S v p = grok_on_usage S v p"
  and grok_end_cases: "get_str v ''type'' = Some ''end'' \<Longrightarrow> grok_parse_value S v p = grok_on_end S v p"
  by (simp_all add: grok_parse_value_def Let_def)

definition grok_core :: "grok_parser \<Rightarrow> string list \<times> ToolCallRecord list \<times> bool" where
  "grok_core p = (gk_response_chunks p, gk_tool_calls p, gk_ended p)"

lemma grok_core_rest:
  assumes "get_str v ''type'' \<notin> {Some ''text'', Some ''tool_call'', Some ''tool_call_update'', Some ''end''}"
  shows "grok_core (grok_feed S v p) = grok_core p"
proof -
  have t: "str_or [] (get_str v ''type'') \<notin> {''text'', ''tool_call'', ''tool_call_update'', ''end''}"
    using assms by (cases "get_str v ''type''") auto
  have r: "grok_core (snd (grok_record e q)) = grok_core q" for e q by (simp add: grok_record_def grok_core_def)
  have "grok_core (snd (grok_on_usage S v p)) = grok_core p" "grok_core (snd (grok_on_error v p)) = grok_core p"
    "grok_core (snd (grok_on_available_commands v p)) = grok_core p" "grok_core (snd (grok_on_compact_failed v p)) = grok_core p"
    by (simp_all add: grok_handlers grok_core_def Let_def split: option.split)
  moreover have "grok_core (p\<lparr>gk_termination := x\<rparr>) = grok_core p" for x by (simp add: grok_core_def)
  ultimately show ?thesis using t by (simp add: grok_parse_value_def Let_def r)
qed

lemma grok_feed_chunks:
  "gk_response_chunks (grok_feed S v p) = gk_response_chunks p
     @ (if get_str v ''type'' = Some ''text'' \<and> \<not> gk_ended p \<and> str_or [] (get_str v ''data'') \<noteq> []
        then [str_or [] (get_str v ''data'')] else [])"
  "gk_ended (grok_feed S v p) \<longleftrightarrow> gk_ended p \<or> get_str v ''type'' = Some ''end''"
proof -
  consider (chunk) "get_str v ''type'' = Some ''text''" | (call) "get_str v ''type'' = Some ''tool_call''"
    | (update) "get_str v ''type'' = Some ''tool_call_update''" | (fin) "get_str v ''type'' = Some ''end''"
    | (rest) "get_str v ''type'' \<notin> {Some ''text'', Some ''tool_call'', Some ''tool_call_update'', Some ''end''}" by blast
  then have "gk_response_chunks (grok_feed S v p) = gk_response_chunks p
     @ (if get_str v ''type'' = Some ''text'' \<and> \<not> gk_ended p \<and> str_or [] (get_str v ''data'') \<noteq> []
        then [str_or [] (get_str v ''data'')] else [])
    \<and> (gk_ended (grok_feed S v p) \<longleftrightarrow> gk_ended p \<or> get_str v ''type'' = Some ''end'')"
  proof cases
    case chunk
    then show ?thesis by (simp add: grok_text_cases grok_handlers Let_def)
  next
    case call
    then show ?thesis by (simp add: grok_call_cases grok_handlers Let_def)
  next
    case update
    then show ?thesis by (simp add: grok_update_cases grok_handlers Let_def split: option.split)
  next
    case fin
    then show ?thesis by (simp add: grok_end_cases grok_handlers Let_def)
  next
    case rest
    with grok_core_rest[OF rest, of S p] show ?thesis by (auto simp: grok_core_def)
  qed
  then show "gk_response_chunks (grok_feed S v p) = gk_response_chunks p
     @ (if get_str v ''type'' = Some ''text'' \<and> \<not> gk_ended p \<and> str_or [] (get_str v ''data'') \<noteq> []
        then [str_or [] (get_str v ''data'')] else [])"
    "gk_ended (grok_feed S v p) \<longleftrightarrow> gk_ended p \<or> get_str v ''type'' = Some ''end''" by blast+
qed

text \<open>The reference: what is printed as text before the end of the turn.\<close>

fun grok_answer :: "json list \<Rightarrow> string" where
  "grok_answer [] = []"
| "grok_answer (v # vs) =
     (if get_str v ''type'' = Some ''end'' then []
      else if get_str v ''type'' = Some ''text'' then str_or [] (get_str v ''data'') @ grok_answer vs
      else grok_answer vs)"

lemma grok_answer_fold:
  "concat (gk_response_chunks (fold (grok_feed S) vs p)) = concat (gk_response_chunks p) @ (if gk_ended p then [] else grok_answer vs)"
  by (induction vs arbitrary: p) (simp_all add: grok_feed_chunks)

text \<open>C27: The answer of a grok turn is exactly what the stream prints as text before the turn ends: neither thoughts nor
  tool output nor anything after the end gets into it.\<close>

theorem grok_answer_is_its_text:
  "response_text (grok_finish (grok_lines S ls)) = grok_answer (trimmed_values S ls)"
  by (simp add: grok_finish_def grok_lines_fold grok_answer_fold) (simp add: grok_new_def)

text \<open>However often the end is reported, the turn is completed once.\<close>

definition completions :: "grok_parser \<Rightarrow> nat" where
  "completions p = length (filter (\<lambda>e. ws_state e = TurnCompleted) (gk_events p))"

lemma length_filter_update_last:
  "(\<And>x. Q (f x) = Q x) \<Longrightarrow> length (filter Q (update_last P f xs)) = length (filter Q xs)"
proof -
  assume q: "\<And>x. Q (f x) = Q x"
  have "length (filter Q ys) = length (filter (\<lambda>b. b) (map Q ys))" for ys by (induction ys) auto
  then show ?thesis using map_update_last[of Q f P xs] q by metis
qed

lemma grok_completes_once: "completions (fold (grok_feed S) vs grok_new) = (if gk_ended (fold (grok_feed S) vs grok_new) then 1 else 0)"
proof -
  have step: "completions (grok_feed S v p) = completions p + (if get_str v ''type'' = Some ''end'' \<and> \<not> gk_ended p then 1 else 0)" for v p
  proof (cases "get_str v ''type'' \<in> {Some ''usage'', Some ''end''}")
    case True
    then show ?thesis
      by (auto simp: grok_usage_cases grok_end_cases grok_handlers working_def completions_def Let_def length_filter_update_last split: option.split)
  next
    case False
    then have t: "str_or [] (get_str v ''type'') \<notin> {''usage'', ''end''}" by (cases "get_str v ''type''") auto
    have r: "completions (snd (grok_record e q)) = completions q + (if ws_state e = TurnCompleted then 1 else 0)" for e q
      by (simp add: grok_record_def completions_def)
    have f: "completions (grok_emit g q) = completions q" for g q by (simp add: grok_emit_def completions_def Let_def)
    have u: "completions (q\<lparr>gk_response_chunks := a\<rparr>) = completions q" "completions (q\<lparr>gk_tool_calls := b\<rparr>) = completions q"
      "completions (q\<lparr>gk_termination := c\<rparr>) = completions q" "completions (q\<lparr>gk_error_detail := d\<rparr>) = completions q"
      "completions (q\<lparr>gk_tool_surface := x\<rparr>) = completions q" "completions (q\<lparr>gk_context_rewrite_failed := d\<rparr>) = completions q" for q a b c d x
      by (simp_all add: completions_def)
    have e: "ws_state (grok_event st d) = st" for st d by (simp add: grok_event_def working_def)
    have "completions (snd (grok_on_text v p)) = completions p" "completions (snd (grok_on_tool_call S v p)) = completions p"
      "completions (snd (grok_on_error v p)) = completions p" "completions (snd (grok_on_available_commands v p)) = completions p"
      "completions (snd (grok_on_compact_failed v p)) = completions p"
      by (simp_all add: grok_on_text_def grok_on_tool_call_def grok_on_error_def grok_on_available_commands_def
          grok_on_compact_failed_def r e f u Let_def)
    moreover have "completions (snd (grok_on_update v p)) = completions p"
      by (simp add: grok_on_update_def r e u Let_def split: option.split)
    ultimately show ?thesis using t False by (simp add: grok_parse_value_def r e u Let_def)
  qed
  have "completions (fold (grok_feed S) vs p) = completions p + (if gk_ended (fold (grok_feed S) vs p) \<and> \<not> gk_ended p then 1 else 0)" for p
  proof (induction vs arbitrary: p)
    case (Cons v vs)
    have mono: "gk_ended q \<Longrightarrow> gk_ended (fold (grok_feed S) vs q)" for q
      by (induction vs arbitrary: q) (simp_all add: grok_feed_chunks)
    define q e where "q = grok_feed S v p" and "e = (get_str v ''type'' = Some ''end'')"
    have "completions q = completions p + (if e \<and> \<not> gk_ended p then 1 else 0)" "gk_ended q \<longleftrightarrow> gk_ended p \<or> e"
      unfolding q_def e_def by (rule step, rule grok_feed_chunks(2))
    then show ?case
      unfolding fold_Cons o_apply q_def[symmetric] Cons[of q] using mono[of q] by (cases e; cases "gk_ended p") simp_all
  qed simp
  from this[of grok_new] show ?thesis by (simp add: completions_def grok_new_def)
qed

subsection \<open>What a read returned\<close>

text \<open>Every line number that a completed read of grok is credited with was shown: either a line of the text the model
  saw carries that number, or the tool reported the text of the file from some offset on, and at the place of that line
  the model saw the very line of the file, after its number if it had one, or grok's cut of it.\<close>

theorem grok_credited_line_was_shown:
  "{n. \<exists>(a, b) \<in> set (grok_returned_lines update shown). a \<le> n \<and> n \<le> b}
     \<subseteq> {n. Some n \<in> set (map line_number_marker (lines shown))}
       \<union> {n. \<exists>fc raw start i. Option.bind (json_get update ''rawOutput'') (\<lambda>r. json_get r ''FileContent'') = Some fc
               \<and> get_str fc ''raw_output'' = Some raw \<and> grok_offset fc = Some start \<and> n = start + i
               \<and> i < length (lines raw) \<and> i < length (lines shown)
               \<and> shown_as (wrap64 n) (lines shown ! i) (lines raw ! i)}"
  (is "_ \<subseteq> ?numbered \<union> ?compared")
proof (intro subsetI)
  fix n
  assume "n \<in> {n. \<exists>(a, b) \<in> set (grok_returned_lines update shown). a \<le> n \<and> n \<le> b}"
  then obtain a b where ab: "(a, b) \<in> set (grok_returned_lines update shown)" "a \<le> n" "n \<le> b" by blast
  show "n \<in> ?numbered \<union> ?compared"
  proof (cases "grok_returned_lines update shown = numbered_line_runs shown")
    case True
    with ab numbered_line_runs_exact[of shown n] show ?thesis by auto
  next
    case False
    then obtain fc raw start where fc: "Option.bind (json_get update ''rawOutput'') (\<lambda>r. json_get r ''FileContent'') = Some fc"
        "get_str fc ''raw_output'' = Some raw" "grok_offset fc = Some start"
      and len: "lines raw \<noteq> []" "length (lines raw) \<le> length (lines shown)"
      and all: "list_all (\<lambda>(i, s, r). shown_as (wrap64 (start + i)) s r) (enumerate 0 (zip (lines shown) (lines raw)))"
      and res: "grok_returned_lines update shown = [(start, wrap64 (start + length (lines raw) - 1))]"
      by (auto simp: grok_returned_lines_def Let_def split: option.split_asm if_split_asm)
    define i where "i = n - start"
    have "wrap64 (start + length (lines raw) - 1) \<le> start + length (lines raw) - 1" by (simp add: wrap64_def)
    with ab res have n: "n = start + i" and "i \<le> length (lines raw) - 1" by (auto simp: i_def)
    with len have i: "i < length (lines raw)" "i < length (lines shown)" by (cases "lines raw"; simp)+
    then have "(i, lines shown ! i, lines raw ! i) \<in> set (enumerate 0 (zip (lines shown) (lines raw)))"
      by (auto simp: in_set_enumerate_eq)
    with all n have "shown_as (wrap64 n) (lines shown ! i) (lines raw ! i)" by (auto simp: list_all_iff)
    with fc n i show ?thesis by blast
  qed
qed

text \<open>A cut line of a file counts as shown, however little of it is left: here nothing but the mark.\<close>

lemma grok_credits_a_cut_line: "is_grok_truncation_of ''... (line truncated to 0 chars)'' ''the whole secret''"
  by code_simp

subsection \<open>Evidence of a call\<close>

lemma rpositionD: "rposition P xs = Some i \<Longrightarrow> i < length xs \<and> P (xs ! i)"
proof -
  assume a: "rposition P xs = Some i"
  then have "i \<in> set (filter (\<lambda>i. P (xs ! i)) [0 ..< length xs])"
    by (cases "filter (\<lambda>i. P (xs ! i)) [0 ..< length xs]") (auto simp: rposition_def simp del: set_filter)
  then show ?thesis by simp
qed

lemma grok_targetD:
  assumes "grok_target v calls = Some idx"
  shows "idx < length calls" "get_str v ''toolCallId'' = tc_id (calls ! idx)" "tc_id (calls ! idx) \<noteq> None"
proof -
  from assms obtain i where i: "get_str v ''toolCallId'' = Some i"
    and "rposition (\<lambda>r. tc_id r = Some i \<and> success r = None) calls = Some idx \<or> rposition (\<lambda>r. tc_id r = Some i) calls = Some idx"
    by (auto simp: grok_target_def bind_eq_Some_conv or_else_def split: option.split_asm)
  then have "idx < length calls \<and> tc_id (calls ! idx) = Some i" using rpositionD by fastforce
  with i show "idx < length calls" "get_str v ''toolCallId'' = tc_id (calls ! idx)" "tc_id (calls ! idx) \<noteq> None" by simp_all
qed

definition grok_identity :: "ToolCallRecord \<Rightarrow> string option \<times> string \<times> ToolKind \<times> string option" where
  "grok_identity r = (tc_id r, tool r, kind r, args_json r)"

definition grok_opens :: "serde \<Rightarrow> json \<Rightarrow> string option \<times> string \<times> ToolKind \<times> string option \<Rightarrow> bool" where
  "grok_opens S v i \<longleftrightarrow> get_str v ''type'' = Some ''tool_call'' \<and> i = grok_identity (grok_called S v)"

definition grok_proves :: "json \<Rightarrow> ToolCallRecord \<Rightarrow> bool" where
  "grok_proves v r \<longleftrightarrow>
     get_str v ''type'' = Some ''tool_call_update'' \<and> get_str v ''status'' = Some ''completed''
     \<and> tc_id r \<noteq> None \<and> get_str v ''toolCallId'' = tc_id r
     \<and> (kind r = ReadFile \<and> \<not> is_shell_tool (tool r) \<longrightarrow> returned_lines r = grok_returned_lines v (grok_update_text v))
     \<and> (is_shell_tool (tool r) \<longrightarrow> shown_output r = Some (capped_shown_output (grok_update_text v)))"

lemma grok_updated_simps [simp]:
  "success (grok_updated v c r) = Some c" "tc_id (grok_updated v c r) = tc_id r" "tool (grok_updated v c r) = tool r"
  "kind (grok_updated v c r) = kind r" "grok_identity (grok_updated v c r) = grok_identity r"
  "is_shell_tool (tool r) \<Longrightarrow> shown_output (grok_updated v True r) = Some (capped_shown_output (grok_update_text v))"
  "kind r = ReadFile \<Longrightarrow> \<not> is_shell_tool (tool r) \<Longrightarrow>
     returned_lines (grok_updated v True r) = grok_returned_lines v (grok_update_text v)"
  by (simp_all add: grok_updated_def grok_identity_def Let_def)

lemma success_grok_called [simp]: "success (grok_called S v) = None"
  by (simp add: grok_called_def opened_call_def Let_def)

lemma grok_feed_calls:
  obtains "gk_tool_calls (grok_feed S v p) = gk_tool_calls p"
  | "get_str v ''type'' = Some ''tool_call''" "gk_tool_calls (grok_feed S v p) = gk_tool_calls p @ [grok_called S v]"
  | idx st where "get_str v ''type'' = Some ''tool_call_update''" "get_str v ''status'' = Some st"
      "grok_target v (gk_tool_calls p) = Some idx"
      "gk_tool_calls (grok_feed S v p) = (gk_tool_calls p)[idx := grok_updated v (st = ''completed'') (gk_tool_calls p ! idx)]"
proof -
  consider (call) "get_str v ''type'' = Some ''tool_call''" | (update) "get_str v ''type'' = Some ''tool_call_update''"
    | (chunk) "get_str v ''type'' = Some ''text''" | (fin) "get_str v ''type'' = Some ''end''"
    | (rest) "get_str v ''type'' \<notin> {Some ''text'', Some ''tool_call'', Some ''tool_call_update'', Some ''end''}" by blast
  then show thesis
  proof cases
    case call
    then show thesis by (intro that(2)) (simp_all add: grok_call_cases grok_handlers Let_def)
  next
    case update
    show thesis
    proof (cases "get_str v ''status''")
      case None
      with update show thesis by (intro that(1)) (simp add: grok_update_cases grok_handlers)
    next
      case (Some st)
      show thesis
      proof (cases "grok_target v (gk_tool_calls p)")
        case None
        with Some update show thesis by (intro that(1)) (simp add: grok_update_cases grok_handlers Let_def)
      next
        case (Some idx)
        with \<open>get_str v ''status'' = Some st\<close> update show thesis
          by (intro that(3)[of st idx]) (simp_all add: grok_update_cases grok_handlers Let_def)
      qed
    qed
  next
    case chunk
    then show thesis by (intro that(1)) (simp add: grok_text_cases grok_handlers Let_def)
  next
    case fin
    then show thesis by (intro that(1)) (simp add: grok_end_cases grok_handlers Let_def)
  next
    case rest
    with grok_core_rest[OF rest, of S p] show thesis by (intro that(1)) (auto simp: grok_core_def)
  qed
qed

interpretation grok: tool_stream "grok_feed S" gk_tool_calls "\<lambda>_. True" grok_new grok_identity "grok_opens S" grok_proves
  for S
proof
  fix v p r
  assume r: "r \<in> set (gk_tool_calls (grok_feed S v p))"
  show "grok_opens S v (grok_identity r) \<or> grok_identity r \<in> grok_identity ` set (gk_tool_calls p)"
  proof (cases rule: grok_feed_calls[of S v p])
    case 2
    from r[unfolded 2(2)] have "r \<in> set (gk_tool_calls p) \<or> r = grok_called S v" by (simp add: disj_commute)
    with 2(1) show ?thesis unfolding grok_opens_def by blast
  next
    case (3 idx st)
    have "map grok_identity (gk_tool_calls (grok_feed S v p)) = map grok_identity (gk_tool_calls p)"
      using grok_targetD[OF 3(3)] unfolding 3(4) map_update by (simp add: list_update_same_conv)
    with r show ?thesis by (metis image_eqI list.set_map)
  qed (use r in simp)
  show "grok_proves v r \<or> r \<in> set (gk_tool_calls p)" if s: "success r = Some True"
  proof (cases rule: grok_feed_calls[of S v p])
    case 2
    have "r \<noteq> grok_called S v" by (rule notI) (use s in simp)
    with r[unfolded 2(2)] show ?thesis by simp
  next
    case (3 idx st)
    let ?old = "gk_tool_calls p ! idx"
    from subsetD[OF set_update_subset_insert r[unfolded 3(4)]]
    consider "r \<in> set (gk_tool_calls p)" | "r = grok_updated v (st = ''completed'') ?old" by blast
    then show ?thesis
    proof cases
      case new: 2
      with s have "st = ''completed''" by simp
      with new have new: "r = grok_updated v True ?old" by simp
      have "get_str v ''toolCallId'' = tc_id r" "tc_id r \<noteq> None" using grok_targetD[OF 3(3)] new by simp_all
      with new 3(1,2) \<open>st = ''completed''\<close> show ?thesis unfolding grok_proves_def by simp
    qed simp
  qed (use r in simp)
qed (simp_all add: grok_new_def)

lemma grok_lines_run: "grok_lines S ls = grok.run S (trimmed_values S ls)"
  unfolding grok_lines_fold grok.run_def ..

text \<open>An error that is followed by the report of a reached limit is no longer the way the turn ended.\<close>

lemma grok_limit_hides_an_error:
  assumes "get_str v ''type'' = Some ''error''" "get_str w ''type'' = Some ''max_turns_reached''"
  shows "gk_termination (fold (grok_feed S) [v, w] p) = MaxTurnsReached"
proof -
  have "gk_termination (grok_feed S w q) = MaxTurnsReached" for q
    using assms(2) by (simp add: grok_parse_value_def grok_record_def Let_def)
  then show ?thesis by simp
qed

end
