(* ===== verification/Agy_Stream.thy ===== *)
theory Agy_Stream
  imports Stream_Types
begin

text \<open>
  The parser of agy's \<open>stream-json\<close> output (\<open>agent-adapter/src/agy_stream.rs\<close>). A tool step is reported while it runs and
  again when it has ended; the parser pairs the reports by the index of the step. A duration in seconds is an exact
  rational, rounded half away from zero to milliseconds.

  Shown here: the positions kept for open steps are always in range and belong to calls without an outcome, so that the
  indexing cannot fail; every call was opened by a report; and a call that ended has a report of its step as done or in error,
  from which its recorded output is taken.
\<close>

definition AGY_MODE_STREAM :: string where
  "AGY_MODE_STREAM = ''agy-stream-json''"

definition map_agy_tool_kind :: "string \<Rightarrow> ToolKind" where
  "map_agy_tool_kind name =
     (if name \<in> {''view_file'', ''read_url_content'', ''read_resource'', ''read_browser_page''} then ReadFile
      else if name = ''notebook_execution'' then Bash
      else if name \<in> {''write_to_file'', ''generate_image''} then WriteFile
      else if name \<in> {''replace_file_content'', ''multi_replace_file_content'', ''sed_file'', ''notebook_edit''} then EditFile
      else if name \<in> {''run_command'', ''command_status'', ''send_command_input''} then Bash
      else if name \<in> {''grep_search'', ''search_web''} then Grep
      else if name \<in> {''list_dir'', ''find_by_name'', ''list_resources''} then Glob
      else if name \<in> {''ask_question'', ''ask_permission'', ''ask_custom_permission''} then RequestUserInput
      else if name \<in> {''call_mcp_tool'', ''invoke_subagent'', ''browser_subagent'', ''define_subagent'', ''manage_subagents'',
                     ''schedule'', ''manage_task'', ''manage_inbox'', ''send_message''} then EditFile
      else UnknownTool)"

definition agy_parse_usage :: "json \<Rightarrow> TokenUsage" where
  "agy_parse_usage u =
     \<lparr>input_tokens = get_u64 u ''input_tokens'', output_tokens = get_u64 u ''output_tokens'',
      cached_tokens = get_u64 u ''cache_read_tokens'', thinking_tokens = get_u64 u ''thinking_tokens'',
      latency_ms = None, usage_tool_calls = None, total_tokens = get_u64 u ''total_tokens''\<rparr>"

definition agy_event ::
  "WorkingState \<Rightarrow> string \<Rightarrow> string option \<Rightarrow> string option \<Rightarrow> TokenUsage option \<Rightarrow> WorkingStateEvent"
where
  "agy_event = working ''gemini''"

record agy_parser =
  ag_text_deltas :: "string list"
  ag_final_response :: "string option"
  ag_conversation_id :: "string option"
  ag_tool_calls :: "ToolCallRecord list"
  ag_open_steps :: "(int \<times> nat) list"
  ag_usage :: "TokenUsage option"
  ag_events :: "WorkingStateEvent list"
  ag_status :: "string option"
  ag_saw_result :: bool
  ag_first_tool_error :: "string option"
  ag_denied_actions :: "string list"

definition agy_new :: agy_parser where
  "agy_new = \<lparr>ag_text_deltas = [], ag_final_response = None, ag_conversation_id = None, ag_tool_calls = [],
     ag_open_steps = [], ag_usage = None, ag_events = [], ag_status = None, ag_saw_result = False,
     ag_first_tool_error = None, ag_denied_actions = []\<rparr>"

definition agy_push :: "WorkingStateEvent \<Rightarrow> agy_parser \<Rightarrow> agy_parser" where
  "agy_push e p = p\<lparr>ag_events := ag_events p @ [e]\<rparr>"

text \<open>\<open>(s * 1000.0).round() as u64\<close>: the cast saturates.\<close>

definition millis_of_seconds :: "rat \<Rightarrow> u64" where
  "millis_of_seconds s = of_int (min (max (floor (s * 1000 + 1 / 2)) 0) (2 ^ 64 - 1))"

definition step_index :: "json \<Rightarrow> int" where
  "step_index su = (case Option.bind (json_get su ''step_index'') as_i64 of Some n \<Rightarrow> n | None \<Rightarrow> -1)"

definition tool_info :: "json \<Rightarrow> string \<Rightarrow> json option" where
  "tool_info su k = Option.bind (json_get su ''tool_info'') (\<lambda>ti. json_get ti k)"

definition step_name :: "json \<Rightarrow> string" where
  "step_name su = str_or ''unknown'' (or_else (get_str su ''tool_name'') (Option.bind (tool_info su ''name'') as_str))"

definition step_params :: "serde \<Rightarrow> json \<Rightarrow> string option" where
  "step_params S su = map_option (sj_to_string S) (tool_info su ''parameters'')"

definition step_duration :: "serde \<Rightarrow> json \<Rightarrow> u64 option" where
  "step_duration S su = map_option millis_of_seconds (Option.bind (json_get su ''duration_seconds'') (as_f64 S))"

definition step_done :: "json \<Rightarrow> bool" where
  "step_done su = eq_ignore_ascii_case (str_or [] (get_str su ''state'')) ''DONE''"

definition step_errored :: "json \<Rightarrow> bool" where
  "step_errored su = eq_ignore_ascii_case (str_or [] (get_str su ''state'')) ''ERROR''"

definition step_shown :: "json \<Rightarrow> string option" where
  "step_shown su =
     (if step_done su \<and> step_name su = ''run_command''
      then Some (capped_shown_output (str_or [] (Option.bind (tool_info su ''output'') as_str))) else None)"

definition agy_note_error :: "json \<Rightarrow> agy_parser \<Rightarrow> agy_parser" where
  "agy_note_error su p =
     (if step_errored su \<and> ag_first_tool_error p = None
      then p\<lparr>ag_first_tool_error := Some (step_name su @ '': ''
               @ take_chars 200 (str_or ''no error message'' (Option.bind (tool_info su ''error'') (\<lambda>e. get_str e ''message''))))\<rparr>
      else p)"

definition agy_step_record :: "serde \<Rightarrow> json \<Rightarrow> ToolCallRecord \<Rightarrow> ToolCallRecord" where
  "agy_step_record S su r =
     (let r1 = (if step_done su \<or> step_errored su
                then r\<lparr>success := Some (\<not> step_errored su), shown_output := step_shown su\<rparr> else r);
          r2 = (case step_params S su of
                  None \<Rightarrow> r1
                | Some ps \<Rightarrow>
                    (let r' = (case sj_from_str S ps of Some v \<Rightarrow> r1\<lparr>kind := shell_read_kind (kind r1) (Some v)\<rparr> | None \<Rightarrow> r1)
                     in r'\<lparr>args_json := Some ps\<rparr>))
      in case step_duration S su of None \<Rightarrow> r2 | Some d \<Rightarrow> r2\<lparr>duration_ms := Some d\<rparr>)"

definition agy_new_record :: "serde \<Rightarrow> json \<Rightarrow> ToolCallRecord" where
  "agy_new_record S su =
     \<lparr>tc_id = Some (show_int (step_index su)), tool = step_name su,
      kind = shell_read_kind (map_agy_tool_kind (step_name su)) (Option.bind (step_params S su) (sj_from_str S)),
      success = (if step_done su then Some True else if step_errored su then Some False else None),
      duration_ms = step_duration S su, args_json = step_params S su, returned_lines = [], shown_output = step_shown su\<rparr>"

text \<open>The position of the entry of an open step in the list of open steps.\<close>

fun open_position :: "int \<Rightarrow> (int \<times> nat) list \<Rightarrow> nat option" where
  "open_position i [] = None"
| "open_position i ((j, _) # xs) = (if j = i then Some 0 else map_option Suc (open_position i xs))"

definition agy_handle_tool :: "serde \<Rightarrow> json \<Rightarrow> agy_parser \<Rightarrow> agy_parser" where
  "agy_handle_tool S su p0 =
     (let p = agy_note_error su p0; over = step_done su \<or> step_errored su
      in case open_position (step_index su) (ag_open_steps p) of
           Some pos \<Rightarrow>
             (let c = snd (ag_open_steps p ! pos)
              in agy_push (agy_event ToolCallCompleted (step_name su) (Some (step_name su)) None None)
                   (p\<lparr>ag_tool_calls := (ag_tool_calls p)[c := agy_step_record S su (ag_tool_calls p ! c)],
                      ag_open_steps := (if over then take pos (ag_open_steps p) @ drop (Suc pos) (ag_open_steps p)
                                        else ag_open_steps p)\<rparr>))
         | None \<Rightarrow>
             agy_push (agy_event ToolCallStarted (step_name su) (Some (step_name su)) None None)
               (p\<lparr>ag_tool_calls := ag_tool_calls p @ [agy_new_record S su],
                  ag_open_steps := (if over then ag_open_steps p
                                    else ag_open_steps p @ [(step_index su, length (ag_tool_calls p))])\<rparr>))"

definition agy_handle_step :: "serde \<Rightarrow> json \<Rightarrow> agy_parser \<Rightarrow> agy_parser" where
  "agy_handle_step S su p =
     (if get_str su ''step_type'' = Some ''agent_response'' then
        (let p1 = (case get_str su ''text_delta'' of Some t \<Rightarrow> p\<lparr>ag_text_deltas := ag_text_deltas p @ [t]\<rparr> | None \<Rightarrow> p)
         in case json_get su ''usage'' of Some u \<Rightarrow> p1\<lparr>ag_usage := Some (agy_parse_usage u)\<rparr> | None \<Rightarrow> p1)
      else if get_str su ''step_type'' = Some ''tool'' then agy_handle_tool S su p
      else p)"

definition agy_on_result :: "json \<Rightarrow> agy_parser \<Rightarrow> agy_parser" where
  "agy_on_result r p =
     (let p1 = p\<lparr>ag_saw_result := True, ag_status := get_str r ''status''\<rparr>;
          p2 = (case get_str r ''response'' of Some t \<Rightarrow> p1\<lparr>ag_final_response := Some t\<rparr> | None \<Rightarrow> p1);
          p3 = (case json_get r ''usage'' of Some u \<Rightarrow> p2\<lparr>ag_usage := Some (agy_parse_usage u)\<rparr> | None \<Rightarrow> p2);
          p4 = (case get_array r ''denied_actions'' of
                  Some ds \<Rightarrow> p3\<lparr>ag_denied_actions :=
                    map (\<lambda>d. str_or ''unnamed action'' (Option.bind (or_else (json_get d ''display_name'') (json_get d ''action'')) as_str)) ds\<rparr>
                | None \<Rightarrow> p3)
      in agy_push (agy_event TurnCompleted
           (''turn completed (agy stream, '' @ str_or ''no status'' (ag_status p4) @ '')'') None None (ag_usage p4)) p4)"

definition agy_feed :: "serde \<Rightarrow> json \<Rightarrow> agy_parser \<Rightarrow> agy_parser" where
  "agy_feed S v p =
     (let t = get_str v ''event''
      in if t = Some ''init'' then
           agy_push (agy_event TurnStarted ''turn started (agy stream)'' None None None)
             (p\<lparr>ag_conversation_id := get_str v ''conversation_id''\<rparr>)
         else if t = Some ''step_update'' then
           (case json_get v ''step_update'' of Some su \<Rightarrow> agy_handle_step S su p | None \<Rightarrow> p)
         else if t = Some ''result'' then
           (case json_get v ''result'' of Some r \<Rightarrow> agy_on_result r p | None \<Rightarrow> p)
         else p)"

definition agy_parse_line :: "serde \<Rightarrow> string \<Rightarrow> agy_parser \<Rightarrow> agy_parser" where
  "agy_parse_line S l p =
     (let line = trim l
      in if line = [] then p
         else case sj_from_str S line of None \<Rightarrow> p | Some v \<Rightarrow> agy_feed S v p)"

definition agy_finish :: "agy_parser \<Rightarrow> ParsedAgentResult" where
  "agy_finish p =
     \<lparr>response_text = trim (case ag_final_response p of Some t \<Rightarrow> t | None \<Rightarrow> concat (ag_text_deltas p)),
      session_id = None, events = ag_events p, tool_calls = ag_tool_calls p, token_usage = ag_usage p,
      self_reported_cost_usd = None, cli_version = None, parser_mode = AGY_MODE_STREAM\<rparr>"

subsection \<open>Open steps\<close>

definition awaiting :: "ToolCallRecord list \<Rightarrow> int \<times> nat \<Rightarrow> bool" where
  "awaiting calls x \<longleftrightarrow>
     snd x < length calls \<and> tc_id (calls ! snd x) = Some (show_int (fst x)) \<and> success (calls ! snd x) = None"

definition agy_ok :: "agy_parser \<Rightarrow> bool" where
  "agy_ok p \<longleftrightarrow> distinct (map snd (ag_open_steps p)) \<and> list_all (awaiting (ag_tool_calls p)) (ag_open_steps p)"

lemma awaiting_update: "snd x \<noteq> c \<Longrightarrow> awaiting (calls[c := r]) x = awaiting calls x"
  by (simp add: awaiting_def)

lemma awaiting_append: "awaiting calls x \<Longrightarrow> awaiting (calls @ [r]) x"
  by (simp add: awaiting_def nth_append)

lemma open_positionD:
  "open_position i xs = Some pos \<Longrightarrow> pos < length xs \<and> fst (xs ! pos) = i"
proof (induction i xs arbitrary: pos rule: open_position.induct)
  case (2 i j c xs)
  then show ?case by (cases "j = i") auto
qed simp

lemma agy_note_error_frame [simp]:
  "ag_tool_calls (agy_note_error su p) = ag_tool_calls p" "ag_open_steps (agy_note_error su p) = ag_open_steps p"
  by (simp_all add: agy_note_error_def)

lemma agy_push_frame [simp]:
  "ag_tool_calls (agy_push e p) = ag_tool_calls p" "ag_open_steps (agy_push e p) = ag_open_steps p"
  by (simp_all add: agy_push_def)

lemma agy_step_record_simps [simp]:
  "tc_id (agy_step_record S su r) = tc_id r" "tool (agy_step_record S su r) = tool r"
  "returned_lines (agy_step_record S su r) = returned_lines r"
  "success (agy_step_record S su r) = (if step_done su \<or> step_errored su then Some (\<not> step_errored su) else success r)"
  "shown_output (agy_step_record S su r) = (if step_done su \<or> step_errored su then step_shown su else shown_output r)"
  by (simp_all add: agy_step_record_def Let_def split: option.split)

lemma not_done_and_errored: "step_done su \<Longrightarrow> \<not> step_errored su"
proof
  assume "step_done su" "step_errored su"
  then have "eq_ignore_ascii_case ''DONE'' ''ERROR''" by (simp add: step_done_def step_errored_def eq_ignore_ascii_case_def)
  moreover have "\<not> eq_ignore_ascii_case ''DONE'' ''ERROR''" by code_simp
  ultimately show False by blast
qed

lemma distinct_drop_nth: "pos < length xs \<Longrightarrow> distinct (map f xs) \<Longrightarrow> x \<in> set (take pos xs @ drop (Suc pos) xs) \<Longrightarrow> f x \<noteq> f (xs ! pos)"
proof -
  assume a: "pos < length xs" "distinct (map f xs)" "x \<in> set (take pos xs @ drop (Suc pos) xs)"
  have "xs = take pos xs @ xs ! pos # drop (Suc pos) xs" using a(1) by (rule id_take_nth_drop)
  with a(2) have "distinct (map f (take pos xs @ xs ! pos # drop (Suc pos) xs))" by metis
  with a(3) show ?thesis by (auto simp: image_iff)
qed

lemma distinct_without_nth: "distinct (map f xs) \<Longrightarrow> distinct (map f (take pos xs @ drop (Suc pos) xs))"
  by (simp add: take_map drop_map set_take_disj_set_drop_if_distinct flip: take_map drop_map set_map)

text \<open>A report of a tool step either opens a call or changes the one its step has open.\<close>

lemma agy_handle_tool_cases:
  assumes "agy_ok p"
  obtains (new) "open_position (step_index su) (ag_open_steps p) = None"
      "ag_tool_calls (agy_handle_tool S su p) = ag_tool_calls p @ [agy_new_record S su]"
      "ag_open_steps (agy_handle_tool S su p) =
         (if step_done su \<or> step_errored su then ag_open_steps p
          else ag_open_steps p @ [(step_index su, length (ag_tool_calls p))])"
  | (known) pos c where "open_position (step_index su) (ag_open_steps p) = Some pos" "pos < length (ag_open_steps p)"
      "ag_open_steps p ! pos = (step_index su, c)" "c < length (ag_tool_calls p)"
      "tc_id (ag_tool_calls p ! c) = Some (show_int (step_index su))" "success (ag_tool_calls p ! c) = None"
      "ag_tool_calls (agy_handle_tool S su p) = (ag_tool_calls p)[c := agy_step_record S su (ag_tool_calls p ! c)]"
      "ag_open_steps (agy_handle_tool S su p) =
         (if step_done su \<or> step_errored su then take pos (ag_open_steps p) @ drop (Suc pos) (ag_open_steps p) else ag_open_steps p)"
proof (cases "open_position (step_index su) (ag_open_steps p)")
  case None
  then show thesis by (intro new) (simp_all add: agy_handle_tool_def Let_def)
next
  case (Some pos)
  from open_positionD[OF this] obtain c where c: "pos < length (ag_open_steps p)" "ag_open_steps p ! pos = (step_index su, c)"
    by (metis prod.collapse)
  then have "(step_index su, c) \<in> set (ag_open_steps p)" by (metis nth_mem)
  with assms have "c < length (ag_tool_calls p)" "tc_id (ag_tool_calls p ! c) = Some (show_int (step_index su))"
    "success (ag_tool_calls p ! c) = None" by (auto simp: agy_ok_def list_all_iff awaiting_def)
  with Some c show thesis by (intro known[of pos c]) (simp_all add: agy_handle_tool_def Let_def)
qed

lemma agy_handle_tool_ok:
  assumes "agy_ok p"
  shows "agy_ok (agy_handle_tool S su p)"
  using assms
proof (cases rule: agy_handle_tool_cases[of p su S])
  case new
  have "length (ag_tool_calls p) \<notin> set (map snd (ag_open_steps p))" using assms by (auto simp: agy_ok_def list_all_iff awaiting_def)
  moreover have "awaiting (ag_tool_calls p @ [agy_new_record S su]) (step_index su, length (ag_tool_calls p))"
    if "\<not> (step_done su \<or> step_errored su)" using that by (simp add: awaiting_def agy_new_record_def)
  ultimately show ?thesis
    using assms awaiting_append[of "ag_tool_calls p"] unfolding agy_ok_def new(2,3) by (auto simp: list_all_iff)
next
  case (known pos c)
  show ?thesis
  proof (cases "step_done su \<or> step_errored su")
    case True
    let ?rest = "take pos (ag_open_steps p) @ drop (Suc pos) (ag_open_steps p)"
    have d: "distinct (map snd (ag_open_steps p))" using assms by (simp add: agy_ok_def)
    have sub: "set ?rest \<subseteq> set (ag_open_steps p)" using set_take_subset set_drop_subset by fastforce
    have "awaiting (ag_tool_calls (agy_handle_tool S su p)) x" if x: "x \<in> set ?rest" for x
    proof -
      have "snd x \<noteq> c" using distinct_drop_nth[OF known(2) d x] known(3) by simp
      moreover have "awaiting (ag_tool_calls p) x" using assms sub x by (auto simp: agy_ok_def list_all_iff)
      ultimately show ?thesis unfolding known(7) by (simp add: awaiting_update)
    qed
    then show ?thesis using distinct_without_nth[OF d] True unfolding agy_ok_def known(8) by (auto simp: list_all_iff)
  next
    case False
    have "awaiting ((ag_tool_calls p)[c := agy_step_record S su (ag_tool_calls p ! c)]) x" if "awaiting (ag_tool_calls p) x" for x
      using that False known(4) by (cases "snd x = c") (simp_all add: awaiting_def)
    then show ?thesis using assms False unfolding agy_ok_def known(7,8) by (auto simp: list_all_iff)
  qed
qed

subsection \<open>Evidence of a call\<close>

lemma agy_feed_cases:
  obtains "ag_tool_calls (agy_feed S v p) = ag_tool_calls p" "ag_open_steps (agy_feed S v p) = ag_open_steps p"
  | su where "get_str v ''event'' = Some ''step_update''" "json_get v ''step_update'' = Some su"
      "get_str su ''step_type'' = Some ''tool''" "agy_feed S v p = agy_handle_tool S su p"
proof (cases "get_str v ''event'' = Some ''step_update'' \<and> Option.bind (json_get v ''step_update'') (\<lambda>su. get_str su ''step_type'') = Some ''tool''")
  case True
  then obtain su where "get_str v ''event'' = Some ''step_update''" "json_get v ''step_update'' = Some su"
    "get_str su ''step_type'' = Some ''tool''" by (auto simp: bind_eq_Some_conv)
  then show thesis by (intro that(2)[of su]) (simp_all add: agy_feed_def agy_handle_step_def)
next
  case False
  have "ag_tool_calls (agy_on_result r p) = ag_tool_calls p" "ag_open_steps (agy_on_result r p) = ag_open_steps p" for r
    by (simp_all add: agy_on_result_def Let_def split: option.split)
  moreover have "ag_tool_calls (agy_handle_step S su p) = ag_tool_calls p" "ag_open_steps (agy_handle_step S su p) = ag_open_steps p"
    if "get_str su ''step_type'' \<noteq> Some ''tool''" for su
    using that by (simp_all add: agy_handle_step_def Let_def split: option.split)
  ultimately show thesis using False
    by (intro that(1)) (cases "json_get v ''step_update''"; simp add: agy_feed_def Let_def split: option.split)+
qed

definition agy_identity :: "ToolCallRecord \<Rightarrow> string option \<times> string" where
  "agy_identity r = (tc_id r, tool r)"

definition agy_opens :: "json \<Rightarrow> string option \<times> string \<Rightarrow> bool" where
  "agy_opens v i \<longleftrightarrow>
     get_str v ''event'' = Some ''step_update'' \<and>
     (\<exists>su. json_get v ''step_update'' = Some su \<and> get_str su ''step_type'' = Some ''tool''
        \<and> i = (Some (show_int (step_index su)), step_name su))"

text \<open>A report that ends the step of a call, well or in error, and its output.\<close>

definition agy_reports :: "bool \<Rightarrow> json \<Rightarrow> ToolCallRecord \<Rightarrow> bool" where
  "agy_reports good v r \<longleftrightarrow>
     get_str v ''event'' = Some ''step_update'' \<and>
     (\<exists>su. json_get v ''step_update'' = Some su \<and> get_str su ''step_type'' = Some ''tool''
        \<and> tc_id r = Some (show_int (step_index su)) \<and> (if good then step_done su else step_errored su)
        \<and> shown_output r = step_shown su)"

lemma agy_feed_reports:
  assumes ok: "agy_ok p" and r: "r \<in> set (ag_tool_calls (agy_feed S v p))" and s: "success r = Some good"
  shows "agy_reports good v r \<or> r \<in> set (ag_tool_calls p)"
proof (cases rule: agy_feed_cases[of S v p])
  case (2 su)
  note r' = r[unfolded 2(4)]
  have reports: "agy_reports good v r" if "tc_id r = Some (show_int (step_index su))" "if good then step_done su else step_errored su"
      "shown_output r = step_shown su"
    using 2(1-3) that unfolding agy_reports_def by blast
  from ok show ?thesis
  proof (cases rule: agy_handle_tool_cases[of p su S])
    case new
    from r'[unfolded new(2)] consider "r \<in> set (ag_tool_calls p)" | "r = agy_new_record S su" by auto
    then show ?thesis
    proof cases
      case 2
      with s have "if good then step_done su else step_errored su" by (auto simp: agy_new_record_def split: if_split_asm)
      with 2 show ?thesis by (intro disjI1 reports) (simp_all add: agy_new_record_def)
    qed simp
  next
    case (known pos c)
    from subsetD[OF set_update_subset_insert r'[unfolded known(7)]]
    consider "r \<in> set (ag_tool_calls p)" | "r = agy_step_record S su (ag_tool_calls p ! c)" by blast
    then show ?thesis
    proof cases
      case 2
      with s known(6) have "if good then step_done su else step_errored su" by (auto split: if_split_asm)
      with 2 known(5) show ?thesis by (intro disjI1 reports) (auto split: if_split_asm)
    qed simp
  qed
qed (use r in simp)

interpretation agy: tool_stream "agy_feed S" ag_tool_calls agy_ok agy_new agy_identity agy_opens "agy_reports True"
  for S
proof
  show "agy_ok agy_new" "ag_tool_calls agy_new = []" by (simp_all add: agy_ok_def agy_new_def)
next
  fix p v
  assume ok: "agy_ok p"
  show "agy_ok (agy_feed S v p)"
  proof (cases rule: agy_feed_cases[of S v p])
    case 1
    with ok show ?thesis by (simp add: agy_ok_def)
  next
    case (2 su)
    show ?thesis unfolding 2(4) by (rule agy_handle_tool_ok[OF ok])
  qed
next
  fix p v r
  assume ok: "agy_ok p" and r: "r \<in> set (ag_tool_calls (agy_feed S v p))"
  show "agy_opens v (agy_identity r) \<or> agy_identity r \<in> agy_identity ` set (ag_tool_calls p)"
  proof (cases rule: agy_feed_cases[of S v p])
    case (2 su)
    note r' = r[unfolded 2(4)]
    from ok show ?thesis
    proof (cases rule: agy_handle_tool_cases[of p su S])
      case new
      have "agy_identity (agy_new_record S su) = (Some (show_int (step_index su)), step_name su)"
        by (simp add: agy_identity_def agy_new_record_def)
      with 2(1-3) have "agy_opens v (agy_identity (agy_new_record S su))" unfolding agy_opens_def by blast
      moreover from r'[unfolded new(2)] have "r \<in> set (ag_tool_calls p) \<or> r = agy_new_record S su" by (simp add: disj_commute)
      ultimately show ?thesis by blast
    next
      case (known pos c)
      have "map agy_identity (ag_tool_calls (agy_handle_tool S su p)) = map agy_identity (ag_tool_calls p)"
        using known(4) unfolding known(7) map_update by (simp add: list_update_same_conv agy_identity_def)
      with r' show ?thesis by (metis image_eqI list.set_map)
    qed
  qed (use r in simp)
qed (rule agy_feed_reports)

definition agy_lines :: "serde \<Rightarrow> string list \<Rightarrow> agy_parser" where
  "agy_lines S ls = fold (agy_parse_line S) ls agy_new"

lemma agy_lines_run: "agy_lines S ls = agy.run S (trimmed_values S ls)"
  unfolding agy_lines_def agy.run_def fold_trimmed_values agy_parse_line_def Let_def ..

text \<open>C28: Whatever agy prints, the positions kept for open steps stay in range, so the parser never indexes out of its
  calls. Every call of the result, whatever its outcome, was opened by a printed report of a tool step with its index and
  name; and one that is recorded as a success or as an error has among the printed events, no earlier than the report
  that opened it, a report of its step as done or as an error, from which its output was taken.\<close>

theorem agy_calls_have_reports:
  "list_all (\<lambda>(i, c). c < length (ag_tool_calls (agy_lines S ls))) (ag_open_steps (agy_lines S ls))
   \<and> list_all (\<lambda>r. list_ex (\<lambda>u. agy_opens u (agy_identity r)) (trimmed_values S ls)
        \<and> (case success r of
             None \<Rightarrow> True
           | Some good \<Rightarrow> \<exists>vs1 v vs2. trimmed_values S ls = vs1 @ v # vs2 \<and> agy_reports good v r
                            \<and> list_ex (\<lambda>u. agy_opens u (agy_identity r)) (vs1 @ [v])))
       (tool_calls (agy_finish (agy_lines S ls)))"
proof
  have "agy_ok (agy_lines S ls)" unfolding agy_lines_run by (rule agy.run_ok)
  then show "list_all (\<lambda>(i, c). c < length (ag_tool_calls (agy_lines S ls))) (ag_open_steps (agy_lines S ls))"
    by (auto simp: agy_ok_def list_all_iff awaiting_def)
  have calls: "tool_calls (agy_finish (agy_lines S ls)) = ag_tool_calls (agy.run S (trimmed_values S ls))"
    by (simp add: agy_finish_def agy_lines_run)
  have "\<exists>vs1 v vs2. trimmed_values S ls = vs1 @ v # vs2 \<and> agy_reports good v r
      \<and> list_ex (\<lambda>u. agy_opens u (agy_identity r)) (vs1 @ [v])"
    if "r \<in> set (ag_tool_calls (agy.run S (trimmed_values S ls)))" "success r = Some good" for r good
    using agy.run_traced[where P = "\<lambda>r. success r = Some good" and X = "agy_reports good", OF agy_feed_reports that]
    by (simp only: list_ex_iff)
  then show "list_all (\<lambda>r. list_ex (\<lambda>u. agy_opens u (agy_identity r)) (trimmed_values S ls)
        \<and> (case success r of
             None \<Rightarrow> True
           | Some good \<Rightarrow> \<exists>vs1 v vs2. trimmed_values S ls = vs1 @ v # vs2 \<and> agy_reports good v r
                            \<and> list_ex (\<lambda>u. agy_opens u (agy_identity r)) (vs1 @ [v])))
       (tool_calls (agy_finish (agy_lines S ls)))"
    unfolding calls list_all_iff using agy.run_opened by (auto simp: list_ex_iff split: option.split)
qed

end
