(* ===== verification/Seat_Streams.thy ===== *)
theory Seat_Streams
  imports Stream_Types
begin

text \<open>
  The parsers of the newer seats: \<open>agent-adapter/src/qwen.rs\<close>, \<open>kimi.rs\<close> and \<open>mistral.rs\<close>, with the parser that a runner
  picks by the name of the seat (\<open>NewSeatParser\<close> in \<open>triumvirate/src/agent_exec.rs\<close>). The entries of a JSON object are in
  the order in which the code walks over them.

  Shown here: when each of the three parsers reports a success; that a successful call has its evidence in the stream;
  and that mistral's results, which are read from a journal, are paired with its calls by position only.
\<close>

subsection \<open>Qwen\<close>

definition QWEN_MODE :: string where
  "QWEN_MODE = ''qwen-stream-json''"

record ResultLine =
  rl_subtype :: "string option"
  rl_is_error :: bool
  rl_text :: "string option"
  rl_usage :: "TokenUsage option"

record qwen_parser =
  qw_recognized :: bool
  qw_session_id :: "string option"
  qw_served_model :: "string option"
  qw_text_parts :: "string list"
  qw_tool_calls :: "ToolCallRecord list"
  qw_events :: "WorkingStateEvent list"
  qw_last_assistant_usage :: "TokenUsage option"
  qw_result :: "ResultLine option"

definition qwen_new :: qwen_parser where
  "qwen_new = \<lparr>qw_recognized = False, qw_session_id = None, qw_served_model = None, qw_text_parts = [],
     qw_tool_calls = [], qw_events = [], qw_last_assistant_usage = None, qw_result = None\<rparr>"

definition qwen_event :: "WorkingState \<Rightarrow> string \<Rightarrow> string option \<Rightarrow> string option \<Rightarrow> WorkingStateEvent" where
  "qwen_event st detail t args = working ''qwen'' st detail t args None"

definition qwen_tool_kind :: "string \<Rightarrow> ToolKind" where
  "qwen_tool_kind name =
     (if name = ''read_file'' then ReadFile
      else if name = ''write_file'' then WriteFile
      else if name = ''edit'' then EditFile
      else if name \<in> {''run_shell_command'', ''exec''} then Bash
      else if name = ''grep_search'' then Grep
      else if name = ''glob'' then Glob
      else UnknownTool)"

definition qwen_usage_from :: "json \<Rightarrow> TokenUsage option" where
  "qwen_usage_from u =
     (let i = get_u64 u ''input_tokens''; out = get_u64 u ''output_tokens'';
          c = get_u64 u ''cache_read_input_tokens''; t = get_u64 u ''total_tokens''
      in if i = None \<and> out = None \<and> c = None \<and> t = None then None
         else Some (no_usage\<lparr>input_tokens := i, output_tokens := out, cached_tokens := c, total_tokens := t\<rparr>))"

text \<open>The maximal runs of digits, as \<open>split(non-digit).filter(non-empty)\<close> finds them.\<close>

definition digit_groups :: "string \<Rightarrow> string list" where
  "digit_groups s = filter (\<lambda>g. g \<noteq> []) (split_char (CHR '' '') (map (\<lambda>c. if is_ascii_digit c then c else CHR '' '') s))"

definition qwen_notice :: "string \<Rightarrow> (nat \<times> nat) option" where
  "qwen_notice t =
     (case find_sub t ''Showing lines '' of
        None \<Rightarrow> None
      | Some i \<Rightarrow>
          (case digit_groups (drop (i + length ''Showing lines '') t) of
             a # b # _ \<Rightarrow>
               (case (parse_uint 64 a, parse_uint 64 b) of
                  (Some m, Some n) \<Rightarrow> if 1 \<le> m \<and> m \<le> n then Some (m, n) else None
                | _ \<Rightarrow> None)
           | _ \<Rightarrow> None))"

definition qwen_returned_lines :: "serde \<Rightarrow> string option \<Rightarrow> string \<Rightarrow> (nat \<times> nat) list" where
  "qwen_returned_lines S args t =
     (case qwen_notice t of
        Some run \<Rightarrow> [run]
      | None \<Rightarrow>
          (let count = length (lines t);
               offset = (case Option.bind args (\<lambda>a. Option.bind (sj_from_str S a) (\<lambda>v. Option.bind (json_get v ''offset'') as_u64)) of
                           Some n \<Rightarrow> n | None \<Rightarrow> 0)
           in if count = 0 then [] else [(wrap64 (offset + 1), wrap64 (offset + count))]))"

definition qwen_note_session :: "json \<Rightarrow> qwen_parser \<Rightarrow> qwen_parser" where
  "qwen_note_session v p =
     (case get_str v ''session_id'' of
        Some i \<Rightarrow> if qw_session_id p = None \<and> i \<noteq> [] then p\<lparr>qw_session_id := Some i\<rparr> else p
      | None \<Rightarrow> p)"

definition qwen_on_system :: "json \<Rightarrow> qwen_parser \<Rightarrow> WorkingStateEvent option \<times> qwen_parser" where
  "qwen_on_system v p =
     (let p1 = p\<lparr>qw_recognized := True\<rparr>
      in if get_str v ''subtype'' \<in> {Some ''session_start'', Some ''init''}
         then (Some (qwen_event TurnStarted ''session started'' None None), qwen_note_session v p1)
         else (None, p1))"

definition qwen_called :: "serde \<Rightarrow> json \<Rightarrow> ToolCallRecord" where
  "qwen_called S b =
     (let name = str_or ''unknown'' (get_str b ''name'')
      in opened_call (get_str b ''id'') name (qwen_tool_kind name) (map_option (sj_to_string S) (json_get b ''input'')))"

definition qwen_assistant_block ::
  "serde \<Rightarrow> json \<Rightarrow> WorkingStateEvent option \<times> qwen_parser \<Rightarrow> WorkingStateEvent option \<times> qwen_parser"
where
  "qwen_assistant_block S b = (\<lambda>(seen, p).
     if get_str b ''type'' = Some ''text'' then
       (case get_str b ''text'' of
          Some t \<Rightarrow>
            if t = [] then (seen, p)
            else let e = qwen_event MessageDelta t None None
                 in (Some e, p\<lparr>qw_text_parts := qw_text_parts p @ [t], qw_events := qw_events p @ [e]\<rparr>)
        | None \<Rightarrow> (seen, p))
     else if get_str b ''type'' = Some ''tool_use'' then
       (let r = qwen_called S b; e = qwen_event ToolCallStarted (tool r) (Some (tool r)) (args_json r)
        in (Some e, p\<lparr>qw_tool_calls := qw_tool_calls p @ [r], qw_events := qw_events p @ [e]\<rparr>))
     else (seen, p))"

definition qwen_note_message :: "json \<Rightarrow> qwen_parser \<Rightarrow> qwen_parser" where
  "qwen_note_message m p1 =
     (let p2 = (case get_str m ''model'' of Some x \<Rightarrow> if x = [] then p1 else p1\<lparr>qw_served_model := Some x\<rparr> | None \<Rightarrow> p1)
      in case Option.bind (json_get m ''usage'') qwen_usage_from of
           Some u \<Rightarrow> p2\<lparr>qw_last_assistant_usage := Some u\<rparr> | None \<Rightarrow> p2)"

definition qwen_on_assistant :: "serde \<Rightarrow> json \<Rightarrow> qwen_parser \<Rightarrow> WorkingStateEvent option \<times> qwen_parser" where
  "qwen_on_assistant S v p =
     (let p1 = p\<lparr>qw_recognized := True\<rparr>
      in case json_get v ''message'' of
           None \<Rightarrow> (None, p1)
         | Some m \<Rightarrow>
             fold (qwen_assistant_block S) (case get_array m ''content'' of Some bs \<Rightarrow> bs | None \<Rightarrow> [])
               (None, qwen_note_message m p1))"

definition qwen_failed :: "json \<Rightarrow> bool" where
  "qwen_failed b = (Option.bind (json_get b ''is_error'') as_bool = Some True)"

definition qwen_result_of :: "serde \<Rightarrow> json \<Rightarrow> ToolCallRecord \<Rightarrow> ToolCallRecord" where
  "qwen_result_of S b r =
     (let r1 = r\<lparr>success := Some (\<not> qwen_failed b)\<rparr>
      in if \<not> qwen_failed b \<and> tool r = ''read_file''
         then r1\<lparr>returned_lines := qwen_returned_lines S (args_json r) (str_or [] (get_str b ''content''))\<rparr> else r1)"

definition qwen_user_block ::
  "serde \<Rightarrow> json \<Rightarrow> WorkingStateEvent option \<times> qwen_parser \<Rightarrow> WorkingStateEvent option \<times> qwen_parser"
where
  "qwen_user_block S b = (\<lambda>(seen, p).
     if get_str b ''type'' \<noteq> Some ''tool_result'' then (seen, p)
     else case get_str b ''tool_use_id'' of
         None \<Rightarrow> (seen, p)
       | Some i \<Rightarrow>
           (case find (\<lambda>r. tc_id r = Some i) (rev (qw_tool_calls p)) of
              None \<Rightarrow> (seen, p)
            | Some r \<Rightarrow>
                (let e = qwen_event ToolCallCompleted (tool r) (Some (tool r)) (args_json r)
                 in (Some e, p\<lparr>qw_tool_calls := update_last (\<lambda>r. tc_id r = Some i) (qwen_result_of S b) (qw_tool_calls p),
                               qw_events := qw_events p @ [e]\<rparr>))))"

definition qwen_user_blocks :: "json \<Rightarrow> json list" where
  "qwen_user_blocks v = (case Option.bind (json_get v ''message'') (\<lambda>m. get_array m ''content'') of Some bs \<Rightarrow> bs | None \<Rightarrow> [])"

definition qwen_on_user :: "serde \<Rightarrow> json \<Rightarrow> qwen_parser \<Rightarrow> WorkingStateEvent option \<times> qwen_parser" where
  "qwen_on_user S v p = fold (qwen_user_block S) (qwen_user_blocks v) (None, p\<lparr>qw_recognized := True\<rparr>)"

definition qwen_on_result :: "json \<Rightarrow> qwen_parser \<Rightarrow> WorkingStateEvent option \<times> qwen_parser" where
  "qwen_on_result v p =
     (let usage = map_option (\<lambda>u. case get_u64 v ''duration_ms'' of Some ms \<Rightarrow> u\<lparr>latency_ms := Some ms\<rparr> | None \<Rightarrow> u)
                    (Option.bind (json_get v ''usage'') qwen_usage_from)
      in (Some (qwen_event TurnCompleted (str_or ''result'' (get_str v ''subtype'')) None None),
          p\<lparr>qw_recognized := True,
            qw_result := Some \<lparr>rl_subtype = get_str v ''subtype'', rl_is_error = qwen_failed v,
                                rl_text = get_str v ''result'', rl_usage = usage\<rparr>\<rparr>))"

definition qwen_parse_value :: "serde \<Rightarrow> json \<Rightarrow> qwen_parser \<Rightarrow> WorkingStateEvent option \<times> qwen_parser" where
  "qwen_parse_value S v p =
     (let t = get_str v ''type'';
          keep = (\<lambda>(e, q). (e, case e of Some x \<Rightarrow> q\<lparr>qw_events := qw_events q @ [x]\<rparr> | None \<Rightarrow> q))
      in if t = Some ''system'' then keep (qwen_on_system v p)
         else if t = Some ''assistant'' then qwen_on_assistant S v p
         else if t = Some ''user'' then qwen_on_user S v p
         else if t = Some ''result'' then keep (qwen_on_result v p)
         else (None, p))"

definition qwen_parse_line :: "serde \<Rightarrow> string \<Rightarrow> qwen_parser \<Rightarrow> WorkingStateEvent option \<times> qwen_parser" where
  "qwen_parse_line S l p =
     (let line = trim l
      in if line = [] then (None, p)
         else case sj_from_str S line of None \<Rightarrow> (None, p) | Some v \<Rightarrow> qwen_parse_value S v p)"

definition qwen_outcome :: "qwen_parser \<Rightarrow> int option \<Rightarrow> SeatOutcome" where
  "qwen_outcome p exit_code =
     (case exit_code of
        None \<Rightarrow> Failure ''no_exit_code:qwen''
      | Some code \<Rightarrow>
          if code = 0 then
            (if \<not> qw_recognized p then Failure ''empty_or_unrecognized_stream:qwen''
             else case qw_result p of
                 None \<Rightarrow> Failure ''missing_result:qwen''
               | Some r \<Rightarrow>
                   if rl_is_error r \<or> rl_subtype r \<noteq> Some ''success''
                   then Failure (''result_error:qwen: '' @ str_or ''no_subtype'' (rl_subtype r)) else Success)
          else if code = 53 then Partial ''max_session_turns_exceeded:qwen''
          else if code = 55 then Partial ''run_budget_exceeded:qwen''
          else if code = 130 then Failure ''interrupted:qwen: exit 130''
          else Failure (''exit_error:qwen: exit '' @ show_int code))"

definition seat_result ::
  "string \<Rightarrow> string option \<Rightarrow> WorkingStateEvent list \<Rightarrow> ToolCallRecord list \<Rightarrow> TokenUsage option \<Rightarrow> string option \<Rightarrow> string \<Rightarrow> ParsedAgentResult"
where
  "seat_result t sid es calls usage version mode =
     \<lparr>response_text = t, session_id = sid, events = es, tool_calls = calls, token_usage = usage,
      self_reported_cost_usd = None, cli_version = version, parser_mode = mode\<rparr>"

definition qwen_finish :: "qwen_parser \<Rightarrow> int option \<Rightarrow> SeatParsed" where
  "qwen_finish p exit_code =
     (let assistant = join [nl_char] (qw_text_parts p);
          usage = or_else (Option.bind (qw_result p) rl_usage) (qw_last_assistant_usage p)
      in \<lparr>sp_result = seat_result (if assistant = [] then str_or [] (Option.bind (qw_result p) rl_text) else assistant)
            (qw_session_id p) (qw_events p) (qw_tool_calls p) usage None QWEN_MODE,
          sp_outcome = qwen_outcome p exit_code,
          sp_usage = (case usage of Some u \<Rightarrow> Exact u | None \<Rightarrow> NotReported),
          sp_served_model = qw_served_model p\<rparr>)"

subsection \<open>Kimi\<close>

definition KIMI_MODE :: string where
  "KIMI_MODE = ''kimi-stream-json''"

record kimi_parser =
  km_text_chunks :: "string list"
  km_session_id :: "string option"
  km_cli_version :: "string option"
  km_events :: "WorkingStateEvent list"
  km_tool_calls :: "ToolCallRecord list"
  km_last_retry_status :: "u64 option"
  km_recognized_lines :: nat

definition kimi_new :: kimi_parser where
  "kimi_new = \<lparr>km_text_chunks = [], km_session_id = None, km_cli_version = None, km_events = [], km_tool_calls = [],
     km_last_retry_status = None, km_recognized_lines = 0\<rparr>"

definition kimi_event :: "WorkingState \<Rightarrow> string \<Rightarrow> WorkingStateEvent" where
  "kimi_event st detail = working ''kimi'' st detail None None None"

definition kimi_tool_kind :: "string \<Rightarrow> ToolKind" where
  "kimi_tool_kind name =
     (if name = ''Read'' then ReadFile
      else if name = ''Write'' then WriteFile
      else if name = ''Edit'' then EditFile
      else if name = ''Bash'' then Bash
      else if name = ''Grep'' then Grep
      else if name = ''Glob'' then Glob
      else if name = ''AskUserQuestion'' then RequestUserInput
      else UnknownTool)"

definition kimi_recognize :: "kimi_parser \<Rightarrow> kimi_parser" where
  "kimi_recognize p = p\<lparr>km_recognized_lines := km_recognized_lines p + 1\<rparr>"

definition kimi_record :: "WorkingStateEvent \<Rightarrow> kimi_parser \<Rightarrow> kimi_parser" where
  "kimi_record e p = p\<lparr>km_events := km_events p @ [e]\<rparr>"

definition kimi_called :: "serde \<Rightarrow> json \<Rightarrow> ToolCallRecord" where
  "kimi_called S call =
     (let f = json_get call ''function'';
          name = str_or ''unknown'' (Option.bind f (\<lambda>x. get_str x ''name''));
          args = Option.bind f (\<lambda>x. Option.bind (json_get x ''arguments'') (\<lambda>a.
                   case a of JString s \<Rightarrow> Some s | JNull \<Rightarrow> None | _ \<Rightarrow> Some (sj_to_string S a)))
      in opened_call (get_str call ''id'') name (kimi_tool_kind name) args)"

definition kimi_call :: "serde \<Rightarrow> json \<Rightarrow> WorkingStateEvent option \<times> kimi_parser \<Rightarrow> WorkingStateEvent option \<times> kimi_parser" where
  "kimi_call S call = (\<lambda>(_, p).
     let r = kimi_called S call;
         e = (kimi_event ToolCallStarted (''calling '' @ tool r))\<lparr>ws_tool_name := Some (tool r), ws_tool_args_json := args_json r\<rparr>
     in (Some e, kimi_record e (p\<lparr>km_tool_calls := km_tool_calls p @ [r]\<rparr>)))"

definition kimi_on_assistant :: "serde \<Rightarrow> json \<Rightarrow> kimi_parser \<Rightarrow> WorkingStateEvent option \<times> kimi_parser" where
  "kimi_on_assistant S v p =
     (let p1 = kimi_recognize p;
          start = (case get_str v ''content'' of
                     Some t \<Rightarrow>
                       if t = [] then (None, p1)
                       else let e = kimi_event MessageDelta t
                            in (Some e, kimi_record e (p1\<lparr>km_text_chunks := km_text_chunks p1 @ [t]\<rparr>))
                   | None \<Rightarrow> (None, p1))
      in fold (kimi_call S) (case get_array v ''tool_calls'' of Some cs \<Rightarrow> cs | None \<Rightarrow> []) start)"

definition kimi_on_tool_result :: "json \<Rightarrow> kimi_parser \<Rightarrow> WorkingStateEvent option \<times> kimi_parser" where
  "kimi_on_tool_result v p =
     (let p1 = kimi_recognize p;
          i = get_str v ''tool_call_id'';
          runs = numbered_line_runs (str_or [] (get_str v ''content''));
          mine = (\<lambda>r. i \<noteq> None \<and> tc_id r = i);
          p2 = (if runs = [] then p1
                else p1\<lparr>km_tool_calls := update_first mine (\<lambda>r. r\<lparr>returned_lines := runs, success := Some True\<rparr>) (km_tool_calls p1)\<rparr>);
          e = (case find mine (km_tool_calls p2) of
                 None \<Rightarrow> kimi_event ToolCallCompleted ''tool result''
               | Some r \<Rightarrow> (kimi_event ToolCallCompleted (tool r @ '' returned''))\<lparr>ws_tool_name := Some (tool r), ws_tool_args_json := args_json r\<rparr>)
      in (Some e, kimi_record e p2))"

definition kimi_on_meta :: "serde \<Rightarrow> json \<Rightarrow> kimi_parser \<Rightarrow> WorkingStateEvent option \<times> kimi_parser" where
  "kimi_on_meta S v p =
     (let t = get_str v ''type''
      in if t = Some ''system.version'' then
           (None, (kimi_recognize p)\<lparr>km_cli_version := get_str v ''version''\<rparr>)
         else if t = Some ''turn.step.retrying'' then
           (let status = get_u64 v ''status_code'';
                q = (\<lambda>k. case json_get v k of Some x \<Rightarrow> sj_to_string S x | None \<Rightarrow> ''?'');
                e = kimi_event UnknownState (''retrying step: attempt '' @ q ''next_attempt'' @ '' of '' @ q ''max_attempts''
                      @ '', status '' @ (case status of Some s \<Rightarrow> show_nat (unat s) | None \<Rightarrow> ''none'') @ '', ''
                      @ str_or [] (get_str v ''error_message''))
            in (Some e, kimi_record e ((kimi_recognize p)\<lparr>km_last_retry_status := or_else status (km_last_retry_status p)\<rparr>)))
         else if t = Some ''session.resume_hint'' then
           (None,
            case get_str v ''session_id'' of
              Some i \<Rightarrow> if i = [] then kimi_recognize p else (kimi_recognize p)\<lparr>km_session_id := Some i\<rparr>
            | None \<Rightarrow> kimi_recognize p)
         else (None, p))"

definition kimi_parse_value :: "serde \<Rightarrow> json \<Rightarrow> kimi_parser \<Rightarrow> WorkingStateEvent option \<times> kimi_parser" where
  "kimi_parse_value S v p =
     (let t = get_str v ''role''
      in if t = Some ''assistant'' then kimi_on_assistant S v p
         else if t = Some ''tool'' then kimi_on_tool_result v p
         else if t = Some ''meta'' then kimi_on_meta S v p
         else (None, p))"

definition kimi_parse_line :: "serde \<Rightarrow> string \<Rightarrow> kimi_parser \<Rightarrow> WorkingStateEvent option \<times> kimi_parser" where
  "kimi_parse_line S l p =
     (let line = trim l
      in if line = [] then (None, p)
         else case sj_from_str S line of None \<Rightarrow> (None, p) | Some v \<Rightarrow> kimi_parse_value S v p)"

definition kimi_finish :: "kimi_parser \<Rightarrow> int option \<Rightarrow> SeatParsed" where
  "kimi_finish p exit_code =
     (let t = join [nl_char] (km_text_chunks p);
          retry = (case km_last_retry_status p of Some s \<Rightarrow> '' last_retry_status='' @ show_nat (unat s) | None \<Rightarrow> [])
      in \<lparr>sp_result = seat_result t (km_session_id p) (km_events p) (km_tool_calls p) None (km_cli_version p) KIMI_MODE,
          sp_outcome =
            (case exit_code of
               None \<Rightarrow> Failure (''no_exit_code:kimi'' @ retry)
             | Some code \<Rightarrow>
                 if code = 0 then
                   (if km_recognized_lines p > 0 \<and> t \<noteq> [] then Success else Failure ''empty_or_unrecognized_stream:kimi'')
                 else Failure (''nonzero_exit:kimi:'' @ show_int code @ retry)),
          sp_usage = NotReported, sp_served_model = None\<rparr>)"

subsection \<open>Mistral\<close>

definition MISTRAL_MODE :: string where
  "MISTRAL_MODE = ''mistral-streaming''"

definition PARTIAL_OUTCOMES :: "string list" where
  "PARTIAL_OUTCOMES = [''turn_limit'', ''token_limit'', ''price_limit'', ''deadline'', ''terminated'', ''length'', ''refusal'']"

record mistral_parser =
  ms_texts :: "string list"
  ms_tool_calls :: "ToolCallRecord list"
  ms_events :: "WorkingStateEvent list"

definition mistral_new :: mistral_parser where
  "mistral_new = \<lparr>ms_texts = [], ms_tool_calls = [], ms_events = []\<rparr>"

definition mistral_tool_kind :: "string \<Rightarrow> string option \<Rightarrow> ToolKind" where
  "mistral_tool_kind t k =
     (if t = ''read_file'' then ReadFile
      else if t = ''grep'' then Grep
      else if t = ''write_file'' then WriteFile
      else if t = ''edit'' then EditFile
      else if t \<in> {''bash'', ''git_bash'', ''experimental_bash'', ''windows_shell''} then Bash
      else if t = ''ask_user_question'' then RequestUserInput
      else if k = Some ''file_read'' then ReadFile
      else if k = Some ''shell'' then Bash
      else UnknownTool)"

definition mistral_event :: "WorkingState \<Rightarrow> string \<Rightarrow> string option \<Rightarrow> string option \<Rightarrow> WorkingStateEvent" where
  "mistral_event st detail t args = working ''mistral'' st detail t args None"

definition mistral_message :: "json \<Rightarrow> mistral_parser \<Rightarrow> WorkingStateEvent option \<times> mistral_parser" where
  "mistral_message v p =
     (if get_str v ''role'' \<noteq> Some ''assistant'' then (None, p)
      else case get_array v ''content'' of
          None \<Rightarrow> (None, p)
        | Some bs \<Rightarrow>
            (let t = concat (List.map_filter (\<lambda>b. get_str b ''text'') (filter (\<lambda>b. get_str b ''type'' = Some ''text'') bs))
             in if t = [] then (None, p)
                else (Some (mistral_event MessageDelta t None None), p\<lparr>ms_texts := ms_texts p @ [t]\<rparr>)))"

definition mistral_detail :: "json \<Rightarrow> string \<Rightarrow> json option" where
  "mistral_detail v k = Option.bind (json_get v ''detail'') (\<lambda>d. json_get d k)"

definition mistral_tool_name :: "json \<Rightarrow> string option" where
  "mistral_tool_name v =
     or_else (Option.bind (or_else (mistral_detail v ''toolName'') (mistral_detail v ''tool_name'')) as_str) (get_str v ''title'')"

text \<open>An explicit failure wins over what the display says.\<close>

definition mistral_success :: "json \<Rightarrow> bool option" where
  "mistral_success v =
     (let state = json_get v ''state'';
          status = Option.bind state (\<lambda>s. get_str s ''status'');
          display = Option.bind state (\<lambda>s. Option.bind (json_get s ''display'') (\<lambda>d. Option.bind (json_get d ''success'') as_bool))
      in if status \<in> {Some ''failed'', Some ''error'', Some ''rejected''} then Some False
         else or_else display (if status = Some ''completed'' then Some True else None))"

definition mistral_record :: "serde \<Rightarrow> json \<Rightarrow> string \<Rightarrow> ToolCallRecord" where
  "mistral_record S v t =
     (opened_call (get_str v ''id'') t (mistral_tool_kind t (Option.bind (mistral_detail v ''kind'') as_str))
        (map_option (sj_to_string S) (mistral_detail v ''input'')))\<lparr>success := mistral_success v\<rparr>"

definition mistral_effect :: "serde \<Rightarrow> json \<Rightarrow> mistral_parser \<Rightarrow> WorkingStateEvent option \<times> mistral_parser" where
  "mistral_effect S v p =
     (case mistral_tool_name v of
        None \<Rightarrow> (None, p)
      | Some t \<Rightarrow>
          (let r = mistral_record S v t;
               same = (\<lambda>x. tc_id r \<noteq> None \<and> tc_id x = tc_id r)
           in (Some (mistral_event ToolCallCompleted t (Some t) (args_json r)),
               p\<lparr>ms_tool_calls := (if list_ex same (ms_tool_calls p) then update_first same (\<lambda>_. r) (ms_tool_calls p)
                                   else ms_tool_calls p @ [r])\<rparr>)))"

definition mistral_parse_value :: "serde \<Rightarrow> json \<Rightarrow> mistral_parser \<Rightarrow> WorkingStateEvent option \<times> mistral_parser" where
  "mistral_parse_value S v p =
     (if get_str v ''generationStatus'' \<notin> {None, Some ''completed''} then (None, p)
      else
        (case (if get_str v ''type'' = Some ''message'' then mistral_message v p
               else if get_str v ''type'' = Some ''effect'' then mistral_effect S v p
               else (None, p)) of
           (e, q) \<Rightarrow> (e, case e of Some x \<Rightarrow> q\<lparr>ms_events := ms_events q @ [x]\<rparr> | None \<Rightarrow> q)))"

definition mistral_parse_line :: "serde \<Rightarrow> string \<Rightarrow> mistral_parser \<Rightarrow> WorkingStateEvent option \<times> mistral_parser" where
  "mistral_parse_line S l p =
     (let line = trim l
      in if line = [] then (None, p)
         else case sj_from_str S line of None \<Rightarrow> (None, p) | Some v \<Rightarrow> mistral_parse_value S v p)"

text \<open>The messages with tool results in a line of the journal, outermost first.\<close>

primrec journal_walk :: "json \<Rightarrow> json list" where
  "journal_walk JNull = []"
| "journal_walk (JBool b) = []"
| "journal_walk (JNumber n) = []"
| "journal_walk (JString s) = []"
| "journal_walk (JArray xs) = concat (map journal_walk xs)"
| "journal_walk (JObject kvs) =
     (if get_str (JObject kvs) ''role'' = Some ''tool'' \<and> json_get (JObject kvs) ''tool_call_id'' \<noteq> None
      then [JObject kvs] else concat (map snd (map (map_prod id journal_walk) kvs)))"

definition journal_read :: "serde \<Rightarrow> json \<Rightarrow> bool \<times> (nat \<times> nat) list" where
  "journal_read S m =
     (let good = (get_str m ''outcome'' = Some ''success'');
          body = Option.bind (get_array m ''content'') (\<lambda>c.
                   case List.map_filter (\<lambda>b. get_str b ''text'') c of [] \<Rightarrow> None | t # _ \<Rightarrow> sj_from_str S t);
          runs = (case body of
                    None \<Rightarrow> []
                  | Some b \<Rightarrow>
                      (case Option.bind (json_get b ''lines_read'') as_u64 of
                         None \<Rightarrow> []
                       | Some n \<Rightarrow>
                           (let offset = (case Option.bind (json_get b ''offset'') as_u64 of Some k \<Rightarrow> k | None \<Rightarrow> 0)
                            in if n > 0 then [(wrap64 (offset + 1), wrap64 (offset + n))] else [])))
      in (good, if good then runs else []))"

definition journal_message ::
  "serde \<Rightarrow> json \<Rightarrow> string list \<times> (bool \<times> (nat \<times> nat) list) list \<Rightarrow> string list \<times> (bool \<times> (nat \<times> nat) list) list"
where
  "journal_message S m = (\<lambda>(seen, reads).
     let i = str_or [] (get_str m ''tool_call_id'')
     in if i = [] \<or> i \<in> set seen then (seen, reads)
        else if get_str m ''name'' \<noteq> Some ''read_file'' then (seen @ [i], reads)
        else (seen @ [i], reads @ [journal_read S m]))"

definition journal_reads :: "serde \<Rightarrow> string \<Rightarrow> (bool \<times> (nat \<times> nat) list) list" where
  "journal_reads S journal =
     snd (fold (journal_message S) (concat (map journal_walk (stream_values S (lines journal)))) ([], []))"

text \<open>The results are dealt out to the file reads in order.\<close>

fun deal_reads :: "(bool \<times> (nat \<times> nat) list) list \<Rightarrow> ToolCallRecord list \<Rightarrow> ToolCallRecord list" where
  "deal_reads [] calls = calls"
| "deal_reads reads [] = []"
| "deal_reads ((good, runs) # reads) (r # calls) =
     (if kind r = ReadFile then r\<lparr>success := Some good, returned_lines := runs\<rparr> # deal_reads reads calls
      else r # deal_reads ((good, runs) # reads) calls)"

definition ingest_journal :: "serde \<Rightarrow> string \<Rightarrow> mistral_parser \<Rightarrow> mistral_parser" where
  "ingest_journal S journal p = p\<lparr>ms_tool_calls := deal_reads (journal_reads S journal) (ms_tool_calls p)\<rparr>"

definition mistral_classify :: "json \<Rightarrow> int option \<Rightarrow> string \<Rightarrow> bool \<Rightarrow> SeatOutcome" where
  "mistral_classify export exit_code exit blank =
     (let s = get_str export;
          err = str_or [] (Option.bind (json_get export ''error'') (\<lambda>e. get_str e ''message''));
          fail = (\<lambda>code. Failure (trim_end_matches is_whitespace (code @ '':mistral: exit '' @ exit @ '' '' @ err)));
          none = Failure ''empty_or_unrecognized_stream:mistral'';
          by_exit = (case exit_code of
                       None \<Rightarrow> fail ''unexpected_exit''
                     | Some c \<Rightarrow>
                         if c = 0 then (if blank then none else Success)
                         else if c = 1 then fail ''usage_or_config_error''
                         else if c = 2 then fail ''infrastructure_failure''
                         else if c = 3 then Partial ''limit''
                         else if c = 4 then fail ''aborted''
                         else fail ''unexpected_exit'')
      in case s ''outcome'' of
           None \<Rightarrow> by_exit
         | Some x \<Rightarrow>
             if x = ''finished'' then
               (if exit_code = Some 0 then (if blank then none else Success) else fail ''exit_outcome_mismatch'')
             else if x \<in> set PARTIAL_OUTCOMES then
               (case s ''stop_reason'' of
                  Some r \<Rightarrow> if r = [] then Partial x else Partial (x @ '': '' @ r)
                | None \<Rightarrow> Partial x)
             else if x \<in> {''infrastructure_failure'', ''usage_error'', ''config_error'', ''aborted''} then fail x
             else by_exit)"

definition mistral_usage :: "json \<Rightarrow> TokenUsage option" where
  "mistral_usage export =
     (case json_get export ''usage'' of
        Some (JObject kvs) \<Rightarrow>
          (let u = JObject kvs; i = get_u64 u ''input_tokens''; out = get_u64 u ''output_tokens''; t = get_u64 u ''total_tokens''
           in if i = None \<and> out = None \<and> t = None then None
              else Some (no_usage\<lparr>input_tokens := i, output_tokens := out,
                                  cached_tokens := get_u64 u ''cached_input_tokens'', total_tokens := t\<rparr>))
      | _ \<Rightarrow> None)"

definition mistral_finish :: "serde \<Rightarrow> mistral_parser \<Rightarrow> int option \<Rightarrow> string option \<Rightarrow> SeatParsed" where
  "mistral_finish S p exit_code export_json =
     (let t = join [nl_char] (ms_texts p);
          exit = (case exit_code of Some c \<Rightarrow> show_int c | None \<Rightarrow> ''none'');
          bare = seat_result t None (ms_events p) (ms_tool_calls p) None None MISTRAL_MODE;
          failed = (\<lambda>code. \<lparr>sp_result = bare, sp_outcome = Failure (code @ '':mistral: exit '' @ exit),
                            sp_usage = NotReported, sp_served_model = None\<rparr>)
      in case export_json of
           None \<Rightarrow> failed ''missing_export''
         | Some raw \<Rightarrow>
             (case sj_from_str S raw of
                Some (JObject kvs) \<Rightarrow>
                  (let export = JObject kvs; usage = mistral_usage export
                   in \<lparr>sp_result =
                         bare\<lparr>session_id := (case get_str export ''session_id'' of Some i \<Rightarrow> if i = [] then None else Some i | None \<Rightarrow> None),
                              self_reported_cost_usd := Option.bind (json_get export ''cost_usd'') (as_f64 S),
                              cli_version := get_str export ''vibe_version'', token_usage := usage\<rparr>,
                       sp_outcome = mistral_classify export exit_code exit (t = []),
                       sp_usage = (case usage of Some u \<Rightarrow> Exact u | None \<Rightarrow> NotReported),
                       sp_served_model = None\<rparr>)
              | _ \<Rightarrow> failed ''malformed_export''))"

subsection \<open>The parser of a seat\<close>

datatype NewSeatParser = Kimi kimi_parser | Mistral mistral_parser | Qwen qwen_parser

definition parser_for_seat :: "string \<Rightarrow> NewSeatParser option" where
  "parser_for_seat seat =
     (if seat = ''kimi'' then Some (Kimi kimi_new)
      else if seat = ''mistral'' then Some (Mistral mistral_new)
      else if seat = ''qwen'' then Some (Qwen qwen_new)
      else None)"

fun seat_parse_line :: "serde \<Rightarrow> string \<Rightarrow> NewSeatParser \<Rightarrow> WorkingStateEvent option \<times> NewSeatParser" where
  "seat_parse_line S l (Kimi p) = map_prod id Kimi (kimi_parse_line S l p)"
| "seat_parse_line S l (Mistral p) = map_prod id Mistral (mistral_parse_line S l p)"
| "seat_parse_line S l (Qwen p) = map_prod id Qwen (qwen_parse_line S l p)"

text \<open>\<open>journal_files\<close> are the texts of the readable journal files in name order, \<open>export\<close> is \<open>export.json\<close> if it can be read.\<close>

fun seat_finish :: "serde \<Rightarrow> string list \<Rightarrow> string option \<Rightarrow> int option \<Rightarrow> NewSeatParser \<Rightarrow> SeatParsed" where
  "seat_finish S journal_files export exit_code (Kimi p) = kimi_finish p exit_code"
| "seat_finish S journal_files export exit_code (Mistral p) =
     mistral_finish S (ingest_journal S (join [nl_char] journal_files) p) exit_code export"
| "seat_finish S journal_files export exit_code (Qwen p) = qwen_finish p exit_code"

subsection \<open>Evidence of a call\<close>

definition seat_identity :: "ToolCallRecord \<Rightarrow> string option \<times> string \<times> ToolKind \<times> string option" where
  "seat_identity r = (tc_id r, tool r, kind r, args_json r)"

definition successes :: "ToolCallRecord list \<Rightarrow> ToolCallRecord set" where
  "successes calls = {r \<in> set calls. success r = Some True}"

abbreviation qwen_feed :: "serde \<Rightarrow> json \<Rightarrow> qwen_parser \<Rightarrow> qwen_parser" where
  "qwen_feed S v p \<equiv> snd (qwen_parse_value S v p)"

definition qwen_opens :: "serde \<Rightarrow> json \<Rightarrow> string option \<times> string \<times> ToolKind \<times> string option \<Rightarrow> bool" where
  "qwen_opens S v i \<longleftrightarrow>
     get_str v ''type'' = Some ''assistant''
     \<and> (\<exists>b \<in> set (qwen_user_blocks v). get_str b ''type'' = Some ''tool_use'' \<and> i = seat_identity (qwen_called S b))"

definition qwen_receipt :: "serde \<Rightarrow> json \<Rightarrow> ToolCallRecord \<Rightarrow> bool" where
  "qwen_receipt S b r \<longleftrightarrow>
     get_str b ''type'' = Some ''tool_result'' \<and> tc_id r \<noteq> None \<and> get_str b ''tool_use_id'' = tc_id r \<and> \<not> qwen_failed b
     \<and> (tool r = ''read_file'' \<longrightarrow> returned_lines r = qwen_returned_lines S (args_json r) (str_or [] (get_str b ''content'')))"

definition qwen_proves :: "serde \<Rightarrow> json \<Rightarrow> ToolCallRecord \<Rightarrow> bool" where
  "qwen_proves S v r \<longleftrightarrow> get_str v ''type'' = Some ''user'' \<and> (\<exists>b \<in> set (qwen_user_blocks v). qwen_receipt S b r)"

lemma qwen_result_of_simps [simp]:
  "success (qwen_result_of S b r) = Some (\<not> qwen_failed b)" "tc_id (qwen_result_of S b r) = tc_id r"
  "tool (qwen_result_of S b r) = tool r" "args_json (qwen_result_of S b r) = args_json r"
  "seat_identity (qwen_result_of S b r) = seat_identity r"
  "\<not> qwen_failed b \<Longrightarrow> tool r = ''read_file'' \<Longrightarrow>
     returned_lines (qwen_result_of S b r) = qwen_returned_lines S (args_json r) (str_or [] (get_str b ''content''))"
  by (simp_all add: qwen_result_of_def seat_identity_def Let_def)

lemma success_qwen_called [simp]: "success (qwen_called S b) = None"
  by (simp add: qwen_called_def opened_call_def Let_def)

lemma qwen_assistant_block_calls:
  "qw_tool_calls (snd (qwen_assistant_block S b x)) =
     qw_tool_calls (snd x) @ (if get_str b ''type'' = Some ''tool_use'' then [qwen_called S b] else [])"
  by (cases x) (simp add: qwen_assistant_block_def Let_def split: option.split)

lemma qwen_user_block_calls:
  "qw_tool_calls (snd (qwen_user_block S b x)) = qw_tool_calls (snd x) \<or>
   (\<exists>i. get_str b ''type'' = Some ''tool_result'' \<and> get_str b ''tool_use_id'' = Some i
      \<and> qw_tool_calls (snd (qwen_user_block S b x)) = update_last (\<lambda>r. tc_id r = Some i) (qwen_result_of S b) (qw_tool_calls (snd x)))"
  by (cases x) (auto simp: qwen_user_block_def Let_def split: option.split)

lemma qwen_assistant_calls:
  assumes "r \<in> set (qw_tool_calls (snd (qwen_on_assistant S v p)))"
  shows "(\<exists>b \<in> set (qwen_user_blocks v). get_str b ''type'' = Some ''tool_use'' \<and> r = qwen_called S b) \<or> r \<in> set (qw_tool_calls p)"
proof (cases "json_get v ''message''")
  case None
  with assms show ?thesis by (simp add: qwen_on_assistant_def)
next
  case (Some m)
  let ?start = "(None :: WorkingStateEvent option, qwen_note_message m (p\<lparr>qw_recognized := True\<rparr>))"
  have f: "qwen_on_assistant S v p = fold (qwen_assistant_block S) (qwen_user_blocks v) ?start"
    using Some by (simp add: qwen_on_assistant_def qwen_user_blocks_def)
  have "(\<exists>b \<in> set (qwen_user_blocks v). get_str b ''type'' = Some ''tool_use'' \<and> r = qwen_called S b) \<or> r \<in> set (qw_tool_calls (snd ?start))"
    by (rule fold_origin[where I = "\<lambda>_. True" and f = "qwen_assistant_block S" and A = "\<lambda>x :: WorkingStateEvent option \<times> qwen_parser. set (qw_tool_calls (snd x))"])
      (use assms f in \<open>auto simp: qwen_assistant_block_calls split: if_split_asm\<close>)
  then show ?thesis by (simp add: qwen_note_message_def Let_def split: option.split_asm if_split_asm)
qed

lemma qwen_user_identity:
  "seat_identity ` set (qw_tool_calls (snd (qwen_on_user S v p))) = seat_identity ` set (qw_tool_calls p)"
proof -
  have b: "map seat_identity (qw_tool_calls (snd (qwen_user_block S b x))) = map seat_identity (qw_tool_calls (snd x))" for b x
    using qwen_user_block_calls[of S b x] map_update_last[of seat_identity "qwen_result_of S b"] by auto
  have "map seat_identity (qw_tool_calls (snd (qwen_on_user S v p))) = map seat_identity (qw_tool_calls p)"
    unfolding qwen_on_user_def by (rule fold_invariant) (simp_all add: b)
  then show ?thesis by (metis list.set_map)
qed

lemma qwen_user_receipt:
  assumes "r \<in> set (qw_tool_calls (snd (qwen_on_user S v p)))" "success r = Some True"
  shows "(\<exists>b \<in> set (qwen_user_blocks v). qwen_receipt S b r) \<or> r \<in> set (qw_tool_calls p)"
proof -
  have step: "qwen_receipt S b r \<or> r \<in> successes (qw_tool_calls (snd x))"
    if r: "r \<in> successes (qw_tool_calls (snd (qwen_user_block S b x)))" for b x r
  proof (cases "qw_tool_calls (snd (qwen_user_block S b x)) = qw_tool_calls (snd x)")
    case False
    then obtain i where i: "get_str b ''type'' = Some ''tool_result''" "get_str b ''tool_use_id'' = Some i"
      "qw_tool_calls (snd (qwen_user_block S b x)) = update_last (\<lambda>r. tc_id r = Some i) (qwen_result_of S b) (qw_tool_calls (snd x))"
      using qwen_user_block_calls by blast
    from r have s: "success r = Some True" by (simp add: successes_def)
    from r i(3) have "r \<in> set (update_last (\<lambda>r. tc_id r = Some i) (qwen_result_of S b) (qw_tool_calls (snd x)))"
      by (simp add: successes_def)
    from in_update_lastD[OF this] show ?thesis
    proof
      assume "\<exists>y \<in> set (qw_tool_calls (snd x)). tc_id y = Some i \<and> r = qwen_result_of S b y"
      then obtain y where y: "tc_id y = Some i" "r = qwen_result_of S b y" by blast
      with s have "\<not> qwen_failed b" by simp
      with y i(1,2) have "qwen_receipt S b r" unfolding qwen_receipt_def by simp
      then show ?thesis ..
    qed (use s in \<open>simp add: successes_def\<close>)
  qed (use r in simp)
  have "(\<exists>b \<in> set (qwen_user_blocks v). qwen_receipt S b r) \<or> r \<in> successes (qw_tool_calls (snd (None :: WorkingStateEvent option, p\<lparr>qw_recognized := True\<rparr>)))"
    by (rule fold_origin[where I = "\<lambda>_. True" and f = "qwen_user_block S" and A = "\<lambda>x :: WorkingStateEvent option \<times> qwen_parser. successes (qw_tool_calls (snd x))"])
      (use assms step in \<open>simp_all add: qwen_on_user_def successes_def\<close>)
  then show ?thesis by (auto simp: successes_def)
qed

lemma qwen_feed_cases:
  obtains "qw_tool_calls (qwen_feed S v p) = qw_tool_calls p"
  | "get_str v ''type'' = Some ''assistant''" "qwen_feed S v p = snd (qwen_on_assistant S v p)"
  | "get_str v ''type'' = Some ''user''" "qwen_feed S v p = snd (qwen_on_user S v p)"
proof (cases "get_str v ''type'' \<in> {Some ''assistant'', Some ''user''}")
  case True
  then show thesis using that(2,3) by (auto simp: qwen_parse_value_def)
next
  case False
  have "qw_tool_calls (snd (qwen_on_system v p)) = qw_tool_calls p" "qw_tool_calls (snd (qwen_on_result v p)) = qw_tool_calls p"
    by (simp_all add: qwen_on_system_def qwen_note_session_def qwen_on_result_def Let_def split: option.split)
  with False show thesis
    by (intro that(1), cases "qwen_on_system v p"; cases "qwen_on_result v p")
      (simp add: qwen_parse_value_def Let_def split: option.split)
qed

interpretation qwen: tool_stream "qwen_feed S" qw_tool_calls "\<lambda>_. True" qwen_new seat_identity "qwen_opens S" "qwen_proves S"
  for S
proof
  fix v p r
  assume r: "r \<in> set (qw_tool_calls (qwen_feed S v p))"
  show "qwen_opens S v (seat_identity r) \<or> seat_identity r \<in> seat_identity ` set (qw_tool_calls p)"
  proof (cases rule: qwen_feed_cases[of S v p])
    case 2
    from qwen_assistant_calls[OF r[unfolded 2(2)]] 2(1) show ?thesis unfolding qwen_opens_def by blast
  next
    case 3
    from r[unfolded 3(2)] show ?thesis using qwen_user_identity by blast
  qed (use r in simp)
  show "qwen_proves S v r \<or> r \<in> set (qw_tool_calls p)" if s: "success r = Some True"
  proof (cases rule: qwen_feed_cases[of S v p])
    case 2
    from qwen_assistant_calls[OF r[unfolded 2(2)]] s show ?thesis by auto
  next
    case 3
    from qwen_user_receipt[OF r[unfolded 3(2)] s] 3(1) show ?thesis unfolding qwen_proves_def by blast
  qed (use r in simp)
qed (simp_all add: qwen_new_def)

abbreviation kimi_feed :: "serde \<Rightarrow> json \<Rightarrow> kimi_parser \<Rightarrow> kimi_parser" where
  "kimi_feed S v p \<equiv> snd (kimi_parse_value S v p)"

definition kimi_calls :: "json \<Rightarrow> json list" where
  "kimi_calls v = (case get_array v ''tool_calls'' of Some cs \<Rightarrow> cs | None \<Rightarrow> [])"

definition kimi_opens :: "serde \<Rightarrow> json \<Rightarrow> string option \<times> string \<times> ToolKind \<times> string option \<Rightarrow> bool" where
  "kimi_opens S v i \<longleftrightarrow>
     get_str v ''role'' = Some ''assistant'' \<and> (\<exists>c \<in> set (kimi_calls v). i = seat_identity (kimi_called S c))"

definition kimi_proves :: "json \<Rightarrow> ToolCallRecord \<Rightarrow> bool" where
  "kimi_proves v r \<longleftrightarrow>
     get_str v ''role'' = Some ''tool'' \<and> tc_id r \<noteq> None \<and> get_str v ''tool_call_id'' = tc_id r
     \<and> returned_lines r = numbered_line_runs (str_or [] (get_str v ''content'')) \<and> returned_lines r \<noteq> []"

lemma success_kimi_called [simp]: "success (kimi_called S c) = None"
  by (simp add: kimi_called_def opened_call_def Let_def)

lemma kimi_frame [simp]:
  "km_tool_calls (kimi_record e p) = km_tool_calls p" "km_tool_calls (kimi_recognize p) = km_tool_calls p"
  by (simp_all add: kimi_record_def kimi_recognize_def)

lemma kimi_fold_calls: "km_tool_calls (snd (fold (kimi_call S) cs x)) = km_tool_calls (snd x) @ map (kimi_called S) cs"
  by (induction cs arbitrary: x) (simp_all add: kimi_call_def Let_def split: prod.split)

lemma kimi_feed_cases:
  obtains "km_tool_calls (kimi_feed S v p) = km_tool_calls p"
  | "get_str v ''role'' = Some ''assistant''"
      "km_tool_calls (kimi_feed S v p) = km_tool_calls p @ map (kimi_called S) (kimi_calls v)"
  | i where "get_str v ''role'' = Some ''tool''" "get_str v ''tool_call_id'' = Some i"
      "numbered_line_runs (str_or [] (get_str v ''content'')) \<noteq> []"
      "km_tool_calls (kimi_feed S v p) = update_first (\<lambda>r. tc_id r = Some i)
         (\<lambda>r. r\<lparr>returned_lines := numbered_line_runs (str_or [] (get_str v ''content'')), success := Some True\<rparr>) (km_tool_calls p)"
proof -
  consider (call) "get_str v ''role'' = Some ''assistant''" | (res) "get_str v ''role'' = Some ''tool''"
    | (rest) "get_str v ''role'' \<notin> {Some ''assistant'', Some ''tool''}" by blast
  then show thesis
  proof cases
    case call
    then show thesis
      by (intro that(2)) (simp_all add: kimi_parse_value_def kimi_on_assistant_def kimi_calls_def kimi_fold_calls Let_def split: option.split)
  next
    case res
    then have f: "kimi_feed S v p = snd (kimi_on_tool_result v p)" by (simp add: kimi_parse_value_def)
    show thesis
    proof (cases "get_str v ''tool_call_id'' = None \<or> numbered_line_runs (str_or [] (get_str v ''content'')) = []")
      case True
      have "update_first (\<lambda>r. False) g xs = xs" for g and xs :: "ToolCallRecord list" by (induction xs) simp_all
      with True f show thesis by (intro that(1)) (auto simp: kimi_on_tool_result_def Let_def)
    next
      case False
      then obtain i where "get_str v ''tool_call_id'' = Some i" by (cases "get_str v ''tool_call_id''") auto
      with False f res show thesis by (intro that(3)[of i]) (simp_all add: kimi_on_tool_result_def Let_def)
    qed
  next
    case rest
    have "km_tool_calls (snd (kimi_on_meta S v p)) = km_tool_calls p"
      by (simp add: kimi_on_meta_def Let_def split: option.split)
    with rest show thesis by (intro that(1)) (simp add: kimi_parse_value_def Let_def)
  qed
qed

interpretation kimi: tool_stream "kimi_feed S" km_tool_calls "\<lambda>_. True" kimi_new seat_identity "kimi_opens S" kimi_proves
  for S
proof
  fix v p r
  assume r: "r \<in> set (km_tool_calls (kimi_feed S v p))"
  show "kimi_opens S v (seat_identity r) \<or> seat_identity r \<in> seat_identity ` set (km_tool_calls p)"
  proof (cases rule: kimi_feed_cases[of S v p])
    case 2
    with r show ?thesis unfolding kimi_opens_def by auto
  next
    case (3 i)
    have "map seat_identity (km_tool_calls (kimi_feed S v p)) = map seat_identity (km_tool_calls p)"
      unfolding 3(4) by (rule map_update_first) (simp add: seat_identity_def)
    with r show ?thesis by (metis image_eqI list.set_map)
  qed (use r in simp)
  show "kimi_proves v r \<or> r \<in> set (km_tool_calls p)" if s: "success r = Some True"
  proof (cases rule: kimi_feed_cases[of S v p])
    case 2
    from r[unfolded 2(2)] s show ?thesis by auto
  next
    case (3 i)
    from in_update_firstD[OF r[unfolded 3(4)]] 3(1-3) show ?thesis by (auto simp: kimi_proves_def)
  qed (use r in simp)
qed (simp_all add: kimi_new_def)

abbreviation mistral_feed :: "serde \<Rightarrow> json \<Rightarrow> mistral_parser \<Rightarrow> mistral_parser" where
  "mistral_feed S v p \<equiv> snd (mistral_parse_value S v p)"

definition mistral_opens :: "serde \<Rightarrow> json \<Rightarrow> ToolCallRecord \<Rightarrow> bool" where
  "mistral_opens S v r \<longleftrightarrow>
     get_str v ''type'' = Some ''effect'' \<and> (\<exists>t. mistral_tool_name v = Some t \<and> r = mistral_record S v t)"

lemma mistral_feed_calls:
  "r \<in> set (ms_tool_calls (mistral_feed S v p)) \<Longrightarrow> mistral_opens S v r \<or> r \<in> set (ms_tool_calls p)"
proof -
  assume r: "r \<in> set (ms_tool_calls (mistral_feed S v p))"
  have m: "ms_tool_calls (snd (mistral_message v p)) = ms_tool_calls p"
    by (simp add: mistral_message_def Let_def split: option.split)
  have e: "mistral_opens S v r \<or> r \<in> set (ms_tool_calls p)"
    if "r \<in> set (ms_tool_calls (snd (mistral_effect S v p)))" "get_str v ''type'' = Some ''effect''"
  proof (cases "mistral_tool_name v")
    case (Some t)
    define x where "x = mistral_record S v t"
    have "ms_tool_calls (snd (mistral_effect S v p)) =
        (if list_ex (\<lambda>y. tc_id x \<noteq> None \<and> tc_id y = tc_id x) (ms_tool_calls p)
         then update_first (\<lambda>y. tc_id x \<noteq> None \<and> tc_id y = tc_id x) (\<lambda>_. x) (ms_tool_calls p) else ms_tool_calls p @ [x])"
      using Some by (simp add: mistral_effect_def x_def Let_def)
    with that(1) have "r = x \<or> r \<in> set (ms_tool_calls p)"
      using in_update_firstD[of r "\<lambda>y. tc_id x \<noteq> None \<and> tc_id y = tc_id x" "\<lambda>_. x" "ms_tool_calls p"]
      by (simp split: if_split_asm) blast+
    with Some that(2) show ?thesis by (auto simp: mistral_opens_def x_def)
  qed (use that in \<open>simp add: mistral_effect_def\<close>)
  from r m e show ?thesis
    by (cases "mistral_message v p"; cases "mistral_effect S v p")
      (simp add: mistral_parse_value_def split: if_split_asm option.split_asm)
qed

text \<open>In the stream itself a call of mistral succeeds only when the entry says so and no failure is written on it.\<close>

interpretation mistral: tool_stream "mistral_feed S" ms_tool_calls "\<lambda>_. True" mistral_new "\<lambda>r. r" "mistral_opens S"
    "\<lambda>v r. mistral_opens S v r \<and> mistral_success v = Some True" for S
proof
  fix v p r
  assume r: "r \<in> set (ms_tool_calls (mistral_feed S v p))"
  from mistral_feed_calls[OF r] show "mistral_opens S v r \<or> r \<in> (\<lambda>r. r) ` set (ms_tool_calls p)" by simp
  show "(mistral_opens S v r \<and> mistral_success v = Some True) \<or> r \<in> set (ms_tool_calls p)" if "success r = Some True"
    using mistral_feed_calls[OF r] that by (auto simp: mistral_opens_def mistral_record_def)
qed (simp_all add: mistral_new_def)

subsection \<open>When a seat reports a success\<close>

definition seat_turn :: "serde \<Rightarrow> string \<Rightarrow> string list \<Rightarrow> string list \<Rightarrow> string option \<Rightarrow> int option \<Rightarrow> SeatParsed option" where
  "seat_turn S seat ls journal_files export exit_code =
     map_option (\<lambda>p. seat_finish S journal_files export exit_code (fold (\<lambda>l p. snd (seat_parse_line S l p)) ls p)) (parser_for_seat seat)"

lemma fold_seat_parse_line:
  "fold (\<lambda>l p. snd (seat_parse_line S l p)) ls (Kimi k) = Kimi (fold (kimi_feed S) (trimmed_values S ls) k)"
  "fold (\<lambda>l p. snd (seat_parse_line S l p)) ls (Mistral m) = Mistral (fold (mistral_feed S) (trimmed_values S ls) m)"
  "fold (\<lambda>l p. snd (seat_parse_line S l p)) ls (Qwen q) = Qwen (fold (qwen_feed S) (trimmed_values S ls) q)"
  unfolding fold_trimmed_values
  by (induction ls arbitrary: k m q)
    (simp_all add: kimi_parse_line_def mistral_parse_line_def qwen_parse_line_def Let_def split: option.split)

lemma qwen_feed_verdict:
  "map_option (\<lambda>r. (rl_is_error r, rl_subtype r)) (qw_result (qwen_feed S v p)) =
     (if get_str v ''type'' = Some ''result'' then Some (qwen_failed v, get_str v ''subtype'')
      else map_option (\<lambda>r. (rl_is_error r, rl_subtype r)) (qw_result p))"
proof -
  have block: "qw_result (snd (qwen_assistant_block S b x)) = qw_result (snd x)"
    "qw_result (snd (qwen_user_block S b x)) = qw_result (snd x)" for b x
    by (cases x; simp add: qwen_assistant_block_def qwen_user_block_def Let_def split: option.split)+
  have a: "qw_result (snd (qwen_on_assistant S v p)) = qw_result p"
  proof (cases "json_get v ''message''")
    case (Some m)
    have "qw_result (qwen_note_message m (p\<lparr>qw_recognized := True\<rparr>)) = qw_result p"
      by (simp add: qwen_note_message_def Let_def split: option.split)
    then show ?thesis using Some
      by (simp add: qwen_on_assistant_def) (rule fold_invariant, simp_all add: block)
  qed (simp add: qwen_on_assistant_def)
  have u: "qw_result (snd (qwen_on_user S v p)) = qw_result p"
    unfolding qwen_on_user_def by (rule fold_invariant) (simp_all add: block)
  have y: "qw_result (snd (qwen_on_system v p)) = qw_result p"
    by (simp add: qwen_on_system_def qwen_note_session_def Let_def split: option.split)
  have r: "map_option (\<lambda>r. (rl_is_error r, rl_subtype r)) (qw_result (snd (qwen_on_result v p)))
      = Some (qwen_failed v, get_str v ''subtype'')"
    by (simp add: qwen_on_result_def Let_def)
  from a u y r show ?thesis
    by (cases "qwen_on_system v p"; cases "qwen_on_result v p") (simp add: qwen_parse_value_def Let_def split: option.split)
qed

lemma qwen_feed_recognized:
  "qw_recognized (qwen_feed S v p) \<longleftrightarrow>
     qw_recognized p \<or> get_str v ''type'' \<in> {Some ''system'', Some ''assistant'', Some ''user'', Some ''result''}"
proof -
  have block: "qw_recognized (snd (qwen_assistant_block S b x)) = qw_recognized (snd x)"
    "qw_recognized (snd (qwen_user_block S b x)) = qw_recognized (snd x)" for b x
    by (cases x; simp add: qwen_assistant_block_def qwen_user_block_def Let_def split: option.split)+
  have a: "qw_recognized (snd (qwen_on_assistant S v p))"
  proof (cases "json_get v ''message''")
    case (Some m)
    have "qw_recognized (qwen_note_message m (p\<lparr>qw_recognized := True\<rparr>))"
      by (simp add: qwen_note_message_def Let_def split: option.split)
    then show ?thesis using Some
      by (simp add: qwen_on_assistant_def) (rule fold_invariant, simp_all add: block)
  qed (simp add: qwen_on_assistant_def)
  have u: "qw_recognized (snd (qwen_on_user S v p))"
    unfolding qwen_on_user_def by (rule fold_invariant) (simp_all add: block)
  have r: "qw_recognized (snd (qwen_on_system v p))" "qw_recognized (snd (qwen_on_result v p))"
    by (simp_all add: qwen_on_system_def qwen_note_session_def qwen_on_result_def Let_def split: option.split)
  from a u r show ?thesis
    by (cases "qwen_on_system v p"; cases "qwen_on_result v p") (simp add: qwen_parse_value_def Let_def split: option.split)
qed

lemma qwen_stream_verdict:
  "map_option (\<lambda>r. (rl_is_error r, rl_subtype r)) (qw_result (fold (qwen_feed S) vs p)) =
     (case rev (filter (\<lambda>v. get_str v ''type'' = Some ''result'') vs) of
        [] \<Rightarrow> map_option (\<lambda>r. (rl_is_error r, rl_subtype r)) (qw_result p)
      | v # _ \<Rightarrow> Some (qwen_failed v, get_str v ''subtype''))"
  by (induction vs rule: rev_induct) (simp_all add: qwen_feed_verdict)

lemma qwen_result_recognized: "qw_result (fold (qwen_feed S) vs qwen_new) \<noteq> None \<Longrightarrow> qw_recognized (fold (qwen_feed S) vs qwen_new)"
proof (induction vs rule: rev_induct)
  case (snoc v vs)
  have "qw_result (fold (qwen_feed S) vs qwen_new) \<noteq> None \<or> get_str v ''type'' = Some ''result''"
  proof (rule disjCI)
    assume "get_str v ''type'' \<noteq> Some ''result''"
    then have "map_option (\<lambda>r. (rl_is_error r, rl_subtype r)) (qw_result (qwen_feed S v (fold (qwen_feed S) vs qwen_new))) =
        map_option (\<lambda>r. (rl_is_error r, rl_subtype r)) (qw_result (fold (qwen_feed S) vs qwen_new))"
      by (simp only: qwen_feed_verdict if_False)
    with snoc(2) show "qw_result (fold (qwen_feed S) vs qwen_new) \<noteq> None" 
      by (cases "qw_result (fold (qwen_feed S) vs qwen_new)"; cases "qw_result (qwen_feed S v (fold (qwen_feed S) vs qwen_new))") simp_all
  qed
  then show ?case
  proof
    assume "qw_result (fold (qwen_feed S) vs qwen_new) \<noteq> None"
    with snoc(1) show ?case by (simp add: qwen_feed_recognized)
  qed (simp add: qwen_feed_recognized)
qed (simp add: qwen_new_def)

lemma qwen_outcome_success:
  "qwen_outcome p code = Success \<longleftrightarrow>
     code = Some 0 \<and> qw_recognized p
     \<and> map_option (\<lambda>r. (rl_is_error r, rl_subtype r)) (qw_result p) = Some (False, Some ''success'')"
proof (cases "code = Some 0")
  case True
  then show ?thesis by (cases "qw_result p") (simp_all add: qwen_outcome_def)
next
  case False
  then show ?thesis by (cases code) (simp_all add: qwen_outcome_def)
qed

lemma qwen_stream_success:
  "sp_outcome (qwen_finish (fold (qwen_feed S) vs qwen_new) code) = Success \<longleftrightarrow>
     code = Some 0 \<and> (case rev (filter (\<lambda>v. get_str v ''type'' = Some ''result'') vs) of
       [] \<Rightarrow> False | v # _ \<Rightarrow> \<not> qwen_failed v \<and> get_str v ''subtype'' = Some ''success'')"
proof -
  define p where "p = fold (qwen_feed S) vs qwen_new"
  define w where "w = map_option (\<lambda>r. (rl_is_error r, rl_subtype r)) (qw_result p)"
  have rec: "qw_recognized p" if "w = Some x" for x
    using qwen_result_recognized[of S vs] that unfolding p_def[symmetric] w_def by fastforce
  have out: "sp_outcome (qwen_finish p code) = Success \<longleftrightarrow> code = Some 0 \<and> qw_recognized p \<and> w = Some (False, Some ''success'')"
    unfolding w_def qwen_outcome_success[symmetric] by (simp add: qwen_finish_def Let_def)
  have "w = (case rev (filter (\<lambda>v. get_str v ''type'' = Some ''result'') vs) of
        [] \<Rightarrow> None | v # _ \<Rightarrow> Some (qwen_failed v, get_str v ''subtype''))"
    unfolding w_def p_def qwen_stream_verdict by (simp add: qwen_new_def split: list.split)
  with out rec show ?thesis unfolding p_def[symmetric] by (simp split: list.split)
qed

lemma join_eq_Nil: "list_all (\<lambda>w. w \<noteq> []) ws \<Longrightarrow> join d ws = [] \<longleftrightarrow> ws = []"
  by (cases ws rule: list.exhaust; cases "tl ws") auto

definition kimi_says :: "json \<Rightarrow> bool" where
  "kimi_says v \<longleftrightarrow> get_str v ''role'' = Some ''assistant'' \<and> get_str v ''content'' \<notin> {None, Some []}"

lemma kimi_feed_text:
  "km_text_chunks (kimi_feed S v p) = km_text_chunks p @ (if kimi_says v then [the (get_str v ''content'')] else [])"
proof -
  have c: "km_text_chunks (snd (kimi_call S b x)) = km_text_chunks (snd x)" for b x
    by (cases x) (simp add: kimi_call_def kimi_record_def Let_def)
  have a: "km_text_chunks (snd (kimi_on_assistant S v p))
      = km_text_chunks p @ (if get_str v ''content'' \<notin> {None, Some []} then [the (get_str v ''content'')] else [])"
    unfolding kimi_on_assistant_def Let_def
    by (rule fold_invariant) (auto simp: c kimi_record_def kimi_recognize_def Let_def split: option.split)
  have "km_text_chunks (snd (kimi_on_tool_result v p)) = km_text_chunks p" "km_text_chunks (snd (kimi_on_meta S v p)) = km_text_chunks p"
    by (simp_all add: kimi_on_tool_result_def kimi_on_meta_def kimi_record_def kimi_recognize_def Let_def split: option.split)
  with a show ?thesis by (simp add: kimi_parse_value_def kimi_says_def Let_def)
qed

lemma kimi_feed_recognized: "km_recognized_lines (kimi_feed S v p) \<ge> km_recognized_lines p + (if kimi_says v then 1 else 0)"
proof -
  have c: "km_recognized_lines (snd (kimi_call S b x)) = km_recognized_lines (snd x)" for b x
    by (cases x) (simp add: kimi_call_def kimi_record_def Let_def)
  have "km_recognized_lines (snd (kimi_on_assistant S v p)) = km_recognized_lines p + 1"
    unfolding kimi_on_assistant_def Let_def
    by (rule fold_invariant) (auto simp: c kimi_record_def kimi_recognize_def Let_def split: option.split)
  moreover have "km_recognized_lines (snd (kimi_on_tool_result v p)) \<ge> km_recognized_lines p"
    "km_recognized_lines (snd (kimi_on_meta S v p)) \<ge> km_recognized_lines p"
    by (simp_all add: kimi_on_tool_result_def kimi_on_meta_def kimi_record_def kimi_recognize_def Let_def split: option.split)
  ultimately show ?thesis by (simp add: kimi_parse_value_def kimi_says_def Let_def)
qed

lemma kimi_stream_text:
  "km_text_chunks (fold (kimi_feed S) vs p) = km_text_chunks p @ map (\<lambda>v. the (get_str v ''content'')) (filter kimi_says vs)"
  "km_recognized_lines (fold (kimi_feed S) vs p) \<ge> km_recognized_lines p + length (filter kimi_says vs)"
proof (induction vs rule: rev_induct)
  case (snoc v vs)
  {
    case 1
    from snoc(1) show ?case by (simp add: kimi_feed_text)
  next
    case 2
    from snoc(2) show ?case using kimi_feed_recognized[where S = S and v = v and p = "fold (kimi_feed S) vs p"] by (simp split: if_split_asm)
  }
qed simp_all

lemma kimi_stream_success:
  "sp_outcome (kimi_finish (fold (kimi_feed S) vs kimi_new) code) = Success \<longleftrightarrow> code = Some 0 \<and> list_ex kimi_says vs"
proof -
  define p where "p = fold (kimi_feed S) vs kimi_new"
  have t: "km_text_chunks p = map (\<lambda>v. the (get_str v ''content'')) (filter kimi_says vs)"
    and r: "km_recognized_lines p \<ge> length (filter kimi_says vs)"
    using kimi_stream_text[where S = S and vs = vs and p = kimi_new] by (simp_all add: p_def kimi_new_def)
  have "list_all (\<lambda>w. w \<noteq> []) (km_text_chunks p)" by (auto simp: t list_all_iff kimi_says_def)
  then have e: "join [nl_char] (km_text_chunks p) = [] \<longleftrightarrow> filter kimi_says vs = []"
    using join_eq_Nil t by simp
  have "list_ex kimi_says vs \<longleftrightarrow> filter kimi_says vs \<noteq> []" by (auto simp: list_ex_iff filter_empty_conv)
  with e r show ?thesis
    unfolding p_def[symmetric] by (cases code) (auto simp: kimi_finish_def Let_def)
qed

definition mistral_says :: "json \<Rightarrow> bool" where
  "mistral_says v \<longleftrightarrow>
     get_str v ''generationStatus'' \<in> {None, Some ''completed''} \<and> get_str v ''type'' = Some ''message'' \<and>
     get_str v ''role'' = Some ''assistant''
     \<and> list_ex (\<lambda>b. get_str b ''type'' = Some ''text'' \<and> get_str b ''text'' \<notin> {None, Some []}) (case get_array v ''content'' of Some bs \<Rightarrow> bs | None \<Rightarrow> [])"

lemma concat_map_filter_Nil:
  "concat (List.map_filter f xs) = [] \<longleftrightarrow> \<not> list_ex (\<lambda>x. f x \<notin> {None, Some []}) xs"
  by (induction xs) (auto simp: List.map_filter_simps split: option.split)

lemma mistral_message_text:
  "ms_texts (snd (mistral_message v p)) = ms_texts p \<or> (\<exists>t. t \<noteq> [] \<and> ms_texts (snd (mistral_message v p)) = ms_texts p @ [t])"
  "ms_texts (snd (mistral_message v p)) \<noteq> ms_texts p \<longleftrightarrow> get_str v ''role'' = Some ''assistant''
     \<and> list_ex (\<lambda>b. get_str b ''type'' = Some ''text'' \<and> get_str b ''text'' \<notin> {None, Some []}) (case get_array v ''content'' of Some bs \<Rightarrow> bs | None \<Rightarrow> [])"
proof -
  have e: "list_ex P (filter Q bs) = list_ex (\<lambda>b. Q b \<and> P b) bs" for P Q and bs :: "json list" by (induction bs) auto
  show "ms_texts (snd (mistral_message v p)) = ms_texts p \<or> (\<exists>t. t \<noteq> [] \<and> ms_texts (snd (mistral_message v p)) = ms_texts p @ [t])"
    by (simp add: mistral_message_def Let_def del: concat_eq_Nil_conv split: option.split)
  show "ms_texts (snd (mistral_message v p)) \<noteq> ms_texts p \<longleftrightarrow> get_str v ''role'' = Some ''assistant''
     \<and> list_ex (\<lambda>b. get_str b ''type'' = Some ''text'' \<and> get_str b ''text'' \<notin> {None, Some []}) (case get_array v ''content'' of Some bs \<Rightarrow> bs | None \<Rightarrow> [])"
    by (simp add: mistral_message_def Let_def concat_map_filter_Nil e del: concat_eq_Nil_conv split: option.split)
qed

lemma mistral_feed_text:
  "ms_texts (mistral_feed S v p) = ms_texts p \<and> \<not> mistral_says v \<or> (\<exists>t. t \<noteq> [] \<and> ms_texts (mistral_feed S v p) = ms_texts p @ [t]) \<and> mistral_says v"
proof -
  have e: "ms_texts (snd (mistral_effect S v p)) = ms_texts p" by (simp add: mistral_effect_def Let_def split: option.split)
  show ?thesis
  proof (cases "get_str v ''generationStatus'' \<in> {None, Some ''completed''} \<and> get_str v ''type'' = Some ''message''")
    case True
    then have "ms_texts (mistral_feed S v p) = ms_texts (snd (mistral_message v p))"
      by (cases "mistral_message v p") (simp add: mistral_parse_value_def split: option.split)
    with True mistral_message_text[of v p] show ?thesis unfolding mistral_says_def by auto
  next
    case False
    then have "mistral_feed S v p = p \<or> ms_texts (mistral_feed S v p) = ms_texts (snd (mistral_effect S v p))"
      by (cases "mistral_effect S v p"; cases "get_str v ''type'' = Some ''message''")
        (simp_all add: mistral_parse_value_def split: option.split)
    with e have "ms_texts (mistral_feed S v p) = ms_texts p" by auto
    with False show ?thesis unfolding mistral_says_def by blast
  qed
qed

lemma mistral_stream_text:
  "list_all (\<lambda>w. w \<noteq> []) (ms_texts (fold (mistral_feed S) vs mistral_new))"
  "ms_texts (fold (mistral_feed S) vs mistral_new) = [] \<longleftrightarrow> \<not> list_ex mistral_says vs"
proof (induction vs rule: rev_induct)
  case (snoc v vs)
  define p where "p = fold (mistral_feed S) vs mistral_new"
  have f: "fold (mistral_feed S) (vs @ [v]) mistral_new = mistral_feed S v p" by (simp add: p_def)
  {
    case 1
    from snoc(1) mistral_feed_text[of S v p] show ?case unfolding f p_def[symmetric] by auto
  next
    case 2
    from snoc(2) mistral_feed_text[of S v p] show ?case unfolding f p_def[symmetric] by auto
  }
qed (simp_all add: mistral_new_def)

definition mistral_stopped :: "json \<Rightarrow> bool" where
  "mistral_stopped export \<longleftrightarrow>
     (case get_str export ''outcome'' of
        None \<Rightarrow> False
      | Some x \<Rightarrow> x \<in> set (PARTIAL_OUTCOMES @ [''infrastructure_failure'', ''usage_error'', ''config_error'', ''aborted'']))"

lemma finished_is_no_stop: "''finished'' \<notin> set (PARTIAL_OUTCOMES @ [''infrastructure_failure'', ''usage_error'', ''config_error'', ''aborted''])"
  by (simp add: PARTIAL_OUTCOMES_def)

lemma mistral_classify_success:
  "mistral_classify export code exit blank = Success \<longleftrightarrow> code = Some 0 \<and> \<not> blank \<and> \<not> mistral_stopped export"
proof (cases "get_str export ''outcome''")
  case None
  then show ?thesis by (cases code) (simp_all add: mistral_classify_def mistral_stopped_def Let_def)
next
  case (Some x)
  define P where "P = set PARTIAL_OUTCOMES"
  have "''finished'' \<notin> P" using finished_is_no_stop by (simp add: P_def)
  with Some show ?thesis
    by (cases code) (simp_all add: mistral_classify_def mistral_stopped_def Let_def P_def[symmetric] split: option.split)
qed

definition mistral_export_ok :: "serde \<Rightarrow> string option \<Rightarrow> bool" where
  "mistral_export_ok S export_json \<longleftrightarrow>
     (case Option.bind export_json (sj_from_str S) of Some (JObject kvs) \<Rightarrow> \<not> mistral_stopped (JObject kvs) | _ \<Rightarrow> False)"

lemma mistral_finish_success:
  "sp_outcome (mistral_finish S p code export) = Success \<longleftrightarrow>
     code = Some 0 \<and> join [nl_char] (ms_texts p) \<noteq> [] \<and> mistral_export_ok S export"
  by (auto simp: mistral_finish_def mistral_export_ok_def mistral_classify_success Let_def split: option.split json.split)

text \<open>C29: when the three newer seats report a success. Kimi: the process left with code 0 and an assistant line had text.
  Mistral: it left with code 0, a completed assistant message had text, and the exported session is a JSON object whose
  outcome is neither a limit nor a failure. Qwen: it left with code 0 and the last result line is marked as a success and
  not as an error. No other run of these seats, whatever the stream holds, is reported as a success.
\<close>

theorem seat_success_iff:
  "(map_option sp_outcome (seat_turn S ''kimi'' ls js export code) = Some Success
      \<longleftrightarrow> code = Some 0 \<and> list_ex kimi_says (trimmed_values S ls))
   \<and> (map_option sp_outcome (seat_turn S ''mistral'' ls js export code) = Some Success
      \<longleftrightarrow> code = Some 0 \<and> list_ex mistral_says (trimmed_values S ls) \<and> mistral_export_ok S export)
   \<and> (map_option sp_outcome (seat_turn S ''qwen'' ls js export code) = Some Success
      \<longleftrightarrow> code = Some 0 \<and> (case rev (filter (\<lambda>v. get_str v ''type'' = Some ''result'') (trimmed_values S ls)) of
            [] \<Rightarrow> False | v # _ \<Rightarrow> \<not> qwen_failed v \<and> get_str v ''subtype'' = Some ''success''))"
proof (intro conjI)
  show "map_option sp_outcome (seat_turn S ''kimi'' ls js export code) = Some Success
      \<longleftrightarrow> code = Some 0 \<and> list_ex kimi_says (trimmed_values S ls)"
    by (simp add: seat_turn_def parser_for_seat_def fold_seat_parse_line kimi_stream_success)
  have "ms_texts (ingest_journal S j p) = ms_texts p" for j p by (simp add: ingest_journal_def)
  then show "map_option sp_outcome (seat_turn S ''mistral'' ls js export code) = Some Success
      \<longleftrightarrow> code = Some 0 \<and> list_ex mistral_says (trimmed_values S ls) \<and> mistral_export_ok S export"
    by (simp add: seat_turn_def parser_for_seat_def fold_seat_parse_line mistral_finish_success
        join_eq_Nil[OF mistral_stream_text(1)] mistral_stream_text(2))
  show "map_option sp_outcome (seat_turn S ''qwen'' ls js export code) = Some Success
      \<longleftrightarrow> code = Some 0 \<and> (case rev (filter (\<lambda>v. get_str v ''type'' = Some ''result'') (trimmed_values S ls)) of
            [] \<Rightarrow> False | v # _ \<Rightarrow> \<not> qwen_failed v \<and> get_str v ''subtype'' = Some ''success'')"
    by (simp add: seat_turn_def parser_for_seat_def fold_seat_parse_line qwen_stream_success)
qed

subsection \<open>What the parsers take on trust\<close>

text \<open>A notice of a cut read is looked for anywhere in the text of the file: a file of one line that quotes such a notice is
  credited with the lines that the quotation names.\<close>

lemma qwen_believes_a_quoted_notice:
  "qwen_returned_lines S args ''log: Showing lines 1-500 of 900'' = [(1, 500)] \<and> length (lines ''log: Showing lines 1-500 of 900'') = 1"
proof -
  have "qwen_notice ''log: Showing lines 1-500 of 900'' = Some (1, 500)" "length (lines ''log: Showing lines 1-500 of 900'') = 1"
    by code_simp+
  then show ?thesis by (simp add: qwen_returned_lines_def)
qed

text \<open>A mark of an error that is not a boolean is read as no error.\<close>

lemma qwen_malformed_error_is_success:
  "\<not> qwen_failed (JObject [(''type'', JString ''result''), (''subtype'', JString ''success''), (''is_error'', JString ''true'')])"
  by code_simp

text \<open>
  Mistral's journal is dealt out by position among the file reads. What the stream said of a call is overwritten, a
  failure too; and a read that the journal does not name \<open>read_file\<close> takes the result of the next one.
\<close>

lemma mistral_journal_overrides_the_stream:
  "map success (deal_reads [(True, [(1, 9)])] [(mistral_record S v ''read_file'')\<lparr>success := Some False\<rparr>]) = [Some True]"
  by (simp add: mistral_record_def mistral_tool_kind_def opened_call_def)

lemma mistral_journal_is_paired_by_position:
  assumes "mistral_detail v ''kind'' = Some (JString ''file_read'')"
  shows "map (\<lambda>r. (tool r, returned_lines r)) (deal_reads [(True, [(1, 9)])] [mistral_record S v ''view_image'', mistral_record S w ''read_file''])
    = [(''view_image'', [(1, 9)]), (''read_file'', [])]"
  using assms by (simp add: mistral_record_def mistral_tool_kind_def opened_call_def as_str_def)

end
