(* ===== verification/Containment.thy ===== *)
theory Containment
  imports Seat_Gate Rust_Text Rust_Path
begin

text \<open>
  Containment of the newer seats: \<open>mcp-bridge/src/containment.rs\<close> with the command lines of \<open>kimi.rs\<close>, \<open>mistral.rs\<close> and
  \<open>qwen.rs\<close>. A seat runs under its own home, with an environment from which foreign credentials are removed, under a
  write barrier of the operating system, and the repository is compared before and after the run.

  Paths are texts and \<open>canonicalize\<close> is a parameter. What git prints and what the file system holds are fields of a
  \<open>world\<close>, one for each moment at which the code looks; the digest of a file stands for its hash.

  Shown here: the environment of a child holds no foreign credential; the audit reports exactly the paths that differ;
  a snapshot of a directory holds all of its files or is refused; and the profile of a writer allows the profile of a
  reader and the work tree.
\<close>

subsection \<open>Requests and command lines\<close>

datatype SeatMode = ReadOnly | Writer

record SeatRequest =
  rq_prompt :: string
  rq_cwd :: string
  rq_seat_home :: string
  rq_output_dir :: string
  rq_model :: "string option"
  rq_resume_session_id :: "string option"
  rq_extra_args :: "string list"
  rq_max_turns :: u32
  rq_time_limit :: duration
  rq_mode :: SeatMode

record SeatInvocation =
  inv_program :: string
  inv_args :: "string list"
  inv_env_add :: "(string \<times> string) list"
  inv_env_remove :: "string list"
  inv_cwd :: string

definition KIMI_PROGRAM :: string where
  "KIMI_PROGRAM = ''kimi''"

definition RO_AGENT_FILE :: string where
  "RO_AGENT_FILE = ''ro-agent.md''"

definition RW_AGENT_FILE :: string where
  "RW_AGENT_FILE = ''rw-agent.md''"

definition KIMI_PROMPT_LIMIT_BYTES :: nat where
  "KIMI_PROMPT_LIMIT_BYTES = 65536"

definition KIMI_FORBIDDEN_EXTRA_ARGS :: "string list" where
  "KIMI_FORBIDDEN_EXTRA_ARGS =
     [''--continue'', ''-c'', ''--yolo'', ''-y'', ''--auto'', ''--plan'', ''--session'', ''-S'', ''-r'', ''--resume'',
      ''--output-format'', ''-p'', ''--prompt'', ''--agent'', ''--agent-file'', ''-m'', ''--model'']"

definition kimi_is_forbidden :: "string \<Rightarrow> bool" where
  "kimi_is_forbidden arg =
     ((case split_once arg ''='' of Some (f, _) \<Rightarrow> f | None \<Rightarrow> arg) \<in> set KIMI_FORBIDDEN_EXTRA_ARGS)"

definition option_pair :: "string \<Rightarrow> string option \<Rightarrow> string list" where
  "option_pair flag v = (case v of Some x \<Rightarrow> [flag, x] | None \<Rightarrow> [])"

definition build_kimi_invocation :: "SeatRequest \<Rightarrow> string + SeatInvocation" where
  "build_kimi_invocation req =
     (if length (rq_prompt req) > KIMI_PROMPT_LIMIT_BYTES then
        Inl (''prompt_too_large_for_kimi: '' @ show_nat (length (rq_prompt req)) @ '' bytes > '' @ show_nat KIMI_PROMPT_LIMIT_BYTES)
      else case find kimi_is_forbidden (rq_extra_args req) of
          Some arg \<Rightarrow> Inl (''forbidden_extra_arg_for_kimi: '' @ arg)
        | None \<Rightarrow>
            Inr \<lparr>inv_program = KIMI_PROGRAM,
                 inv_args =
                   [''-p'', rq_prompt req, ''--output-format'', ''stream-json'']
                   @ (case rq_resume_session_id req of
                        Some i \<Rightarrow> [''--session'', i]
                      | None \<Rightarrow>
                          [''--agent-file'', path_join (rq_seat_home req)
                             (case rq_mode req of ReadOnly \<Rightarrow> RO_AGENT_FILE | Writer \<Rightarrow> RW_AGENT_FILE)])
                   @ option_pair ''-m'' (rq_model req) @ rq_extra_args req,
                 inv_env_add = [(''KIMI_DISABLE_TELEMETRY'', ''1'')], inv_env_remove = [], inv_cwd = rq_cwd req\<rparr>)"

definition MISTRAL_PROGRAM :: string where
  "MISTRAL_PROGRAM = ''vibe''"

definition MAX_PROMPT_BYTES :: nat where
  "MAX_PROMPT_BYTES = 65536"

definition ENABLED_TOOLS :: "string list" where
  "ENABLED_TOOLS = [''read_file'', ''grep'', ''todo'']"

definition WRITER_ENABLED_TOOLS :: "string list" where
  "WRITER_ENABLED_TOOLS = [''read_file'', ''grep'', ''write_file'', ''search_replace'']"

definition MISTRAL_FORBIDDEN_EXTRA_ARGS :: "string list" where
  "MISTRAL_FORBIDDEN_EXTRA_ARGS =
     [''--continue'', ''-c'', ''--trust'', ''--worktree'', ''--auto-approve'', ''--yolo'', ''--agent'', ''--enabled-tools'',
      ''--disabled-tools'', ''--output'', ''--output-dir'', ''--workdir'', ''--resume'', ''-p'', ''--prompt'', ''--prompt-file'']"

definition mistral_forbidden :: "string \<Rightarrow> bool" where
  "mistral_forbidden arg =
     list_ex (\<lambda>f. arg = f \<or> (case strip_prefix arg f of
                               Some rest \<Rightarrow> starts_with rest ''='' \<or> \<not> starts_with f ''--''
                             | None \<Rightarrow> False)) MISTRAL_FORBIDDEN_EXTRA_ARGS"

definition limit_secs :: "SeatRequest \<Rightarrow> nat" where
  "limit_secs req = max (as_secs (rq_time_limit req)) 1"

definition build_mistral_invocation :: "SeatRequest \<Rightarrow> string + SeatInvocation" where
  "build_mistral_invocation req =
     (if length (rq_prompt req) > MAX_PROMPT_BYTES then
        Inl (''prompt_too_large_for_mistral: '' @ show_nat (length (rq_prompt req)) @ '' bytes > '' @ show_nat MAX_PROMPT_BYTES)
      else case find mistral_forbidden (rq_extra_args req) of
          Some arg \<Rightarrow> Inl (''forbidden_extra_arg_for_mistral: '' @ arg)
        | None \<Rightarrow>
            Inr \<lparr>inv_program = MISTRAL_PROGRAM,
                 inv_args =
                   [''-p'', rq_prompt req, ''--output'', ''streaming'', ''--workdir'', rq_cwd req,
                    ''--output-dir'', rq_output_dir req, ''--max-turns'', show_nat (unat (rq_max_turns req)),
                    ''--time-limit'', show_nat (limit_secs req),
                    ''--agent'', (case rq_mode req of ReadOnly \<Rightarrow> ''plan'' | Writer \<Rightarrow> ''auto-approve'')]
                   @ concat (map (\<lambda>t. [''--enabled-tools'', t])
                       (case rq_mode req of ReadOnly \<Rightarrow> ENABLED_TOOLS | Writer \<Rightarrow> WRITER_ENABLED_TOOLS))
                   @ option_pair ''--resume'' (rq_resume_session_id req) @ rq_extra_args req,
                 inv_env_add = [(''VIBE_CLI'', ''python'')], inv_env_remove = [], inv_cwd = rq_cwd req\<rparr>)"

definition DEFAULT_QWEN_MODEL :: string where
  "DEFAULT_QWEN_MODEL = ''qwen3.7-plus''"

definition EXCLUDED_TOOLS :: "string list" where
  "EXCLUDED_TOOLS =
     [''run_shell_command'', ''exec'', ''edit'', ''write_file'', ''notebook_edit'', ''agent'', ''save_memory'',
      ''manage_memory'', ''cron_create'', ''cron_delete'', ''create_sub_session'', ''send_message'', ''team_create'',
      ''task_create'', ''image_gen'']"

definition QWEN_FORBIDDEN_EXTRA_ARGS :: "string list" where
  "QWEN_FORBIDDEN_EXTRA_ARGS =
     [''--continue'', ''--yolo'', ''-y'', ''--approval-mode'', ''--resume'', ''--output-format'', ''-o'', ''-p'',
      ''--prompt'', ''-m'', ''--model'', ''--safe-mode'', ''--auth-type'', ''--exclude-tools'', ''--allowed-tools'']"

definition UNATTENDED_RETRY_ENV :: string where
  "UNATTENDED_RETRY_ENV = ''QWEN_CODE_UNATTENDED_RETRY''"

definition WRITER_EXCLUDED_TOOLS :: "string list" where
  "WRITER_EXCLUDED_TOOLS = [''run_shell_command'']"

definition is_qwen_model :: "string \<Rightarrow> bool" where
  "is_qwen_model model = starts_with (to_lowercase model) ''qwen''"

definition qwen_forbidden :: "string \<Rightarrow> bool" where
  "qwen_forbidden arg = (hd (split_char (CHR ''='') arg) \<in> set QWEN_FORBIDDEN_EXTRA_ARGS)"

definition build_qwen_invocation :: "SeatRequest \<Rightarrow> string + SeatInvocation" where
  "build_qwen_invocation req =
     (if length (rq_prompt req) > MAX_PROMPT_BYTES then
        Inl (''prompt_too_large_for_qwen: '' @ show_nat (length (rq_prompt req)) @ '' bytes > '' @ show_nat MAX_PROMPT_BYTES)
      else case find qwen_forbidden (rq_extra_args req) of
          Some arg \<Rightarrow> Inl (''forbidden_extra_arg_for_qwen: '' @ arg)
        | None \<Rightarrow>
            (let model = (case rq_model req of Some x \<Rightarrow> x | None \<Rightarrow> DEFAULT_QWEN_MODEL);
                 (approval, excluded) =
                   (case rq_mode req of ReadOnly \<Rightarrow> (''plan'', EXCLUDED_TOOLS) | Writer \<Rightarrow> (''yolo'', WRITER_EXCLUDED_TOOLS))
             in if \<not> is_qwen_model model then Inl (''qwen_seat_configured_non_qwen_model: '' @ model)
                else
                  Inr \<lparr>inv_program = ''qwen'',
                       inv_args =
                         [''-p'', rq_prompt req, ''--output-format'', ''stream-json'', ''--safe-mode'',
                          ''--auth-type'', ''openai'', ''-m'', model,
                          ''--max-session-turns'', show_nat (unat (rq_max_turns req)),
                          ''--max-wall-time'', show_nat (limit_secs req) @ ''s'',
                          ''--approval-mode'', approval, ''--exclude-tools'', join '','' excluded]
                         @ option_pair ''--resume'' (rq_resume_session_id req) @ rq_extra_args req,
                       inv_env_add = [], inv_env_remove = [UNATTENDED_RETRY_ENV], inv_cwd = rq_cwd req\<rparr>))"

definition plan_auth :: "string option \<Rightarrow> string + string \<times> string" where
  "plan_auth qwen_plan =
     (let plan = (case qwen_plan of Some p \<Rightarrow> p | None \<Rightarrow> ''qwencloud'')
      in if plan = ''qwencloud'' then
           Inr (''QWENCLOUD_TOKEN_PLAN_API_KEY'', ''https://token-plan.maas.qwencloudapi.com/compatible-mode/v1'')
         else if plan = ''modelstudio'' then
           Inl ''qwen_plan_contract_change: modelstudio needs Mike's decision (TECH_STACK.md, blocked_on: scope-change)''
         else Inl (''unknown_qwen_plan: '' @ plan))"

definition check_served_model :: "string \<Rightarrow> string + unit" where
  "check_served_model model =
     (if is_qwen_model model then Inr () else Inl (''qwen_seat_served_non_qwen_model: '' @ model))"

definition build_new_seat_invocation :: "string \<Rightarrow> SeatRequest \<Rightarrow> string + SeatInvocation" where
  "build_new_seat_invocation seat req =
     (if seat = ''kimi'' then build_kimi_invocation req
      else if seat = ''mistral'' then build_mistral_invocation req
      else if seat = ''qwen'' then build_qwen_invocation req
      else Inl (''not_a_new_seat: '' @ seat))"

subsection \<open>The environment of a child\<close>

definition matches_pattern :: "string \<Rightarrow> string \<Rightarrow> bool" where
  "matches_pattern name pattern =
     (case strip_suffix pattern ''*'' of Some pre \<Rightarrow> starts_with name pre | None \<Rightarrow> name = pattern)"

definition seat_home :: "string \<Rightarrow> string \<Rightarrow> string + string" where
  "seat_home home seat =
     (if valid_seat_name seat then Inr (path_join (path_join home ''homes'') seat)
      else Inl (''invalid_seat_name: '' @ debug_str seat @ '' (lowercase ascii, digits and '' @ [CHR 0x27] @ ''-'' @ [CHR 0x27] @ '' only)''))"

definition env_overrides :: "SeatProfile \<Rightarrow> string \<Rightarrow> (string \<times> string) list \<Rightarrow> (string \<times> string) list" where
  "env_overrides profile home env_add =
     [(''HOME'', home)] @ (case home_env_var profile of Some var \<Rightarrow> [(var, home)] | None \<Rightarrow> []) @ env_add"

definition env_put :: "string \<times> string \<Rightarrow> (string \<times> string) list \<Rightarrow> (string \<times> string) list" where
  "env_put = (\<lambda>(k, v) env. filter (\<lambda>(e, _). e \<noteq> k) env @ [(k, v)])"

definition removed_by :: "string list \<Rightarrow> string \<Rightarrow> bool" where
  "removed_by patterns k = list_ex (matches_pattern k) patterns"

definition child_env ::
  "(string \<times> string) list \<Rightarrow> SeatProfile \<Rightarrow> string \<Rightarrow> (string \<times> string) list \<Rightarrow> (string \<times> string) list"
where
  "child_env base profile home env_add =
     (let overrides = env_overrides profile home env_add;
          env = filter (\<lambda>(k, _). \<not> list_ex (\<lambda>(c, _). c = k) overrides)
                  (filter (\<lambda>(k, _). \<not> removed_by (env_remove profile) k) base)
      in fold env_put overrides env)"

definition sort_names :: "string list \<Rightarrow> string list" where
  "sort_names ss = sort ss"

definition scan_stray_keys :: "(string \<times> string) list \<Rightarrow> string list" where
  "scan_stray_keys env = sort_names (map fst (filter (\<lambda>(k, _). removed_by SEAT_CREDENTIAL_SCRUB k) env))"

text \<open>The last write of a name wins; a name nobody wrote is inherited unless it is removed.\<close>

lemma map_of_env_put: "map_of (env_put kv env) = (map_of env)(fst kv \<mapsto> snd kv)"
proof -
  obtain k v where kv: "kv = (k, v)" by force
  have "map_of (filter (\<lambda>(e, _). e \<noteq> k) env) x = (if x = k then None else map_of env x)" for x
    by (induction env) auto
  then show ?thesis by (auto simp: kv env_put_def fun_eq_iff map_add_def split: option.split)
qed

lemma map_of_fold_env_put: "map_of (fold env_put kvs env) = map_of env ++ map_of (rev kvs)"
  by (induction kvs arbitrary: env) (simp_all add: map_of_env_put)

lemma fold_env_put_names: "set (map fst (fold env_put kvs env)) \<subseteq> fst ` set kvs \<union> fst ` set env"
proof (induction kvs arbitrary: env)
  case (Cons kv kvs)
  have "fst ` set (env_put kv env) \<subseteq> insert (fst kv) (fst ` set env)" by (auto simp: env_put_def split: prod.splits)
  with Cons[of "env_put kv env"] show ?case by auto
qed simp

lemma child_env_lookup:
  "map_of (child_env base profile home add) k =
     (case map_of (rev (env_overrides profile home add)) k of
        Some v \<Rightarrow> Some v
      | None \<Rightarrow> if removed_by (env_remove profile) k then None else map_of base k)"
proof -
  define ov where "ov = env_overrides profile home add"
  have f: "map_of (filter (\<lambda>(k, _). P k) xs) k = (if P k then map_of xs k else None)" for P and xs :: "(string \<times> string) list"
    by (induction xs) auto
  have n: "list_ex (\<lambda>(c, _). c = k) ov \<longleftrightarrow> map_of (rev ov) k \<noteq> None"
    by (auto simp: list_ex_iff map_of_eq_None_iff) force
  show ?thesis unfolding child_env_def Let_def ov_def[symmetric] map_of_fold_env_put map_add_def f
    using n by (simp split: option.split)
qed

lemma child_env_names:
  "set (map fst (child_env base profile home add)) \<subseteq>
     fst ` set (env_overrides profile home add) \<union> {k. \<not> removed_by (env_remove profile) k}"
proof -
  have "set (map fst (child_env base profile home add)) \<subseteq> fst ` set (env_overrides profile home add)
      \<union> fst ` set (filter (\<lambda>(k, _). \<not> list_ex (\<lambda>(c, _). c = k) (env_overrides profile home add))
                  (filter (\<lambda>(k, _). \<not> removed_by (env_remove profile) k) base))"
    unfolding child_env_def Let_def by (rule fold_env_put_names)
  then show ?thesis by auto
qed

lemma stray_keys_of_child:
  "set (scan_stray_keys (child_env base profile home add)) \<subseteq>
     {k \<in> fst ` set (env_overrides profile home add). removed_by SEAT_CREDENTIAL_SCRUB k}
     \<union> {k. removed_by SEAT_CREDENTIAL_SCRUB k \<and> \<not> removed_by (env_remove profile) k}"
proof
  fix k
  assume "k \<in> set (scan_stray_keys (child_env base profile home add))"
  then have "k \<in> fst ` set (filter (\<lambda>(k, _). removed_by SEAT_CREDENTIAL_SCRUB k) (child_env base profile home add))"
    by (simp only: scan_stray_keys_def sort_names_def set_sort set_map)
  then have "k \<in> set (map fst (child_env base profile home add))" "removed_by SEAT_CREDENTIAL_SCRUB k" by auto
  with subsetD[OF child_env_names[of base profile home add]]
  show "k \<in> {k \<in> fst ` set (env_overrides profile home add). removed_by SEAT_CREDENTIAL_SCRUB k}
     \<union> {k. removed_by SEAT_CREDENTIAL_SCRUB k \<and> \<not> removed_by (env_remove profile) k}" by blast
qed

lemma new_seat_rows_scrub:
  "env_remove row_kimi = SEAT_CREDENTIAL_SCRUB" "env_remove row_mistral = SEAT_CREDENTIAL_SCRUB" "env_remove row_qwen = SEAT_CREDENTIAL_SCRUB"
  by (simp_all add: row_kimi_def row_mistral_def row_qwen_def NEW_SEAT_def)

subsection \<open>Files of the daemon in a seat home\<close>

text \<open>\<open>set_top_level_toml_bool\<close>: the lines with the assignment that the daemon sets.\<close>

definition is_toml_header :: "string \<Rightarrow> bool" where
  "is_toml_header l = starts_with (trim_start_matches is_whitespace l) ''[''"

definition assigns_key :: "string \<Rightarrow> string \<Rightarrow> bool" where
  "assigns_key nm l =
     (case strip_prefix (trim_start_matches is_whitespace l) nm of
        Some rest \<Rightarrow> starts_with (trim_start_matches is_whitespace rest) ''='' | None \<Rightarrow> False)"

fun toml_lines :: "string \<Rightarrow> string \<Rightarrow> bool \<Rightarrow> bool \<Rightarrow> string list \<Rightarrow> string list \<times> bool" where
  "toml_lines nm line in_top written [] = ([], written)"
| "toml_lines nm line in_top written (l # ls) =
     (if is_toml_header l then
        (case toml_lines nm line False (written \<or> in_top) ls of
           (out, w) \<Rightarrow> ((if in_top \<and> \<not> written then [line] else []) @ l # out, w))
      else if in_top \<and> assigns_key nm l then
        (case toml_lines nm line in_top True ls of (out, w) \<Rightarrow> ((if written then [] else [line]) @ out, w))
      else (case toml_lines nm line in_top written ls of (out, w) \<Rightarrow> (l # out, w)))"

definition set_toml_lines :: "string \<Rightarrow> bool \<Rightarrow> string list \<Rightarrow> string list" where
  "set_toml_lines nm value ls =
     (let line = nm @ '' = '' @ show_bool value
      in case toml_lines nm line True False ls of (out, written) \<Rightarrow> if written then out else line # out)"

definition set_top_level_toml_bool :: "string \<Rightarrow> string \<Rightarrow> bool \<Rightarrow> string" where
  "set_top_level_toml_bool t nm value = join [nl_char] (set_toml_lines nm value (lines t)) @ [nl_char]"

text \<open>Setting the key again changes nothing: the lines are already as they should be.\<close>

lemma toml_lines_outside: "toml_lines nm line False written ls = (ls, written)"
  by (induction ls) simp_all

lemma toml_lines_written:
  assumes "toml_lines nm line True True ls = (out, w)"
  shows "w" "toml_lines nm line True True out = (out, True)" "filter (assigns_key nm) (takeWhile (\<lambda>l. \<not> is_toml_header l) out) = []"
  using assms by (induction ls arbitrary: out w) (auto simp: toml_lines_outside split: if_split_asm prod.split_asm)

lemma toml_lines_set:
  assumes "toml_lines nm line True False ls = (out, w)" "\<not> is_toml_header line" "assigns_key nm line"
  shows "if w then toml_lines nm line True False out = (out, True)
           \<and> filter (assigns_key nm) (takeWhile (\<lambda>l. \<not> is_toml_header l) out) = [line]
         else toml_lines nm line True True out = (out, True)
           \<and> filter (assigns_key nm) (takeWhile (\<lambda>l. \<not> is_toml_header l) out) = []"
  using assms
proof (induction ls arbitrary: out w)
  case (Cons l ls)
  show ?case
  proof (cases "is_toml_header l")
    case True
    with Cons.prems show ?thesis by (auto simp: toml_lines_outside)
  next
    case h: False
    show ?thesis
    proof (cases "assigns_key nm l")
      case True
      obtain out' w' where o: "toml_lines nm line True True ls = (out', w')" by force
      from toml_lines_written[OF o] h True o Cons.prems show ?thesis by auto
    next
      case False
      obtain out' w' where o: "toml_lines nm line True False ls = (out', w')" by force
      from Cons.IH[OF o Cons.prems(2,3)] h False o Cons.prems(1) show ?thesis by (auto split: if_splits)
    qed
  qed
qed simp

text \<open>The daemon's own key in the settings of a seat. Whatever lines the file has, after the write exactly one line
  before the first table assigns the key, that line is the daemon's, and writing it again changes nothing.\<close>

theorem toml_key_is_set:
  "filter (assigns_key ''enable_telemetry'')
      (takeWhile (\<lambda>l. \<not> is_toml_header l) (set_toml_lines ''enable_telemetry'' False ls)) = [''enable_telemetry = false'']
   \<and> set_toml_lines ''enable_telemetry'' False (set_toml_lines ''enable_telemetry'' False ls)
      = set_toml_lines ''enable_telemetry'' False ls"
proof -
  define line where "line = ''enable_telemetry = false''"
  have l: "\<not> is_toml_header line" "assigns_key ''enable_telemetry'' line"
    unfolding line_def by code_simp+
  have e: "''enable_telemetry'' @ '' = '' @ show_bool False = line" unfolding line_def by code_simp
  obtain out w where o: "toml_lines ''enable_telemetry'' line True False ls = (out, w)" by force
  have f: "set_toml_lines ''enable_telemetry'' False xs =
      (case toml_lines ''enable_telemetry'' line True False xs of (out, written) \<Rightarrow> if written then out else line # out)" for xs
    by (simp only: set_toml_lines_def Let_def e)
  from toml_lines_set[OF o l] show ?thesis unfolding line_def[symmetric] f o by (cases w) (auto simp: l)
qed

subsection \<open>Profiles of the write barrier\<close>

definition dquote :: string where
  "dquote = [CHR 0x22]"

definition backslash :: string where
  "backslash = [CHR 0x5C]"

definition profile_safe :: "string \<Rightarrow> bool" where
  "profile_safe s \<longleftrightarrow> \<not> contains_sub s dquote \<and> \<not> contains_sub s backslash \<and> starts_with s ''/''"

definition refused_path :: "string \<Rightarrow> string" where
  "refused_path s = ''containment: refusing to put '' @ debug_str s @ '' in a seatbelt profile''"

definition quoted :: "(string \<Rightarrow> string option) \<Rightarrow> string \<Rightarrow> string + string" where
  "quoted canonicalize p =
     (let s = (case canonicalize p of Some real \<Rightarrow> real | None \<Rightarrow> p)
      in if profile_safe s then Inr s else Inl (refused_path s))"

definition allow_subpath :: "string \<Rightarrow> string" where
  "allow_subpath s = ''(allow file-write* (subpath '' @ dquote @ s @ dquote @ ''))'' @ [nl_char]"

definition allow_literals :: "string list \<Rightarrow> string" where
  "allow_literals ps =
     ''(allow file-write* '' @ join '' '' (map (\<lambda>p. ''(literal '' @ dquote @ p @ dquote @ '')'') ps) @ '')'' @ [nl_char]"

definition render_seatbelt_profile :: "(string \<Rightarrow> string option) \<Rightarrow> string \<Rightarrow> string \<Rightarrow> string \<Rightarrow> string + string" where
  "render_seatbelt_profile canonicalize home output_dir tmpdir =
     (case quoted canonicalize home of
        Inl e \<Rightarrow> Inl e
      | Inr h \<Rightarrow> (case quoted canonicalize output_dir of
          Inl e \<Rightarrow> Inl e
        | Inr d \<Rightarrow> (case quoted canonicalize tmpdir of
            Inl e \<Rightarrow> Inl e
          | Inr t \<Rightarrow>
              Inr (''(version 1)'' @ [nl_char] @ ''(allow default)'' @ [nl_char] @ ''(deny file-write*)'' @ [nl_char]
                @ concat (map allow_subpath [h, d, t, ''/private/var/folders'', ''/private/tmp''])
                @ allow_literals [''/dev/null'', ''/dev/stdout'', ''/dev/stderr'', ''/dev/dtracehelper'', ''/dev/tty'']))))"

definition render_writer_seatbelt_profile ::
  "(string \<Rightarrow> string option) \<Rightarrow> string \<Rightarrow> string \<Rightarrow> string \<Rightarrow> string \<Rightarrow> string + string"
where
  "render_writer_seatbelt_profile canonicalize home output_dir tmpdir worktree =
     (case render_seatbelt_profile canonicalize home output_dir tmpdir of
        Inl e \<Rightarrow> Inl e
      | Inr base \<Rightarrow>
          (case canonicalize worktree of
             None \<Rightarrow> Inl (''containment: cannot resolve worktree '' @ worktree)
           | Some s \<Rightarrow>
               if \<not> profile_safe s \<or> s = ''/'' then Inl (refused_path s) else Inr (base @ allow_subpath s)))"

subsection \<open>Snapshots\<close>

type_synonym RepoSnapshot = "(string, string) btree_map"

definition audit_repo :: "RepoSnapshot \<Rightarrow> RepoSnapshot \<Rightarrow> string list" where
  "audit_repo before after =
     sort_names
       (map fst (filter (\<lambda>(p, v). bt_get before p \<noteq> Some v) after)
        @ filter (\<lambda>p. \<not> bt_contains_key after p) (bt_keys before))"

text \<open>What a directory holds: the digest of a file, the target of a link, something else; \<open>None\<close> where the call fails.\<close>

datatype node =
    NDir "(string \<times> node) list option"
  | NFile "string option"
  | NLink "string option"
  | NSpecial
  | NNoStat

definition WALK_CAP :: nat where
  "WALK_CAP = 10000"

text \<open>\<open>snapshot_dir\<close>: the entries of the directory at hand, and the stack of directories still to list.\<close>

type_synonym listing = "(string \<times> node) list option"

definition node_value :: "string \<Rightarrow> node \<Rightarrow> string + string" where
  "node_value rel n =
     (case n of
        NFile (Some h) \<Rightarrow> Inr (''file:'' @ h)
      | NFile None \<Rightarrow> Inl (''containment: cannot read '' @ rel)
      | NLink (Some t) \<Rightarrow> Inr (''symlink:'' @ t)
      | NLink None \<Rightarrow> Inl (''containment: cannot read link '' @ rel)
      | NSpecial \<Rightarrow> Inr ''special''
      | _ \<Rightarrow> Inl (''containment: cannot stat '' @ rel))"

definition dir_of :: "node \<Rightarrow> listing option" where
  "dir_of n = (case n of NDir l \<Rightarrow> Some l | _ \<Rightarrow> None)"

definition rel_name :: "string \<Rightarrow> string \<Rightarrow> string" where
  "rel_name dir name = (if dir = [] then name else dir @ ''/'' @ name)"

fun list_dir ::
  "nat \<Rightarrow> string \<Rightarrow> (string \<times> node) list \<Rightarrow> (string \<times> listing) list \<Rightarrow> RepoSnapshot
     \<Rightarrow> string + (string \<times> listing) list \<times> RepoSnapshot"
where
  "list_dir cap dir [] stack m = Inr (stack, m)"
| "list_dir cap dir ((name, n) # items) stack m =
     (case dir_of n of
        Some l \<Rightarrow> list_dir cap dir items ((rel_name dir name, l) # stack) m
      | None \<Rightarrow>
          (case node_value (rel_name dir name) n of
             Inl e \<Rightarrow> Inl e
           | Inr v \<Rightarrow>
               if length (bt_insert (rel_name dir name) v m) > cap then Inl (''more than '' @ show_nat cap @ '' files'')
               else list_dir cap dir items stack (bt_insert (rel_name dir name) v m)))"

fun weight :: "node \<Rightarrow> nat" where
  "weight (NDir (Some xs)) = Suc (sum_list (map (weight \<circ> snd) xs))"
| "weight _ = 1"

definition stack_weight :: "(string \<times> listing) list \<Rightarrow> nat" where
  "stack_weight stack = sum_list (map (\<lambda>(_, l). weight (NDir l)) stack)"

lemma dir_of_Some: "dir_of n = Some l \<longleftrightarrow> n = NDir l"
  by (simp add: dir_of_def split: node.split)

lemma list_dir_weight:
  "list_dir cap dir items stack m = Inr (stack', m') \<Longrightarrow>
     stack_weight stack' \<le> stack_weight stack + sum_list (map (weight \<circ> snd) items)"
proof (induction cap dir items stack m rule: list_dir.induct)
  case (2 cap dir name n items stack m)
  show ?case
  proof (cases "dir_of n")
    case None
    then obtain v where "node_value (rel_name dir name) n = Inr v" "\<not> length (bt_insert (rel_name dir name) v m) > cap"
        "list_dir cap dir items stack (bt_insert (rel_name dir name) v m) = Inr (stack', m')"
      using "2.prems" by (simp split: sum.split_asm if_split_asm)
    from 2(1)[OF None this] show ?thesis by simp
  next
    case (Some l)
    then have "list_dir cap dir items ((rel_name dir name, l) # stack) m = Inr (stack', m')" using "2.prems" by simp
    from 2(2)[OF Some this] Some show ?thesis by (simp add: stack_weight_def dir_of_Some)
  qed
qed simp

function walk :: "nat \<Rightarrow> (string \<times> listing) list \<Rightarrow> RepoSnapshot \<Rightarrow> string + RepoSnapshot" where
  "walk cap [] m = Inr m"
| "walk cap ((dir, None) # stack) m = Inl (''containment: cannot list '' @ dir)"
| "walk cap ((dir, Some items) # stack) m =
     (case list_dir cap dir items stack m of Inl e \<Rightarrow> Inl e | Inr (stack', m') \<Rightarrow> walk cap stack' m')"
  by pat_completeness auto

termination
proof (relation "measure (\<lambda>(cap, stack, m). stack_weight stack)")
  fix cap dir items stack m x and stack' m'
  assume "list_dir cap dir items stack m = Inr x" "(stack', m') = x"
  then have "list_dir cap dir items stack m = Inr (stack', m')" by simp
  from list_dir_weight[OF this]
  show "((cap, stack', m'), cap, (dir, Some items) # stack, m) \<in> measure (\<lambda>(cap, stack, m). stack_weight stack)"
    by (simp add: stack_weight_def)
qed simp

definition snapshot_dir :: "listing \<Rightarrow> string + RepoSnapshot" where
  "snapshot_dir root = walk WALK_CAP [([], root)] []"

text \<open>Reference: all leaves of a tree with their relative names, or \<open>None\<close> when some part cannot be read.\<close>

fun leaves :: "string \<Rightarrow> node \<Rightarrow> (string \<times> string) list option" and leaves_in :: "string \<Rightarrow> (string \<times> node) list \<Rightarrow> (string \<times> string) list option" where
  "leaves rel (NDir None) = None"
| "leaves rel (NDir (Some items)) = leaves_in rel items"
| "leaves rel n = (case node_value rel n of Inl _ \<Rightarrow> None | Inr v \<Rightarrow> Some [(rel, v)])"
| "leaves_in dir [] = Some []"
| "leaves_in dir ((name, n) # items) =
     (case leaves (rel_name dir name) n of
        None \<Rightarrow> None
      | Some xs \<Rightarrow> map_option (\<lambda>ys. xs @ ys) (leaves_in dir items))"

definition both :: "'a set option \<Rightarrow> 'a set option \<Rightarrow> 'a set option" where
  "both a b = (case (a, b) of (Some x, Some y) \<Rightarrow> Some (x \<union> y) | _ \<Rightarrow> None)"

lemma both_simps [simp]: "both None b = None" "both a None = None" "both (Some x) (Some y) = Some (x \<union> y)"
  by (simp_all add: both_def split: option.split)

lemma both_assoc: "both a (both b c) = both (both a b) c" and both_left: "both a (both b c) = both b (both a c)"
  by (cases a; cases b; cases c; auto)+

definition stack_leaves :: "(string \<times> listing) list \<Rightarrow> (string \<times> string) set option" where
  "stack_leaves stack = foldr (\<lambda>(dir, l). both (map_option set (leaves dir (NDir l)))) stack (Some {})"

definition keep_leaves :: "nat \<Rightarrow> RepoSnapshot \<Rightarrow> (string \<times> string) set \<Rightarrow> RepoSnapshot \<Rightarrow> bool" where
  "keep_leaves cap m L m' \<longleftrightarrow>
     bt_invar m' \<and> length m' \<le> cap \<and> fst ` set m' = fst ` set m \<union> fst ` L \<and> set m' \<subseteq> set m \<union> L"

lemma stack_leaves_Cons: "stack_leaves ((dir, l) # stack) = both (map_option set (leaves dir (NDir l))) (stack_leaves stack)"
  by (simp add: stack_leaves_def)

lemma leaves_in_set:
  "map_option set (leaves_in dir ((name, n) # items)) =
     both (map_option set (leaves (rel_name dir name) n)) (map_option set (leaves_in dir items))"
  by (simp split: option.split) (cases "leaves_in dir items"; simp)

lemma leaves_of_leaf: "dir_of n = None \<Longrightarrow> leaves rel n = (case node_value rel n of Inl _ \<Rightarrow> None | Inr v \<Rightarrow> Some [(rel, v)])"
  by (cases n) (simp_all add: dir_of_def)

lemma set_bt_insert: "set (bt_insert k v m) \<subseteq> insert (k, v) (set m)"
  by (induction k v m rule: bt_insert.induct) auto

lemma keep_leaves_insert:
  "bt_invar m \<Longrightarrow> length (bt_insert k v m) \<le> cap \<Longrightarrow> keep_leaves cap (bt_insert k v m) L m' \<Longrightarrow> keep_leaves cap m (insert (k, v) L) m'"
  using set_bt_insert[of k v m] by (auto simp: keep_leaves_def set_fst_bt_insert)

lemma length_bt_insert:
  assumes "bt_invar m"
  shows "length (bt_insert k v m) = card (insert k (fst ` set m))"
proof -
  have "distinct (map fst (bt_insert k v m))" using bt_invar_distinct[OF bt_invar_insert[OF assms]] .
  from distinct_card[OF this] show ?thesis by (simp add: set_fst_bt_insert)
qed

lemma finite_stack_leaves: "stack_leaves stack = Some L \<Longrightarrow> finite L"
proof (induction stack arbitrary: L)
  case (Cons x stack)
  obtain dir l where x: "x = (dir, l)" by force
  from Cons show ?case unfolding x stack_leaves_Cons
    by (cases "leaves dir (NDir l)"; cases "stack_leaves stack") auto
qed (simp add: stack_leaves_def)

lemma finite_both_leaves: "both (map_option set xs) (stack_leaves stack) = Some L \<Longrightarrow> finite L"
  by (cases xs; cases "stack_leaves stack") (auto dest: finite_stack_leaves)

lemma list_dir_spec:
  assumes "bt_invar m" "length m \<le> cap"
  shows "case list_dir cap dir items stack m of
      Inr (stack', m') \<Rightarrow> \<exists>N. keep_leaves cap m N m' \<and>
        both (map_option set (leaves_in dir items)) (stack_leaves stack) = both (Some N) (stack_leaves stack')
    | Inl _ \<Rightarrow> (case both (map_option set (leaves_in dir items)) (stack_leaves stack) of
        None \<Rightarrow> True | Some L \<Rightarrow> card (fst ` set m \<union> fst ` L) > cap)"
  using assms
proof (induction cap dir items stack m rule: list_dir.induct)
  case (1 cap dir stack m)
  then show ?case by (auto intro!: exI[of _ "{}"] simp: keep_leaves_def both_def split: option.split)
next
  case (2 cap dir name n items stack m)
  let ?rel = "rel_name dir name"
  show ?case
  proof (cases "dir_of n")
    case (Some l)
    have eq: "both (map_option set (leaves_in dir ((name, n) # items))) (stack_leaves stack)
        = both (map_option set (leaves_in dir items)) (stack_leaves ((?rel, l) # stack))"
      using Some by (simp add: stack_leaves_Cons leaves_in_set dir_of_Some both_left both_assoc del: leaves_in.simps)
        (metis both_assoc both_left)
    have "list_dir cap dir ((name, n) # items) stack m = list_dir cap dir items ((?rel, l) # stack) m" using Some by simp
    with 2(2)[OF Some 2(3,4)] show ?thesis unfolding eq by simp
  next
    case None
    show ?thesis
    proof (cases "node_value ?rel n")
      case (Inl e)
      with None show ?thesis by (simp add: leaves_in_set leaves_of_leaf del: leaves_in.simps)
    next
      case (Inr v)
      define rest where "rest = both (map_option set (leaves_in dir items)) (stack_leaves stack)"
      have split: "both (map_option set (leaves_in dir ((name, n) # items))) (stack_leaves stack) = both (Some {(?rel, v)}) rest"
        using None Inr by (simp add: leaves_in_set leaves_of_leaf rest_def both_assoc del: leaves_in.simps)
      show ?thesis
      proof (cases "length (bt_insert ?rel v m) > cap")
        case True
        have "cap < card (fst ` set m \<union> fst ` insert (?rel, v) L)" if "rest = Some L" for L
        proof -
          have "finite L" using that finite_both_leaves unfolding rest_def by blast
          then have "card (insert ?rel (fst ` set m)) \<le> card (fst ` set m \<union> fst ` insert (?rel, v) L)"
            by (intro card_mono) auto
          with True 2(3) show ?thesis by (simp add: length_bt_insert)
        qed
        with None Inr True show ?thesis unfolding split by (cases rest) simp_all
      next
        case False
        from 2(1)[OF None Inr False bt_invar_insert[OF 2(3)]] False
        have ih: "case list_dir cap dir items stack (bt_insert ?rel v m) of
            Inr (stack', m') \<Rightarrow> \<exists>N. keep_leaves cap (bt_insert ?rel v m) N m' \<and> rest = both (Some N) (stack_leaves stack')
          | Inl _ \<Rightarrow> (case rest of None \<Rightarrow> True | Some L \<Rightarrow> card (fst ` set (bt_insert ?rel v m) \<union> fst ` L) > cap)"
          unfolding rest_def by simp
        have eq: "list_dir cap dir ((name, n) # items) stack m = list_dir cap dir items stack (bt_insert ?rel v m)"
          using None Inr False by simp
        show ?thesis
        proof (cases "list_dir cap dir items stack (bt_insert ?rel v m)")
          case (Inl e)
          with ih show ?thesis unfolding split eq by (cases rest) (simp_all add: set_fst_bt_insert)
        next
          case (Inr r)
          obtain stack' m' where r: "r = (stack', m')" by force
          with ih Inr obtain N where N: "keep_leaves cap (bt_insert ?rel v m) N m'" "rest = both (Some N) (stack_leaves stack')" by auto
          from keep_leaves_insert[OF 2(3) _ N(1)] False have "keep_leaves cap m (insert (?rel, v) N) m'" by simp
          with N(2) Inr r show ?thesis unfolding split eq
            by (auto intro!: exI[of _ "insert (?rel, v) N"] simp: both_def split: option.split)
        qed
      qed
    qed
  qed
qed

lemma keep_leaves_trans: "keep_leaves cap m N m' \<Longrightarrow> keep_leaves cap m' L m'' \<Longrightarrow> keep_leaves cap m (N \<union> L) m''"
  by (auto simp: keep_leaves_def)

lemma walk_spec:
  assumes "bt_invar m" "length m \<le> cap"
  shows "case walk cap stack m of
      Inr m' \<Rightarrow> \<exists>L. stack_leaves stack = Some L \<and> keep_leaves cap m L m'
    | Inl _ \<Rightarrow> (case stack_leaves stack of None \<Rightarrow> True | Some L \<Rightarrow> card (fst ` set m \<union> fst ` L) > cap)"
  using assms
proof (induction cap stack m rule: walk.induct)
  case (1 cap m)
  then show ?case by (simp add: stack_leaves_def keep_leaves_def)
next
  case (2 cap dir stack m)
  then show ?case by (simp add: stack_leaves_Cons)
next
  case (3 cap dir items stack m)
  note ld = list_dir_spec[OF 3(2,3), of dir items stack]
  have eq: "stack_leaves ((dir, Some items) # stack) = both (map_option set (leaves_in dir items)) (stack_leaves stack)"
    by (simp add: stack_leaves_Cons)
  show ?case
  proof (cases "list_dir cap dir items stack m")
    case (Inl e)
    with ld show ?thesis unfolding eq by simp
  next
    case (Inr r)
    obtain stack' m' where r: "r = (stack', m')" by force
    with ld Inr obtain N where N: "keep_leaves cap m N m'" "stack_leaves ((dir, Some items) # stack) = both (Some N) (stack_leaves stack')"
      unfolding eq by auto
    then have ok: "bt_invar m'" "length m' \<le> cap" and k: "fst ` set m' = fst ` set m \<union> fst ` N" by (auto simp: keep_leaves_def)
    have w: "walk cap ((dir, Some items) # stack) m = walk cap stack' m'" using Inr r by simp
    show ?thesis
    proof (cases "walk cap stack' m'")
      case (Inl e)
      with 3(1)[OF Inr r[symmetric] ok] show ?thesis unfolding w N(2) by (cases "stack_leaves stack'") (simp_all add: k image_Un Un_assoc)
    next
      case w': (Inr m'')
      with 3(1)[OF Inr r[symmetric] ok] obtain L where "stack_leaves stack' = Some L" "keep_leaves cap m' L m''" by auto
      with N keep_leaves_trans show ?thesis unfolding w w' by auto
    qed
  qed
qed

text \<open>C22: the snapshot of a directory that is no work tree. It succeeds only when every part of the tree could be listed,
  looked at and read and there are at most 10 000 names; then it has an entry for every file, link and special file of
  the tree and no other, each with what the tree holds there. It fails only when some part could not be read or there
  are more names: a snapshot is never partial.\<close>

theorem snapshot_dir_exact:
  "case snapshot_dir root of
     Inr m \<Rightarrow> (\<exists>L. leaves [] (NDir root) = Some L \<and> bt_invar m \<and> set m \<subseteq> set L \<and> fst ` set m = fst ` set L \<and> length m \<le> WALK_CAP)
   | Inl _ \<Rightarrow> (case leaves [] (NDir root) of None \<Rightarrow> True | Some L \<Rightarrow> card (fst ` set L) > WALK_CAP)"
proof -
  have s: "stack_leaves [([], root)] = map_option set (leaves [] (NDir root))"
    by (cases "leaves [] (NDir root)") (simp_all add: stack_leaves_def)
  have "bt_invar ([] :: RepoSnapshot)" by (simp add: bt_invar_def)
  from walk_spec[OF this, of WALK_CAP "[([], root)]"] show ?thesis
    unfolding s snapshot_dir_def[symmetric]
    by (cases "snapshot_dir root"; cases "leaves [] (NDir root)") (auto simp: keep_leaves_def)
qed

lemma audit_repo_set:
  assumes "bt_invar before" and "bt_invar after"
  shows "set (audit_repo before after) = {p. bt_get before p \<noteq> bt_get after p}"
proof -
  have a: "(p, v) \<in> set after \<longleftrightarrow> bt_get after p = Some v" for p v
    using bt_invar_distinct[OF assms(2)] by (simp add: bt_get_def)
  have k: "p \<in> fst ` set before \<longleftrightarrow> bt_get before p \<noteq> None" for p
    by (simp add: bt_get_def map_of_eq_None_iff)
  have "set (audit_repo before after) =
      fst ` {(p, v). (p, v) \<in> set after \<and> bt_get before p \<noteq> Some v} \<union> {p \<in> fst ` set before. bt_get after p = None}"
    by (auto simp: audit_repo_def sort_names_def bt_keys_def bt_contains_key_def)
  also have "\<dots> = {p. \<exists>v. bt_get after p = Some v \<and> bt_get before p \<noteq> Some v} \<union> {p. bt_get before p \<noteq> None \<and> bt_get after p = None}"
    unfolding a k by force
  also have "\<dots> = {p. bt_get before p \<noteq> bt_get after p}"
  proof (intro set_eqI)
    fix p
    show "p \<in> {p. \<exists>v. bt_get after p = Some v \<and> bt_get before p \<noteq> Some v} \<union> {p. bt_get before p \<noteq> None \<and> bt_get after p = None}
      \<longleftrightarrow> p \<in> {p. bt_get before p \<noteq> bt_get after p}"
      by (cases "bt_get after p") auto
  qed
  finally show ?thesis .
qed

lemma audit_repo_distinct:
  assumes "bt_invar before" and "bt_invar after"
  shows "distinct (audit_repo before after)"
proof -
  have d: "distinct (map fst before)" "distinct (map fst after)" using assms bt_invar_distinct by blast+
  have "distinct (map fst (filter (\<lambda>(p, v). bt_get before p \<noteq> Some v) after))" using d(2) by (rule distinct_map_filter)
  moreover have "p \<in> fst ` set after \<Longrightarrow> bt_contains_key after p" for p
    by (auto simp: bt_contains_key_def bt_get_def map_of_eq_None_iff)
  ultimately show ?thesis using d by (auto simp: audit_repo_def sort_names_def bt_keys_def)
qed

lemma audit_repo_empty:
  assumes "bt_invar before" and "bt_invar after"
  shows "audit_repo before after = [] \<longleftrightarrow> before = after"
proof -
  have "audit_repo before after = [] \<longleftrightarrow> {p. bt_get before p \<noteq> bt_get after p} = {}"
    unfolding audit_repo_set[OF assms, symmetric] by simp
  also have "\<dots> \<longleftrightarrow> before = after" using bt_ext[OF assms] by (auto simp: fun_eq_iff)
  finally show ?thesis .
qed

text \<open>C21: the audit. It names, in order and each once, exactly the paths whose entry differs between the two snapshots;
  so it is empty exactly when the snapshots are the same.\<close>

theorem audit_repo_exact:
  assumes "bt_invar before" and "bt_invar after"
  shows "set (audit_repo before after) = {p. bt_get before p \<noteq> bt_get after p}
    \<and> sorted (audit_repo before after) \<and> distinct (audit_repo before after)
    \<and> (audit_repo before after = [] \<longleftrightarrow> before = after)"
  using audit_repo_set[OF assms] audit_repo_distinct[OF assms] audit_repo_empty[OF assms]
  by (simp add: audit_repo_def sort_names_def)

theorem audit_repo_exact_witness:
  "bt_invar [(''a.rs'', ''file:1''), (''b.rs'', ''file:2'')] \<and> bt_invar [(''b.rs'', ''file:3'')]
   \<and> set (audit_repo [(''a.rs'', ''file:1''), (''b.rs'', ''file:2'')] [(''b.rs'', ''file:3'')])
       = {p. bt_get [(''a.rs'', ''file:1''), (''b.rs'', ''file:2'')] p \<noteq> bt_get [(''b.rs'', ''file:3'')] p}
   \<and> audit_repo [(''a.rs'', ''file:1''), (''b.rs'', ''file:2'')] [(''b.rs'', ''file:3'')] \<noteq> []"
proof -
  have "bt_invar [(''a.rs'', ''file:1''), (''b.rs'', ''file:2'')]" "bt_invar [(''b.rs'', ''file:3'')]" by code_simp+
  with audit_repo_exact[OF this] show ?thesis by simp
qed

subsection \<open>Snapshots of a repository\<close>

text \<open>What git and the file system answer for one directory at one moment: whether it is in a work tree (or that git
  cannot be run, and otherwise the success and the output), the status text, the digests of listed paths (one per
  line), which paths are files, and the tree below it.\<close>

record repo_view =
  rv_inside :: "string + bool \<times> string"
  rv_status :: "string + string"
  rv_hashes :: "string list \<Rightarrow> string + string"
  rv_is_file :: "string \<Rightarrow> bool"
  rv_root :: listing

text \<open>The entries of \<open>git status -z\<close>: a rename or a copy carries its source as one more field.\<close>

function porcelain_statuses :: "string list \<Rightarrow> (string \<times> string) list" where
  "porcelain_statuses [] = []"
| "porcelain_statuses (f # fs) =
     (if length f < 4 then porcelain_statuses fs
      else (drop 3 f, take 2 f) #
             porcelain_statuses (if starts_with f ''R'' \<or> starts_with f ''C'' then drop 1 fs else fs))"
  by pat_completeness auto

termination by (relation "measure length") auto

definition nul_fields :: "string \<Rightarrow> string list" where
  "nul_fields raw = filter (\<lambda>f. f \<noteq> []) (split_char (CHR 0x00) raw)"

fun status_entries :: "string list \<Rightarrow> string list \<Rightarrow> (string \<times> string) list \<Rightarrow> RepoSnapshot \<Rightarrow> RepoSnapshot" where
  "status_entries present hashes [] m = m"
| "status_entries present hashes ((p, xy) # ss) m =
     (if xy = ''!!'' then status_entries present hashes ss (bt_insert p ''ignored'' m)
      else if p \<in> set present then
        (case hashes of
           [] \<Rightarrow> status_entries present [] ss (bt_insert p (xy @ '':'' @ ''?'') m)
         | h # hs \<Rightarrow> status_entries present hs ss (bt_insert p (xy @ '':'' @ h) m))
      else status_entries present hashes ss (bt_insert p (xy @ '':'' @ ''absent'') m))"

definition present_paths :: "(string \<Rightarrow> bool) \<Rightarrow> string \<Rightarrow> (string \<times> string) list \<Rightarrow> string list" where
  "present_paths is_file cwd statuses = map fst (filter (\<lambda>(p, xy). xy \<noteq> ''!!'' \<and> is_file (path_join cwd p)) statuses)"

definition snapshot_repo :: "repo_view \<Rightarrow> string \<Rightarrow> string + RepoSnapshot" where
  "snapshot_repo V cwd =
     (case rv_status V of
        Inl e \<Rightarrow> Inl e
      | Inr raw \<Rightarrow>
          (let statuses = porcelain_statuses (nul_fields raw);
               present = present_paths (rv_is_file V) cwd statuses
           in case (if present = [] then Inr [] else rv_hashes V present) of
                Inl e \<Rightarrow> Inl e
              | Inr out \<Rightarrow> Inr (status_entries present (lines out) statuses [])))"

definition snapshot_cwd :: "repo_view \<Rightarrow> string \<Rightarrow> string + RepoSnapshot" where
  "snapshot_cwd V cwd =
     (case rv_inside V of
        Inl e \<Rightarrow> Inl (''containment: cannot run git: '' @ e)
      | Inr (good, out) \<Rightarrow> if good \<and> trim out = ''true'' then snapshot_repo V cwd else snapshot_dir (rv_root V))"

lemma bt_invar_status_entries: "bt_invar m \<Longrightarrow> bt_invar (status_entries present hashes ss m)"
  by (induction present hashes ss m rule: status_entries.induct) (auto simp: bt_invar_insert split: list.split)

lemma snapshot_cwd_invar:
  assumes "snapshot_cwd V cwd = Inr m"
  shows "bt_invar m"
proof (cases "snapshot_repo V cwd = Inr m")
  case True
  have "bt_invar ([] :: RepoSnapshot)" by (simp add: bt_invar_def)
  with True show ?thesis
    by (auto simp: snapshot_repo_def Let_def bt_invar_status_entries split: sum.split_asm if_split_asm)
next
  case False
  with assms have "snapshot_dir (rv_root V) = Inr m"
    by (auto simp: snapshot_cwd_def split: sum.split_asm if_split_asm)
  with walk_spec[of "[]" WALK_CAP "[([], rv_root V)]"] show ?thesis
    by (auto simp: snapshot_dir_def keep_leaves_def bt_invar_def)
qed

text \<open>
  The status names paths from the top of the repository, but they are looked for below \<open>cwd\<close>. When \<open>cwd\<close> is a
  directory inside the repository and none of the names exists there, no path is hashed: the snapshot depends on the
  status text alone, and another write to a file that was already changed is not seen.
\<close>

lemma subdirectory_snapshot_ignores_contents:
  assumes "rv_status V = rv_status V'" and "\<And>p. \<not> rv_is_file V (path_join cwd p)" and "\<And>p. \<not> rv_is_file V' (path_join cwd p)"
  shows "snapshot_repo V cwd = snapshot_repo V' cwd"
proof -
  have "present_paths (rv_is_file V) cwd ss = []" "present_paths (rv_is_file V') cwd ss = []" for ss
    using assms(2,3) by (auto simp: present_paths_def filter_empty_conv)
  then show ?thesis using assms(1) by (cases "rv_status V'") (simp_all add: snapshot_repo_def Let_def)
qed

subsection \<open>Git metadata of a work tree\<close>

record WorktreeGitDirs =
  wd_git_dir :: string
  wd_common_dir :: string
  wd_main_worktree :: string
  wd_branch_ref :: "string option"

text \<open>\<open>rev_parse\<close> is the output of \<open>git rev-parse --git-dir --git-common-dir\<close>, \<open>symbolic_ref\<close> that of
  \<open>git symbolic-ref -q HEAD\<close> when it succeeds.\<close>

definition resolved_dir :: "(string \<Rightarrow> string option) \<Rightarrow> string \<Rightarrow> string list \<Rightarrow> nat \<Rightarrow> string + string" where
  "resolved_dir canonicalize worktree ls i =
     (if i < length ls then
        (let joined = path_join worktree (ls ! i)
         in case canonicalize joined of Some d \<Rightarrow> Inr d | None \<Rightarrow> Inl (''containment: cannot resolve '' @ joined))
      else Inl ''containment: git rev-parse printed too little'')"

definition parent_text :: "string \<Rightarrow> string option" where
  "parent_text p = map_option show_path (pop (components p))"

definition worktree_git_dirs ::
  "(string \<Rightarrow> string option) \<Rightarrow> string + string \<Rightarrow> string option \<Rightarrow> string \<Rightarrow> string + WorktreeGitDirs"
where
  "worktree_git_dirs canonicalize rev_parse symbolic_ref worktree =
     (case rev_parse of
        Inl e \<Rightarrow> Inl e
      | Inr out \<Rightarrow>
          (case resolved_dir canonicalize worktree (lines out) 0 of
             Inl e \<Rightarrow> Inl e
           | Inr git_dir \<Rightarrow>
               (case resolved_dir canonicalize worktree (lines out) 1 of
                  Inl e \<Rightarrow> Inl e
                | Inr common_dir \<Rightarrow>
                    if git_dir = common_dir then
                      Inl (''seat_requires_linked_worktree: '' @ worktree @ '' is not a linked git worktree'')
                    else if file_name (components common_dir) \<noteq> Some ''.git'' then
                      Inl (''seat_requires_linked_worktree: '' @ worktree @ '' has no main working tree (common dir '' @ common_dir @ '')'')
                    else
                      (case parent_text common_dir of
                         None \<Rightarrow> Inl (''containment: '' @ common_dir @ '' has no parent'')
                       | Some main \<Rightarrow>
                           Inr \<lparr>wd_git_dir = git_dir, wd_common_dir = common_dir, wd_main_worktree = main,
                                wd_branch_ref =
                                  (case map_option trim symbolic_ref of Some b \<Rightarrow> if b = [] then None else Some b | None \<Rightarrow> None)\<rparr>))))"

text \<open>What the file system holds at a path: \<open>mv_node\<close> without following a link, \<open>mv_dir\<close> the listing when it is a
  directory, \<open>mv_stat\<close> the time and size.\<close>

record meta_view =
  mv_node :: "string \<Rightarrow> node option"
  mv_dir :: "string \<Rightarrow> listing option"
  mv_stat :: "string \<Rightarrow> string"

definition file_marker :: "meta_view \<Rightarrow> string \<Rightarrow> bool \<Rightarrow> string + string" where
  "file_marker M p stat_only =
     (case mv_node M p of
        None \<Rightarrow> Inr ''absent''
      | Some n \<Rightarrow>
          (case n of
             NLink _ \<Rightarrow> node_value p n
           | NDir _ \<Rightarrow> Inr ''dir''
           | NNoStat \<Rightarrow> node_value p n
           | _ \<Rightarrow> if stat_only then Inr (mv_stat M p) else node_value p n))"

definition add_tree :: "meta_view \<Rightarrow> string \<Rightarrow> string \<Rightarrow> (string \<Rightarrow> bool) \<Rightarrow> string + RepoSnapshot" where
  "add_tree M pre dir keep =
     (case mv_dir M dir of
        None \<Rightarrow> Inr []
      | Some l \<Rightarrow>
          (case snapshot_dir l of
             Inl e \<Rightarrow> Inl e
           | Inr m \<Rightarrow> Inr (map (\<lambda>(rel, v). (pre @ rel, v)) (filter (\<lambda>(rel, _). keep rel) m))))"

definition marked :: "meta_view \<Rightarrow> string \<Rightarrow> string \<Rightarrow> bool \<Rightarrow> string + RepoSnapshot" where
  "marked M name p stat_only = map_sum id (\<lambda>v. [(name, v)]) (file_marker M p stat_only)"

fun gather :: "(string + RepoSnapshot) list \<Rightarrow> RepoSnapshot \<Rightarrow> string + RepoSnapshot" where
  "gather [] m = Inr m"
| "gather (Inl e # parts) m = Inl e"
| "gather (Inr kvs # parts) m = gather parts (fold (\<lambda>(k, v). bt_insert k v) kvs m)"

definition own_ref :: "WorktreeGitDirs \<Rightarrow> string \<Rightarrow> bool" where
  "own_ref dirs rel = (starts_with rel ''heads/'' \<longrightarrow> wd_branch_ref dirs = Some (''refs/'' @ rel))"

definition snapshot_git_metadata :: "meta_view \<Rightarrow> string \<Rightarrow> WorktreeGitDirs \<Rightarrow> string + RepoSnapshot" where
  "snapshot_git_metadata M worktree dirs =
     (let g = wd_git_dir dirs; c = wd_common_dir dirs
      in gather
           [marked M ''worktree:.git'' (path_join worktree ''.git'') False,
            marked M ''git-dir:HEAD'' (path_join g ''HEAD'') False,
            marked M ''git-dir:index'' (path_join g ''index'') True,
            add_tree M ''git-dir:refs/'' (path_join g ''refs'') (\<lambda>_. True),
            add_tree M ''git-dir:hooks/'' (path_join g ''hooks'') (\<lambda>_. True),
            marked M ''git-common:HEAD'' (path_join c ''HEAD'') False,
            marked M ''git-common:config'' (path_join c ''config'') False,
            add_tree M ''git-common:hooks/'' (path_join c ''hooks'') (\<lambda>_. True),
            add_tree M ''git-common:refs/'' (path_join c ''refs'') (own_ref dirs)] [])"

lemma gather_invar: "gather parts m = Inr m' \<Longrightarrow> bt_invar m \<Longrightarrow> bt_invar m'"
proof (induction parts m rule: gather.induct)
  case (3 kvs parts m)
  have "bt_invar (fold (\<lambda>(k, v). bt_insert k v) kvs m)" using 3(3)
    by (induction kvs arbitrary: m) (auto simp: bt_invar_insert)
  with 3 show ?case by simp
qed simp_all

lemma snapshot_git_metadata_invar: "snapshot_git_metadata M worktree dirs = Inr m \<Longrightarrow> bt_invar m"
  unfolding snapshot_git_metadata_def Let_def by (erule gather_invar) (simp add: bt_invar_def)

end
