(* ===== verification/Seat_Runner.thy ===== *)
theory Seat_Runner
  imports Containment Seat_Streams
begin

text \<open>
  The runners of the newer seats in \<open>triumvirate/src/agent_exec.rs\<close>: a read-only dispatch (\<open>run_new_seat\<close>) and a writer
  in a linked work tree (\<open>seat-run\<close>). A run is a function of what the operating system answers at each of its calls,
  and returns with its result the effects it had, in order. Progress events and telemetry are left out.

  A dispatch is one step on the map of the breakers: the code looks at the breaker before it waits for the seat's lock,
  so that a dispatch which is already waiting when another one trips the breaker still starts its process.

  Shown here: an answer of a reader comes from exactly one process without foreign credentials, which on macOS runs
  behind the write barrier and elsewhere behind none, and between two equal snapshots of the working directory; and a
  turn that fails with the provider's status 429 closes the seat to later dispatches until its cooldown is over.
\<close>

subsection \<open>The quota breaker\<close>

type_synonym breakers = "string \<rightharpoonup> instant"

definition new_seat_quota_cooldown :: "(string \<Rightarrow> string option) \<Rightarrow> duration" where
  "new_seat_quota_cooldown env =
     from_secs (case Option.bind (env ''TRIUMVIRATE_SEAT_QUOTA_COOLDOWN_SECS'') (parse_uint 64) of Some n \<Rightarrow> n | None \<Rightarrow> 1800)"

definition new_seat_breaker_remaining :: "duration \<Rightarrow> instant \<Rightarrow> string \<Rightarrow> breakers \<Rightarrow> nat option \<times> breakers" where
  "new_seat_breaker_remaining cooldown now seat opened =
     (case opened seat of
        None \<Rightarrow> (None, opened)
      | Some t \<Rightarrow>
          (let elapsed = duration_since now t
           in if elapsed \<ge> cooldown then (None, opened(seat := None))
              else (Some (max (as_secs (cooldown - elapsed)) 1), opened)))"

definition trip_new_seat_breaker :: "instant \<Rightarrow> string \<Rightarrow> breakers \<Rightarrow> breakers" where
  "trip_new_seat_breaker now seat opened = opened(seat \<mapsto> now)"

subsection \<open>Failures\<close>

datatype NewSeatFailureClass = SuspendedClass | QuotaClass | OtherClass

text \<open>The pattern \<open>(^|[^0-9])status([^0-9]|$)\<close>.\<close>

definition status_at :: "string \<Rightarrow> string \<Rightarrow> nat \<Rightarrow> bool" where
  "status_at t sc i \<longleftrightarrow>
     starts_with (drop i t) sc
     \<and> (case rev (take i t) of [] \<Rightarrow> True | c # _ \<Rightarrow> \<not> is_ascii_digit c)
     \<and> (case drop (i + length sc) t of [] \<Rightarrow> True | c # _ \<Rightarrow> \<not> is_ascii_digit c)"

definition status_in_code :: "string \<Rightarrow> string \<Rightarrow> bool" where
  "status_in_code t sc = list_ex (status_at t sc) [0 ..< Suc (length t)]"

definition classify_new_seat_failure :: "string \<Rightarrow> string \<Rightarrow> NewSeatFailureClass" where
  "classify_new_seat_failure failure stderr =
     (let t = failure @ [nl_char] @ stderr
      in if status_in_code t ''403'' then SuspendedClass
         else if status_in_code t ''429'' then QuotaClass else OtherClass)"

subsection \<open>Credentials of qwen\<close>

definition show_octal4 :: "nat \<Rightarrow> string" where
  "show_octal4 n = map (\<lambda>k. digit_char (n div 8 ^ k mod 8)) [3, 2, 1, 0]"

text \<open>The mode is that of \<open>metadata\<close>, \<open>None\<close> when there is none.\<close>

definition check_credentials_file :: "string \<Rightarrow> nat option \<Rightarrow> string + unit" where
  "check_credentials_file p mode =
     (case mode of
        None \<Rightarrow> Inl (''credentials_missing: '' @ p)
      | Some m \<Rightarrow>
          if m mod 512 = 384 then Inr ()
          else Inl (''credentials_mode: '' @ p @ '' is '' @ show_octal4 (m mod 512) @ '', must be 0600''))"

definition unquote_with :: "string \<Rightarrow> string \<Rightarrow> string option" where
  "unquote_with q v = Option.bind (strip_prefix v q) (\<lambda>r. strip_suffix r q)"

definition unquote :: "string \<Rightarrow> string" where
  "unquote v = str_or v (or_else (unquote_with [CHR 0x22] v) (unquote_with [CHR 0x27] v))"

fun plan_key_lines :: "string \<Rightarrow> string \<Rightarrow> string list \<Rightarrow> string + string" where
  "plan_key_lines p env_key [] = Inl (''credentials_empty: '' @ p @ '': no '' @ env_key @ '' line'')"
| "plan_key_lines p env_key (l # ls) =
     (let line = trim l
      in if line = [] \<or> starts_with line ''#'' then plan_key_lines p env_key ls
         else case split_once (str_or line (strip_prefix line ''export '')) ''='' of
             None \<Rightarrow> Inl (''credentials_malformed: '' @ p @ '': expected NAME=value'')
           | Some (name, value) \<Rightarrow>
               if trim name \<noteq> env_key then
                 Inl (''credentials_wrong_var: '' @ p @ '': holds '' @ trim name @ '', the plan needs '' @ env_key)
               else if unquote (trim value) = [] then Inl (''credentials_empty: '' @ p @ '': '' @ env_key @ '' has no value'')
               else Inr (unquote (trim value)))"

definition read_qwen_plan_key :: "string \<Rightarrow> nat option \<Rightarrow> string + string \<Rightarrow> string + string \<times> string" where
  "read_qwen_plan_key home mode contents =
     (case plan_auth None of
        Inl e \<Rightarrow> Inl e
      | Inr (env_key, _) \<Rightarrow>
          (let p = path_join home ''credentials.env''
           in case check_credentials_file p mode of
                Inl e \<Rightarrow> Inl e
              | Inr _ \<Rightarrow>
                  (case contents of
                     Inl e \<Rightarrow> Inl (''credentials_unreadable: '' @ p @ '': '' @ e)
                   | Inr t \<Rightarrow> map_sum id (\<lambda>v. (env_key, v)) (plan_key_lines p env_key (lines t)))))"

subsection \<open>Directories\<close>

datatype mkdir_result = Made | AlreadyExists | MkdirError string

fun seat_output_dir :: "(string \<Rightarrow> mkdir_result) \<Rightarrow> (nat \<Rightarrow> string) \<Rightarrow> nat \<Rightarrow> nat \<Rightarrow> string \<Rightarrow> string + string" where
  "seat_output_dir create name_of n 0 last_err = Inl (''seat_output_dir: no free name after 16 attempts ('' @ last_err @ '')'')"
| "seat_output_dir create name_of n (Suc k) last_err =
     (case create (name_of n) of
        Made \<Rightarrow> Inr (name_of n)
      | AlreadyExists \<Rightarrow> seat_output_dir create name_of (n + 1) k (name_of n)
      | MkdirError e \<Rightarrow> Inl (''seat_output_dir: '' @ name_of n @ '': '' @ e))"

definition new_seat_output_dir :: "(string \<Rightarrow> mkdir_result) \<Rightarrow> string \<Rightarrow> string \<Rightarrow> nat \<Rightarrow> string \<Rightarrow> string + string" where
  "new_seat_output_dir create tmp stamp n seat =
     seat_output_dir create (\<lambda>i. path_join tmp (''triumvirate-seat-'' @ seat @ ''-'' @ stamp @ ''-'' @ show_nat i)) n 16 []"

definition effective_cwd_for :: "string \<Rightarrow> string \<Rightarrow> string" where
  "effective_cwd_for canonical home = (if parent_text canonical = None then path_join home ''workdir'' else canonical)"

text \<open>\<open>canonical\<close> is the resolved absolute directory, when it can be resolved.\<close>

definition new_seat_effective_cwd :: "string option \<Rightarrow> (string \<Rightarrow> string option) \<Rightarrow> string \<Rightarrow> string \<Rightarrow> string + string" where
  "new_seat_effective_cwd canonical create_all cwd home =
     (case canonical of
        None \<Rightarrow> Inr cwd
      | Some c \<Rightarrow>
          (let e = effective_cwd_for c home
           in if e = c then Inr cwd else case create_all e of None \<Rightarrow> Inr e | Some err \<Rightarrow> Inl err))"

subsection \<open>One run of a vendor process\<close>

text \<open>How a process ends: it cannot be started; its output or its exit cannot be read; it runs past its limit; or it
  exits, with a code unless a signal ended it.\<close>

datatype child_end = SpawnError string | WaitError string | RanOut | Exited "int option"

record child_run =
  ch_end :: child_end
  ch_lines :: "string list"
  ch_stderr :: "string list"

text \<open>The effects. \<open>SuspensionAsked\<close> is the call that writes the suspension; when it fails the code only logs that.\<close>

datatype seat_action =
    Spawned string "string list" "(string \<times> string) list" string
  | GroupKilled
  | SuspensionAsked string string
  | BreakerTripped string
  | DirRemoved string
  | GitRun "string list"

record NewSeatAnswer =
  na_parsed :: ParsedAgentResult
  na_served_model :: "string option"

text \<open>What the operating system answers during one dispatch.\<close>

record seat_os =
  os_now :: instant
  os_failed_at :: instant
  os_env :: "string \<Rightarrow> string option"
  os_vars :: "(string \<times> string) list"
  os_home :: "string + string"
  os_write_seat_files :: "string \<Rightarrow> string + unit"
  os_canonical_cwd :: "string option"
  os_create_all :: "string \<Rightarrow> string option"
  os_bin :: "string \<Rightarrow> string + string"
  os_credentials_mode :: "nat option"
  os_credentials :: "string + string"
  os_lock :: "string \<Rightarrow> string + unit"
  os_create_dir :: "string \<Rightarrow> mkdir_result"
  os_temp_dir :: string
  os_stamp :: string
  os_counter :: nat
  os_canonicalize :: "string \<Rightarrow> string option"
  os_macos :: bool
  os_sandbox_exec :: bool
  os_before :: repo_view
  os_after :: repo_view
  os_child :: child_run
  os_journal :: "string list"
  os_export :: "string option"
  os_review_timeout :: duration
  os_connector_timeout :: duration

record dispatch =
  dp_seat :: string
  dp_message :: string
  dp_cwd :: string
  dp_session :: "string option"
  dp_model :: "string option"
  dp_read_only :: bool

definition SANDBOX_EXEC :: string where
  "SANDBOX_EXEC = ''/usr/bin/sandbox-exec''"

definition wrapped_with :: "seat_os \<Rightarrow> string \<Rightarrow> string \<Rightarrow> string list \<Rightarrow> string + string \<Rightarrow> string + string \<times> string list" where
  "wrapped_with W seat bin args profile =
     (if \<not> os_macos W then Inr (bin, args)
      else if \<not> os_sandbox_exec W then
        Inl (''seatbelt_unavailable:'' @ seat @ '': '' @ SANDBOX_EXEC @ '' not found; refusing to run the seat unwrapped'')
      else map_sum id (\<lambda>prof. (SANDBOX_EXEC, [''-p'', prof, bin] @ args)) profile)"

definition seatbelt_wrap :: "seat_os \<Rightarrow> string \<Rightarrow> string \<Rightarrow> string list \<Rightarrow> string \<Rightarrow> string \<Rightarrow> string + string \<times> string list" where
  "seatbelt_wrap W seat bin args home output_dir =
     wrapped_with W seat bin args (render_seatbelt_profile (os_canonicalize W) home output_dir (os_temp_dir W))"

text \<open>How a process is started: on macOS through \<open>sandbox-exec\<close> under the profile, elsewhere as it is.\<close>

definition behind_profile :: "seat_os \<Rightarrow> string \<Rightarrow> string list \<Rightarrow> string + string \<Rightarrow> string \<Rightarrow> string list \<Rightarrow> bool" where
  "behind_profile W bin args profile program args' \<longleftrightarrow>
     (if os_macos W
      then os_sandbox_exec W \<and> program = SANDBOX_EXEC
           \<and> (case profile of Inl _ \<Rightarrow> False | Inr prof \<Rightarrow> args' = [''-p'', prof, bin] @ args)
      else program = bin \<and> args' = args)"

lemma wrapped_with_behind: "wrapped_with W seat bin args profile = Inr (program, args') \<Longrightarrow> behind_profile W bin args profile program args'"
  by (cases profile) (auto simp: wrapped_with_def behind_profile_def split: if_split_asm)

definition stderr_tail :: "string list \<Rightarrow> string" where
  "stderr_tail ls = (let t = filter (\<lambda>l. l \<noteq> []) (map trim ls) in join [nl_char] (drop (length t - 40) t))"

definition last_said :: "string \<Rightarrow> string \<Rightarrow> string" where
  "last_said seat stderr =
     (let ls = lines stderr; tail = join '' | '' (drop (length ls - 3) ls)
      in if tail = [] then [] else ''; '' @ seat @ '' said: '' @ tail)"

definition seat_failed :: "string \<Rightarrow> string \<Rightarrow> string \<Rightarrow> string \<times> seat_action list" where
  "seat_failed seat why stderr =
     (case classify_new_seat_failure why stderr of
        SuspendedClass \<Rightarrow>
          (let reason = ''403 from provider: '' @ why
           in (''seat_suspended: '' @ seat @ '': '' @ reason @ last_said seat stderr, [SuspensionAsked seat reason]))
      | QuotaClass \<Rightarrow> (''seat_quota_exhausted:'' @ seat @ '': '' @ why @ last_said seat stderr, [BreakerTripped seat])
      | OtherClass \<Rightarrow> (why @ last_said seat stderr, []))"

definition judge_turn :: "string \<Rightarrow> string \<Rightarrow> SeatParsed \<Rightarrow> (string + NewSeatAnswer) \<times> seat_action list" where
  "judge_turn seat stderr p =
     (let answer = (\<lambda>r. Inr \<lparr>na_parsed = r, na_served_model = sp_served_model p\<rparr>)
      in case sp_outcome p of
           Success \<Rightarrow> (answer (sp_result p), [])
         | Partial reason \<Rightarrow>
             (answer ((sp_result p)\<lparr>response_text := response_text (sp_result p) @ [nl_char, nl_char] @ ''[partial: '' @ reason @ '']''\<rparr>), [])
         | Failure why \<Rightarrow> (case seat_failed seat why stderr of (e, acts) \<Rightarrow> (Inl e, acts)))"

definition run_child ::
  "serde \<Rightarrow> seat_os \<Rightarrow> string \<Rightarrow> string \<Rightarrow> duration \<Rightarrow> seat_action \<Rightarrow> (string + NewSeatAnswer) \<times> seat_action list"
where
  "run_child S W seat bin limit spawn =
     (case ch_end (os_child W) of
        SpawnError e \<Rightarrow> (Inl (''spawn_failed:'' @ seat @ '': '' @ bin @ '': '' @ e), [])
      | WaitError e \<Rightarrow> (Inl e, [spawn])
      | RanOut \<Rightarrow> (Inl (seat @ '' connector timed out after '' @ show_nat (as_secs limit) @ ''s''), [spawn, GroupKilled])
      | Exited status \<Rightarrow>
          (case seat_turn S seat (ch_lines (os_child W)) (os_journal W) (os_export W) status of
             None \<Rightarrow> (Inl (''not_a_new_seat: '' @ seat), [spawn])
           | Some p \<Rightarrow>
               (case judge_turn seat (stderr_tail (ch_stderr (os_child W))) p of (r, acts) \<Rightarrow> (r, spawn # acts))))"

definition audit_failed :: "string \<Rightarrow> string \<Rightarrow> string" where
  "audit_failed seat e = ''read_only_audit_unavailable:'' @ seat @ '': '' @ e"

text \<open>After the process ended, whatever came of it: a change in the directory replaces the answer or the error.\<close>

definition audited ::
  "seat_os \<Rightarrow> string \<Rightarrow> string \<Rightarrow> RepoSnapshot \<Rightarrow> string + NewSeatAnswer \<Rightarrow> string + NewSeatAnswer"
where
  "audited W seat cwd before outcome =
     (case snapshot_cwd (os_after W) cwd of
        Inl e \<Rightarrow> Inl (audit_failed seat e)
      | Inr after \<Rightarrow>
          (let changed = audit_repo before after
           in if changed \<noteq> [] then Inl (''read_only_violation:'' @ seat @ '': '' @ join '', '' changed) else outcome))"

definition reader_request :: "seat_os \<Rightarrow> dispatch \<Rightarrow> string \<Rightarrow> string \<Rightarrow> string \<Rightarrow> SeatRequest" where
  "reader_request W d home output_dir cwd =
     \<lparr>rq_prompt = dp_message d, rq_cwd = cwd, rq_seat_home = home, rq_output_dir = output_dir, rq_model = dp_model d,
      rq_resume_session_id = dp_session d, rq_extra_args = [], rq_max_turns = 12,
      rq_time_limit = (if dp_read_only d then os_review_timeout W else os_connector_timeout W), rq_mode = ReadOnly\<rparr>"

definition seat_child_env :: "seat_os \<Rightarrow> SeatProfile \<Rightarrow> SeatInvocation \<Rightarrow> string \<Rightarrow> (string \<times> string) list \<Rightarrow> (string \<times> string) list" where
  "seat_child_env W profile i home env_add =
     child_env (filter (\<lambda>(k, _). \<not> removed_by (inv_env_remove i) k) (os_vars W)) profile home (inv_env_add i @ env_add)"

definition run_new_seat_in ::
  "serde \<Rightarrow> seat_os \<Rightarrow> dispatch \<Rightarrow> SeatProfile \<Rightarrow> string \<Rightarrow> string \<Rightarrow> string \<Rightarrow> (string \<times> string) list \<Rightarrow> string
     \<Rightarrow> (string + NewSeatAnswer) \<times> seat_action list"
where
  "run_new_seat_in S W d profile bin home output_dir env_add cwd =
     (let seat = dp_seat d; req = reader_request W d home output_dir cwd
      in case build_new_seat_invocation seat req of
           Inl e \<Rightarrow> (Inl e, [])
         | Inr i \<Rightarrow>
             (case seatbelt_wrap W seat bin (inv_args i) home output_dir of
                Inl e \<Rightarrow> (Inl e, [])
              | Inr (program, args) \<Rightarrow>
                  (case snapshot_cwd (os_before W) (inv_cwd i) of
                     Inl e \<Rightarrow> (Inl (audit_failed seat e), [])
                   | Inr before \<Rightarrow>
                       (case run_child S W seat bin (rq_time_limit req)
                               (Spawned program args (seat_child_env W profile i home env_add) (inv_cwd i)) of
                          (outcome, acts) \<Rightarrow> (audited W seat (inv_cwd i) before outcome, acts)))))"

definition seat_credentials :: "seat_os \<Rightarrow> string \<Rightarrow> string \<Rightarrow> string + (string \<times> string) list" where
  "seat_credentials W seat home =
     (if seat = ''qwen'' then map_sum id (\<lambda>kv. [kv]) (read_qwen_plan_key home (os_credentials_mode W) (os_credentials W))
      else Inr [])"

definition seat_locked :: "seat_os \<Rightarrow> SeatProfile \<Rightarrow> string \<Rightarrow> string + unit" where
  "seat_locked W profile seat =
     (if concurrency_limit profile = One
      then map_sum (\<lambda>e. ''seat_lock_unavailable:'' @ seat @ '': '' @ e) id (os_lock W seat) else Inr ())"

text \<open>What is settled before the process: the profile, the home, the working directory, the program, the credential.\<close>

record seat_setup =
  ss_profile :: SeatProfile
  ss_home :: string
  ss_cwd :: string
  ss_bin :: string
  ss_env_add :: "(string \<times> string) list"
  ss_output_dir :: string

definition and_then :: "'e + 'a \<Rightarrow> ('a \<Rightarrow> 'e + 'b) \<Rightarrow> 'e + 'b" where
  "and_then r f = (case r of Inl e \<Rightarrow> Inl e | Inr x \<Rightarrow> f x)"

lemma result_and_then_Inr [simp]: "and_then r f = Inr y \<longleftrightarrow> (\<exists>x. r = Inr x \<and> f x = Inr y)"
  by (cases r) (simp_all add: and_then_def)

definition prepare_seat :: "seat_os \<Rightarrow> dispatch \<Rightarrow> SeatProfile \<Rightarrow> string + seat_setup" where
  "prepare_seat W d profile =
     and_then (os_home W) (\<lambda>th.
     and_then (seat_home th (dp_seat d)) (\<lambda>home.
     and_then (os_write_seat_files W home) (\<lambda>_.
     and_then (new_seat_effective_cwd (os_canonical_cwd W) (os_create_all W) (dp_cwd d) home) (\<lambda>cwd.
     and_then (os_bin W (dp_seat d)) (\<lambda>bin.
     and_then (seat_credentials W (dp_seat d) home) (\<lambda>env_add.
     and_then (seat_locked W profile (dp_seat d)) (\<lambda>_.
     and_then (new_seat_output_dir (os_create_dir W) (os_temp_dir W) (os_stamp W) (os_counter W) (dp_seat d)) (\<lambda>output_dir.
       Inr \<lparr>ss_profile = profile, ss_home = home, ss_cwd = cwd, ss_bin = bin, ss_env_add = env_add,
            ss_output_dir = output_dir\<rparr>))))))))"

definition served_checked :: "string \<Rightarrow> string + NewSeatAnswer \<Rightarrow> string + NewSeatAnswer" where
  "served_checked seat r =
     and_then r (\<lambda>a.
       case na_served_model a of
         Some served \<Rightarrow> if seat = ''qwen'' then and_then (check_served_model served) (\<lambda>_. Inr a) else Inr a
       | None \<Rightarrow> Inr a)"

fun apply_trips :: "instant \<Rightarrow> seat_action list \<Rightarrow> breakers \<Rightarrow> breakers" where
  "apply_trips t [] b = b"
| "apply_trips t (BreakerTripped seat # acts) b = apply_trips t acts (trip_new_seat_breaker t seat b)"
| "apply_trips t (_ # acts) b = apply_trips t acts b"

definition run_new_seat ::
  "serde \<Rightarrow> seat_os \<Rightarrow> dispatch \<Rightarrow> breakers \<Rightarrow> (string + NewSeatAnswer) \<times> breakers \<times> seat_action list"
where
  "run_new_seat S W d opened =
     (let seat = dp_seat d
      in case (seat_profile seat, parser_for_seat seat) of
           (Some profile, Some _) \<Rightarrow>
             (case new_seat_breaker_remaining (new_seat_quota_cooldown (os_env W)) (os_now W) seat opened of
                (Some secs, b) \<Rightarrow>
                  (Inl (''seat_quota_exhausted:'' @ seat @ '': quota breaker open, '' @ show_nat secs
                        @ ''s until it closes; no process spawned''), b, [])
              | (None, b) \<Rightarrow>
                  (case prepare_seat W d profile of
                     Inl e \<Rightarrow> (Inl e, b, [])
                   | Inr x \<Rightarrow>
                       (case run_new_seat_in S W d profile (ss_bin x) (ss_home x) (ss_output_dir x) (ss_env_add x) (ss_cwd x) of
                          (r, acts) \<Rightarrow>
                            (served_checked seat r, apply_trips (os_failed_at W) acts b, acts @ [DirRemoved (ss_output_dir x)]))))
         | _ \<Rightarrow> (Inl (''not_a_new_seat: '' @ seat), opened, []))"

subsection \<open>Readers\<close>

lemma parser_for_seat_names: "parser_for_seat seat \<noteq> None \<longleftrightarrow> seat \<in> {''kimi'', ''mistral'', ''qwen''}"
  by (simp add: parser_for_seat_def)

lemma new_seat_scrub:
  assumes "seat_profile seat = Some profile" "parser_for_seat seat \<noteq> None"
  shows "env_remove profile = SEAT_CREDENTIAL_SCRUB" "home_env_var profile = Some (if seat = ''kimi'' then ''KIMI_CODE_HOME'' else if seat = ''mistral'' then ''VIBE_HOME'' else ''QWEN_HOME'')"
    "concurrency_limit profile = One"
proof -
  have k: "seat_profile ''kimi'' = Some row_kimi" "seat_profile ''mistral'' = Some row_mistral" "seat_profile ''qwen'' = Some row_qwen"
    by (simp_all add: seat_profile_def SEATS_def EXISTING_def NEW_SEAT_def row_gemini_def row_codex_def row_deepseek_def row_claude_def
        row_grok_def row_kimi_def row_mistral_def row_qwen_def)
  from assms(2) consider "seat = ''kimi''" | "seat = ''mistral''" | "seat = ''qwen''" unfolding parser_for_seat_names by blast
  then have "env_remove profile = SEAT_CREDENTIAL_SCRUB \<and> home_env_var profile = Some (if seat = ''kimi'' then ''KIMI_CODE_HOME'' else if seat = ''mistral'' then ''VIBE_HOME'' else ''QWEN_HOME'')
    \<and> concurrency_limit profile = One"
    using assms(1) k by cases (auto simp: row_kimi_def row_mistral_def row_qwen_def NEW_SEAT_def)
  then show "env_remove profile = SEAT_CREDENTIAL_SCRUB" "home_env_var profile = Some (if seat = ''kimi'' then ''KIMI_CODE_HOME'' else if seat = ''mistral'' then ''VIBE_HOME'' else ''QWEN_HOME'')"
    "concurrency_limit profile = One" by blast+
qed

text \<open>The vendor variables that a seat may have: its own.\<close>

definition own_keys :: "string \<Rightarrow> string list" where
  "own_keys seat =
     (if seat = ''kimi'' then [''KIMI_CODE_HOME'', ''KIMI_DISABLE_TELEMETRY'']
      else if seat = ''qwen'' then [''QWENCLOUD_TOKEN_PLAN_API_KEY''] else [])"

lemma build_facts:
  assumes "build_new_seat_invocation seat req = Inr i"
  shows "inv_cwd i = rq_cwd req"
    and "inv_env_add i = (if seat = ''kimi'' then [(''KIMI_DISABLE_TELEMETRY'', ''1'')] else if seat = ''mistral'' then [(''VIBE_CLI'', ''python'')] else [])"
proof -
  have seat: "seat = ''kimi'' \<or> seat = ''mistral'' \<or> seat = ''qwen''"
    using assms unfolding build_new_seat_invocation_def by (meson Inl_Inr_False)
  have q: "inv_cwd i = rq_cwd req \<and> inv_env_add i = []" if "build_qwen_invocation req = Inr i"
    using that by (cases "rq_mode req") (auto simp: build_qwen_invocation_def Let_def split: if_split_asm option.split_asm)
  have k: "inv_cwd i = rq_cwd req \<and> inv_env_add i = [(''KIMI_DISABLE_TELEMETRY'', ''1'')]" if "build_kimi_invocation req = Inr i"
    using that by (auto simp: build_kimi_invocation_def split: if_split_asm option.split_asm)
  have m: "inv_cwd i = rq_cwd req \<and> inv_env_add i = [(''VIBE_CLI'', ''python'')]" if "build_mistral_invocation req = Inr i"
    using that by (auto simp: build_mistral_invocation_def split: if_split_asm option.split_asm)
  from seat have "inv_cwd i = rq_cwd req \<and>
    inv_env_add i = (if seat = ''kimi'' then [(''KIMI_DISABLE_TELEMETRY'', ''1'')] else if seat = ''mistral'' then [(''VIBE_CLI'', ''python'')] else [])"
  proof (elim disjE)
    assume "seat = ''kimi''" with assms k show ?thesis by (simp add: build_new_seat_invocation_def)
  next
    assume "seat = ''mistral''" with assms m show ?thesis by (simp add: build_new_seat_invocation_def)
  next
    assume "seat = ''qwen''" with assms q show ?thesis by (simp add: build_new_seat_invocation_def)
  qed
  then show "inv_cwd i = rq_cwd req"
    and "inv_env_add i = (if seat = ''kimi'' then [(''KIMI_DISABLE_TELEMETRY'', ''1'')] else if seat = ''mistral'' then [(''VIBE_CLI'', ''python'')] else [])"
    by blast+
qed

lemma map_sum_pair: "map_sum id (\<lambda>v. (k', v)) r = Inr (k, v) \<Longrightarrow> k = k'"
  by (cases r) simp_all

lemma plan_key_name:
  assumes "read_qwen_plan_key home mode contents = Inr (k, v)"
  shows "k = ''QWENCLOUD_TOKEN_PLAN_API_KEY''"
proof -
  define env_key where "env_key = ''QWENCLOUD_TOKEN_PLAN_API_KEY''"
  have "\<exists>url. plan_auth None = Inr (env_key, url)" by (simp add: plan_auth_def env_key_def)
  with assms have "k = env_key"
    by (auto simp: read_qwen_plan_key_def Let_def dest: map_sum_pair split: sum.split_asm)
  then show ?thesis by (simp only: env_key_def)
qed

lemma seat_credentials_names:
  assumes "seat_credentials W seat home = Inr env_add"
  shows "fst ` set env_add \<subseteq> (if seat = ''qwen'' then {''QWENCLOUD_TOKEN_PLAN_API_KEY''} else {})"
proof (cases "seat = ''qwen''")
  case True
  then obtain k v where "read_qwen_plan_key home (os_credentials_mode W) (os_credentials W) = Inr (k, v)" "env_add = [(k, v)]"
    using assms by (cases "read_qwen_plan_key home (os_credentials_mode W) (os_credentials W)") (auto simp: seat_credentials_def)
  with plan_key_name True show ?thesis by simp
qed (use assms in \<open>simp add: seat_credentials_def\<close>)

lemma harmless_names:
  "\<not> removed_by SEAT_CREDENTIAL_SCRUB ''HOME''" "\<not> removed_by SEAT_CREDENTIAL_SCRUB ''VIBE_HOME''"
  "\<not> removed_by SEAT_CREDENTIAL_SCRUB ''QWEN_HOME''" "\<not> removed_by SEAT_CREDENTIAL_SCRUB ''VIBE_CLI''"
  "removed_by SEAT_CREDENTIAL_SCRUB ''KIMI_CODE_HOME''" "removed_by SEAT_CREDENTIAL_SCRUB ''KIMI_DISABLE_TELEMETRY''"
  by code_simp+

lemma seat_env_own_keys:
  assumes seat: "seat_profile seat = Some profile" "parser_for_seat seat \<noteq> None"
    and "build_new_seat_invocation seat req = Inr i" and "seat_credentials W seat home = Inr env_add"
  shows "set (scan_stray_keys (seat_child_env W profile i home env_add)) \<subseteq> set (own_keys seat)"
proof -
  note scrub = new_seat_scrub[OF seat] and b = build_facts[OF assms(3)] and c = seat_credentials_names[OF assms(4)]
  have s: "seat \<in> {''kimi'', ''mistral'', ''qwen''}" using seat(2) parser_for_seat_names by blast
  define names where "names = fst ` set (env_overrides profile home (inv_env_add i @ env_add))"
  have "set (scan_stray_keys (seat_child_env W profile i home env_add)) \<subseteq> {k \<in> names. removed_by SEAT_CREDENTIAL_SCRUB k}"
    unfolding seat_child_env_def names_def
    using stray_keys_of_child[of "filter (\<lambda>(k, _). \<not> removed_by (inv_env_remove i) k) (os_vars W)" profile home "inv_env_add i @ env_add"]
    by (simp add: scrub(1))
  moreover have "names \<subseteq> insert ''HOME'' (insert (the (home_env_var profile)) (fst ` set (inv_env_add i) \<union> fst ` set env_add))"
    by (auto simp: names_def env_overrides_def scrub(2))
  ultimately have sub: "set (scan_stray_keys (seat_child_env W profile i home env_add)) \<subseteq>
      insert ''HOME'' (insert (the (home_env_var profile)) (fst ` set (inv_env_add i) \<union> fst ` set env_add)) \<inter> {k. removed_by SEAT_CREDENTIAL_SCRUB k}"
    by blast
  from s consider "seat = ''kimi''" | "seat = ''mistral''" | "seat = ''qwen''" by blast
  then show ?thesis
  proof cases
    case 1
    with c have "fst ` set env_add = {}" by simp
    with sub 1 show ?thesis unfolding b(2) scrub(2) by (simp add: own_keys_def harmless_names Int_insert_left)
  next
    case 2
    with c have "fst ` set env_add = {}" by simp
    with sub 2 show ?thesis unfolding b(2) scrub(2) by (simp add: own_keys_def harmless_names Int_insert_left)
  next
    case 3
    with c have "fst ` set env_add \<subseteq> {''QWENCLOUD_TOKEN_PLAN_API_KEY''}" by simp
    with sub 3 show ?thesis unfolding b(2) scrub(2) by (simp add: own_keys_def harmless_names Int_insert_left) blast
  qed
qed

lemma judge_turn_answer:
  assumes "judge_turn seat stderr p = (Inr a, acts)"
  shows "acts = [] \<and> na_served_model a = sp_served_model p \<and>
    (sp_outcome p = Success \<and> na_parsed a = sp_result p \<or>
     (\<exists>reason. sp_outcome p = Partial reason \<and> tool_calls (na_parsed a) = tool_calls (sp_result p)
        \<and> response_text (na_parsed a) = response_text (sp_result p) @ [nl_char, nl_char] @ ''[partial: '' @ reason @ '']''))"
  using assms by (auto simp: judge_turn_def Let_def split: Stream_Types.SeatOutcome.split_asm prod.split_asm)

lemma audited_answer:
  assumes "audited W seat cwd before outcome = Inr a" "bt_invar before"
  shows "snapshot_cwd (os_after W) cwd = Inr before" "outcome = Inr a"
proof -
  from assms(1) obtain after where after: "snapshot_cwd (os_after W) cwd = Inr after" "audit_repo before after = []" "outcome = Inr a"
    by (auto simp: audited_def Let_def split: sum.split_asm if_split_asm)
  with audit_repo_empty[OF assms(2) snapshot_cwd_invar[OF after(1)]] show "snapshot_cwd (os_after W) cwd = Inr before" "outcome = Inr a"
    by auto
qed

lemma run_child_answer:
  assumes "run_child S W seat bin limit spawn = (Inr a, acts)"
  obtains status p where "ch_end (os_child W) = Exited status"
    "seat_turn S seat (ch_lines (os_child W)) (os_journal W) (os_export W) status = Some p"
    "judge_turn seat (stderr_tail (ch_stderr (os_child W))) p = (Inr a, [])" "acts = [spawn]"
  using assms judge_turn_answer by (auto simp: run_child_def split: child_end.split_asm option.split_asm prod.split_asm)

lemma run_new_seat_in_answer:
  assumes "run_new_seat_in S W d profile bin home out env_add cwd = (Inr a, acts)"
  obtains i program args before status p where
    "build_new_seat_invocation (dp_seat d) (reader_request W d home out cwd) = Inr i"
    "seatbelt_wrap W (dp_seat d) bin (inv_args i) home out = Inr (program, args)"
    "snapshot_cwd (os_before W) (inv_cwd i) = Inr before" "snapshot_cwd (os_after W) (inv_cwd i) = Inr before"
    "acts = [Spawned program args (seat_child_env W profile i home env_add) (inv_cwd i)]"
    "ch_end (os_child W) = Exited status"
    "seat_turn S (dp_seat d) (ch_lines (os_child W)) (os_journal W) (os_export W) status = Some p"
    "judge_turn (dp_seat d) (stderr_tail (ch_stderr (os_child W))) p = (Inr a, [])"
proof -
  define req where "req = reader_request W d home out cwd"
  from assms obtain i where i: "build_new_seat_invocation (dp_seat d) req = Inr i"
    by (auto simp: run_new_seat_in_def Let_def req_def split: sum.split_asm)
  from assms i obtain program args where w: "seatbelt_wrap W (dp_seat d) bin (inv_args i) home out = Inr (program, args)"
    by (auto simp: run_new_seat_in_def Let_def req_def split: sum.split_asm)
  from assms i w obtain before where b: "snapshot_cwd (os_before W) (inv_cwd i) = Inr before"
    by (auto simp: run_new_seat_in_def Let_def req_def split: sum.split_asm)
  define spawn where "spawn = Spawned program args (seat_child_env W profile i home env_add) (inv_cwd i)"
  obtain outcome acts' where r: "run_child S W (dp_seat d) bin (rq_time_limit req) spawn = (outcome, acts')" by force
  from assms i w b r have "audited W (dp_seat d) (inv_cwd i) before outcome = Inr a" "acts' = acts"
    by (simp_all add: run_new_seat_in_def Let_def req_def spawn_def)
  from audited_answer[OF this(1) snapshot_cwd_invar[OF b]] r this(2)
  have after: "snapshot_cwd (os_after W) (inv_cwd i) = Inr before" and c: "run_child S W (dp_seat d) bin (rq_time_limit req) spawn = (Inr a, acts)"
    by simp_all
  from run_child_answer[OF c] show ?thesis using that i w b after unfolding spawn_def req_def by metis
qed

lemma run_new_seat_cases:
  assumes "run_new_seat S W d b = (r, b', acts)"
  obtains "\<exists>e. r = Inl e" "acts = []" "b' = b \<or> b' = b(dp_seat d := None)"
  | profile x r' acts' b1 where "seat_profile (dp_seat d) = Some profile" "parser_for_seat (dp_seat d) \<noteq> None"
      "new_seat_breaker_remaining (new_seat_quota_cooldown (os_env W)) (os_now W) (dp_seat d) b = (None, b1)"
      "prepare_seat W d profile = Inr x"
      "run_new_seat_in S W d profile (ss_bin x) (ss_home x) (ss_output_dir x) (ss_env_add x) (ss_cwd x) = (r', acts')"
      "r = served_checked (dp_seat d) r'" "b' = apply_trips (os_failed_at W) acts' b1" "acts = acts' @ [DirRemoved (ss_output_dir x)]"
proof (cases "seat_profile (dp_seat d) = None \<or> parser_for_seat (dp_seat d) = None")
  case True
  then have "run_new_seat S W d b = (Inl (''not_a_new_seat: '' @ dp_seat d), b, [])"
    by (auto simp: run_new_seat_def Let_def split: option.split)
  with assms that(1) show thesis by auto
next
  case False
  then obtain profile pr where p: "seat_profile (dp_seat d) = Some profile" "parser_for_seat (dp_seat d) = Some pr" by auto
  obtain secs b1 where n: "new_seat_breaker_remaining (new_seat_quota_cooldown (os_env W)) (os_now W) (dp_seat d) b = (secs, b1)" by force
  have b1: "b1 = b \<or> b1 = b(dp_seat d := None)"
    using n by (auto simp: new_seat_breaker_remaining_def Let_def split: option.split_asm if_split_asm)
  show thesis
  proof (cases "secs = None \<and> (\<exists>x. prepare_seat W d profile = Inr x)")
    case True
    then obtain x where x: "secs = None" "prepare_seat W d profile = Inr x" by blast
    obtain r' acts' where ra: "run_new_seat_in S W d profile (ss_bin x) (ss_home x) (ss_output_dir x) (ss_env_add x) (ss_cwd x) = (r', acts')" by force
    from assms p n x ra show thesis by (intro that(2)[of profile b1 x r' acts']) (simp_all add: run_new_seat_def Let_def)
  next
    case False
    then have "\<exists>e. run_new_seat S W d b = (Inl e, b1, [])" using p n
      by (cases secs; cases "prepare_seat W d profile") (simp_all add: run_new_seat_def Let_def)
    with assms that(1) b1 show thesis by auto
  qed
qed

text \<open>C16: the answer of a reader. When a dispatch to kimi, mistral or qwen returns an answer, exactly one process was started
  and nothing else happened but the removal of its output directory; it has the read-only command line of the seat; on
  macOS it was started under the seat's sandbox profile, elsewhere under none; its environment holds no vendor variable
  but those of the seat; the snapshots of its working directory before and after are equal, and they see what git
  reports there with the content hashes of the files found, or every file outside of a repository, but nothing inside an
  ignored directory; the answer is that of a turn which the parser calls a success, or one it calls partial, marked so;
  and when qwen says which model served it, it is a qwen model.\<close>

theorem reader_answer_was_audited:
  "case run_new_seat S W d b of
     (Inl _, _) \<Rightarrow> True
   | (Inr a, b', acts) \<Rightarrow>
       \<exists>i program args env home bin out before status p.
         acts = [Spawned program args env (inv_cwd i), DirRemoved out]
         \<and> build_new_seat_invocation (dp_seat d) (reader_request W d home out (inv_cwd i)) = Inr i
         \<and> behind_profile W bin (inv_args i) (render_seatbelt_profile (os_canonicalize W) home out (os_temp_dir W)) program args
         \<and> set (scan_stray_keys env) \<subseteq> set (own_keys (dp_seat d))
         \<and> snapshot_cwd (os_before W) (inv_cwd i) = Inr before \<and> snapshot_cwd (os_after W) (inv_cwd i) = Inr before
         \<and> ch_end (os_child W) = Exited status
         \<and> seat_turn S (dp_seat d) (ch_lines (os_child W)) (os_journal W) (os_export W) status = Some p
         \<and> (sp_outcome p = Success \<and> na_parsed a = sp_result p \<or>
            (\<exists>reason. sp_outcome p = Partial reason
               \<and> response_text (na_parsed a) = response_text (sp_result p) @ [nl_char, nl_char] @ ''[partial: '' @ reason @ '']''))
         \<and> (if dp_seat d = ''qwen'' then list_all is_qwen_model (case sp_served_model p of Some x \<Rightarrow> [x] | None \<Rightarrow> []) else True)"
proof -
  obtain r b' acts where run: "run_new_seat S W d b = (r, b', acts)" by (cases "run_new_seat S W d b")
  show ?thesis
  proof (cases r)
    case (Inr a)
    from run Inr obtain profile x r' acts' where p: "seat_profile (dp_seat d) = Some profile" "parser_for_seat (dp_seat d) \<noteq> None"
      and x: "prepare_seat W d profile = Inr x"
      and ra: "run_new_seat_in S W d profile (ss_bin x) (ss_home x) (ss_output_dir x) (ss_env_add x) (ss_cwd x) = (r', acts')"
      and fin: "served_checked (dp_seat d) r' = Inr a" "acts = acts' @ [DirRemoved (ss_output_dir x)]"
      by (cases rule: run_new_seat_cases) auto
    from fin(1) have r': "r' = Inr a" and q: "dp_seat d = ''qwen'' \<Longrightarrow> na_served_model a = Some m \<Longrightarrow> is_qwen_model m" for m
      by (auto simp: served_checked_def check_served_model_def split: option.split_asm if_split_asm)
    from x have cred: "seat_credentials W (dp_seat d) (ss_home x) = Inr (ss_env_add x)" by (auto simp: prepare_seat_def)
    from ra[unfolded r'] obtain i program args before status p' where i:
      "build_new_seat_invocation (dp_seat d) (reader_request W d (ss_home x) (ss_output_dir x) (ss_cwd x)) = Inr i"
      "seatbelt_wrap W (dp_seat d) (ss_bin x) (inv_args i) (ss_home x) (ss_output_dir x) = Inr (program, args)"
      "snapshot_cwd (os_before W) (inv_cwd i) = Inr before" "snapshot_cwd (os_after W) (inv_cwd i) = Inr before"
      "acts' = [Spawned program args (seat_child_env W profile i (ss_home x) (ss_env_add x)) (inv_cwd i)]"
      "ch_end (os_child W) = Exited status"
      "seat_turn S (dp_seat d) (ch_lines (os_child W)) (os_journal W) (os_export W) status = Some p'"
      "judge_turn (dp_seat d) (stderr_tail (ch_stderr (os_child W))) p' = (Inr a, [])"
      by (rule run_new_seat_in_answer)
    note j = judge_turn_answer[OF i(8)]
    have cwd: "inv_cwd i = ss_cwd x" using build_facts(1)[OF i(1)] by (simp add: reader_request_def)
    have served: "if dp_seat d = ''qwen'' then list_all is_qwen_model (case sp_served_model p' of Some x \<Rightarrow> [x] | None \<Rightarrow> []) else True"
      using q j by (auto split: option.split)
    from j have told: "sp_outcome p' = Success \<and> na_parsed a = sp_result p' \<or>
        (\<exists>reason. sp_outcome p' = Partial reason
           \<and> response_text (na_parsed a) = response_text (sp_result p') @ [nl_char, nl_char] @ ''[partial: '' @ reason @ '']'')" by blast
    have acts: "acts = [Spawned program args (seat_child_env W profile i (ss_home x) (ss_env_add x)) (inv_cwd i), DirRemoved (ss_output_dir x)]"
      using fin(2) i(5) by simp
    note i(1)[folded cwd] seat_env_own_keys[OF p i(1) cred] wrapped_with_behind[OF i(2)[unfolded seatbelt_wrap_def]]
    with acts i(3,4,6,7) told served show ?thesis unfolding run Inr prod.case sum.case by (intro exI conjI)
  qed (simp add: run)
qed

lemma apply_trips_other: "BreakerTripped seat \<notin> set acts \<Longrightarrow> apply_trips t acts b seat = b seat"
  by (induction t acts b rule: apply_trips.induct) (auto simp: trip_new_seat_breaker_def)

lemma apply_trips_tripped: "BreakerTripped seat \<in> set acts \<Longrightarrow> apply_trips t acts b seat = Some t"
proof (induction t acts b rule: apply_trips.induct)
  case (2 t other acts b)
  show ?case
  proof (cases "BreakerTripped seat \<in> set acts")
    case True
    with 2(1) show ?thesis by simp
  next
    case False
    with 2(2) show ?thesis by (simp add: apply_trips_other trip_new_seat_breaker_def)
  qed
qed auto

definition is_spawn :: "seat_action \<Rightarrow> bool" where
  "is_spawn a = (case a of Spawned _ _ _ _ \<Rightarrow> True | _ \<Rightarrow> False)"

lemma judge_turn_no_spawn: "judge_turn seat stderr p = (r, acts) \<Longrightarrow> filter is_spawn acts = []"
  by (auto simp: judge_turn_def seat_failed_def Let_def is_spawn_def
      split: Stream_Types.SeatOutcome.split_asm NewSeatFailureClass.split_asm)

lemma run_child_one_spawn:
  assumes "run_child S W seat bin limit spawn = (r, acts)"
  shows "length (filter is_spawn acts) \<le> 1"
proof (cases "ch_end (os_child W)")
  case (Exited status)
  show ?thesis
  proof (cases "seat_turn S seat (ch_lines (os_child W)) (os_journal W) (os_export W) status")
    case (Some p)
    obtain r' acts' where j: "judge_turn seat (stderr_tail (ch_stderr (os_child W))) p = (r', acts')" by force
    with assms Exited Some have "acts = spawn # acts'" by (simp add: run_child_def)
    with judge_turn_no_spawn[OF j] show ?thesis by simp
  qed (use assms Exited in \<open>auto simp: run_child_def\<close>)
qed (use assms in \<open>auto simp: run_child_def is_spawn_def\<close>)

lemma run_new_seat_in_one_spawn:
  "run_new_seat_in S W d profile bin home out env_add cwd = (r, acts) \<Longrightarrow> length (filter is_spawn acts) \<le> 1"
  using run_child_one_spawn by (auto simp: run_new_seat_in_def Let_def split: sum.split_asm prod.split_asm)

text \<open>A text names a status: it has the digits with no further digit before or after them.\<close>

definition names_status :: "string \<Rightarrow> string \<Rightarrow> bool" where
  "names_status t sc \<longleftrightarrow>
     (\<exists>pre post. t = pre @ sc @ post \<and> (pre = [] \<or> \<not> is_ascii_digit (last pre)) \<and> (post = [] \<or> \<not> is_ascii_digit (hd post)))"

lemma status_at_split:
  "status_at (pre @ rest) sc (length pre) \<longleftrightarrow>
     (\<exists>post. rest = sc @ post \<and> (pre = [] \<or> \<not> is_ascii_digit (last pre)) \<and> (post = [] \<or> \<not> is_ascii_digit (hd post)))"
proof -
  have "(case rev pre of [] \<Rightarrow> True | c # _ \<Rightarrow> \<not> is_ascii_digit c) \<longleftrightarrow> pre = [] \<or> \<not> is_ascii_digit (last pre)"
    by (cases pre rule: rev_cases) simp_all
  then show ?thesis by (auto simp: status_at_def starts_with_iff split: list.split)
qed

lemma status_in_code_iff: "status_in_code t sc \<longleftrightarrow> names_status t sc"
proof
  assume "status_in_code t sc"
  then obtain i where m: "i \<in> set [0 ..< Suc (length t)]" and i: "status_at t sc i" unfolding status_in_code_def list_ex_iff by blast
  from m have "i \<le> length t" by (simp only: set_upt atLeastLessThan_iff less_Suc_eq_le)
  note i = this i
  then have "status_at (take i t @ drop i t) sc (length (take i t))" by simp
  then obtain post where "drop i t = sc @ post" "take i t = [] \<or> \<not> is_ascii_digit (last (take i t))"
    "post = [] \<or> \<not> is_ascii_digit (hd post)"
    unfolding status_at_split by blast
  then show "names_status t sc" unfolding names_status_def by (metis append_take_drop_id)
next
  assume "names_status t sc"
  then obtain pre post where t: "t = pre @ sc @ post" and "pre = [] \<or> \<not> is_ascii_digit (last pre)" "post = [] \<or> \<not> is_ascii_digit (hd post)"
    unfolding names_status_def by blast
  then have "status_at t sc (length pre)" unfolding t status_at_split by blast
  moreover have "length pre \<in> set [0 ..< Suc (length t)]" by (simp add: t)
  ultimately show "status_in_code t sc" unfolding status_in_code_def list_ex_iff by blast
qed

text \<open>The turn of the process failed for the provider's quota: what failed and the error output name the status 429, and
  not 403.\<close>

definition failed_with_quota :: "serde \<Rightarrow> seat_os \<Rightarrow> string \<Rightarrow> bool" where
  "failed_with_quota S W seat \<longleftrightarrow>
     (\<exists>status p why. ch_end (os_child W) = Exited status
        \<and> seat_turn S seat (ch_lines (os_child W)) (os_journal W) (os_export W) status = Some p \<and> sp_outcome p = Failure why
        \<and> names_status (why @ [nl_char] @ stderr_tail (ch_stderr (os_child W))) ''429''
        \<and> \<not> names_status (why @ [nl_char] @ stderr_tail (ch_stderr (os_child W))) ''403'')"

lemma quota_child:
  assumes "failed_with_quota S W seat"
  shows "\<exists>e. run_child S W seat bin limit spawn = (Inl e, [spawn, BreakerTripped seat])"
proof -
  from assms obtain status p why where c: "ch_end (os_child W) = Exited status"
      "seat_turn S seat (ch_lines (os_child W)) (os_journal W) (os_export W) status = Some p" "sp_outcome p = Failure why"
      and n: "names_status (why @ [nl_char] @ stderr_tail (ch_stderr (os_child W))) ''429''"
        "\<not> names_status (why @ [nl_char] @ stderr_tail (ch_stderr (os_child W))) ''403''"
    unfolding failed_with_quota_def by blast
  from n have "classify_new_seat_failure why (stderr_tail (ch_stderr (os_child W))) = QuotaClass"
    by (simp add: classify_new_seat_failure_def status_in_code_iff Let_def)
  with c show ?thesis by (simp add: run_child_def judge_turn_def seat_failed_def Let_def)
qed

lemma run_new_seat_in_quota:
  assumes "run_new_seat_in S W d profile bin home out env_add cwd = (r, acts)" "list_ex is_spawn acts"
    and "failed_with_quota S W (dp_seat d)"
  shows "BreakerTripped (dp_seat d) \<in> set acts \<and> (\<exists>e. r = Inl e)"
proof -
  define req where "req = reader_request W d home out cwd"
  from assms(1,2) obtain i program args before where "build_new_seat_invocation (dp_seat d) req = Inr i"
      "seatbelt_wrap W (dp_seat d) bin (inv_args i) home out = Inr (program, args)" "snapshot_cwd (os_before W) (inv_cwd i) = Inr before"
    by (auto simp: run_new_seat_in_def Let_def req_def split: sum.split_asm)
  moreover obtain e where "run_child S W (dp_seat d) bin (rq_time_limit req)
      (Spawned program args (seat_child_env W profile i home env_add) (inv_cwd i)) =
      (Inl e, [Spawned program args (seat_child_env W profile i home env_add) (inv_cwd i), BreakerTripped (dp_seat d)])"
    using quota_child[OF assms(3)] by blast
  ultimately have "r = audited W (dp_seat d) (inv_cwd i) before (Inl e)" "BreakerTripped (dp_seat d) \<in> set acts"
    using assms(1) by (auto simp: run_new_seat_in_def Let_def req_def)
  then show ?thesis by (auto simp: audited_def Let_def split: sum.split)
qed

lemma run_new_seat_in_trips_its_own:
  assumes "run_new_seat_in S W d profile bin home out env_add cwd = (r, acts)" "BreakerTripped x \<in> set acts"
  shows "x = dp_seat d"
  using assms by (auto simp: run_new_seat_in_def run_child_def judge_turn_def seat_failed_def Let_def
      split: sum.split_asm prod.split_asm child_end.split_asm option.split_asm Stream_Types.SeatOutcome.split_asm NewSeatFailureClass.split_asm)

lemma run_new_seat_other:
  assumes "run_new_seat S W d b = (r, b', acts)" "seat \<noteq> dp_seat d"
  shows "b' seat = b seat"
proof (cases rule: run_new_seat_cases[OF assms(1)])
  case 1
  with assms(2) show ?thesis by auto
next
  case (2 profile x r' acts' b1)
  have "b1 seat = b seat"
    using 2(3) assms(2) by (auto simp: new_seat_breaker_remaining_def Let_def split: option.split_asm if_split_asm)
  moreover have "BreakerTripped seat \<notin> set acts'" using run_new_seat_in_trips_its_own[OF 2(5)] assms(2) by blast
  ultimately show ?thesis by (simp add: 2(7) apply_trips_other)
qed

lemma run_new_seat_closed:
  assumes "b (dp_seat d) = Some t" "t \<le> os_now W" "os_now W < t + new_seat_quota_cooldown (os_env W)"
  shows "\<exists>e. run_new_seat S W d b = (Inl e, b, [])"
proof -
  have "new_seat_breaker_remaining (new_seat_quota_cooldown (os_env W)) (os_now W) (dp_seat d) b =
      (Some (max (as_secs (new_seat_quota_cooldown (os_env W) - duration_since (os_now W) t)) 1), b)"
    using assms by (simp add: new_seat_breaker_remaining_def Let_def duration_since_def)
  then show ?thesis by (auto simp: run_new_seat_def Let_def split: option.split)
qed

text \<open>Several dispatches, one after the other.\<close>

fun run_dispatches :: "serde \<Rightarrow> (seat_os \<times> dispatch) list \<Rightarrow> breakers \<Rightarrow> ((string + NewSeatAnswer) \<times> seat_action list) list" where
  "run_dispatches S [] b = []"
| "run_dispatches S ((W, d) # ds) b = (case run_new_seat S W d b of (r, b', acts) \<Rightarrow> (r, acts) # run_dispatches S ds b')"

definition within_cooldown :: "instant \<Rightarrow> string \<Rightarrow> seat_os \<times> dispatch \<Rightarrow> bool" where
  "within_cooldown t seat = (\<lambda>(W, d).
     if dp_seat d = seat then t \<le> os_now W \<and> os_now W < t + new_seat_quota_cooldown (os_env W) else True)"

definition refused_without_process :: "(string + NewSeatAnswer) \<times> seat_action list \<Rightarrow> bool" where
  "refused_without_process = (\<lambda>(r, acts). acts = [] \<and> (case r of Inl _ \<Rightarrow> True | Inr _ \<Rightarrow> False))"

lemma run_dispatches_closed:
  "b seat = Some t \<Longrightarrow> list_all (within_cooldown t seat) ds \<Longrightarrow>
   list_all (\<lambda>((W, d), out). if dp_seat d = seat then refused_without_process out else True) (zip ds (run_dispatches S ds b))"
proof (induction S ds b rule: run_dispatches.induct)
  case (2 S W d ds b)
  obtain r b' acts where run: "run_new_seat S W d b = (r, b', acts)" by (cases "run_new_seat S W d b")
  have "b' seat = Some t \<and> (dp_seat d = seat \<longrightarrow> refused_without_process (r, acts))"
  proof (cases "dp_seat d = seat")
    case True
    with "2.prems" run_new_seat_closed[of b d t W S] obtain e where "run_new_seat S W d b = (Inl e, b, [])"
      by (auto simp: within_cooldown_def)
    with run have "r = Inl e" "b' = b" "acts = []" by simp_all
    with "2.prems"(1) show ?thesis by (simp add: refused_without_process_def)
  next
    case False
    with run_new_seat_other[OF run, of seat] "2.prems"(1) show ?thesis by auto
  qed
  with "2.IH"[OF run[symmetric] refl] "2.prems"(2) run show ?case by simp
qed simp

text \<open>C19: a dispatch makes one attempt, and a quota failure closes the seat. However a dispatch ends, it has started at
  most one process. When a process was started and its turn failed, and the failure with the error output names the
  status 429 and not 403, the dispatch fails; and of any dispatches that are made after it one after the other, every one
  to the same seat that looks at the breaker before the cooldown in force is over is refused and starts no process at
  all, whatever the ones to other seats do.\<close>

theorem quota_closes_the_seat:
  "case run_new_seat S W d b of (r, b', acts) \<Rightarrow>
     length (filter is_spawn acts) \<le> 1
     \<and> (if list_ex is_spawn acts \<and> failed_with_quota S W (dp_seat d)
        then (case r of Inl _ \<Rightarrow> True | Inr _ \<Rightarrow> False)
             \<and> (if list_all (within_cooldown (os_failed_at W) (dp_seat d)) later
                then list_all (\<lambda>((W', d'), out). if dp_seat d' = dp_seat d then refused_without_process out else True)
                       (zip later (run_dispatches S' later b'))
                else True)
        else True)"
proof -
  obtain r b' acts where run: "run_new_seat S W d b = (r, b', acts)" by (cases "run_new_seat S W d b")
  show ?thesis
  proof (cases rule: run_new_seat_cases[OF run])
    case 1
    then show ?thesis by (simp add: run)
  next
    case (2 profile x r' acts' b1)
    from run_new_seat_in_one_spawn[OF 2(5)] have one: "length (filter is_spawn acts) \<le> 1" by (simp add: 2(8) is_spawn_def)
    have closed: "(\<exists>e. r = Inl e) \<and> b' (dp_seat d) = Some (os_failed_at W)"
      if "list_ex is_spawn acts" "failed_with_quota S W (dp_seat d)"
    proof -
      from that(1) have "list_ex is_spawn acts'" by (simp add: 2(8) is_spawn_def)
      from run_new_seat_in_quota[OF 2(5) this that(2)] show ?thesis
        by (auto simp: 2(6,7) served_checked_def and_then_def apply_trips_tripped)
    qed
    show ?thesis unfolding run prod.case
    proof (intro conjI one)
      show "if list_ex is_spawn acts \<and> failed_with_quota S W (dp_seat d)
        then (case r of Inl _ \<Rightarrow> True | Inr _ \<Rightarrow> False)
             \<and> (if list_all (within_cooldown (os_failed_at W) (dp_seat d)) later
                then list_all (\<lambda>((W', d'), out). if dp_seat d' = dp_seat d then refused_without_process out else True)
                       (zip later (run_dispatches S' later b'))
                else True)
        else True"
        using closed run_dispatches_closed[of b' "dp_seat d" "os_failed_at W" later S'] by auto
    qed
  qed
qed

text \<open>The parser of qwen knows two tools as shells and the reader is denied both; the writer is denied only one of them.\<close>

lemma qwen_writer_keeps_a_shell:
  "list_all (\<lambda>t. qwen_tool_kind t = Bash \<and> t \<in> set EXCLUDED_TOOLS) [''run_shell_command'', ''exec'']
   \<and> ''run_shell_command'' \<in> set WRITER_EXCLUDED_TOOLS \<and> ''exec'' \<notin> set WRITER_EXCLUDED_TOOLS"
  by code_simp

text \<open>An example: kimi answers a question in a directory that is no repository.\<close>

definition example_line :: string where
  "example_line = ''line''"

definition example_codec :: serde where
  "example_codec =
     \<lparr>sj_from_str = (\<lambda>t. if t = example_line then Some (JObject [(''role'', JString ''assistant''), (''content'', JString ''yes'')]) else None),
      sj_to_string = (\<lambda>_. []), sj_f64 = (\<lambda>_. None)\<rparr>"

definition quiet_repo :: repo_view where
  "quiet_repo = \<lparr>rv_inside = Inr (False, []), rv_status = Inr [], rv_hashes = (\<lambda>_. Inr []), rv_is_file = (\<lambda>_. False),
     rv_root = Some [(''a.rs'', NFile (Some ''1''))]\<rparr>"

definition example_os :: seat_os where
  "example_os = \<lparr>os_now = 0, os_failed_at = 0, os_env = Map.empty, os_vars = [(''KIMI_API_KEY'', ''k''), (''PATH'', ''/bin'')],
     os_home = Inr ''/t'', os_write_seat_files = (\<lambda>_. Inr ()), os_canonical_cwd = Some ''/repo'', os_create_all = (\<lambda>_. None),
     os_bin = (\<lambda>_. Inr ''/bin/kimi''), os_credentials_mode = None, os_credentials = Inl [], os_lock = (\<lambda>_. Inr ()),
     os_create_dir = (\<lambda>_. Made), os_temp_dir = ''/tmp'', os_stamp = ''1'', os_counter = 0, os_canonicalize = Some,
     os_macos = True, os_sandbox_exec = True, os_before = quiet_repo, os_after = quiet_repo,
     os_child = \<lparr>ch_end = Exited (Some 0), ch_lines = [example_line], ch_stderr = []\<rparr>, os_journal = [], os_export = None,
     os_review_timeout = 0, os_connector_timeout = 0\<rparr>"

definition example_dispatch :: dispatch where
  "example_dispatch = \<lparr>dp_seat = ''kimi'', dp_message = ''ok?'', dp_cwd = ''/repo'', dp_session = None, dp_model = None, dp_read_only = True\<rparr>"

lemma example_snapshot: "snapshot_cwd quiet_repo cwd = Inr [(''a.rs'', ''file:1'')]"
  by (simp add: snapshot_cwd_def quiet_repo_def snapshot_dir_def WALK_CAP_def dir_of_def node_value_def rel_name_def)

lemma example_prepared:
  "prepare_seat example_os example_dispatch row_kimi = Inr \<lparr>ss_profile = row_kimi, ss_home = ''/t/homes/kimi'', ss_cwd = ''/repo'',
     ss_bin = ''/bin/kimi'', ss_env_add = [], ss_output_dir = ''/tmp/triumvirate-seat-kimi-1-0''\<rparr>"
  by code_simp

lemma example_turn:
  "map_option (\<lambda>p. (sp_outcome p, response_text (sp_result p))) (seat_turn example_codec ''kimi'' [example_line] [] None (Some 0)) = Some (Success, ''yes'')"
  by code_simp

lemma example_barrier:
  "\<exists>args'. seatbelt_wrap example_os ''kimi'' bin args ''/t/homes/kimi'' ''/tmp/triumvirate-seat-kimi-1-0'' = Inr (SANDBOX_EXEC, args')"
proof -
  have "case render_seatbelt_profile (os_canonicalize example_os) ''/t/homes/kimi'' ''/tmp/triumvirate-seat-kimi-1-0'' (os_temp_dir example_os) of
      Inl _ \<Rightarrow> False | Inr _ \<Rightarrow> True" by code_simp
  then show ?thesis by (auto simp: seatbelt_wrap_def wrapped_with_def example_os_def split: sum.split_asm)
qed

lemma example_command_line:
  "\<exists>i. build_new_seat_invocation ''kimi'' (reader_request example_os example_dispatch home out ''/repo'') = Inr i \<and> inv_cwd i = ''/repo''"
  by (simp add: build_new_seat_invocation_def build_kimi_invocation_def reader_request_def example_dispatch_def KIMI_PROMPT_LIMIT_BYTES_def)

lemma seat_can_answer:
  "case run_new_seat example_codec example_os example_dispatch Map.empty of
     (Inr a, _, acts) \<Rightarrow> response_text (na_parsed a) = ''yes'' \<and> length acts = 2 | _ \<Rightarrow> False"
proof -
  have row: "seat_profile ''kimi'' = Some row_kimi"
    by (simp add: seat_profile_def SEATS_def EXISTING_def NEW_SEAT_def row_gemini_def row_codex_def row_deepseek_def row_claude_def
        row_grok_def row_kimi_def)
  have d: "dp_seat example_dispatch = ''kimi''" by (simp add: example_dispatch_def)
  obtain p where p: "seat_turn example_codec ''kimi'' [example_line] [] None (Some 0) = Some p" "sp_outcome p = Success" "response_text (sp_result p) = ''yes''"
    using example_turn by auto
  have w: "os_child example_os = \<lparr>ch_end = Exited (Some 0), ch_lines = [example_line], ch_stderr = []\<rparr>" "os_journal example_os = []" "os_export example_os = None"
    "os_before example_os = quiet_repo" "os_after example_os = quiet_repo" by (simp_all add: example_os_def)
  obtain i where i: "build_new_seat_invocation ''kimi'' (reader_request example_os example_dispatch ''/t/homes/kimi'' ''/tmp/triumvirate-seat-kimi-1-0'' ''/repo'') = Inr i"
    using example_command_line by blast
  obtain args' where b: "seatbelt_wrap example_os ''kimi'' ''/bin/kimi'' (inv_args i) ''/t/homes/kimi'' ''/tmp/triumvirate-seat-kimi-1-0'' = Inr (SANDBOX_EXEC, args')"
    using example_barrier by blast
  define a where "a = \<lparr>na_parsed = sp_result p, na_served_model = sp_served_model p\<rparr>"
  have child: "run_child example_codec example_os ''kimi'' bin limit spawn = (Inr a, [spawn])" for bin limit spawn
    using p by (simp add: run_child_def w judge_turn_def a_def)
  have audit: "audited example_os ''kimi'' cwd [(''a.rs'', ''file:1'')] (Inr a) = Inr a" for cwd
    by (simp add: audited_def w example_snapshot audit_repo_def sort_names_def bt_keys_def bt_contains_key_def bt_get_def)
  have "\<exists>spawn. run_new_seat_in example_codec example_os example_dispatch row_kimi ''/bin/kimi'' ''/t/homes/kimi''
      ''/tmp/triumvirate-seat-kimi-1-0'' [] ''/repo'' = (Inr a, [spawn])"
    by (simp only: run_new_seat_in_def Let_def d i b w(4) sum.case prod.case example_snapshot child audit) simp
  then show ?thesis
    by (auto simp: run_new_seat_def Let_def d row parser_for_seat_def new_seat_breaker_remaining_def example_prepared served_checked_def
        and_then_def a_def p(3) split: option.split)
qed

text \<open>The same dispatch when the provider answers 429: the premises of the quota property hold.\<close>

definition spent_os :: seat_os where
  "spent_os = example_os\<lparr>os_child := \<lparr>ch_end = Exited (Some 1), ch_lines = [], ch_stderr = [''HTTP 429'']\<rparr>\<rparr>"

lemma spent_turn:
  "case map_option sp_outcome (seat_turn example_codec ''kimi'' [] [] None (Some 1)) of
     Some (Failure why) \<Rightarrow> status_in_code (why @ [nl_char] @ stderr_tail [''HTTP 429'']) ''429''
                           \<and> \<not> status_in_code (why @ [nl_char] @ stderr_tail [''HTTP 429'']) ''403''
   | _ \<Rightarrow> False"
  by code_simp

lemma spent_os_fails: "failed_with_quota example_codec spent_os ''kimi''"
proof -
  obtain p where p: "seat_turn example_codec ''kimi'' [] [] None (Some 1) = Some p"
    using spent_turn by (cases "seat_turn example_codec ''kimi'' [] [] None (Some 1)") simp_all
  obtain why where w: "sp_outcome p = Failure why" using spent_turn p by (cases "sp_outcome p") simp_all
  have "os_child spent_os = \<lparr>ch_end = Exited (Some 1), ch_lines = [], ch_stderr = [''HTTP 429'']\<rparr>" "os_journal spent_os = []" "os_export spent_os = None"
    by (simp_all add: spent_os_def example_os_def)
  with p w spent_turn show ?thesis unfolding failed_with_quota_def status_in_code_iff[symmetric] by simp
qed

lemma spent_prepared:
  "prepare_seat spent_os example_dispatch row_kimi = Inr \<lparr>ss_profile = row_kimi, ss_home = ''/t/homes/kimi'', ss_cwd = ''/repo'',
     ss_bin = ''/bin/kimi'', ss_env_add = [], ss_output_dir = ''/tmp/triumvirate-seat-kimi-1-0''\<rparr>"
  by code_simp

lemma spent_seat_spawns: "list_ex is_spawn (snd (snd (run_new_seat example_codec spent_os example_dispatch Map.empty)))"
proof -
  have row: "seat_profile ''kimi'' = Some row_kimi"
    by (simp add: seat_profile_def SEATS_def EXISTING_def NEW_SEAT_def row_gemini_def row_codex_def row_deepseek_def row_claude_def
        row_grok_def row_kimi_def)
  have d: "dp_seat example_dispatch = ''kimi''" by (simp add: example_dispatch_def)
  have req: "reader_request spent_os = reader_request example_os" by (simp add: reader_request_def spent_os_def fun_eq_iff)
  have wrap: "seatbelt_wrap spent_os = seatbelt_wrap example_os" by (simp add: seatbelt_wrap_def wrapped_with_def spent_os_def fun_eq_iff)
  have bef: "os_before spent_os = quiet_repo" by (simp add: spent_os_def example_os_def)
  obtain i where i: "build_new_seat_invocation ''kimi'' (reader_request example_os example_dispatch ''/t/homes/kimi'' ''/tmp/triumvirate-seat-kimi-1-0'' ''/repo'') = Inr i"
    using example_command_line by blast
  obtain args' where b: "seatbelt_wrap example_os ''kimi'' ''/bin/kimi'' (inv_args i) ''/t/homes/kimi'' ''/tmp/triumvirate-seat-kimi-1-0'' = Inr (SANDBOX_EXEC, args')"
    using example_barrier by blast
  obtain f where f: "run_child example_codec spent_os ''kimi'' bin limit spawn = (Inl (f bin limit spawn), [spawn, BreakerTripped ''kimi''])"
    for bin limit spawn using quota_child[OF spent_os_fails] by metis
  have "\<exists>r p args env cwd. run_new_seat_in example_codec spent_os example_dispatch row_kimi ''/bin/kimi'' ''/t/homes/kimi''
      ''/tmp/triumvirate-seat-kimi-1-0'' [] ''/repo'' = (r, [Spawned p args env cwd, BreakerTripped ''kimi''])"
    by (simp only: run_new_seat_in_def Let_def d req wrap i b bef sum.case prod.case example_snapshot f) simp
  then obtain r p args env cwd where "run_new_seat_in example_codec spent_os example_dispatch row_kimi ''/bin/kimi'' ''/t/homes/kimi''
      ''/tmp/triumvirate-seat-kimi-1-0'' [] ''/repo'' = (r, [Spawned p args env cwd, BreakerTripped ''kimi''])" by blast
  then show ?thesis
    by (simp add: run_new_seat_def Let_def d row parser_for_seat_def new_seat_breaker_remaining_def spent_prepared is_spawn_def)
qed

end
