(* ===== verification/Seat_Writer.thy ===== *)
theory Seat_Writer
  imports Seat_Runner
begin

text \<open>
  \<open>triumvirate seat-run\<close> (\<open>run_seat_run\<close>, \<open>seat_run_inner\<close>, \<open>seat_run_in\<close> in \<open>triumvirate/src/agent_exec.rs\<close>): one writer turn
  of a newer seat in a linked work tree. The daemon commits for the seat, which has no shell. What git answers to each
  call is a field of the run's world; telemetry is left out.

  Shown here: what a commit establishes, which exit code the process has, and that a writer that was stopped is not
  audited.
\<close>

definition SEAT_RUN_EXIT_NO_CHANGES :: int where
  "SEAT_RUN_EXIT_NO_CHANGES = 3"

definition SEAT_RUN_EXIT_TIMEOUT :: int where
  "SEAT_RUN_EXIT_TIMEOUT = 124"

definition SEAT_RUN_EXIT_SIGNALLED :: int where
  "SEAT_RUN_EXIT_SIGNALLED = 143"

definition SEAT_RUN_WRITER_MAX_TURNS :: u32 where
  "SEAT_RUN_WRITER_MAX_TURNS = 50"

record SeatRunArgs =
  ra_seat :: string
  ra_surface :: string
  ra_worktree :: string
  ra_prompt_file :: string
  ra_commit_message :: string
  ra_timeout_secs :: u64

definition seat_run_surface :: "string \<Rightarrow> string + Surface" where
  "seat_run_surface name =
     (if name = ''abe'' then Inr AbeDispatch
      else if name = ''fleet'' then Inr FleetSpawn
      else if name = ''fleet-temporal'' then Inr FleetTemporal
      else Inl (''seat_run_bad_surface: '' @ debug_str name @ '' (one of abe, fleet, fleet-temporal)''))"

datatype SeatRunDone = Committed string nat | NoChanges

record SeatRunFail =
  sf_exit :: int
  sf_message :: string

definition seat_run_fail :: "string \<Rightarrow> SeatRunFail" where
  "seat_run_fail msg = \<lparr>sf_exit = 1, sf_message = msg\<rparr>"

definition seat_run_fail_outcome :: "SeatRunFail \<Rightarrow> string" where
  "seat_run_fail_outcome f =
     (if sf_exit f = SEAT_RUN_EXIT_TIMEOUT then ''timeout''
      else if sf_exit f = SEAT_RUN_EXIT_SIGNALLED then ''killed''
      else if starts_with (sf_message f) ''writer_escaped_worktree'' then ''escaped''
      else ''failed'')"

text \<open>\<open>git status --porcelain -z\<close>: the number of entries, and the changed links that lead out of the work tree.\<close>

function porcelain_z_count :: "string list \<Rightarrow> nat" where
  "porcelain_z_count [] = 0"
| "porcelain_z_count (f # fs) = Suc (porcelain_z_count (if starts_with f ''R'' \<or> starts_with f ''C'' then drop 1 fs else fs))"
  by pat_completeness auto

termination by (relation "measure length") auto

definition resolve_lexically :: "path \<Rightarrow> path" where
  "resolve_lexically cs =
     fold (\<lambda>c r. case c of
                   ParentDir \<Rightarrow> (case pop r of Some q \<Rightarrow> q | None \<Rightarrow> r)
                 | CurDir \<Rightarrow> r
                 | RootDir \<Rightarrow> [RootDir]
                 | NormalComp s \<Rightarrow> r @ [c]) cs []"

text \<open>\<open>link_at\<close>: \<open>None\<close> when the path is no link or cannot be looked at, \<open>Some None\<close> for a link that cannot be read.\<close>

definition link_leaves :: "string \<Rightarrow> (string \<Rightarrow> string option option) \<Rightarrow> string \<Rightarrow> bool" where
  "link_leaves worktree link_at rel =
     (case link_at (path_join worktree rel) of
        None \<Rightarrow> False
      | Some None \<Rightarrow> True
      | Some (Some target) \<Rightarrow>
          (let base = str_or worktree (parent_text (path_join worktree rel))
           in take (length (components worktree)) (resolve_lexically (components (path_join base target))) \<noteq> components worktree))"

definition symlinks_leaving_worktree :: "string \<Rightarrow> (string \<Rightarrow> string option option) \<Rightarrow> string list \<Rightarrow> string list" where
  "symlinks_leaving_worktree worktree link_at fs =
     map (\<lambda>(rel, _). ''symlink:'' @ rel) (filter (\<lambda>(rel, _). link_leaves worktree link_at rel) (porcelain_statuses fs))"

subsection \<open>One writer turn\<close>

datatype writer_end = WExited "string + int option" | WTimedOut | WSignalled string

text \<open>What the system answers during a writer turn, beyond what it answers a reader.\<close>

record writer_os = seat_os +
  wo_prompt :: "string + string"
  wo_remove_prompt :: "string + unit"
  wo_version :: "string option"
  wo_gate :: gate_env
  wo_worktree :: "string option"
  wo_rev_parse :: "string + string"
  wo_symbolic_ref :: "string option"
  wo_meta_before :: meta_view
  wo_meta_after :: meta_view
  wo_signals :: "string + unit"
  wo_spawn :: "string + unit"
  wo_end :: writer_end
  wo_link_at :: "string \<Rightarrow> string option option"
  wo_git :: "string list \<Rightarrow> string + string"

definition failing :: "string + 'a \<Rightarrow> SeatRunFail + 'a" where
  "failing r = map_sum seat_run_fail id r"

definition writer_seatbelt_wrap ::
  "writer_os \<Rightarrow> string \<Rightarrow> string \<Rightarrow> string list \<Rightarrow> string \<Rightarrow> string \<Rightarrow> string \<Rightarrow> string + string \<times> string list"
where
  "writer_seatbelt_wrap W seat bin args home output_dir worktree =
     wrapped_with (seat_os.truncate W) seat bin args
       (render_writer_seatbelt_profile (os_canonicalize W) home output_dir (os_temp_dir W) worktree)"

definition writer_request :: "SeatRunArgs \<Rightarrow> string \<Rightarrow> string \<Rightarrow> string \<Rightarrow> string \<Rightarrow> SeatRequest" where
  "writer_request a prompt home output_dir worktree =
     \<lparr>rq_prompt = prompt, rq_cwd = worktree, rq_seat_home = home, rq_output_dir = output_dir, rq_model = None,
      rq_resume_session_id = None, rq_extra_args = [], rq_max_turns = SEAT_RUN_WRITER_MAX_TURNS,
      rq_time_limit = from_secs (max (unat (ra_timeout_secs a)) 1), rq_mode = Writer\<rparr>"

definition seat_run_snapshot :: "repo_view \<Rightarrow> meta_view \<Rightarrow> string \<Rightarrow> WorktreeGitDirs \<Rightarrow> string + RepoSnapshot \<times> RepoSnapshot" where
  "seat_run_snapshot V M worktree dirs =
     and_then (snapshot_cwd V (wd_main_worktree dirs)) (\<lambda>parent.
     and_then (snapshot_git_metadata M worktree dirs) (\<lambda>meta. Inr (parent, meta)))"

definition writer_audit_failed :: "string \<Rightarrow> string \<Rightarrow> string" where
  "writer_audit_failed seat e = ''writer_audit_unavailable:'' @ seat @ '': '' @ e"

definition escape_message :: "string \<Rightarrow> string list \<Rightarrow> string" where
  "escape_message seat ps = ''writer_escaped_worktree:'' @ seat @ '': '' @ join '', '' ps"

definition escape_audit ::
  "writer_os \<Rightarrow> string \<Rightarrow> string \<Rightarrow> WorktreeGitDirs \<Rightarrow> RepoSnapshot \<times> RepoSnapshot \<Rightarrow> string + unit"
where
  "escape_audit W seat worktree dirs before =
     (case seat_run_snapshot (os_after W) (wo_meta_after W) worktree dirs of
        Inl e \<Rightarrow> Inl (writer_audit_failed seat e)
      | Inr after \<Rightarrow>
          (let escaped = map (\<lambda>p. ''parent:'' @ p) (audit_repo (fst before) (fst after)) @ audit_repo (snd before) (snd after)
           in if escaped = [] then Inr () else Inl (escape_message seat escaped)))"

definition last_line_said :: "string \<Rightarrow> string \<Rightarrow> string" where
  "last_line_said seat stderr =
     (let ls = lines stderr; tail = (if ls = [] then [] else last ls)
      in if tail = [] then [] else ''; '' @ seat @ '' said: '' @ tail)"

definition judge_writer :: "string \<Rightarrow> string \<Rightarrow> SeatParsed \<Rightarrow> (string + unit) \<times> seat_action list" where
  "judge_writer seat stderr p =
     (case sp_outcome p of
        Success \<Rightarrow> (Inr (), [])
      | Partial reason \<Rightarrow> (Inr (), [])
      | Failure why \<Rightarrow>
          (case classify_new_seat_failure why stderr of
             SuspendedClass \<Rightarrow>
               (let reason = ''403 from provider: '' @ why
                in (Inl (''seat_suspended: '' @ seat @ '': '' @ reason @ last_line_said seat stderr), [SuspensionAsked seat reason]))
           | QuotaClass \<Rightarrow> (Inl (''seat_quota_exhausted:'' @ seat @ '': '' @ why @ last_line_said seat stderr), [])
           | OtherClass \<Rightarrow> (Inl (why @ last_line_said seat stderr), [])))"

definition writer_served :: "string \<Rightarrow> SeatParsed \<Rightarrow> string + unit" where
  "writer_served seat p =
     (case sp_served_model p of Some served \<Rightarrow> if seat = ''qwen'' then check_served_model served else Inr () | None \<Rightarrow> Inr ())"

fun git_steps :: "writer_os \<Rightarrow> string list list \<Rightarrow> (string + unit) \<times> seat_action list" where
  "git_steps W [] = (Inr (), [])"
| "git_steps W (args # rest) =
     (case wo_git W args of
        Inl e \<Rightarrow> (Inl e, [GitRun args])
      | Inr _ \<Rightarrow> (case git_steps W rest of (r, acts) \<Rightarrow> (r, GitRun args # acts)))"

definition commit_steps :: "string \<Rightarrow> string list list" where
  "commit_steps msg =
     [[''add'', ''-A''], [''rm'', ''-r'', ''-q'', ''--cached'', ''--ignore-unmatch'', ''--'', ''.triumvirate''],
      [''commit'', ''-q'', ''-m'', msg]]"

definition CHANGES_ARGS :: "string list" where
  "CHANGES_ARGS = [''status'', ''--porcelain'', ''-z'', ''--untracked-files=all'', ''--'', ''.'', '':!.triumvirate'']"

definition HEAD_ARGS :: "string list" where
  "HEAD_ARGS = [''rev-parse'', ''HEAD'']"

definition git_fail :: "string \<Rightarrow> string \<Rightarrow> string + SeatRunDone" where
  "git_fail seat e = Inl (''seat_run_commit_failed:'' @ seat @ '': '' @ e)"

definition commit_changes :: "writer_os \<Rightarrow> SeatRunArgs \<Rightarrow> string \<Rightarrow> string \<Rightarrow> string \<Rightarrow> (string + SeatRunDone) \<times> seat_action list" where
  "commit_changes W a seat worktree changes =
     (if trim (trim_matches (\<lambda>c. c = CHR 0x00) changes) = [] then (Inr NoChanges, [])
      else
        (let outside = symlinks_leaving_worktree worktree (wo_link_at W) (nul_fields changes)
         in if outside \<noteq> [] then (Inl (escape_message seat outside), [])
            else
              (case git_steps W (commit_steps (ra_commit_message a)) of
                 (Inl e, acts) \<Rightarrow> (git_fail seat e, acts)
               | (Inr _, acts) \<Rightarrow>
                   (case wo_git W HEAD_ARGS of
                      Inl e \<Rightarrow> git_fail seat e
                    | Inr sha \<Rightarrow> Inr (Committed (trim sha) (porcelain_z_count (nul_fields changes))),
                    acts @ [GitRun HEAD_ARGS]))))"

definition commit_work :: "writer_os \<Rightarrow> SeatRunArgs \<Rightarrow> string \<Rightarrow> string \<Rightarrow> (string + SeatRunDone) \<times> seat_action list" where
  "commit_work W a seat worktree =
     (case wo_git W CHANGES_ARGS of
        Inl e \<Rightarrow> (git_fail seat e, [GitRun CHANGES_ARGS])
      | Inr changes \<Rightarrow>
          (case commit_changes W a seat worktree changes of (r, acts) \<Rightarrow> (r, GitRun CHANGES_ARGS # acts)))"

text \<open>The end of the process: a writer that ran out of time or was signalled fails at once.\<close>

definition after_exit ::
  "serde \<Rightarrow> writer_os \<Rightarrow> SeatRunArgs \<Rightarrow> string \<Rightarrow> string \<Rightarrow> WorktreeGitDirs \<Rightarrow> RepoSnapshot \<times> RepoSnapshot \<Rightarrow> int option
     \<Rightarrow> (string + SeatRunDone) \<times> seat_action list"
where
  "after_exit S W a seat worktree dirs before status =
     (case escape_audit W seat worktree dirs before of
        Inl e \<Rightarrow> (Inl e, [])
      | Inr _ \<Rightarrow>
          (case seat_turn S seat (ch_lines (os_child W)) (os_journal W) (os_export W) status of
             None \<Rightarrow> (Inl (''not_a_new_seat: '' @ seat), [])
           | Some p \<Rightarrow>
               (case judge_writer seat (stderr_tail (ch_stderr (os_child W))) p of
                  (Inl e, acts) \<Rightarrow> (Inl e, acts)
                | (Inr _, acts) \<Rightarrow>
                    (case writer_served seat p of
                       Inl e \<Rightarrow> (Inl e, acts)
                     | Inr _ \<Rightarrow> (case commit_work W a seat worktree of (r, acts') \<Rightarrow> (r, acts @ acts'))))))"

definition writer_ended ::
  "serde \<Rightarrow> writer_os \<Rightarrow> SeatRunArgs \<Rightarrow> string \<Rightarrow> string \<Rightarrow> WorktreeGitDirs \<Rightarrow> RepoSnapshot \<times> RepoSnapshot
     \<Rightarrow> (SeatRunFail + SeatRunDone) \<times> seat_action list"
where
  "writer_ended S W a seat worktree dirs before =
     (case wo_end W of
        WTimedOut \<Rightarrow>
          (Inl \<lparr>sf_exit = SEAT_RUN_EXIT_TIMEOUT,
                sf_message = ''seat_timed_out:'' @ seat @ '': no commit after '' @ show_nat (max (unat (ra_timeout_secs a)) 1)
                  @ ''s; the vendor's process group was killed''\<rparr>, [])
      | WSignalled sig \<Rightarrow>
          (Inl \<lparr>sf_exit = SEAT_RUN_EXIT_SIGNALLED,
                sf_message = ''seat_run_signalled:'' @ seat @ '': '' @ sig @ ''; the vendor's process group was killed, nothing committed''\<rparr>, [])
      | WExited (Inl e) \<Rightarrow> (Inl (seat_run_fail (''seat_run_wait_failed:'' @ seat @ '': '' @ e)), [])
      | WExited (Inr status) \<Rightarrow> (case after_exit S W a seat worktree dirs before status of (r, acts) \<Rightarrow> (failing r, acts)))"

text \<open>Everything up to the start of the process, and the state that the audit compares with.\<close>

definition writer_spawn ::
  "writer_os \<Rightarrow> SeatRunArgs \<Rightarrow> string \<Rightarrow> SeatProfile \<Rightarrow> string \<Rightarrow> string \<Rightarrow> string \<Rightarrow> (string \<times> string) list \<Rightarrow> string
     \<Rightarrow> string \<Rightarrow> WorktreeGitDirs \<Rightarrow> string + seat_action \<times> RepoSnapshot \<times> RepoSnapshot"
where
  "writer_spawn W a seat profile bin home output_dir env_add prompt worktree dirs =
     and_then (build_new_seat_invocation seat (writer_request a prompt home output_dir worktree)) (\<lambda>i.
     and_then (writer_seatbelt_wrap W seat bin (inv_args i) home output_dir worktree) (\<lambda>(program, args).
     and_then (map_sum (writer_audit_failed seat) id (seat_run_snapshot (os_before W) (wo_meta_before W) worktree dirs)) (\<lambda>before.
     and_then (map_sum (\<lambda>e. ''seat_run_signal_unavailable:'' @ seat @ '': '' @ e) id (wo_signals W)) (\<lambda>_.
     and_then (map_sum (\<lambda>e. ''spawn_failed:'' @ seat @ '': '' @ bin @ '': '' @ e) id (wo_spawn W)) (\<lambda>_.
       Inr (Spawned program args (seat_child_env (seat_os.truncate W) profile i home env_add) worktree, before))))))"

definition seat_run_in ::
  "serde \<Rightarrow> writer_os \<Rightarrow> SeatRunArgs \<Rightarrow> string \<Rightarrow> SeatProfile \<Rightarrow> string \<Rightarrow> string \<Rightarrow> string \<Rightarrow> (string \<times> string) list \<Rightarrow> string
     \<Rightarrow> string \<Rightarrow> WorktreeGitDirs \<Rightarrow> (SeatRunFail + SeatRunDone) \<times> seat_action list"
where
  "seat_run_in S W a seat profile bin home output_dir env_add prompt worktree dirs =
     (case writer_spawn W a seat profile bin home output_dir env_add prompt worktree dirs of
        Inl e \<Rightarrow> (Inl (seat_run_fail e), [])
      | Inr (spawn, before) \<Rightarrow>
          (case writer_ended S W a seat worktree dirs before of (r, acts) \<Rightarrow> (r, spawn # GroupKilled # acts)))"

record writer_setup =
  ws_profile :: SeatProfile
  ws_prompt :: string
  ws_home :: string
  ws_bin :: string
  ws_env_add :: "(string \<times> string) list"
  ws_worktree :: string
  ws_dirs :: WorktreeGitDirs
  ws_output_dir :: string

definition writer_gate :: "writer_os \<Rightarrow> string \<Rightarrow> Surface \<Rightarrow> string + unit" where
  "writer_gate W seat surface =
     (let g = (case wo_version W of Some v \<Rightarrow> register_installed_cli_version seat v (wo_gate W) | None \<Rightarrow> wo_gate W)
      in map_sum message id (fst (seat_gate g seat surface Unattended False)))"

definition prepare_writer :: "writer_os \<Rightarrow> SeatRunArgs \<Rightarrow> string \<Rightarrow> string + writer_setup" where
  "prepare_writer W a seat =
     and_then (wo_prompt W) (\<lambda>prompt.
     and_then (wo_remove_prompt W) (\<lambda>_.
     and_then (seat_run_surface (ra_surface a)) (\<lambda>surface.
     and_then (case (seat_profile seat, parser_for_seat seat) of (Some p, Some _) \<Rightarrow> Inr p | _ \<Rightarrow> Inl (''not_a_new_seat: '' @ seat)) (\<lambda>profile.
     and_then (writer_gate W seat surface) (\<lambda>_.
     and_then (case wo_worktree W of Some w \<Rightarrow> Inr w | None \<Rightarrow> Inl (''seat_requires_worktree:'' @ seat @ '': '' @ ra_worktree a)) (\<lambda>worktree.
     and_then (map_sum (\<lambda>e. if starts_with e ''seat_'' then e else ''seat_run_git_unavailable:'' @ seat @ '': '' @ e) id
                 (worktree_git_dirs (os_canonicalize W) (wo_rev_parse W) (wo_symbolic_ref W) worktree)) (\<lambda>dirs.
     and_then (os_home W) (\<lambda>th.
     and_then (seat_home th seat) (\<lambda>home.
     and_then (os_write_seat_files W home) (\<lambda>_.
     and_then (os_bin W seat) (\<lambda>bin.
     and_then (seat_credentials (seat_os.truncate W) seat home) (\<lambda>env_add.
     and_then (seat_locked (seat_os.truncate W) profile seat) (\<lambda>_.
     and_then (new_seat_output_dir (os_create_dir W) (os_temp_dir W) (os_stamp W) (os_counter W) seat) (\<lambda>output_dir.
       Inr \<lparr>ws_profile = profile, ws_prompt = prompt, ws_home = home, ws_bin = bin, ws_env_add = env_add,
            ws_worktree = worktree, ws_dirs = dirs, ws_output_dir = output_dir\<rparr>))))))))))))))"

definition seat_run_inner :: "serde \<Rightarrow> writer_os \<Rightarrow> string \<Rightarrow> SeatRunArgs \<Rightarrow> (SeatRunFail + SeatRunDone) \<times> seat_action list" where
  "seat_run_inner S W seat a =
     (case prepare_writer W a seat of
        Inl e \<Rightarrow> (Inl (seat_run_fail e), [])
      | Inr x \<Rightarrow>
          (case seat_run_in S W a seat (ws_profile x) (ws_bin x) (ws_home x) (ws_output_dir x) (ws_env_add x) (ws_prompt x)
                  (ws_worktree x) (ws_dirs x) of
             (r, acts) \<Rightarrow> (r, acts @ [DirRemoved (ws_output_dir x)])))"

text \<open>The exit code and the last line on the error stream.\<close>

definition run_seat_run :: "serde \<Rightarrow> writer_os \<Rightarrow> SeatRunArgs \<Rightarrow> (int \<times> string) \<times> seat_action list" where
  "run_seat_run S W a =
     (let seat = normalize_agent_name (ra_seat a)
      in case seat_run_inner S W seat a of
           (Inr (Committed sha n), acts) \<Rightarrow> ((0, ''seat-run: committed '' @ sha), acts)
         | (Inr NoChanges, acts) \<Rightarrow> ((SEAT_RUN_EXIT_NO_CHANGES, ''seat-run: no_changes seat_made_no_changes:'' @ seat), acts)
         | (Inl f, acts) \<Rightarrow> ((sf_exit f, ''seat-run: '' @ sf_message f), acts))"

subsection \<open>What a commit establishes\<close>

definition is_git :: "seat_action \<Rightarrow> bool" where
  "is_git a = (case a of GitRun _ \<Rightarrow> True | _ \<Rightarrow> False)"

definition not_failed :: "SeatParsed \<Rightarrow> bool" where
  "not_failed p = (case sp_outcome p of Failure _ \<Rightarrow> False | _ \<Rightarrow> True)"

lemma git_steps_prefix:
  "git_steps W steps = (r, acts) \<Longrightarrow> \<exists>pre. prefix pre steps \<and> acts = map GitRun pre \<and> (r = Inr () \<longrightarrow> pre = steps)"
proof (induction steps arbitrary: r acts)
  case (Cons args rest)
  show ?case
  proof (cases "wo_git W args")
    case (Inl e)
    with Cons.prems show ?thesis by (intro exI[of _ "[args]"]) auto
  next
    case (Inr out)
    obtain r' acts' where g: "git_steps W rest = (r', acts')" by force
    from Cons.IH[OF g] obtain pre where "prefix pre rest" "acts' = map GitRun pre" "r' = Inr () \<longrightarrow> pre = rest" by blast
    with Cons.prems Inr g show ?thesis by (intro exI[of _ "args # pre"]) auto
  qed
qed simp

text \<open>The commands of git after the one that lists the changes, in order.\<close>

definition git_program :: "string \<Rightarrow> string list list" where
  "git_program msg = commit_steps msg @ [HEAD_ARGS]"

text \<open>What git lists as changed has no link that leads out of the work tree.\<close>

definition no_link_out :: "writer_os \<Rightarrow> string \<Rightarrow> bool" where
  "no_link_out W worktree =
     (case wo_git W CHANGES_ARGS of
        Inl _ \<Rightarrow> False
      | Inr changes \<Rightarrow> symlinks_leaving_worktree worktree (wo_link_at W) (nul_fields changes) = [])"

lemma commit_changes_git:
  assumes "commit_changes W a seat worktree changes = (r, acts)"
  shows "\<exists>steps. acts = map GitRun steps \<and> prefix steps (git_program (ra_commit_message a))
     \<and> (steps \<noteq> [] \<longrightarrow> symlinks_leaving_worktree worktree (wo_link_at W) (nul_fields changes) = [])
     \<and> ((\<exists>sha n. r = Inr (Committed sha n)) \<longrightarrow> steps = git_program (ra_commit_message a))"
proof (cases "trim (trim_matches (\<lambda>c. c = CHR 0x00) changes) = [] \<or> symlinks_leaving_worktree worktree (wo_link_at W) (nul_fields changes) \<noteq> []")
  case True
  with assms show ?thesis by (intro exI[of _ "[]"]) (auto simp: commit_changes_def Let_def split: if_split_asm)
next
  case False
  obtain g acts' where g: "git_steps W (commit_steps (ra_commit_message a)) = (g, acts')" by force
  from git_steps_prefix[OF g] obtain pre where pre: "prefix pre (commit_steps (ra_commit_message a))" "acts' = map GitRun pre"
    "g = Inr () \<longrightarrow> pre = commit_steps (ra_commit_message a)" by blast
  show ?thesis
  proof (cases g)
    case (Inl e)
    with assms False g have "acts = acts'" "r = git_fail seat e" by (simp_all add: commit_changes_def Let_def)
    with pre False show ?thesis by (intro exI[of _ pre]) (auto simp: git_program_def git_fail_def prefix_def)
  next
    case (Inr u)
    with assms False g have "acts = acts' @ [GitRun HEAD_ARGS]" by (simp add: commit_changes_def Let_def)
    with Inr pre False show ?thesis by (intro exI[of _ "git_program (ra_commit_message a)"]) (simp add: git_program_def)
  qed
qed

lemma commit_work_git:
  assumes "commit_work W a seat worktree = (r, acts)"
  obtains steps where "acts = GitRun CHANGES_ARGS # map GitRun steps" "prefix steps (git_program (ra_commit_message a))"
    "steps \<noteq> [] \<longrightarrow> no_link_out W worktree"
    "(\<exists>sha n. r = Inr (Committed sha n)) \<longrightarrow> steps = git_program (ra_commit_message a)"
proof (cases "wo_git W CHANGES_ARGS")
  case (Inl e)
  with assms that[of "[]"] show thesis by (auto simp: commit_work_def git_fail_def)
next
  case (Inr changes)
  obtain r' acts' where c: "commit_changes W a seat worktree changes = (r', acts')" by force
  with assms Inr have "r = r'" "acts = GitRun CHANGES_ARGS # acts'" by (simp_all add: commit_work_def)
  with commit_changes_git[OF c] Inr that show thesis by (auto simp: no_link_out_def)
qed

lemma seat_run_snapshot_invar:
  "seat_run_snapshot V M worktree dirs = Inr (p, m) \<Longrightarrow> bt_invar p \<and> bt_invar m"
  using snapshot_cwd_invar snapshot_git_metadata_invar by (auto simp: seat_run_snapshot_def)

lemma escape_audit_ok:
  assumes "escape_audit W seat worktree dirs before = Inr ()"
    and b: "seat_run_snapshot V M worktree dirs = Inr before"
  shows "seat_run_snapshot (os_after W) (wo_meta_after W) worktree dirs = Inr before"
proof -
  obtain p m where before: "before = (p, m)" by force
  from assms(1) obtain p' m' where a: "seat_run_snapshot (os_after W) (wo_meta_after W) worktree dirs = Inr (p', m')"
    "audit_repo p p' = []" "audit_repo m m' = []"
    by (auto simp: escape_audit_def before Let_def split: sum.split_asm if_split_asm)
  from seat_run_snapshot_invar[OF b[unfolded before]] seat_run_snapshot_invar[OF a(1)] a
  have "p' = p" "m' = m" using audit_repo_empty by blast+
  with a(1) show ?thesis by (simp add: before)
qed

lemma judge_writer_acts:
  "judge_writer seat stderr p = (r, acts) \<Longrightarrow> \<not> list_ex is_git acts \<and> (r = Inr () \<longrightarrow> acts = [] \<and> not_failed p)"
  by (auto simp: judge_writer_def not_failed_def is_git_def Let_def
      split: Stream_Types.SeatOutcome.split_asm NewSeatFailureClass.split_asm)

lemma after_exit_git:
  assumes "after_exit S W a seat worktree dirs before status = (r, acts)" "list_ex is_git acts \<or> (\<exists>sha n. r = Inr (Committed sha n))"
  obtains p where "escape_audit W seat worktree dirs before = Inr ()"
    "seat_turn S seat (ch_lines (os_child W)) (os_journal W) (os_export W) status = Some p" "not_failed p"
    "commit_work W a seat worktree = (r, acts)"
proof -
  have e: "escape_audit W seat worktree dirs before = Inr ()"
    using assms by (cases "escape_audit W seat worktree dirs before") (auto simp: after_exit_def)
  moreover from assms e obtain p where p: "seat_turn S seat (ch_lines (os_child W)) (os_journal W) (os_export W) status = Some p"
    by (auto simp: after_exit_def split: option.split_asm)
  moreover obtain jr ja where j: "judge_writer seat (stderr_tail (ch_stderr (os_child W))) p = (jr, ja)" by force
  note jw = judge_writer_acts[OF j]
  moreover have "jr = Inr ()" using assms e p j jw by (cases jr) (auto simp: after_exit_def)
  moreover obtain cr ca where c: "commit_work W a seat worktree = (cr, ca)" by force
  moreover have "cr = r \<and> ca = acts"
    using assms e p j jw c \<open>jr = Inr ()\<close> by (cases "writer_served seat p") (auto simp: after_exit_def)
  ultimately show thesis using that by blast
qed

lemma writer_ended_git:
  assumes "writer_ended S W a seat worktree dirs before = (r, acts)" "list_ex is_git acts \<or> (\<exists>sha n. r = Inr (Committed sha n))"
  obtains status r' where "wo_end W = WExited (Inr status)" "after_exit S W a seat worktree dirs before status = (r', acts)"
    "r = failing r'"
  using assms by (auto simp: writer_ended_def split: writer_end.split_asm sum.split_asm prod.split_asm)

lemma failing_committed: "failing r = Inr (Committed sha n) \<longleftrightarrow> r = Inr (Committed sha n)"
  by (cases r) (simp_all add: failing_def)

lemma seat_run_in_git:
  assumes "seat_run_in S W a seat profile bin home out env_add prompt worktree dirs = (r, acts)"
    "list_ex is_git acts \<or> (\<exists>sha n. r = Inr (Committed sha n))"
  obtains i program args before acts' where
    "build_new_seat_invocation seat (writer_request a prompt home out worktree) = Inr i"
    "writer_seatbelt_wrap W seat bin (inv_args i) home out worktree = Inr (program, args)"
    "seat_run_snapshot (os_before W) (wo_meta_before W) worktree dirs = Inr before"
    "writer_ended S W a seat worktree dirs before = (r, acts')" "list_ex is_git acts' \<or> (\<exists>sha n. r = Inr (Committed sha n))"
    "acts = Spawned program args (seat_child_env (seat_os.truncate W) profile i home env_add) worktree # GroupKilled # acts'"
proof -
  have ms: "map_sum f id r' = Inr x \<longleftrightarrow> r' = Inr x" for f :: "string \<Rightarrow> string" and r' :: "string + 'x" and x by (cases r') auto
  from assms obtain spawn before where b: "writer_spawn W a seat profile bin home out env_add prompt worktree dirs = Inr (spawn, before)"
    by (cases "writer_spawn W a seat profile bin home out env_add prompt worktree dirs") (auto simp: seat_run_in_def)
  obtain r' acts' where w: "writer_ended S W a seat worktree dirs before = (r', acts')" by force
  from assms(1) b w have ra: "r' = r" "acts = spawn # GroupKilled # acts'" by (simp_all add: seat_run_in_def)
  from b obtain i program args where i:
    "build_new_seat_invocation seat (writer_request a prompt home out worktree) = Inr i"
    "writer_seatbelt_wrap W seat bin (inv_args i) home out worktree = Inr (program, args)"
    "seat_run_snapshot (os_before W) (wo_meta_before W) worktree dirs = Inr before"
    "spawn = Spawned program args (seat_child_env (seat_os.truncate W) profile i home env_add) worktree"
    by (auto simp: writer_spawn_def ms)
  have "list_ex is_git acts' \<or> (\<exists>sha n. r = Inr (Committed sha n))" using assms(2) by (auto simp: ra(2) i(4) is_git_def)
  with that i w ra show thesis by blast
qed

lemma writer_fails_nonzero:
  assumes "seat_run_inner S W seat a = (Inl f, acts)"
  shows "sf_exit f \<noteq> 0"
proof -
  have f: "sf_exit f \<noteq> 0" if "failing r' = Inl f" for r' :: "string + SeatRunDone" and f
    using that by (cases r') (auto simp: failing_def seat_run_fail_def)
  have w: "sf_exit f \<noteq> 0" if "writer_ended S W a seat wt dirs before = (Inl f, acts')" for wt dirs before acts' f
    using that f by (auto simp: writer_ended_def SEAT_RUN_EXIT_TIMEOUT_def SEAT_RUN_EXIT_SIGNALLED_def seat_run_fail_def
        split: writer_end.split_asm sum.split_asm prod.split_asm)
  have i: "sf_exit f \<noteq> 0" if "seat_run_in S W a seat profile bin home out env_add prompt wt dirs = (Inl f, acts')"
    for profile bin home out env_add prompt wt dirs acts' f
    using that w by (auto simp: seat_run_in_def seat_run_fail_def split: sum.split_asm prod.split_asm)
  from assms i show ?thesis
    by (auto simp: seat_run_inner_def seat_run_fail_def split: sum.split_asm prod.split_asm)
qed

lemma prepare_writer_facts:
  assumes "prepare_writer W a seat = Inr x"
  shows "\<exists>surface. seat_run_surface (ra_surface a) = Inr surface \<and> writer_gate W seat surface = Inr ()"
    and "seat_profile seat = Some (ws_profile x)" and "parser_for_seat seat \<noteq> None"
    and "seat_credentials (seat_os.truncate W) seat (ws_home x) = Inr (ws_env_add x)"
  using assms by (auto simp: prepare_writer_def split: option.split_asm)

text \<open>C17: the commit of a writer. When \<open>seat-run\<close> leaves with code 0, or runs any command of git for the commit, even the one
  that lists the changes, then the gate was open for the seat on a surface of builds; one process was started with the
  writer's command line and no foreign vendor variable, on macOS under the writer's sandbox profile and elsewhere under
  none, and its group was killed before anything else; the snapshots of the parent repository and of the git metadata
  before and after it are equal, where the metadata are those of the work tree and of its own branch (not the references
  of other branches, not the main index, nothing inside an ignored directory); and its turn was no failure. After the
  list of changes the commands are the first ones of staging, unstaging the daemon's own directory, committing and
  reading the commit, all of them when the code is 0, and there are none unless no changed link leads out of the work
  tree.\<close>

theorem writer_commit_was_audited:
  "case run_seat_run S W a of ((exit_code, line), acts) \<Rightarrow>
     if exit_code = 0 \<or> list_ex is_git acts then
       \<exists>x i program args env before status p steps surface.
         prepare_writer W a (normalize_agent_name (ra_seat a)) = Inr x
         \<and> seat_run_surface (ra_surface a) = Inr surface \<and> writer_gate W (normalize_agent_name (ra_seat a)) surface = Inr ()
         \<and> acts = Spawned program args env (ws_worktree x) # GroupKilled # GitRun CHANGES_ARGS # map GitRun steps @ [DirRemoved (ws_output_dir x)]
         \<and> build_new_seat_invocation (normalize_agent_name (ra_seat a))
              (writer_request a (ws_prompt x) (ws_home x) (ws_output_dir x) (ws_worktree x)) = Inr i
         \<and> behind_profile (seat_os.truncate W) (ws_bin x) (inv_args i)
              (render_writer_seatbelt_profile (os_canonicalize W) (ws_home x) (ws_output_dir x) (os_temp_dir W) (ws_worktree x)) program args
         \<and> set (scan_stray_keys env) \<subseteq> set (own_keys (normalize_agent_name (ra_seat a)))
         \<and> seat_run_snapshot (os_before W) (wo_meta_before W) (ws_worktree x) (ws_dirs x) = Inr before
         \<and> seat_run_snapshot (os_after W) (wo_meta_after W) (ws_worktree x) (ws_dirs x) = Inr before
         \<and> wo_end W = WExited (Inr status)
         \<and> seat_turn S (normalize_agent_name (ra_seat a)) (ch_lines (os_child W)) (os_journal W) (os_export W) status = Some p
         \<and> not_failed p
         \<and> prefix steps (git_program (ra_commit_message a))
         \<and> (if steps = [] then True else no_link_out W (ws_worktree x))
         \<and> (if exit_code = 0 then steps = git_program (ra_commit_message a) else True)
     else True"
proof -
  define seat where "seat = normalize_agent_name (ra_seat a)"
  obtain exit_code line acts where run: "run_seat_run S W a = ((exit_code, line), acts)" by (metis surj_pair)
  obtain r where inner: "seat_run_inner S W seat a = (r, acts)"
    and zero: "exit_code = 0 \<longleftrightarrow> (\<exists>sha n. r = Inr (Committed sha n)) \<or> (\<exists>f. r = Inl f \<and> sf_exit f = 0)"
    using run unfolding run_seat_run_def Let_def seat_def[symmetric]
    by (cases "seat_run_inner S W seat a") (auto simp: SEAT_RUN_EXIT_NO_CHANGES_def split: sum.split_asm SeatRunDone.split_asm)
  show ?thesis
  proof (cases "exit_code = 0 \<or> list_ex is_git acts")
    case True
    have git: "list_ex is_git acts \<or> (\<exists>sha n. r = Inr (Committed sha n))"
      using True zero writer_fails_nonzero[of S W seat a _ acts] inner by auto
    then obtain x where x: "prepare_writer W a seat = Inr x"
      using inner by (cases "prepare_writer W a seat") (auto simp: seat_run_inner_def)
    note pre = prepare_writer_facts[OF x]
    obtain acts1 where sr: "seat_run_in S W a seat (ws_profile x) (ws_bin x) (ws_home x) (ws_output_dir x) (ws_env_add x) (ws_prompt x)
        (ws_worktree x) (ws_dirs x) = (r, acts1)" and acts: "acts = acts1 @ [DirRemoved (ws_output_dir x)]"
      using inner x by (auto simp: seat_run_inner_def split: prod.split_asm)
    have git1: "list_ex is_git acts1 \<or> (\<exists>sha n. r = Inr (Committed sha n))" using git by (simp add: acts is_git_def)
    from seat_run_in_git[OF sr git1] obtain i program args before acts2 where i:
      "build_new_seat_invocation seat (writer_request a (ws_prompt x) (ws_home x) (ws_output_dir x) (ws_worktree x)) = Inr i"
      "writer_seatbelt_wrap W seat (ws_bin x) (inv_args i) (ws_home x) (ws_output_dir x) (ws_worktree x) = Inr (program, args)"
      "seat_run_snapshot (os_before W) (wo_meta_before W) (ws_worktree x) (ws_dirs x) = Inr before"
      "writer_ended S W a seat (ws_worktree x) (ws_dirs x) before = (r, acts2)" "list_ex is_git acts2 \<or> (\<exists>sha n. r = Inr (Committed sha n))"
      "acts1 = Spawned program args (seat_child_env (seat_os.truncate W) (ws_profile x) i (ws_home x) (ws_env_add x)) (ws_worktree x) # GroupKilled # acts2"
      by blast
    from writer_ended_git[OF i(4,5)] obtain status r' where st: "wo_end W = WExited (Inr status)"
      "after_exit S W a seat (ws_worktree x) (ws_dirs x) before status = (r', acts2)" "r = failing r'" by blast
    have git2: "list_ex is_git acts2 \<or> (\<exists>sha n. r' = Inr (Committed sha n))" using i(5) by (simp add: st(3) failing_committed)
    from after_exit_git[OF st(2) git2] obtain p where p: "escape_audit W seat (ws_worktree x) (ws_dirs x) before = Inr ()"
      "seat_turn S seat (ch_lines (os_child W)) (os_journal W) (os_export W) status = Some p" "not_failed p"
      "commit_work W a seat (ws_worktree x) = (r', acts2)" by blast
    obtain steps where c: "acts2 = GitRun CHANGES_ARGS # map GitRun steps" "prefix steps (git_program (ra_commit_message a))"
      "steps \<noteq> [] \<longrightarrow> no_link_out W (ws_worktree x)"
      "(\<exists>sha n. r' = Inr (Committed sha n)) \<longrightarrow> steps = git_program (ra_commit_message a)"
      by (rule commit_work_git[OF p(4)])
    have links: "if steps = [] then True else no_link_out W (ws_worktree x)" using c(3) by simp
    have fin: "if exit_code = 0 then steps = git_program (ra_commit_message a) else True"
      using c(4) zero writer_fails_nonzero[of S W seat a _ acts] inner by (auto simp: st(3) failing_committed)
    have a': "acts = Spawned program args (seat_child_env (seat_os.truncate W) (ws_profile x) i (ws_home x) (ws_env_add x)) (ws_worktree x)
        # GroupKilled # GitRun CHANGES_ARGS # map GitRun steps @ [DirRemoved (ws_output_dir x)]" by (simp add: acts i(6) c(1))
    from pre(1) obtain surface where su: "seat_run_surface (ra_surface a) = Inr surface" "writer_gate W seat surface = Inr ()" by blast
    note seat_env_own_keys[OF pre(2,3) i(1) pre(4)] escape_audit_ok[OF p(1) i(3)] wrapped_with_behind[OF i(2)[unfolded writer_seatbelt_wrap_def]]
    with x su a' i(1,3) st(1) p(2,3) c(2) links fin
    have "\<exists>x i program args env before status p steps surface.
         prepare_writer W a seat = Inr x
         \<and> seat_run_surface (ra_surface a) = Inr surface \<and> writer_gate W seat surface = Inr ()
         \<and> acts = Spawned program args env (ws_worktree x) # GroupKilled # GitRun CHANGES_ARGS # map GitRun steps @ [DirRemoved (ws_output_dir x)]
         \<and> build_new_seat_invocation seat
              (writer_request a (ws_prompt x) (ws_home x) (ws_output_dir x) (ws_worktree x)) = Inr i
         \<and> behind_profile (seat_os.truncate W) (ws_bin x) (inv_args i)
              (render_writer_seatbelt_profile (os_canonicalize W) (ws_home x) (ws_output_dir x) (os_temp_dir W) (ws_worktree x)) program args
         \<and> set (scan_stray_keys env) \<subseteq> set (own_keys seat)
         \<and> seat_run_snapshot (os_before W) (wo_meta_before W) (ws_worktree x) (ws_dirs x) = Inr before
         \<and> seat_run_snapshot (os_after W) (wo_meta_after W) (ws_worktree x) (ws_dirs x) = Inr before
         \<and> wo_end W = WExited (Inr status)
         \<and> seat_turn S seat (ch_lines (os_child W)) (os_journal W) (os_export W) status = Some p
         \<and> not_failed p
         \<and> prefix steps (git_program (ra_commit_message a))
         \<and> (if steps = [] then True else no_link_out W (ws_worktree x))
         \<and> (if exit_code = 0 then steps = git_program (ra_commit_message a) else True)"
      by (intro exI conjI)
    with True show ?thesis unfolding seat_def by (simp only: run prod.case if_True)
  qed (simp add: run)
qed

text \<open>A writer that ran out of time or was signalled fails before the audit: what it left in the parent repository or in the
  git metadata has no part in the result.\<close>

lemma stopped_writer_is_not_audited:
  assumes "wo_end W = WTimedOut \<or> wo_end W = WSignalled sig"
  shows "writer_ended S (W\<lparr>os_after := V, wo_meta_after := M\<rparr>) a seat worktree dirs before = writer_ended S W a seat worktree dirs before"
  using assms by (auto simp: writer_ended_def)

end
