(* ===== verification/Spec2Isabelle.thy ===== *)
theory Spec2Isabelle
  imports DeepSeek_Breaker Jury Blind_Validation Abe_Worker Abe_Build Fleet_Recovery
    Claude_Stream Codex_Stream Gemini_Stream Grok_Stream Agy_Stream Seat_Streams Seat_Writer
begin

text \<open>
  Verification development of the Triumvirate daemon (\<open>src/daemon/crates\<close>). The daemon lets several command line
  agents (its seats: claude, codex, grok, antigravity, deepseek and the newer ones) review, vote and write code for
  each other, and its own work is to decide whom to ask, what an answer is worth, and what state survives a crash.

  \<^bold>\<open>The parts and how they interact.\<close> A tool call names a seat. The seat table says who that is, the surface gate and
  the availability files say whether it may be asked there, and the resilience layers in front of the paid back ends say
  whether it may be asked now. The agent's output stream is parsed into a record of tool calls; for a review the sight
  gate compares these records with the files on disk and accepts the answer only when every named source was opened and
  its lines were shown, with one repair turn otherwise. A jury asks several seats and tallies their verdicts; blind validation has
  a seat write tests for a change it may not see. The build engine reads a plan, runs its tasks wave by wave as worker
  processes, tracks each of them, checks their commits and can be resumed. A fleet runs workers in work trees: tasks are
  claimed in the ledger, a worker is launched under a token, its end is recorded, its output is reviewed by another
  seat, approved branches are merged, and recovery gives back what a crashed daemon had left.

  \<^bold>\<open>Theories and sources.\<close>
  \<^item> \<open>Rust_Prelude\<close>, \<open>Rust_Text\<close>, \<open>Rust_Path\<close>: what the code uses of Rust's integers, strings, paths and ordered maps, and
    the generic lemmas. \<open>ordered_map\<close> is the contract of \<open>BTreeMap\<close>, interpreted on the model of it.
  \<^item> \<open>Seats\<close>, \<open>Seat_Gate\<close>: \<open>seat_profile.rs\<close>, \<open>seat_state.rs\<close>, \<open>seat_gate.rs\<close> of \<open>mcp-bridge\<close>, and the names of
    \<open>shared-types\<close>. The gate opens exactly under its documented conditions, unreadable state never opens it, and a
    suspension stays until it is cleared.
  \<^item> \<open>Resilience_Spec\<close>, \<open>Agy_Breaker\<close>, \<open>DeepSeek_Breaker\<close>: \<open>agy_resilience.rs\<close> and \<open>deepseek_resilience.rs\<close>. Two locales
    state what a circuit breaker and a rate limiter promise; both back ends interpret them, and the lemmas about the open
    interval, the single probe and the number of grants come from there.
  \<^item> \<open>Jury_Verdict\<close>, \<open>Jury\<close>: \<open>mcp-tools/src/jury.rs\<close>. Which verdict a reply contains, whose vote counts, the tally, and
    its independence of the order in which seats answer.
  \<^item> \<open>Blind_Tests\<close>, \<open>Blind_Validation\<close>: \<open>mcp-tools/src/blind_validation.rs\<close>. What an accepted report establishes.
  \<^item> \<open>Shell_Reads\<close>, \<open>Sight_Gate\<close>, \<open>Sight_Repair\<close>: the shell classification of \<open>agent-adapter/src/codex.rs\<close>, the gate and
    the dispatch of a review in \<open>triumvirate/src/agent_exec.rs\<close>. The sweep over line windows decides coverage exactly.
    Every answer that leaves the dispatch has opened each named source, and was shown each line of it when the source's
    path names one file (\<open>names_one_file\<close>); \<open>doubled_slash_escapes\<close> shows what the gate accepts for a path with \<open>//\<close>.
  \<^item> \<open>Task_Tracker\<close>, \<open>Abe_Contract\<close>, \<open>Abe_Worker\<close>, \<open>Abe_Plan\<close>, \<open>Abe_Build\<close>: the build engine (\<open>triumvirate/src/abe\<close>,
    \<open>shared-types/src/abe.rs\<close>, \<open>mcp-tools/src/abe.rs\<close>). The tracker refines a first-transition-wins specification; a plan
    in the documented form
    is read back as written; the orchestrator returns, keeps to the waves and settles every task; a crash and a resume
    lose nothing that was recorded.
  \<^item> \<open>Contention\<close>: two locales shared by the fleet theories, a store whose final values stay, and a contest that at most one
    contender wins.
  \<^item> \<open>Fleet_Ledger\<close>, \<open>Peer_Review\<close>, \<open>Fleet_Recorders\<close>, \<open>Fleet_Merge\<close>, \<open>Worker_Token\<close>, \<open>Launch_Claim\<close>, \<open>Fleet_Recovery\<close>: the
    ledger (\<open>ledger/src\<close>), \<open>peer-review/src/lib.rs\<close> and the crate \<open>fleet\<close>. One claim per task, one report per task however
    recorders interleave, final verdicts, merges in order and under approval. A stop asks only a
    process whose token it has just confirmed, and the kill that follows reaches that process or the group it left
    behind. Recovery gives a task back when its worker is confirmed gone or stopped, and the exceptions (an unreadable
    directory, a fleet without an owner) are stated beside it.
  \<^item> \<open>Stream_Types\<close>, \<open>Claude_Stream\<close>, \<open>Codex_Stream\<close>, \<open>Gemini_Stream\<close>, \<open>Grok_Stream\<close>, \<open>Agy_Stream\<close>: the parsers of the crate
    \<open>agent-adapter\<close>, line by line as the code reads them. What a parser reports as tool calls and text stood in the stream,
    an error or a missing end never becomes a success, and what follows the end of a turn does not change it.
  \<^item> \<open>Seat_Streams\<close>: \<open>kimi.rs\<close>, \<open>mistral.rs\<close> and \<open>qwen.rs\<close> of \<open>agent-adapter\<close> and the choice of the parser in
    \<open>agent_exec.rs\<close>. When a turn of a newer seat counts as a success, a failure or an exhausted quota.
  \<^item> \<open>Containment\<close>: \<open>containment.rs\<close>, \<open>kimi.rs\<close>, \<open>mistral.rs\<close> and \<open>qwen.rs\<close> of \<open>mcp-bridge\<close>. The command lines, the cleaned
    environment, the sandbox profiles, and the snapshots of a repository with their comparison.
  \<^item> \<open>Seat_Runner\<close>, \<open>Seat_Writer\<close>: \<open>run_new_seat\<close> and the command \<open>seat-run\<close> of \<open>agent_exec.rs\<close>. A reader's answer is returned
    only after an audit whose snapshots were equal, and a writer's work is committed only when the snapshots of the parent
    repository and of the git metadata were equal. On macOS the process runs behind the sandbox profile, elsewhere there
    is none. A turn that fails for its quota closes the seat for the cooldown.

  \<^bold>\<open>Conventions.\<close> Strings are lists of characters, read as the bytes of UTF-8 where the code counts bytes; case folding is
  that of ASCII. Numbers keep their width where they can overflow and are \<open>nat\<close> or \<open>int\<close> elsewhere; a float that the code
  only compares or scales is an exact rational. The answers of the operating system (clock, environment, file system,
  child processes, git) are fields of a record or functions given to the definitions, with one field per moment at
  which the code asks; a parser that is not part of the repository (\<open>serde_json\<close>, regular expressions) is a parameter. A
  SQL statement is one atomic step, and a fault of the store is a value the caller has to handle. Logging, telemetry
  and progress events are left out.

  \<^bold>\<open>Bounds.\<close> Loops are recursions over their data, with a measure where the recursion is not structural. Fuel appears
  where the code itself counts: the eight tries of an ingest and of a lonely claim, the sixteen names of an output
  directory, the cap of the snapshot walk. The loop that waits for a worker to end polls every 50 ms, so
  \<open>limit div 50 + 2\<close> rounds are enough, and \<open>Worker_Token\<close> proves that it returns within them.

  \<^bold>\<open>Not modelled.\<close> The HTTP and MCP servers, the command line and the dashboards carry requests to the parts above and hold
  no rule of their own. The DeepSeek client, the antigravity connector and the runners of the older agents consist of
  network and process I/O around the modelled parsers and breakers. The token accounts, the lessons and the search of the
  ledger, the outbox, the Temporal workflows and the telemetry are read by no modelled decision. Creating work trees and
  starting processes is left to the parameters. The manifest lists each of these with its files.
\<close>

end
